(* ===== verification/Vidra_Prelude.thy ===== *)
theory Vidra_Prelude
  imports Main "HOL-Library.Signed_Division"
begin

text \<open>
  Shared vocabulary of the development.

  \<^item> Go's fixed-width signed integers: values are mathematical integers and every arithmetic
    step that can overflow is wrapped explicitly with \<open>wrap64\<close> or \<open>wrap32\<close> (two's complement).
    \<open>time.Duration\<close> is such an \<open>int64\<close> count of nanoseconds; \<open>time.Time\<close> is an unbounded count of
    nanoseconds and \<open>Time.Sub\<close> saturates.
  \<^item> The operations of Go's \<open>strings\<close> and \<open>bytes\<close> packages the sources use, on byte strings.
  \<^item> The error discipline: an operation on a state is \<open>'s \<Rightarrow> ('e + 'a) \<times> 's\<close>, \<open>Inl\<close> for an
    error return, and \<open>bindE\<close> stops at the first error as \<open>if err != nil \<dots> return\<close> does.
  \<^item> The database seam: \<open>repo\<close> runs one query against a world that carries a clock and a schedule
    of faults, so that every call can fail and theorems hold for every schedule.
\<close>

named_theorems go_int \<open>wrap-around and bounds of Go's fixed-width integers\<close>
named_theorems go_str \<open>facts about the modelled string operations\<close>
named_theorems op_simps \<open>unfolding of the error monad and of repository calls\<close>

section \<open>Fixed-width integers\<close>

definition wrap64 :: "int \<Rightarrow> int" where
  "wrap64 x = (x + 2 ^ 63) mod 2 ^ 64 - 2 ^ 63"

definition wrap32 :: "int \<Rightarrow> int" where
  "wrap32 x = (x + 2 ^ 31) mod 2 ^ 32 - 2 ^ 31"

definition in64 :: "int \<Rightarrow> bool" where
  "in64 x \<longleftrightarrow> - (2 ^ 63) \<le> x \<and> x < 2 ^ 63"

definition in32 :: "int \<Rightarrow> bool" where
  "in32 x \<longleftrightarrow> - (2 ^ 31) \<le> x \<and> x < 2 ^ 31"

lemma wrap64_id [go_int]: "in64 x \<Longrightarrow> wrap64 x = x"
  by (simp add: wrap64_def in64_def)

lemma wrap32_id [go_int]: "in32 x \<Longrightarrow> wrap32 x = x"
  by (simp add: wrap32_def in32_def)

lemma in64_wrap64 [simp]: "in64 (wrap64 x)"
  using pos_mod_bound [of "2 ^ 64" "x + 2 ^ 63"] pos_mod_sign [of "2 ^ 64" "x + 2 ^ 63"]
  by (simp add: wrap64_def in64_def)

lemma in64I [go_int]: "- (2 ^ 63) \<le> x \<Longrightarrow> x < 2 ^ 63 \<Longrightarrow> in64 x"
  by (simp add: in64_def)

text \<open>\<open>Time.Sub\<close> returns a Duration and saturates at the ends of its range.\<close>

definition time_sub :: "int \<Rightarrow> int \<Rightarrow> int" where
  "time_sub a b = max (- (2 ^ 63)) (min (2 ^ 63 - 1) (a - b))"

lemma time_sub_id [go_int]: "in64 (a - b) \<Longrightarrow> time_sub a b = a - b"
  by (simp add: time_sub_def in64_def)

text \<open>Go's integer division truncates towards zero; on non-negative operands it is \<open>div\<close>.\<close>

lemma sdiv_nonneg [go_int]: "0 \<le> a \<Longrightarrow> 0 < b \<Longrightarrow> (a::int) sdiv b = a div b"
  by (cases "a = 0") (simp_all add: signed_divide_int_def)

section \<open>Durations\<close>

abbreviation Millisecond :: int where "Millisecond \<equiv> 1000000"
abbreviation Second :: int where "Second \<equiv> 1000000000"
abbreviation Minute :: int where "Minute \<equiv> 60000000000"
abbreviation Hour :: int where "Hour \<equiv> 3600000000000"

section \<open>Errors and state\<close>

type_synonym ('s, 'e, 'a) op = "'s \<Rightarrow> ('e + 'a) \<times> 's"

definition retE :: "'a \<Rightarrow> ('s, 'e, 'a) op" where
  "retE a = (\<lambda>s. (Inr a, s))"

definition throwE :: "'e \<Rightarrow> ('s, 'e, 'a) op" where
  "throwE e = (\<lambda>s. (Inl e, s))"

definition bindE :: "('s, 'e, 'a) op \<Rightarrow> ('a \<Rightarrow> ('s, 'e, 'b) op) \<Rightarrow> ('s, 'e, 'b) op" where
  "bindE m k = (\<lambda>s. case m s of (Inl e, s') \<Rightarrow> (Inl e, s') | (Inr a, s') \<Rightarrow> k a s')"

text \<open>\<open>catchE m h k\<close> runs \<open>m\<close> and continues with the handler or the continuation.\<close>

definition catchE ::
  "('s, 'e, 'a) op \<Rightarrow> ('e \<Rightarrow> ('s, 'f, 'b) op) \<Rightarrow> ('a \<Rightarrow> ('s, 'f, 'b) op) \<Rightarrow> ('s, 'f, 'b) op" where
  "catchE m h k = (\<lambda>s. case m s of (Inl e, s') \<Rightarrow> h e s' | (Inr a, s') \<Rightarrow> k a s')"

text \<open>\<open>_ = f(x)\<close>: run for the effect and drop both result and error.\<close>

definition ignoreE :: "('s, 'e, 'a) op \<Rightarrow> 's \<Rightarrow> 's" where
  "ignoreE m = (\<lambda>s. snd (m s))"

definition guardE :: "bool \<Rightarrow> 'e \<Rightarrow> ('s, 'e, 'a) op \<Rightarrow> ('s, 'e, 'a) op" where
  "guardE b e m = (if b then throwE e else m)"

lemma retE_apply [op_simps]: "retE a s = (Inr a, s)"
  by (simp add: retE_def)

lemma throwE_apply [op_simps]: "throwE e s = (Inl e, s)"
  by (simp add: throwE_def)

lemma bindE_apply [op_simps]:
  "bindE m k s = (case m s of (Inl e, s') \<Rightarrow> (Inl e, s') | (Inr a, s') \<Rightarrow> k a s')"
  by (simp add: bindE_def)

lemma catchE_apply [op_simps]:
  "catchE m h k s = (case m s of (Inl e, s') \<Rightarrow> h e s' | (Inr a, s') \<Rightarrow> k a s')"
  by (simp add: catchE_def)

lemma ignoreE_apply [op_simps]: "ignoreE m s = snd (m s)"
  by (simp add: ignoreE_def)

lemma guardE_apply [op_simps]: "guardE b e m s = (if b then (Inl e, s) else m s)"
  by (simp add: guardE_def throwE_def)

lemma bindE_Inr:
  "bindE m k s = (Inr b, s'') \<longleftrightarrow> (\<exists>a s'. m s = (Inr a, s') \<and> k a s' = (Inr b, s''))"
  by (auto simp: bindE_def split: prod.splits sum.splits)

lemma bindE_retE [simp]: "bindE (retE a) k = k a"
  by (simp add: bindE_def retE_def)

lemma bindE_throwE [simp]: "bindE (throwE e) k = throwE e"
  by (simp add: bindE_def throwE_def)

lemma bindE_assoc: "bindE (bindE m k) h = bindE m (\<lambda>a. bindE (k a) h)"
  by (auto simp: bindE_def fun_eq_iff split: prod.splits sum.splits)

text \<open>
  \<open>keeps f m\<close>: running \<open>m\<close> does not change the part \<open>f\<close> of the state, whatever it returns. The
  rules in \<open>keeps_rules\<close> follow the structure of an operation.
\<close>

named_theorems keeps_rules \<open>parts of the state an operation leaves alone\<close>

definition keeps :: "('s \<Rightarrow> 'b) \<Rightarrow> ('s, 'e, 'a) op \<Rightarrow> bool" where
  "keeps f m \<longleftrightarrow> (\<forall>s. f (snd (m s)) = f s)"

lemma keepsD: "keeps f m \<Longrightarrow> f (snd (m s)) = f s"
  by (simp add: keeps_def)

lemma keeps_retE [keeps_rules]: "keeps f (retE a)"
  by (simp add: keeps_def retE_def)

lemma keeps_throwE [keeps_rules]: "keeps f (throwE e)"
  by (simp add: keeps_def throwE_def)

lemma keeps_bindE [keeps_rules]: "keeps f m \<Longrightarrow> (\<And>a. keeps f (k a)) \<Longrightarrow> keeps f (bindE m k)"
  by (simp add: keeps_def bindE_def split: prod.splits sum.splits) (metis snd_conv)

lemma keeps_catchE [keeps_rules]:
  "keeps f m \<Longrightarrow> (\<And>e. keeps f (h e)) \<Longrightarrow> (\<And>a. keeps f (k a)) \<Longrightarrow> keeps f (catchE m h k)"
  by (simp add: keeps_def catchE_def split: prod.splits sum.splits) (metis snd_conv)

lemma keeps_guardE [keeps_rules]: "keeps f m \<Longrightarrow> keeps f (guardE b e m)"
  by (simp add: keeps_def guardE_def throwE_def)

lemma keeps_if [keeps_rules]: "(b \<Longrightarrow> keeps f m) \<Longrightarrow> (\<not> b \<Longrightarrow> keeps f n) \<Longrightarrow> keeps f (if b then m else n)"
  by simp

lemma keeps_option [keeps_rules]:
  "keeps f m \<Longrightarrow> (\<And>x. keeps f (n x)) \<Longrightarrow> keeps f (case v of None \<Rightarrow> m | Some x \<Rightarrow> n x)"
  by (cases v) simp_all

text \<open>\<open>preserves P m\<close>: an invariant of the state survives \<open>m\<close>, whatever it returns.\<close>

named_theorems preserves_rules \<open>invariants an operation preserves\<close>

definition preserves :: "('s \<Rightarrow> bool) \<Rightarrow> ('s, 'e, 'a) op \<Rightarrow> bool" where
  "preserves P m \<longleftrightarrow> (\<forall>s. P s \<longrightarrow> P (snd (m s)))"

lemma preservesD: "preserves P m \<Longrightarrow> P s \<Longrightarrow> P (snd (m s))"
  by (simp add: preserves_def)

lemma keeps_preserves: "keeps f m \<Longrightarrow> preserves (\<lambda>s. Q (f s)) m"
  by (simp add: keeps_def preserves_def)

lemma preserves_retE [preserves_rules]: "preserves P (retE a)"
  by (simp add: preserves_def retE_def)

lemma preserves_throwE [preserves_rules]: "preserves P (throwE e)"
  by (simp add: preserves_def throwE_def)

lemma preserves_bindE [preserves_rules]:
  "preserves P m \<Longrightarrow> (\<And>a. preserves P (k a)) \<Longrightarrow> preserves P (bindE m k)"
  by (simp add: preserves_def bindE_def split: prod.splits sum.splits) (metis snd_conv)

lemma preserves_catchE [preserves_rules]:
  "preserves P m \<Longrightarrow> (\<And>e. preserves P (h e)) \<Longrightarrow> (\<And>a. preserves P (k a)) \<Longrightarrow> preserves P (catchE m h k)"
  by (simp add: preserves_def catchE_def split: prod.splits sum.splits) (metis snd_conv)

lemma preserves_guardE [preserves_rules]: "preserves P m \<Longrightarrow> preserves P (guardE b e m)"
  by (simp add: preserves_def guardE_def throwE_def)

lemma preserves_if [preserves_rules]:
  "(b \<Longrightarrow> preserves P m) \<Longrightarrow> (\<not> b \<Longrightarrow> preserves P n) \<Longrightarrow> preserves P (if b then m else n)"
  by simp

lemma preserves_option [preserves_rules]:
  "preserves P m \<Longrightarrow> (\<And>x. preserves P (n x)) \<Longrightarrow> preserves P (case v of None \<Rightarrow> m | Some x \<Rightarrow> n x)"
  by (cases v) simp_all

section \<open>The database seam\<close>

record world =
  w_now :: int
  w_faults :: "bool list"

datatype db_error = ErrDB

definition repo :: "('z world_scheme \<Rightarrow> 'a \<times> 'z world_scheme) \<Rightarrow> ('z world_scheme, db_error, 'a) op" where
  "repo q w = (case w_faults w of
      True # fs \<Rightarrow> (Inl ErrDB, w\<lparr>w_faults := fs\<rparr>)
    | _ \<Rightarrow> (let (a, w') = q (w\<lparr>w_faults := tl (w_faults w)\<rparr>) in (Inr a, w')))"

text \<open>A statement that the schema's constraints may refuse.\<close>

definition repoE :: "('z world_scheme \<Rightarrow> (db_error + 'a) \<times> 'z world_scheme) \<Rightarrow> ('z world_scheme, db_error, 'a) op" where
  "repoE q w = (case w_faults w of
      True # fs \<Rightarrow> (Inl ErrDB, w\<lparr>w_faults := fs\<rparr>)
    | _ \<Rightarrow> q (w\<lparr>w_faults := tl (w_faults w)\<rparr>))"

definition healthy :: "'z world_scheme \<Rightarrow> bool" where
  "healthy w \<longleftrightarrow> w_faults w = []"

text \<open>
  A query that does not touch the fault schedule is a \<open>query\<close>; on a healthy world \<open>repo\<close> runs it.
\<close>

lemma repo_healthy [op_simps]:
  "w_faults w = [] \<Longrightarrow> repo q w = (let (a, w') = q (w\<lparr>w_faults := []\<rparr>) in (Inr a, w'))"
  by (simp add: repo_def)

lemma repoE_healthy [op_simps]:
  "w_faults w = [] \<Longrightarrow> repoE q w = q (w\<lparr>w_faults := []\<rparr>)"
  by (simp add: repoE_def)

lemma healthy_noop: "w_faults w = [] \<Longrightarrow> w\<lparr>w_faults := []\<rparr> = (w :: 'z world_scheme)"
  by (cases w) simp

lemma repo_cases:
  obtains (fault) fs where "w_faults w = True # fs" "repo q w = (Inl ErrDB, w\<lparr>w_faults := fs\<rparr>)"
  | (run) a w' where "q (w\<lparr>w_faults := tl (w_faults w)\<rparr>) = (a, w')" "repo q w = (Inr a, w')"
proof (cases "w_faults w \<noteq> [] \<and> hd (w_faults w)")
  case True
  then obtain fs where "w_faults w = True # fs" by (cases "w_faults w") auto
  then show ?thesis using fault by (simp add: repo_def)
next
  case False
  obtain a w' where q: "q (w\<lparr>w_faults := tl (w_faults w)\<rparr>) = (a, w')" by fastforce
  have "repo q w = (Inr a, w')"
    using False q by (cases "w_faults w") (simp_all add: repo_def)
  with q show ?thesis by (rule run)
qed

lemma keeps_repo:
  assumes "\<And>v fs. f (v\<lparr>w_faults := fs\<rparr>) = f v" "\<And>v. f (snd (q v)) = f v"
  shows "keeps f (repo q)"
  unfolding keeps_def
proof
  fix w show "f (snd (repo q w)) = f w"
    by (cases rule: repo_cases [of w q]) (use assms in \<open>metis snd_conv\<close>)+
qed

lemma keeps_repoE:
  assumes "\<And>v fs. f (v\<lparr>w_faults := fs\<rparr>) = f v" "\<And>v. f (snd (q v)) = f v"
  shows "keeps f (repoE q)"
  unfolding keeps_def repoE_def using assms by (simp split: list.splits bool.splits)

lemma preserves_repoE:
  assumes "\<And>v fs. P v \<Longrightarrow> P (v\<lparr>w_faults := fs\<rparr>)" "\<And>v. P v \<Longrightarrow> P (snd (q v))"
  shows "preserves P (repoE q)"
  unfolding preserves_def repoE_def using assms by (simp split: list.splits bool.splits)

text \<open>
  Frame rule: whatever a query keeps, and popping the schedule keeps, the call keeps. Every
  invariant of the services is carried through their repository calls by this rule.
\<close>

lemma repo_keeps:
  assumes "P w" and "\<And>v fs. P v \<Longrightarrow> P (v\<lparr>w_faults := fs\<rparr>)" and "\<And>v. P v \<Longrightarrow> P (snd (q v))"
  shows "P (snd (repo q w))"
proof (cases rule: repo_cases [of w q])
  case (fault fs)
  then show ?thesis using assms(1,2) by simp
next
  case (run a w')
  have "P (snd (q (w\<lparr>w_faults := tl (w_faults w)\<rparr>)))"
    using assms by blast
  then show ?thesis using run by simp
qed

end
