(* ===== verification/Rate_Limit.thy ===== *)
theory Rate_Limit
  imports Vidra_Prelude
begin

text \<open>
  The fixed-window rate limiter of \<^verbatim>\<open>internal/ratelimit\<close>: the process-local \<open>MemoryCounter\<close>
  (\<^verbatim>\<open>memory.go\<close>), the counter interface as the locale \<open>window_counter\<close> and the \<open>Limiter\<close> on top of
  it (\<^verbatim>\<open>ratelimit.go\<close>). The Redis counter is a client of a third-party store: its \<open>Incr\<close> is modelled
  over the three pipelined replies, which are parameters. The budget theorem is proved once, for
  every counter that satisfies the interface, and read off for the memory counter.
\<close>

section \<open>The in-memory counter\<close>

text \<open>
  \<open>Counter.Incr\<close>: the clock reading, the key and the window; the count and the remaining time, or
  \<open>None\<close> for an error.
\<close>

type_synonym 's counter = "int \<Rightarrow> string \<Rightarrow> int \<Rightarrow> 's \<Rightarrow> (int \<times> int) option \<times> 's"

record memEntry =
  me_count :: int
  me_expires :: int

record MemoryCounter =
  mc_entries :: "string \<rightharpoonup> memEntry"
  mc_lastSweep :: int

text \<open>The zero value of \<open>time.Time\<close> is an instant far in the past of every clock reading.\<close>

definition NewMemoryCounter :: "int \<Rightarrow> MemoryCounter" where
  "NewMemoryCounter zeroTime = \<lparr>mc_entries = Map.empty, mc_lastSweep = zeroTime\<rparr>"

definition sweep_entries :: "int \<Rightarrow> (string \<rightharpoonup> memEntry) \<Rightarrow> (string \<rightharpoonup> memEntry)" where
  "sweep_entries now m = (\<lambda>k. case m k of
      None \<Rightarrow> None
    | Some e \<Rightarrow> if \<not> now < me_expires e then None else Some e)"

definition mem_Incr :: "MemoryCounter counter" where
  "mem_Incr now key window m =
    (let m1 = (if time_sub now (mc_lastSweep m) \<ge> window
               then m\<lparr>mc_entries := sweep_entries now (mc_entries m), mc_lastSweep := now\<rparr>
               else m);
         e = (case mc_entries m1 key of
                None \<Rightarrow> \<lparr>me_count = 0, me_expires = now + window\<rparr>
              | Some e \<Rightarrow> if \<not> now < me_expires e then \<lparr>me_count = 0, me_expires = now + window\<rparr> else e);
         e' = e\<lparr>me_count := wrap64 (me_count e + 1)\<rparr>
     in (Some (me_count e', time_sub (me_expires e') now), m1\<lparr>mc_entries := (mc_entries m1)(key \<mapsto> e')\<rparr>))"

section \<open>The Redis counter\<close>

text \<open>
  \<open>RedisCounter.Incr\<close> over the replies of the pipelined \<open>INCR\<close>, \<open>EXPIRE NX\<close> and \<open>PTTL\<close>:
  \<open>exec_ok\<close> is whether the pipeline ran, \<open>incr_val\<close> and \<open>pttl_val\<close> are the two values it reads.
\<close>

definition redis_Incr :: "bool \<Rightarrow> int \<Rightarrow> int \<Rightarrow> int \<Rightarrow> (int \<times> int) option" where
  "redis_Incr exec_ok incr_val pttl_val window =
    (if \<not> exec_ok then None
     else Some (incr_val, if pttl_val < 0 then window else pttl_val))"

section \<open>The limiter\<close>

record Limiter =
  l_limit :: int
  l_window :: int

record Result =
  r_Allowed :: bool
  r_Limit :: int
  r_Remaining :: int
  r_Reset :: int
  r_RetryAfter :: int

definition Allow_result :: "Limiter \<Rightarrow> int \<Rightarrow> int \<Rightarrow> Result" where
  "Allow_result l count ttl0 =
    (let ttl = (if ttl0 \<le> 0 then l_window l else ttl0);
         remaining = wrap64 (l_limit l - count);
         res = \<lparr>r_Allowed = False, r_Limit = l_limit l,
                r_Remaining = (if remaining > 0 then remaining else 0),
                r_Reset = ttl, r_RetryAfter = 0\<rparr>
     in if count \<le> l_limit l then res\<lparr>r_Allowed := True\<rparr> else res\<lparr>r_RetryAfter := ttl\<rparr>)"

definition Allow :: "'s counter \<Rightarrow> Limiter \<Rightarrow> int \<Rightarrow> string \<Rightarrow> 's \<Rightarrow> Result option \<times> 's" where
  "Allow incr l now key s =
    (let (reply, s') = incr now key (l_window l) s
     in (map_option (\<lambda>(count, ttl). Allow_result l count ttl) reply, s'))"

text \<open>
  A run of requests, each a time and a key, and the times at which the requests of one key were
  allowed.
\<close>

definition allowed :: "Result option \<Rightarrow> bool" where
  "allowed r = (case r of None \<Rightarrow> False | Some r \<Rightarrow> r_Allowed r)"

fun granted_to :: "'s counter \<Rightarrow> Limiter \<Rightarrow> string \<Rightarrow> (int \<times> string) list \<Rightarrow> 's \<Rightarrow> int list" where
  "granted_to incr l k [] s = []"
| "granted_to incr l k ((t, j) # rs) s =
     (if j = k \<and> allowed (fst (Allow incr l t j s)) then [t] else [])
       @ granted_to incr l k rs (snd (Allow incr l t j s))"

section \<open>The specification: one window automaton per key\<close>

text \<open>
  The window of one key is its count and its expiry. A request restarts it when there is none or an
  expired one and counts within a live one; it is granted while the count is within the budget.
\<close>

fun window_step :: "int \<Rightarrow> int \<Rightarrow> (int \<times> int) option \<Rightarrow> int \<times> int" where
  "window_step w t None = (1, t + w)"
| "window_step w t (Some (c, x)) = (if t < x then (c + 1, x) else (1, t + w))"

fun spec_granted :: "int \<Rightarrow> int \<Rightarrow> int list \<Rightarrow> (int \<times> int) option \<Rightarrow> int list" where
  "spec_granted lim w [] v = []"
| "spec_granted lim w (t # ts) v =
     (let v' = window_step w t v
      in (if fst v' \<le> lim then [t] else []) @ spec_granted lim w ts (Some v'))"

definition lapsed :: "int \<Rightarrow> (int \<times> int) option \<Rightarrow> bool" where
  "lapsed t v \<longleftrightarrow> (case v of None \<Rightarrow> True | Some (c, x) \<Rightarrow> x \<le> t)"

lemma window_step_lapsed: "lapsed t v \<Longrightarrow> window_step w t v = (1, t + w)"
  by (auto simp: lapsed_def split: option.splits)

lemma spec_granted_lapsed:
  assumes "lapsed (hd ts) v" and "lapsed (hd ts) v'"
  shows "spec_granted lim w ts v = spec_granted lim w ts v'"
  using assms by (cases ts) (simp_all add: window_step_lapsed)

lemma spec_granted_live:
  assumes "\<forall>t\<in>set ts. t < x"
  shows "spec_granted lim w ts (Some (c, x)) = take (nat (lim - c)) ts"
  using assms
proof (induction ts arbitrary: c)
  case Nil
  then show ?case by simp
next
  case (Cons t ts)
  have IH: "spec_granted lim w ts (Some (c + 1, x)) = take (nat (lim - (c + 1))) ts"
    using Cons by simp
  show ?case
  proof (cases "c + 1 \<le> lim")
    case True
    then have "nat (lim - c) = Suc (nat (lim - (c + 1)))" by simp
    with True IH Cons.prems show ?thesis by simp
  next
    case False
    with IH Cons.prems show ?thesis by simp
  qed
qed

lemma spec_granted_fresh:
  assumes "lapsed t v" and "\<forall>u\<in>set ts. u < t + w"
  shows "spec_granted lim w (t # ts) v = take (nat lim) (t # ts)"
proof (cases "1 \<le> lim")
  case True
  then have "nat lim = Suc (nat (lim - 1))" by simp
  with True assms show ?thesis
    by (simp add: window_step_lapsed spec_granted_live)
next
  case False
  with assms show ?thesis
    by (simp add: window_step_lapsed spec_granted_live)
qed

text \<open>
  At most two windows meet an interval of one window length, so the grants in it are at most twice
  the budget.
\<close>

lemma spec_granted_append:
  assumes "\<forall>t\<in>set us. t < x" and "\<forall>t\<in>set ts. x \<le> t"
  shows "spec_granted lim w (us @ ts) (Some (c, x))
       = take (nat (lim - c)) us @ spec_granted lim w ts None"
  using assms(1)
proof (induction us arbitrary: c)
  case Nil
  have "spec_granted lim w ts (Some (c, x)) = spec_granted lim w ts None"
    using assms(2) by (cases ts) simp_all
  then show ?case by simp
next
  case (Cons t us)
  have IH: "spec_granted lim w (us @ ts) (Some (c + 1, x))
      = take (nat (lim - (c + 1))) us @ spec_granted lim w ts None"
    using Cons by simp
  show ?case
  proof (cases "c + 1 \<le> lim")
    case True
    then have "nat (lim - c) = Suc (nat (lim - (c + 1)))" by simp
    with True IH Cons.prems show ?thesis by simp
  next
    case False
    with IH Cons.prems show ?thesis by simp
  qed
qed

lemma sorted_split:
  assumes "sorted (ts :: int list)"
  obtains us vs where "ts = us @ vs" "\<forall>t\<in>set us. t < x" "\<forall>t\<in>set vs. x \<le> t"
proof
  show "ts = takeWhile (\<lambda>t. t < x) ts @ dropWhile (\<lambda>t. t < x) ts" by simp
  show "\<forall>t\<in>set (takeWhile (\<lambda>t. t < x) ts). t < x" by (auto dest: set_takeWhileD)
  show "\<forall>t\<in>set (dropWhile (\<lambda>t. t < x) ts). x \<le> t"
  proof (cases "dropWhile (\<lambda>t. t < x) ts")
    case (Cons y ys)
    have "sorted (y # ys)" using sorted_dropWhile [OF assms] Cons by metis
    moreover have "x \<le> y" using hd_dropWhile [of "\<lambda>t. t < x" ts] Cons by simp
    ultimately show ?thesis using Cons by auto
  next
    case Nil
    show ?thesis unfolding Nil by simp
  qed
qed

lemma spec_granted_interval:
  assumes "sorted ts" and "\<forall>t\<in>set ts. a \<le> t \<and> t < a + w" and "0 \<le> lim"
    and "\<And>c x. v = Some (c, x) \<Longrightarrow> 0 \<le> c"
  shows "length (spec_granted lim w ts v) \<le> 2 * nat lim"
proof -
  have fresh: "length (spec_granted lim w us None) \<le> nat lim"
    if "sorted us" "\<forall>t\<in>set us. a \<le> t \<and> t < a + w" for us
  proof (cases us)
    case (Cons t us')
    have "\<forall>u\<in>set us'. u < t + w" using that Cons by auto
    then have "spec_granted lim w us None = take (nat lim) us"
      using spec_granted_fresh [of t None us' w lim] Cons by (simp add: lapsed_def)
    then show ?thesis by simp
  qed simp
  show ?thesis
  proof (cases v)
    case None
    then show ?thesis using fresh [OF assms(1,2)] by simp
  next
    case (Some cx)
    obtain c x where cx: "cx = (c, x)" by fastforce
    obtain us vs where split: "ts = us @ vs" "\<forall>t\<in>set us. t < x" "\<forall>t\<in>set vs. x \<le> t"
      using sorted_split [OF assms(1)] by blast
    have "length (spec_granted lim w vs None) \<le> nat lim"
      using fresh [of vs] assms(1,2) split(1) by (simp add: sorted_append)
    moreover have "length (take (nat (lim - c)) us) \<le> nat lim"
      using assms(4) Some cx by simp
    ultimately show ?thesis
      using spec_granted_append [OF split(2,3), of lim w c] Some cx split(1) by simp
  qed
qed

section \<open>The counter interface\<close>

text \<open>
  \<open>view s k\<close> is the window a counter keeps for a key. A counter steps the window of the key it is
  called with as the specification does, and never disturbs the live window of another key: it may
  only drop one that has lapsed.
\<close>

locale window_counter =
  fixes incr :: "'s counter"
    and view :: "'s \<Rightarrow> string \<Rightarrow> (int \<times> int) option"
  assumes incr_same: "0 < w \<Longrightarrow> w < 2 ^ 63 \<Longrightarrow>
        (\<And>c x. view s k = Some (c, x) \<Longrightarrow> 0 \<le> c \<and> c < 2 ^ 62 \<and> x - now < 2 ^ 63) \<Longrightarrow>
        fst (incr now k w s) = Some (fst (window_step w now (view s k)), snd (window_step w now (view s k)) - now) \<and>
        view (snd (incr now k w s)) k = Some (window_step w now (view s k))"
    and incr_other: "j \<noteq> k \<Longrightarrow> view (snd (incr now k w s)) j = view s j \<or>
        (view (snd (incr now k w s)) j = None \<and> lapsed now (view s j))"
begin

lemma Allow_allowed:
  assumes "fst (incr now k (l_window l) s) = Some (c, d)"
  shows "allowed (fst (Allow incr l now k s)) \<longleftrightarrow> c \<le> l_limit l"
  using assms by (auto simp: Allow_def Allow_result_def allowed_def Let_def split: prod.splits if_splits)

lemma Allow_snd: "snd (Allow incr l now k s) = snd (incr now k (l_window l) s)"
  by (simp add: Allow_def split: prod.splits)

text \<open>
  Isolation: however the requests of other keys are interleaved, the grants of a key are those of
  its own automaton fed with its own requests.
\<close>

lemma granted_isolated:
  assumes "sorted (map fst rs)" and "0 < l_window l" and "l_window l < 2 ^ 63"
    and "v = view s k \<or> (view s k = None \<and> lapsed (fst (hd rs)) v)"
    and "\<And>c x. v = Some (c, x) \<Longrightarrow> 0 \<le> c \<and> c + int (length rs) < 2 ^ 62"
    and "\<And>c x r. v = Some (c, x) \<Longrightarrow> r \<in> set rs \<Longrightarrow> x - fst r < 2 ^ 63"
    and "\<And>r. r \<in> set rs \<Longrightarrow> int (length rs) < 2 ^ 62"
  shows "granted_to incr l k rs s
       = spec_granted (l_limit l) (l_window l) (map fst (filter (\<lambda>r. snd r = k) rs)) v"
  using assms
proof (induction rs arbitrary: s v)
  case Nil
  then show ?case by simp
next
  case (Cons r rs)
  obtain t j where r: "r = (t, j)" by fastforce
  let ?w = "l_window l" and ?s' = "snd (incr t j (l_window l) s)"
  have later: "\<And>q. q \<in> set rs \<Longrightarrow> t \<le> fst q" using Cons.prems(1) r by auto
  have len: "int (length rs) + 1 < 2 ^ 62" using Cons.prems(7) [of r] by simp
  show ?case
  proof (cases "j = k")
    case True
    have step_eq: "window_step ?w t v = window_step ?w t (view s k)"
      using Cons.prems(4) r by (auto simp: window_step_lapsed)
    have same: "fst (incr t k ?w s) = Some (fst (window_step ?w t v), snd (window_step ?w t v) - t)
        \<and> view (snd (incr t k ?w s)) k = Some (window_step ?w t v)"
      using incr_same [of ?w s k t] Cons.prems(2-6) r unfolding step_eq by fastforce
    obtain c x where cx: "window_step ?w t v = (c, x)" by fastforce
    have c: "0 \<le> c \<and> c + int (length rs) < 2 ^ 62"
      using Cons.prems(5) cx len by (cases "(?w, t, v)" rule: window_step.cases)
        (auto split: if_splits)
    have x: "x - fst q < 2 ^ 63" if "q \<in> set rs" for q
      using Cons.prems(3) Cons.prems(6) [of _ _ q] later [OF that] cx that
      by (cases "(?w, t, v)" rule: window_step.cases) (auto split: if_splits)
    have "granted_to incr l k rs ?s' = spec_granted (l_limit l) ?w
        (map fst (filter (\<lambda>r. snd r = k) rs)) (Some (window_step ?w t v))"
      using Cons.prems(1-3) same c x cx len r True by (intro Cons.IH) auto
    then show ?thesis
      using r True same by (simp add: Allow_allowed [OF conjunct1 [OF same]] Allow_snd Let_def)
  next
    case False
    let ?v = "if lapsed t v then None else v"
    have v': "v = view ?s' k \<or> (view ?s' k = None \<and> lapsed t v)"
      using incr_other [of k j t ?w s] False Cons.prems(4) r by auto
    have lapsed_hd: "lapsed (fst (hd rs)) v" if "lapsed t v" "rs \<noteq> []"
      using that later [of "hd rs"] by (auto simp: lapsed_def split: option.splits)
    have "granted_to incr l k rs ?s' = spec_granted (l_limit l) ?w
        (map fst (filter (\<lambda>r. snd r = k) rs)) v"
    proof (cases "rs = []")
      case False
      then show ?thesis
        using Cons.prems v' lapsed_hd len by (intro Cons.IH) auto
    qed simp
    then show ?thesis using r False by (simp add: Allow_snd)
  qed
qed

end

section \<open>The memory counter implements the interface\<close>

definition mem_view :: "MemoryCounter \<Rightarrow> string \<Rightarrow> (int \<times> int) option" where
  "mem_view m k = map_option (\<lambda>e. (me_count e, me_expires e)) (mc_entries m k)"

lemma sweep_entries_live:
  "sweep_entries now m k = Some e \<longleftrightarrow> m k = Some e \<and> now < me_expires e"
  by (auto simp: sweep_entries_def split: option.splits)

lemma mem_Incr_same:
  assumes "0 < w" "w < 2 ^ 63"
    and "\<And>c x. mem_view s k = Some (c, x) \<Longrightarrow> 0 \<le> c \<and> c < 2 ^ 62 \<and> x - now < 2 ^ 63"
  shows "fst (mem_Incr now k w s) = Some (fst (window_step w now (mem_view s k)),
           snd (window_step w now (mem_view s k)) - now)
      \<and> mem_view (snd (mem_Incr now k w s)) k = Some (window_step w now (mem_view s k))"
proof (cases "\<exists>e. mc_entries s k = Some e \<and> now < me_expires e")
  case True
  then obtain e where e: "mc_entries s k = Some e" "now < me_expires e" by blast
  have b: "0 \<le> me_count e" "me_count e < 2 ^ 62" "me_expires e - now < 2 ^ 63"
    using assms(3) [of "me_count e" "me_expires e"] e(1) by (auto simp: mem_view_def)
  have "wrap64 (me_count e + 1) = me_count e + 1"
    using b by (intro wrap64_id in64I) simp_all
  moreover have "time_sub (me_expires e) now = me_expires e - now"
    using b e by (intro time_sub_id in64I) simp_all
  ultimately show ?thesis
    using e by (simp add: mem_Incr_def mem_view_def Let_def sweep_entries_def)
next
  case False
  then have l: "lapsed now (mem_view s k)"
    by (auto simp: lapsed_def mem_view_def split: option.splits)
  have "wrap64 1 = 1" by (intro wrap64_id in64I) simp_all
  moreover have "time_sub (now + w) now = w"
    using assms(1,2) by (subst time_sub_id) (auto intro: in64I)
  ultimately show ?thesis
    using False by (auto simp: window_step_lapsed [OF l] mem_Incr_def mem_view_def Let_def
        sweep_entries_def split: option.splits)
qed

lemma mem_Incr_other:
  "j \<noteq> k \<Longrightarrow> mem_view (snd (mem_Incr now k w s)) j = mem_view s j \<or>
     (mem_view (snd (mem_Incr now k w s)) j = None \<and> lapsed now (mem_view s j))"
  by (auto simp: mem_Incr_def mem_view_def Let_def sweep_entries_def lapsed_def
      split: option.splits)

interpretation mem: window_counter mem_Incr mem_view
  by unfold_locales (use mem_Incr_same mem_Incr_other in blast)+

section \<open>Properties of the limiter over the memory counter\<close>

fun spec_run :: "int \<Rightarrow> int list \<Rightarrow> (int \<times> int) option \<Rightarrow> (int \<times> int) option" where
  "spec_run w [] v = v"
| "spec_run w (t # ts) v = spec_run w ts (Some (window_step w t v))"

lemma spec_granted_run:
  "spec_granted lim w (xs @ ys) v = spec_granted lim w xs v @ spec_granted lim w ys (spec_run w xs v)"
  by (induction xs arbitrary: v) (simp_all add: Let_def)

lemma spec_granted_subset: "set (spec_granted lim w ts v) \<subseteq> set ts"
  by (induction ts arbitrary: v) (auto simp: Let_def)

lemma window_step_pos: "(\<And>c x. v = Some (c, x) \<Longrightarrow> 0 \<le> c) \<Longrightarrow> 0 \<le> fst (window_step w t v)"
  by (cases "(w, t, v)" rule: window_step.cases) auto

lemma spec_run_nonneg:
  "(\<And>c x. v = Some (c, x) \<Longrightarrow> 0 \<le> c) \<Longrightarrow> spec_run w ts v = Some (c, x) \<Longrightarrow> 0 \<le> c"
proof (induction ts arbitrary: v)
  case (Cons t ts)
  have "0 \<le> c'" if "Some (window_step w t v) = Some (c', x')" for c' x'
    using that window_step_pos [of v w t] Cons.prems(1) by auto
  then show ?case using Cons.IH Cons.prems(2) by (metis spec_run.simps(2))
qed simp

lemma mem_granted_new:
  assumes "sorted (map fst rs)" "0 < l_window l" "l_window l < 2 ^ 63" "length rs < 2 ^ 62"
  shows "granted_to mem_Incr l k rs (NewMemoryCounter z)
       = spec_granted (l_limit l) (l_window l) (map fst (filter (\<lambda>r. snd r = k) rs)) None"
  using assms by (intro mem.granted_isolated) (auto simp: NewMemoryCounter_def mem_view_def)

lemma filter_none: "(\<forall>x\<in>set xs. \<not> P x) \<Longrightarrow> filter P xs = []"
  by (induction xs) auto

lemma spec_granted_window_count:
  assumes "sorted ts" and "0 \<le> lim"
  shows "length (filter (\<lambda>t. a \<le> t \<and> t < a + w) (spec_granted lim w ts None)) \<le> 2 * nat lim"
proof -
  let ?P = "\<lambda>t. a \<le> t \<and> t < a + w"
  obtain us vs where uv: "ts = us @ vs" "\<forall>t\<in>set us. t < a" "\<forall>t\<in>set vs. a \<le> t"
    using sorted_split [OF assms(1)] by blast
  have "sorted vs" using assms(1) uv(1) by (simp add: sorted_append)
  then obtain xs ys where xy: "vs = xs @ ys" "\<forall>t\<in>set xs. t < a + w" "\<forall>t\<in>set ys. a + w \<le> t"
    using sorted_split by blast
  let ?v = "spec_run w us None"
  have "filter ?P (spec_granted lim w us None) = []"
    using spec_granted_subset [of lim w us None] uv(2) by (intro filter_none) fastforce
  moreover have "filter ?P (spec_granted lim w ys (spec_run w xs ?v)) = []"
    using spec_granted_subset [of lim w ys "spec_run w xs ?v"] xy(3) by (intro filter_none) fastforce
  ultimately have "filter ?P (spec_granted lim w ts None) = filter ?P (spec_granted lim w xs ?v)"
    using uv(1) xy(1) by (simp add: spec_granted_run)
  moreover have "length (spec_granted lim w xs ?v) \<le> 2 * nat lim"
    using \<open>sorted vs\<close> xy uv assms(2) spec_run_nonneg [of None w us]
    by (intro spec_granted_interval [where a = a]) (auto simp: sorted_append)
  ultimately show ?thesis
    by (metis (no_types, lifting) length_filter_le order_trans)
qed

lemma mem_Allow_denied:
  assumes "0 < l_window l" "l_window l < 2 ^ 63" "1 \<le> l_limit l"
    and "\<And>c x. mem_view s k = Some (c, x) \<Longrightarrow> 0 \<le> c \<and> c < 2 ^ 62 \<and> x - now < 2 ^ 63"
    and "fst (Allow mem_Incr l now k s) = Some r" and "\<not> r_Allowed r"
  obtains c x where "mem_view s k = Some (c, x)" "now < x" "r_RetryAfter r = x - now"
    "mem_view (snd (Allow mem_Incr l now k s)) k = Some (c + 1, x)"
proof -
  have same: "fst (mem_Incr now k (l_window l) s) = Some (fst (window_step (l_window l) now (mem_view s k)),
           snd (window_step (l_window l) now (mem_view s k)) - now)
      \<and> mem_view (snd (mem_Incr now k (l_window l) s)) k = Some (window_step (l_window l) now (mem_view s k))"
    using assms(1,2,4) by (rule mem_Incr_same)
  have r: "r = Allow_result l (fst (window_step (l_window l) now (mem_view s k)))
      (snd (window_step (l_window l) now (mem_view s k)) - now)"
    using assms(5) conjunct1 [OF same] by (auto simp: Allow_def split: prod.splits)
  then have over: "l_limit l < fst (window_step (l_window l) now (mem_view s k))"
    using assms(6) by (auto simp: Allow_result_def Let_def split: if_splits)
  then obtain c x where v: "mem_view s k = Some (c, x)" "now < x"
    using assms(3) by (cases "(l_window l, now, mem_view s k)" rule: window_step.cases)
      (auto split: if_splits)
  have "r_RetryAfter r = x - now"
    using r over v by (simp add: Allow_result_def Let_def)
  then show thesis
    using that v conjunct2 [OF same] by (simp add: mem.Allow_snd)
qed

text \<open>C16. Over any history of requests of any clients, the fixed-window limiter grants one client at
  most twice its limit in any interval as long as the window.\<close>

theorem limiter_interval_budget:
  assumes "sorted (map fst rs)" and "length rs < 2 ^ 62"
    and "0 < l_window l" and "l_window l < 2 ^ 63" and "0 \<le> l_limit l"
  shows "length (filter (\<lambda>t. a \<le> t \<and> t < a + l_window l) (granted_to mem_Incr l k rs (NewMemoryCounter z)))
       \<le> 2 * nat (l_limit l)"
proof -
  have "sorted (map fst (filter (\<lambda>r. snd r = k) rs))"
    using assms(1) by (rule sorted_filter)
  then show ?thesis
    using spec_granted_window_count assms(5) mem_granted_new [OF assms(1,3,4,2)] by simp
qed

theorem limiter_interval_budget_witness:
  "length (filter (\<lambda>t. 0 \<le> t \<and> t < 10) (granted_to mem_Incr \<lparr>l_limit = 1, l_window = 10\<rparr> ''a''
     [(-5, ''a''), (1, ''b''), (2, ''a''), (6, ''a'')] (NewMemoryCounter (-1000)))) \<le> 2"
  using limiter_interval_budget [of "[(-5, ''a''), (1, ''b''), (2, ''a''), (6, ''a'')]"
      "\<lparr>l_limit = 1, l_window = 10\<rparr>" 0 "''a''" "-1000"] by simp

text \<open>If all requests of a client fall within one window of its first one, the limiter grants
  exactly the first limit ones, whatever the other clients do.\<close>

theorem limiter_window_exact:
  assumes "sorted (map fst rs)" and "length rs < 2 ^ 62"
    and "0 < l_window l" and "l_window l < 2 ^ 63"
    and "map fst (filter (\<lambda>r. snd r = k) rs) = t # ts" and "\<forall>u\<in>set ts. u < t + l_window l"
  shows "granted_to mem_Incr l k rs (NewMemoryCounter z) = take (nat (l_limit l)) (t # ts)"
  using mem_granted_new [OF assms(1,3,4,2)] spec_granted_fresh [of t None ts] assms(5,6)
  by (simp add: lapsed_def)

theorem limiter_window_exact_witness:
  "granted_to mem_Incr \<lparr>l_limit = 2, l_window = 10\<rparr> ''a''
     [(1, ''a''), (1, ''b''), (2, ''a''), (6, ''a'')] (NewMemoryCounter (-1000)) = [1, 2]"
  using limiter_window_exact [of "[(1, ''a''), (1, ''b''), (2, ''a''), (6, ''a'')]"
      "\<lparr>l_limit = 2, l_window = 10\<rparr>" "''a''" 1 "[2, 6]" "-1000"] by simp

text \<open>A refusal names a positive wait, and a client that waits that long is granted its next
  request.\<close>

theorem limiter_retry_after:
  assumes "0 < l_window l" and "l_window l < 2 ^ 63" and "1 \<le> l_limit l"
    and "\<And>c x. mem_view s k = Some (c, x) \<Longrightarrow> 0 \<le> c \<and> c + 1 < 2 ^ 62 \<and> x - now < 2 ^ 63"
    and "fst (Allow mem_Incr l now k s) = Some r" and "\<not> r_Allowed r"
    and "now + r_RetryAfter r \<le> later"
  shows "0 < r_RetryAfter r \<and>
    allowed (fst (Allow mem_Incr l later k (snd (Allow mem_Incr l now k s))))"
proof -
  let ?s = "snd (Allow mem_Incr l now k s)"
  have pre: "\<And>c x. mem_view s k = Some (c, x) \<Longrightarrow> 0 \<le> c \<and> c < 2 ^ 62 \<and> x - now < 2 ^ 63"
    using assms(4) by fastforce
  obtain c x where cx: "mem_view s k = Some (c, x)" "now < x" "r_RetryAfter r = x - now"
    "mem_view ?s k = Some (c + 1, x)"
    using mem_Allow_denied [OF assms(1,2,3) pre assms(5,6)] by blast
  have "fst (mem_Incr later k (l_window l) ?s) = Some (1, l_window l)"
    using mem_Incr_same [of "l_window l" ?s k later] assms(1,2,4,7) cx by auto
  then show ?thesis
    using assms(3) cx by (simp add: mem.Allow_allowed)
qed

theorem limiter_retry_after_witness:
  "let s = \<lparr>mc_entries = [''a'' \<mapsto> \<lparr>me_count = 1, me_expires = 10\<rparr>], mc_lastSweep = 0\<rparr>;
       l = \<lparr>l_limit = 1, l_window = 10\<rparr>
   in allowed (fst (Allow mem_Incr l 12 ''a'' (snd (Allow mem_Incr l 4 ''a'' s))))"
  unfolding Let_def
  by (rule limiter_retry_after [where r = "\<lparr>r_Allowed = False, r_Limit = 1, r_Remaining = 0,
        r_Reset = 6, r_RetryAfter = 6\<rparr>", THEN conjunct2])
    (auto simp: mem_view_def Allow_def Allow_result_def mem_Incr_def time_sub_def wrap64_def
      split: if_splits)

end
