(* ===== verification/Numerals.thy ===== *)
theory Numerals
  imports Vidra_Prelude
begin

text \<open>
  Positional numerals in an arbitrary base, used by the base58 short ids and by \<open>strconv.Itoa\<close>: the
  digits of a number, the number of a digit list, and that the two are inverse on numerals without
  leading zeros.
\<close>

section \<open>Positional numerals\<close>

text \<open>Least significant digit first; the loop \<open>for n.Sign() > 0 { n.DivMod(n, base, mod); \<dots> }\<close>.\<close>

function digits :: "nat \<Rightarrow> nat \<Rightarrow> nat list" where
  "digits b n = (if n = 0 \<or> b < 2 then [] else (n mod b) # digits b (n div b))"
  by pat_completeness auto
termination
  by (relation "measure snd") auto

declare digits.simps [simp del]

primrec numeral_of :: "nat \<Rightarrow> nat list \<Rightarrow> nat" where
  "numeral_of b [] = 0"
| "numeral_of b (d # ds) = d + b * numeral_of b ds"

text \<open>Horner's scheme, most significant digit first, as \<open>SetBytes\<close> and the decoding loop read it.\<close>

definition horner :: "nat \<Rightarrow> nat list \<Rightarrow> nat" where
  "horner b ds = foldl (\<lambda>n d. n * b + d) 0 ds"

lemma numeral_of_append: "numeral_of b (xs @ ys) = numeral_of b xs + b ^ length xs * numeral_of b ys"
  by (induction xs) (simp_all add: algebra_simps)

lemma horner_rev: "horner b ds = numeral_of b (rev ds)"
proof -
  have "foldl (\<lambda>n d. n * b + d) m ds = numeral_of b (rev ds) + b ^ length ds * m" for m
    by (induction ds arbitrary: m) (simp_all add: numeral_of_append algebra_simps)
  then show ?thesis by (simp add: horner_def)
qed

lemma numeral_of_digits: "2 \<le> b \<Longrightarrow> numeral_of b (digits b n) = n"
  by (induction b n rule: digits.induct) (subst digits.simps, simp)

lemma digits_less: "2 \<le> b \<Longrightarrow> d \<in> set (digits b n) \<Longrightarrow> d < b"
proof (induction b n rule: digits.induct)
  case (1 b n)
  then show ?case by (subst (asm) digits.simps) (auto split: if_splits)
qed

lemma digits_last: "2 \<le> b \<Longrightarrow> digits b n \<noteq> [] \<Longrightarrow> last (digits b n) \<noteq> 0"
proof (induction b n rule: digits.induct)
  case (1 b n)
  show ?case
  proof (cases "n = 0")
    case False
    show ?thesis
    proof (cases "digits b (n div b) = []")
      case True
      then have "n div b = 0" using 1(2) by (subst (asm) digits.simps) (auto split: if_splits)
      then have "n mod b = n" by (metis div_eq_0_iff mod_less 1(2) gr0I not_numeral_le_zero)
      then show ?thesis using False True 1(2) by (subst digits.simps) simp
    next
      case ne: False
      then have "last (digits b (n div b)) \<noteq> 0" using 1 False by simp
      then show ?thesis using False ne 1(2) by (subst digits.simps) simp
    qed
  qed (use 1 in \<open>simp add: digits.simps\<close>)
qed

lemma digits_numeral_of:
  assumes "2 \<le> b"
  shows "\<forall>d\<in>set ds. d < b \<Longrightarrow> ds = [] \<or> last ds \<noteq> 0 \<Longrightarrow> digits b (numeral_of b ds) = ds"
proof (induction ds)
  case Nil
  then show ?case by (simp add: digits.simps)
next
  case (Cons d ds)
  have IH: "digits b (numeral_of b ds) = ds"
    using Cons.IH Cons.prems by (cases "ds = []") auto
  have "numeral_of b (d # ds) \<noteq> 0"
  proof (cases "ds = []")
    case True
    then show ?thesis using Cons.prems by simp
  next
    case False
    then have "numeral_of b ds \<noteq> 0" using IH by (metis digits.simps)
    then show ?thesis using assms by simp
  qed
  then have "digits b (numeral_of b (d # ds))
      = (numeral_of b (d # ds) mod b) # digits b (numeral_of b (d # ds) div b)"
    using assms by (subst digits.simps) simp
  then show ?case using IH Cons.prems assms by simp
qed

lemma length_digits_le: "2 \<le> b \<Longrightarrow> n < b ^ k \<Longrightarrow> length (digits b n) \<le> k"
proof (induction k arbitrary: n)
  case 0
  then show ?case by (simp add: digits.simps)
next
  case (Suc k)
  have "n div b < b ^ k" using Suc.prems by (simp add: less_mult_imp_div_less mult.commute)
  then show ?case using Suc by (subst digits.simps) simp
qed

lemma numeral_of_less: "\<forall>d\<in>set ds. d < b \<Longrightarrow> numeral_of b ds < b ^ length ds"
proof (induction ds)
  case (Cons d ds)
  then have "Suc (numeral_of b ds) \<le> b ^ length ds" and "d < b" by simp_all
  then have "b * Suc (numeral_of b ds) \<le> b * b ^ length ds" by (intro mult_le_mono2)
  then show ?case using \<open>d < b\<close> by simp
qed simp

lemma length_digits_ge: "2 \<le> b \<Longrightarrow> b ^ k \<le> n \<Longrightarrow> k < length (digits b n)"
proof (rule ccontr)
  assume "2 \<le> b" "b ^ k \<le> n" "\<not> k < length (digits b n)"
  then have "n < b ^ length (digits b n)"
    using numeral_of_less [of "digits b n" b] numeral_of_digits [of b n] digits_less [of b] by auto
  also have "\<dots> \<le> b ^ k"
    using \<open>2 \<le> b\<close> \<open>\<not> k < length (digits b n)\<close> by (intro power_increasing) auto
  finally show False using \<open>b ^ k \<le> n\<close> by simp
qed

lemma digits_horner:
  assumes "2 \<le> b" "\<forall>d\<in>set ds. d < b" "ds = [] \<or> hd ds \<noteq> 0"
  shows "digits b (horner b ds) = rev ds"
  using digits_numeral_of [of b "rev ds"] assms by (auto simp: horner_rev last_rev)

lemma digits_inj: "2 \<le> b \<Longrightarrow> digits b m = digits b n \<Longrightarrow> m = n"
  by (metis numeral_of_digits)

section \<open>Decimal text\<close>

definition digit_char :: "nat \<Rightarrow> char" where
  "digit_char d = char_of (48 + d)"

definition Itoa :: "int \<Rightarrow> string" where
  "Itoa n = (if n = 0 then ''0''
     else (if n < 0 then ''-'' else []) @ rev (map digit_char (digits 10 (nat \<bar>n\<bar>))))"

lemma digit_char_byte: "d < 10 \<Longrightarrow> of_char (digit_char d) = (48 + d :: nat)"
  by (simp add: digit_char_def take_bit_eq_mod)

lemma digit_char_inj: "d < 10 \<Longrightarrow> e < 10 \<Longrightarrow> digit_char d = digit_char e \<Longrightarrow> d = e"
  by (metis add_left_imp_eq digit_char_byte)

lemma digit_char_0: "digit_char 0 = CHR ''0''"
proof -
  have "(of_char (digit_char 0) :: nat) = of_char CHR ''0''"
    by (subst digit_char_byte) simp_all
  then show ?thesis by (simp only: of_char_eq_iff)
qed

lemma map_digit_char_inj:
  "\<forall>d\<in>set ds. d < 10 \<Longrightarrow> \<forall>d\<in>set es. d < 10 \<Longrightarrow> map digit_char ds = map digit_char es \<Longrightarrow> ds = es"
proof (induction ds arbitrary: es)
  case (Cons d ds)
  then show ?case by (cases es) (auto dest: digit_char_inj)
qed simp

lemma Itoa_bytes: "0 \<le> n \<Longrightarrow> c \<in> set (Itoa n) \<Longrightarrow> 48 \<le> (of_char c :: nat) \<and> of_char c < (58 :: nat)"
  using digits_less [of 10 _ "nat \<bar>n\<bar>"]
  by (auto simp: Itoa_def digit_char_byte split: if_splits)

lemma digits_nonempty: "2 \<le> b \<Longrightarrow> 0 < n \<Longrightarrow> digits b n \<noteq> []"
  by (subst digits.simps) simp

lemma Itoa_nonempty: "0 \<le> n \<Longrightarrow> Itoa n \<noteq> []"
  by (simp add: Itoa_def digits_nonempty)

lemma Itoa_inj:
  assumes "0 \<le> m" "0 \<le> n" "Itoa m = Itoa n"
  shows "m = n"
proof (cases "m = 0 \<or> n = 0")
  case True
  have "Itoa k \<noteq> ''0''" if "0 < k" for k :: int
  proof
    assume "Itoa k = ''0''"
    then have "map digit_char (digits 10 (nat k)) = map digit_char [0]"
      using that by (simp add: Itoa_def digit_char_0)
    then have "digits 10 (nat k) = [0]"
      using map_digit_char_inj [of "digits 10 (nat k)" "[0]"] digits_less [of 10 _ "nat k"] by simp
    then show False using digits_last [of 10 "nat k"] by simp
  qed
  then show ?thesis using True assms by (metis Itoa_def less_le)
next
  case False
  then have "map digit_char (digits 10 (nat m)) = map digit_char (digits 10 (nat n))"
    using assms by (simp add: Itoa_def)
  then have "digits 10 (nat m) = digits 10 (nat n)"
    using digits_less [of 10] by (intro map_digit_char_inj) auto
  then have "nat m = nat n" by (rule digits_inj [of 10, rotated]) simp
  then show ?thesis using assms(1,2) by simp
qed

end
