(* ===== verification/Short_Id.thy ===== *)
theory Short_Id
  imports Numerals
begin

text \<open>
  The base58 short ids of \<^verbatim>\<open>internal/shortid/shortid.go\<close>. A UUID is a list of sixteen bytes and
  \<open>big.Int\<close> is a natural number. The positional numerals of \<open>Numerals\<close> serve twice: base 58 for the
  digits of an id and base 256 for the bytes of the number.
\<close>

section \<open>Encoding and decoding\<close>

type_synonym uuid = "nat list"

definition valid_uuid :: "uuid \<Rightarrow> bool" where
  "valid_uuid u \<longleftrightarrow> length u = 16 \<and> (\<forall>b\<in>set u. b < 256)"

definition Alphabet :: string where
  "Alphabet = ''123456789ABCDEFGHJKLMNPQRSTUVWXYZabcdefghijkmnopqrstuvwxyz''"

definition minLen :: nat where "minLen = 16"
definition maxLen :: nat where "maxLen = 22"

definition FromUUID :: "uuid \<Rightarrow> string" where
  "FromUUID u =
    (let leadingZeros = length (takeWhile (\<lambda>b. b = 0) u);
         n = horner 256 u;
         ds = map (\<lambda>d. Alphabet ! d) (digits 58 n)
     in replicate leadingZeros (CHR ''1'') @ rev ds)"

text \<open>\<open>strings.IndexByte\<close>: the first position of a byte, none for \<open>-1\<close>.\<close>

fun IndexByte :: "string \<Rightarrow> char \<Rightarrow> nat option" where
  "IndexByte [] c = None"
| "IndexByte (x # xs) c = (if x = c then Some 0 else map_option Suc (IndexByte xs c))"

fun decode_digits :: "nat \<Rightarrow> string \<Rightarrow> nat option" where
  "decode_digits n [] = Some n"
| "decode_digits n (c # cs) = (case IndexByte Alphabet c of
      None \<Rightarrow> None
    | Some v \<Rightarrow> decode_digits (n * 58 + v) cs)"

text \<open>\<open>ToUUID\<close> up to its last test; \<open>big.Int.Bytes\<close> is the base 256 numeral without leading zeros.\<close>

definition ToUUID_body :: "string \<Rightarrow> uuid option" where
  "ToUUID_body sid =
    (if length sid < minLen \<or> length sid > maxLen then None
     else let leadingZeros = length (takeWhile (\<lambda>c. c = CHR ''1'') sid)
          in case decode_digits 0 (drop leadingZeros sid) of
               None \<Rightarrow> None
             | Some n \<Rightarrow>
                 let body = rev (digits 256 n)
                 in if leadingZeros + length body \<noteq> 16 then None
                    else Some (replicate leadingZeros 0 @ body))"

definition ToUUID :: "string \<Rightarrow> uuid option" where
  "ToUUID sid = (case ToUUID_body sid of
      None \<Rightarrow> None
    | Some out \<Rightarrow> if FromUUID out \<noteq> sid then None else Some out)"

section \<open>The alphabet\<close>

lemma Alphabet_length: "length Alphabet = 58"
  by (simp add: Alphabet_def)

lemma Alphabet_distinct: "distinct Alphabet"
  by (simp add: Alphabet_def)

lemma IndexByte_Some: "IndexByte xs c = Some i \<Longrightarrow> i < length xs \<and> xs ! i = c"
  by (induction xs arbitrary: i) (auto split: if_splits)

lemma IndexByte_nth: "distinct xs \<Longrightarrow> i < length xs \<Longrightarrow> IndexByte xs (xs ! i) = Some i"
proof (induction xs arbitrary: i)
  case (Cons x xs)
  then show ?case by (cases i) auto
qed simp

lemma Index_Alphabet: "d < 58 \<Longrightarrow> IndexByte Alphabet (Alphabet ! d) = Some d"
  by (simp add: IndexByte_nth Alphabet_distinct Alphabet_length)

lemma Alphabet_0: "Alphabet ! 0 = CHR ''1''"
  by (simp add: Alphabet_def)

lemma Alphabet_one: "d < 58 \<Longrightarrow> Alphabet ! d = CHR ''1'' \<longleftrightarrow> d = 0"
  using nth_eq_iff_index_eq [OF Alphabet_distinct, of d 0] by (simp add: Alphabet_length Alphabet_0)

lemma decode_encode:
  "\<forall>d\<in>set ds. d < 58 \<Longrightarrow>
     decode_digits n (map (\<lambda>d. Alphabet ! d) ds) = Some (foldl (\<lambda>n d. n * 58 + d) n ds)"
  by (induction ds arbitrary: n) (simp_all add: Index_Alphabet)

lemma decode_digits_Some:
  "decode_digits m cs = Some n \<Longrightarrow>
     \<exists>ds. cs = map (\<lambda>d. Alphabet ! d) ds \<and> (\<forall>d\<in>set ds. d < 58) \<and> n = foldl (\<lambda>n d. n * 58 + d) m ds"
proof (induction cs arbitrary: m)
  case (Cons c cs)
  then obtain v where v: "IndexByte Alphabet c = Some v" "decode_digits (m * 58 + v) cs = Some n"
    by (auto split: option.splits)
  then obtain ds where "cs = map (\<lambda>d. Alphabet ! d) ds" "\<forall>d\<in>set ds. d < 58"
      "n = foldl (\<lambda>n d. n * 58 + d) (m * 58 + v) ds"
    using Cons.IH by blast
  then show ?case
    using IndexByte_Some [OF v(1)] by (intro exI [of _ "v # ds"]) (auto simp: Alphabet_length)
qed simp

section \<open>Canonical forms\<close>

text \<open>
  Both directions split at the leading zeros: \<open>lz\<close> zero bytes (or ones), then the digits of a
  number without leading zeros.
\<close>

lemma takeWhile_split:
  "body = [] \<or> hd body \<noteq> z \<Longrightarrow> takeWhile (\<lambda>x. x = z) (replicate lz z @ body) = replicate lz z"
  by (induction lz) (auto simp: takeWhile_eq_Nil_iff)

lemma split_leading:
  obtains lz body where "xs = replicate lz z @ body" "body = [] \<or> hd body \<noteq> z"
proof
  show "xs = replicate (length (takeWhile (\<lambda>x. x = z) xs)) z @ dropWhile (\<lambda>x. x = z) xs"
    by (metis (mono_tags, lifting) replicate_length_same set_takeWhileD takeWhile_dropWhile_id)
  show "dropWhile (\<lambda>x. x = z) xs = [] \<or> hd (dropWhile (\<lambda>x. x = z) xs) \<noteq> z"
    using hd_dropWhile [of "\<lambda>x. x = z" xs] by blast
qed

lemma horner_zeros: "horner b (replicate lz 0 @ body) = horner b body"
  by (induction lz) (simp_all add: horner_def)

lemma FromUUID_split:
  assumes "body = [] \<or> hd body \<noteq> 0"
  shows "FromUUID (replicate lz 0 @ body)
       = replicate lz (CHR ''1'') @ map (\<lambda>d. Alphabet ! d) (rev (digits 58 (horner 256 body)))"
  using assms by (simp add: FromUUID_def takeWhile_split horner_zeros rev_map)

lemma encoded_hd:
  "map (\<lambda>d. Alphabet ! d) (rev (digits 58 n)) = [] \<or>
   hd (map (\<lambda>d. Alphabet ! d) (rev (digits 58 n))) \<noteq> CHR ''1''"
proof (cases "digits 58 n = []")
  case False
  then have "last (digits 58 n) < 58" "last (digits 58 n) \<noteq> 0"
    using digits_less [of 58 _ n] digits_last [of 58 n] by simp_all
  then have "Alphabet ! last (digits 58 n) \<noteq> CHR ''1''" by (simp add: Alphabet_one)
  then show ?thesis using False by (simp add: hd_map hd_rev)
qed simp

lemma decode_encoded: "decode_digits 0 (map (\<lambda>d. Alphabet ! d) (rev (digits 58 n))) = Some n"
proof -
  have "decode_digits 0 (map (\<lambda>d. Alphabet ! d) (rev (digits 58 n))) = Some (horner 58 (rev (digits 58 n)))"
    using decode_encode [of "rev (digits 58 n)" 0] digits_less [of 58 _ n] by (simp add: horner_def)
  then show ?thesis by (simp add: horner_rev numeral_of_digits)
qed

lemma encoded_length:
  assumes "lz + length body = 16" "\<forall>b\<in>set body. b < 256" "body = [] \<or> hd body \<noteq> 0"
  shows "16 \<le> lz + length (digits 58 (horner 256 body))"
    and "lz + length (digits 58 (horner 256 body)) \<le> 22"
proof -
  let ?n = "horner 256 body"
  have lz: "lz \<le> 16" using assms(1) by simp
  have "?n < 256 ^ length body"
    using numeral_of_less [of "rev body" 256] assms(2) by (simp add: horner_rev)
  also have "256 ^ length body * 58 ^ lz \<le> (256::nat) ^ length body * 256 ^ lz"
    by (intro mult_le_mono2 power_mono) simp_all
  then have "256 ^ length body * 58 ^ lz \<le> (58::nat) ^ (22 - lz) * 58 ^ lz"
    using assms(1) by (simp add: power_add [symmetric] add.commute)
  then have "256 ^ length body \<le> (58::nat) ^ (22 - lz)" by simp
  finally have "length (digits 58 ?n) \<le> 22 - lz"
    by (intro length_digits_le) simp_all
  then show "lz + length (digits 58 ?n) \<le> 22" using lz by simp
  show "16 \<le> lz + length (digits 58 ?n)"
  proof (cases body)
    case (Cons b bs)
    have "256 ^ length bs * 1 \<le> 256 ^ length bs * b"
      using assms(3) Cons by (intro mult_le_mono2) simp
    moreover have "?n = numeral_of 256 (rev bs) + 256 ^ length bs * b"
      using Cons by (simp add: horner_rev numeral_of_append)
    ultimately have "256 ^ length bs \<le> ?n" by linarith
    moreover have "(58::nat) ^ length bs \<le> 256 ^ length bs" by (intro power_mono) simp_all
    ultimately have "length bs < length (digits 58 ?n)"
      using length_digits_ge [of 58 "length bs" ?n] by simp
    then show ?thesis using assms(1) Cons by simp
  qed (use assms(1) in simp)
qed

lemma valid_uuid_split:
  assumes "valid_uuid u"
  obtains lz body where "u = replicate lz 0 @ body" "lz + length body = 16"
    "\<forall>b\<in>set body. b < 256" "body = [] \<or> hd body \<noteq> 0"
proof -
  obtain lz body where u: "u = replicate lz 0 @ body" "body = [] \<or> hd body \<noteq> 0"
    by (rule split_leading)
  have "length u = lz + length body" and "set body \<subseteq> set u"
    by (simp_all add: u(1))
  with assms have "lz + length body = 16" and "\<forall>b\<in>set body. b < 256"
    unfolding valid_uuid_def by (metis, blast)
  then show thesis using that u by blast
qed

lemma ToUUID_body_encoded:
  assumes "lz + length body = 16" "\<forall>b\<in>set body. b < 256" "body = [] \<or> hd body \<noteq> 0"
  shows "ToUUID_body (FromUUID (replicate lz 0 @ body)) = Some (replicate lz 0 @ body)"
proof -
  let ?ds = "map (\<lambda>d. Alphabet ! d) (rev (digits 58 (horner 256 body)))"
  have sid: "FromUUID (replicate lz 0 @ body) = replicate lz (CHR ''1'') @ ?ds"
    using assms(3) by (rule FromUUID_split)
  have "16 \<le> length (replicate lz (CHR ''1'') @ ?ds)" "length (replicate lz (CHR ''1'') @ ?ds) \<le> 22"
    using encoded_length [OF assms] by simp_all
  moreover have "takeWhile (\<lambda>c. c = CHR ''1'') (replicate lz (CHR ''1'') @ ?ds) = replicate lz (CHR ''1'')"
    using encoded_hd by (rule takeWhile_split)
  moreover have "rev (digits 256 (horner 256 body)) = body"
    using assms by (simp add: digits_horner)
  ultimately show ?thesis
    using assms(1) decode_encoded by (simp add: sid ToUUID_body_def minLen_def maxLen_def Let_def)
qed

text \<open>What the decoder returns before its last test already is the canonical preimage.\<close>

lemma FromUUID_ToUUID_body:
  assumes "ToUUID_body sid = Some out"
  shows "FromUUID out = sid" and "valid_uuid out"
proof -
  obtain lz rest where sid: "sid = replicate lz (CHR ''1'') @ rest" "rest = [] \<or> hd rest \<noteq> CHR ''1''"
    by (rule split_leading)
  have lead: "takeWhile (\<lambda>c. c = CHR ''1'') sid = replicate lz (CHR ''1'')"
    unfolding sid(1) by (rule takeWhile_split [OF sid(2)])
  have rest: "drop lz sid = rest" using sid(1) by simp
  have body: "(case decode_digits 0 rest of None \<Rightarrow> None
      | Some n \<Rightarrow> if lz + length (rev (digits 256 n)) \<noteq> 16 then None
                  else Some (replicate lz 0 @ rev (digits 256 n))) = Some out"
    using assms unfolding ToUUID_body_def Let_def lead length_replicate rest by (meson option.distinct(1))
  then obtain n where n: "decode_digits 0 rest = Some n" by (cases "decode_digits 0 rest") simp_all
  have n2: "lz + length (rev (digits 256 n)) = 16" "out = replicate lz 0 @ rev (digits 256 n)"
    using body unfolding n option.case by (metis option.distinct(1), metis option.distinct(1) option.inject)
  obtain ds where ds: "rest = map (\<lambda>d. Alphabet ! d) ds" "\<forall>d\<in>set ds. d < 58" "n = horner 58 ds"
    using decode_digits_Some [OF n] by (auto simp: horner_def)
  have "ds = [] \<or> hd ds \<noteq> 0"
    using sid(2) ds by (cases ds) (auto simp: Alphabet_one)
  then have dn: "digits 58 n = rev ds" using ds by (simp add: digits_horner)
  have h: "horner 256 (rev (digits 256 n)) = n" by (simp add: horner_rev numeral_of_digits)
  have "rev (digits 256 n) = [] \<or> hd (rev (digits 256 n)) \<noteq> 0"
    using digits_last [of 256 n] by (cases "digits 256 n = []") (simp_all add: hd_rev)
  then show "FromUUID out = sid"
    using n2(2) sid(1) ds(1) by (simp add: FromUUID_split h dn)
  show "valid_uuid out"
    using n2 digits_less [of 256 _ n] by (auto simp: valid_uuid_def)
qed

section \<open>Properties\<close>

text \<open>Decoding the short id of a UUID gives back the UUID.\<close>

theorem shortid_roundtrip:
  assumes "valid_uuid u"
  shows "ToUUID (FromUUID u) = Some u"
proof -
  have "ToUUID_body (FromUUID u) = Some u"
    using assms valid_uuid_split ToUUID_body_encoded by metis
  then show ?thesis by (simp add: ToUUID_def)
qed

theorem shortid_roundtrip_witness:
  "ToUUID (FromUUID (replicate 3 0 @ replicate 13 255)) = Some (replicate 3 0 @ replicate 13 255)"
  by (rule shortid_roundtrip) (simp add: valid_uuid_def)

text \<open>C17. ToUUID accepts exactly the short ids that FromUUID produces (one per UUID), and its final
  re-encoding test never changes the answer.\<close>

theorem shortid_decode_canonical:
  "ToUUID sid = ToUUID_body sid \<and>
   (\<forall>u. ToUUID sid = Some u \<longleftrightarrow> valid_uuid u \<and> FromUUID u = sid)"
proof -
  have eq: "ToUUID sid = ToUUID_body sid"
    using FromUUID_ToUUID_body(1) by (auto simp: ToUUID_def split: option.splits)
  have "ToUUID sid = Some u \<longleftrightarrow> valid_uuid u \<and> FromUUID u = sid" for u
  proof
    assume "ToUUID sid = Some u"
    then show "valid_uuid u \<and> FromUUID u = sid" using FromUUID_ToUUID_body eq by simp
  next
    assume u: "valid_uuid u \<and> FromUUID u = sid"
    then have "ToUUID_body sid = Some u"
      using valid_uuid_split ToUUID_body_encoded by metis
    then show "ToUUID sid = Some u" using eq by simp
  qed
  then show ?thesis using eq by blast
qed

end
