(* ===== verification/Mention.thy ===== *)
theory Mention
  imports Vidra_Prelude
begin

text \<open>
  The mention parser of \<^verbatim>\<open>internal/mention/mention.go\<close>, over byte strings and byte positions as the
  source has them. \<open>strings.ToLower\<close> is applied to ASCII names and hosts only, where it is the
  byte-wise map. The map \<open>seen\<close> of the source holds exactly the mentions collected in \<open>out\<close>, so
  membership in \<open>out\<close> stands for it.
\<close>

section \<open>Bytes and slices\<close>

definition byte_in :: "char \<Rightarrow> char \<Rightarrow> char \<Rightarrow> bool" where
  "byte_in lo hi c \<longleftrightarrow> of_char lo \<le> (of_char c :: nat) \<and> (of_char c :: nat) \<le> of_char hi"

definition lower_char :: "char \<Rightarrow> char" where
  "lower_char c = (if byte_in CHR ''A'' CHR ''Z'' c then char_of (of_char c + 32 :: nat) else c)"

definition ToLower :: "string \<Rightarrow> string" where
  "ToLower s = map lower_char s"

definition slice :: "string \<Rightarrow> nat \<Rightarrow> nat \<Rightarrow> string" where
  "slice s i j = take (j - i) (drop i s)"

definition TrimRight :: "string \<Rightarrow> string \<Rightarrow> string" where
  "TrimRight s cutset = rev (dropWhile (\<lambda>c. c \<in> set cutset) (rev s))"

section \<open>The parser\<close>

definition MaxPerComment :: nat where "MaxPerComment = 10"

record Mention =
  m_Username :: string
  m_Host :: string

definition isNameChar :: "char \<Rightarrow> bool" where
  "isNameChar c \<longleftrightarrow> byte_in CHR ''a'' CHR ''z'' c \<or> byte_in CHR ''A'' CHR ''Z'' c \<or>
     byte_in CHR ''0'' CHR ''9'' c \<or> c = CHR ''_'' \<or> c = CHR ''.'' \<or> c = CHR ''-''"

definition isHostChar :: "char \<Rightarrow> bool" where
  "isHostChar c \<longleftrightarrow> byte_in CHR ''a'' CHR ''z'' c \<or> byte_in CHR ''A'' CHR ''Z'' c \<or>
     byte_in CHR ''0'' CHR ''9'' c \<or> c = CHR ''.'' \<or> c = CHR ''-''"

definition startsMention :: "char \<Rightarrow> bool" where
  "startsMention prev \<longleftrightarrow> prev \<in> {CHR '' '', CHR 0x09, CHR 0x0A, CHR 0x0D, CHR ''('', CHR ''['',
     CHR ''{'', CHR 0x22, CHR 0x27}"

function span :: "string \<Rightarrow> nat \<Rightarrow> (char \<Rightarrow> bool) \<Rightarrow> nat" where
  "span s i ok = (if i < length s \<and> ok (s ! i) then span s (i + 1) ok else i)"
  by pat_completeness auto
termination
  by (relation "measure (\<lambda>(s, i, ok). length s - i)") auto

declare span.simps [simp del]

text \<open>The optional host after a name that ends before \<open>nxt\<close>, with the position behind it.\<close>

definition parse_host :: "string \<Rightarrow> nat \<Rightarrow> string \<times> nat" where
  "parse_host body nxt =
    (if nxt < length body \<and> body ! nxt = CHR ''@'' then
       let hostEnd = span body (nxt + 1) isHostChar;
           host = TrimRight (slice body (nxt + 1) hostEnd) ''.-''
       in if CHR ''.'' \<in> set host then (ToLower host, nxt + (1 + length host)) else ([], nxt)
     else ([], nxt))"

definition parse_name :: "string \<Rightarrow> nat \<Rightarrow> string" where
  "parse_name body i = TrimRight (slice body (i + 1) (span body (i + 1) isNameChar)) ''.-''"

lemma parse_host_ge: "nxt \<le> snd (parse_host body nxt)"
  by (simp add: parse_host_def Let_def)

function Parse_loop :: "string \<Rightarrow> nat \<Rightarrow> Mention list \<Rightarrow> Mention list" where
  "Parse_loop body i out =
    (if i < length body \<and> length out < MaxPerComment then
       if body ! i \<noteq> CHR ''@'' \<or> (i > 0 \<and> \<not> startsMention (body ! (i - 1)))
       then Parse_loop body (i + 1) out
       else let name = parse_name body i
            in if name = [] then Parse_loop body (i + 1) out
               else let (host, nxt) = parse_host body (i + 1 + length name);
                        m = \<lparr>m_Username = ToLower name, m_Host = host\<rparr>
                    in Parse_loop body nxt (if m \<in> set out then out else out @ [m])
     else out)"
  by pat_completeness auto
termination
proof (relation "measure (\<lambda>(body, i, out). length body - i)", goal_cases)
  case (4 body i out name p host nxt m)
  have "nxt \<ge> i + 1 + length name"
    using parse_host_ge [of "i + 1 + length name" body] 4(5,6) by (metis snd_conv)
  then show ?case using 4(1) by (simp, arith)
qed auto

declare Parse_loop.simps [simp del]

definition Parse :: "string \<Rightarrow> Mention list" where
  "Parse body = Parse_loop body 0 []"

section \<open>Slices as list functions\<close>

lemma span_takeWhile: "i \<le> length s \<Longrightarrow> span s i ok = i + length (takeWhile ok (drop i s))"
proof (induction s i ok rule: span.induct)
  case (1 s i ok)
  show ?case
  proof (cases "i < length s")
    case True
    then have "drop i s = s ! i # drop (i + 1) s" by (simp add: Cons_nth_drop_Suc)
    then show ?thesis using 1 True by (subst span.simps) simp
  next
    case False
    then show ?thesis using 1 by (subst span.simps) simp
  qed
qed

lemma slice_span: "i \<le> length s \<Longrightarrow> slice s i (span s i ok) = takeWhile ok (drop i s)"
  by (simp add: slice_def span_takeWhile takeWhile_eq_take [symmetric])

lemma TrimRight_prefix:
  "\<exists>t. s = TrimRight s cs @ t \<and> set t \<subseteq> set cs"
proof -
  have "rev s = takeWhile (\<lambda>c. c \<in> set cs) (rev s) @ dropWhile (\<lambda>c. c \<in> set cs) (rev s)" by simp
  then have "s = TrimRight s cs @ rev (takeWhile (\<lambda>c. c \<in> set cs) (rev s))"
    by (metis TrimRight_def rev_append rev_rev_ident)
  moreover have "set (rev (takeWhile (\<lambda>c. c \<in> set cs) (rev s))) \<subseteq> set cs"
    by (auto dest: set_takeWhileD)
  ultimately show ?thesis by blast
qed

lemma TrimRight_last: "TrimRight s cs \<noteq> [] \<Longrightarrow> last (TrimRight s cs) \<notin> set cs"
  using hd_dropWhile [of "\<lambda>c. c \<in> set cs" "rev s"] by (simp add: TrimRight_def last_rev)

lemma TrimRight_id: "s = [] \<or> last s \<notin> set cs \<Longrightarrow> TrimRight s cs = s"
  by (cases s rule: rev_cases) (simp_all add: TrimRight_def)

lemma set_TrimRight: "set (TrimRight s cs) \<subseteq> set s"
  using TrimRight_prefix [of s cs] by (metis Un_upper1 set_append)

lemma parse_name_eq:
  "i < length body \<Longrightarrow> parse_name body i = TrimRight (takeWhile isNameChar (drop (i + 1) body)) ''.-''"
  by (simp add: parse_name_def slice_span)

lemma parse_host_eq:
  "nxt < length body \<Longrightarrow> body ! nxt = CHR ''@'' \<Longrightarrow>
   parse_host body nxt = (let host = TrimRight (takeWhile isHostChar (drop (nxt + 1) body)) ''.-''
     in if CHR ''.'' \<in> set host then (ToLower host, nxt + (1 + length host)) else ([], nxt))"
  by (simp add: parse_host_def slice_span Let_def)

text \<open>A trimmed run after a position is a slice of the body at that position.\<close>

lemma trimmed_run:
  assumes "i < length body" and "t = TrimRight (takeWhile ok (drop (i + 1) body)) cs"
  obtains post where "body = take i body @ body ! i # t @ post"
proof -
  obtain u where "takeWhile ok (drop (i + 1) body) = t @ u"
    using TrimRight_prefix assms(2) by metis
  then have "drop (i + 1) body = t @ u @ dropWhile ok (drop (i + 1) body)"
    by (metis append.assoc takeWhile_dropWhile_id)
  then show thesis
    using that id_take_nth_drop [OF assms(1)] by (metis Suc_eq_plus1)
qed

section \<open>Soundness\<close>

text \<open>
  What the source promises of a mention: it starts at the start of the text or behind an opening
  byte, and its name and host are the bytes that follow, lower-cased.
\<close>

definition host_at :: "string \<Rightarrow> string \<Rightarrow> bool" where
  "host_at host rest \<longleftrightarrow> host = [] \<or>
     (\<exists>h post. rest = CHR ''@'' # h @ post \<and> host = ToLower h \<and> (\<forall>c\<in>set h. isHostChar c) \<and>
        CHR ''.'' \<in> set h \<and> last h \<notin> set ''.-'')"

definition mention_in :: "string \<Rightarrow> Mention \<Rightarrow> bool" where
  "mention_in body m \<longleftrightarrow> (\<exists>pre name post. body = pre @ CHR ''@'' # name @ post \<and>
     (pre = [] \<or> startsMention (last pre)) \<and> m_Username m = ToLower name \<and> name \<noteq> [] \<and>
     (\<forall>c\<in>set name. isNameChar c) \<and> last name \<notin> set ''.-'' \<and> host_at (m_Host m) post)"

lemma parse_host_at:
  assumes "nxt = length pre" "body = pre @ rest" "parse_host body nxt = (host, nxt')"
  shows "host_at host rest"
proof (cases "nxt < length body \<and> body ! nxt = CHR ''@''")
  case True
  let ?h = "TrimRight (takeWhile isHostChar (drop (nxt + 1) body)) ''.-''"
  obtain post where "body = take nxt body @ body ! nxt # ?h @ post"
    using trimmed_run True by blast
  then have rest: "rest = CHR ''@'' # ?h @ post"
    using assms(1,2) True by simp
  have "\<forall>c\<in>set ?h. isHostChar c"
    using set_TrimRight [of "takeWhile isHostChar (drop (nxt + 1) body)" "''.-''"]
    by (auto dest: set_takeWhileD)
  moreover have "last ?h \<notin> set ''.-''" if "CHR ''.'' \<in> set ?h"
    by (rule TrimRight_last) (use that in auto)
  ultimately have "host_at (ToLower ?h) rest" if "CHR ''.'' \<in> set ?h"
    using rest that unfolding host_at_def by blast
  moreover have "host_at [] rest" by (simp add: host_at_def)
  ultimately show ?thesis
    using assms(3) parse_host_eq [of nxt body] True unfolding Let_def
    by (metis prod.inject)
next
  case False
  then show ?thesis using assms(3) by (auto simp: parse_host_def host_at_def)
qed

lemma parse_step_sound:
  assumes "i < length body" "body ! i = CHR ''@''" "i = 0 \<or> startsMention (body ! (i - 1))"
    and "parse_name body i = name" "name \<noteq> []"
    and "parse_host body (i + 1 + length name) = (host, nxt)"
  shows "mention_in body \<lparr>m_Username = ToLower name, m_Host = host\<rparr>"
proof -
  have name: "name = TrimRight (takeWhile isNameChar (drop (i + 1) body)) ''.-''"
    using assms(1,4) parse_name_eq by simp
  obtain post where body: "body = take i body @ CHR ''@'' # name @ post"
    using trimmed_run [OF assms(1) name] assms(2) by metis
  have pre: "take i body = [] \<or> startsMention (last (take i body))"
  proof (cases "i = 0")
    case False
    then have "last (take i body) = body ! (i - 1)"
      using assms(1) by (subst last_conv_nth) auto
    then show ?thesis using False assms(3) by simp
  qed simp
  have "length (take i body @ CHR ''@'' # name) = i + 1 + length name"
    using assms(1) by simp
  then have "host_at host post"
    using parse_host_at [of _ "take i body @ CHR ''@'' # name" body post] body assms(6) by simp
  moreover have "\<forall>c\<in>set name. isNameChar c"
    using set_TrimRight name by (auto dest: set_takeWhileD)
  moreover have "last name \<notin> set ''.-''"
    using TrimRight_last name assms(5) by blast
  ultimately show ?thesis
    unfolding mention_in_def Mention.select_convs
    using body pre assms(5) by (intro exI [of _ "take i body"] exI [of _ name] exI [of _ post] conjI)
      (assumption | rule refl)+
qed

section \<open>The loop rule\<close>

definition mention_start :: "string \<Rightarrow> nat \<Rightarrow> bool" where
  "mention_start body i \<longleftrightarrow> i < length body \<and> body ! i = CHR ''@'' \<and>
     (i = 0 \<or> startsMention (body ! (i - 1))) \<and> parse_name body i \<noteq> []"

definition add_mention :: "Mention \<Rightarrow> Mention list \<Rightarrow> Mention list" where
  "add_mention m out = (if m \<in> set out then out else out @ [m])"

lemma Parse_loop_stop:
  "\<not> (i < length body \<and> length out < MaxPerComment) \<Longrightarrow> Parse_loop body i out = out"
  by (subst Parse_loop.simps) auto

lemma Parse_loop_skip:
  "i < length body \<Longrightarrow> length out < MaxPerComment \<Longrightarrow> \<not> mention_start body i \<Longrightarrow>
   Parse_loop body i out = Parse_loop body (i + 1) out"
  by (subst Parse_loop.simps) (auto simp: mention_start_def Let_def)

lemma Parse_loop_take:
  "length out < MaxPerComment \<Longrightarrow> mention_start body i \<Longrightarrow>
   parse_host body (i + 1 + length (parse_name body i)) = (host, nxt) \<Longrightarrow>
   Parse_loop body i out =
     Parse_loop body nxt (add_mention \<lparr>m_Username = ToLower (parse_name body i), m_Host = host\<rparr> out)"
  by (subst Parse_loop.simps) (auto simp: mention_start_def add_mention_def Let_def)

lemma Parse_loop_invariant:
  assumes "P out"
    and step: "\<And>i out host nxt. mention_start body i \<Longrightarrow> length out < MaxPerComment \<Longrightarrow>
      parse_host body (i + 1 + length (parse_name body i)) = (host, nxt) \<Longrightarrow> P out \<Longrightarrow>
      P (add_mention \<lparr>m_Username = ToLower (parse_name body i), m_Host = host\<rparr> out)"
  shows "P (Parse_loop body i out)"
  using assms(1)
proof (induction "length body - i" arbitrary: i out rule: less_induct)
  case less
  show ?case
  proof (cases "i < length body \<and> length out < MaxPerComment")
    case run: True
    show ?thesis
    proof (cases "mention_start body i")
      case True
      obtain host nxt where h: "parse_host body (i + 1 + length (parse_name body i)) = (host, nxt)"
        by fastforce
      then have "i < nxt" using parse_host_ge [of "i + 1 + length (parse_name body i)" body] by simp
      then have "length body - nxt < length body - i" using run by arith
      then show ?thesis
        using less.hyps step [OF True _ h less.prems] run Parse_loop_take [OF _ True h] by simp
    next
      case False
      have "length body - (i + 1) < length body - i" using run by arith
      then show ?thesis using less False run Parse_loop_skip [of i body out] by metis
    qed
  next
    case False
    then show ?thesis using less.prems Parse_loop_stop by simp
  qed
qed

section \<open>Properties\<close>

text \<open>Mentions parsed from a comment are distinct, at most ten, and each occurs in the text at a
  position where a mention may start, as the longest name and host there, lower-cased.\<close>

theorem mentions_sound:
  "distinct (Parse body) \<and> length (Parse body) \<le> MaxPerComment \<and> (\<forall>m\<in>set (Parse body). mention_in body m)"
  unfolding Parse_def
proof (intro conjI)
  show "distinct (Parse_loop body 0 [])"
    by (rule Parse_loop_invariant) (auto simp: add_mention_def)
  show "length (Parse_loop body 0 []) \<le> MaxPerComment"
    by (rule Parse_loop_invariant) (auto simp: add_mention_def)
  show "\<forall>m\<in>set (Parse_loop body 0 []). mention_in body m"
  proof (rule Parse_loop_invariant)
    fix i out host nxt
    assume "mention_start body i" "parse_host body (i + 1 + length (parse_name body i)) = (host, nxt)"
      and out: "\<forall>m\<in>set out. mention_in body m"
    then have "mention_in body \<lparr>m_Username = ToLower (parse_name body i), m_Host = host\<rparr>"
      by (intro parse_step_sound [of i]) (auto simp: mention_start_def)
    with out show "\<forall>m\<in>set (add_mention \<lparr>m_Username = ToLower (parse_name body i), m_Host = host\<rparr> out).
        mention_in body m"
      by (auto simp: add_mention_def)
  qed simp
qed

theorem mentions_sound_witness:
  "Parse ''hi @Bob, @bob'' = [\<lparr>m_Username = ''bob'', m_Host = ''''\<rparr>] \<and>
   mention_in ''hi @Bob, @bob'' \<lparr>m_Username = ''bob'', m_Host = ''''\<rparr>"
proof -
  have "Parse ''hi @Bob, @bob'' = [\<lparr>m_Username = ''bob'', m_Host = ''''\<rparr>]" by code_simp
  then show ?thesis using mentions_sound [of "''hi @Bob, @bob''"] by simp
qed

section \<open>Printing and parsing back\<close>

definition format_mention :: "Mention \<Rightarrow> string" where
  "format_mention m = CHR ''@'' # m_Username m @ (if m_Host m = [] then [] else CHR ''@'' # m_Host m)"

definition valid_mention :: "Mention \<Rightarrow> bool" where
  "valid_mention m \<longleftrightarrow> m_Username m \<noteq> [] \<and> (\<forall>c\<in>set (m_Username m). isNameChar c \<and> lower_char c = c) \<and>
     last (m_Username m) \<notin> set ''.-'' \<and>
     (m_Host m \<noteq> [] \<longrightarrow> (\<forall>c\<in>set (m_Host m). isHostChar c \<and> lower_char c = c) \<and>
        CHR ''.'' \<in> set (m_Host m) \<and> last (m_Host m) \<notin> set ''.-'')"

text \<open>Mentions one after another, each followed by a blank.\<close>

definition print_mentions :: "Mention list \<Rightarrow> string" where
  "print_mentions ms = concat (map (\<lambda>m. format_mention m @ '' '') ms)"

lemma takeWhile_stop: "\<forall>c\<in>set xs. ok c \<Longrightarrow> \<not> ok d \<Longrightarrow> takeWhile ok (xs @ d # ys) = xs"
  by (simp add: takeWhile_append2)

lemma ToLower_id: "\<forall>c\<in>set s. lower_char c = c \<Longrightarrow> ToLower s = s"
  by (simp add: ToLower_def map_idI)

lemma not_name_char: "\<not> isNameChar (CHR ''@'')" "\<not> isNameChar (CHR '' '')"
  "\<not> isHostChar (CHR '' '')"
  by (simp_all add: isNameChar_def isHostChar_def byte_in_def)

lemma format_mention_step:
  assumes "valid_mention m" "pre = [] \<or> startsMention (last pre)"
    and body: "body = pre @ format_mention m @ CHR '' '' # post"
  shows "mention_start body (length pre)"
    and "parse_name body (length pre) = m_Username m"
    and "parse_host body (length pre + 1 + length (m_Username m)) =
         (m_Host m, length pre + length (format_mention m))"
proof -
  let ?u = "m_Username m" and ?h = "m_Host m"
  let ?tail = "(if ?h = [] then [] else CHR ''@'' # ?h) @ CHR '' '' # post"
  have b: "body = pre @ CHR ''@'' # ?u @ ?tail" by (simp add: body format_mention_def)
  have "takeWhile isNameChar (?u @ ?tail) = ?u"
    using assms(1) not_name_char takeWhile_stop [of ?u isNameChar] by (auto simp: valid_mention_def)
  then show name: "parse_name body (length pre) = ?u"
    using assms(1) by (simp add: parse_name_eq b TrimRight_id valid_mention_def)
  have "body ! (length pre - 1) = last pre" if "pre \<noteq> []"
    using that by (simp add: b nth_append last_conv_nth)
  then have "length pre = 0 \<or> startsMention (body ! (length pre - 1))"
    using assms(2) by (metis length_0_conv)
  moreover have "length pre < length body" "body ! length pre = CHR ''@''" by (simp_all add: b)
  ultimately show "mention_start body (length pre)"
    using assms(1) name unfolding mention_start_def valid_mention_def by metis
  let ?n = "length pre + 1 + length ?u"
  have drop: "drop ?n body = ?tail" by (simp add: b)
  show "parse_host body ?n = (?h, length pre + length (format_mention m))"
  proof (cases "?h = []")
    case True
    then have "body ! ?n = CHR '' ''" using drop by (simp add: b nth_append)
    then show ?thesis using True by (simp add: parse_host_def format_mention_def)
  next
    case False
    have at: "?n < length body \<and> body ! ?n = CHR ''@''" using False by (simp add: b nth_append)
    have "drop (?n + 1) body = ?h @ CHR '' '' # post" using False by (simp add: b)
    moreover have "takeWhile isHostChar (?h @ CHR '' '' # post) = ?h"
      using assms(1) False not_name_char by (intro takeWhile_stop) (auto simp: valid_mention_def)
    moreover have "TrimRight ?h ''.-'' = ?h" "ToLower ?h = ?h" "CHR ''.'' \<in> set ?h"
      using assms(1) False by (auto simp: valid_mention_def intro!: TrimRight_id ToLower_id)
    ultimately show ?thesis
      using parse_host_eq [OF conjunct1 [OF at] conjunct2 [OF at]] False
      by (simp add: Let_def format_mention_def)
  qed
qed

lemma Parse_loop_print:
  assumes "\<forall>m\<in>set ms. valid_mention m" "pre = [] \<or> startsMention (last pre)"
    and "distinct (out @ ms)" "length (out @ ms) \<le> MaxPerComment"
  shows "Parse_loop (pre @ print_mentions ms) (length pre) out = out @ ms"
  using assms
proof (induction ms arbitrary: pre out)
  case Nil
  then show ?case by (simp add: print_mentions_def Parse_loop_stop)
next
  case (Cons m ms)
  let ?body = "pre @ print_mentions (m # ms)" and ?pre = "pre @ format_mention m @ '' ''"
  have body: "?body = pre @ format_mention m @ CHR '' '' # print_mentions ms"
    and body': "?body = ?pre @ print_mentions ms" by (simp_all add: print_mentions_def)
  have valid: "valid_mention m" using Cons.prems by simp
  note step = format_mention_step [OF valid Cons.prems(2) body]
  have low: "\<lparr>m_Username = ToLower (m_Username m), m_Host = m_Host m\<rparr> = m"
    using valid by (simp add: ToLower_id valid_mention_def)
  have "Parse_loop ?body (length pre) out
      = Parse_loop ?body (length pre + length (format_mention m)) (out @ [m])"
    using Parse_loop_take [OF _ step(1) step(3) [folded step(2)]] Cons.prems low step(2)
    by (simp add: add_mention_def)
  also have "\<dots> = Parse_loop (?pre @ print_mentions ms) (length ?pre) (out @ [m])"
  proof (cases "length (out @ [m]) < MaxPerComment")
    case True
    have "\<not> mention_start ?body (length pre + length (format_mention m))"
      unfolding body by (simp add: mention_start_def nth_append)
    then show ?thesis
      using Parse_loop_skip [OF _ True] body body' by (simp add: add.assoc)
  next
    case False
    then show ?thesis by (simp add: Parse_loop_stop)
  qed
  also have "\<dots> = (out @ [m]) @ ms"
    using Cons.prems by (intro Cons.IH) (auto simp: startsMention_def)
  finally show ?case by simp
qed

text \<open>Up to ten distinct valid mentions printed as @name or @name@host, separated by spaces, are
  parsed back in order.\<close>

theorem mentions_print_parse:
  assumes "\<forall>m\<in>set ms. valid_mention m" and "distinct ms" and "length ms \<le> MaxPerComment"
  shows "Parse (print_mentions ms) = ms"
  using Parse_loop_print [of ms "[]" "[]"] assms by (simp add: Parse_def)

theorem mentions_print_parse_witness:
  "Parse (print_mentions [\<lparr>m_Username = ''bob'', m_Host = ''a.b''\<rparr>, \<lparr>m_Username = ''al'', m_Host = []\<rparr>])
   = [\<lparr>m_Username = ''bob'', m_Host = ''a.b''\<rparr>, \<lparr>m_Username = ''al'', m_Host = []\<rparr>]"
  by (rule mentions_print_parse)
    (simp_all add: valid_mention_def isNameChar_def isHostChar_def byte_in_def lower_char_def
      MaxPerComment_def)

end
