(* ===== verification/Hls_Manifest.thy ===== *)
theory Hls_Manifest
  imports Vidra_Prelude
begin

text \<open>
  The HLS attribute lists and the dependency visitor of \<^verbatim>\<open>internal/hlsmanifest\<close>
  (\<^verbatim>\<open>attributes.go\<close>, \<^verbatim>\<open>references.go\<close>), on byte strings. \<open>utf8.Valid\<close>, \<open>bufio.ScanLines\<close> and
  \<open>strings.TrimSpace\<close> are modelled on bytes; the line scanner's buffer is one byte larger than the
  largest body, so its too-long error cannot occur. The \<open>visit\<close> callback is a parameter: it threads
  a state and may refuse a reference.
\<close>

section \<open>String operations\<close>

definition Cut :: "string \<Rightarrow> char \<Rightarrow> string \<times> string \<times> bool" where
  "Cut s sep = (if sep \<in> set s
     then (takeWhile (\<lambda>c. c \<noteq> sep) s, tl (dropWhile (\<lambda>c. c \<noteq> sep) s), True)
     else (s, [], False))"

definition ContainsAny :: "string \<Rightarrow> char set \<Rightarrow> bool" where
  "ContainsAny s cs \<longleftrightarrow> (\<exists>c\<in>set s. c \<in> cs)"

definition HasPrefix :: "string \<Rightarrow> string \<Rightarrow> bool" where
  "HasPrefix s p \<longleftrightarrow> take (length p) s = p"

definition HasSuffix :: "string \<Rightarrow> string \<Rightarrow> bool" where
  "HasSuffix s p \<longleftrightarrow> HasPrefix (rev s) (rev p)"

fun Contains :: "string \<Rightarrow> string \<Rightarrow> bool" where
  "Contains [] p \<longleftrightarrow> p = []"
| "Contains (c # s) p \<longleftrightarrow> HasPrefix (c # s) p \<or> Contains s p"

section \<open>Attribute lists\<close>

record Attribute =
  a_Name :: string
  a_Value :: string
  a_Raw :: string
  a_Quoted :: bool

definition name_char :: "char \<Rightarrow> bool" where
  "name_char c \<longleftrightarrow> (of_char CHR ''A'' \<le> (of_char c :: nat) \<and> of_char c \<le> (of_char CHR ''Z'' :: nat)) \<or>
     (of_char CHR ''0'' \<le> (of_char c :: nat) \<and> of_char c \<le> (of_char CHR ''9'' :: nat)) \<or> c = CHR ''-''"

abbreviation quote :: char where "quote \<equiv> CHR 0x22"

text \<open>The position where the value field of \<open>rest\<close> ends, and the value; \<open>None\<close> is the invalid list.\<close>

definition value_field :: "string \<Rightarrow> (nat \<times> string) option" where
  "value_field rest =
    (if hd rest = quote then
       (if quote \<notin> set (tl rest) then None
        else let e = length (takeWhile (\<lambda>c. c \<noteq> quote) (tl rest)) + 2
             in Some (e, take (e - 2) (tl rest)))
     else let e = length (takeWhile (\<lambda>c. c \<noteq> CHR '','') rest); v = take e rest
          in if v = [] \<or> ContainsAny v {quote, CHR ''='', CHR '' '', CHR 0x09} then None
             else Some (e, v))"

text \<open>One round of the loop: the attribute and what is left of the list.\<close>

definition parse_attribute :: "string list \<Rightarrow> string \<Rightarrow> (Attribute \<times> string) option" where
  "parse_attribute seen list =
    (let (name, rest, found) = Cut list CHR ''=''
     in if \<not> found \<or> name = [] \<or> rest = [] \<or> name \<in> set seen then None
        else if \<not> list_all name_char name then None
        else case value_field rest of
            None \<Rightarrow> None
          | Some (e, v) \<Rightarrow>
              if ContainsAny v {CHR 0x0D, CHR 0x0A, CHR 0x00} \<or> (e < length rest \<and> rest ! e \<noteq> CHR '','') then None
              else let a = \<lparr>a_Name = name, a_Value = v, a_Raw = name @ ''='' @ take e rest,
                            a_Quoted = (hd rest = quote)\<rparr>;
                       list' = drop e rest
                   in if list' = [] then Some (a, [])
                      else if tl list' = [] then None
                      else Some (a, tl list'))"

lemma takeWhile_sep: "c \<notin> set a \<Longrightarrow> takeWhile (\<lambda>x. x \<noteq> c) (a @ c # b) = a"
  by (induction a) auto

lemma dropWhile_sep: "c \<notin> set a \<Longrightarrow> dropWhile (\<lambda>x. x \<noteq> c) (a @ c # b) = c # b"
  by (induction a) auto

lemma Cut_found [simp]: "c \<notin> set a \<Longrightarrow> Cut (a @ c # b) c = (a, b, True)"
  by (simp add: Cut_def takeWhile_sep dropWhile_sep)

lemma Cut_True: "Cut s c = (a, b, True) \<Longrightarrow> s = a @ c # b \<and> c \<notin> set a"
proof -
  assume cut: "Cut s c = (a, b, True)"
  then have "c \<in> set s" by (auto simp: Cut_def split: if_splits)
  then obtain a' b' where s: "s = a' @ c # b'" "c \<notin> set a'" by (meson split_list_first)
  then have "Cut s c = (a', b', True)" by simp
  with cut s show ?thesis by simp
qed

lemma Cut_length: "Cut s c = (a, b, True) \<Longrightarrow> length b < length s"
  by (drule Cut_True) simp

lemma parse_attribute_length:
  assumes "parse_attribute seen list = Some (a, list')"
  shows "length list' < length list"
proof -
  obtain name rest found where cut: "Cut list CHR ''='' = (name, rest, found)" by (metis prod_cases3)
  then have found
    using assms by (auto simp: parse_attribute_def Let_def split: if_splits)
  then have "length rest < length list" using cut Cut_length by simp
  moreover have "length list' \<le> length rest"
    using assms cut by (auto simp: parse_attribute_def Let_def split: if_splits option.splits)
  ultimately show ?thesis by simp
qed

function ParseAttributes_loop :: "Attribute list \<Rightarrow> string \<Rightarrow> Attribute list option" where
  "ParseAttributes_loop as list =
    (if list = [] then Some as
     else case parse_attribute (map a_Name as) list of
         None \<Rightarrow> None
       | Some (a, list') \<Rightarrow> ParseAttributes_loop (as @ [a]) list')"
  by pat_completeness auto
termination
  by (relation "measure (\<lambda>(as, list). length list)") (auto dest: parse_attribute_length)

declare ParseAttributes_loop.simps [simp del]

definition ParseAttributes :: "string \<Rightarrow> Attribute list option" where
  "ParseAttributes list = (case ParseAttributes_loop [] list of
      None \<Rightarrow> None
    | Some as \<Rightarrow> if as = [] then None else Some as)"

section \<open>What an attribute list is\<close>

definition value_text :: "Attribute \<Rightarrow> string" where
  "value_text a = (if a_Quoted a then quote # a_Value a @ [quote] else a_Value a)"

definition valid_attribute :: "Attribute \<Rightarrow> bool" where
  "valid_attribute a \<longleftrightarrow> a_Name a \<noteq> [] \<and> list_all name_char (a_Name a) \<and>
     a_Raw a = a_Name a @ ''='' @ value_text a \<and>
     \<not> ContainsAny (a_Value a) {CHR 0x0D, CHR 0x0A, CHR 0x00} \<and>
     (if a_Quoted a then quote \<notin> set (a_Value a)
      else a_Value a \<noteq> [] \<and> \<not> ContainsAny (a_Value a) {quote, CHR ''='', CHR '' '', CHR 0x09, CHR '',''})"

fun join_comma :: "string list \<Rightarrow> string" where
  "join_comma [] = []"
| "join_comma [x] = x"
| "join_comma (x # y # xs) = x @ '','' @ join_comma (y # xs)"

lemma name_char_no_eq: "list_all name_char n \<Longrightarrow> CHR ''='' \<notin> set n"
  by (auto simp: list_all_iff name_char_def)

lemma value_field_quoted:
  "quote \<notin> set v \<Longrightarrow> value_field (quote # v @ quote # r) = Some (length v + 2, v)"
  by (simp add: value_field_def takeWhile_sep Let_def)

lemma value_field_plain:
  assumes "v \<noteq> []" "\<not> ContainsAny v {quote, CHR ''='', CHR '' '', CHR 0x09, CHR '',''}"
    and "r = [] \<or> hd r = CHR '',''"
  shows "value_field (v @ r) = Some (length v, v)"
proof -
  have tw: "takeWhile (\<lambda>c. c \<noteq> CHR '','') (v @ r) = v"
  proof (cases r)
    case Nil
    then show ?thesis using assms(2) by (auto simp: ContainsAny_def takeWhile_eq_all_conv)
  next
    case (Cons x xs)
    then show ?thesis using assms(2,3) by (auto simp: ContainsAny_def takeWhile_sep)
  qed
  have "hd (v @ r) \<noteq> quote" using assms(1,2) by (cases v) (auto simp: ContainsAny_def)
  then show ?thesis
    using assms(1,2) by (auto simp: value_field_def tw Let_def ContainsAny_def)
qed

lemma value_field_sound:
  assumes "value_field rest = Some (e, v)" "rest \<noteq> []" "e < length rest \<longrightarrow> rest ! e = CHR '',''"
  obtains r where "r = [] \<or> hd r = CHR '',''" "drop e rest = r"
    "rest = (if hd rest = quote then quote # v @ [quote] else v) @ r"
    "take e rest = (if hd rest = quote then quote # v @ [quote] else v)"
    "if hd rest = quote then quote \<notin> set v
     else v \<noteq> [] \<and> \<not> ContainsAny v {quote, CHR ''='', CHR '' '', CHR 0x09, CHR '',''}"
proof -
  have r: "drop e rest = [] \<or> hd (drop e rest) = CHR '',''"
    using assms(3) by (cases "e < length rest") (simp_all add: hd_drop_conv_nth)
  show thesis
  proof (cases "hd rest = quote")
    case True
    then have "quote \<in> set (tl rest)"
      using assms(1) by (auto simp: value_field_def split: if_splits)
    then obtain w x where w: "tl rest = w @ quote # x" "quote \<notin> set w" by (meson split_list_first)
    have rest: "rest = quote # w @ quote # x" using w True assms(2) by (cases rest) simp_all
    then have "v = w" "e = length w + 2"
      using assms(1) value_field_quoted [OF w(2), of x] by auto
    then show ?thesis using that [of "drop e rest"] r w(2) rest by simp
  next
    case False
    let ?v = "takeWhile (\<lambda>c. c \<noteq> CHR '','') rest"
    have v: "v = ?v" "e = length v" "v \<noteq> []" "\<not> ContainsAny v {quote, CHR ''='', CHR '' '', CHR 0x09}"
      using assms(1) False
      by (auto simp: value_field_def Let_def takeWhile_eq_take [symmetric] split: if_splits)
    have "CHR '','' \<notin> set v" using v(1) by (auto dest: set_takeWhileD)
    moreover have t: "take e rest = v" using v(1,2) by (metis takeWhile_eq_take)
    ultimately have plain: "v \<noteq> [] \<and> \<not> ContainsAny v {quote, CHR ''='', CHR '' '', CHR 0x09, CHR '',''}"
      using v(3,4) by (auto simp: ContainsAny_def)
    show ?thesis
    proof (rule that [OF r refl])
      show "rest = (if hd rest = quote then quote # v @ [quote] else v) @ drop e rest"
        using False t by (metis append_take_drop_id)
      show "take e rest = (if hd rest = quote then quote # v @ [quote] else v)"
        using False t by simp
      show "if hd rest = quote then quote \<notin> set v
          else v \<noteq> [] \<and> \<not> ContainsAny v {quote, CHR ''='', CHR '' '', CHR 0x09, CHR '',''}"
        using False plain by simp
    qed
  qed
qed

lemma parse_attribute_sound:
  assumes "parse_attribute seen list = Some (a, list')"
  shows "valid_attribute a \<and> a_Name a \<notin> set seen \<and>
     list = a_Raw a @ (if list' = [] then [] else CHR '','' # list')"
proof -
  obtain name rest found where cut: "Cut list CHR ''='' = (name, rest, found)" by (metis prod_cases3)
  have guards: "found" "name \<noteq> []" "rest \<noteq> []" "name \<notin> set seen" "list_all name_char name"
    using assms cut by (auto simp: parse_attribute_def Let_def split: if_splits)
  obtain e v where ev: "value_field rest = Some (e, v)"
      "\<not> ContainsAny v {CHR 0x0D, CHR 0x0A, CHR 0x00}" "e < length rest \<longrightarrow> rest ! e = CHR '',''"
    using assms cut guards by (auto simp: parse_attribute_def Let_def split: if_splits option.splits)
  have a: "a = \<lparr>a_Name = name, a_Value = v, a_Raw = name @ ''='' @ take e rest, a_Quoted = (hd rest = quote)\<rparr>"
    and l: "drop e rest = [] \<and> list' = [] \<or> tl (drop e rest) \<noteq> [] \<and> list' = tl (drop e rest)"
    using assms cut guards ev by (auto simp: parse_attribute_def Let_def split: if_splits)
  have list: "list = name @ CHR ''='' # rest" using cut guards(1) Cut_True by simp
  show ?thesis
  proof (rule value_field_sound [OF ev(1) guards(3) ev(3)])
    fix r
    assume r: "r = [] \<or> hd r = CHR '',''" "drop e rest = r"
      "rest = (if hd rest = quote then quote # v @ [quote] else v) @ r"
      "take e rest = (if hd rest = quote then quote # v @ [quote] else v)"
      "if hd rest = quote then quote \<notin> set v
       else v \<noteq> [] \<and> \<not> ContainsAny v {quote, CHR ''='', CHR '' '', CHR 0x09, CHR '',''}"
    have "valid_attribute a"
      using a guards ev(2) r(4,5) by (simp add: valid_attribute_def value_text_def)
    moreover have "r = (if list' = [] then [] else CHR '','' # list')"
      using l r(1,2) by (cases r) auto
    moreover have "list = a_Raw a @ r"
      using list a r(2) by simp (metis append_take_drop_id)
    ultimately show ?thesis using a guards(4) by simp
  qed
qed

lemma parse_attribute_complete:
  assumes "valid_attribute a" "a_Name a \<notin> set seen"
  shows "parse_attribute seen (a_Raw a @ (if list' = [] then [] else CHR '','' # list')) = Some (a, list')"
proof -
  let ?r = "if list' = [] then [] else CHR '','' # list'"
  have raw: "a_Raw a = a_Name a @ ''='' @ value_text a" using assms(1) by (simp add: valid_attribute_def)
  have cut: "Cut (a_Raw a @ ?r) CHR ''='' = (a_Name a, value_text a @ ?r, True)"
    using assms(1) raw name_char_no_eq by (simp add: valid_attribute_def)
  have vf: "value_field (value_text a @ ?r) = Some (length (value_text a), a_Value a)"
  proof (cases "a_Quoted a")
    case True
    then show ?thesis
      using assms(1) value_field_quoted [of "a_Value a" ?r] by (simp add: valid_attribute_def value_text_def)
  next
    case False
    then show ?thesis
      using assms(1) value_field_plain [of "a_Value a" ?r] by (simp add: valid_attribute_def value_text_def)
  qed
  have ne: "value_text a \<noteq> []" and hd: "(hd (value_text a @ ?r) = quote) = a_Quoted a"
    using assms(1) by (cases "a_Value a"; auto simp: valid_attribute_def value_text_def ContainsAny_def
        split: if_splits)+
  have "a = \<lparr>a_Name = a_Name a, a_Value = a_Value a, a_Raw = a_Name a @ ''='' @ value_text a, a_Quoted = a_Quoted a\<rparr>"
    using raw by simp
  then show ?thesis
    using assms ne unfolding parse_attribute_def cut Let_def prod.case vf option.case hd
    by (auto simp: valid_attribute_def nth_append)
qed

lemma join_comma_Cons:
  "join_comma (x # xs) = x @ (if xs = [] then [] else CHR '','' # join_comma xs)"
  by (cases xs) simp_all

lemma valid_raw_nonempty: "valid_attribute a \<Longrightarrow> a_Raw a \<noteq> []"
  by (simp add: valid_attribute_def)

lemma join_raw_Nil: "\<forall>a\<in>set as. valid_attribute a \<Longrightarrow> join_comma (map a_Raw as) = [] \<longleftrightarrow> as = []"
  by (cases as) (auto simp: join_comma_Cons dest: valid_raw_nonempty)

lemma ParseAttributes_loop_complete:
  assumes "\<forall>a\<in>set bs. valid_attribute a" "distinct (map a_Name (as @ bs))"
  shows "ParseAttributes_loop as (join_comma (map a_Raw bs)) = Some (as @ bs)"
  using assms
proof (induction bs arbitrary: as)
  case Nil
  then show ?case by (simp add: ParseAttributes_loop.simps)
next
  case (Cons b bs)
  let ?rest = "join_comma (map a_Raw bs)"
  have "join_comma (map a_Raw (b # bs)) = a_Raw b @ (if ?rest = [] then [] else CHR '','' # ?rest)"
    using join_raw_Nil [of bs] Cons.prems(1) by (simp add: join_comma_Cons)
  moreover have "parse_attribute (map a_Name as) (a_Raw b @ (if ?rest = [] then [] else CHR '','' # ?rest))
      = Some (b, ?rest)"
    using Cons.prems by (intro parse_attribute_complete) auto
  moreover have "ParseAttributes_loop (as @ [b]) ?rest = Some ((as @ [b]) @ bs)"
    using Cons.prems by (intro Cons.IH) auto
  moreover have "a_Raw b \<noteq> []" using Cons.prems(1) valid_raw_nonempty by simp
  ultimately show ?case by (subst ParseAttributes_loop.simps) simp
qed

lemma ParseAttributes_loop_sound:
  assumes "ParseAttributes_loop as list = Some cs" "distinct (map a_Name as)"
  shows "\<exists>bs. cs = as @ bs \<and> list = join_comma (map a_Raw bs) \<and> (\<forall>b\<in>set bs. valid_attribute b) \<and>
     distinct (map a_Name cs)"
  using assms
proof (induction as list rule: ParseAttributes_loop.induct)
  case (1 as list)
  show ?case
  proof (cases "list = []")
    case True
    then show ?thesis using 1 by (auto simp: ParseAttributes_loop.simps intro: exI [of _ "[]"])
  next
    case False
    then obtain a list' where a: "parse_attribute (map a_Name as) list = Some (a, list')"
        "ParseAttributes_loop (as @ [a]) list' = Some cs"
      using "1.prems"(1) by (subst (asm) ParseAttributes_loop.simps) (auto split: option.splits)
    note sound = parse_attribute_sound [OF a(1)]
    obtain bs where bs: "cs = (as @ [a]) @ bs" "list' = join_comma (map a_Raw bs)"
        "\<forall>b\<in>set bs. valid_attribute b" "distinct (map a_Name cs)"
      using "1.IH" [OF False a(1) refl a(2)] sound "1.prems"(2) by auto
    have "list = join_comma (map a_Raw (a # bs))"
      using sound bs(2) join_raw_Nil [OF bs(3)] by (simp add: join_comma_Cons)
    then show ?thesis using bs sound by (intro exI [of _ "a # bs"]) auto
  qed
qed

text \<open>C18. An attribute list is accepted with attributes as exactly when as is a non-empty list of
  valid attributes with distinct names whose raw texts joined by commas are the list.\<close>

theorem ParseAttributes_iff:
  "ParseAttributes s = Some as \<longleftrightarrow>
     as \<noteq> [] \<and> (\<forall>a\<in>set as. valid_attribute a) \<and> distinct (map a_Name as) \<and> s = join_comma (map a_Raw as)"
proof
  assume "ParseAttributes s = Some as"
  then have "ParseAttributes_loop [] s = Some as" "as \<noteq> []"
    by (auto simp: ParseAttributes_def split: option.splits if_splits)
  then show "as \<noteq> [] \<and> (\<forall>a\<in>set as. valid_attribute a) \<and> distinct (map a_Name as) \<and> s = join_comma (map a_Raw as)"
    using ParseAttributes_loop_sound [of "[]" s as] by auto
next
  assume "as \<noteq> [] \<and> (\<forall>a\<in>set as. valid_attribute a) \<and> distinct (map a_Name as) \<and> s = join_comma (map a_Raw as)"
  then show "ParseAttributes s = Some as"
    using ParseAttributes_loop_complete [of as "[]"] by (simp add: ParseAttributes_def)
qed

theorem ParseAttributes_iff_witness:
  "ParseAttributes ''A=1,B-2=x'' = Some [\<lparr>a_Name = ''A'', a_Value = ''1'', a_Raw = ''A=1'', a_Quoted = False\<rparr>,
     \<lparr>a_Name = ''B-2'', a_Value = ''x'', a_Raw = ''B-2=x'', a_Quoted = False\<rparr>]"
  by (subst ParseAttributes_iff)
    (simp add: valid_attribute_def value_text_def name_char_def ContainsAny_def)

section \<open>Lines, UTF-8 and white space\<close>

text \<open>\<open>bufio.ScanLines\<close>: split at line feeds, drop one trailing carriage return, no empty last line.\<close>

function split_lf :: "string \<Rightarrow> string list" where
  "split_lf s = (if s = [] then []
     else if CHR 0x0A \<in> set s then takeWhile (\<lambda>c. c \<noteq> CHR 0x0A) s # split_lf (tl (dropWhile (\<lambda>c. c \<noteq> CHR 0x0A) s))
     else [s])"
  by pat_completeness auto
termination
  by (relation "measure length") (auto simp: length_dropWhile_le order_le_less_trans [OF length_dropWhile_le]
      intro!: order_le_less_trans [OF diff_le_mono [OF length_dropWhile_le]])

declare split_lf.simps [simp del]

definition dropCR :: "string \<Rightarrow> string" where
  "dropCR s = (if s \<noteq> [] \<and> last s = CHR 0x0D then butlast s else s)"

definition scan_lines :: "string \<Rightarrow> string list" where
  "scan_lines body = map dropCR (split_lf body)"

definition byte :: "char \<Rightarrow> nat" where
  "byte c = of_char c"

definition cont :: "char \<Rightarrow> bool" where
  "cont c \<longleftrightarrow> 0x80 \<le> byte c \<and> byte c \<le> 0xBF"

text \<open>\<open>utf8.Valid\<close>: shortest encodings of scalar values, by the ranges of the second byte.\<close>

fun utf8_valid :: "string \<Rightarrow> bool" where
  "utf8_valid [] \<longleftrightarrow> True"
| "utf8_valid (a # s) \<longleftrightarrow>
     (if byte a < 0x80 then utf8_valid s
      else if 0xC2 \<le> byte a \<and> byte a \<le> 0xDF then
        (case s of b # s' \<Rightarrow> cont b \<and> utf8_valid s' | _ \<Rightarrow> False)
      else if 0xE0 \<le> byte a \<and> byte a \<le> 0xEF then
        (case s of b # c # s' \<Rightarrow>
           (if byte a = 0xE0 then 0xA0 else 0x80) \<le> byte b \<and> byte b \<le> (if byte a = 0xED then 0x9F else 0xBF) \<and>
           cont c \<and> utf8_valid s' | _ \<Rightarrow> False)
      else if 0xF0 \<le> byte a \<and> byte a \<le> 0xF4 then
        (case s of b # c # d # s' \<Rightarrow>
           (if byte a = 0xF0 then 0x90 else 0x80) \<le> byte b \<and> byte b \<le> (if byte a = 0xF4 then 0x8F else 0xBF) \<and>
           cont c \<and> cont d \<and> utf8_valid s' | _ \<Rightarrow> False)
      else False)"

text \<open>The UTF-8 encodings of the characters \<open>unicode.IsSpace\<close> accepts.\<close>

definition space_seqs :: "string list" where
  "space_seqs = map (\<lambda>c. [c]) [CHR 0x09, CHR 0x0A, CHR 0x0B, CHR 0x0C, CHR 0x0D, CHR '' ''] @
     [[CHR 0xC2, CHR 0x85], [CHR 0xC2, CHR 0xA0], [CHR 0xE1, CHR 0x9A, CHR 0x80]] @
     map (\<lambda>n. [CHR 0xE2, CHR 0x80, char_of n]) ([0x80..<0x8B] @ [0xA8, 0xA9, 0xAF :: nat]) @
     [[CHR 0xE2, CHR 0x81, CHR 0x9F], [CHR 0xE3, CHR 0x80, CHR 0x80]]"

fun strip_first :: "string list \<Rightarrow> string \<Rightarrow> string option" where
  "strip_first [] s = None"
| "strip_first (p # ps) s = (if HasPrefix s p then Some (drop (length p) s) else strip_first ps s)"

lemma strip_first_length:
  "strip_first ps s = Some t \<Longrightarrow> [] \<notin> set ps \<Longrightarrow> length t < length s"
proof (induction ps)
  case (Cons p ps)
  then show ?case by (cases s; cases p) (auto simp: HasPrefix_def split: if_splits)
qed simp

lemma space_seqs_nonempty: "[] \<notin> set space_seqs" "[] \<notin> set (map rev space_seqs)"
  by (simp_all add: space_seqs_def)

function trim_left :: "string \<Rightarrow> string" where
  "trim_left s = (case strip_first space_seqs s of None \<Rightarrow> s | Some t \<Rightarrow> trim_left t)"
  by pat_completeness auto
termination
  by (relation "measure length") (auto dest: strip_first_length [OF _ space_seqs_nonempty(1)])

function trim_rev :: "string \<Rightarrow> string" where
  "trim_rev s = (case strip_first (map rev space_seqs) s of None \<Rightarrow> s | Some t \<Rightarrow> trim_rev t)"
  by pat_completeness auto
termination
  by (relation "measure length") (auto dest: strip_first_length [OF _ space_seqs_nonempty(2)])

declare trim_left.simps [simp del] trim_rev.simps [simp del]

definition TrimSpace :: "string \<Rightarrow> string" where
  "TrimSpace s = rev (trim_rev (rev (trim_left s)))"

section \<open>The reference visitor\<close>

definition MaxPlaylistBytes :: nat where "MaxPlaylistBytes = 16 * 2 ^ 20"

datatype ReferenceKind =
  PlaylistReference | MapReference | KeyReference | MediaReference | AuxiliaryReference

record Reference =
  r_URI :: string
  r_Kind :: ReferenceKind
  r_Line :: nat

datatype manifest_error = InvalidManifest | InvalidAttributes

datatype 'e visit_error = Manifest manifest_error | Refused 'e

type_synonym ('a, 'e) visitor = "Reference \<Rightarrow> ('a, 'e, unit) op"

text \<open>A missing key of the Go map is the zero attribute.\<close>

definition lookup_attr :: "Attribute list \<Rightarrow> string \<Rightarrow> Attribute" where
  "lookup_attr as n = (case find (\<lambda>a. a_Name a = n) as of
      None \<Rightarrow> \<lparr>a_Name = [], a_Value = [], a_Raw = [], a_Quoted = False\<rparr> | Some a \<Rightarrow> a)"

text \<open>
  What one line does: the references it visits in order, then either an error or the new value of
  \<open>pending\<close>.
\<close>

type_synonym line_result = "Reference list \<times> (manifest_error + bool)"

fun uri_refs :: "ReferenceKind \<Rightarrow> nat \<Rightarrow> bool \<Rightarrow> Attribute list \<Rightarrow> line_result" where
  "uri_refs kind n pending [] = ([], Inr pending)"
| "uri_refs kind n pending (a # as) =
     (if \<not> HasSuffix (a_Name a) ''URI'' then uri_refs kind n pending as
      else if \<not> a_Quoted a \<or> a_Value a = [] then ([], Inl InvalidManifest)
      else let (refs, st) = uri_refs kind n pending as
           in (\<lparr>r_URI = a_Value a, r_Kind = kind, r_Line = n\<rparr> # refs, st))"

definition attribute_line ::
  "string \<Rightarrow> ReferenceKind \<Rightarrow> bool \<Rightarrow> nat \<Rightarrow> bool \<Rightarrow> string \<Rightarrow> line_result" where
  "attribute_line tag kind required n pending list =
    (case ParseAttributes list of
       None \<Rightarrow> ([], Inl InvalidAttributes)
     | Some as \<Rightarrow>
        let mediaType = lookup_attr as ''TYPE''; meth = lookup_attr as ''METHOD''; uri = lookup_attr as ''URI'';
            isMedia = (tag = ''#EXT-X-MEDIA'');
            required' = (if isMedia then a_Value mediaType = ''SUBTITLES'' else required)
        in if isMedia \<and> (a_Value mediaType = [] \<or> a_Quoted mediaType) then ([], Inl InvalidManifest)
           else if kind = KeyReference \<and> (a_Value meth = [] \<or> a_Quoted meth \<or>
                     (a_Value meth = ''NONE'' \<and> tag = ''#EXT-X-SESSION-KEY'')) then ([], Inl InvalidManifest)
           else if kind = KeyReference \<and> a_Value meth = ''NONE'' then
             (if length as \<noteq> 1 then ([], Inl InvalidManifest) else ([], Inr pending))
           else if required' \<and> (\<not> a_Quoted uri \<or> a_Value uri = []) then ([], Inl InvalidManifest)
           else uri_refs kind n pending as)"

definition line_step :: "nat \<Rightarrow> bool \<Rightarrow> string \<Rightarrow> line_result" where
  "line_step n pending line =
    (if line = [] then ([], Inr pending)
     else if \<not> HasPrefix line ''#'' then
       ([\<lparr>r_URI = line, r_Kind = (if pending then PlaylistReference else MediaReference), r_Line = n\<rparr>], Inr False)
     else let (tag, list, _) = Cut line CHR '':''
          in if tag = ''#EXT-X-STREAM-INF'' then
               (if pending then ([], Inl InvalidManifest) else attribute_line tag MediaReference False n True list)
             else if tag = ''#EXT-X-MEDIA'' \<or> tag = ''#EXT-X-I-FRAME-STREAM-INF'' then
               attribute_line tag PlaylistReference (tag = ''#EXT-X-I-FRAME-STREAM-INF'') n pending list
             else if tag = ''#EXT-X-MAP'' then attribute_line tag MapReference True n pending list
             else if tag = ''#EXT-X-KEY'' \<or> tag = ''#EXT-X-SESSION-KEY'' then
               attribute_line tag KeyReference True n pending list
             else if \<not> Contains list ''URI='' then ([], Inr pending)
             else attribute_line tag AuxiliaryReference False n pending list)"

fun visit_refs :: "('a, 'e) visitor \<Rightarrow> Reference list \<Rightarrow> ('a, 'e visit_error, unit) op" where
  "visit_refs visit [] a = (Inr (), a)"
| "visit_refs visit (r # rs) a = (case visit r a of
      (Inl e, a') \<Rightarrow> (Inl (Refused e), a')
    | (Inr _, a') \<Rightarrow> visit_refs visit rs a')"

text \<open>The scan loop; \<open>n\<close> is the number of the line last read.\<close>

fun visit_lines :: "('a, 'e) visitor \<Rightarrow> nat \<Rightarrow> bool \<Rightarrow> string list \<Rightarrow> ('a, 'e visit_error, unit) op" where
  "visit_lines visit n pending [] a = (if pending then (Inl (Manifest InvalidManifest), a) else (Inr (), a))"
| "visit_lines visit n pending (l # ls) a =
     (let (refs, st) = line_step (n + 1) pending (TrimSpace l)
      in case visit_refs visit refs a of
           (Inl e, a') \<Rightarrow> (Inl e, a')
         | (Inr _, a') \<Rightarrow> (case st of
               Inl e \<Rightarrow> (Inl (Manifest e), a')
             | Inr p \<Rightarrow> visit_lines visit (n + 1) p ls a'))"

definition VisitReferences :: "string \<Rightarrow> ('a, 'e) visitor option \<Rightarrow> ('a, 'e visit_error, unit) op" where
  "VisitReferences body visit a =
    (case visit of
       None \<Rightarrow> (Inl (Manifest InvalidManifest), a)
     | Some v \<Rightarrow>
        if length body > MaxPlaylistBytes \<or> \<not> utf8_valid body \<or> CHR 0x00 \<in> set body
        then (Inl (Manifest InvalidManifest), a)
        else case scan_lines body of
            [] \<Rightarrow> (Inl (Manifest InvalidManifest), a)
          | l # ls \<Rightarrow> if l \<noteq> ''#EXTM3U'' then (Inl (Manifest InvalidManifest), a)
                      else visit_lines v 1 False ls a)"

section \<open>The references of a manifest\<close>

text \<open>The specification: the dependencies a manifest has and whether it is well-formed.\<close>

fun line_refs :: "nat \<Rightarrow> bool \<Rightarrow> string list \<Rightarrow> Reference list \<times> manifest_error option" where
  "line_refs n pending [] = ([], if pending then Some InvalidManifest else None)"
| "line_refs n pending (l # ls) =
     (case line_step (n + 1) pending (TrimSpace l) of
        (refs, Inl e) \<Rightarrow> (refs, Some e)
      | (refs, Inr p) \<Rightarrow> (let (rs, st) = line_refs (n + 1) p ls in (refs @ rs, st)))"

lemma visit_refs_append:
  "visit_refs v (rs @ ss) a = (case visit_refs v rs a of (Inl e, a') \<Rightarrow> (Inl e, a') | (Inr _, a') \<Rightarrow> visit_refs v ss a')"
  by (induction rs arbitrary: a) (auto split: prod.splits sum.splits)

lemma visit_lines_spec:
  "visit_lines v n pending ls a =
     (case visit_refs v (fst (line_refs n pending ls)) a of
        (Inl e, a') \<Rightarrow> (Inl e, a')
      | (Inr u, a') \<Rightarrow> (case snd (line_refs n pending ls) of None \<Rightarrow> (Inr (), a') | Some e \<Rightarrow> (Inl (Manifest e), a')))"
proof (induction ls arbitrary: n pending a)
  case (Cons l ls)
  obtain refs st where st: "line_step (n + 1) pending (TrimSpace l) = (refs, st)" by fastforce
  show ?case
    using st Cons.IH by (cases st) (auto simp: visit_refs_append split: prod.splits sum.splits)
qed simp

text \<open>A URI line contributes exactly itself.\<close>

lemma uri_refs_shape:
  "r \<in> set (fst (uri_refs k n p as)) \<Longrightarrow> r_URI r \<noteq> [] \<and> r_Kind r = k \<and> r_Line r = n"
  by (induction as) (auto simp: Let_def split: if_splits prod.splits)

lemma attribute_line_shape:
  "r \<in> set (fst (attribute_line t k q n p list)) \<Longrightarrow> r_URI r \<noteq> [] \<and> r_Kind r = k \<and> r_Line r = n"
  by (auto simp: attribute_line_def Let_def dest: uri_refs_shape split: option.splits if_splits)

lemma if_keeps: "(c \<Longrightarrow> P a) \<Longrightarrow> (\<not> c \<Longrightarrow> P b) \<Longrightarrow> P (if c then a else b)"
  by simp

lemma line_step_shape:
  assumes "r \<in> set (fst (line_step n p l))"
  shows "r_URI r \<noteq> [] \<and> r_Line r = n"
proof -
  have attr: "\<forall>r\<in>set (fst (attribute_line t k q n p' list)). r_URI r \<noteq> [] \<and> r_Line r = n" for t k q p' list
    using attribute_line_shape by blast
  have "\<forall>r\<in>set (fst (line_step n p l)). r_URI r \<noteq> [] \<and> r_Line r = n"
    unfolding line_step_def Let_def
    by (cases "Cut l CHR '':''" rule: prod_cases3)
      (simp only: prod.case, intro if_keeps [where P = "\<lambda>x. \<forall>r\<in>set (fst x). r_URI r \<noteq> [] \<and> r_Line r = n"],
        (rule attr | simp)+)
  then show ?thesis using assms by blast
qed

lemma line_refs_Cons:
  assumes "line_step (n + 1) p (TrimSpace l) = (refs, st)"
  shows "fst (line_refs n p (l # ls)) = refs @ (case st of Inl e \<Rightarrow> [] | Inr q \<Rightarrow> fst (line_refs (n + 1) q ls))"
    and "snd (line_refs n p (l # ls)) = (case st of Inl e \<Rightarrow> Some e | Inr q \<Rightarrow> snd (line_refs (n + 1) q ls))"
  using assms by (auto split: sum.splits prod.splits)

lemma line_refs_shape:
  "r \<in> set (fst (line_refs n p ls)) \<Longrightarrow> r_URI r \<noteq> [] \<and> n < r_Line r \<and> r_Line r \<le> n + length ls"
proof (induction ls arbitrary: n p)
  case (Cons l ls)
  obtain refs st where st: "line_step (n + 1) p (TrimSpace l) = (refs, st)" by fastforce
  consider "r \<in> set refs" | q where "st = Inr q" "r \<in> set (fst (line_refs (n + 1) q ls))"
    using Cons.prems unfolding line_refs_Cons(1) [OF st] by (cases st) auto
  then show ?case
  proof cases
    case 1
    then show ?thesis using line_step_shape [of r "n + 1" p "TrimSpace l"] st by simp
  next
    case 2
    then show ?thesis using Cons.IH [of "n + 1" q] by simp
  qed
qed simp

lemma line_refs_sorted: "sorted (map r_Line (fst (line_refs n p ls)))"
proof (induction ls arbitrary: n p)
  case (Cons l ls)
  obtain refs st where st: "line_step (n + 1) p (TrimSpace l) = (refs, st)" by fastforce
  have here: "map r_Line refs = replicate (length refs) (n + 1)"
    using line_step_shape [of _ "n + 1" p "TrimSpace l"] st
    by (intro replicate_eqI) auto
  show ?case
  proof (cases st)
    case (Inr q)
    have "\<forall>x\<in>set (map r_Line (fst (line_refs (n + 1) q ls))). n + 1 \<le> x"
      using line_refs_shape [of _ "n + 1" q ls] by fastforce
    then show ?thesis
      using Cons.IH [of "n + 1" q] Inr here unfolding line_refs_Cons(1) [OF st]
      by (auto simp: sorted_append)
  qed (use here in \<open>simp add: line_refs_Cons(1) [OF st] del: line_refs.simps\<close>)
qed simp

definition uri_line :: "string \<Rightarrow> bool" where
  "uri_line l \<longleftrightarrow> TrimSpace l \<noteq> [] \<and> \<not> HasPrefix (TrimSpace l) ''#''"

definition variant_line :: "string \<Rightarrow> bool" where
  "variant_line l \<longleftrightarrow> HasPrefix (TrimSpace l) ''#'' \<and> fst (Cut (TrimSpace l) CHR '':'') = ''#EXT-X-STREAM-INF''"

text \<open>
  The tag lines whose attributes can name a resource: the kind of reference and the attribute list.
\<close>

definition tag_kind :: "string \<Rightarrow> ReferenceKind" where
  "tag_kind tag =
    (if tag = ''#EXT-X-STREAM-INF'' then MediaReference
     else if tag \<in> {''#EXT-X-MEDIA'', ''#EXT-X-I-FRAME-STREAM-INF''} then PlaylistReference
     else if tag = ''#EXT-X-MAP'' then MapReference
     else if tag \<in> {''#EXT-X-KEY'', ''#EXT-X-SESSION-KEY''} then KeyReference
     else AuxiliaryReference)"

definition tag_line :: "string \<Rightarrow> (ReferenceKind \<times> string) option" where
  "tag_line l = (let (tag, list, _) = Cut (TrimSpace l) CHR '':'' in
     if HasPrefix (TrimSpace l) ''#'' \<and> (tag_kind tag \<noteq> AuxiliaryReference \<or> Contains list ''URI='')
     then Some (tag_kind tag, list) else None)"

lemma line_step_uri:
  "uri_line l \<Longrightarrow> line_step n p (TrimSpace l) =
     ([\<lparr>r_URI = TrimSpace l, r_Kind = (if p then PlaylistReference else MediaReference), r_Line = n\<rparr>], Inr False)"
  by (simp add: uri_line_def line_step_def)

lemma uri_refs_pending: "snd (uri_refs k n p as) = Inr q \<Longrightarrow> q = p"
  by (induction as) (auto simp: Let_def split: if_splits prod.splits)

lemma attribute_line_pending: "snd (attribute_line t k rq n p list) = Inr q \<Longrightarrow> q = p"
  by (auto simp: attribute_line_def Let_def dest: uri_refs_pending split: option.splits if_splits)

text \<open>Only a URI line clears \<open>pending\<close>, and a second variant tag before it is refused.\<close>

lemma line_step_pending:
  assumes "line_step n True (TrimSpace l) = (refs, Inr q)" "\<not> uri_line l"
  shows "q"
proof (rule ccontr)
  assume "\<not> q"
  have attr: "snd (attribute_line t k rq n True list) \<noteq> Inr False" for t k rq list
    using attribute_line_pending by blast
  have "snd (line_step n True (TrimSpace l)) \<noteq> Inr False"
  proof (cases "TrimSpace l = []")
    case False
    then have "HasPrefix (TrimSpace l) ''#''" using assms(2) by (simp add: uri_line_def)
    then show ?thesis
      unfolding line_step_def Let_def if_P [OF False] if_not_P [OF False]
      by (cases "Cut (TrimSpace l) CHR '':''" rule: prod_cases3)
        (simp only: prod.case not_True_eq_False if_False simp_thms,
          intro if_keeps [where P = "\<lambda>x. snd x \<noteq> Inr False"], (rule attr | simp)+)
  qed (simp add: line_step_def)
  with assms(1) \<open>\<not> q\<close> show False by simp
qed

lemma line_step_variant:
  assumes "variant_line l" "line_step n p (TrimSpace l) = (refs, Inr q)"
  shows "q"
proof -
  obtain list f where cut: "Cut (TrimSpace l) CHR '':'' = (''#EXT-X-STREAM-INF'', list, f)"
    using assms(1) by (cases "Cut (TrimSpace l) CHR '':''" rule: prod_cases3) (simp add: variant_line_def)
  have h: "HasPrefix (TrimSpace l) ''#''" and ne: "TrimSpace l \<noteq> []"
    using assms(1) by (auto simp: variant_line_def HasPrefix_def)
  have "\<not> p" "attribute_line ''#EXT-X-STREAM-INF'' MediaReference False n True list = (refs, Inr q)"
    using assms(2) unfolding line_step_def cut Let_def prod.case using h ne by (auto split: if_splits)
  then show "q" using attribute_line_pending by (metis snd_conv)
qed

lemma uri_refs_complete:
  "snd (uri_refs k n p as) = Inr q \<Longrightarrow> a \<in> set as \<Longrightarrow> HasSuffix (a_Name a) ''URI'' \<Longrightarrow>
   a_Quoted a \<and> a_Value a \<noteq> [] \<and> \<lparr>r_URI = a_Value a, r_Kind = k, r_Line = n\<rparr> \<in> set (fst (uri_refs k n p as))"
  by (induction as) (auto simp: Let_def split: if_splits prod.splits)

text \<open>What an accepted list of attributes has contributed to the references of its line.\<close>

definition attributes_visited :: "ReferenceKind \<Rightarrow> nat \<Rightarrow> string \<Rightarrow> Reference set \<Rightarrow> bool" where
  "attributes_visited k n list refs \<longleftrightarrow> (\<exists>as. ParseAttributes list = Some as \<and>
     (\<forall>a\<in>set as. HasSuffix (a_Name a) ''URI'' \<longrightarrow>
        a_Quoted a \<and> a_Value a \<noteq> [] \<and> \<lparr>r_URI = a_Value a, r_Kind = k, r_Line = n\<rparr> \<in> refs))"

lemma attribute_line_complete:
  assumes "snd (attribute_line t k rq n p list) = Inr q"
  shows "attributes_visited k n list (set (fst (attribute_line t k rq n p list)))"
proof -
  obtain as where as: "ParseAttributes list = Some as"
    using assms by (auto simp: attribute_line_def split: option.splits)
  have "fst (attribute_line t k rq n p list) = fst (uri_refs k n p as) \<and> snd (uri_refs k n p as) = Inr q \<or>
      (length as = 1 \<and> a_Value (lookup_attr as ''METHOD'') = ''NONE'')"
    using assms by (auto simp: attribute_line_def as Let_def split: if_splits)
  then show ?thesis
  proof (elim disjE conjE)
    assume "length as = 1" "a_Value (lookup_attr as ''METHOD'') = ''NONE''"
    then obtain a where "as = [a]" "a_Name a = ''METHOD''"
      by (cases as) (auto simp: lookup_attr_def split: if_splits)
    then show ?thesis using as by (simp add: attributes_visited_def HasSuffix_def HasPrefix_def)
  qed (use as uri_refs_complete in \<open>auto simp: attributes_visited_def\<close>)
qed

lemma line_step_tag:
  assumes "tag_line l = Some (k, list)" "line_step n p (TrimSpace l) = (refs, Inr q)"
  shows "attributes_visited k n list (set refs)"
proof -
  obtain tag f where cut: "Cut (TrimSpace l) CHR '':'' = (tag, list, f)" and h: "HasPrefix (TrimSpace l) ''#''"
    and k: "k = tag_kind tag" "tag_kind tag \<noteq> AuxiliaryReference \<or> Contains list ''URI=''"
    using assms(1) by (cases "Cut (TrimSpace l) CHR '':''" rule: prod_cases3) (auto simp: tag_line_def split: if_splits)
  have "TrimSpace l \<noteq> []" using h by (auto simp: HasPrefix_def)
  then obtain rq p' where "attribute_line tag k rq n p' list = (refs, Inr q)"
    using assms(2) h k unfolding line_step_def cut Let_def prod.case tag_kind_def by (auto split: if_splits)
  then show ?thesis using attribute_line_complete by (metis fst_conv snd_conv)
qed

lemma attributes_visited_mono: "attributes_visited k n list A \<Longrightarrow> A \<subseteq> B \<Longrightarrow> attributes_visited k n list B"
  by (auto simp: attributes_visited_def)

lemma line_refs_tags:
  assumes "snd (line_refs n p ls) = None" "i < length ls" "tag_line (ls ! i) = Some (k, list)"
  shows "attributes_visited k (n + 1 + i) list (set (fst (line_refs n p ls)))"
  using assms
proof (induction ls arbitrary: n p i)
  case (Cons l ls)
  obtain refs st where st: "line_step (n + 1) p (TrimSpace l) = (refs, st)" by fastforce
  obtain q where q: "st = Inr q" "snd (line_refs (n + 1) q ls) = None"
    using Cons.prems(1) unfolding line_refs_Cons(2) [OF st] by (cases st) auto
  show ?case
  proof (cases i)
    case 0
    then show ?thesis
      using line_step_tag [of l k list "n + 1" p refs q] st q(1) Cons.prems(3)
      unfolding line_refs_Cons(1) [OF st] by (auto intro: attributes_visited_mono)
  next
    case (Suc j)
    then show ?thesis
      using Cons.IH [OF q(2), of j] Cons.prems q(1) unfolding line_refs_Cons(1) [OF st]
      by (auto intro: attributes_visited_mono)
  qed
qed simp

lemma line_refs_uri_lines:
  assumes "snd (line_refs n p ls) = None" "i < length ls" "uri_line (ls ! i)"
  shows "\<exists>r\<in>set (fst (line_refs n p ls)). r_Line r = n + 1 + i \<and> r_URI r = TrimSpace (ls ! i)"
  using assms
proof (induction ls arbitrary: n p i)
  case (Cons l ls)
  obtain refs st where st: "line_step (n + 1) p (TrimSpace l) = (refs, st)" by fastforce
  obtain q where q: "st = Inr q" "snd (line_refs (n + 1) q ls) = None"
    using Cons.prems(1) unfolding line_refs_Cons(2) [OF st] by (cases st) auto
  show ?case
  proof (cases i)
    case 0
    then show ?thesis
      using st Cons.prems(3) line_step_uri [of l "n + 1" p] unfolding line_refs_Cons(1) [OF st] by auto
  next
    case (Suc j)
    then show ?thesis
      using Cons.IH [OF q(2), of j] Cons.prems q(1) unfolding line_refs_Cons(1) [OF st] by auto
  qed
qed simp

text \<open>After a variant tag the next URI line is visited as a playlist.\<close>

lemma line_refs_awaited:
  assumes "snd (line_refs n True ls) = None"
  shows "\<exists>j<length ls. uri_line (ls ! j) \<and> (\<forall>i<j. \<not> uri_line (ls ! i)) \<and>
     \<lparr>r_URI = TrimSpace (ls ! j), r_Kind = PlaylistReference, r_Line = n + 1 + j\<rparr> \<in> set (fst (line_refs n True ls))"
  using assms
proof (induction ls arbitrary: n)
  case (Cons l ls)
  obtain refs st where st: "line_step (n + 1) True (TrimSpace l) = (refs, st)" by fastforce
  obtain q where q: "st = Inr q" "snd (line_refs (n + 1) q ls) = None"
    using Cons.prems(1) unfolding line_refs_Cons(2) [OF st] by (cases st) auto
  show ?case
  proof (cases "uri_line l")
    case True
    then show ?thesis
      using st line_step_uri [of l "n + 1" True] unfolding line_refs_Cons(1) [OF st]
      by (intro exI [of _ 0]) auto
  next
    case False
    then have True: "q = True" using line_step_pending st q(1) by auto
    obtain j where j: "j < length ls" "uri_line (ls ! j)" "\<forall>i<j. \<not> uri_line (ls ! i)"
      "\<lparr>r_URI = TrimSpace (ls ! j), r_Kind = PlaylistReference, r_Line = n + 1 + 1 + j\<rparr>
         \<in> set (fst (line_refs (n + 1) True ls))"
      using Cons.IH q(2) True by blast
    then show ?thesis
      using False q(1) True unfolding line_refs_Cons(1) [OF st]
      by (intro exI [of _ "Suc j"]) (auto simp: less_Suc_eq_0_disj)
  qed
qed simp

lemma line_refs_variants:
  assumes "snd (line_refs n p ls) = None" "i < length ls" "variant_line (ls ! i)"
  shows "\<exists>j<length ls. i < j \<and> uri_line (ls ! j) \<and> (\<forall>k. i < k \<and> k < j \<longrightarrow> \<not> uri_line (ls ! k)) \<and>
     \<lparr>r_URI = TrimSpace (ls ! j), r_Kind = PlaylistReference, r_Line = n + 1 + j\<rparr> \<in> set (fst (line_refs n p ls))"
  using assms
proof (induction ls arbitrary: n p i)
  case (Cons l ls)
  obtain refs st where st: "line_step (n + 1) p (TrimSpace l) = (refs, st)" by fastforce
  obtain q where q: "st = Inr q" "snd (line_refs (n + 1) q ls) = None"
    using Cons.prems(1) unfolding line_refs_Cons(2) [OF st] by (cases st) auto
  obtain j where j: "j < length ls" "i < Suc j" "uri_line (ls ! j)"
      "\<forall>k. i < k \<and> k < Suc j \<longrightarrow> \<not> uri_line ((l # ls) ! k)"
      "\<lparr>r_URI = TrimSpace (ls ! j), r_Kind = PlaylistReference, r_Line = n + 1 + 1 + j\<rparr>
         \<in> set (fst (line_refs (n + 1) q ls))"
  proof (cases i)
    case 0
    then have "q = True" using line_step_variant [of l "n + 1" p refs q] st q(1) Cons.prems(3) by simp
    then obtain j where "j < length ls" "uri_line (ls ! j)" "\<forall>i<j. \<not> uri_line (ls ! i)"
      "\<lparr>r_URI = TrimSpace (ls ! j), r_Kind = PlaylistReference, r_Line = n + 1 + 1 + j\<rparr>
         \<in> set (fst (line_refs (n + 1) q ls))"
      using line_refs_awaited [of "n + 1" ls] q(2) by auto
    then show thesis using 0 by (intro that [of j]) (auto simp: less_Suc_eq_0_disj)
  next
    case (Suc i')
    obtain j where "j < length ls" "i' < j" "uri_line (ls ! j)" "\<forall>k. i' < k \<and> k < j \<longrightarrow> \<not> uri_line (ls ! k)"
      "\<lparr>r_URI = TrimSpace (ls ! j), r_Kind = PlaylistReference, r_Line = n + 1 + 1 + j\<rparr>
         \<in> set (fst (line_refs (n + 1) q ls))"
      using Cons.IH [OF q(2), of i'] Cons.prems Suc by auto
    then show thesis using Suc by (intro that [of j]) (auto simp: less_Suc_eq_0_disj)
  qed
  then show ?case
    using q(1) unfolding line_refs_Cons(1) [OF st] by (intro exI [of _ "Suc j"]) auto
qed simp

section \<open>Properties of the visitor\<close>

text \<open>C19. When a playlist is accepted the visitor has seen, in line order, a reference for every URI
  line, for every variant line the playlist it announces, and for every stream, media, i-frame,
  map, key and session-key tag, and every other tag whose attribute list contains URI=, each
  attribute whose name ends in URI, with the kind of the tag and the number of the line: no
  dependency of an accepted playlist is skipped.\<close>

theorem VisitReferences_accepts:
  assumes "VisitReferences body (Some v) a = (Inr (), a')"
  shows "\<exists>ls refs. scan_lines body = ''#EXTM3U'' # ls \<and> visit_refs v refs a = (Inr (), a') \<and>
     sorted (map r_Line refs) \<and>
     (\<forall>r\<in>set refs. r_URI r \<noteq> [] \<and> 1 < r_Line r \<and> r_Line r \<le> 1 + length ls) \<and>
     (\<forall>i<length ls. uri_line (ls ! i) \<longrightarrow> (\<exists>r\<in>set refs. r_Line r = 2 + i \<and> r_URI r = TrimSpace (ls ! i))) \<and>
     (\<forall>i<length ls. variant_line (ls ! i) \<longrightarrow> (\<exists>j<length ls. i < j \<and> uri_line (ls ! j) \<and>
        (\<forall>k. i < k \<and> k < j \<longrightarrow> \<not> uri_line (ls ! k)) \<and>
        \<lparr>r_URI = TrimSpace (ls ! j), r_Kind = PlaylistReference, r_Line = 2 + j\<rparr> \<in> set refs)) \<and>
     (\<forall>i<length ls. \<forall>k list. tag_line (ls ! i) = Some (k, list) \<longrightarrow> attributes_visited k (2 + i) list (set refs))"
proof -
  obtain ls where ls: "scan_lines body = ''#EXTM3U'' # ls" "visit_lines v 1 False ls a = (Inr (), a')"
    using assms by (auto simp: VisitReferences_def split: if_splits list.splits)
  let ?refs = "fst (line_refs 1 False ls)"
  have ok: "visit_refs v ?refs a = (Inr (), a')" "snd (line_refs 1 False ls) = None"
    using ls(2) unfolding visit_lines_spec
    by (auto split: prod.splits sum.splits option.splits)
  show ?thesis
    using ls(1) ok(1) line_refs_sorted [of 1 False ls] line_refs_shape [of _ 1 False ls]
      line_refs_uri_lines [OF ok(2)] line_refs_variants [OF ok(2)] line_refs_tags [OF ok(2)]
    by (intro exI [of _ ls] exI [of _ ?refs]) (auto simp: numeral_2_eq_2)
qed

definition master_playlist :: string where
  "master_playlist = ''#EXTM3U'' @ [CHR 0x0A] @ ''#EXT-X-MEDIA:TYPE=AUDIO,URI='' @ [CHR 0x22] @ ''a'' @ [CHR 0x22] @ [CHR 0x0A] @
     ''#EXT-X-STREAM-INF:BANDWIDTH=1'' @ [CHR 0x0A] @ '' v.m3u8''"

definition media_line :: string where
  "media_line = ''#EXT-X-MEDIA:TYPE=AUDIO,URI='' @ [CHR 0x22] @ ''a'' @ [CHR 0x22]"

lemma master_playlist_scan:
  "scan_lines master_playlist = [''#EXTM3U'', media_line, ''#EXT-X-STREAM-INF:BANDWIDTH=1'', '' v.m3u8'']"
  by code_simp

lemma master_playlist_utf8: "utf8_valid master_playlist" "CHR 0x00 \<notin> set master_playlist"
  by code_simp+

lemma master_playlist_visit:
  "visit_lines (\<lambda>r a. (Inr () :: unit + unit, a @ [r])) 1 False
     [media_line, ''#EXT-X-STREAM-INF:BANDWIDTH=1'', '' v.m3u8''] [] =
   (Inr (), [\<lparr>r_URI = ''a'', r_Kind = PlaylistReference, r_Line = 2\<rparr>, \<lparr>r_URI = ''v.m3u8'', r_Kind = PlaylistReference, r_Line = 4\<rparr>])"
  by code_simp

lemma master_playlist_tag:
  "tag_line media_line = Some (PlaylistReference, ''TYPE=AUDIO,URI='' @ [CHR 0x22] @ ''a'' @ [CHR 0x22])"
  "ParseAttributes (''TYPE=AUDIO,URI='' @ [CHR 0x22] @ ''a'' @ [CHR 0x22]) =
     Some [\<lparr>a_Name = ''TYPE'', a_Value = ''AUDIO'', a_Raw = ''TYPE=AUDIO'', a_Quoted = False\<rparr>,
           \<lparr>a_Name = ''URI'', a_Value = ''a'', a_Raw = ''URI='' @ [CHR 0x22] @ ''a'' @ [CHR 0x22], a_Quoted = True\<rparr>]"
  by code_simp+

theorem VisitReferences_accepts_witness:
  "\<exists>ls refs. scan_lines master_playlist = ''#EXTM3U'' # ls \<and>
     visit_refs (\<lambda>r a. (Inr () :: unit + unit, a @ [r])) refs [] =
       (Inr (), [\<lparr>r_URI = ''a'', r_Kind = PlaylistReference, r_Line = 2\<rparr>, \<lparr>r_URI = ''v.m3u8'', r_Kind = PlaylistReference, r_Line = 4\<rparr>]) \<and>
     \<lparr>r_URI = ''a'', r_Kind = PlaylistReference, r_Line = 2\<rparr> \<in> set refs"
proof -
  have "length master_playlist \<le> MaxPlaylistBytes"
    by (simp add: master_playlist_def MaxPlaylistBytes_def)
  then have h: "VisitReferences master_playlist (Some (\<lambda>r a. (Inr () :: unit + unit, a @ [r]))) [] =
      (Inr (), [\<lparr>r_URI = ''a'', r_Kind = PlaylistReference, r_Line = 2\<rparr>, \<lparr>r_URI = ''v.m3u8'', r_Kind = PlaylistReference, r_Line = 4\<rparr>])"
    using master_playlist_utf8 master_playlist_visit
    by (simp add: VisitReferences_def master_playlist_scan del: visit_lines.simps utf8_valid.simps)
  obtain ls refs where r: "scan_lines master_playlist = ''#EXTM3U'' # ls"
      "visit_refs (\<lambda>r a. (Inr () :: unit + unit, a @ [r])) refs [] =
       (Inr (), [\<lparr>r_URI = ''a'', r_Kind = PlaylistReference, r_Line = 2\<rparr>, \<lparr>r_URI = ''v.m3u8'', r_Kind = PlaylistReference, r_Line = 4\<rparr>])"
      "\<forall>i<length ls. \<forall>k list. tag_line (ls ! i) = Some (k, list) \<longrightarrow> attributes_visited k (2 + i) list (set refs)"
    using VisitReferences_accepts [OF h] by (elim exE conjE) (rule that)
  have "ls = [media_line, ''#EXT-X-STREAM-INF:BANDWIDTH=1'', '' v.m3u8'']" using r(1) master_playlist_scan by simp
  then have "attributes_visited PlaylistReference 2 (''TYPE=AUDIO,URI='' @ [CHR 0x22] @ ''a'' @ [CHR 0x22]) (set refs)"
    using r(3) [rule_format, of 0] master_playlist_tag(1) by simp
  then have "\<lparr>r_URI = ''a'', r_Kind = PlaylistReference, r_Line = 2\<rparr> \<in> set refs"
    unfolding attributes_visited_def master_playlist_tag(2) by (simp add: HasSuffix_def HasPrefix_def)
  then show ?thesis using r(1,2) by blast
qed

end
