(* ===== verification/Durable_Queue.thy ===== *)
theory Durable_Queue
  imports Vidra_Prelude
begin

text \<open>
  The durable job tables the background workers share: \<open>pending \<rightarrow> running \<rightarrow> done | failed\<close>,
  claimed with a thirty minute lease, renewed while a worker runs, swept back when the lease
  elapses (\<open>upload_finalize_jobs.sql\<close>, \<open>transcoding.sql\<close> and the \<open>lease\<close> package).

  A table is a list of rows in insertion order; each statement is a function on it that takes the
  database clock. \<open>queue_ok\<close> is what the schema enforces: primary keys and the partial unique index
  that admits one live row per key. The partial index is also a check: a statement that would give
  a key a second live row fails and changes nothing.

  \<open>worker_run\<close> runs a sequence of timed statements of any number of workers, each on the jobs in its
  hands; \<open>lease_exclusive\<close> shows that a worker that keeps its lease is the only one that holds its
  job, \<open>stale_reschedule_reopens\<close> how an earlier holder whose lease ran out takes it away.
\<close>

datatype job_state = Pending | Running | Done | Dead

record 'p job =
  job_id :: string
  job_key :: string
  job_payload :: 'p
  job_state :: job_state
  job_attempts :: int
  job_next :: int
  job_error :: string

type_synonym 'p queue = "'p job list"

text \<open>\<open>lease.Duration\<close>, the interval every claim and renewal writes.\<close>

definition lease_Duration :: int where "lease_Duration = 30 * Minute"

definition lease_DefaultInterval :: int where "lease_DefaultInterval = 5 * Minute"

definition live :: "'p job \<Rightarrow> bool" where
  "live j \<longleftrightarrow> job_state j = Pending \<or> job_state j = Running"

definition queue_ok :: "'p queue \<Rightarrow> bool" where
  "queue_ok q \<longleftrightarrow> distinct (map job_id q) \<and> distinct (map job_key (filter live q))"

section \<open>Statements\<close>

definition queue_enqueue :: "int \<Rightarrow> string \<Rightarrow> string \<Rightarrow> 'p \<Rightarrow> 'p queue \<Rightarrow> 'p job option \<times> 'p queue" where
  "queue_enqueue now i k p q =
     (if list_ex (\<lambda>j. live j \<and> job_key j = k) q then (None, q)
      else let j = \<lparr>job_id = i, job_key = k, job_payload = p, job_state = Pending,
                    job_attempts = 0, job_next = now, job_error = []\<rparr>
           in (Some j, q @ [j]))"

definition queue_latest :: "string \<Rightarrow> 'p queue \<Rightarrow> 'p job option" where
  "queue_latest k q = (case filter (\<lambda>j. job_key j = k) q of [] \<Rightarrow> None | js \<Rightarrow> Some (last js))"

definition queue_has_live :: "string \<Rightarrow> 'p queue \<Rightarrow> bool" where
  "queue_has_live k q = list_ex (\<lambda>j. live j \<and> job_key j = k) q"

definition queue_delete :: "string \<Rightarrow> 'p queue \<Rightarrow> 'p queue" where
  "queue_delete i q = filter (\<lambda>j. job_id j \<noteq> i) q"

definition update_jobs :: "('p job \<Rightarrow> bool) \<Rightarrow> ('p job \<Rightarrow> 'p job) \<Rightarrow> 'p queue \<Rightarrow> 'p queue" where
  "update_jobs P f q = map (\<lambda>j. if P j then f j else j) q"

text \<open>The rows a bounded, ordered sub-select picks.\<close>

definition pick :: "nat \<Rightarrow> ('p job \<Rightarrow> bool) \<Rightarrow> 'p queue \<Rightarrow> string list" where
  "pick n P q = take n (map job_id (sort_key job_next (filter P q)))"

definition claimable :: "int \<Rightarrow> 'p job \<Rightarrow> bool" where
  "claimable now j \<longleftrightarrow> job_state j = Pending \<and> job_next j \<le> now"

definition queue_claim :: "int \<Rightarrow> nat \<Rightarrow> 'p queue \<Rightarrow> 'p job list \<times> 'p queue" where
  "queue_claim now n q =
     (let ids = pick n (claimable now) q;
          q' = update_jobs (\<lambda>j. job_id j \<in> set ids)
                 (\<lambda>j. j\<lparr>job_state := Running, job_next := now + lease_Duration\<rparr>) q
      in (filter (\<lambda>j. job_id j \<in> set ids) q', q'))"

definition queue_renew :: "int \<Rightarrow> string \<Rightarrow> 'p queue \<Rightarrow> 'p queue" where
  "queue_renew now i q = update_jobs (\<lambda>j. job_id j = i \<and> job_state j = Running)
     (\<lambda>j. j\<lparr>job_next := now + lease_Duration\<rparr>) q"

definition queue_complete :: "string \<Rightarrow> 'p queue \<Rightarrow> 'p queue" where
  "queue_complete i q = update_jobs (\<lambda>j. job_id j = i) (\<lambda>j. j\<lparr>job_state := Done, job_error := []\<rparr>) q"

definition queue_fail :: "string \<Rightarrow> string \<Rightarrow> 'p queue \<Rightarrow> 'p queue" where
  "queue_fail i err q = update_jobs (\<lambda>j. job_id j = i)
     (\<lambda>j. j\<lparr>job_state := Dead, job_attempts := job_attempts j + 1, job_error := err\<rparr>) q"

text \<open>A statement that may make a row live again is subject to the unique index.\<close>

definition unique_live :: "'p queue \<Rightarrow> 'p queue \<Rightarrow> bool \<times> 'p queue" where
  "unique_live q q' = (if distinct (map job_key (filter live q')) then (True, q') else (False, q))"

definition queue_reschedule :: "string \<Rightarrow> int \<Rightarrow> string \<Rightarrow> 'p queue \<Rightarrow> bool \<times> 'p queue" where
  "queue_reschedule i at err q = unique_live q (update_jobs (\<lambda>j. job_id j = i)
     (\<lambda>j. j\<lparr>job_state := Pending, job_attempts := job_attempts j + 1, job_next := at, job_error := err\<rparr>) q)"

definition queue_defer :: "string \<Rightarrow> int \<Rightarrow> string \<Rightarrow> 'p queue \<Rightarrow> bool \<times> 'p queue" where
  "queue_defer i at err q = unique_live q (update_jobs (\<lambda>j. job_id j = i)
     (\<lambda>j. j\<lparr>job_state := Pending, job_next := at, job_error := err\<rparr>) q)"

definition expired :: "int \<Rightarrow> 'p job \<Rightarrow> bool" where
  "expired now j \<longleftrightarrow> job_state j = Running \<and> job_next j \<le> now"

definition queue_sweep :: "int \<Rightarrow> 'p queue \<Rightarrow> nat \<times> 'p queue" where
  "queue_sweep now q =
     (let ids = pick 1000 (expired now) q
      in (length ids, update_jobs (\<lambda>j. job_id j \<in> set ids)
            (\<lambda>j. j\<lparr>job_state := Pending, job_attempts := job_attempts j + 1\<rparr>) q))"

section \<open>Single rows\<close>

lemma ids_update_jobs:
  "(\<And>j. job_id (f j) = job_id j) \<Longrightarrow> map job_id (update_jobs P f q) = map job_id q"
  by (induction q) (auto simp: update_jobs_def)

lemma set_update_jobs: "set (update_jobs P f q) = (\<lambda>j. if P j then f j else j) ` set q"
  by (simp add: update_jobs_def)

lemma updated_job: "j \<in> set q \<Longrightarrow> P j \<Longrightarrow> f j \<in> set (update_jobs P f q)"
  by (force simp: set_update_jobs)

lemma pick_sub: "i \<in> set (pick n P q) \<Longrightarrow> \<exists>j\<in>set q. job_id j = i \<and> P j"
  unfolding pick_def by (drule in_set_takeD) auto

lemma job_unique:
  "queue_ok q \<Longrightarrow> j \<in> set q \<Longrightarrow> j' \<in> set q \<Longrightarrow> job_id j = job_id j' \<Longrightarrow> j = j'"
  by (auto simp: queue_ok_def distinct_map inj_on_def)

lemma pick_in:
  "queue_ok q \<Longrightarrow> j \<in> set q \<Longrightarrow> job_id j \<in> set (pick n P q) \<Longrightarrow> P j"
  using pick_sub [of "job_id j" n P q] job_unique [of q] by metis

lemma length_pick: "length (pick n P q) = min n (length (filter P q))"
  by (simp add: pick_def)

section \<open>The invariant\<close>

lemma live_keys_update:
  assumes "\<And>j. job_key (f j) = job_key j" "\<And>j. j \<in> set q \<Longrightarrow> P j \<Longrightarrow> live (f j) \<Longrightarrow> live j"
    "distinct (map job_key (filter live q))"
  shows "distinct (map job_key (filter live (update_jobs P f q)))"
  using assms(2,3)
proof (induction q)
  case (Cons j q)
  have "job_key ` {x \<in> set (update_jobs P f q). live x} \<subseteq> job_key ` {x \<in> set q. live x}"
    using assms(1) Cons.prems(1) by (fastforce simp: set_update_jobs split: if_splits)
  moreover have "distinct (map job_key (filter live q))"
    and "live j \<Longrightarrow> job_key j \<notin> job_key ` {x \<in> set q. live x}"
    using Cons.prems(2) by (auto split: if_splits)
  ultimately show ?case
    using Cons.IH assms(1) Cons.prems(1) [of j] Cons.prems(1)
    by (auto simp: update_jobs_def)
qed (simp add: update_jobs_def)

lemma update_jobs_ok:
  assumes "queue_ok q" "\<And>j. job_key (f j) = job_key j" "\<And>j. job_id (f j) = job_id j"
    "\<And>j. j \<in> set q \<Longrightarrow> P j \<Longrightarrow> live (f j) \<Longrightarrow> live j"
  shows "queue_ok (update_jobs P f q)"
  using assms live_keys_update [of f q P] by (simp add: queue_ok_def ids_update_jobs)

lemma enqueue_ok:
  "queue_ok q \<Longrightarrow> i \<notin> set (map job_id q) \<Longrightarrow> queue_ok (snd (queue_enqueue now i k p q))"
  by (auto simp: queue_enqueue_def queue_ok_def Let_def list_ex_iff live_def)

lemma delete_ok: "queue_ok q \<Longrightarrow> queue_ok (queue_delete i q)"
proof -
  assume ok: "queue_ok q"
  have "filter live (queue_delete i q) = filter (\<lambda>j. job_id j \<noteq> i) (filter live q)"
    by (simp add: queue_delete_def conj_commute)
  then show ?thesis using ok
    by (simp add: queue_ok_def distinct_map_filter queue_delete_def del: filter_filter)
qed

lemma claim_ok: "queue_ok q \<Longrightarrow> queue_ok (snd (queue_claim now n q))"
proof -
  assume ok: "queue_ok q"
  show ?thesis
    unfolding queue_claim_def Let_def snd_conv
    by (rule update_jobs_ok [OF ok]) (auto dest: pick_in [OF ok] simp: claimable_def live_def)
qed

lemma sweep_ok: "queue_ok q \<Longrightarrow> queue_ok (snd (queue_sweep now q))"
proof -
  assume ok: "queue_ok q"
  show ?thesis
    unfolding queue_sweep_def Let_def snd_conv
    by (rule update_jobs_ok [OF ok]) (auto dest: pick_in [OF ok] simp: expired_def live_def)
qed

lemma renew_ok: "queue_ok q \<Longrightarrow> queue_ok (queue_renew now i q)"
  unfolding queue_renew_def by (rule update_jobs_ok) (auto simp: live_def)

lemma complete_ok: "queue_ok q \<Longrightarrow> queue_ok (queue_complete i q)"
  unfolding queue_complete_def by (rule update_jobs_ok) (auto simp: live_def)

lemma fail_ok: "queue_ok q \<Longrightarrow> queue_ok (queue_fail i err q)"
  unfolding queue_fail_def by (rule update_jobs_ok) (auto simp: live_def)

lemma unique_live_ok:
  "queue_ok q \<Longrightarrow> map job_id q' = map job_id q \<Longrightarrow> queue_ok (snd (unique_live q q'))"
  by (simp add: unique_live_def queue_ok_def)

lemma reschedule_ok: "queue_ok q \<Longrightarrow> queue_ok (snd (queue_reschedule i at err q))"
  unfolding queue_reschedule_def by (rule unique_live_ok) (simp_all add: ids_update_jobs)

lemma defer_ok: "queue_ok q \<Longrightarrow> queue_ok (snd (queue_defer i at err q))"
  unfolding queue_defer_def by (rule unique_live_ok) (simp_all add: ids_update_jobs)

lemmas queue_preserved = enqueue_ok delete_ok claim_ok sweep_ok renew_ok complete_ok fail_ok
  reschedule_ok defer_ok

section \<open>Any number of workers\<close>

datatype 'p queue_event =
    Enqueues string string 'p
  | Claims nat
  | Renews string
  | Completes string
  | Fails string string
  | Reschedules string int string
  | Defers string int string
  | Deletes string
  | Sweeps

text \<open>One statement at a time of the clock: the ids it hands to a worker, and the table after it.\<close>

fun queue_exec :: "int \<Rightarrow> 'p queue_event \<Rightarrow> 'p queue \<Rightarrow> string list \<times> 'p queue" where
  "queue_exec now (Enqueues i k p) q =
     ([], if i \<in> set (map job_id q) then q else snd (queue_enqueue now i k p q))"
| "queue_exec now (Claims n) q = (case queue_claim now n q of (js, q') \<Rightarrow> (map job_id js, q'))"
| "queue_exec now (Renews i) q = ([], queue_renew now i q)"
| "queue_exec now (Completes i) q = ([], queue_complete i q)"
| "queue_exec now (Fails i err) q = ([], queue_fail i err q)"
| "queue_exec now (Reschedules i at err) q = ([], snd (queue_reschedule i at err q))"
| "queue_exec now (Defers i at err) q = ([], snd (queue_defer i at err q))"
| "queue_exec now (Deletes i) q = ([], queue_delete i q)"
| "queue_exec now Sweeps q = ([], snd (queue_sweep now q))"

lemma queue_exec_ok: "queue_ok q \<Longrightarrow> queue_ok (snd (queue_exec t e q))"
  using claim_ok [of q t] by (cases e) (auto simp: split_beta intro: queue_preserved)

text \<open>
  The workers: a claim puts the jobs it returned into the hands of the worker that ran it, and a
  worker renews, completes, fails, puts back or defers only a job that is in its hands. A job
  leaves the hands of its worker by one of these statements, not by a sweep: a worker does not
  notice that its lease has run out, nor does the statement check who holds the job.
\<close>

type_synonym 'p workers = "'p queue \<times> (nat \<times> string) list"

fun holder_job :: "'p queue_event \<Rightarrow> string option" where
  "holder_job (Renews i) = Some i"
| "holder_job (Completes i) = Some i"
| "holder_job (Fails i err) = Some i"
| "holder_job (Reschedules i at err) = Some i"
| "holder_job (Defers i at err) = Some i"
| "holder_job e = None"

fun finishes :: "'p queue_event \<Rightarrow> bool" where
  "finishes (Renews i) = False"
| "finishes e = True"

definition worker_exec :: "int \<Rightarrow> nat \<Rightarrow> 'p queue_event \<Rightarrow> 'p workers \<Rightarrow> string list \<times> 'p workers" where
  "worker_exec t k e s = (case holder_job e of
      None \<Rightarrow> (case queue_exec t e (fst s) of (ids, q') \<Rightarrow> (ids, q', map (Pair k) ids @ snd s))
    | Some i \<Rightarrow> if (k, i) \<in> set (snd s)
        then ([], snd (queue_exec t e (fst s)), if finishes e then removeAll (k, i) (snd s) else snd s)
        else ([], s))"

fun worker_claims :: "(int \<times> nat \<times> 'p queue_event) list \<Rightarrow> 'p workers \<Rightarrow> string list" where
  "worker_claims [] s = []"
| "worker_claims ((t, k, e) # es) s = (case worker_exec t k e s of (ids, s') \<Rightarrow> ids @ worker_claims es s')"

fun worker_run :: "(int \<times> nat \<times> 'p queue_event) list \<Rightarrow> 'p workers \<Rightarrow> 'p workers" where
  "worker_run [] s = s"
| "worker_run ((t, k, e) # es) s = worker_run es (snd (worker_exec t k e s))"

text \<open>
  The holder \<open>a\<close> keeps its lease on \<open>i\<close>: it has not finished the job, and every sweep comes before
  the deadline its last renewal set. New rows have ids of their own.
\<close>

fun keeps_lease :: "nat \<Rightarrow> string \<Rightarrow> int \<Rightarrow> (int \<times> nat \<times> 'p queue_event) list \<Rightarrow> bool" where
  "keeps_lease a i deadline [] = True"
| "keeps_lease a i deadline ((t, k, e) # es) = (case e of
      Renews j \<Rightarrow> keeps_lease a i (if k = a \<and> j = i then t + lease_Duration else deadline) es
    | Sweeps \<Rightarrow> t < deadline \<and> keeps_lease a i deadline es
    | Enqueues j _ _ \<Rightarrow> j \<noteq> i \<and> keeps_lease a i deadline es
    | e \<Rightarrow> \<not> (k = a \<and> holder_job e = Some i) \<and> keeps_lease a i deadline es)"

definition held :: "string \<Rightarrow> int \<Rightarrow> 'p queue \<Rightarrow> bool" where
  "held i deadline q \<longleftrightarrow> (\<forall>j\<in>set q. job_id j = i \<longrightarrow> job_state j = Running \<and> job_next j = deadline)"

lemma held_other:
  assumes "held i d q" "\<And>j. j \<in> set q \<Longrightarrow> P j \<Longrightarrow> job_id j \<noteq> i" "\<And>j. job_id (f j) = job_id j"
  shows "held i d (update_jobs P f q)"
  unfolding held_def set_update_jobs
proof (intro ballI impI)
  fix x assume "x \<in> (\<lambda>j. if P j then f j else j) ` set q" and x: "job_id x = i"
  then obtain j where j: "j \<in> set q" "x = (if P j then f j else j)" by blast
  then have "\<not> P j" using assms(2) [OF j(1)] assms(3) [of j] x by auto
  then show "job_state x = Running \<and> job_next x = d" using assms(1) j x by (simp add: held_def)
qed

lemma held_unique_live: "held i d q \<Longrightarrow> held i d q' \<Longrightarrow> held i d (snd (unique_live q q'))"
  by (simp add: unique_live_def)

lemma held_not_picked:
  "held i d q \<Longrightarrow> i \<notin> set (pick n (claimable t) q)"
  "held i d q \<Longrightarrow> t < d \<Longrightarrow> i \<notin> set (pick n (expired t) q)"
  unfolding held_def claimable_def expired_def by (fastforce dest!: pick_sub)+

lemma held_claim:
  assumes "held i d q"
  shows "i \<notin> set (map job_id (fst (queue_claim t n q)))" "held i d (snd (queue_claim t n q))"
proof -
  note out = held_not_picked(1) [OF assms, of n t]
  show "held i d (snd (queue_claim t n q))"
    unfolding queue_claim_def Let_def snd_conv using out by (intro held_other [OF assms]) auto
  show "i \<notin> set (map job_id (fst (queue_claim t n q)))"
    using out by (auto simp: queue_claim_def Let_def)
qed

lemma held_sweep: "held i d q \<Longrightarrow> t < d \<Longrightarrow> held i d (snd (queue_sweep t q))"
  unfolding queue_sweep_def Let_def snd_conv using held_not_picked(2) [of i d q t] by (intro held_other) auto

lemma held_renew: "held i d q \<Longrightarrow> held i (t + lease_Duration) (queue_renew t i q)"
  unfolding held_def queue_renew_def set_update_jobs
proof (intro ballI impI)
  fix x assume h: "\<forall>j\<in>set q. job_id j = i \<longrightarrow> job_state j = Running \<and> job_next j = d" and x: "job_id x = i"
    and "x \<in> (\<lambda>j. if job_id j = i \<and> job_state j = Running then j\<lparr>job_next := t + lease_Duration\<rparr> else j) ` set q"
  then obtain j where j: "j \<in> set q" "x = (if job_id j = i \<and> job_state j = Running then j\<lparr>job_next := t + lease_Duration\<rparr> else j)"
    by blast
  then have "job_id j = i" using x by (cases "job_id j = i \<and> job_state j = Running") simp_all
  then show "job_state x = Running \<and> job_next x = t + lease_Duration" using h j by simp
qed

text \<open>A statement on another job.\<close>

lemma held_elsewhere:
  assumes "held i d q" "holder_job e = Some j" "j \<noteq> i"
  shows "held i d (snd (queue_exec t e q))"
  using assms
  by (cases e) (auto simp: queue_renew_def queue_complete_def queue_fail_def queue_reschedule_def queue_defer_def
      intro!: held_unique_live held_other)

text \<open>A statement that is not on a job in hand.\<close>

lemma held_free:
  assumes "held i d q" "holder_job e = None" "keeps_lease a i d ((t, k, e) # es)"
  shows "held i d (snd (queue_exec t e q)) \<and> i \<notin> set (fst (queue_exec t e q)) \<and> keeps_lease a i d es"
proof (cases e)
  case (Enqueues j k p)
  then show ?thesis using assms by (auto simp: queue_enqueue_def Let_def held_def)
next
  case (Claims n)
  then show ?thesis using held_claim [OF assms(1), of t n] assms(3) by (simp add: split_beta)
next
  case (Deletes j)
  then show ?thesis using assms by (auto simp: queue_delete_def held_def)
next
  case Sweeps
  then show ?thesis using held_sweep [OF assms(1), of t] assms(3) by simp
qed (use assms(2) in simp_all)

text \<open>The holder has the job to itself.\<close>

definition sole_holder :: "nat \<Rightarrow> string \<Rightarrow> int \<Rightarrow> 'p workers \<Rightarrow> bool" where
  "sole_holder a i d s \<longleftrightarrow> held i d (fst s) \<and> (\<forall>k. (k, i) \<in> set (snd s) \<longleftrightarrow> k = a)"

lemma sole_holder_step:
  assumes "sole_holder a i d s" "keeps_lease a i d ((t, k, e) # es)"
  shows "i \<notin> set (fst (worker_exec t k e s)) \<and>
    (\<exists>d'. sole_holder a i d' (snd (worker_exec t k e s)) \<and> keeps_lease a i d' es)"
proof (cases "holder_job e")
  case None
  then have "held i d (snd (queue_exec t e (fst s)))" "i \<notin> set (fst (queue_exec t e (fst s)))" "keeps_lease a i d es"
    using held_free [OF _ None assms(2), of "fst s"] assms(1) unfolding sole_holder_def by blast+
  then show ?thesis using None assms(1) by (auto simp: worker_exec_def sole_holder_def split_beta)
next
  case (Some j)
  show ?thesis
  proof (cases "(k, j) \<in> set (snd s) \<and> j = i")
    case True
    then have k: "k = a" "j = i" using assms(1) by (auto simp: sole_holder_def)
    then obtain "e = Renews i" using Some assms(2) by (cases e) auto
    then show ?thesis using assms k held_renew [of i d "fst s" t]
      by (auto simp: worker_exec_def sole_holder_def)
  next
    case False
    have "keeps_lease a i d es" using assms Some False by (cases e) (auto simp: sole_holder_def split: if_splits)
    then show ?thesis
      using assms(1) Some False held_elsewhere [of i d "fst s" e j t]
      by (auto simp: worker_exec_def sole_holder_def)
  qed
qed

lemma sole_holder_run:
  assumes "sole_holder a i d s" "keeps_lease a i d es"
  shows "i \<notin> set (worker_claims es s) \<and> (\<exists>d'. sole_holder a i d' (worker_run es s))"
  using assms
proof (induction es arbitrary: s d)
  case (Cons x es)
  obtain t k e where x: "x = (t, k, e)" by (cases x)
  obtain d' where d': "i \<notin> set (fst (worker_exec t k e s))" "sole_holder a i d' (snd (worker_exec t k e s))"
    "keeps_lease a i d' es" using sole_holder_step [OF Cons.prems(1)] Cons.prems(2) x by blast
  then show ?case using Cons.IH [OF d'(2,3)] x by (auto simp: split_beta)
qed auto

lemma claim_holds:
  assumes "i \<in> set (map job_id (fst (queue_claim t n q)))"
  shows "held i (t + lease_Duration) (snd (queue_claim t n q))"
proof -
  have "i \<in> set (pick n (claimable t) q)"
    using assms by (auto simp: queue_claim_def Let_def)
  then show ?thesis by (auto simp: held_def queue_claim_def Let_def set_update_jobs)
qed

text \<open>C9. Workers claim jobs and renew, complete, fail, put back or defer only jobs they were handed
  and have not finished. When a worker claims a job that no other worker still has in hand, then,
  whatever all workers do and whatever is enqueued, deleted and swept, as long as the holder has
  not finished it and every sweep comes before the deadline its last renewal set, no claim hands
  the job out again, the holder is the only worker that has it, and its row, if not deleted, is
  running. The proviso is needed: an earlier holder whose lease ran out can still put the job
  back.\<close>

theorem lease_exclusive:
  assumes "worker_exec t a (Claims n) s = (ids, s')" "i \<in> set ids" "\<forall>k. (k, i) \<notin> set (snd s)"
    "keeps_lease a i (t + lease_Duration) es"
  shows "i \<notin> set (worker_claims es s') \<and> (\<forall>k. (k, i) \<in> set (snd (worker_run es s')) \<longleftrightarrow> k = a) \<and>
    (\<forall>j\<in>set (fst (worker_run es s')). job_id j = i \<longrightarrow> job_state j = Running)"
proof -
  have "sole_holder a i (t + lease_Duration) s'"
    using assms(1-3) claim_holds [of i t n "fst s"] by (auto simp: worker_exec_def sole_holder_def split: prod.splits)
  then show ?thesis using sole_holder_run [OF _ assms(4)] unfolding sole_holder_def held_def by blast
qed

definition demo_queue :: "unit queue" where
  "demo_queue = [\<lparr>job_id = ''j'', job_key = ''k'', job_payload = (), job_state = Pending,
     job_attempts = 0, job_next = 0, job_error = []\<rparr>]"

definition demo_shift :: "(int \<times> nat \<times> unit queue_event) list" where
  "demo_shift = [(10 * Minute, 2, Enqueues ''m'' ''l'' ()), (20 * Minute, 1, Renews ''j''), (40 * Minute, 2, Sweeps),
     (41 * Minute, 2, Claims 5), (42 * Minute, 2, Reschedules ''m'' Hour []), (43 * Minute, 2, Completes ''j'')]"

theorem lease_exclusive_witness:
  "fst (worker_exec 0 1 (Claims 5) (demo_queue, [])) = [''j''] \<and>
   ''j'' \<notin> set (worker_claims demo_shift (snd (worker_exec 0 1 (Claims 5) (demo_queue, [])))) \<and>
   worker_claims demo_shift (snd (worker_exec 0 1 (Claims 5) (demo_queue, []))) = [''m''] \<and>
   snd (worker_run demo_shift (snd (worker_exec 0 1 (Claims 5) (demo_queue, [])))) = [(1, ''j'')]"
proof -
  have b: "fst (worker_exec 0 1 (Claims 5) (demo_queue, [])) = [''j'']" by code_simp
  have c: "keeps_lease 1 ''j'' (0 + lease_Duration) demo_shift" by (simp add: lease_Duration_def demo_shift_def)
  have d: "''j'' \<notin> set (worker_claims demo_shift (snd (worker_exec 0 1 (Claims 5) (demo_queue, []))))"
    using lease_exclusive [OF prod.collapse [symmetric] _ _ c, of 5 "(demo_queue, [])"] unfolding b by simp
  have e: "worker_claims demo_shift (snd (worker_exec 0 1 (Claims 5) (demo_queue, []))) = [''m'']" by code_simp
  have f: "snd (worker_run demo_shift (snd (worker_exec 0 1 (Claims 5) (demo_queue, [])))) = [(1, ''j'')]" by code_simp
  from b d e f show ?thesis by simp
qed

section \<open>A holder whose lease has run out\<close>

lemma pick_all: "length q \<le> n \<Longrightarrow> set (pick n P q) = job_id ` {j \<in> set q. P j}"
proof -
  assume "length q \<le> n"
  then have "length (map job_id (sort_key job_next (filter P q))) \<le> n" using order_trans [OF length_filter_le [of P q]] by simp
  then show ?thesis by (simp add: pick_def)
qed

lemma length_update [simp]: "length (update_jobs P f q) = length q"
  by (simp add: update_jobs_def)

lemma queue_lengths [simp]:
  "length (snd (queue_claim t n q)) = length q" "length (snd (queue_sweep t q)) = length q"
  "length (snd (queue_reschedule i at err q)) = length q"
  by (simp_all add: queue_claim_def queue_sweep_def queue_reschedule_def unique_live_def Let_def)

definition job_in :: "string \<Rightarrow> job_state \<Rightarrow> int \<Rightarrow> 'p queue \<Rightarrow> bool" where
  "job_in i st at q \<longleftrightarrow> (\<exists>j\<in>set q. job_id j = i \<and> job_state j = st \<and> job_next j = at)"

lemma claim_due:
  assumes "length q \<le> n" "job_in i Pending at q" "at \<le> t"
  shows "i \<in> set (map job_id (fst (queue_claim t n q)))" "job_in i Running (t + lease_Duration) (snd (queue_claim t n q))"
proof -
  have p: "i \<in> set (pick n (claimable t) q)" using assms by (auto simp: pick_all [OF assms(1)] job_in_def claimable_def)
  from assms(2) obtain j where j: "j \<in> set q" "job_id j = i" by (auto simp: job_in_def)
  let ?j = "j\<lparr>job_state := Running, job_next := t + lease_Duration\<rparr>"
  have m: "?j \<in> set (snd (queue_claim t n q))"
    unfolding queue_claim_def Let_def snd_conv by (rule updated_job [OF j(1)]) (simp add: p j(2))
  then show "job_in i Running (t + lease_Duration) (snd (queue_claim t n q))"
    unfolding job_in_def by (rule bexI [rotated]) (simp add: j(2))
  show "i \<in> set (map job_id (fst (queue_claim t n q)))"
  proof -
    have "?j \<in> set (fst (queue_claim t n q))" using m p j(2) by (simp add: queue_claim_def Let_def)
    then have "job_id ?j \<in> set (map job_id (fst (queue_claim t n q)))" unfolding set_map by (rule imageI)
    then show ?thesis using j(2) by simp
  qed
qed

lemma sweep_expired:
  assumes "length q \<le> 1000" "job_in i Running at q" "at \<le> t"
  shows "job_in i Pending at (snd (queue_sweep t q))"
proof -
  from assms(2) obtain j where j: "j \<in> set q" "job_id j = i" "job_state j = Running" "job_next j = at"
    by (auto simp: job_in_def)
  have "job_id j \<in> set (pick 1000 (expired t) q)" using assms(1,3) j by (auto simp: pick_all expired_def)
  from updated_job [OF j(1), where P = "\<lambda>j. job_id j \<in> set (pick 1000 (expired t) q)", OF this,
      of "\<lambda>j. j\<lparr>job_state := Pending, job_attempts := job_attempts j + 1\<rparr>"]
  show ?thesis unfolding queue_sweep_def Let_def snd_conv job_in_def by (rule bexI [rotated]) (simp add: j)
qed

lemma reopens_running:
  assumes "queue_ok q" "job_in i Running d q"
  shows "job_in i Pending at (snd (queue_reschedule i at err q))"
proof -
  let ?f = "\<lambda>j. j\<lparr>job_state := Pending, job_attempts := job_attempts j + 1, job_next := at, job_error := err\<rparr>"
  from assms(2) obtain j where j: "j \<in> set q" "job_id j = i" "job_state j = Running" by (auto simp: job_in_def)
  have "live x" if "x \<in> set q" "job_id x = i" for x
    using job_unique [OF assms(1) that(1) j(1)] that(2) j(2,3) by (simp add: live_def)
  then have "queue_ok (update_jobs (\<lambda>j. job_id j = i) ?f q)" by (intro update_jobs_ok [OF assms(1)]) auto
  then have "snd (queue_reschedule i at err q) = update_jobs (\<lambda>j. job_id j = i) ?f q"
    by (simp add: queue_reschedule_def unique_live_def queue_ok_def)
  moreover have "?f j \<in> set (update_jobs (\<lambda>j. job_id j = i) ?f q)" by (rule updated_job [OF j(1)]) (rule j(2))
  ultimately show ?thesis unfolding job_in_def by (intro bexI [of _ "?f j"]) (simp_all add: j(2))
qed

text \<open>C10. A worker whose lease ran out and whose job was swept and claimed by a second worker still
  puts the job back to pending when its own attempt fails, as the statement checks neither state
  nor holder: the next claim after the backoff hands the job to a third worker while the second
  is still working on it under a lease.\<close>

theorem stale_reschedule_reopens:
  assumes "queue_ok q" "length q \<le> n" "length q \<le> 1000" "job_in i Pending due q" "due \<le> t0" "t0 + lease_Duration \<le> t1"
    "at \<le> t3" "distinct [a, b, c]" "\<forall>k. (k, i) \<notin> set hands"
  shows "let s = worker_run [(t0, b, Claims n), (t1, a, Sweeps), (t1, a, Claims n)] (q, hands);
             s' = worker_run [(t2, b, Reschedules i at err), (t3, c, Claims n)] s in
    (\<forall>k. (k, i) \<in> set (snd s) \<longleftrightarrow> k = a \<or> k = b) \<and> job_in i Running (t1 + lease_Duration) (fst s) \<and>
    (\<forall>k. (k, i) \<in> set (snd s') \<longleftrightarrow> k = a \<or> k = c)"
proof -
  let ?q1 = "snd (queue_claim t0 n q)"
  let ?q2 = "snd (queue_sweep t1 ?q1)"
  let ?q3 = "snd (queue_claim t1 n ?q2)"
  let ?q4 = "snd (queue_reschedule i at err ?q3)"
  note c1 = claim_due [OF assms(2,4,5)]
  have w: "job_in i Pending (t0 + lease_Duration) ?q2" using sweep_expired [OF _ c1(2) assms(6)] assms(3) by simp
  have c2: "i \<in> set (map job_id (fst (queue_claim t1 n ?q2)))" "job_in i Running (t1 + lease_Duration) ?q3"
    using claim_due [OF _ w assms(6), of n] assms(2) by simp_all
  have "queue_ok ?q3" by (intro claim_ok sweep_ok assms(1))
  then have r: "job_in i Pending at ?q4" using c2(2) by (rule reopens_running)
  have c3: "i \<in> set (map job_id (fst (queue_claim t3 n ?q4)))" using claim_due(1) [OF _ r assms(7), of n] assms(2) by simp
  have s: "worker_run [(t0, b, Claims n), (t1, a, Sweeps), (t1, a, Claims n)] (q, hands) =
      (?q3, map (Pair a \<circ> job_id) (fst (queue_claim t1 n ?q2)) @ map (Pair b \<circ> job_id) (fst (queue_claim t0 n q)) @ hands)"
    (is "_ = (_, ?h)") by (simp add: worker_exec_def split_beta)
  have h: "(k, i) \<in> set ?h \<longleftrightarrow> k = a \<or> k = b" for k using c1(1) c2(1) assms(9) by auto
  have s': "worker_run [(t2, b, Reschedules i at err), (t3, c, Claims n)] (?q3, ?h) =
      (snd (queue_claim t3 n ?q4), map (Pair c \<circ> job_id) (fst (queue_claim t3 n ?q4)) @ removeAll (b, i) ?h)"
    using h [of b] by (simp add: worker_exec_def split_beta)
  have "(k, i) \<in> set (map (Pair c \<circ> job_id) (fst (queue_claim t3 n ?q4)) @ removeAll (b, i) ?h) \<longleftrightarrow> k = a \<or> k = c" for k
  proof -
    have "(k, i) \<in> set (removeAll (b, i) ?h) \<longleftrightarrow> k = a" unfolding set_removeAll using h [of k] assms(8) by auto
    moreover have "(k, i) \<in> set (map (Pair c \<circ> job_id) (fst (queue_claim t3 n ?q4))) \<longleftrightarrow> k = c" using c3 by auto
    ultimately show ?thesis unfolding set_append by blast
  qed
  then show ?thesis using h c2(2) unfolding Let_def s s' fst_conv snd_conv by blast
qed

theorem stale_reschedule_reopens_witness:
  "\<forall>k. (k, ''j'') \<in> set (snd (worker_run [(Hour, 1, Reschedules ''j'' (Hour + Minute) ''x''), (Hour + Minute, 3, Claims 5)]
     (worker_run [(0, 1, Claims 5), (Hour, 2, Sweeps), (Hour, 2, Claims 5)] (demo_queue, [])))) \<longleftrightarrow> k = 2 \<or> k = 3"
  using stale_reschedule_reopens [of demo_queue 5 "''j''" 0 0 Hour "Hour + Minute" "Hour + Minute" 2 1 3 "[]" Hour "''x''"]
  by (simp add: queue_ok_def demo_queue_def live_def job_in_def lease_Duration_def Let_def)

text \<open>
  A job whose worker dies in every run: claimed, never renewed, swept when the lease elapses.
\<close>

fun crash_rounds :: "nat \<Rightarrow> int \<Rightarrow> nat \<Rightarrow> 'p queue \<Rightarrow> 'p queue" where
  "crash_rounds 0 t n q = q"
| "crash_rounds (Suc k) t n q =
     crash_rounds k (t + lease_Duration) n
       (snd (queue_sweep (t + lease_Duration) (snd (queue_claim t n q))))"

lemma crash_round:
  assumes "job_state j = Pending" "job_next j \<le> t" "0 < n"
  shows "snd (queue_sweep (t + lease_Duration) (snd (queue_claim t n [j]))) =
    [j\<lparr>job_attempts := job_attempts j + 1, job_next := t + lease_Duration\<rparr>]"
proof -
  have "snd (queue_claim t n [j]) = [j\<lparr>job_state := Running, job_next := t + lease_Duration\<rparr>]"
    using assms by (cases n) (auto simp: queue_claim_def pick_def claimable_def update_jobs_def Let_def)
  moreover have "j\<lparr>job_state := Pending\<rparr> = j" using assms(1) by (cases j) simp
  ultimately show ?thesis
    using assms by (cases j) (simp add: queue_sweep_def pick_def expired_def update_jobs_def Let_def)
qed

text \<open>A job whose worker dies after every claim is pending again after any number of crashes,
  with its attempts counted: crashing alone never dead-letters it.\<close>

theorem crash_never_dead_letters:
  assumes "job_state j = Pending" "job_next j \<le> t" "0 < n"
  shows "map job_state (crash_rounds k t n [j]) = [Pending] \<and>
    map job_attempts (crash_rounds k t n [j]) = [job_attempts j + int k]"
  using assms(1,2)
proof (induction k arbitrary: j t)
  case (Suc k)
  let ?j = "j\<lparr>job_attempts := job_attempts j + 1, job_next := t + lease_Duration\<rparr>"
  show ?case using Suc.IH [of ?j "t + lease_Duration"] Suc.prems crash_round [OF Suc.prems assms(3)] by simp
qed simp

theorem crash_never_dead_letters_witness:
  "map job_state (crash_rounds 1000 0 1 demo_queue) = [Pending] \<and>
   map job_attempts (crash_rounds 1000 0 1 demo_queue) = [1000]"
  using crash_never_dead_letters [of "hd demo_queue" 0 1 1000] by (simp add: demo_queue_def del: crash_rounds.simps)

end
