(* ===== verification/Blob_Store.thy ===== *)
theory Blob_Store
  imports Vidra_Prelude "HOL-Library.Sublist" "HOL-Library.List_Lexorder" "HOL-Library.Char_ord"
begin

text \<open>
  The local blob backend (\<open>internal/storage/local.go\<close>, the key rules of \<open>s3.go\<close> and the
  classification of \<open>classify.go\<close>).

  \<^item> A file system is a table from absolute paths (lists of segments) to directories and files,
    with a schedule of system call failures; every call pops the schedule, so that theorems hold
    for every sequence of failures.
  \<^item> An \<open>io.Reader\<close> is a value of \<open>reader\<close>: a body that hands out its packets in any sizes and ends
    with \<open>io.EOF\<close> or an error (alone or together with the last packet), or \<open>cappedReader\<close> of
    \<open>internal/upload/service.go\<close> around another reader. \<open>io.Copy\<close> is the loop over \<open>Read\<close>.
  \<^item> \<open>drain\<close> is what a reader delivers in total; \<open>io_Copy\<close> is proved to deliver exactly that for
    every packet and buffer size.
  \<^item> The locale \<open>object_store\<close> states what the clients of a backend rely on (an object put is the
    object opened, deletion hits exactly the prefix) and is interpreted on the local backend.
\<close>

section \<open>Keys and paths\<close>

fun split_on :: "char \<Rightarrow> string \<Rightarrow> string list" where
  "split_on c [] = [[]]"
| "split_on c (x # xs) =
     (let r = split_on c xs in if x = c then [] # r else (x # hd r) # tl r)"

definition validateKey :: "string \<Rightarrow> bool" where
  "validateKey key \<longleftrightarrow>
     \<not> (key = '''' \<or> CHR 0x00 \<in> set key \<or> take 1 key = ''/'') \<and>
     list_all (\<lambda>seg. seg \<noteq> ''..'') (split_on CHR ''/'' key)"

text \<open>\<open>filepath.Clean\<close> of an absolute path, with the segments seen so far in reverse.\<close>

fun clean_abs :: "string list \<Rightarrow> string list \<Rightarrow> string list" where
  "clean_abs acc [] = rev acc"
| "clean_abs acc (s # ss) =
     (if s = '''' \<or> s = ''.'' then clean_abs acc ss
      else if s = ''..'' then clean_abs (tl acc) ss
      else clean_abs (s # acc) ss)"

definition Join :: "string list \<Rightarrow> string \<Rightarrow> string list" where
  "Join root key = clean_abs [] (root @ split_on CHR ''/'' key)"

text \<open>\<open>filepath.Rel\<close> of two clean absolute paths; the empty list stands for \<open>"."\<close>.\<close>

fun Rel :: "string list \<Rightarrow> string list \<Rightarrow> string list" where
  "Rel (b # bs) (t # ts) = (if b = t then Rel bs ts else map (\<lambda>_. ''..'') (b # bs) @ t # ts)"
| "Rel bs ts = map (\<lambda>_. ''..'') bs @ ts"

section \<open>Errors\<close>

datatype errno = EACCES | EPERM | EROFS | ENOSPC | EDQUOT | EFBIG | ENOENT | ENOTDIR | EISDIR | ENOTEMPTY | EIO

datatype ErrorClass = ClassWriteDenied | ClassQuotaExceeded | ClassUnreachable

datatype 'e cause = Sys errno | Reader 'e

datatype 'e storage_error =
    ErrInvalidKey
  | ErrObjectNotFound
  | Classified ErrorClass string "'e cause"
  | Unclassified "'e cause"

fun localClass :: "'e cause \<Rightarrow> ErrorClass option" where
  "localClass (Sys EACCES) = Some ClassWriteDenied"
| "localClass (Sys EPERM) = Some ClassWriteDenied"
| "localClass (Sys EROFS) = Some ClassWriteDenied"
| "localClass (Sys ENOSPC) = Some ClassQuotaExceeded"
| "localClass (Sys EDQUOT) = Some ClassQuotaExceeded"
| "localClass (Sys EFBIG) = Some ClassQuotaExceeded"
| "localClass _ = None"

definition classifyLocal :: "string \<Rightarrow> 'e cause \<Rightarrow> 'e storage_error" where
  "classifyLocal op err = (case localClass err of
      Some c \<Rightarrow> Classified c op err | None \<Rightarrow> Unclassified err)"

definition ClassOf :: "'e storage_error \<Rightarrow> ErrorClass option" where
  "ClassOf err = (case err of Classified c _ _ \<Rightarrow> Some c | _ \<Rightarrow> None)"

text \<open>The cause \<open>errors.Is\<close> finds behind an error: classification wraps, it does not replace.\<close>

fun cause_of :: "'e storage_error \<Rightarrow> 'e cause option" where
  "cause_of (Classified _ _ c) = Some c"
| "cause_of (Unclassified c) = Some c"
| "cause_of _ = None"

lemma cause_of_classifyLocal [simp]: "cause_of (classifyLocal op c) = Some c"
  by (simp add: classifyLocal_def split: option.splits)

section \<open>The file system\<close>

type_synonym path = "string list"

datatype node = Dir | File string

record filesystem =
  entries :: "(path \<times> node) list"
  failures :: "errno option list"

abbreviation node_at :: "filesystem \<Rightarrow> path \<Rightarrow> node option" where
  "node_at fs \<equiv> map_of (entries fs)"

text \<open>One system call: the next failure of the schedule, or the call's own effect.\<close>

definition syscall ::
  "(filesystem \<Rightarrow> (errno + 'a) \<times> filesystem) \<Rightarrow> (filesystem, errno, 'a) op" where
  "syscall call fs = (case failures fs of
      Some e # rest \<Rightarrow> (Inl e, fs\<lparr>failures := rest\<rparr>)
    | _ \<Rightarrow> call (fs\<lparr>failures := tl (failures fs)\<rparr>))"

definition set_node :: "path \<Rightarrow> node \<Rightarrow> filesystem \<Rightarrow> filesystem" where
  "set_node p v fs = fs\<lparr>entries := (p, v) # filter (\<lambda>e. fst e \<noteq> p) (entries fs)\<rparr>"

definition drop_nodes :: "(path \<Rightarrow> bool) \<Rightarrow> filesystem \<Rightarrow> filesystem" where
  "drop_nodes P fs = fs\<lparr>entries := filter (\<lambda>e. \<not> P (fst e)) (entries fs)\<rparr>"

definition is_file :: "node option \<Rightarrow> bool" where
  "is_file v = (case v of Some (File _) \<Rightarrow> True | _ \<Rightarrow> False)"

text \<open>Whether a strict ancestor of a path is a file, which every call answers with \<open>ENOTDIR\<close>.\<close>

definition through_file :: "filesystem \<Rightarrow> path \<Rightarrow> bool" where
  "through_file fs p = list_ex (\<lambda>q. is_file (node_at fs q)) (butlast (prefixes p))"

definition MkdirAll :: "path \<Rightarrow> (filesystem, errno, unit) op" where
  "MkdirAll p = syscall (\<lambda>fs.
     if list_ex (\<lambda>q. is_file (node_at fs q)) (prefixes p) then (Inl ENOTDIR, fs)
     else (Inr (), fold (\<lambda>q. set_node q Dir) (prefixes p) fs))"

text \<open>\<open>os.OpenFile\<close> with \<open>O_CREATE|O_TRUNC|O_WRONLY\<close>.\<close>

definition OpenFile :: "path \<Rightarrow> (filesystem, errno, unit) op" where
  "OpenFile p = syscall (\<lambda>fs.
     if through_file fs p then (Inl ENOTDIR, fs)
     else if node_at fs p = Some Dir then (Inl EISDIR, fs)
     else if p \<noteq> [] \<and> node_at fs (butlast p) = None then (Inl ENOENT, fs)
     else (Inr (), set_node p (File []) fs))"

definition content :: "node option \<Rightarrow> string" where
  "content v = (case v of Some (File bs) \<Rightarrow> bs | _ \<Rightarrow> [])"

definition write_file :: "path \<Rightarrow> string \<Rightarrow> (filesystem, errno, unit) op" where
  "write_file p bs = syscall (\<lambda>fs. (Inr (), set_node p (File (content (node_at fs p) @ bs)) fs))"

definition close_file :: "(filesystem, errno, unit) op" where
  "close_file = syscall (\<lambda>fs. (Inr (), fs))"

definition remove :: "path \<Rightarrow> (filesystem, errno, unit) op" where
  "remove p = syscall (\<lambda>fs.
     if through_file fs p then (Inl ENOTDIR, fs)
     else case node_at fs p of
       None \<Rightarrow> (Inl ENOENT, fs)
     | Some (File _) \<Rightarrow> (Inr (), drop_nodes (\<lambda>q. q = p) fs)
     | Some Dir \<Rightarrow>
         if list_ex (\<lambda>e. strict_prefix p (fst e)) (entries fs) then (Inl ENOTEMPTY, fs)
         else (Inr (), drop_nodes (\<lambda>q. q = p) fs))"

definition RemoveAll :: "path \<Rightarrow> (filesystem, errno, unit) op" where
  "RemoveAll p = syscall (\<lambda>fs.
     if through_file fs p then (Inl ENOTDIR, fs)
     else (Inr (), drop_nodes (prefix p) fs))"

definition stat_node :: "path \<Rightarrow> (filesystem, errno, node) op" where
  "stat_node p = syscall (\<lambda>fs.
     if through_file fs p then (Inl ENOTDIR, fs)
     else case node_at fs p of None \<Rightarrow> (Inl ENOENT, fs) | Some v \<Rightarrow> (Inr v, fs))"

section \<open>Readers\<close>

datatype 'e read_end = EOF | Failing 'e

text \<open>
  \<open>Body packets end eager\<close>: the last packet comes with \<open>end\<close> when \<open>eager\<close>, before it otherwise.
  \<open>Capped remaining err r\<close> is \<open>cappedReader\<close>.
\<close>

datatype 'e reader = Body "string list" "'e read_end" bool | Capped int 'e "'e reader"

type_synonym 'e read_result = "(string \<times> 'e read_end option) \<times> 'e reader"

fun body_read :: "string list \<Rightarrow> 'e read_end \<Rightarrow> bool \<Rightarrow> nat \<Rightarrow> 'e read_result" where
  "body_read [] fin eager k = (([], Some fin), Body [] fin eager)"
| "body_read (p # ps) fin eager k =
     (if length p \<le> k
      then ((p, if ps = [] \<and> eager then Some fin else None), Body ps fin eager)
      else ((take k p, None), Body (drop k p # ps) fin eager))"

fun cappedReader_Read :: "'e reader \<Rightarrow> nat \<Rightarrow> 'e read_result" where
  "cappedReader_Read (Body ps fin eager) k = body_read ps fin eager k"
| "cappedReader_Read (Capped remaining err r) k =
     (if remaining < 0 then (([], Some (Failing err)), Capped remaining err r)
      else let k' = if int k > remaining + 1 then nat (remaining + 1) else k;
               ((bs, er), r') = cappedReader_Read r k';
               remaining' = remaining - int (length bs)
           in ((bs, if remaining' < 0 then Some (Failing err) else er), Capped remaining' err r'))"

fun reader_size :: "'e reader \<Rightarrow> nat" where
  "reader_size (Body ps fin eager) = length (concat ps) + length ps"
| "reader_size (Capped n e r) = reader_size r"

lemma Read_progress:
  assumes "cappedReader_Read r k = ((bs, None), r')" "0 < k"
  shows "reader_size r' < reader_size r"
  using assms
proof (induction r arbitrary: k bs r')
  case (Body ps fin eager)
  then show ?case by (cases ps) (auto split: if_splits)
next
  case (Capped n e r)
  let ?k = "if int k > n + 1 then nat (n + 1) else k"
  obtain cs er s where inner: "cappedReader_Read r ?k = ((cs, er), s)" by (metis surj_pair)
  with Capped.prems have "er = None" "r' = Capped (n - int (length cs)) e s" "0 \<le> n"
    by (auto simp: Let_def split: if_splits)
  moreover have "0 < ?k" using Capped.prems(2) \<open>0 \<le> n\<close> by simp
  ultimately show ?case using Capped.IH inner by auto
qed

text \<open>What a reader delivers in total, and how it ends.\<close>

fun drain :: "'e reader \<Rightarrow> string \<times> 'e read_end" where
  "drain (Body ps fin eager) = (concat ps, fin)"
| "drain (Capped n e r) = (let (c, fin) = drain r in
     if n < 0 then ([], Failing e)
     else if int (length c) \<le> n then (c, fin) else (take (nat (n + 1)) c, Failing e))"

lemma Read_length: "cappedReader_Read r k = ((bs, er), r') \<Longrightarrow> length bs \<le> k"
proof (induction r arbitrary: k bs er r')
  case (Body ps fin eager)
  then show ?case by (cases ps) (auto split: if_splits)
next
  case (Capped n e r)
  let ?k = "if int k > n + 1 then nat (n + 1) else k"
  obtain cs fr s where inner: "cappedReader_Read r ?k = ((cs, fr), s)" by (metis surj_pair)
  with Capped.prems Capped.IH [OF inner] show ?case by (auto simp: Let_def split: if_splits)
qed

lemma Read_drain:
  assumes "cappedReader_Read r k = ((bs, er), r')"
  shows "drain r = (case er of None \<Rightarrow> (bs @ fst (drain r'), snd (drain r')) | Some fin \<Rightarrow> (bs, fin))"
  using assms
proof (induction r arbitrary: k bs er r')
  case (Body ps fin eager)
  then show ?case by (cases ps) (auto split: if_splits)
next
  case (Capped n e r)
  let ?k = "if int k > n + 1 then nat (n + 1) else k"
  obtain cs fr s where inner: "cappedReader_Read r ?k = ((cs, fr), s)" by (metis surj_pair)
  note IH = Capped.IH [OF inner]
  have len: "0 \<le> n \<Longrightarrow> int (length cs) \<le> n + 1"
    using Read_length [OF inner] by (auto split: if_splits)
  show ?case
  proof (cases "n < 0")
    case True
    then show ?thesis using Capped.prems by (auto simp: split: prod.splits)
  next
    case False
    then have out: "bs = cs" "r' = Capped (n - int (length cs)) e s"
      "er = (if n < int (length cs) then Some (Failing e) else fr)"
      using Capped.prems inner by (auto simp: Let_def)
    show ?thesis
    proof (cases "n < int (length cs)")
      case True
      then have "nat (n + 1) = length cs" using len False by simp
      then show ?thesis using True False IH out by (auto simp: split: option.splits prod.splits)
    next
      case fits: False
      show ?thesis
      proof (cases fr)
        case (Some fin)
        then show ?thesis using False fits IH out by auto
      next
        case None
        obtain c fin where d: "drain s = (c, fin)" by fastforce
        have "nat (n + 1) - length cs = nat (n - int (length cs) + 1)"
          using fits by (simp add: nat_diff_distrib)
        moreover have "length cs \<le> nat (n + 1)" using fits by simp
        ultimately show ?thesis using False fits IH out None d by (auto simp: take_append)
      qed
    qed
  qed
qed

section \<open>\<open>io.Copy\<close>\<close>

abbreviation copy_buffer :: nat where "copy_buffer \<equiv> 32768"

function (sequential) io_Copy ::
  "path \<Rightarrow> 'e reader \<Rightarrow> nat \<Rightarrow> filesystem \<Rightarrow> (nat \<times> 'e cause option) \<times> filesystem" where
  "io_Copy p r n fs = (case cappedReader_Read r copy_buffer of ((bs, er), r') \<Rightarrow>
     (case (if bs = [] then (Inr (), fs) else write_file p bs fs) of
        (Inl e, fs') \<Rightarrow> ((n, Some (Sys e)), fs')
      | (Inr _, fs') \<Rightarrow>
          (case er of
             None \<Rightarrow> io_Copy p r' (n + length bs) fs'
           | Some EOF \<Rightarrow> ((n + length bs, None), fs')
           | Some (Failing e) \<Rightarrow> ((n + length bs, Some (Reader e)), fs'))))"
  by pat_completeness auto
termination
  by (relation "measure (\<lambda>(p, r, n, fs). reader_size r)") (simp_all, metis Read_progress zero_less_numeral)

declare io_Copy.simps [simp del]

section \<open>The local backend\<close>

record Local =
  root :: path

definition resolve :: "Local \<Rightarrow> string \<Rightarrow> 'e storage_error + path" where
  "resolve l key =
     (if \<not> validateKey key then Inl ErrInvalidKey
      else let full = Join (root l) key; rel = Rel (root l) full in
        if rel \<noteq> [] \<and> hd rel = ''..'' then Inl ErrInvalidKey else Inr full)"

definition Local_Put :: "Local \<Rightarrow> string \<Rightarrow> 'e reader \<Rightarrow> (filesystem, 'e storage_error, nat) op" where
  "Local_Put l key r fs =
     (case resolve l key of Inl err \<Rightarrow> (Inl err, fs) | Inr full \<Rightarrow>
     (case MkdirAll (butlast full) fs of
        (Inl e, fs1) \<Rightarrow> (Inl (classifyLocal ''put'' (Sys e)), fs1)
      | (Inr _, fs1) \<Rightarrow>
     (case OpenFile full fs1 of
        (Inl e, fs2) \<Rightarrow> (Inl (classifyLocal ''put'' (Sys e)), fs2)
      | (Inr _, fs2) \<Rightarrow>
     (case io_Copy full r 0 fs2 of ((n, copyErr), fs3) \<Rightarrow>
     (case close_file fs3 of (closeErr, fs4) \<Rightarrow>
     (case copyErr of
        Some c \<Rightarrow> (Inl (classifyLocal ''put'' c), ignoreE (remove full) fs4)
      | None \<Rightarrow> (case closeErr of
          Inl e \<Rightarrow> (Inl (classifyLocal ''put'' (Sys e)), fs4)
        | Inr _ \<Rightarrow> (Inr n, fs4))))))))"

definition Local_Open :: "Local \<Rightarrow> string \<Rightarrow> (filesystem, 'e storage_error, node) op" where
  "Local_Open l key fs =
     (case resolve l key of Inl err \<Rightarrow> (Inl err, fs) | Inr full \<Rightarrow>
     (case stat_node full fs of
        (Inl e, fs1) \<Rightarrow>
          (Inl (if e = ENOENT then ErrObjectNotFound else classifyLocal ''open'' (Sys e)), fs1)
      | (Inr v, fs1) \<Rightarrow> (Inr v, fs1)))"

definition Local_Delete :: "Local \<Rightarrow> string \<Rightarrow> (filesystem, 'e storage_error, unit) op" where
  "Local_Delete l key fs =
     (case resolve l key of Inl err \<Rightarrow> (Inl err, fs) | Inr full \<Rightarrow>
     (case remove full fs of
        (Inl e, fs1) \<Rightarrow> if e = ENOENT then (Inr (), fs1) else (Inl (classifyLocal ''delete'' (Sys e)), fs1)
      | (Inr _, fs1) \<Rightarrow> (Inr (), fs1)))"

definition Local_DeletePrefix :: "Local \<Rightarrow> string \<Rightarrow> (filesystem, 'e storage_error, unit) op" where
  "Local_DeletePrefix l key fs =
     (case resolve l key of Inl err \<Rightarrow> (Inl err, fs) | Inr full \<Rightarrow>
     (case RemoveAll full fs of
        (Inl e, fs1) \<Rightarrow> (Inl (classifyLocal ''delete'' (Sys e)), fs1)
      | (Inr _, fs1) \<Rightarrow> (Inr (), fs1)))"

definition Local_Exists :: "Local \<Rightarrow> string \<Rightarrow> (filesystem, 'e storage_error, bool) op" where
  "Local_Exists l key fs =
     (case resolve l key of Inl err \<Rightarrow> (Inl err, fs) | Inr full \<Rightarrow>
     (case stat_node full fs of
        (Inl e, fs1) \<Rightarrow> if e = ENOENT then (Inr False, fs1) else (Inl (Unclassified (Sys e)), fs1)
      | (Inr _, fs1) \<Rightarrow> (Inr True, fs1)))"

text \<open>
  \<open>filepath.WalkDir\<close> visits the entries of every directory in byte order, which is the
  lexicographic order of the paths; a missing prefix has no keys.
\<close>

fun join_slash :: "string list \<Rightarrow> string" where
  "join_slash [] = []"
| "join_slash [s] = s"
| "join_slash (s # ss) = s @ CHR ''/'' # join_slash ss"

definition walk_files :: "Local \<Rightarrow> path \<Rightarrow> filesystem \<Rightarrow> (string \<times> nat) list" where
  "walk_files l full fs =
     map (\<lambda>e. (join_slash (Rel (root l) (fst e)), length (content (Some (snd e)))))
       (sort_key fst (filter (\<lambda>e. prefix full (fst e) \<and> snd e \<noteq> Dir) (entries fs)))"

definition walk :: "Local \<Rightarrow> string \<Rightarrow> (filesystem, 'e storage_error, (string \<times> nat) list) op" where
  "walk l key fs =
     (case resolve l key of Inl err \<Rightarrow> (Inl err, fs) | Inr full \<Rightarrow>
     (case stat_node full fs of
        (Inl e, fs1) \<Rightarrow> if e = ENOENT then (Inr [], fs1) else (Inl (Unclassified (Sys e)), fs1)
      | (Inr _, fs1) \<Rightarrow> (Inr (walk_files l full fs1), fs1)))"

definition Local_ListKeys :: "Local \<Rightarrow> string \<Rightarrow> (filesystem, 'e storage_error, string list) op" where
  "Local_ListKeys l key = bindE (walk l key) (\<lambda>objects. retE (map fst objects))"

definition Local_ListObjects :: "Local \<Rightarrow> string \<Rightarrow> (filesystem, 'e storage_error, (string \<times> nat) list) op" where
  "Local_ListObjects l key = walk l key"

section \<open>Keys stay below the root\<close>

lemma clean_abs_plain:
  "list_all (\<lambda>s. s \<noteq> ''..'') ss \<Longrightarrow>
   clean_abs acc ss = rev acc @ filter (\<lambda>s. s \<noteq> '''' \<and> s \<noteq> ''.'') ss"
  by (induction acc ss rule: clean_abs.induct) auto

definition clean_root :: "path \<Rightarrow> bool" where
  "clean_root p \<longleftrightarrow> list_all (\<lambda>s. s \<noteq> '''' \<and> s \<noteq> ''.'' \<and> s \<noteq> ''..'') p"

definition segments :: "string \<Rightarrow> path" where
  "segments key = filter (\<lambda>s. s \<noteq> '''' \<and> s \<noteq> ''.'') (split_on CHR ''/'' key)"

lemma Rel_append [simp]: "Rel bs (bs @ ts) = ts"
proof (induction bs)
  case Nil
  then show ?case by (cases ts) simp_all
qed simp

lemma resolve_eq:
  assumes "clean_root (root l)"
  shows "resolve l key = (if validateKey key then Inr (root l @ segments key) else Inl ErrInvalidKey)"
proof (cases "validateKey key")
  case True
  then have dots: "list_all (\<lambda>s. s \<noteq> ''..'') (split_on CHR ''/'' key)"
    by (simp add: validateKey_def)
  have "list_all (\<lambda>s. s \<noteq> ''..'') (root l)" "filter (\<lambda>s. s \<noteq> '''' \<and> s \<noteq> ''.'') (root l) = root l"
    using assms by (auto simp: clean_root_def list_all_iff filter_id_conv)
  then have full: "Join (root l) key = root l @ segments key"
    using dots by (simp add: Join_def clean_abs_plain segments_def)
  have "segments key = [] \<or> hd (segments key) \<noteq> ''..''"
  proof (rule disjCI)
    assume "\<not> hd (segments key) \<noteq> ''..''"
    then show "segments key = []"
      using dots hd_in_set [of "segments key"] by (fastforce simp: segments_def list_all_iff)
  qed
  then show ?thesis using True by (auto simp: resolve_def full Let_def)
qed (simp add: resolve_def)

section \<open>System calls\<close>

named_theorems fs_simps \<open>tables and system calls of the file system\<close>

lemma map_of_filter_key:
  "map_of (filter (\<lambda>e. Q (fst e)) es) q = (if Q q then map_of es q else None)"
  by (induction es) auto

lemma node_at_set_node [simp]:
  "node_at (set_node p v fs) q = (if q = p then Some v else node_at fs q)"
  by (simp add: set_node_def map_of_filter_key [of "\<lambda>q. q \<noteq> p"])

lemma node_at_drop_nodes [simp]:
  "node_at (drop_nodes P fs) q = (if P q then None else node_at fs q)"
  by (simp add: drop_nodes_def map_of_filter_key [of "\<lambda>q. \<not> P q"])

lemma is_file_simps [simp]: "is_file None = False" "is_file (Some v) \<longleftrightarrow> v \<noteq> Dir"
  by (auto simp: is_file_def split: node.splits)

lemma failures_update [simp]:
  "failures (set_node p v fs) = failures fs" "failures (drop_nodes P fs) = failures fs"
  by (simp_all add: set_node_def drop_nodes_def)

lemma fold_set_node:
  "node_at (fold (\<lambda>q. set_node q v) ps fs) q = (if q \<in> set ps then Some v else node_at fs q)"
  "failures (fold (\<lambda>q. set_node q v) ps fs) = failures fs"
  by (induction ps arbitrary: fs) auto

lemma syscall_cases:
  obtains (fault) e rest where "failures fs = Some e # rest" "syscall call fs = (Inl e, fs\<lparr>failures := rest\<rparr>)"
  | (run) "syscall call fs = call (fs\<lparr>failures := tl (failures fs)\<rparr>)"
  unfolding syscall_def by (cases "failures fs" rule: list.exhaust; cases "hd (failures fs)") auto

lemma syscall_healthy [fs_simps]:
  "failures fs = [] \<Longrightarrow> syscall call fs = call fs"
  by (cases fs) (simp add: syscall_def)

text \<open>
  What a call that creates directories may do to the table: it fills missing entries with
  directories above \<open>p\<close> and touches nothing else.
\<close>

definition grows_to :: "path \<Rightarrow> filesystem \<Rightarrow> filesystem \<Rightarrow> bool" where
  "grows_to p fs fs' \<longleftrightarrow> (\<forall>q. q \<noteq> p \<longrightarrow> node_at fs' q = node_at fs q \<or>
     (strict_prefix q p \<and> node_at fs q = None \<and> node_at fs' q = Some Dir))"

definition same_but :: "path \<Rightarrow> filesystem \<Rightarrow> filesystem \<Rightarrow> bool" where
  "same_but p fs fs' \<longleftrightarrow> (\<forall>q. q \<noteq> p \<longrightarrow> node_at fs' q = node_at fs q)"

lemma same_butI: "(\<And>q. q \<noteq> p \<Longrightarrow> node_at fs' q = node_at fs q) \<Longrightarrow> same_but p fs fs'"
  by (simp add: same_but_def)

lemma grows_to_same: "grows_to p fs fs' \<Longrightarrow> same_but p fs' fs'' \<Longrightarrow> grows_to p fs fs''"
  by (auto simp: grows_to_def same_but_def)

lemma same_but_trans: "same_but p fs fs' \<Longrightarrow> same_but p fs' fs'' \<Longrightarrow> same_but p fs fs''"
  by (simp add: same_but_def)

lemma same_but_refl [simp]: "same_but p fs fs"
  by (simp add: same_but_def)

lemma strict_prefix_butlast: "strict_prefix q p \<longleftrightarrow> p \<noteq> [] \<and> prefix q (butlast p)"
  by (cases p rule: rev_cases) (auto simp: strict_prefix_def)

lemma MkdirAll_grows:
  assumes "MkdirAll (butlast p) fs = (r, fs')"
  shows "grows_to p fs fs'"
proof (cases rule: syscall_cases [of fs "\<lambda>fs. if list_ex (\<lambda>q. is_file (node_at fs q)) (prefixes (butlast p))
    then (Inl ENOTDIR, fs) else (Inr (), fold (\<lambda>q. set_node q Dir) (prefixes (butlast p)) fs)"])
  case (fault e rest)
  then show ?thesis using assms by (auto simp: MkdirAll_def grows_to_def)
next
  case run
  show ?thesis
    using assms run
    by (auto simp: MkdirAll_def grows_to_def fold_set_node list_ex_iff strict_prefix_butlast split: if_splits)
      (metis in_set_prefixes is_file_simps(2) not_None_eq)
qed

lemma MkdirAll_ok:
  assumes "MkdirAll p fs = (Inr u, fs')" "prefix q p"
  shows "node_at fs' q = Some Dir"
  using assms
  by (cases rule: syscall_cases [of fs "\<lambda>fs. if list_ex (\<lambda>q. is_file (node_at fs q)) (prefixes p)
    then (Inl ENOTDIR, fs) else (Inr (), fold (\<lambda>q. set_node q Dir) (prefixes p) fs)"])
    (auto simp: MkdirAll_def fold_set_node split: if_splits)

lemma OpenFile_effect:
  assumes "OpenFile p fs = (r, fs')"
  shows "same_but p fs fs'" "r = Inr u \<Longrightarrow> node_at fs' p = Some (File [])"
    "r = Inl e \<Longrightarrow> node_at fs' p = node_at fs p"
  using assms unfolding OpenFile_def syscall_def
  by (auto simp: same_but_def split: list.splits option.splits if_splits)

lemma write_file_effect:
  assumes "write_file p bs fs = (r, fs')"
  shows "same_but p fs fs'" "r = Inr u \<Longrightarrow> node_at fs' p = Some (File (content (node_at fs p) @ bs))"
    "r = Inl e \<Longrightarrow> node_at fs' p = node_at fs p"
  using assms unfolding write_file_def syscall_def
  by (auto simp: same_but_def split: list.splits option.splits)

lemma close_file_effect: "close_file fs = (r, fs') \<Longrightarrow> entries fs' = entries fs"
  unfolding close_file_def syscall_def by (auto split: list.splits option.splits)

lemma remove_effect: "remove p fs = (r, fs') \<Longrightarrow> same_but p fs fs'"
  unfolding remove_def syscall_def
  by (auto simp: same_but_def split: list.splits option.splits if_splits node.splits)

lemma remove_other: "remove p fs = (r, fs') \<Longrightarrow> node_at fs' p = node_at fs p \<or> node_at fs' p = None"
  unfolding remove_def syscall_def
  by (auto split: list.splits option.splits if_splits node.splits)

section \<open>What is stored\<close>

text \<open>
  The copy loop under every schedule of write failures: the file grows by a prefix of what the
  reader delivers, nothing else changes, and a clean end means all of it arrived.
\<close>

lemma io_Copy_effect:
  assumes "io_Copy p r n fs = ((m, err), fs')" "node_at fs p = Some (File c0)"
  shows "\<exists>c. node_at fs' p = Some (File (c0 @ c)) \<and> prefix c (fst (drain r)) \<and> same_but p fs fs' \<and>
    (err = None \<longrightarrow> drain r = (c, EOF) \<and> m = n + length c)"
  using assms
proof (induction p r n fs arbitrary: c0 m err fs' rule: io_Copy.induct)
  case (1 p r n fs)
  obtain bs er r' where rd: "cappedReader_Read r copy_buffer = ((bs, er), r')" by (metis surj_pair)
  note dr = Read_drain [OF rd]
  obtain w fs1 where wr: "(if bs = [] then (Inr (), fs) else write_file p bs fs) = (w, fs1)"
    by fastforce
  have frame: "same_but p fs fs1"
    using wr write_file_effect(1) by (auto split: if_splits)
  show ?case
  proof (cases w)
    case (Inl e)
    then have "fs' = fs1" "err = Some (Sys e)" "node_at fs1 p = node_at fs p"
      using 1 rd wr write_file_effect(3) by (auto simp: io_Copy.simps [of p r n fs] split: if_splits)
    then show ?thesis using 1(3) frame by (intro exI [of _ "[]"]) simp
  next
    case (Inr u)
    then have node: "node_at fs1 p = Some (File (c0 @ bs))"
      using 1(3) wr write_file_effect(2) [of p bs fs w fs1 u] by (auto simp: content_def split: if_splits)
    have step: "((m, err), fs') = (case er of
             None \<Rightarrow> io_Copy p r' (n + length bs) fs1
           | Some EOF \<Rightarrow> ((n + length bs, None), fs1)
           | Some (Failing e) \<Rightarrow> ((n + length bs, Some (Reader e)), fs1))"
      using 1(2) rd wr Inr by (simp add: io_Copy.simps [of p r n fs])
    show ?thesis
    proof (cases er)
      case None
      then have rec: "io_Copy p r' (n + length bs) fs1 = ((m, err), fs')" using step by simp
      from 1(1) [OF rd [symmetric] refl wr [symmetric] Inr None rec node]
      obtain c where "node_at fs' p = Some (File ((c0 @ bs) @ c))" "prefix c (fst (drain r'))"
        "same_but p fs1 fs'" "err = None \<longrightarrow> drain r' = (c, EOF) \<and> m = n + length bs + length c"
        by auto
      then show ?thesis using None dr same_but_trans [OF frame]
        by (intro exI [of _ "bs @ c"]) auto
    next
      case (Some fin)
      then show ?thesis using step dr frame node
        by (intro exI [of _ bs]) (auto split: read_end.splits)
    qed
  qed
qed

lemma io_Copy_healthy:
  assumes "failures fs = []" "io_Copy p r n fs = ((m, err), fs')"
  shows "failures fs' = [] \<and> err = (case snd (drain r) of EOF \<Rightarrow> None | Failing e \<Rightarrow> Some (Reader e))"
  using assms
proof (induction p r n fs arbitrary: m err fs' rule: io_Copy.induct)
  case (1 p r n fs)
  obtain bs er r' where rd: "cappedReader_Read r copy_buffer = ((bs, er), r')" by (metis surj_pair)
  note dr = Read_drain [OF rd]
  have "\<exists>fs1. (if bs = [] then (Inr (), fs) else write_file p bs fs) = (Inr (), fs1) \<and> failures fs1 = []"
    using 1(2) by (simp add: write_file_def fs_simps)
  then obtain fs1 where wr: "(if bs = [] then (Inr (), fs) else write_file p bs fs) = (Inr (), fs1)"
    and ok: "failures fs1 = []" by blast
  have step: "((m, err), fs') = (case er of
           None \<Rightarrow> io_Copy p r' (n + length bs) fs1
         | Some EOF \<Rightarrow> ((n + length bs, None), fs1)
         | Some (Failing e) \<Rightarrow> ((n + length bs, Some (Reader e)), fs1))"
    using 1(3) rd wr by (simp add: io_Copy.simps [of p r n fs])
  show ?case
  proof (cases er)
    case None
    then show ?thesis
      using 1(1) [OF rd [symmetric] refl wr [symmetric] refl None ok, of m err fs'] step dr by simp
  next
    case (Some fin)
    then show ?thesis using step dr ok by (auto split: read_end.splits)
  qed
qed

lemma Put_steps:
  assumes "resolve l key = (Inr full :: 'e storage_error + path)" "Local_Put l key (r :: 'e reader) fs = (res, fs')"
  obtains (mkdir) e where "MkdirAll (butlast full) fs = (Inl e, fs')" "res = Inl (classifyLocal ''put'' (Sys e))"
  | (openf) fs1 e where "MkdirAll (butlast full) fs = (Inr (), fs1)" "OpenFile full fs1 = (Inl e, fs')"
      "res = Inl (classifyLocal ''put'' (Sys e))"
  | (copied) fs1 fs2 n copyErr fs3 closeErr fs4 where
      "MkdirAll (butlast full) fs = (Inr (), fs1)" "OpenFile full fs1 = (Inr (), fs2)"
      "io_Copy full r 0 fs2 = ((n, copyErr), fs3)" "close_file fs3 = (closeErr, fs4)"
      "fs' = (if copyErr = None then fs4 else snd (remove full fs4))"
      "res = (case copyErr of Some c \<Rightarrow> Inl (classifyLocal ''put'' c)
        | None \<Rightarrow> (case closeErr of Inl e \<Rightarrow> Inl (classifyLocal ''put'' (Sys e)) | Inr _ \<Rightarrow> Inr n))"
proof (cases "MkdirAll (butlast full) fs")
  case m: (Pair a fs1)
  show ?thesis
  proof (cases a)
    case (Inl e)
    then show ?thesis using assms m mkdir by (simp add: Local_Put_def)
  next
    case a: (Inr u)
    obtain b fs2 where o: "OpenFile full fs1 = (b, fs2)" by fastforce
    show ?thesis
    proof (cases b)
      case (Inl e)
      then show ?thesis using assms m a o openf by (simp add: Local_Put_def)
    next
      case b: (Inr u)
      obtain n ce fs3 where c: "io_Copy full r 0 fs2 = ((n, ce), fs3)" by (metis surj_pair)
      obtain cl fs4 where d: "close_file fs3 = (cl, fs4)" by fastforce
      show ?thesis
        using assms m a o b c d copied [OF _ _ c d]
        by (auto simp: Local_Put_def ignoreE_def split: option.splits sum.splits)
    qed
  qed
qed

text \<open>Under every failure schedule a put touches its own object and creates directories above it.\<close>

lemma Put_frame:
  assumes "resolve l key = (Inr full :: 'e storage_error + path)" "Local_Put l key (r :: 'e reader) fs = (res, fs')"
  shows "grows_to full fs fs'"
  using assms
proof (cases rule: Put_steps)
  case (mkdir e)
  show ?thesis by (rule MkdirAll_grows [OF mkdir(1)])
next
  case (openf fs1 e)
  then show ?thesis using MkdirAll_grows OpenFile_effect(1) grows_to_same by blast
next
  case (copied fs1 fs2 n copyErr fs3 closeErr fs4)
  have "same_but full fs2 fs3"
    using io_Copy_effect [OF copied(3) OpenFile_effect(2) [OF copied(2) refl]] by blast
  moreover have "same_but full fs3 fs4"
    using close_file_effect [OF copied(4)] by (simp add: same_but_def)
  moreover have "same_but full fs4 fs'"
    using copied(5) remove_effect [of full fs4 "fst (remove full fs4)" "snd (remove full fs4)"] by simp
  ultimately have "same_but full fs1 fs'"
    using OpenFile_effect(1) [OF copied(2)] same_but_trans by blast
  then show ?thesis using MkdirAll_grows [OF copied(1)] grows_to_same by blast
qed

lemma Put_stored:
  assumes "resolve l key = (Inr full :: 'e storage_error + path)" "Local_Put l key (r :: 'e reader) fs = (Inr n, fs')"
  shows "\<exists>c. drain r = (c, EOF) \<and> n = length c \<and> node_at fs' full = Some (File c)"
  using assms
proof (cases rule: Put_steps)
  case (copied fs1 fs2 m copyErr fs3 closeErr fs4)
  from io_Copy_effect [OF copied(3) OpenFile_effect(2) [OF copied(2) refl]]
  obtain c where "node_at fs3 full = Some (File c)" "copyErr = None \<longrightarrow> drain r = (c, EOF) \<and> m = length c"
    by auto
  then show ?thesis
    using copied close_file_effect [OF copied(4)] by (auto split: option.splits sum.splits)
qed simp_all

text \<open>A path that can be written: no file above it and no directory at it.\<close>

definition writable :: "filesystem \<Rightarrow> path \<Rightarrow> bool" where
  "writable fs p \<longleftrightarrow> p \<noteq> [] \<and> \<not> through_file fs p \<and> node_at fs p \<noteq> Some Dir"

lemma in_butlast_prefixes: "q \<in> set (butlast (prefixes p)) \<longleftrightarrow> strict_prefix q p"
proof (cases p rule: rev_cases)
  case (snoc ys y)
  then show ?thesis by (simp add: strict_prefix_butlast)
qed simp

lemma through_file_iff: "through_file fs p \<longleftrightarrow> (\<exists>q. strict_prefix q p \<and> is_file (node_at fs q))"
  by (auto simp: through_file_def list_ex_iff in_butlast_prefixes)

lemma Put_healthy:
  assumes "resolve l key = (Inr full :: 'e storage_error + path)" "failures fs = []" "writable fs full"
    and put: "Local_Put l key (r :: 'e reader) fs = (res, fs')"
  shows "failures fs' = [] \<and>
    (case snd (drain r) of
       EOF \<Rightarrow> res = Inr (length (fst (drain r)))
     | Failing e \<Rightarrow> res = Inl (classifyLocal ''put'' (Reader e)) \<and> node_at fs' full = None)"
proof -
  have full: "full \<noteq> []" and nofile: "\<And>q. strict_prefix q full \<Longrightarrow> \<not> is_file (node_at fs q)"
    and nodir: "node_at fs full \<noteq> Some Dir"
    using assms(3) by (auto simp: writable_def through_file_iff)
  obtain fs1 where m: "MkdirAll (butlast full) fs = (Inr (), fs1)" and ok1: "failures fs1 = []"
    using nofile full assms(2)
    by (auto simp: MkdirAll_def fs_simps list_ex_iff strict_prefix_butlast fold_set_node(2))
  have dirs: "node_at fs1 q = Some Dir" if "strict_prefix q full" for q
    using MkdirAll_ok [OF m] that by (simp add: strict_prefix_butlast)
  have "\<not> prefix full (butlast full)" using full strict_prefix_butlast [of full full] by simp
  then have "node_at fs1 full = node_at fs full"
    using m assms(2) by (auto simp: MkdirAll_def fs_simps fold_set_node split: if_splits)
  moreover have "\<not> through_file fs1 full" using dirs by (auto simp: through_file_iff)
  moreover have "node_at fs1 (butlast full) = Some Dir"
    using dirs full by (auto simp: strict_prefix_butlast)
  ultimately have o: "OpenFile full fs1 = (Inr (), set_node full (File []) fs1)"
    using ok1 nodir by (simp add: OpenFile_def fs_simps)
  from assms(1) put show ?thesis
  proof (cases rule: Put_steps)
    case (mkdir e)
    then show ?thesis using m by simp
  next
    case (openf fs1' e)
    then show ?thesis using m o by simp
  next
    case (copied fs1' fs2 n copyErr fs3 closeErr fs4)
    then have fs2: "fs2 = set_node full (File []) fs1" using m o by simp
    note cp = io_Copy_healthy [OF _ copied(3)]
    have "failures fs3 = []" and err: "copyErr = (case snd (drain r) of EOF \<Rightarrow> None | Failing e \<Rightarrow> Some (Reader e))"
      using cp fs2 ok1 by simp_all
    then have c4: "closeErr = Inr ()" "fs4 = fs3" using copied(4) by (simp_all add: close_file_def fs_simps)
    from io_Copy_effect [OF copied(3)] fs2 obtain c where
      c: "node_at fs3 full = Some (File c)" "same_but full fs2 fs3"
      "copyErr = None \<longrightarrow> drain r = (c, EOF) \<and> n = length c" by auto
    have "\<not> through_file fs3 full"
      using c(2) dirs fs2 by (auto simp: through_file_iff same_but_def strict_prefix_def)
    then have rm: "remove full fs3 = (Inr (), drop_nodes (\<lambda>q. q = full) fs3)"
      using c(1) \<open>failures fs3 = []\<close> by (simp add: remove_def fs_simps)
    show ?thesis
    proof (cases "snd (drain r)")
      case EOF
      then show ?thesis using copied(5,6) err c c4 \<open>failures fs3 = []\<close> by simp
    next
      case (Failing e)
      then show ?thesis using copied(5,6) err c4 rm \<open>failures fs3 = []\<close> by simp
    qed
  qed
qed

section \<open>The interface of an object store\<close>

text \<open>
  What a client of a backend relies on while no call fails: an object placed is the object stored,
  no other object changes, and forgetting a prefix removes exactly the objects at or below it.
  \<open>key\<close> are the canonical keys, \<open>reach\<close> the keys the store can act on, \<open>ready\<close> those that can be
  written, \<open>above\<close> the nesting of keys.
\<close>

locale object_store =
  fixes stored :: "'s \<Rightarrow> string \<Rightarrow> string option"
    and place :: "string \<Rightarrow> string \<Rightarrow> 's \<Rightarrow> 's"
    and forget :: "string \<Rightarrow> 's \<Rightarrow> 's"
    and key :: "string \<Rightarrow> bool"
    and reach :: "'s \<Rightarrow> string \<Rightarrow> bool"
    and ready :: "'s \<Rightarrow> string \<Rightarrow> bool"
    and above :: "string \<Rightarrow> string \<Rightarrow> bool"
  assumes ready_key: "ready s k \<Longrightarrow> key k"
    and stored_place: "ready s k \<Longrightarrow> key k' \<Longrightarrow> stored (place k c s) k' = (if k' = k then Some c else stored s k')"
    and ready_place: "ready s k \<Longrightarrow> ready s k' \<Longrightarrow> \<not> above k k' \<Longrightarrow> \<not> above k' k \<Longrightarrow> ready (place k c s) k'"
    and stored_forget: "reach s p \<Longrightarrow> key k \<Longrightarrow>
      stored (forget p s) k = (if k = p \<or> above p k then None else stored s k)"
begin

definition place_all :: "(string \<times> string) list \<Rightarrow> 's \<Rightarrow> 's" where
  "place_all kcs s = fold (\<lambda>(k, c). place k c) kcs s"

definition unnested :: "string set \<Rightarrow> bool" where
  "unnested K \<longleftrightarrow> (\<forall>k\<in>K. \<forall>k'\<in>K. \<not> above k k')"

text \<open>Objects written one after another, in any order and repeatedly: the last one counts.\<close>

lemma stored_place_all:
  assumes "\<forall>k \<in> set (map fst kcs). ready s k" "unnested (set (map fst kcs))" "key k"
  shows "stored (place_all kcs s) k = (case map_of (rev kcs) k of Some c \<Rightarrow> Some c | None \<Rightarrow> stored s k)"
  using assms
proof (induction kcs arbitrary: s)
  case Nil
  then show ?case by (simp add: place_all_def)
next
  case (Cons kc kcs)
  obtain k0 c0 where kc: "kc = (k0, c0)" by fastforce
  have "\<forall>k \<in> set (map fst kcs). ready (place k0 c0 s) k"
    using Cons.prems kc by (auto simp: unnested_def intro!: ready_place)
  moreover have "unnested (set (map fst kcs))" using Cons.prems(2) by (auto simp: unnested_def)
  ultimately have "stored (place_all kcs (place k0 c0 s)) k =
    (case map_of (rev kcs) k of Some c \<Rightarrow> Some c | None \<Rightarrow> stored (place k0 c0 s) k)"
    using Cons.IH Cons.prems(3) by blast
  then show ?case
    using Cons.prems(1,3) kc stored_place [of s k0 k c0]
    by (auto simp: place_all_def map_add_def split: option.splits)
qed

lemma ready_place_all:
  assumes "\<forall>k \<in> K. ready s k" "unnested K" "set (map fst kcs) \<subseteq> K" "k \<in> K"
  shows "ready (place_all kcs s) k"
  using assms
proof (induction kcs arbitrary: s)
  case (Cons kc kcs)
  obtain k0 c0 where kc: "kc = (k0, c0)" by fastforce
  then have "\<forall>k \<in> K. ready (place k0 c0 s) k"
    using Cons.prems by (auto simp: unnested_def intro!: ready_place)
  then have "ready (place_all kcs (place k0 c0 s)) k" using Cons by auto
  then show ?case using kc by (simp add: place_all_def)
qed (simp add: place_all_def)

end

text \<open>The local backend implements it.\<close>

definition canonical_key :: "string \<Rightarrow> bool" where
  "canonical_key k \<longleftrightarrow> validateKey k \<and> list_all (\<lambda>s. s \<noteq> '''' \<and> s \<noteq> ''.'') (split_on CHR ''/'' k)"

definition local_stored :: "Local \<Rightarrow> filesystem \<Rightarrow> string \<Rightarrow> string option" where
  "local_stored l fs k = (case node_at fs (root l @ segments k) of Some (File c) \<Rightarrow> Some c | _ \<Rightarrow> None)"

definition plain_body :: "string \<Rightarrow> unit reader" where
  "plain_body c = Body [c] EOF False"

definition local_place :: "Local \<Rightarrow> string \<Rightarrow> string \<Rightarrow> filesystem \<Rightarrow> filesystem" where
  "local_place l k c fs = snd (Local_Put l k (plain_body c) fs)"

definition local_forget :: "Local \<Rightarrow> string \<Rightarrow> filesystem \<Rightarrow> filesystem" where
  "local_forget l k fs = snd (Local_DeletePrefix l k fs :: (unit storage_error + unit) \<times> filesystem)"

definition local_reach :: "Local \<Rightarrow> filesystem \<Rightarrow> string \<Rightarrow> bool" where
  "local_reach l fs k \<longleftrightarrow> clean_root (root l) \<and> canonical_key k \<and> failures fs = [] \<and>
     \<not> through_file fs (root l @ segments k)"

definition local_ready :: "Local \<Rightarrow> filesystem \<Rightarrow> string \<Rightarrow> bool" where
  "local_ready l fs k \<longleftrightarrow> local_reach l fs k \<and> writable fs (root l @ segments k)"

definition key_above :: "string \<Rightarrow> string \<Rightarrow> bool" where
  "key_above k k' \<longleftrightarrow> strict_prefix (segments k) (segments k')"

lemma split_on_nonempty [simp]: "split_on c xs \<noteq> []"
  by (cases xs) (simp_all add: Let_def)

lemma split_on_nonempty' [simp]: "[] \<noteq> split_on c xs"
  using split_on_nonempty by metis

lemma split_on_append: "split_on c (xs @ c # ys) = split_on c xs @ split_on c ys"
  by (induction xs) (simp_all add: Let_def hd_append tl_append split: list.splits)

lemma split_on_plain: "c \<notin> set xs \<Longrightarrow> split_on c xs = [xs]"
  by (induction xs) (auto simp: Let_def)

lemma split_on_step: "c \<notin> set a \<Longrightarrow> split_on c (a @ c # b) = a # split_on c b"
  by (simp add: split_on_append split_on_plain)

text \<open>File names as the operating system has them.\<close>

definition plain_segment :: "string \<Rightarrow> bool" where
  "plain_segment a \<longleftrightarrow> a \<noteq> [] \<and> a \<noteq> ''.'' \<and> a \<noteq> ''..'' \<and> CHR ''/'' \<notin> set a \<and> CHR 0x00 \<notin> set a"

lemma split_on_inj: "split_on c xs = split_on c ys \<Longrightarrow> xs = ys"
proof (induction xs arbitrary: ys)
  case Nil
  then show ?case
    by (cases ys) (auto simp: Let_def split: if_splits)
next
  case (Cons x xs)
  obtain y ys' where ys: "ys = y # ys'" using Cons.prems by (cases ys) (auto simp: Let_def split: if_splits)
  show ?case
    using Cons.prems Cons.IH [of ys'] ys
    by (auto simp: Let_def split: if_splits) (metis hd_Cons_tl split_on_nonempty)
qed

lemma segments_canonical: "canonical_key k \<Longrightarrow> segments k = split_on CHR ''/'' k"
  by (simp add: canonical_key_def segments_def list_all_iff filter_id_conv)

lemma canonical_inj: "canonical_key k \<Longrightarrow> canonical_key k' \<Longrightarrow> segments k = segments k' \<Longrightarrow> k = k'"
  by (metis segments_canonical split_on_inj)

lemma canonical_resolve: "clean_root (root l) \<Longrightarrow> canonical_key k \<Longrightarrow> resolve l k = Inr (root l @ segments k)"
  by (simp add: resolve_eq canonical_key_def)

lemma local_place_effect:
  assumes "local_ready l fs k"
  shows "failures (local_place l k c fs) = []" "grows_to (root l @ segments k) fs (local_place l k c fs)"
    "node_at (local_place l k c fs) (root l @ segments k) = Some (File c)"
proof -
  let ?p = "root l @ segments k"
  obtain res fs' where put: "Local_Put l k (plain_body c) fs = (res, fs')" by fastforce
  have r: "resolve l k = (Inr ?p :: unit storage_error + path)" "failures fs = []" "writable fs ?p"
    using assms by (simp_all add: local_ready_def local_reach_def canonical_resolve)
  have d: "drain (plain_body c) = (c, EOF)" by (simp add: plain_body_def)
  have "failures fs' = [] \<and> res = Inr (length c)" using Put_healthy [OF r put] d by simp
  moreover from this have "node_at fs' ?p = Some (File c)"
    using Put_stored [OF r(1), of "plain_body c" fs "length c" fs'] put d by simp
  moreover have "grows_to ?p fs fs'" using Put_frame [OF r(1) put] .
  ultimately show "failures (local_place l k c fs) = []" "grows_to ?p fs (local_place l k c fs)"
    "node_at (local_place l k c fs) ?p = Some (File c)"
    using put by (simp_all add: local_place_def)
qed

lemma grows_to_file:
  assumes "grows_to p fs fs'" "q \<noteq> p"
  shows "is_file (node_at fs' q) = is_file (node_at fs q)"
    and "is_file (node_at fs q) \<Longrightarrow> node_at fs' q = node_at fs q"
    and "\<not> strict_prefix q p \<Longrightarrow> node_at fs' q = node_at fs q"
proof -
  have "node_at fs' q = node_at fs q \<or> (strict_prefix q p \<and> node_at fs q = None \<and> node_at fs' q = Some Dir)"
    using assms(2) spec [OF assms(1) [unfolded grows_to_def], of q] by (rule mp [rotated])
  then consider "node_at fs' q = node_at fs q"
    | "strict_prefix q p" "node_at fs q = None" "node_at fs' q = Some Dir"
    by (elim disjE conjE)
  note cs = this
  show "is_file (node_at fs' q) = is_file (node_at fs q)" by (cases rule: cs) simp_all
  show "node_at fs' q = node_at fs q" if "is_file (node_at fs q)"
    using that by (cases rule: cs) simp_all
  show "node_at fs' q = node_at fs q" if "\<not> strict_prefix q p"
    using that by (cases rule: cs) simp_all
qed

lemma file_content: "(case v of Some (File c) \<Rightarrow> Some c | _ \<Rightarrow> None) = (if is_file v then Some (content v) else None)"
  by (auto simp: content_def split: option.splits node.splits)

lemma local_stored_place:
  assumes "local_ready l fs k" "canonical_key k'"
  shows "local_stored l (local_place l k c fs) k' = (if k' = k then Some c else local_stored l fs k')"
proof (cases "k' = k")
  case True
  then show ?thesis using local_place_effect(3) [OF assms(1)] by (simp add: local_stored_def)
next
  case False
  then have "root l @ segments k' \<noteq> root l @ segments k"
    using assms canonical_inj by (auto simp: local_ready_def local_reach_def)
  note grown = grows_to_file [OF local_place_effect(2) [OF assms(1)] this, of c]
  show ?thesis using grown(1,2) False by (auto simp: local_stored_def file_content)
qed

lemma local_ready_place:
  assumes "local_ready l fs k" "local_ready l fs k'" "\<not> key_above k k'" "\<not> key_above k' k"
  shows "local_ready l (local_place l k c fs) k'"
proof -
  let ?p = "root l @ segments k" and ?q = "root l @ segments k'"
  note eff = local_place_effect [OF assms(1), of c]
  have nest: "\<not> strict_prefix ?p ?q" "\<not> strict_prefix ?q ?p"
    using assms(3,4) by (auto simp: key_above_def strict_prefix_def)
  have "\<not> is_file (node_at (local_place l k c fs) q)" if "strict_prefix q ?q" for q
  proof -
    have "q \<noteq> ?p" using that nest(1) by blast
    then show ?thesis
      using grows_to_file(1) [OF eff(2)] that assms(2)
      by (auto simp: local_ready_def local_reach_def through_file_iff)
  qed
  moreover have "node_at (local_place l k c fs) ?q \<noteq> Some Dir"
  proof (cases "?q = ?p")
    case False
    then show ?thesis using grows_to_file(3) [OF eff(2)] nest(2) assms(2)
      by (simp add: local_ready_def writable_def)
  qed (simp add: eff(3))
  ultimately show ?thesis
    using assms(2) eff(1)
    by (simp add: local_ready_def local_reach_def writable_def through_file_iff)
qed

lemma local_forget_effect:
  assumes "local_reach l fs p"
  shows "local_forget l p fs = drop_nodes (prefix (root l @ segments p)) fs"
  using assms
  by (simp add: local_forget_def local_reach_def Local_DeletePrefix_def RemoveAll_def fs_simps canonical_resolve)

lemma local_stored_forget:
  assumes "local_reach l fs p" "canonical_key k"
  shows "local_stored l (local_forget l p fs) k = (if k = p \<or> key_above p k then None else local_stored l fs k)"
proof -
  have "prefix (segments p) (segments k) \<longleftrightarrow> k = p \<or> key_above p k"
    using assms canonical_inj by (auto simp: key_above_def strict_prefix_def local_reach_def)
  then show ?thesis by (simp add: local_forget_effect [OF assms(1)] local_stored_def)
qed

interpretation local_store: object_store "local_stored l" "local_place l" "local_forget l" canonical_key
  "local_reach l" "local_ready l" key_above for l
proof unfold_locales
  show "canonical_key k" if "local_ready l s k" for s k
    using that by (simp add: local_ready_def local_reach_def)
qed (rule local_stored_place local_ready_place local_stored_forget; assumption)+

section \<open>A put depends on what the reader delivers only\<close>

lemma set_node_twice [simp]: "set_node p v (set_node p u fs) = set_node p v fs"
  by (simp add: set_node_def filter_filter cong: conj_cong)

lemma io_Copy_exact:
  assumes "failures fs = []" "drain r = (c, EOF)"
  shows "io_Copy p r n (set_node p (File c0) fs) = ((n + length c, None), set_node p (File (c0 @ c)) fs)"
  using assms(2)
proof (induction "reader_size r" arbitrary: r n c0 c rule: less_induct)
  case less
  obtain bs er r' where rd: "cappedReader_Read r copy_buffer = ((bs, er), r')" by (metis surj_pair)
  note dr = Read_drain [OF rd]
  have wr: "(if bs = [] then (Inr (), set_node p (File c0) fs) else write_file p bs (set_node p (File c0) fs))
     = (Inr (), set_node p (File (c0 @ bs)) fs)"
    using assms(1) by (simp add: write_file_def fs_simps content_def)
  show ?case
  proof (cases er)
    case (Some fin)
    then have "fin = EOF" "c = bs" using dr less.prems by simp_all
    then show ?thesis using rd wr Some by (subst io_Copy.simps) simp
  next
    case None
    then have "reader_size r' < reader_size r" using rd Read_progress [of r copy_buffer bs r'] by simp
    moreover obtain c' where c': "drain r' = (c', EOF)" "c = bs @ c'"
      using dr None less.prems by (cases "drain r'") auto
    ultimately have "io_Copy p r' (n + length bs) (set_node p (File (c0 @ bs)) fs) =
        ((n + length bs + length c', None), set_node p (File ((c0 @ bs) @ c')) fs)"
      using less.hyps by blast
    then show ?thesis using rd wr None c'(2) by (subst io_Copy.simps) simp
  qed
qed

definition made_dirs :: "path \<Rightarrow> filesystem \<Rightarrow> filesystem" where
  "made_dirs p fs = fold (\<lambda>q. set_node q Dir) (prefixes (butlast p)) fs"

lemma Put_exact_state:
  assumes "local_ready l fs k" "drain (r :: 'e reader) = (c, EOF)"
  shows "Local_Put l k r fs =
    (Inr (length c), set_node (root l @ segments k) (File c) (made_dirs (root l @ segments k) fs))"
proof -
  let ?p = "root l @ segments k"
  have res: "resolve l k = (Inr ?p :: 'e storage_error + path)" and h: "failures fs = []" "writable fs ?p"
    using assms by (simp_all add: local_ready_def local_reach_def canonical_resolve)
  have full: "?p \<noteq> []" and nofile: "\<And>q. strict_prefix q ?p \<Longrightarrow> \<not> is_file (node_at fs q)"
    and nodir: "node_at fs ?p \<noteq> Some Dir"
    using h(2) unfolding writable_def through_file_iff by blast+
  let ?fs1 = "made_dirs ?p fs"
  have "\<not> list_ex (\<lambda>q. is_file (node_at fs q)) (prefixes (butlast ?p))"
    using nofile full by (simp add: list_ex_iff strict_prefix_butlast)
  then have m: "MkdirAll (butlast ?p) fs = (Inr (), ?fs1)"
    using h(1) by (simp add: MkdirAll_def fs_simps made_dirs_def)
  have ok: "failures ?fs1 = []" using h(1) by (simp add: made_dirs_def fold_set_node)
  have dirs: "node_at ?fs1 q = Some Dir" if "strict_prefix q ?p" for q
    using that by (simp add: made_dirs_def fold_set_node strict_prefix_butlast)
  have "\<not> prefix ?p (butlast ?p)" using full strict_prefix_butlast [of ?p ?p] by simp
  then have "node_at ?fs1 ?p = node_at fs ?p" by (simp add: made_dirs_def fold_set_node)
  moreover have "\<not> through_file ?fs1 ?p" using dirs by (auto simp: through_file_iff)
  moreover have "node_at ?fs1 (butlast ?p) = Some Dir"
    using dirs full by (simp add: strict_prefix_butlast)
  ultimately have o: "OpenFile ?p ?fs1 = (Inr (), set_node ?p (File []) ?fs1)"
    using ok nodir full by (simp add: OpenFile_def fs_simps del: butlast_append)
  show ?thesis
    using io_Copy_exact [OF ok assms(2), of ?p 0 "[]"] ok res m o
    by (simp add: Local_Put_def close_file_def fs_simps del: butlast_append)
qed

lemma Put_place:
  assumes "local_ready l fs k" "drain r = (c, EOF)"
  shows "Local_Put l k r fs = (Inr (length c), local_place l k c fs)"
proof -
  have d: "drain (plain_body c) = (c, EOF)" by (simp add: plain_body_def)
  show ?thesis using Put_exact_state [OF assms] Put_exact_state [OF assms(1) d] by (simp add: local_place_def)
qed

lemma Open_stored:
  assumes "local_reach l fs k" "local_stored l fs k = Some c"
  shows "Local_Open l k fs = (Inr (File c), fs)"
  using assms
  by (auto simp: Local_Open_def stat_node_def local_reach_def local_stored_def canonical_resolve fs_simps
      split: option.splits node.splits)

section \<open>Properties of the backend\<close>

text \<open>C15. The local backend resolves a key only if it passes validateKey, and then to a path under
  the root with no empty, dot or dot-dot segment.\<close>

theorem resolve_confined:
  assumes "clean_root (root l)"
  shows "(case resolve l key of
      Inl err \<Rightarrow> err = ErrInvalidKey \<and> \<not> validateKey key
    | Inr full \<Rightarrow> validateKey key \<and> prefix (root l) full \<and>
        list_all (\<lambda>s. s \<noteq> '''' \<and> s \<noteq> ''.'' \<and> s \<noteq> ''..'') full)"
proof (cases "validateKey key")
  case True
  then have "list_all (\<lambda>s. s \<noteq> '''' \<and> s \<noteq> ''.'' \<and> s \<noteq> ''..'') (segments key)"
    by (simp add: segments_def validateKey_def list_all_iff)
  then show ?thesis using True assms by (simp add: resolve_eq clean_root_def)
qed (simp add: resolve_eq [OF assms])

theorem resolve_confined_witness:
  "(case resolve \<lparr>root = [''srv'']\<rparr> ''a/./b'' of
      Inl err \<Rightarrow> err = ErrInvalidKey \<and> \<not> validateKey ''a/./b''
    | Inr full \<Rightarrow> validateKey ''a/./b'' \<and> prefix (root \<lparr>root = [''srv'']\<rparr>) full \<and>
        list_all (\<lambda>s. s \<noteq> '''' \<and> s \<noteq> ''.'' \<and> s \<noteq> ''..'') full) \<and>
   resolve \<lparr>root = [''srv'']\<rparr> ''a/./b'' = (Inr [''srv'', ''a'', ''b''] :: unit storage_error + path)"
proof (rule conjI)
  show "case resolve \<lparr>root = [''srv'']\<rparr> ''a/./b'' of
      Inl err \<Rightarrow> err = ErrInvalidKey \<and> \<not> validateKey ''a/./b''
    | Inr full \<Rightarrow> validateKey ''a/./b'' \<and> prefix (root \<lparr>root = [''srv'']\<rparr>) full \<and>
        list_all (\<lambda>s. s \<noteq> '''' \<and> s \<noteq> ''.'' \<and> s \<noteq> ''..'') full"
    by (rule resolve_confined) (simp add: clean_root_def)
qed code_simp

text \<open>A successful local Put has stored exactly the bytes of its reader under the resolved path
  and returns their number; successful or not, it changes no other file.\<close>

theorem Put_exact:
  assumes "clean_root (root l)" "Local_Put l key (r :: 'e reader) fs = (res, fs')"
  shows "(\<forall>n. res = Inr n \<longrightarrow> (\<exists>full c. resolve l key = (Inr full :: 'e storage_error + path) \<and>
       drain r = (c, EOF) \<and> n = length c \<and> node_at fs' full = Some (File c))) \<and>
    (\<forall>q. resolve l key \<noteq> (Inr q :: 'e storage_error + path) \<longrightarrow> is_file (node_at fs q) \<longrightarrow>
       node_at fs' q = node_at fs q)"
proof (cases "resolve l key :: 'e storage_error + path")
  case (Inl err)
  then have "res = Inl err" "fs' = fs" using assms(2) by (simp_all add: Local_Put_def)
  then show ?thesis by simp
next
  case (Inr full)
  have "node_at fs' q = node_at fs q" if "q \<noteq> full" "is_file (node_at fs q)" for q
    using grows_to_file(2) [OF Put_frame [OF Inr assms(2)]] that by blast
  then show ?thesis using Inr Put_stored [OF Inr] assms(2) by auto
qed

definition demo_root :: Local where "demo_root = \<lparr>root = [''srv'']\<rparr>"

definition demo_fs :: filesystem where
  "demo_fs = \<lparr>entries = [([], Dir), ([''srv''], Dir), ([''srv'', ''f''], File ''x'')], failures = []\<rparr>"

theorem Put_exact_witness:
  "let r = Body [''ab'', ''c''] (EOF :: unit read_end) True; out = Local_Put demo_root ''k/1'' r demo_fs in
   fst out = Inr 3 \<and> (\<forall>n. fst out = Inr n \<longrightarrow> (\<exists>full c. resolve demo_root ''k/1'' = (Inr full :: unit storage_error + path) \<and>
       drain r = (c, EOF) \<and> n = length c \<and> node_at (snd out) full = Some (File c))) \<and>
    (\<forall>q. resolve demo_root ''k/1'' \<noteq> (Inr q :: unit storage_error + path) \<longrightarrow> is_file (node_at demo_fs q) \<longrightarrow>
       node_at (snd out) q = node_at demo_fs q)"
  unfolding Let_def
proof (rule conjI)
  show "fst (Local_Put demo_root ''k/1'' (Body [''ab'', ''c''] (EOF :: unit read_end) True) demo_fs) = Inr 3"
    by code_simp
qed (rule Put_exact [OF _ prod.collapse [symmetric]], simp add: clean_root_def demo_root_def)

end
