(* ===== verification/Upload.thy ===== *)
theory Upload
  imports Durable_Queue Blob_Store Numerals
begin

text \<open>
  Resumable uploads (\<open>internal/upload/service.go\<close> with the statements of \<open>upload_sessions.sql\<close>).

  The state is the database (videos with their channel, sessions, the chunk ledger, the finalize
  queue) and the blob store, in one record that extends the clock and the fault schedule of the
  prelude. Ids are the canonical text of a UUID; a statement that generates one takes it as an
  argument. Each method of \<open>Service\<close> is one definition: its repository and storage calls in the
  order of the code, its guards and early returns as branches, its errors as values of
  \<open>upload_error\<close>. The service's clock and the database's \<open>now()\<close> are the same clock.
\<close>

section \<open>State\<close>

datatype SessionState =
  StateActive | StateQueued | StateProcessing | StateCompleted | StateFailed | StateCancelled

record UploadSession =
  sess_ID :: string
  sess_VideoID :: string
  sess_UserID :: string
  sess_Filename :: string
  sess_TotalSize :: int
  sess_ChunkSize :: int
  sess_State :: SessionState
  sess_FailureReason :: string
  sess_ExpiresAt :: int
  sess_FileFingerprint :: string
  sess_Purpose :: string

record chunk_row =
  chunk_upload :: string
  chunk_N :: int
  chunk_SizeBytes :: int

record finalize_payload =
  fj_VideoID :: string
  fj_Purpose :: string
  fj_CanManage :: bool

record upload_world = world +
  video_channel :: "(string \<times> string) list"
  sessions :: "UploadSession list"
  upload_chunks :: "chunk_row list"
  finalize_jobs :: "finalize_payload queue"
  blobs :: filesystem

datatype body_error = TooLarge | Disconnected

datatype upload_error =
    ErrNotFound
  | ErrNotActive
  | ErrChunkRange
  | ErrChunkSize
  | ErrChunkTooLarge
  | ErrIncomplete
  | ErrStorageUnavailable
  | ErrTooManyActiveSessions
  | ErrVideoChanged
  | Db db_error
  | Storage "body_error storage_error"

type_synonym 'a upload_op = "(upload_world, upload_error, 'a) op"

definition ChunkSize :: int where "ChunkSize = 8 * 1024 * 1024"

definition SessionTTL :: int where "SessionTTL = 24 * Hour"

definition PurposeUpload :: string where "PurposeUpload = ''upload''"
definition PurposeReplace :: string where "PurposeReplace = ''replace''"

definition Finalizing :: "SessionState \<Rightarrow> bool" where
  "Finalizing state \<longleftrightarrow> state = StateQueued \<or> state = StateProcessing"

text \<open>\<open>blobs\<close> is nil or the local backend; \<open>maxActiveSessionsFn\<close> is what the overlay returns.\<close>

record upload_Service =
  svc_blobs :: "Local option"
  svc_chunkSize :: int
  svc_maxActiveSessions :: int
  svc_maxActiveSessionsFn :: "int option"

definition NewService :: "Local option \<Rightarrow> upload_Service" where
  "NewService b = \<lparr>svc_blobs = b, svc_chunkSize = ChunkSize, svc_maxActiveSessions = 0, svc_maxActiveSessionsFn = None\<rparr>"

definition WithChunkSize :: "int \<Rightarrow> upload_Service \<Rightarrow> upload_Service" where
  "WithChunkSize n s = (if n > 0 then s\<lparr>svc_chunkSize := n\<rparr> else s)"

definition WithMaxActiveSessions :: "int \<Rightarrow> upload_Service \<Rightarrow> upload_Service" where
  "WithMaxActiveSessions n s = s\<lparr>svc_maxActiveSessions := n\<rparr>"

definition WithMaxActiveSessionsFunc :: "int \<Rightarrow> upload_Service \<Rightarrow> upload_Service" where
  "WithMaxActiveSessionsFunc n s = s\<lparr>svc_maxActiveSessionsFn := Some n\<rparr>"

section \<open>Statements\<close>

text \<open>
  The statements with the constraints of the schema (\<open>migrations/0059\<close>, \<open>0120\<close>): a violated check,
  primary key or foreign key is an error that changes nothing.
\<close>

text \<open>A repository call with its error wrapped, and a storage call on the blob part of the state.\<close>

definition db :: "(upload_world \<Rightarrow> 'a \<times> upload_world) \<Rightarrow> 'a upload_op" where
  "db q = catchE (repo q) (\<lambda>e. throwE (Db e)) retE"

definition dbE :: "(upload_world \<Rightarrow> (db_error + 'a) \<times> upload_world) \<Rightarrow> 'a upload_op" where
  "dbE q = catchE (repoE q) (\<lambda>e. throwE (Db e)) retE"

definition on_blobs :: "(filesystem, body_error storage_error, 'a) op \<Rightarrow> 'a upload_op" where
  "on_blobs call w = (case call (blobs w) of
      (Inl e, fs) \<Rightarrow> (Inl (Storage e), w\<lparr>blobs := fs\<rparr>)
    | (Inr a, fs) \<Rightarrow> (Inr a, w\<lparr>blobs := fs\<rparr>))"

definition active_session :: "int \<Rightarrow> string \<Rightarrow> UploadSession \<Rightarrow> bool" where
  "active_session now user s \<longleftrightarrow> sess_UserID s = user \<and> sess_State s = StateActive \<and> sess_ExpiresAt s > now"

definition CreateUploadSession ::
  "UploadSession \<Rightarrow> string \<Rightarrow> upload_world \<Rightarrow> (db_error + UploadSession option) \<times> upload_world" where
  "CreateUploadSession s channel w =
     (if (sess_VideoID s, channel) \<notin> set (video_channel w) then (Inr None, w)
      else if sess_TotalSize s \<le> 0 \<or> sess_ChunkSize s \<le> 0 \<or> sess_ID s \<in> set (map sess_ID (sessions w))
      then (Inl ErrDB, w)
      else (Inr (Some s), w\<lparr>sessions := sessions w @ [s]\<rparr>))"

definition CountActiveUploadSessionsForUser :: "string \<Rightarrow> upload_world \<Rightarrow> nat \<times> upload_world" where
  "CountActiveUploadSessionsForUser user w =
     (length (filter (active_session (w_now w) user) (sessions w)), w)"

definition HasActiveReplaceSessionForVideo :: "string \<Rightarrow> upload_world \<Rightarrow> bool \<times> upload_world" where
  "HasActiveReplaceSessionForVideo video w =
     (list_ex (\<lambda>s. sess_VideoID s = video \<and> sess_Purpose s = PurposeReplace \<and>
        sess_State s \<in> {StateActive, StateQueued, StateProcessing} \<and> sess_ExpiresAt s > w_now w)
      (sessions w), w)"

definition find_session :: "string \<Rightarrow> UploadSession list \<Rightarrow> UploadSession option" where
  "find_session i ss = find (\<lambda>s. sess_ID s = i) ss"

definition GetUploadSession :: "string \<Rightarrow> upload_world \<Rightarrow> UploadSession option \<times> upload_world" where
  "GetUploadSession i w = (find_session i (sessions w), w)"

definition UpsertUploadChunk :: "string \<Rightarrow> int \<Rightarrow> int \<Rightarrow> upload_world \<Rightarrow> (db_error + unit) \<times> upload_world" where
  "UpsertUploadChunk i n sz w =
     (if find_session i (sessions w) = None \<or> n < 0 \<or> sz < 0 then (Inl ErrDB, w)
      else (Inr (), w\<lparr>upload_chunks :=
        \<lparr>chunk_upload = i, chunk_N = n, chunk_SizeBytes = sz\<rparr> #
        filter (\<lambda>c. \<not> (chunk_upload c = i \<and> chunk_N c = n)) (upload_chunks w)\<rparr>))"

definition chunk_rows :: "string \<Rightarrow> chunk_row list \<Rightarrow> (int \<times> int) list" where
  "chunk_rows i cs = map (\<lambda>c. (chunk_N c, chunk_SizeBytes c))
     (sort_key chunk_N (filter (\<lambda>c. chunk_upload c = i) cs))"

definition ListUploadChunks :: "string \<Rightarrow> upload_world \<Rightarrow> (int \<times> int) list \<times> upload_world" where
  "ListUploadChunks i w = (chunk_rows i (upload_chunks w), w)"

definition ListActiveUploadSessionsForUser ::
  "string \<Rightarrow> string option \<Rightarrow> upload_world \<Rightarrow> (UploadSession \<times> nat) list \<times> upload_world" where
  "ListActiveUploadSessionsForUser user fp w =
     (map (\<lambda>s. (s, length (filter (\<lambda>c. chunk_upload c = sess_ID s) (upload_chunks w))))
        (rev (filter (\<lambda>s. active_session (w_now w) user s \<and> (fp = None \<or> fp = Some (sess_FileFingerprint s)))
           (sessions w))), w)"

definition update_session :: "string \<Rightarrow> (UploadSession \<Rightarrow> UploadSession) \<Rightarrow> upload_world \<Rightarrow> upload_world" where
  "update_session i f w = w\<lparr>sessions := map (\<lambda>s. if sess_ID s = i then f s else s) (sessions w)\<rparr>"

definition SetUploadSessionState :: "string \<Rightarrow> SessionState \<Rightarrow> upload_world \<Rightarrow> unit \<times> upload_world" where
  "SetUploadSessionState i st w =
     ((), update_session i (\<lambda>s. s\<lparr>sess_State := st, sess_FailureReason := []\<rparr>) w)"

definition MarkUploadSessionQueued :: "string \<Rightarrow> upload_world \<Rightarrow> nat \<times> upload_world" where
  "MarkUploadSessionQueued i w =
     (length (filter (\<lambda>s. sess_ID s = i \<and> sess_State s = StateActive) (sessions w)),
      w\<lparr>sessions := map (\<lambda>s. if sess_ID s = i \<and> sess_State s = StateActive
         then s\<lparr>sess_State := StateQueued, sess_FailureReason := []\<rparr> else s) (sessions w)\<rparr>)"

definition FailUploadSession :: "string \<Rightarrow> string \<Rightarrow> upload_world \<Rightarrow> unit \<times> upload_world" where
  "FailUploadSession i reason w =
     ((), update_session i (\<lambda>s. s\<lparr>sess_State := StateFailed, sess_FailureReason := reason\<rparr>) w)"

definition sweepable :: "upload_world \<Rightarrow> UploadSession \<Rightarrow> bool" where
  "sweepable w s \<longleftrightarrow> (sess_State s = StateCancelled \<or> sess_ExpiresAt s \<le> w_now w) \<and>
     \<not> queue_has_live (sess_ID s) (finalize_jobs w)"

definition ListSweepableUploadSessions :: "int \<Rightarrow> upload_world \<Rightarrow> (db_error + string list) \<times> upload_world" where
  "ListSweepableUploadSessions limit w =
     (if limit < 0 then Inl ErrDB
      else Inr (map sess_ID (take (nat limit) (sort_key sess_ExpiresAt (filter (sweepable w) (sessions w))))), w)"

text \<open>The foreign keys cascade: the ledger and the finalize jobs of a deleted session go with it.\<close>

definition DeleteUploadSession :: "string \<Rightarrow> upload_world \<Rightarrow> unit \<times> upload_world" where
  "DeleteUploadSession i w =
     ((), w\<lparr>sessions := filter (\<lambda>s. sess_ID s \<noteq> i) (sessions w),
            upload_chunks := filter (\<lambda>c. chunk_upload c \<noteq> i) (upload_chunks w),
            finalize_jobs := filter (\<lambda>j. job_key j \<noteq> i) (finalize_jobs w)\<rparr>)"

section \<open>Chunk arithmetic\<close>

definition totalChunks :: "int \<Rightarrow> int \<Rightarrow> int" where
  "totalChunks totalSize chunkSize = wrap64 (totalSize + chunkSize - 1) sdiv chunkSize"

definition chunkExpectedSize :: "int \<Rightarrow> int \<Rightarrow> int \<Rightarrow> int option" where
  "chunkExpectedSize totalSize chunkSize n =
     (if n < 0 then None
      else let total = totalChunks totalSize chunkSize in
        if n \<ge> total then None
        else if n = wrap64 (total - 1) then Some (wrap64 (totalSize - wrap64 (n * chunkSize)))
        else Some chunkSize)"

definition chunkPrefix :: "string \<Rightarrow> string" where
  "chunkPrefix uploadID = ''uploads/'' @ uploadID"

definition chunkKey :: "string \<Rightarrow> int \<Rightarrow> string" where
  "chunkKey uploadID n = chunkPrefix uploadID @ ''/'' @ Itoa n"

section \<open>The service\<close>

definition CreateSession ::
  "upload_Service \<Rightarrow> string \<Rightarrow> string \<Rightarrow> string \<Rightarrow> string \<Rightarrow> string \<Rightarrow> int \<Rightarrow> string \<Rightarrow> string \<Rightarrow> UploadSession upload_op" where
  "CreateSession s newID videoID channelID userID filename sz fileFingerprint purpose =
     (let purpose' = (if purpose \<noteq> PurposeReplace then PurposeUpload else purpose);
          maxActive = (case svc_maxActiveSessionsFn s of Some n \<Rightarrow> n | None \<Rightarrow> svc_maxActiveSessions s);
          insert = (\<lambda>w. bindE (dbE (CreateUploadSession
              \<lparr>sess_ID = newID, sess_VideoID = videoID, sess_UserID = userID, sess_Filename = filename,
               sess_TotalSize = sz, sess_ChunkSize = svc_chunkSize s, sess_State = StateActive,
               sess_FailureReason = [], sess_ExpiresAt = w_now w + SessionTTL,
               sess_FileFingerprint = fileFingerprint, sess_Purpose = purpose'\<rparr> channelID))
            (\<lambda>r. case r of None \<Rightarrow> throwE ErrVideoChanged | Some sess \<Rightarrow> retE sess) w)
      in if maxActive > 0
         then bindE (db (CountActiveUploadSessionsForUser userID))
                (\<lambda>active. guardE (int active \<ge> maxActive) ErrTooManyActiveSessions insert)
         else insert)"

text \<open>Errors report as busy.\<close>

definition HasActiveReplaceSession :: "string \<Rightarrow> upload_world \<Rightarrow> bool \<times> upload_world" where
  "HasActiveReplaceSession videoID w = (case db (HasActiveReplaceSessionForVideo videoID) w of
      (Inl _, w') \<Rightarrow> (True, w') | (Inr busy, w') \<Rightarrow> (busy, w'))"

record ActiveUpload =
  au_ID :: string
  au_VideoID :: string
  au_Filename :: string
  au_TotalSize :: int
  au_ChunkSize :: int
  au_FileFingerprint :: string
  au_ExpiresAt :: int
  au_ReceivedChunks :: int
  au_TotalChunks :: int

definition ActiveSessionsForUser :: "string \<Rightarrow> string \<Rightarrow> ActiveUpload list upload_op" where
  "ActiveSessionsForUser userID fingerprint =
     bindE (db (ListActiveUploadSessionsForUser userID (if fingerprint \<noteq> [] then Some fingerprint else None)))
       (\<lambda>rows. retE (map (\<lambda>(r, received).
          \<lparr>au_ID = sess_ID r, au_VideoID = sess_VideoID r, au_Filename = sess_Filename r,
           au_TotalSize = sess_TotalSize r, au_ChunkSize = sess_ChunkSize r,
           au_FileFingerprint = sess_FileFingerprint r, au_ExpiresAt = sess_ExpiresAt r,
           au_ReceivedChunks = int received,
           au_TotalChunks = totalChunks (sess_TotalSize r) (sess_ChunkSize r)\<rparr>) rows))"

definition session :: "string \<Rightarrow> string \<Rightarrow> UploadSession upload_op" where
  "session uploadID userID w = (case db (GetUploadSession uploadID) w of
      (Inr (Some sess), w') \<Rightarrow> if sess_UserID sess \<noteq> userID then (Inl ErrNotFound, w') else (Inr sess, w')
    | (_, w') \<Rightarrow> (Inl ErrNotFound, w'))"

record Status =
  st_Session :: UploadSession
  st_TotalChunks :: int
  st_ReceivedChunks :: "int list"
  st_BytesReceived :: int

definition buildStatus :: "UploadSession \<Rightarrow> Status upload_op" where
  "buildStatus sess = bindE (db (ListUploadChunks (sess_ID sess)))
     (\<lambda>rows. retE \<lparr>st_Session = sess,
        st_TotalChunks = totalChunks (sess_TotalSize sess) (sess_ChunkSize sess),
        st_ReceivedChunks = map fst rows,
        st_BytesReceived = foldl (\<lambda>acc r. wrap64 (acc + snd r)) 0 rows\<rparr>)"

text \<open>How \<open>PutChunk\<close> reports a failed put: the cap's own error, else the storage error.\<close>

definition put_error :: "upload_error \<Rightarrow> upload_error" where
  "put_error e = (case e of
      Storage err \<Rightarrow> if cause_of err = Some (Reader TooLarge) then ErrChunkTooLarge else e
    | _ \<Rightarrow> e)"

definition PutChunk :: "upload_Service \<Rightarrow> string \<Rightarrow> string \<Rightarrow> int \<Rightarrow> body_error reader \<Rightarrow> Status upload_op" where
  "PutChunk s uploadID userID n r = (case svc_blobs s of
      None \<Rightarrow> throwE ErrStorageUnavailable
    | Some l \<Rightarrow>
        bindE (session uploadID userID) (\<lambda>sess.
        guardE (sess_State sess \<noteq> StateActive) ErrNotActive
       (case chunkExpectedSize (sess_TotalSize sess) (sess_ChunkSize sess) n of
          None \<Rightarrow> throwE ErrChunkRange
        | Some expected \<Rightarrow>
            catchE (on_blobs (Local_Put l (chunkKey uploadID n) (Capped expected TooLarge r)))
              (\<lambda>e. throwE (put_error e))
              (\<lambda>written.
                 if int written \<noteq> expected
                 then (\<lambda>w. (Inl ErrChunkSize, ignoreE (on_blobs (Local_Delete l (chunkKey uploadID n))) w))
                 else bindE (dbE (UpsertUploadChunk uploadID (wrap32 n) (int written)))
                        (\<lambda>_. buildStatus sess)))))"

definition StatusFor :: "string \<Rightarrow> string \<Rightarrow> Status upload_op" where
  "StatusFor uploadID userID = bindE (session uploadID userID) buildStatus"

definition checkChunksComplete :: "UploadSession \<Rightarrow> unit upload_op" where
  "checkChunksComplete sess = bindE (db (ListUploadChunks (sess_ID sess)))
     (\<lambda>rows. if list_all (\<lambda>n. case map_of rows (int n) of None \<Rightarrow> False | Some got \<Rightarrow>
           got = (case chunkExpectedSize (sess_TotalSize sess) (sess_ChunkSize sess) (int n) of
             Some expected \<Rightarrow> expected | None \<Rightarrow> 0))
         [0..<nat (totalChunks (sess_TotalSize sess) (sess_ChunkSize sess))]
       then retE () else throwE ErrIncomplete)"

definition ValidateComplete :: "upload_Service \<Rightarrow> string \<Rightarrow> string \<Rightarrow> UploadSession upload_op" where
  "ValidateComplete s uploadID userID =
     guardE (svc_blobs s = None) ErrStorageUnavailable
       (bindE (session uploadID userID) (\<lambda>sess.
        guardE (sess_State sess \<noteq> StateActive) ErrNotActive
       (bindE (checkChunksComplete sess) (\<lambda>_. retE sess))))"

text \<open>\<open>chunkAssembler\<close>: the open chunk is a handle with the bytes not read yet.\<close>

record chunkAssembler =
  asm_uploadID :: string
  asm_total :: nat
  asm_idx :: nat
  asm_cur :: "node option"

definition Assemble :: "upload_Service \<Rightarrow> string \<Rightarrow> (UploadSession \<times> chunkAssembler) upload_op" where
  "Assemble s uploadID = guardE (svc_blobs s = None) ErrStorageUnavailable
     (catchE (db (GetUploadSession uploadID)) (\<lambda>_. throwE ErrNotFound)
        (\<lambda>r. case r of
           None \<Rightarrow> throwE ErrNotFound
         | Some sess \<Rightarrow>
             guardE (\<not> Finalizing (sess_State sess)) ErrNotActive
               (bindE (checkChunksComplete sess) (\<lambda>_. retE (sess,
                  \<lparr>asm_uploadID = uploadID,
                   asm_total = nat (totalChunks (sess_TotalSize sess) (sess_ChunkSize sess)),
                   asm_idx = 0, asm_cur = None\<rparr>)))))"

text \<open>One read of an open file: the bytes, whether it was at its end, and the handle after it.\<close>

definition read_handle :: "nat \<Rightarrow> node \<Rightarrow> (filesystem, errno, string \<times> bool \<times> node) op" where
  "read_handle k v = syscall (\<lambda>fs. case v of
      Dir \<Rightarrow> (Inl EISDIR, fs)
    | File bs \<Rightarrow> (Inr (take k bs, bs = [] \<and> k \<noteq> 0, File (drop k bs)), fs))"

type_synonym assembler_result =
  "(((string \<times> body_error storage_error read_end option) \<times> chunkAssembler) \<times> filesystem) option"

text \<open>
  The loop of \<open>Read\<close> from a round with no open chunk; \<open>None\<close> is the loop that never returns, which
  an empty buffer causes.
\<close>

function (sequential) assembler_open :: "Local \<Rightarrow> nat \<Rightarrow> chunkAssembler \<Rightarrow> filesystem \<Rightarrow> assembler_result" where
  "assembler_open l k a fs =
     (if asm_idx a \<ge> asm_total a then Some ((([], Some EOF), a\<lparr>asm_cur := None\<rparr>), fs)
      else case Local_Open l (chunkKey (asm_uploadID a) (int (asm_idx a))) fs of
        (Inl e, fs1) \<Rightarrow> Some ((([], Some (Failing e)), a\<lparr>asm_cur := None\<rparr>), fs1)
      | (Inr v, fs1) \<Rightarrow>
          (case read_handle k v fs1 of
             (Inl e, fs2) \<Rightarrow> Some ((([], Some (Failing (Unclassified (Sys e)))), a\<lparr>asm_cur := Some v\<rparr>), fs2)
           | (Inr (bs, eof, v'), fs2) \<Rightarrow>
               if bs \<noteq> [] then Some (((bs, None), a\<lparr>asm_cur := Some v'\<rparr>), fs2)
               else if eof then assembler_open l k (a\<lparr>asm_idx := asm_idx a + 1\<rparr>) fs2
               else None))"
  by pat_completeness auto
termination
  by (relation "measure (\<lambda>(l, k, a, fs). asm_total a - asm_idx a)") auto

declare assembler_open.simps [simp del]

definition chunkAssembler_Read :: "Local \<Rightarrow> nat \<Rightarrow> chunkAssembler \<Rightarrow> filesystem \<Rightarrow> assembler_result" where
  "chunkAssembler_Read l k a fs = (case asm_cur a of
      None \<Rightarrow> assembler_open l k a fs
    | Some v \<Rightarrow>
        (case read_handle k v fs of
           (Inl e, fs2) \<Rightarrow> Some ((([], Some (Failing (Unclassified (Sys e)))), a), fs2)
         | (Inr (bs, eof, v'), fs2) \<Rightarrow>
             if bs \<noteq> [] then Some (((bs, None), a\<lparr>asm_cur := Some v'\<rparr>), fs2)
             else if eof then assembler_open l k (a\<lparr>asm_idx := asm_idx a + 1\<rparr>) fs2
             else None))"

definition chunkAssembler_Close :: "chunkAssembler \<Rightarrow> chunkAssembler" where
  "chunkAssembler_Close a = a\<lparr>asm_cur := None\<rparr>"

definition deleteChunks :: "upload_Service \<Rightarrow> string \<Rightarrow> upload_world \<Rightarrow> upload_world" where
  "deleteChunks s uploadID w = (case svc_blobs s of
      None \<Rightarrow> w | Some l \<Rightarrow> ignoreE (on_blobs (Local_DeletePrefix l (chunkPrefix uploadID))) w)"

definition MarkQueued :: "string \<Rightarrow> bool upload_op" where
  "MarkQueued uploadID = bindE (db (MarkUploadSessionQueued uploadID)) (\<lambda>n. retE (n > 0))"

definition MarkProcessing :: "string \<Rightarrow> unit upload_op" where
  "MarkProcessing uploadID = db (SetUploadSessionState uploadID StateProcessing)"

definition MarkCompleted :: "upload_Service \<Rightarrow> string \<Rightarrow> unit upload_op" where
  "MarkCompleted s uploadID = bindE (db (SetUploadSessionState uploadID StateCompleted))
     (\<lambda>_ w. (Inr (), deleteChunks s uploadID w))"

definition MarkFailed :: "upload_Service \<Rightarrow> string \<Rightarrow> string \<Rightarrow> unit upload_op" where
  "MarkFailed s uploadID reason = bindE (db (FailUploadSession uploadID reason))
     (\<lambda>_ w. (Inr (), deleteChunks s uploadID w))"

text \<open>What \<open>Cancel\<close> does with the session it has read; other requests may run between the two.\<close>

definition Cancel_write :: "upload_Service \<Rightarrow> string \<Rightarrow> UploadSession \<Rightarrow> unit upload_op" where
  "Cancel_write s uploadID sess =
     guardE (Finalizing (sess_State sess)) ErrNotActive
       (if sess_State sess \<noteq> StateActive then retE ()
        else bindE (db (SetUploadSessionState uploadID StateCancelled))
               (\<lambda>_ w. (Inr (), deleteChunks s uploadID w)))"

definition Cancel :: "upload_Service \<Rightarrow> string \<Rightarrow> string \<Rightarrow> unit upload_op" where
  "Cancel s uploadID userID = bindE (session uploadID userID) (Cancel_write s uploadID)"

text \<open>The sweep returns the number removed also when a delete fails.\<close>

fun sweep_loop :: "upload_Service \<Rightarrow> string list \<Rightarrow> nat \<Rightarrow> upload_world \<Rightarrow> (nat \<times> upload_error option) \<times> upload_world" where
  "sweep_loop s [] removed w = ((removed, None), w)"
| "sweep_loop s (i # ids) removed w =
     (case db (DeleteUploadSession i) (deleteChunks s i w) of
        (Inl e, w') \<Rightarrow> ((removed, Some e), w')
      | (Inr _, w') \<Rightarrow> sweep_loop s ids (removed + 1) w')"

definition Sweep :: "upload_Service \<Rightarrow> int \<Rightarrow> upload_world \<Rightarrow> (nat \<times> upload_error option) \<times> upload_world" where
  "Sweep s limit w = (case dbE (ListSweepableUploadSessions (wrap32 limit)) w of
      (Inl e, w') \<Rightarrow> ((0, Some e), w')
    | (Inr ids, w') \<Rightarrow> sweep_loop s ids 0 w')"

section \<open>Chunk arithmetic\<close>

text \<open>The sizes a session can have: positive, and away from the end of the 64-bit range.\<close>

definition sane_size :: "int \<Rightarrow> int \<Rightarrow> bool" where
  "sane_size t c \<longleftrightarrow> 0 < t \<and> 0 < c \<and> t + c \<le> 2 ^ 63"

lemma totalChunks_eq: "sane_size t c \<Longrightarrow> totalChunks t c = (t + c - 1) div c"
  by (simp add: totalChunks_def sane_size_def go_int)

lemma totalChunks_bounds:
  assumes "sane_size t c"
  shows "(totalChunks t c - 1) * c < t" "t \<le> totalChunks t c * c" "0 < totalChunks t c" "totalChunks t c \<le> t"
proof -
  let ?N = "(t + c - 1) div c" and ?r = "(t + c - 1) mod c"
  have c: "0 < c" "0 < t" using assms by (simp_all add: sane_size_def)
  have e: "?N * c + ?r = t + c - 1" "0 \<le> ?r" "?r < c" using c by simp_all
  have eq: "totalChunks t c = ?N" using totalChunks_eq [OF assms] .
  show "t \<le> totalChunks t c * c" unfolding eq using e by linarith
  show "(totalChunks t c - 1) * c < t" unfolding eq left_diff_distrib using e by linarith
  have "1 * c \<le> t + c - 1" using c by simp
  then show pos: "0 < totalChunks t c" using c eq by (simp add: pos_imp_zdiv_pos_iff)
  have "(totalChunks t c - 1) * 1 \<le> (totalChunks t c - 1) * c"
    using pos c by (intro mult_left_mono) auto
  then have "(totalChunks t c - 1) * 1 < t" using \<open>(totalChunks t c - 1) * c < t\<close> by (rule le_less_trans)
  then show "totalChunks t c \<le> t" by simp
qed

lemma chunkExpectedSize_eq:
  assumes "sane_size t c"
  shows "chunkExpectedSize t c n =
    (if 0 \<le> n \<and> n < totalChunks t c
     then Some (if n = totalChunks t c - 1 then t - n * c else c) else None)"
proof (cases "0 \<le> n \<and> n < totalChunks t c")
  case True
  note b = totalChunks_bounds [OF assms]
  have t: "t < 2 ^ 63" "0 < c" using assms by (simp_all add: sane_size_def)
  have small: "wrap64 (totalChunks t c - 1) = totalChunks t c - 1"
    using b t by (intro wrap64_id in64I) simp_all
  have "wrap64 (t - wrap64 (n * c)) = t - n * c" if "n = totalChunks t c - 1"
  proof -
    have "n * c < t" using b(1) that by simp
    moreover have "0 \<le> n * c" using True t(2) by simp
    ultimately show ?thesis using t by (simp add: wrap64_id in64I)
  qed
  then show ?thesis using True small by (auto simp: chunkExpectedSize_def Let_def)
qed (auto simp: chunkExpectedSize_def Let_def)

lemma chunkExpectedSize_pos:
  assumes "sane_size t c" "chunkExpectedSize t c n = Some e"
  shows "0 < e" "e \<le> c"
  using assms(2) totalChunks_bounds(1,2) [OF assms(1)] assms(1)
  by (auto simp: chunkExpectedSize_eq [OF assms(1)] sane_size_def left_diff_distrib split: if_splits)

lemma sum_full_chunks: "(\<Sum>n<k. the (chunkExpectedSize t c (int n))) = int k * c"
  if "sane_size t c" "int k < totalChunks t c" for k
  using that(2)
  by (induction k) (simp_all add: chunkExpectedSize_eq [OF that(1)] algebra_simps)

text \<open>Expected chunk sizes exist exactly for the indices below the number of chunks, are
  positive, equal the chunk size except for the last, and add up to the size of the file, with no
  overflow of the 64-bit arithmetic.\<close>

theorem chunk_sizes_partition:
  assumes "0 < t" "0 < c" "t + c \<le> 2 ^ 63"
  shows "(\<forall>n. (chunkExpectedSize t c n \<noteq> None) = (0 \<le> n \<and> n < totalChunks t c)) \<and>
    (\<forall>n e. chunkExpectedSize t c n = Some e \<longrightarrow> 0 < e \<and> e \<le> c \<and> (n < totalChunks t c - 1 \<longrightarrow> e = c)) \<and>
    (\<Sum>n<nat (totalChunks t c). the (chunkExpectedSize t c (int n))) = t"
proof (intro conjI allI impI)
  have sane: "sane_size t c" using assms by (simp add: sane_size_def)
  note b = totalChunks_bounds [OF sane] and ces = chunkExpectedSize_eq [OF sane]
  show "(chunkExpectedSize t c n \<noteq> None) = (0 \<le> n \<and> n < totalChunks t c)" for n
    by (simp add: ces)
  fix n e assume e: "chunkExpectedSize t c n = Some e"
  show "0 < e" "e \<le> c" using chunkExpectedSize_pos [OF sane e] by simp_all
  show "e = c" if "n < totalChunks t c - 1" using e that by (simp add: ces split: if_splits)
next
  have sane: "sane_size t c" using assms by (simp add: sane_size_def)
  note b = totalChunks_bounds [OF sane] and ces = chunkExpectedSize_eq [OF sane]
  obtain k where k: "nat (totalChunks t c) = Suc k" "int k = totalChunks t c - 1"
    using b(3) by (metis Suc_pred' add_diff_cancel_left' int_nat_eq less_imp_le of_nat_Suc zero_less_nat_eq)
  then show "(\<Sum>n<nat (totalChunks t c). the (chunkExpectedSize t c (int n))) = t"
    using sum_full_chunks [OF sane, of k] by (simp add: ces)
qed

theorem chunk_sizes_partition_witness:
  "(chunkExpectedSize 20 8 2 \<noteq> None) = True \<and> (chunkExpectedSize 20 8 3 \<noteq> None) = False \<and>
   (\<Sum>n<nat (totalChunks 20 8). the (chunkExpectedSize 20 8 (int n))) = 20"
proof -
  have "totalChunks 20 8 = 3" by (simp add: totalChunks_def wrap64_def signed_divide_int_def)
  moreover have "(chunkExpectedSize 20 8 n \<noteq> None) = (0 \<le> n \<and> n < totalChunks 20 8)" for n
    using chunk_sizes_partition [of 20 8] by simp
  ultimately show ?thesis using chunk_sizes_partition [of 20 8] by simp
qed

end
