(* ===== verification/Upload_Roundtrip.thy ===== *)
theory Upload_Roundtrip
  imports Upload
begin

text \<open>
  Uploading a file in chunks and assembling it again: the keys of the chunks, the effect of one
  accepted chunk, the chunk ledger, the assembler, and the round trip for every order of chunks,
  every packet size of their bodies and every sequence of read buffers.
\<close>

section \<open>Chunk keys\<close>

text \<open>The canonical text of a UUID, as \<open>uuid.UUID.String\<close> prints it.\<close>

definition uuid_text :: "string \<Rightarrow> bool" where
  "uuid_text i \<longleftrightarrow> length i = 36 \<and> list_all (\<lambda>c. c \<in> set ''0123456789abcdef-'') i"

lemma plain_uuid:
  assumes "uuid_text i"
  shows "plain_segment i"
proof -
  have "length i = 36" "\<And>c. c \<in> set i \<Longrightarrow> c \<in> set ''0123456789abcdef-''"
    using assms by (simp_all add: uuid_text_def list_all_iff del: list.set)
  from this(1) this(2) [of "CHR ''/''"] this(2) [of "CHR 0x00"] show ?thesis
    by (auto simp: plain_segment_def)
qed

lemma plain_Itoa: "0 \<le> n \<Longrightarrow> plain_segment (Itoa n)"
  using Itoa_bytes [of n "CHR ''.''"] Itoa_bytes [of n "CHR ''/''"] Itoa_bytes [of n "CHR 0x00"]
    Itoa_nonempty [of n]
  by (auto simp: plain_segment_def)

lemma split_chunkKey:
  assumes "plain_segment i" "0 \<le> n"
  shows "split_on CHR ''/'' (chunkKey i n) = [''uploads'', i, Itoa n]"
proof -
  have "split_on CHR ''/'' (chunkKey i n) = split_on CHR ''/'' (''uploads'' @ CHR ''/'' # (i @ CHR ''/'' # Itoa n))"
    by (simp add: chunkKey_def chunkPrefix_def)
  also have "\<dots> = ''uploads'' # split_on CHR ''/'' (i @ CHR ''/'' # Itoa n)"
    by (rule split_on_step) simp
  also have "split_on CHR ''/'' (i @ CHR ''/'' # Itoa n) = i # split_on CHR ''/'' (Itoa n)"
    by (rule split_on_step) (use assms(1) in \<open>simp add: plain_segment_def\<close>)
  also have "split_on CHR ''/'' (Itoa n) = [Itoa n]"
    by (rule split_on_plain) (use plain_Itoa [OF assms(2)] in \<open>simp add: plain_segment_def\<close>)
  finally show ?thesis .
qed

lemma canonical_chunkKey:
  assumes "plain_segment i" "0 \<le> n"
  shows "canonical_key (chunkKey i n)" "segments (chunkKey i n) = [''uploads'', i, Itoa n]"
proof -
  note sp = split_chunkKey [OF assms] and it = plain_Itoa [OF assms(2)]
  have "CHR 0x00 \<notin> set (chunkKey i n)"
    using assms(1) it by (simp add: chunkKey_def chunkPrefix_def plain_segment_def)
  then show "canonical_key (chunkKey i n)"
    using sp it assms(1)
    by (simp add: canonical_key_def validateKey_def plain_segment_def chunkKey_def chunkPrefix_def)
  then show "segments (chunkKey i n) = [''uploads'', i, Itoa n]"
    using sp segments_canonical by simp
qed

lemma canonical_chunkPrefix:
  assumes "plain_segment i"
  shows "canonical_key (chunkPrefix i)" "segments (chunkPrefix i) = [''uploads'', i]"
proof -
  have "split_on CHR ''/'' (chunkPrefix i) = split_on CHR ''/'' (''uploads'' @ CHR ''/'' # i)"
    by (simp add: chunkPrefix_def)
  also have "\<dots> = ''uploads'' # split_on CHR ''/'' i"
    by (rule split_on_step) simp
  also have "split_on CHR ''/'' i = [i]"
    by (rule split_on_plain) (use assms in \<open>simp add: plain_segment_def\<close>)
  finally have sp: "split_on CHR ''/'' (chunkPrefix i) = [''uploads'', i]" .
  show "canonical_key (chunkPrefix i)"
    using sp assms by (simp add: canonical_key_def validateKey_def plain_segment_def chunkPrefix_def)
  then show "segments (chunkPrefix i) = [''uploads'', i]"
    using sp segments_canonical by simp
qed

lemma chunkKey_inj:
  assumes "plain_segment i" "plain_segment j" "0 \<le> m" "0 \<le> n"
  shows "chunkKey i m = chunkKey j n \<longleftrightarrow> i = j \<and> m = n"
  using canonical_chunkKey(2) [OF assms(1,3)] canonical_chunkKey(2) [OF assms(2,4)] Itoa_inj [OF assms(3,4)]
  by auto

lemma chunk_keys_unnested:
  assumes "plain_segment i"
  shows "local_store.unnested (chunkKey i ` {0..})"
  unfolding local_store.unnested_def key_above_def
  using canonical_chunkKey(2) [OF assms] by (auto simp: strict_prefix_def)

lemma prefix_above_chunk:
  assumes "plain_segment i" "plain_segment j" "0 \<le> n"
  shows "key_above (chunkPrefix i) (chunkKey j n) \<longleftrightarrow> i = j"
  using canonical_chunkPrefix(2) [OF assms(1)] canonical_chunkKey(2) [OF assms(2,3)]
  by (auto simp: key_above_def strict_prefix_def)

section \<open>The ledger\<close>

lemma map_of_key_filter:
  "map_of (map (\<lambda>x. (k x, v x)) xs) m = (case filter (\<lambda>x. k x = m) xs of [] \<Rightarrow> None | x # _ \<Rightarrow> Some (v x))"
  by (induction xs) auto

lemma map_of_sort_key: "map_of (map (\<lambda>x. (k x, v x)) (sort_key k xs)) m = map_of (map (\<lambda>x. (k x, v x)) xs) m"
  unfolding map_of_key_filter by (simp add: sort_key_stable)

lemma map_of_chunk_rows:
  "map_of (chunk_rows i cs) m = (case filter (\<lambda>c. chunk_N c = m) (filter (\<lambda>c. chunk_upload c = i) cs) of
     [] \<Rightarrow> None | c # _ \<Rightarrow> Some (chunk_SizeBytes c))"
  unfolding chunk_rows_def map_of_sort_key by (rule map_of_key_filter)

lemma chunk_rows_upsert:
  "map_of (chunk_rows i (\<lparr>chunk_upload = j, chunk_N = n, chunk_SizeBytes = z\<rparr> #
      filter (\<lambda>c. \<not> (chunk_upload c = j \<and> chunk_N c = n)) cs)) m =
   (if i = j \<and> m = n then Some z else map_of (chunk_rows i cs) m)"
proof -
  have "filter (\<lambda>c. chunk_N c = m) (filter (\<lambda>c. chunk_upload c = i) (filter (\<lambda>c. \<not> (chunk_upload c = j \<and> chunk_N c = n)) cs))
    = filter (\<lambda>c. chunk_N c = m) (filter (\<lambda>c. chunk_upload c = i) cs)" if "\<not> (i = j \<and> m = n)"
    using that by (auto simp: filter_filter intro!: filter_cong)
  then show ?thesis
    by (auto simp: map_of_chunk_rows simp del: filter_filter)
qed

lemmas chunk_rows_upsert_nf = chunk_rows_upsert [simplified]

section \<open>One chunk\<close>

definition put_chunk_effect :: "Local \<Rightarrow> string \<Rightarrow> int \<Rightarrow> string \<Rightarrow> upload_world \<Rightarrow> upload_world" where
  "put_chunk_effect l i n c w = w\<lparr>
     blobs := local_place l (chunkKey i n) c (blobs w),
     upload_chunks := \<lparr>chunk_upload = i, chunk_N = n, chunk_SizeBytes = int (length c)\<rparr> #
        filter (\<lambda>c. \<not> (chunk_upload c = i \<and> chunk_N c = n)) (upload_chunks w)\<rparr>"

lemma db_healthy:
  assumes "w_faults w = []"
  shows "db q w = (let (a, w') = q w in (Inr a, w'))"
  by (simp add: db_def op_simps assms healthy_noop [OF assms] split_beta Let_def)

lemma dbE_healthy:
  assumes "w_faults w = []"
  shows "dbE q w = (case q w of (Inl e, w') \<Rightarrow> (Inl (Db e), w') | (Inr a, w') \<Rightarrow> (Inr a, w'))"
  by (simp add: dbE_def catchE_def repoE_healthy [OF assms] healthy_noop [OF assms] op_simps
      split: prod.splits sum.splits)

lemma session_healthy:
  "w_faults w = [] \<Longrightarrow> session i u w =
     (case find_session i (sessions w) of
        Some sess \<Rightarrow> if sess_UserID sess = u then (Inr sess, w) else (Inl ErrNotFound, w)
      | None \<Rightarrow> (Inl ErrNotFound, w))"
  by (simp add: session_def db_healthy GetUploadSession_def split: option.splits)

lemma PutChunk_accepted:
  assumes "w_faults w = []" "svc_blobs s = Some l" "find_session i (sessions w) = Some sess"
    "sess_UserID sess = u" "sess_State sess = StateActive"
    "chunkExpectedSize (sess_TotalSize sess) (sess_ChunkSize sess) n = Some (int (length c))"
    "0 \<le> n" "n < 2 ^ 31" "drain r = (c, EOF)" "local_ready l (blobs w) (chunkKey i n)"
  shows "\<exists>st. PutChunk s i u n r w = (Inr st, put_chunk_effect l i n c w)"
proof -
  have "drain (Capped (int (length c)) TooLarge r) = (c, EOF)" using assms(9) by simp
  note put = Put_place [OF assms(10) this]
  have n: "wrap32 n = n" using assms(7,8) by (simp add: wrap32_id in32_def)
  let ?w = "w\<lparr>blobs := local_place l (chunkKey i n) c (blobs w)\<rparr>"
  have u: "dbE (UpsertUploadChunk i (wrap32 n) (int (length c))) ?w = (Inr (), put_chunk_effect l i n c w)"
    using assms(1,3,7) n by (simp add: dbE_healthy UpsertUploadChunk_def put_chunk_effect_def)
  have b: "\<exists>st. buildStatus sess v = (Inr st, v)" if "w_faults v = []" for v
    using that by (simp add: buildStatus_def op_simps db_healthy ListUploadChunks_def)
  have "w_faults (put_chunk_effect l i n c w) = []" using assms(1) by (simp add: put_chunk_effect_def)
  with b obtain st where st: "buildStatus sess (put_chunk_effect l i n c w) = (Inr st, put_chunk_effect l i n c w)"
    by blast
  show ?thesis
    using assms put u st
    by (simp add: PutChunk_def op_simps session_healthy on_blobs_def)
qed

section \<open>All chunks\<close>

text \<open>The bytes of the file that chunk \<open>n\<close> carries.\<close>

definition chunk_of :: "int \<Rightarrow> string \<Rightarrow> nat \<Rightarrow> string" where
  "chunk_of c file n = take (nat c) (drop (n * nat c) file)"

lemma concat_chunks: "concat (map (chunk_of c file) [0..<k]) = take (k * nat c) file"
proof (induction k)
  case (Suc k)
  have "take (k * nat c) file @ take (nat c) (drop (k * nat c) file) = take (k * nat c + nat c) file"
    by (rule take_add [symmetric])
  then show ?case using Suc by (simp add: chunk_of_def add.commute)
qed simp

lemma length_chunk_of:
  assumes "sane_size (int (length file)) c" "int n < totalChunks (int (length file)) c"
  shows "chunkExpectedSize (int (length file)) c (int n) = Some (int (length (chunk_of c file n)))"
proof -
  let ?t = "int (length file)" and ?N = "totalChunks (int (length file)) c"
  note b = totalChunks_bounds [OF assms(1)]
  have c: "0 < c" using assms(1) by (simp add: sane_size_def)
  have len: "int (length (chunk_of c file n)) = min c (?t - int n * c)" if "int n * c \<le> ?t"
  proof -
    obtain k where k: "c = int k" using c by (metis less_imp_le nonneg_int_cases)
    then have "n * k \<le> length file" using that by (simp flip: of_nat_mult)
    then show ?thesis using k by (simp add: chunk_of_def of_nat_diff of_nat_min min.commute)
  qed
  have "(int n + 1) * c \<le> ?N * c" using assms(2) c by (intro mult_right_mono) auto
  have up: "int n * c \<le> (?N - 1) * c" using assms(2) c by (intro mult_right_mono) auto
  show ?thesis
  proof (cases "int n = ?N - 1")
    case True
    have "?t - int n * c \<le> c" using b(2) True by (simp add: left_diff_distrib)
    then show ?thesis using True b len up by (simp add: chunkExpectedSize_eq [OF assms(1)])
  next
    case False
    then have "(int n + 1) * c \<le> (?N - 1) * c" using assms(2) c by (intro mult_right_mono) auto
    then have "c \<le> ?t - int n * c" using b(1) by (simp add: distrib_right)
    then show ?thesis using False assms(2) b(1) len up by (simp add: chunkExpectedSize_eq [OF assms(1)])
  qed
qed

fun put_all :: "upload_Service \<Rightarrow> string \<Rightarrow> string \<Rightarrow> (nat \<times> body_error reader) list \<Rightarrow> Status list upload_op" where
  "put_all s i u [] = retE []"
| "put_all s i u ((n, r) # ps) = bindE (PutChunk s i u (int n) r) (\<lambda>st.
     bindE (put_all s i u ps) (\<lambda>sts. retE (st # sts)))"

text \<open>A session that waits for chunks of \<open>file\<close>, on a store that can take them.\<close>

definition awaiting :: "upload_Service \<Rightarrow> Local \<Rightarrow> string \<Rightarrow> UploadSession \<Rightarrow> string \<Rightarrow> upload_world \<Rightarrow> bool" where
  "awaiting s l file sess u w \<longleftrightarrow>
     w_faults w = [] \<and> svc_blobs s = Some l \<and> uuid_text (sess_ID sess) \<and>
     find_session (sess_ID sess) (sessions w) = Some sess \<and> sess_UserID sess = u \<and> sess_State sess = StateActive \<and>
     sess_TotalSize sess = int (length file) \<and> sane_size (int (length file)) (sess_ChunkSize sess) \<and>
     totalChunks (int (length file)) (sess_ChunkSize sess) \<le> 2 ^ 31"

abbreviation chunk_total :: "UploadSession \<Rightarrow> nat" where
  "chunk_total sess \<equiv> nat (totalChunks (sess_TotalSize sess) (sess_ChunkSize sess))"

definition area_ready :: "Local \<Rightarrow> string \<Rightarrow> filesystem \<Rightarrow> bool" where
  "area_ready l i fs \<longleftrightarrow> (\<forall>n\<ge>0. local_ready l fs (chunkKey i n))"

lemma area_place: "plain_segment i \<Longrightarrow> area_ready l i fs \<Longrightarrow> 0 \<le> n \<Longrightarrow> area_ready l i (local_place l (chunkKey i n) c fs)"
  using chunk_keys_unnested [of i] unfolding area_ready_def local_store.unnested_def
  by (auto intro!: local_ready_place)

definition chunks_present :: "Local \<Rightarrow> string \<Rightarrow> int \<Rightarrow> string \<Rightarrow> nat set \<Rightarrow> upload_world \<Rightarrow> bool" where
  "chunks_present l i c file D w \<longleftrightarrow> (\<forall>n\<in>D.
     local_stored l (blobs w) (chunkKey i (int n)) = Some (chunk_of c file n) \<and>
     map_of (chunk_rows i (upload_chunks w)) (int n) = Some (int (length (chunk_of c file n))))"

lemma chunks_present_put:
  assumes "plain_segment i" "area_ready l i (blobs w)" "chunks_present l i c file D w"
  shows "chunks_present l i c file (insert n D) (put_chunk_effect l i (int n) (chunk_of c file n) w)"
proof -
  have r: "local_ready l (blobs w) (chunkKey i (int n))" using assms(2) by (simp add: area_ready_def)
  have "local_stored l (local_place l (chunkKey i (int n)) d (blobs w)) (chunkKey i (int m)) =
      (if m = n then Some d else local_stored l (blobs w) (chunkKey i (int m)))" for m d
    using local_stored_place [OF r canonical_chunkKey(1) [OF assms(1), of "int m"]]
      chunkKey_inj [OF assms(1) assms(1), of "int m" "int n"] by simp
  then show ?thesis
    using assms(3) by (auto simp: chunks_present_def put_chunk_effect_def chunk_rows_upsert_nf)
qed

lemma put_all_accepted:
  assumes "awaiting s l file sess u w" "area_ready l (sess_ID sess) (blobs w)"
    "chunks_present l (sess_ID sess) (sess_ChunkSize sess) file D w"
    "\<forall>(n, r)\<in>set ps. n < chunk_total sess \<and> drain r = (chunk_of (sess_ChunkSize sess) file n, EOF)"
  shows "\<exists>sts w'. put_all s (sess_ID sess) u ps w = (Inr sts, w') \<and> awaiting s l file sess u w' \<and>
    area_ready l (sess_ID sess) (blobs w') \<and>
    chunks_present l (sess_ID sess) (sess_ChunkSize sess) file (D \<union> fst ` set ps) w'"
  using assms
proof (induction ps arbitrary: w D)
  case Nil
  then show ?case by (simp add: op_simps)
next
  case (Cons p ps)
  obtain n r where p: "p = (n, r)" by fastforce
  let ?i = "sess_ID sess" and ?c = "chunk_of (sess_ChunkSize sess) file n"
  let ?w = "put_chunk_effect l ?i (int n) ?c w"
  have a: "awaiting s l file sess u w" and pl: "plain_segment ?i"
    using Cons.prems(1) plain_uuid by (simp_all add: awaiting_def)
  have n: "n < chunk_total sess" "drain r = (?c, EOF)" using Cons.prems(4) p by auto
  have "chunkExpectedSize (sess_TotalSize sess) (sess_ChunkSize sess) (int n) = Some (int (length ?c))"
    using length_chunk_of [of "file" "sess_ChunkSize sess" n] a n(1)
    by (simp add: awaiting_def nat_less_iff)
  moreover have "int n < 2 ^ 31"
  proof -
    have "int n < totalChunks (sess_TotalSize sess) (sess_ChunkSize sess)" using n(1) by linarith
    then show ?thesis using a by (simp add: awaiting_def)
  qed
  ultimately obtain st where st: "PutChunk s ?i u (int n) r w = (Inr st, ?w)"
    using PutChunk_accepted [of w s l ?i sess u "int n" ?c r] a Cons.prems(2) n(2)
    by (auto simp: awaiting_def area_ready_def)
  have "awaiting s l file sess u ?w" using a by (simp add: awaiting_def put_chunk_effect_def)
  moreover have "area_ready l ?i (blobs ?w)"
    using area_place [OF pl Cons.prems(2)] by (simp add: put_chunk_effect_def)
  moreover have "chunks_present l ?i (sess_ChunkSize sess) file (insert n D) ?w"
    by (rule chunks_present_put [OF pl Cons.prems(2,3)])
  moreover have "\<forall>(m, q)\<in>set ps. m < chunk_total sess \<and> drain q = (chunk_of (sess_ChunkSize sess) file m, EOF)"
    using Cons.prems(4) by auto
  ultimately obtain sts w' where "put_all s ?i u ps ?w = (Inr sts, w')" "awaiting s l file sess u w'"
    "area_ready l ?i (blobs w')"
    "chunks_present l ?i (sess_ChunkSize sess) file (insert n D \<union> fst ` set ps) w'"
    using Cons.IH by blast
  then show ?case using p st by (auto simp: op_simps)
qed

section \<open>The assembler\<close>

text \<open>The bytes an assembler has still to deliver.\<close>

definition asm_rest :: "(nat \<Rightarrow> string) \<Rightarrow> chunkAssembler \<Rightarrow> string" where
  "asm_rest data a = (case asm_cur a of
      Some (File bs) \<Rightarrow> bs @ concat (map data [Suc (asm_idx a)..<asm_total a])
    | _ \<Rightarrow> concat (map data [asm_idx a..<asm_total a]))"

definition asm_good :: "chunkAssembler \<Rightarrow> bool" where
  "asm_good a \<longleftrightarrow> asm_cur a \<noteq> Some Dir"

definition holds_chunks :: "Local \<Rightarrow> string \<Rightarrow> nat \<Rightarrow> (nat \<Rightarrow> string) \<Rightarrow> filesystem \<Rightarrow> bool" where
  "holds_chunks l i m data fs \<longleftrightarrow> failures fs = [] \<and> (\<forall>n<m.
     local_reach l fs (chunkKey i (int n)) \<and> local_stored l fs (chunkKey i (int n)) = Some (data n) \<and> data n \<noteq> [])"

lemma read_handle_file:
  "failures fs = [] \<Longrightarrow> 0 < k \<Longrightarrow> read_handle k (File bs) fs = (Inr (take k bs, bs = [], File (drop k bs)), fs)"
  by (simp add: read_handle_def fs_simps)

lemma assembler_open_step:
  assumes "holds_chunks l (asm_uploadID a) (asm_total a) data fs" "0 < k"
  shows "asm_idx a < asm_total a \<Longrightarrow> assembler_open l k a fs =
      Some (((take k (data (asm_idx a)), None), a\<lparr>asm_cur := Some (File (drop k (data (asm_idx a))))\<rparr>), fs)"
    and "asm_total a \<le> asm_idx a \<Longrightarrow> assembler_open l k a fs = Some ((([], Some EOF), a\<lparr>asm_cur := None\<rparr>), fs)"
proof -
  assume lt: "asm_idx a < asm_total a"
  then have h: "local_reach l fs (chunkKey (asm_uploadID a) (int (asm_idx a)))"
    "local_stored l fs (chunkKey (asm_uploadID a) (int (asm_idx a))) = Some (data (asm_idx a))"
    "data (asm_idx a) \<noteq> []" "failures fs = []"
    using assms(1) by (simp_all add: holds_chunks_def)
  show "assembler_open l k a fs =
      Some (((take k (data (asm_idx a)), None), a\<lparr>asm_cur := Some (File (drop k (data (asm_idx a))))\<rparr>), fs)"
    using lt h assms(2)
    by (subst assembler_open.simps) (simp add: Open_stored read_handle_file)
qed (subst assembler_open.simps, simp)

lemma chunkAssembler_Read_step:
  assumes "holds_chunks l (asm_uploadID a) (asm_total a) data fs" "0 < k" "asm_good a"
  shows "\<exists>bs e a'. chunkAssembler_Read l k a fs = Some (((bs, e), a'), fs) \<and>
    (if asm_rest data a = [] then bs = [] \<and> e = Some EOF
     else bs \<noteq> [] \<and> e = None \<and> asm_rest data a = bs @ asm_rest data a' \<and> asm_good a' \<and>
       asm_uploadID a' = asm_uploadID a \<and> asm_total a' = asm_total a)"
proof -
  have fs: "failures fs = []" using assms(1) by (simp add: holds_chunks_def)
  have ne: "data n \<noteq> []" if "n < asm_total a" for n using that assms(1) by (simp add: holds_chunks_def)
  have opened: "\<exists>bs e a'. assembler_open l k b fs = Some (((bs, e), a'), fs) \<and>
    (if concat (map data [asm_idx b..<asm_total b]) = [] then bs = [] \<and> e = Some EOF
     else bs \<noteq> [] \<and> e = None \<and> concat (map data [asm_idx b..<asm_total b]) = bs @ asm_rest data a' \<and>
       asm_good a' \<and> asm_uploadID a' = asm_uploadID b \<and> asm_total a' = asm_total b)"
    if "asm_uploadID b = asm_uploadID a" "asm_total b = asm_total a" for b
  proof (cases "asm_idx b < asm_total b")
    case True
    then have "[asm_idx b..<asm_total b] = asm_idx b # [Suc (asm_idx b)..<asm_total b]"
      by (simp add: upt_conv_Cons)
    then show ?thesis
      using True assembler_open_step(1) [of l b data fs k] assms(1,2) that ne [of "asm_idx b"]
      by (simp add: asm_rest_def asm_good_def)
  next
    case False
    then show ?thesis using assembler_open_step(2) [of l b data fs k] assms(1,2) that by simp
  qed
  show ?thesis
  proof (cases "asm_cur a")
    case None
    then have "asm_rest data a = concat (map data [asm_idx a..<asm_total a])"
      "chunkAssembler_Read l k a fs = assembler_open l k a fs"
      by (simp_all add: asm_rest_def chunkAssembler_Read_def)
    then show ?thesis using opened [of a] by (simp only: refl)
  next
    case (Some v)
    then obtain bs where v: "v = File bs" using assms(3) by (cases v) (auto simp: asm_good_def)
    show ?thesis
    proof (cases "bs = []")
      case True
      let ?b = "a\<lparr>asm_idx := asm_idx a + 1\<rparr>"
      have "asm_rest data a = concat (map data [asm_idx ?b..<asm_total ?b])"
        "chunkAssembler_Read l k a fs = assembler_open l k ?b fs"
        using True Some v read_handle_file [OF fs assms(2), of bs]
        by (simp_all add: asm_rest_def chunkAssembler_Read_def)
      moreover have "asm_uploadID ?b = asm_uploadID a" "asm_total ?b = asm_total a" by simp_all
      ultimately show ?thesis using opened [of ?b] by (simp only: refl)
    next
      case False
      then show ?thesis
        using Some v read_handle_file [OF fs assms(2), of bs] assms(2)
        by (simp add: chunkAssembler_Read_def asm_rest_def asm_good_def)
    qed
  qed
qed

text \<open>Reading with a sequence of buffers until the end or an error.\<close>

fun assembler_reads ::
  "Local \<Rightarrow> nat list \<Rightarrow> chunkAssembler \<Rightarrow> filesystem \<Rightarrow> string \<times> body_error storage_error read_end option" where
  "assembler_reads l [] a fs = ([], None)"
| "assembler_reads l (k # ks) a fs = (case chunkAssembler_Read l k a fs of
      None \<Rightarrow> ([], None)
    | Some (((bs, Some e), a'), fs') \<Rightarrow> (bs, Some e)
    | Some (((bs, None), a'), fs') \<Rightarrow> (case assembler_reads l ks a' fs' of (cs, e) \<Rightarrow> (bs @ cs, e)))"

lemma assembler_reads_all:
  assumes "holds_chunks l (asm_uploadID a) (asm_total a) data fs" "asm_good a"
    "list_all (\<lambda>k. 0 < k) ks" "length (asm_rest data a) < length ks"
  shows "assembler_reads l ks a fs = (asm_rest data a, Some EOF)"
  using assms
proof (induction ks arbitrary: a)
  case (Cons k ks)
  then have k: "0 < k" by simp
  obtain bs e a' where rd: "chunkAssembler_Read l k a fs = Some (((bs, e), a'), fs)"
    and res: "if asm_rest data a = [] then bs = [] \<and> e = Some EOF
     else bs \<noteq> [] \<and> e = None \<and> asm_rest data a = bs @ asm_rest data a' \<and> asm_good a' \<and>
       asm_uploadID a' = asm_uploadID a \<and> asm_total a' = asm_total a"
    using chunkAssembler_Read_step [OF Cons.prems(1) k Cons.prems(2)] by blast
  show ?case
  proof (cases "asm_rest data a = []")
    case True
    then show ?thesis using rd res by simp
  next
    case False
    then have r: "bs \<noteq> []" "e = None" "asm_rest data a = bs @ asm_rest data a'" "asm_good a'"
      "asm_uploadID a' = asm_uploadID a" "asm_total a' = asm_total a" using res by simp_all
    then have "length (asm_rest data a') < length ks" using Cons.prems(4) by (cases bs) auto
    then have "assembler_reads l ks a' fs = (asm_rest data a', Some EOF)"
      using Cons.IH [of a'] Cons.prems(1,3) r by simp
    then show ?thesis using rd r by simp
  qed
qed simp

section \<open>The round trip\<close>

lemma checkChunksComplete_present:
  assumes "w_faults w = []" "sess_TotalSize sess = int (length file)"
    "sane_size (int (length file)) (sess_ChunkSize sess)"
    "chunks_present l (sess_ID sess) (sess_ChunkSize sess) file {..<chunk_total sess} w"
  shows "checkChunksComplete sess w = (Inr (), w)"
proof -
  have "list_all (\<lambda>n. case map_of (chunk_rows (sess_ID sess) (upload_chunks w)) (int n) of None \<Rightarrow> False
      | Some got \<Rightarrow> got = (case chunkExpectedSize (sess_TotalSize sess) (sess_ChunkSize sess) (int n) of
             Some expected \<Rightarrow> expected | None \<Rightarrow> 0)) [0..<chunk_total sess]"
    unfolding list_all_iff
  proof
    fix n assume n: "n \<in> set [0..<chunk_total sess]"
    then have "int n < totalChunks (int (length file)) (sess_ChunkSize sess)" using assms(2) by auto
    then have "chunkExpectedSize (sess_TotalSize sess) (sess_ChunkSize sess) (int n) =
        Some (int (length (chunk_of (sess_ChunkSize sess) file n)))"
      using length_chunk_of [OF assms(3)] assms(2) by simp
    moreover have "map_of (chunk_rows (sess_ID sess) (upload_chunks w)) (int n) =
        Some (int (length (chunk_of (sess_ChunkSize sess) file n)))"
      using assms(4) n by (simp add: chunks_present_def)
    ultimately show "case map_of (chunk_rows (sess_ID sess) (upload_chunks w)) (int n) of None \<Rightarrow> False
      | Some got \<Rightarrow> got = (case chunkExpectedSize (sess_TotalSize sess) (sess_ChunkSize sess) (int n) of
             Some expected \<Rightarrow> expected | None \<Rightarrow> 0)" by simp
  qed
  then show ?thesis
    using assms(1) by (simp add: checkChunksComplete_def op_simps db_healthy ListUploadChunks_def)
qed

lemma holds_chunks_present:
  assumes "sess_TotalSize sess = int (length file)" "sane_size (int (length file)) (sess_ChunkSize sess)"
    "area_ready l (sess_ID sess) (blobs w)"
    "chunks_present l (sess_ID sess) (sess_ChunkSize sess) file {..<chunk_total sess} w"
  shows "holds_chunks l (sess_ID sess) (chunk_total sess) (chunk_of (sess_ChunkSize sess) file) (blobs w)"
proof -
  have "chunk_of (sess_ChunkSize sess) file n \<noteq> []" if "n < chunk_total sess" for n
  proof -
    have "int n < totalChunks (int (length file)) (sess_ChunkSize sess)" using that unfolding assms(1) by linarith
    then show ?thesis
      using chunkExpectedSize_pos(1) [OF assms(2) length_chunk_of [OF assms(2)]] by fastforce
  qed
  moreover have "failures (blobs w) = []"
    using assms(3) by (auto simp: area_ready_def local_ready_def local_reach_def)
  moreover have "local_reach l (blobs w) (chunkKey (sess_ID sess) (int n))" for n
    using assms(3) by (simp add: area_ready_def local_ready_def)
  ultimately show ?thesis using assms(4) by (simp add: holds_chunks_def chunks_present_def)
qed

lemma all_chunks_file:
  assumes "sess_TotalSize sess = int (length file)" "sane_size (int (length file)) (sess_ChunkSize sess)"
  shows "concat (map (chunk_of (sess_ChunkSize sess) file) [0..<chunk_total sess]) = file"
proof -
  have c: "0 < sess_ChunkSize sess" using assms(2) by (simp add: sane_size_def)
  have "int (length file) \<le> int (chunk_total sess) * int (nat (sess_ChunkSize sess))"
    using totalChunks_bounds(2,3) [OF assms(2)] assms(1) c by simp
  then have "length file \<le> chunk_total sess * nat (sess_ChunkSize sess)"
    by (simp only: of_nat_mult [symmetric] of_nat_le_iff)
  then show ?thesis by (simp add: concat_chunks)
qed

text \<open>The session row after the compare-and-set of \<open>MarkQueued\<close>.\<close>

lemma MarkQueued_active:
  assumes "w_faults w = []" "find_session i (sessions w) = Some sess" "sess_State sess = StateActive"
  shows "\<exists>w'. MarkQueued i w = (Inr True, w') \<and> w_faults w' = [] \<and> blobs w' = blobs w \<and>
    upload_chunks w' = upload_chunks w \<and> w_now w' = w_now w \<and> finalize_jobs w' = finalize_jobs w \<and>
    find_session i (sessions w') = Some (sess\<lparr>sess_State := StateQueued, sess_FailureReason := []\<rparr>)"
proof -
  have "sess \<in> set (sessions w)" "sess_ID sess = i"
    using assms(2) by (auto simp: find_session_def find_Some_iff)
  then have pos: "0 < length (filter (\<lambda>s. sess_ID s = i \<and> sess_State s = StateActive) (sessions w))"
    using assms(3) by (auto simp: filter_empty_conv)
  have "find (\<lambda>s. sess_ID s = i) (map (\<lambda>s. if sess_ID s = i \<and> sess_State s = StateActive
         then s\<lparr>sess_State := StateQueued, sess_FailureReason := []\<rparr> else s) ss) =
        Some (sess\<lparr>sess_State := StateQueued, sess_FailureReason := []\<rparr>)"
    if "find (\<lambda>s. sess_ID s = i) ss = Some sess" for ss
    using that assms(3) by (induction ss) (auto split: if_splits)
  then show ?thesis
    using assms pos by (simp add: MarkQueued_def op_simps db_healthy MarkUploadSessionQueued_def find_session_def)
qed

text \<open>C2. Splitting a file into the chunks of its session, uploading them in any order with
  repetitions, queueing the session and reading the assembler through buffers of any positive
  sizes gives back the file, then end of file.\<close>

theorem upload_roundtrip:
  assumes "awaiting s l file sess u w" "area_ready l (sess_ID sess) (blobs w)"
    "\<forall>(n, r)\<in>set puts. n < chunk_total sess \<and> drain r = (chunk_of (sess_ChunkSize sess) file n, EOF)"
    "fst ` set puts = {..<chunk_total sess}"
    "list_all (\<lambda>k. 0 < k) ks" "length file < length ks"
  shows "\<exists>sts w1 w2 a. put_all s (sess_ID sess) u puts w = (Inr sts, w1) \<and>
    ValidateComplete s (sess_ID sess) u w1 = (Inr sess, w1) \<and>
    MarkQueued (sess_ID sess) w1 = (Inr True, w2) \<and>
    Assemble s (sess_ID sess) w2 =
      (Inr (sess\<lparr>sess_State := StateQueued, sess_FailureReason := []\<rparr>, a), w2) \<and>
    assembler_reads l ks a (blobs w2) = (file, Some EOF)"
proof -
  let ?i = "sess_ID sess" and ?q = "sess\<lparr>sess_State := StateQueued, sess_FailureReason := []\<rparr>"
  have "chunks_present l ?i (sess_ChunkSize sess) file {} w" by (simp add: chunks_present_def)
  from put_all_accepted [OF assms(1,2) this assms(3)] assms(4)
  obtain sts w1 where puts: "put_all s ?i u puts w = (Inr sts, w1)" and a1: "awaiting s l file sess u w1"
    and r1: "area_ready l ?i (blobs w1)"
    and p1: "chunks_present l ?i (sess_ChunkSize sess) file {..<chunk_total sess} w1" by auto
  have sz: "sess_TotalSize sess = int (length file)" "sane_size (int (length file)) (sess_ChunkSize sess)"
    and h1: "w_faults w1 = []" "svc_blobs s = Some l" "find_session ?i (sessions w1) = Some sess"
      "sess_UserID sess = u" "sess_State sess = StateActive"
    using a1 by (simp_all add: awaiting_def)
  have v: "ValidateComplete s ?i u w1 = (Inr sess, w1)"
    using h1 checkChunksComplete_present [OF h1(1) sz p1]
    by (simp add: ValidateComplete_def op_simps session_healthy)
  obtain w2 where q: "MarkQueued ?i w1 = (Inr True, w2)" and h2: "w_faults w2 = []" "blobs w2 = blobs w1"
    "upload_chunks w2 = upload_chunks w1" "find_session ?i (sessions w2) = Some ?q"
    using MarkQueued_active [OF h1(1,3,5)] by auto
  have p2: "chunks_present l (sess_ID ?q) (sess_ChunkSize ?q) file {..<chunk_total ?q} w2"
    using p1 h2 by (simp add: chunks_present_def)
  have chk: "checkChunksComplete ?q w2 = (Inr (), w2)"
    using checkChunksComplete_present [OF h2(1) _ _ p2] sz by simp
  let ?a = "\<lparr>asm_uploadID = ?i, asm_total = chunk_total sess, asm_idx = 0, asm_cur = None\<rparr>"
  have asm: "Assemble s ?i w2 = (Inr (?q, ?a), w2)"
    using h1(2) h2 chk by (simp add: Assemble_def op_simps db_healthy GetUploadSession_def Finalizing_def)
  have rest: "asm_rest (chunk_of (sess_ChunkSize sess) file) ?a = file"
    using all_chunks_file [OF sz] by (simp add: asm_rest_def)
  have "assembler_reads l ks ?a (blobs w2) = (file, Some EOF)"
    using assembler_reads_all [of l ?a "chunk_of (sess_ChunkSize sess) file" "blobs w2" ks]
      holds_chunks_present [OF sz r1 p1] assms(5,6) rest h2(2) by (simp add: asm_good_def)
  with puts v q asm show ?thesis by blast
qed

text \<open>A concrete upload: five bytes in chunks of two, sent out of order, one of them twice.\<close>

definition demo_id :: string where "demo_id = ''0f8fad5b-d9cb-469f-a165-70867728950e''"

definition demo_session :: UploadSession where
  "demo_session = \<lparr>sess_ID = demo_id, sess_VideoID = ''v'', sess_UserID = ''alice'', sess_Filename = ''a.mp4'',
     sess_TotalSize = 5, sess_ChunkSize = 2, sess_State = StateActive, sess_FailureReason = [],
     sess_ExpiresAt = SessionTTL, sess_FileFingerprint = [], sess_Purpose = PurposeUpload\<rparr>"

definition demo_world :: upload_world where
  "demo_world = \<lparr>w_now = 0, w_faults = [], video_channel = [(''v'', ''c'')], sessions = [demo_session],
     upload_chunks = [], finalize_jobs = [], blobs = \<lparr>entries = [([], Dir), ([''srv''], Dir)], failures = []\<rparr>\<rparr>"

definition demo_service :: upload_Service where
  "demo_service = WithChunkSize 2 (NewService (Some demo_root))"

definition demo_puts :: "(nat \<times> body_error reader) list" where
  "demo_puts = [(2, Body [''e''] EOF True), (0, Body [''a'', '''', ''b''] EOF False), (1, Body [''cd''] EOF True),
     (0, Body [''ab''] EOF True)]"

lemma demo_awaiting: "awaiting demo_service demo_root ''abcde'' demo_session ''alice'' demo_world"
  by (simp add: awaiting_def demo_service_def demo_session_def demo_world_def NewService_def WithChunkSize_def
      uuid_text_def demo_id_def find_session_def sane_size_def totalChunks_def wrap64_def signed_divide_int_def)

lemma demo_area: "area_ready demo_root demo_id (blobs demo_world)"
proof -
  have p: "plain_segment demo_id" by (simp add: plain_segment_def demo_id_def)
  have "local_ready demo_root (blobs demo_world) (chunkKey demo_id n)" if "0 \<le> n" for n
    using canonical_chunkKey [OF p that]
    by (auto simp: local_ready_def local_reach_def writable_def through_file_iff clean_root_def
        demo_root_def demo_world_def)
  then show ?thesis by (simp add: area_ready_def)
qed

theorem upload_roundtrip_witness:
  "\<exists>sts w1 w2 a. put_all demo_service demo_id ''alice'' demo_puts demo_world = (Inr sts, w1) \<and>
    ValidateComplete demo_service demo_id ''alice'' w1 = (Inr demo_session, w1) \<and>
    MarkQueued demo_id w1 = (Inr True, w2) \<and>
    Assemble demo_service demo_id w2 =
      (Inr (demo_session\<lparr>sess_State := StateQueued, sess_FailureReason := []\<rparr>, a), w2) \<and>
    assembler_reads demo_root [1, 2, 3, 1, 1, 1] a (blobs w2) = (''abcde'', Some EOF)"
proof -
  have i: "sess_ID demo_session = demo_id" by (simp add: demo_session_def)
  have t: "chunk_total demo_session = 3"
    by (simp add: demo_session_def totalChunks_def wrap64_def signed_divide_int_def)
  have "\<forall>(n, r)\<in>set demo_puts. n < chunk_total demo_session \<and>
      drain r = (chunk_of (sess_ChunkSize demo_session) ''abcde'' n, EOF)"
    unfolding t by (simp add: demo_puts_def demo_session_def chunk_of_def)
  moreover have "fst ` set demo_puts = {..<chunk_total demo_session}"
    unfolding t by (auto simp: demo_puts_def)
  ultimately show ?thesis
    using upload_roundtrip [OF demo_awaiting _ _ _, of demo_puts "[1, 2, 3, 1, 1, 1]"] demo_area
    by (simp add: i)
qed

end
