(* ===== verification/Upload_Sessions.thy ===== *)
theory Upload_Sessions
  imports Upload_Roundtrip
begin

text \<open>
  Guards and life cycle of upload sessions: ownership, the bound on a chunk's body, the cap on
  active sessions, the sweeper, and the state machine. The statements hold for every schedule of
  database and storage failures unless they say that no call fails.
\<close>

section \<open>Calls that may fail\<close>

lemma db_cases:
  obtains (fault) fs where "db q w = (Inl (Db ErrDB), w\<lparr>w_faults := fs\<rparr>)"
  | (run) a w' where "q (w\<lparr>w_faults := tl (w_faults w)\<rparr>) = (a, w')" "db q w = (Inr a, w')"
proof (cases rule: repo_cases [of w q])
  case (fault fs)
  then show ?thesis using that(1) by (simp add: db_def op_simps)
next
  case (run a w')
  then show ?thesis using that(2) by (simp add: db_def op_simps)
qed

lemma dbE_cases:
  obtains (fault) fs where "dbE q w = (Inl (Db ErrDB), w\<lparr>w_faults := fs\<rparr>)"
  | (refused) e w' where "q (w\<lparr>w_faults := tl (w_faults w)\<rparr>) = (Inl e, w')" "dbE q w = (Inl (Db e), w')"
  | (run) a w' where "q (w\<lparr>w_faults := tl (w_faults w)\<rparr>) = (Inr a, w')" "dbE q w = (Inr a, w')"
proof -
  consider (f) fs where "w_faults w = True # fs" | (g) "\<forall>fs. w_faults w \<noteq> True # fs" by blast
  then show ?thesis
  proof cases
    case f
    then show ?thesis using fault by (simp add: dbE_def catchE_def repoE_def throwE_def)
  next
    case g
    then have r: "repoE q w = q (w\<lparr>w_faults := tl (w_faults w)\<rparr>)"
      by (auto simp: repoE_def split: list.splits bool.splits)
    obtain x w' where q: "q (w\<lparr>w_faults := tl (w_faults w)\<rparr>) = (x, w')" by fastforce
    then show ?thesis
      using r refused run by (cases x) (simp_all add: dbE_def catchE_def throwE_def retE_def)
  qed
qed

text \<open>Equality of everything but the schedule of failures.\<close>

definition same_data :: "upload_world \<Rightarrow> upload_world \<Rightarrow> bool" where
  "same_data w w' \<longleftrightarrow> w\<lparr>w_faults := []\<rparr> = w'\<lparr>w_faults := []\<rparr>"

lemma same_data_faults [simp]: "same_data w (w\<lparr>w_faults := fs\<rparr>)"
  by (simp add: same_data_def)

section \<open>Ownership\<close>

definition owns :: "string \<Rightarrow> string \<Rightarrow> upload_world \<Rightarrow> bool" where
  "owns u i w \<longleftrightarrow> (\<exists>sess. find_session i (sessions w) = Some sess \<and> sess_UserID sess = u)"

lemma session_not_owner:
  assumes "\<not> owns u i w"
  shows "\<exists>w'. session i u w = (Inl ErrNotFound, w') \<and> same_data w w'"
proof (cases rule: db_cases [of "GetUploadSession i" w])
  case (fault fs)
  then show ?thesis by (simp add: session_def)
next
  case (run a w')
  then have "a = find_session i (sessions w)" "w' = w\<lparr>w_faults := tl (w_faults w)\<rparr>"
    by (simp_all add: GetUploadSession_def)
  then show ?thesis
    using run assms by (auto simp: session_def owns_def split: option.splits)
qed

text \<open>C13. To a user who does not own the session, status, chunk upload, completion and cancel all
  answer not found and change neither sessions, chunks, jobs nor blobs.\<close>

theorem foreign_session_hidden:
  assumes "\<not> owns u i w" "svc_blobs s = Some l"
  shows "(\<exists>w'. StatusFor i u w = (Inl ErrNotFound, w') \<and> same_data w w') \<and>
    (\<exists>w'. PutChunk s i u n r w = (Inl ErrNotFound, w') \<and> same_data w w') \<and>
    (\<exists>w'. ValidateComplete s i u w = (Inl ErrNotFound, w') \<and> same_data w w') \<and>
    (\<exists>w'. Cancel s i u w = (Inl ErrNotFound, w') \<and> same_data w w')"
  using session_not_owner [OF assms(1)] assms(2)
  by (auto simp: StatusFor_def PutChunk_def ValidateComplete_def Cancel_def Cancel_write_def op_simps)

theorem foreign_session_hidden_witness:
  "\<not> owns ''mallory'' demo_id demo_world \<and>
   (\<exists>w'. StatusFor demo_id ''mallory'' demo_world = (Inl ErrNotFound, w') \<and> same_data demo_world w') \<and>
   (\<exists>w'. PutChunk demo_service demo_id ''mallory'' 0 (Body [''ab''] EOF True) demo_world = (Inl ErrNotFound, w') \<and> same_data demo_world w') \<and>
   (\<exists>w'. ValidateComplete demo_service demo_id ''mallory'' demo_world = (Inl ErrNotFound, w') \<and> same_data demo_world w') \<and>
   (\<exists>w'. Cancel demo_service demo_id ''mallory'' demo_world = (Inl ErrNotFound, w') \<and> same_data demo_world w')"
proof -
  have a: "\<not> owns ''mallory'' demo_id demo_world"
    by (simp add: owns_def demo_world_def find_session_def demo_session_def)
  have b: "svc_blobs demo_service = Some demo_root"
    by (simp add: demo_service_def NewService_def WithChunkSize_def)
  show ?thesis using a foreign_session_hidden [OF a b] by blast
qed

section \<open>The bound on a chunk's body\<close>

lemma on_blobs_healthy_put:
  assumes "failures (blobs w) = []" "local_ready l (blobs w) k"
    "drain r = (c, Failing e)"
  shows "\<exists>fs. on_blobs (Local_Put l k r) w = (Inl (Storage (Unclassified (Reader e))), w\<lparr>blobs := fs\<rparr>) \<and>
    local_stored l fs k = None \<and> grows_to (root l @ segments k) (blobs w) fs"
proof -
  have r: "resolve l k = (Inr (root l @ segments k) :: body_error storage_error + path)"
    "writable (blobs w) (root l @ segments k)"
    using assms(2) by (simp_all add: local_ready_def local_reach_def canonical_resolve)
  obtain res fs where put: "Local_Put l k r (blobs w) = (res, fs)" by fastforce
  from Put_healthy [OF r(1) assms(1) r(2) put] assms(3)
  have "res = Inl (classifyLocal ''put'' (Reader e))" "node_at fs (root l @ segments k) = None" by simp_all
  then show ?thesis
    using put Put_frame [OF r(1) put]
    by (intro exI [of _ fs]) (simp add: on_blobs_def classifyLocal_def local_stored_def)
qed

text \<open>A chunk body longer than the session expects is refused as too large, however it is cut up
  and however it ends; the partial blob is removed, the ledger and every other chunk stay.\<close>

theorem oversized_chunk_refused:
  assumes "awaiting s l file sess u w" "area_ready l (sess_ID sess) (blobs w)" "n < chunk_total sess"
    "drain r = (c, fin)" "chunkExpectedSize (sess_TotalSize sess) (sess_ChunkSize sess) (int n) = Some e"
    "e < int (length c)"
  shows "\<exists>w'. PutChunk s (sess_ID sess) u (int n) r w = (Inl ErrChunkTooLarge, w') \<and>
    sessions w' = sessions w \<and> upload_chunks w' = upload_chunks w \<and>
    local_stored l (blobs w') (chunkKey (sess_ID sess) (int n)) = None \<and>
    (\<forall>m. m \<noteq> int n \<longrightarrow> 0 \<le> m \<longrightarrow>
       local_stored l (blobs w') (chunkKey (sess_ID sess) m) = local_stored l (blobs w) (chunkKey (sess_ID sess) m))"
proof -
  let ?i = "sess_ID sess" and ?k = "chunkKey (sess_ID sess) (int n)"
  have h: "w_faults w = []" "svc_blobs s = Some l" "find_session ?i (sessions w) = Some sess"
    "sess_UserID sess = u" "sess_State sess = StateActive" "plain_segment ?i"
    using assms(1) plain_uuid by (simp_all add: awaiting_def)
  have rdy: "local_ready l (blobs w) ?k" using assms(2) by (simp add: area_ready_def)
  then have hf: "failures (blobs w) = []" by (simp add: local_ready_def local_reach_def)
  have "0 < e" using chunkExpectedSize_pos(1) [OF _ assms(5)] assms(1) by (simp add: awaiting_def)
  then have "drain (Capped e TooLarge r) = (take (nat (e + 1)) c, Failing TooLarge)"
    using assms(4,6) by simp
  from on_blobs_healthy_put [OF hf rdy this] obtain fs where
    put: "on_blobs (Local_Put l ?k (Capped e TooLarge r)) w =
      (Inl (Storage (Unclassified (Reader TooLarge))), w\<lparr>blobs := fs\<rparr>)"
    and gone: "local_stored l fs ?k = None" and frame: "grows_to (root l @ segments ?k) (blobs w) fs" by blast
  have "local_stored l fs (chunkKey ?i m) = local_stored l (blobs w) (chunkKey ?i m)"
    if "m \<noteq> int n" "0 \<le> m" for m
  proof -
    have "segments (chunkKey ?i m) \<noteq> segments ?k"
      using canonical_chunkKey(2) [OF h(6)] that Itoa_inj [of m "int n"] by auto
    then have "root l @ segments (chunkKey ?i m) \<noteq> root l @ segments ?k" by simp
    from grows_to_file(1,2) [OF frame this] show ?thesis by (auto simp: local_stored_def file_content)
  qed
  moreover have "PutChunk s ?i u (int n) r w = (Inl ErrChunkTooLarge, w\<lparr>blobs := fs\<rparr>)"
    using h assms(5) put by (simp add: PutChunk_def op_simps session_healthy put_error_def)
  ultimately show ?thesis using gone by simp
qed

theorem oversized_chunk_refused_witness:
  "\<exists>w'. PutChunk demo_service (sess_ID demo_session) ''alice'' (int 0) (Body [''ab'', ''cd''] EOF True) demo_world =
      (Inl ErrChunkTooLarge, w') \<and>
    sessions w' = sessions demo_world \<and> upload_chunks w' = upload_chunks demo_world \<and>
    local_stored demo_root (blobs w') (chunkKey (sess_ID demo_session) (int 0)) = None \<and>
    (\<forall>m. m \<noteq> int 0 \<longrightarrow> 0 \<le> m \<longrightarrow>
       local_stored demo_root (blobs w') (chunkKey (sess_ID demo_session) m) =
       local_stored demo_root (blobs demo_world) (chunkKey (sess_ID demo_session) m))"
proof (rule oversized_chunk_refused [OF demo_awaiting])
  show "area_ready demo_root (sess_ID demo_session) (blobs demo_world)"
    using demo_area by (simp add: demo_session_def)
  show "0 < chunk_total demo_session" "int (length ''abcd'') > 2"
    by (simp_all add: demo_session_def totalChunks_def wrap64_def signed_divide_int_def)
  show "chunkExpectedSize (sess_TotalSize demo_session) (sess_ChunkSize demo_session) (int 0) = Some 2" by code_simp
  show "drain (Body [''ab'', ''cd''] EOF True) = (''abcd'', EOF)" by simp
qed

section \<open>A chunk sent again with the wrong length\<close>

lemma Delete_stored:
  assumes "local_reach l fs k" "local_stored l fs k = Some c"
  shows "Local_Delete l k fs = (Inr (), drop_nodes (\<lambda>q. q = root l @ segments k) fs)"
  using assms
  by (auto simp: Local_Delete_def remove_def local_reach_def local_stored_def canonical_resolve fs_simps
      split: option.splits node.splits)

text \<open>Re-sending a chunk of a complete session with too few bytes is refused, removes the stored
  chunk and leaves its row: the session still validates as complete although its chunk is gone.\<close>

theorem short_reput_keeps_ledger:
  assumes "awaiting s l file sess u w" "area_ready l (sess_ID sess) (blobs w)"
    "chunks_present l (sess_ID sess) (sess_ChunkSize sess) file {..<chunk_total sess} w"
    "n < chunk_total sess" "drain r = (c, EOF)" "length c < length (chunk_of (sess_ChunkSize sess) file n)"
  shows "\<exists>w'. PutChunk s (sess_ID sess) u (int n) r w = (Inl ErrChunkSize, w') \<and>
    ValidateComplete s (sess_ID sess) u w' = (Inr sess, w') \<and>
    local_stored l (blobs w') (chunkKey (sess_ID sess) (int n)) = None"
proof -
  let ?i = "sess_ID sess" and ?k = "chunkKey (sess_ID sess) (int n)"
  let ?e = "int (length (chunk_of (sess_ChunkSize sess) file n))"
  have h: "w_faults w = []" "svc_blobs s = Some l" "find_session ?i (sessions w) = Some sess"
    "sess_UserID sess = u" "sess_State sess = StateActive" "plain_segment ?i"
    and sz: "sess_TotalSize sess = int (length file)" "sane_size (int (length file)) (sess_ChunkSize sess)"
    using assms(1) plain_uuid by (simp_all add: awaiting_def)
  have rdy: "local_ready l (blobs w) ?k" using assms(2) by (simp add: area_ready_def)
  have "int n < totalChunks (int (length file)) (sess_ChunkSize sess)" using assms(4) unfolding sz(1) by linarith
  then have e: "chunkExpectedSize (sess_TotalSize sess) (sess_ChunkSize sess) (int n) = Some ?e"
    using length_chunk_of [OF sz(2)] sz(1) by simp
  have "drain (Capped ?e TooLarge r) = (c, EOF)" using assms(5,6) by simp
  note put = Put_place [OF rdy this]
  let ?fs = "local_place l ?k c (blobs w)"
  have "area_ready l ?i ?fs" by (rule area_place [OF h(6) assms(2)]) simp
  then have "local_reach l ?fs ?k" by (simp add: area_ready_def local_ready_def)
  moreover have "local_stored l ?fs ?k = Some c"
    using local_stored_place [OF rdy canonical_chunkKey(1) [OF h(6)]] by simp
  ultimately have del: "(Local_Delete l ?k ?fs :: (body_error storage_error + unit) \<times> filesystem) =
      (Inr (), drop_nodes (\<lambda>q. q = root l @ segments ?k) ?fs)"
    by (rule Delete_stored)
  let ?w = "w\<lparr>blobs := drop_nodes (\<lambda>q. q = root l @ segments ?k) ?fs\<rparr>"
  have refused: "PutChunk s ?i u (int n) r w = (Inl ErrChunkSize, ?w)"
    using h e put del assms(6) by (simp add: PutChunk_def op_simps session_healthy on_blobs_def)
  have "checkChunksComplete sess ?w = (Inr (), ?w)"
  proof -
    have "checkChunksComplete sess w = (Inr (), w)"
      by (rule checkChunksComplete_present [OF h(1) sz assms(3)])
    then show ?thesis
      using h(1) by (simp add: checkChunksComplete_def op_simps db_healthy ListUploadChunks_def split: if_splits)
  qed
  then have "ValidateComplete s ?i u ?w = (Inr sess, ?w)"
    using h by (simp add: ValidateComplete_def op_simps session_healthy)
  moreover have "local_stored l (blobs ?w) ?k = None" by (simp add: local_stored_def)
  ultimately show ?thesis using refused by blast
qed

lemma demo_uploaded:
  obtains w where "awaiting demo_service demo_root ''abcde'' demo_session ''alice'' w"
    "area_ready demo_root (sess_ID demo_session) (blobs w)"
    "chunks_present demo_root (sess_ID demo_session) (sess_ChunkSize demo_session) ''abcde'' {..<chunk_total demo_session} w"
proof -
  have t: "chunk_total demo_session = 3"
    by (simp add: demo_session_def totalChunks_def wrap64_def signed_divide_int_def)
  have p: "\<forall>(n, r)\<in>set demo_puts. n < chunk_total demo_session \<and>
      drain r = (chunk_of (sess_ChunkSize demo_session) ''abcde'' n, EOF)"
    unfolding t by (simp add: demo_puts_def demo_session_def chunk_of_def)
  have c: "fst ` set demo_puts = {..<chunk_total demo_session}" unfolding t by (auto simp: demo_puts_def)
  have a: "area_ready demo_root (sess_ID demo_session) (blobs demo_world)"
    using demo_area by (simp add: demo_session_def)
  have e: "chunks_present demo_root (sess_ID demo_session) (sess_ChunkSize demo_session) ''abcde'' {} demo_world"
    by (simp add: chunks_present_def)
  show ?thesis using put_all_accepted [OF demo_awaiting a e p] c that by auto
qed

theorem short_reput_keeps_ledger_witness:
  "\<exists>w w'. PutChunk demo_service (sess_ID demo_session) ''alice'' (int 0) (Body [''a''] EOF True) w = (Inl ErrChunkSize, w') \<and>
    ValidateComplete demo_service (sess_ID demo_session) ''alice'' w' = (Inr demo_session, w') \<and>
    local_stored demo_root (blobs w') (chunkKey (sess_ID demo_session) (int 0)) = None"
proof -
  obtain w where "awaiting demo_service demo_root ''abcde'' demo_session ''alice'' w"
    "area_ready demo_root (sess_ID demo_session) (blobs w)"
    "chunks_present demo_root (sess_ID demo_session) (sess_ChunkSize demo_session) ''abcde'' {..<chunk_total demo_session} w"
    by (rule demo_uploaded)
  moreover have "0 < chunk_total demo_session"
    by (simp add: demo_session_def totalChunks_def wrap64_def signed_divide_int_def)
  moreover have "drain (Body [''a''] (EOF :: body_error read_end) True) = (''a'', EOF)" by simp
  moreover have "length ''a'' < length (chunk_of (sess_ChunkSize demo_session) ''abcde'' 0)"
    by (simp add: demo_session_def chunk_of_def)
  ultimately show ?thesis by (blast dest: short_reput_keeps_ledger)
qed

section \<open>The sweeper\<close>

text \<open>What a finalize job still needs of a session: its row, its ledger and its chunks.\<close>

definition job_input :: "Local \<Rightarrow> string \<Rightarrow> upload_world \<Rightarrow>
    UploadSession option \<times> (int \<times> int) list \<times> (int \<Rightarrow> string option) \<times> bool" where
  "job_input l i w = (find_session i (sessions w), chunk_rows i (upload_chunks w),
     (\<lambda>n. if 0 \<le> n then local_stored l (blobs w) (chunkKey i n) else None), queue_has_live i (finalize_jobs w))"

lemma deleteChunks_other:
  assumes "svc_blobs s = Some l" "clean_root (root l)" "plain_segment i" "plain_segment j" "i \<noteq> j"
  shows "job_input l i (deleteChunks s j w) = job_input l i w"
proof -
  let ?p = "root l @ segments (chunkPrefix j)"
  have res: "resolve l (chunkPrefix j) = (Inr ?p :: body_error storage_error + path)"
    using canonical_resolve [OF assms(2) canonical_chunkPrefix(1) [OF assms(4)]] .
  have kept: "local_stored l (drop_nodes (prefix ?p) fs) (chunkKey i n) = local_stored l fs (chunkKey i n)"
    if "0 \<le> n" for n fs
    using canonical_chunkKey(2) [OF assms(3) that] canonical_chunkPrefix(2) [OF assms(4)] assms(5)
    by (simp add: local_stored_def)
  obtain r fs where ra: "RemoveAll ?p (blobs w) = (r, fs)" by fastforce
  have "entries fs = entries (blobs w) \<or> entries fs = entries (drop_nodes (prefix ?p) (blobs w))"
    using ra unfolding RemoveAll_def syscall_def
    by (auto simp: drop_nodes_def split: list.splits option.splits if_splits)
  then have "local_stored l fs (chunkKey i n) = local_stored l (blobs w) (chunkKey i n)" if "0 \<le> n" for n
    using kept [OF that, of "blobs w"] by (auto simp: local_stored_def)
  moreover have "deleteChunks s j w = w\<lparr>blobs := fs\<rparr>"
    using assms(1) res ra
    by (cases r) (simp_all add: deleteChunks_def ignoreE_def on_blobs_def Local_DeletePrefix_def)
  ultimately show ?thesis by (auto simp: job_input_def)
qed

lemma DeleteUploadSession_other:
  assumes "i \<noteq> j"
  shows "job_input l i (snd (DeleteUploadSession j w)) = job_input l i w"
proof -
  have "find_session i (filter (\<lambda>s. sess_ID s \<noteq> j) ss) = find_session i ss" for ss
    using assms by (induction ss) (auto simp: find_session_def)
  moreover have "filter (\<lambda>c. chunk_upload c = i) (filter (\<lambda>c. chunk_upload c \<noteq> j) cs) = filter (\<lambda>c. chunk_upload c = i) cs" for cs :: "chunk_row list"
    using assms by (induction cs) auto
  moreover have "queue_has_live i (filter (\<lambda>x. job_key x \<noteq> j) q) = queue_has_live i q" for q :: "finalize_payload queue"
    using assms by (induction q) (auto simp: queue_has_live_def)
  ultimately show ?thesis
    by (simp add: job_input_def DeleteUploadSession_def chunk_rows_def del: filter_filter cong: if_cong)
qed

lemma job_input_faults [simp]: "job_input l i (w\<lparr>w_faults := fs\<rparr>) = job_input l i w"
  by (simp add: job_input_def cong: if_cong)

lemma sweep_loop_other:
  assumes "svc_blobs s = Some l" "clean_root (root l)" "plain_segment i" "\<forall>j\<in>set ids. plain_segment j \<and> j \<noteq> i"
  shows "job_input l i (snd (sweep_loop s ids k w)) = job_input l i w"
  using assms(4)
proof (induction ids arbitrary: k w)
  case (Cons j ids)
  then have j: "plain_segment j" "i \<noteq> j" by auto
  note del = deleteChunks_other [OF assms(1-3) j, of w]
  show ?case
  proof (cases rule: db_cases [of "DeleteUploadSession j" "deleteChunks s j w"])
    case (fault fs)
    then show ?thesis using del by simp
  next
    case (run a w')
    then have "job_input l i w' = job_input l i w"
      using DeleteUploadSession_other [OF j(2), of l "(deleteChunks s j w)\<lparr>w_faults := tl (w_faults (deleteChunks s j w))\<rparr>"] del
      by simp
    then show ?thesis using run Cons by simp
  qed
qed simp

text \<open>C14. The sweeper, however it fails half way, leaves the session, the chunk rows and the stored
  chunks of an upload whose finalize job is live as they were.\<close>

theorem sweep_spares_live_job:
  assumes "svc_blobs s = Some l" "clean_root (root l)" "uuid_text i" "\<forall>sess\<in>set (sessions w). uuid_text (sess_ID sess)"
    "queue_has_live i (finalize_jobs w)"
  shows "job_input l i (snd (Sweep s limit w)) = job_input l i w"
proof (cases rule: dbE_cases [of "ListSweepableUploadSessions (wrap32 limit)" w])
  case (fault fs)
  then show ?thesis by (simp add: Sweep_def)
next
  case (refused e w')
  then show ?thesis by (auto simp: Sweep_def ListSweepableUploadSessions_def)
next
  case (run ids w')
  then have w': "w' = w\<lparr>w_faults := tl (w_faults w)\<rparr>"
    and ids: "set ids \<subseteq> sess_ID ` set (filter (sweepable (w\<lparr>w_faults := tl (w_faults w)\<rparr>)) (sessions w))"
    by (auto simp: ListSweepableUploadSessions_def split: if_splits dest!: in_set_takeD)
  have "plain_segment j \<and> j \<noteq> i" if "j \<in> set ids" for j
    using that ids assms(4,5) plain_uuid by (force simp: sweepable_def)
  then show ?thesis
    using run sweep_loop_other [OF assms(1,2) plain_uuid [OF assms(3)]] w' by (simp add: Sweep_def)
qed

definition demo_sweep_world :: upload_world where
  "demo_sweep_world = demo_world\<lparr>w_now := 2 * SessionTTL,
     sessions := [demo_session\<lparr>sess_State := StateProcessing\<rparr>,
       demo_session\<lparr>sess_ID := ''1f8fad5b-d9cb-469f-a165-70867728950e'', sess_State := StateCancelled\<rparr>],
     finalize_jobs := [\<lparr>job_id = ''j'', job_key = demo_id,
       job_payload = \<lparr>fj_VideoID = ''v'', fj_Purpose = PurposeUpload, fj_CanManage = False\<rparr>,
       job_state = Running, job_attempts = 0, job_next = 0, job_error = []\<rparr>]\<rparr>"

theorem sweep_spares_live_job_witness:
  "job_input demo_root demo_id (snd (Sweep demo_service 10 demo_sweep_world)) =
     job_input demo_root demo_id demo_sweep_world \<and>
   map sess_ID (sessions (snd (Sweep demo_service 10 demo_sweep_world))) = [demo_id]"
proof (rule conjI)
  show "job_input demo_root demo_id (snd (Sweep demo_service 10 demo_sweep_world)) =
     job_input demo_root demo_id demo_sweep_world"
    by (rule sweep_spares_live_job)
      (simp_all add: demo_service_def NewService_def WithChunkSize_def clean_root_def demo_root_def uuid_text_def
        demo_id_def demo_sweep_world_def demo_session_def queue_has_live_def live_def)
qed code_simp

section \<open>The cap on active sessions\<close>

definition active_count :: "string \<Rightarrow> upload_world \<Rightarrow> nat" where
  "active_count u w = length (filter (active_session (w_now w) u) (sessions w))"

definition effective_cap :: "upload_Service \<Rightarrow> int" where
  "effective_cap s = (case svc_maxActiveSessionsFn s of Some n \<Rightarrow> n | None \<Rightarrow> svc_maxActiveSessions s)"

definition create_insert :: "UploadSession \<Rightarrow> string \<Rightarrow> UploadSession upload_op" where
  "create_insert sess channel = bindE (dbE (CreateUploadSession sess channel))
     (\<lambda>r. case r of None \<Rightarrow> throwE ErrVideoChanged | Some sess \<Rightarrow> retE sess)"

lemma create_insert_sessions:
  "sessions (snd (create_insert sess ch w)) \<in> {sessions w, sessions w @ [sess]} \<and>
   w_now (snd (create_insert sess ch w)) = w_now w \<and> video_channel (snd (create_insert sess ch w)) = video_channel w"
proof (cases rule: dbE_cases [of "CreateUploadSession sess ch" w])
  case (run a w')
  then show ?thesis
    by (auto simp: create_insert_def bindE_def CreateUploadSession_def throwE_def retE_def split: if_splits)
qed (auto simp: create_insert_def bindE_def CreateUploadSession_def split: if_splits)

lemma create_insert_result:
  "create_insert sess ch w = (Inr r, w') \<Longrightarrow> r = sess \<and> sessions w' = sessions w @ [sess] \<and>
     (sess_VideoID sess, ch) \<in> set (video_channel w) \<and> 0 < sess_TotalSize sess"
  by (cases rule: dbE_cases [of "CreateUploadSession sess ch" w])
    (auto simp: create_insert_def bindE_def CreateUploadSession_def throwE_def retE_def split: if_splits)

lemma CreateSession_cases:
  obtains (early) e fs where "CreateSession s i v ch u name z fp p w = (Inl e, w\<lparr>w_faults := fs\<rparr>)"
  | (insert) sess fs where "CreateSession s i v ch u name z fp p w = create_insert sess ch (w\<lparr>w_faults := fs\<rparr>)"
      "sess_ID sess = i" "sess_UserID sess = u" "sess_State sess = StateActive" "sess_VideoID sess = v"
      "sess_ExpiresAt sess = w_now w + SessionTTL"
      "0 < effective_cap s \<Longrightarrow> int (active_count u w) < effective_cap s"
proof -
  let ?sess = "\<lparr>sess_ID = i, sess_VideoID = v, sess_UserID = u, sess_Filename = name,
               sess_TotalSize = z, sess_ChunkSize = svc_chunkSize s, sess_State = StateActive,
               sess_FailureReason = [], sess_ExpiresAt = w_now w + SessionTTL,
               sess_FileFingerprint = fp, sess_Purpose = if p \<noteq> PurposeReplace then PurposeUpload else p\<rparr>"
  show ?thesis
  proof (cases "effective_cap s > 0")
    case False
    then have "CreateSession s i v ch u name z fp p w = create_insert ?sess ch (w\<lparr>w_faults := w_faults w\<rparr>)"
      by (simp add: CreateSession_def create_insert_def effective_cap_def Let_def)
    then show ?thesis using False insert [of ?sess "w_faults w"] by simp
  next
    case True
    show ?thesis
    proof (cases rule: db_cases [of "CountActiveUploadSessionsForUser u" w])
      case (fault fs)
      then show ?thesis
        using True early by (simp add: CreateSession_def effective_cap_def Let_def bindE_def)
    next
      case (run a w')
      then have a: "a = active_count u w" "w' = w\<lparr>w_faults := tl (w_faults w)\<rparr>"
        by (simp_all add: CountActiveUploadSessionsForUser_def active_count_def)
      show ?thesis
      proof (cases "int a \<ge> effective_cap s")
        case full: True
        then show ?thesis
          using True run a early by (simp add: CreateSession_def effective_cap_def Let_def bindE_def guardE_def throwE_def)
      next
        case False
        then have "CreateSession s i v ch u name z fp p w = create_insert ?sess ch (w\<lparr>w_faults := tl (w_faults w)\<rparr>)"
          using True run a
          by (simp add: CreateSession_def create_insert_def effective_cap_def Let_def bindE_def guardE_def)
        then show ?thesis using False a(1) insert [of ?sess "tl (w_faults w)"] by simp
      qed
    qed
  qed
qed

text \<open>When a cap on concurrent sessions is set, creating a session never lets any user's active
  sessions exceed it.\<close>

theorem active_sessions_capped:
  assumes "0 < effective_cap s" "int (active_count u' w) \<le> effective_cap s"
  shows "int (active_count u' (snd (CreateSession s i v ch u name z fp p w))) \<le> effective_cap s"
proof (cases rule: CreateSession_cases [of s i v ch u name z fp p w])
  case (early e fs)
  then show ?thesis using assms(2) by (simp add: active_count_def)
next
  case (insert sess fs)
  let ?w = "snd (create_insert sess ch (w\<lparr>w_faults := fs\<rparr>))"
  have "active_count u' ?w \<le> active_count u' w + (if u' = u then 1 else 0)"
    using create_insert_sessions [of sess ch "w\<lparr>w_faults := fs\<rparr>"] insert(3)
    by (auto simp: active_count_def active_session_def)
  then show ?thesis using insert(1) insert(7) [OF assms(1)] assms(2) by (auto split: if_splits)
qed

definition demo_capped :: upload_Service where
  "demo_capped = WithMaxActiveSessions 1 demo_service"

theorem active_sessions_capped_witness:
  "let w' = snd (CreateSession demo_capped ''x'' ''v'' ''c'' ''bob'' ''f'' 9 [] [] demo_world) in
   int (active_count ''bob'' w') \<le> effective_cap demo_capped \<and> active_count ''bob'' w' = 1 \<and>
   fst (CreateSession demo_capped ''y'' ''v'' ''c'' ''bob'' ''f'' 9 [] [] w') = Inl ErrTooManyActiveSessions"
proof -
  let ?w = "snd (CreateSession demo_capped ''x'' ''v'' ''c'' ''bob'' ''f'' 9 [] [] demo_world)"
  have a: "0 < effective_cap demo_capped" "int (active_count ''bob'' demo_world) \<le> effective_cap demo_capped"
    by code_simp+
  have b: "active_count ''bob'' ?w = 1"
    "fst (CreateSession demo_capped ''y'' ''v'' ''c'' ''bob'' ''f'' 9 [] [] ?w) = Inl ErrTooManyActiveSessions"
    by code_simp+
  show ?thesis using active_sessions_capped [OF a, of "''x''" "''v''" "''c''" "''bob''" "''f''" 9 "[]" "[]"] b by simp
qed

section \<open>The life cycle\<close>

lemma keeps_db [keeps_rules]:
  "(\<And>v fs. f (v\<lparr>w_faults := fs\<rparr>) = f v) \<Longrightarrow> (\<And>v. f (snd (q v)) = f v) \<Longrightarrow> keeps f (db q)"
  unfolding db_def by (intro keeps_rules keeps_repo)

lemma keeps_dbE [keeps_rules]:
  "(\<And>v fs. f (v\<lparr>w_faults := fs\<rparr>) = f v) \<Longrightarrow> (\<And>v. f (snd (q v)) = f v) \<Longrightarrow> keeps f (dbE q)"
  unfolding dbE_def by (intro keeps_rules keeps_repoE)

lemma keeps_on_blobs [keeps_rules]: "(\<And>v fs. f (v\<lparr>blobs := fs\<rparr>) = f v) \<Longrightarrow> keeps f (on_blobs c)"
  by (simp add: keeps_def on_blobs_def split: prod.splits sum.splits)

lemma session_keeps_data: "same_data w (snd (session i u w))"
  by (cases rule: db_cases [of "GetUploadSession i" w])
    (auto simp: session_def GetUploadSession_def split: option.splits)

lemma session_found: "session i u w = (Inr sess, w') \<Longrightarrow> find_session i (sessions w) = Some sess \<and> sess_UserID sess = u"
  by (cases rule: db_cases [of "GetUploadSession i" w])
    (auto simp: session_def GetUploadSession_def split: option.splits if_splits)

lemma same_data_sessions: "same_data w w' \<Longrightarrow> sessions w' = sessions w"
  unfolding same_data_def by (cases w; cases w') simp

definition state_of :: "string \<Rightarrow> upload_world \<Rightarrow> SessionState option" where
  "state_of i w = map_option sess_State (find_session i (sessions w))"

lemma state_of_sessions: "sessions w' = sessions w \<Longrightarrow> state_of i w' = state_of i w"
  by (simp add: state_of_def)

lemma state_of_faults [simp]: "state_of i (w\<lparr>w_faults := fs\<rparr>) = state_of i w"
  by (simp add: state_of_def)

lemma keeps_session [keeps_rules]: "keeps sessions (session i u)"
  using session_keeps_data same_data_sessions by (simp add: keeps_def)

lemma keeps_ignoreE_blobs: "sessions (ignoreE (on_blobs c) w) = sessions w"
  by (simp add: ignoreE_def on_blobs_def split: prod.splits sum.splits)

lemma keeps_deleteChunks: "sessions (deleteChunks s i w) = sessions w"
  by (simp add: deleteChunks_def keeps_ignoreE_blobs split: option.splits)

lemma keeps_buildStatus [keeps_rules]: "keeps sessions (buildStatus sess)"
  unfolding buildStatus_def by (intro keeps_rules) (simp_all add: ListUploadChunks_def)

lemma keeps_PutChunk: "keeps sessions (PutChunk s i u n r)"
  unfolding PutChunk_def
  by (intro keeps_rules) (simp_all add: UpsertUploadChunk_def keeps_def keeps_ignoreE_blobs)

lemma keeps_StatusFor: "keeps sessions (StatusFor i u)"
  unfolding StatusFor_def by (intro keeps_rules)

lemma keeps_ValidateComplete: "keeps sessions (ValidateComplete s i u)"
  unfolding ValidateComplete_def checkChunksComplete_def
  by (intro keeps_rules) (simp_all add: ListUploadChunks_def)

lemma keeps_Assemble: "keeps sessions (Assemble s i)"
  unfolding Assemble_def checkChunksComplete_def
  by (intro keeps_rules) (simp_all add: ListUploadChunks_def GetUploadSession_def)

lemma find_session_map:
  assumes "\<And>s. sess_ID (f s) = sess_ID s"
  shows "find_session i (map (\<lambda>s. if P s then f s else s) ss) =
    map_option (\<lambda>s. if P s then f s else s) (find_session i ss)"
  using assms by (induction ss) (auto simp: find_session_def)

lemma state_of_update:
  assumes "\<And>s. sess_ID (f s) = sess_ID s"
  shows "state_of j (update_session i f w) =
    (if j = i then map_option (\<lambda>s. sess_State (f s)) (find_session i (sessions w)) else state_of j w)"
proof -
  have id: "sess_ID s = j" if "find_session j (sessions w) = Some s" for s
    using that by (auto simp: find_session_def find_Some_iff)
  show ?thesis
    using assms id
    by (cases "find_session j (sessions w)") (auto simp: state_of_def update_session_def find_session_map)
qed

text \<open>Where a client request can take a session.\<close>

definition client_edge :: "SessionState option \<Rightarrow> SessionState option \<Rightarrow> bool" where
  "client_edge a b \<longleftrightarrow> b = a \<or> (a = None \<and> b = Some StateActive) \<or>
     (a = Some StateActive \<and> b \<in> {Some StateQueued, Some StateCancelled})"

lemma MarkQueued_edge: "client_edge (state_of j w) (state_of j (snd (MarkQueued i w)))"
proof (cases rule: db_cases [of "MarkUploadSessionQueued i" w])
  case (fault fs)
  then show ?thesis by (simp add: MarkQueued_def bindE_def state_of_def client_edge_def)
next
  case (run a w')
  then have "sessions w' = map (\<lambda>s. if sess_ID s = i \<and> sess_State s = StateActive
         then s\<lparr>sess_State := StateQueued, sess_FailureReason := []\<rparr> else s) (sessions w)"
    by (auto simp: MarkUploadSessionQueued_def)
  then have "state_of j w' = map_option (\<lambda>s. if sess_ID s = i \<and> sess_State s = StateActive then StateQueued else sess_State s)
      (find_session j (sessions w))"
    by (simp add: state_of_def find_session_map option.map_comp comp_def if_distrib cong: if_cong)
  then show ?thesis
    using run by (cases "find_session j (sessions w)")
      (auto simp: MarkQueued_def bindE_def retE_def state_of_def client_edge_def)
qed

text \<open>The second half of a cancel that read the session when it was not active writes nothing.\<close>

lemma Cancel_write_stale:
  "sess_State sess \<noteq> StateActive \<Longrightarrow> snd (Cancel_write s i sess w) = w"
  by (simp add: Cancel_write_def guardE_def throwE_def retE_def)

lemma Cancel_write_other:
  assumes "j \<noteq> i"
  shows "state_of j (snd (Cancel_write s i sess w)) = state_of j w"
proof (cases "sess_State sess = StateActive")
  case True
  show ?thesis
  proof (cases rule: db_cases [of "SetUploadSessionState i StateCancelled" w])
    case (fault fs)
    then show ?thesis using True by (simp add: Cancel_write_def bindE_def guardE_def Finalizing_def state_of_def)
  next
    case (run a w2)
    then have "state_of j w2 = state_of j w" using assms by (auto simp: SetUploadSessionState_def state_of_update)
    then show ?thesis
      using True run by (simp add: Cancel_write_def bindE_def guardE_def Finalizing_def state_of_def keeps_deleteChunks)
  qed
qed (simp add: Cancel_write_stale)

lemma CreateSession_edge: "client_edge (state_of j w) (state_of j (snd (CreateSession s i v ch u name z fp p w)))"
proof (cases rule: CreateSession_cases [of s i v ch u name z fp p w])
  case (early e fs)
  then show ?thesis by (simp add: client_edge_def state_of_def)
next
  case (insert sess fs)
  have f: "find_session j (xs @ [sess]) = (case find_session j xs of Some x \<Rightarrow> Some x
      | None \<Rightarrow> if sess_ID sess = j then Some sess else None)" for xs
    by (induction xs) (auto simp: find_session_def)
  show ?thesis
    using create_insert_sessions [of sess ch "w\<lparr>w_faults := fs\<rparr>"] insert(1,4)
    by (auto simp: client_edge_def state_of_def f split: option.splits if_splits)
qed

text \<open>
  Every request a client can make, with any arguments and any failures. A cancel reads the session
  in one step and writes in a later one, with other requests in between: \<open>ps\<close> are the cancels past
  their read, each with the session it saw. Of the other requests only the creation and the queueing
  write sessions, each by one statement, so their reads need no step of their own.
\<close>

type_synonym clients = "upload_world \<times> (string \<times> UploadSession) list"

inductive client_step :: "upload_Service \<Rightarrow> clients \<Rightarrow> clients \<Rightarrow> bool" for s where
  create: "client_step s (w, ps) (snd (CreateSession s i v ch u name z fp p w), ps)"
| put: "client_step s (w, ps) (snd (PutChunk s i u n r w), ps)"
| status: "client_step s (w, ps) (snd (StatusFor i u w), ps)"
| validate: "client_step s (w, ps) (snd (ValidateComplete s i u w), ps)"
| cancel_refused: "session i u w = (Inl e, w1) \<Longrightarrow> client_step s (w, ps) (w1, ps)"
| cancel_read: "session i u w = (Inr sess, w1) \<Longrightarrow> client_step s (w, ps) (w1, (i, sess) # ps)"
| cancel_write: "(i, sess) \<in> set ps \<Longrightarrow> client_step s (w, ps) (snd (Cancel_write s i sess w), remove1 (i, sess) ps)"
| queue: "client_step s (w, ps) (snd (MarkQueued i w), ps)"

text \<open>Session \<open>i\<close> has left the active state, and no cancel that saw it active is still to write.\<close>

definition past_cancel :: "string \<Rightarrow> SessionState \<Rightarrow> clients \<Rightarrow> bool" where
  "past_cancel i st c \<longleftrightarrow> state_of i (fst c) = Some st \<and>
     (\<forall>sess. (i, sess) \<in> set (snd c) \<longrightarrow> sess_State sess \<noteq> StateActive)"

lemma edge_stays: "client_edge (Some st) b \<Longrightarrow> st \<noteq> StateActive \<Longrightarrow> b = Some st"
  by (auto simp: client_edge_def)

lemma session_sessions: "session i u w = (r, w1) \<Longrightarrow> sessions w1 = sessions w"
  using session_keeps_data [of w i u] same_data_sessions by (metis snd_conv)

lemma client_step_past:
  assumes "client_step s c c'" "past_cancel i st c" "st \<noteq> StateActive"
  shows "past_cancel i st c'"
  using assms(1)
proof cases
  case (create w ps j v ch u name z fp p)
  then show ?thesis using assms(2,3) edge_stays [of st] CreateSession_edge [of i w s j v ch u name z fp p]
    by (auto simp: past_cancel_def)
next
  case (put w ps j u n r)
  then show ?thesis using assms(2) keepsD [OF keeps_PutChunk, of s j u n r w] by (simp add: past_cancel_def state_of_def)
next
  case (status w ps j u)
  then show ?thesis using assms(2) keepsD [OF keeps_StatusFor, of j u w] by (simp add: past_cancel_def state_of_def)
next
  case (validate w ps j u)
  then show ?thesis using assms(2) keepsD [OF keeps_ValidateComplete, of s j u w] by (simp add: past_cancel_def state_of_def)
next
  case (cancel_refused j u w e w1 ps)
  then show ?thesis using assms(2) session_sessions [of j u w] by (simp add: past_cancel_def state_of_def)
next
  case (cancel_read j u w sess w1 ps)
  then have "find_session j (sessions w) = Some sess" using session_found [of j u w sess w1] by simp
  then show ?thesis using cancel_read assms(2,3) session_sessions [of j u w] by (auto simp: past_cancel_def state_of_def)
next
  case (cancel_write j sess ps w)
  have "state_of i (snd (Cancel_write s j sess w)) = state_of i w"
    using cancel_write assms(2) Cancel_write_stale [of sess] Cancel_write_other [of i j] by (cases "j = i") (auto simp: past_cancel_def)
  then show ?thesis using cancel_write assms(2) by (auto simp: past_cancel_def dest: notin_set_remove1)
next
  case (queue w ps j)
  then show ?thesis using assms(2,3) edge_stays [of st] MarkQueued_edge [of i w j] by (auto simp: past_cancel_def)
qed

text \<open>C12. No interleaving of client requests (create, put chunk, status, validate, cancel, queue),
  with any database or storage failures and with the read and the write of a cancel as separate
  steps, changes the state of a session that is no longer active, unless a cancel that read it
  while it was active has yet to write; that one does overwrite it.\<close>

theorem client_cannot_disturb_finalize:
  assumes "(client_step s)\<^sup>*\<^sup>* (w, ps) (w', ps')" "state_of i w = Some st" "st \<noteq> StateActive"
    "\<forall>sess. (i, sess) \<in> set ps \<longrightarrow> sess_State sess \<noteq> StateActive"
  shows "state_of i w' = Some st"
proof -
  have "past_cancel i st (w, ps)" using assms(2,4) by (simp add: past_cancel_def)
  with assms(1) have "past_cancel i st (w', ps')"
    by (induction rule: rtranclp_induct) (blast intro: client_step_past [OF _ _ assms(3)])+
  then show ?thesis by (simp add: past_cancel_def)
qed

theorem client_cannot_disturb_finalize_witness:
  "state_of demo_id demo_sweep_world = Some StateProcessing \<and>
   state_of demo_id (snd (Cancel demo_service demo_id ''alice'' demo_sweep_world)) = Some StateProcessing"
proof -
  have a: "state_of demo_id demo_sweep_world = Some StateProcessing" by code_simp
  obtain r w1 where r: "session demo_id ''alice'' demo_sweep_world = (r, w1)" by fastforce
  have "\<exists>ps. (client_step demo_service)\<^sup>*\<^sup>* (demo_sweep_world, []) (snd (Cancel demo_service demo_id ''alice'' demo_sweep_world), ps)"
  proof (cases r)
    case (Inl e)
    then show ?thesis using cancel_refused [of demo_id "''alice''" demo_sweep_world e w1] r
      by (auto simp: Cancel_def bindE_def)
  next
    case (Inr sess)
    have "client_step demo_service (demo_sweep_world, []) (w1, [(demo_id, sess)])"
      using cancel_read [of demo_id "''alice''" demo_sweep_world sess w1] r Inr by simp
    moreover have "client_step demo_service (w1, [(demo_id, sess)]) (snd (Cancel_write demo_service demo_id sess w1), [])"
      using cancel_write [of demo_id sess "[(demo_id, sess)]"] by simp
    ultimately have "(client_step demo_service)\<^sup>*\<^sup>* (demo_sweep_world, []) (snd (Cancel_write demo_service demo_id sess w1), [])"
      by (meson converse_rtranclp_into_rtranclp r_into_rtranclp)
    then show ?thesis using r Inr by (auto simp: Cancel_def bindE_def)
  qed
  then show ?thesis using a client_cannot_disturb_finalize [of demo_service demo_sweep_world "[]"] by fastforce
qed

end
