(* ===== verification/Retry.thy ===== *)
theory Retry
  imports Vidra_Prelude
begin

text \<open>
  The scheduling arithmetic of \<^verbatim>\<open>internal/retry/retry.go\<close>, shared by every queue-backed worker.
  The loop variable is an \<open>int64\<close> duration, so each doubling wraps. The lemmas give the closed form
  under the bound that rules overflow out, and what follows from it.
\<close>

section \<open>Backoff\<close>

text \<open>The loop \<open>for i := 1; i < attempt; i++\<close> runs \<open>attempt - 1\<close> times at most.\<close>

fun Backoff_loop :: "nat \<Rightarrow> int \<Rightarrow> int \<Rightarrow> int" where
  "Backoff_loop 0 d mx = d"
| "Backoff_loop (Suc k) d mx =
     (let d' = wrap64 (d * 2) in if d' \<ge> mx then mx else Backoff_loop k d' mx)"

definition Backoff :: "int \<Rightarrow> int \<Rightarrow> int \<Rightarrow> int" where
  "Backoff attempt base mx = Backoff_loop (nat (attempt - 1)) base mx"

lemma Backoff_loop_closed:
  assumes "0 < d" "d < 2 ^ 62" "0 < mx" "mx \<le> 2 ^ 62"
  shows "Backoff_loop k d mx = (if k = 0 then d else min mx (d * 2 ^ k))"
  using assms
proof (induction k arbitrary: d)
  case 0
  then show ?case by simp
next
  case (Suc k)
  have w: "wrap64 (d * 2) = d * 2"
    using Suc.prems by (intro wrap64_id in64I) simp_all
  show ?case
  proof (cases "d * 2 \<ge> mx")
    case True
    have "d * 2 * 1 \<le> d * 2 * 2 ^ k"
      using Suc.prems by (intro mult_left_mono) simp_all
    with True w show ?thesis by (simp add: Let_def mult.assoc)
  next
    case False
    with Suc.prems have "Backoff_loop k (d * 2) mx = (if k = 0 then d * 2 else min mx (d * 2 * 2 ^ k))"
      by (intro Suc.IH) simp_all
    with False w show ?thesis by (simp add: Let_def mult.assoc)
  qed
qed

lemma Backoff_closed:
  assumes "0 < base" "base < 2 ^ 62" "0 < mx" "mx \<le> 2 ^ 62"
  shows "Backoff n base mx = (if n \<le> 1 then base else min mx (base * 2 ^ nat (n - 1)))"
  using Backoff_loop_closed [OF assms] by (simp add: Backoff_def)

lemma Backoff_bounds:
  assumes "0 < base" "base \<le> mx" "mx < 2 ^ 62"
  shows "base \<le> Backoff n base mx" and "Backoff n base mx \<le> mx"
proof -
  have "base * 1 \<le> base * 2 ^ nat (n - 1)"
    using assms by (intro mult_left_mono) simp_all
  then show "base \<le> Backoff n base mx" and "Backoff n base mx \<le> mx"
    using assms by (simp_all add: Backoff_closed)
qed

lemma Backoff_mono:
  assumes "0 < base" "base \<le> mx" "mx < 2 ^ 62" "m \<le> n"
  shows "Backoff m base mx \<le> Backoff n base mx"
proof (cases "m \<le> 1")
  case True
  then show ?thesis
    using assms Backoff_bounds(1) [OF assms(1-3), of n] by (simp add: Backoff_closed [of base mx m])
next
  case False
  have "base * 2 ^ nat (m - 1) \<le> base * 2 ^ nat (n - 1)"
    using assms by (intro mult_left_mono power_increasing) simp_all
  then have "min mx (base * 2 ^ nat (m - 1)) \<le> min mx (base * 2 ^ nat (n - 1))"
    by (rule min.mono [OF order_refl])
  then show ?thesis using False assms by (simp add: Backoff_closed)
qed

section \<open>Retry policies\<close>

text \<open>
  A retry policy: how often a job is tried and how long it waits between attempts. The laws are
  what keeps the schedule finite and bounded; every queue's constants satisfy them.
\<close>

locale retry_policy =
  fixes attempts :: nat and base :: int and cap :: int
  assumes attempts_pos: "0 < attempts" and base_pos: "0 < base" and base_cap: "base \<le> cap"
    and cap_range: "2 * cap < 2 ^ 63"
begin

definition wait :: "nat \<Rightarrow> int" where
  "wait k = Backoff (int k) base cap"

text \<open>The time from the first failure to the dead letter when every attempt runs when due.\<close>

definition total_wait :: int where
  "total_wait = (\<Sum>k\<in>{1..<attempts}. wait k)"

lemma wait_bounds: "base \<le> wait k \<and> wait k \<le> cap"
  unfolding wait_def using Backoff_bounds [of base cap "int k"] base_pos base_cap cap_range by simp

lemma total_wait_bounds:
  "int (attempts - 1) * base \<le> total_wait \<and> total_wait \<le> int (attempts - 1) * cap"
proof -
  have "(\<Sum>k\<in>{1..<attempts}. base) \<le> total_wait" "total_wait \<le> (\<Sum>k\<in>{1..<attempts}. cap)"
    unfolding total_wait_def using wait_bounds by (intro sum_mono; blast)+
  then show ?thesis by simp
qed

end

end
