(* ===== verification/Worker_Loop.thy ===== *)
theory Worker_Loop
  imports Retry "HOL-Library.Multiset"
begin

text \<open>
  The skeleton of the background workers: the bounded pool that runs a claimed batch
  (\<open>internal/workerpool/pool.go\<close>), the ticker loop with its failure ladder
  (\<open>internal/jobloop/jobloop.go\<close>) and the recovery sweep over all queues
  (\<open>internal/jobrecovery/jobrecovery.go\<close>).

  The pool is a step relation: goroutines are interchangeable, a send on the unbuffered channel is
  one step with the receive that takes it, and every interleaving is a path. The loop is a function
  of the ticks it receives; what a pass does is a parameter that works on a state of its own. The
  log lines are part of the loop's result.
\<close>

section \<open>The bounded pool\<close>

definition MaxConcurrency :: int where "MaxConcurrency = 16"

definition Clamp :: "int \<Rightarrow> int" where
  "Clamp n = (if n < 1 then 1 else if n > MaxConcurrency then MaxConcurrency else n)"

record pool =
  p_next :: nat
  p_closed :: bool
  p_idle :: nat
  p_busy :: "nat list"
  p_started :: "nat list"
  p_finished :: "nat list"
  p_exited :: nat

definition pool_start :: "nat \<Rightarrow> nat \<Rightarrow> pool" where
  "pool_start workers n = \<lparr>p_next = 0, p_closed = False, p_idle = min workers n, p_busy = [],
     p_started = [], p_finished = [], p_exited = 0\<rparr>"

inductive pool_step :: "nat \<Rightarrow> pool \<Rightarrow> pool \<Rightarrow> bool" for n :: nat where
  send: "p_next p < n \<Longrightarrow> 0 < p_idle p \<Longrightarrow>
    pool_step n p (p\<lparr>p_next := p_next p + 1, p_idle := p_idle p - 1, p_busy := p_busy p @ [p_next p],
      p_started := p_started p @ [p_next p]\<rparr>)"
| finish: "i \<in> set (p_busy p) \<Longrightarrow>
    pool_step n p (p\<lparr>p_idle := p_idle p + 1, p_busy := remove1 i (p_busy p), p_finished := p_finished p @ [i]\<rparr>)"
| close: "p_next p = n \<Longrightarrow> \<not> p_closed p \<Longrightarrow> pool_step n p (p\<lparr>p_closed := True\<rparr>)"
| exit: "p_closed p \<Longrightarrow> 0 < p_idle p \<Longrightarrow>
    pool_step n p (p\<lparr>p_idle := p_idle p - 1, p_exited := p_exited p + 1\<rparr>)"

text \<open>\<open>wg.Wait\<close> returns when every goroutine has left its loop, after the channel was closed.\<close>

definition pool_returned :: "nat \<Rightarrow> nat \<Rightarrow> pool \<Rightarrow> bool" where
  "pool_returned workers n p \<longleftrightarrow> p_closed p \<and> p_exited p = min workers n"

text \<open>\<open>Run_order workers n js\<close>: a call of \<open>Run\<close> may return after finishing the invocations \<open>is\<close> in that order.\<close>

inductive Run_order :: "int \<Rightarrow> int \<Rightarrow> nat list \<Rightarrow> bool" where
  nothing: "n \<le> 0 \<Longrightarrow> Run_order workers n []"
| sequential: "0 < n \<Longrightarrow> workers \<le> 1 \<Longrightarrow> Run_order workers n [0..<nat n]"
| pooled: "0 < n \<Longrightarrow> 1 < workers \<Longrightarrow> (pool_step (nat n))\<^sup>*\<^sup>* (pool_start (nat workers) (nat n)) p \<Longrightarrow>
    pool_returned (nat workers) (nat n) p \<Longrightarrow> Run_order workers n (p_finished p)"



section \<open>The ticker loop\<close>

definition DefaultBackoffMax :: int where "DefaultBackoffMax = 10 * Minute"

text \<open>The zero \<open>time.Time\<close>, January 1 of year 1, on the Unix scale.\<close>

definition zeroTime :: int where "zeroTime = - 62135596800 * Second"

record ('s, 'e) Pass =
  pass_Run :: "int \<Rightarrow> ('s, 'e, int) op"
  FailMsg :: string
  DoneMsg :: string
  Drain :: bool

record passState =
  ps_failures :: int
  skipUntil :: int

datatype log_line = Warn string int int | Recovered string int | Handled string int

record ('s, 'e) Loop =
  Interval :: int
  Leader :: bool
  Passes :: "('s, 'e) Pass list"
  BackoffMax :: int

text \<open>One pass. The drain repeats as long as work is reported, so it may not end: \<open>None\<close>.\<close>

partial_function (option) pass_loop ::
  "('s, 'e) Pass \<Rightarrow> int \<Rightarrow> int \<Rightarrow> 's \<Rightarrow> (int \<times> 'e option \<times> 's) option" where
  "pass_loop p tick cnt s = (case pass_Run p tick s of
      (Inl e, s') \<Rightarrow> Some (cnt, Some e, s')
    | (Inr n, s') \<Rightarrow> if \<not> Drain p \<or> n = 0 then Some (wrap64 (cnt + n), None, s')
                    else pass_loop p tick (wrap64 (cnt + n)) s')"

definition pass_run :: "('s, 'e) Pass \<Rightarrow> int \<Rightarrow> 's \<Rightarrow> (log_line list \<times> 'e option \<times> 's) option" where
  "pass_run p tick s = map_option (\<lambda>(cnt, failure, s').
     (if cnt > 0 \<and> DoneMsg p \<noteq> '''' then [Handled (DoneMsg p) cnt] else [], failure, s')) (pass_loop p tick 0 s)"

text \<open>What one tick does with one pass and its ladder.\<close>

definition pass_tick :: "int \<Rightarrow> int \<Rightarrow> ('s, 'e) Pass \<Rightarrow> int \<Rightarrow> passState \<times> 's \<Rightarrow> (log_line list \<times> passState \<times> 's) option" where
  "pass_tick interval backoffMax p tick = (\<lambda>(st, s).
     if tick < skipUntil st then Some ([], st, s)
     else case pass_run p tick s of
       None \<Rightarrow> None
     | Some (out, Some e, s') \<Rightarrow>
         (let f = wrap64 (ps_failures st + 1); delay = Backoff f interval backoffMax
          in Some (out @ [Warn (FailMsg p) f delay], \<lparr>ps_failures = f, skipUntil = tick + delay\<rparr>, s'))
     | Some (out, None, s') \<Rightarrow>
         if ps_failures st > 0
         then Some (out @ [Recovered (FailMsg p) (ps_failures st)], \<lparr>ps_failures = 0, skipUntil = zeroTime\<rparr>, s')
         else Some (out, st, s'))"

fun tick_passes :: "int \<Rightarrow> int \<Rightarrow> int \<Rightarrow> ('s, 'e) Pass list \<Rightarrow> passState list \<Rightarrow> 's \<Rightarrow>
    (log_line list \<times> passState list \<times> 's) option" where
  "tick_passes interval backoffMax tick (p # ps) (st # sts) s =
     (case pass_tick interval backoffMax p tick (st, s) of
        None \<Rightarrow> None
      | Some (out, st', s') \<Rightarrow> map_option (\<lambda>(out', sts', s''). (out @ out', st' # sts', s''))
          (tick_passes interval backoffMax tick ps sts s'))"
| "tick_passes interval backoffMax tick _ sts s = Some ([], sts, s)"

text \<open>The loop over its ticks; each tick carries the answer of \<open>IsLeader\<close>.\<close>

fun loop_ticks :: "('s, 'e) Loop \<Rightarrow> int \<Rightarrow> (int \<times> bool) list \<Rightarrow> passState list \<Rightarrow> 's \<Rightarrow>
    (log_line list \<times> passState list \<times> 's) option" where
  "loop_ticks l backoffMax [] sts s = Some ([], sts, s)"
| "loop_ticks l backoffMax ((tick, leads) # ts) sts s =
     (if Leader l \<and> \<not> leads then loop_ticks l backoffMax ts sts s
      else case tick_passes (Interval l) backoffMax tick (Passes l) sts s of
        None \<Rightarrow> None
      | Some (out, sts', s') \<Rightarrow> map_option (\<lambda>(out', r). (out @ out', r)) (loop_ticks l backoffMax ts sts' s'))"

definition loop_Run :: "('s, 'e) Loop \<Rightarrow> (int \<times> bool) list \<Rightarrow> 's \<Rightarrow> (log_line list \<times> passState list \<times> 's) option" where
  "loop_Run l ts s =
     loop_ticks l (if BackoffMax l \<le> 0 then DefaultBackoffMax else BackoffMax l) ts
       (replicate (length (Passes l)) \<lparr>ps_failures = 0, skipUntil = zeroTime\<rparr>) s"

section \<open>The recovery sweep\<close>

text \<open>The sweeps of the eight queues, each a statement that may fail.\<close>

record ('w, 'e) Queries =
  SweepTranscodeJobs :: "('w, 'e, int) op"
  SweepImportJobs :: "('w, 'e, int) op"
  SweepUploadFinalizeJobs :: "('w, 'e, int) op"
  SweepCaptionJobs :: "('w, 'e, int) op"
  SweepAccountExports :: "('w, 'e, int) op"
  SweepImportRuns :: "('w, 'e, int) op"
  SweepChannelSyncs :: "('w, 'e, int) op"
  SweepStorageMigrationObjects :: "('w, 'e, int) op"

record 'e sweep_result =
  sw_Queue :: string
  sw_Requeued :: int
  sw_Err :: "'e option"

definition recovery_steps :: "('w, 'e) Queries \<Rightarrow> (string \<times> ('w, 'e, int) op) list" where
  "recovery_steps q =
     [(''transcode_jobs'', SweepTranscodeJobs q), (''import_jobs'', SweepImportJobs q),
      (''upload_finalize_jobs'', SweepUploadFinalizeJobs q), (''caption_jobs'', SweepCaptionJobs q),
      (''account_exports'', SweepAccountExports q), (''peertube_import_runs'', SweepImportRuns q),
      (''channel_syncs'', SweepChannelSyncs q), (''storage_migration_objects'', SweepStorageMigrationObjects q)]"

text \<open>The generated statement returns zero rows with its error.\<close>

fun recovery_loop :: "(string \<times> ('w, 'e, int) op) list \<Rightarrow> 'w \<Rightarrow> 'e sweep_result list \<times> 'w" where
  "recovery_loop [] w = ([], w)"
| "recovery_loop ((queue, run) # ss) w = (case run w of (r, w') \<Rightarrow>
     (case recovery_loop ss w' of (rs, w'') \<Rightarrow>
       (\<lparr>sw_Queue = queue, sw_Requeued = (case r of Inl _ \<Rightarrow> 0 | Inr n \<Rightarrow> n),
         sw_Err = (case r of Inl e \<Rightarrow> Some e | Inr _ \<Rightarrow> None)\<rparr> # rs, w'')))"

definition recovery_Sweep :: "('w, 'e) Queries \<Rightarrow> 'w \<Rightarrow> 'e sweep_result list \<times> 'w" where
  "recovery_Sweep q w = recovery_loop (recovery_steps q) w"

section \<open>Every invocation once\<close>

definition pool_ok :: "nat \<Rightarrow> nat \<Rightarrow> pool \<Rightarrow> bool" where
  "pool_ok workers n p \<longleftrightarrow> p_next p \<le> n \<and> p_started p = [0..<p_next p] \<and>
     mset (p_finished p) + mset (p_busy p) = mset [0..<p_next p] \<and>
     p_idle p + length (p_busy p) + p_exited p = min workers n \<and>
     (p_closed p \<longrightarrow> p_next p = n) \<and> (\<not> p_closed p \<longrightarrow> p_exited p = 0)"

lemma pool_ok_start: "pool_ok workers n (pool_start workers n)"
  by (simp add: pool_ok_def pool_start_def)

lemma busy_split:
  assumes "i \<in> set zs"
  obtains xs ys where "zs = xs @ i # ys" "remove1 i zs = xs @ ys"
  using split_list_first [OF assms] by (auto simp: remove1_append)

lemma pool_ok_step: "pool_step n p p' \<Longrightarrow> pool_ok workers n p \<Longrightarrow> pool_ok workers n p'"
proof (induction rule: pool_step.induct)
  case (finish i p)
  from finish(1) obtain xs ys where "p_busy p = xs @ i # ys" "remove1 i (p_busy p) = xs @ ys" by (rule busy_split)
  then show ?case using finish(2) by (auto simp: pool_ok_def)
qed (auto simp: pool_ok_def)

lemma pool_ok_reachable:
  "(pool_step n)\<^sup>*\<^sup>* (pool_start workers n) p \<Longrightarrow> pool_ok workers n p"
  by (induction rule: rtranclp_induct) (simp_all add: pool_ok_start pool_ok_step)

text \<open>C39. Whatever the scheduling of its goroutines, a call of workerpool.Run that returns has run
  every index exactly once, and in order when one worker is configured.\<close>

theorem Run_invokes_each_once:
  assumes "Run_order workers n js"
  shows "mset js = mset [0..<nat n] \<and> (workers \<le> 1 \<longrightarrow> js = [0..<nat n])"
  using assms
proof (cases rule: Run_order.cases)
  case (pooled p)
  have ok: "pool_ok (nat workers) (nat n) p" using pooled(4) by (rule pool_ok_reachable)
  then have "p_busy p = []" "p_next p = nat n"
    using pooled(5) by (auto simp: pool_ok_def pool_returned_def)
  then show ?thesis using ok pooled by (simp add: pool_ok_def)
qed simp_all

lemma then_step: "pool_step n p q \<Longrightarrow> (pool_step n)\<^sup>*\<^sup>* q r \<Longrightarrow> (pool_step n)\<^sup>*\<^sup>* p r"
  by (rule converse_rtranclp_into_rtranclp)

text \<open>Two workers, three jobs: the second job overtakes the first.\<close>

theorem Run_invokes_each_once_witness:
  "\<exists>js. Run_order 2 3 js \<and> hd js = 1 \<and> mset js = mset [0..<3]"
proof -
  let ?p = "\<lambda>nx cl idle busy fin ex. \<lparr>p_next = nx, p_closed = cl, p_idle = idle, p_busy = busy,
     p_started = [0..<nx], p_finished = fin, p_exited = ex\<rparr>"
  have "(pool_step 3)\<^sup>*\<^sup>* (?p 0 False 2 [] [] 0) (?p 3 True 0 [] [1, 0, 2] 2)"
    (is "?S\<^sup>*\<^sup>* _ _")
  proof -
    have s1: "?S (?p 0 False 2 [] [] 0) (?p 1 False 1 [0] [] 0)"
      using pool_step.send [of "?p 0 False 2 [] [] 0" 3] by simp
    have s2: "?S (?p 1 False 1 [0] [] 0) (?p 2 False 0 [0, 1] [] 0)"
      using pool_step.send [of "?p 1 False 1 [0] [] 0" 3] by (simp add: numeral_2_eq_2)
    have s3: "?S (?p 2 False 0 [0, 1] [] 0) (?p 2 False 1 [0] [1] 0)"
      using pool_step.finish [of 1 "?p 2 False 0 [0, 1] [] 0" 3] by simp
    have s4: "?S (?p 2 False 1 [0] [1] 0) (?p 3 False 0 [0, 2] [1] 0)"
      using pool_step.send [of "?p 2 False 1 [0] [1] 0" 3] by (simp add: numeral_eq_Suc)
    have s5: "?S (?p 3 False 0 [0, 2] [1] 0) (?p 3 False 1 [2] [1, 0] 0)"
      using pool_step.finish [of 0 "?p 3 False 0 [0, 2] [1] 0" 3] by simp
    have s6: "?S (?p 3 False 1 [2] [1, 0] 0) (?p 3 False 2 [] [1, 0, 2] 0)"
      using pool_step.finish [of 2 "?p 3 False 1 [2] [1, 0] 0" 3] by (simp add: numeral_2_eq_2)
    have s7: "?S (?p 3 False 2 [] [1, 0, 2] 0) (?p 3 True 2 [] [1, 0, 2] 0)"
      using pool_step.close [of "?p 3 False 2 [] [1, 0, 2] 0" 3] by simp
    have s8: "?S (?p 3 True 2 [] [1, 0, 2] 0) (?p 3 True 1 [] [1, 0, 2] 1)"
      using pool_step.exit [of "?p 3 True 2 [] [1, 0, 2] 0" 3] by simp
    have s9: "?S (?p 3 True 1 [] [1, 0, 2] 1) (?p 3 True 0 [] [1, 0, 2] 2)"
      using pool_step.exit [of "?p 3 True 1 [] [1, 0, 2] 1" 3] by (simp add: numeral_2_eq_2)
    show ?thesis
      by (rule then_step [OF s1], rule then_step [OF s2], rule then_step [OF s3], rule then_step [OF s4],
        rule then_step [OF s5], rule then_step [OF s6], rule then_step [OF s7], rule then_step [OF s8],
        rule then_step [OF s9], rule rtranclp.rtrancl_refl)
  qed
  then have "Run_order 2 3 [1, 0, 2]"
    using Run_order.pooled [of 3 2 "?p 3 True 0 [] [1, 0, 2] 2"] by (simp add: pool_start_def pool_returned_def)
  then show ?thesis using Run_invokes_each_once [of 2 3 "[1, 0, 2]"] by (intro exI [of _ "[1, 0, 2]"]) simp
qed

section \<open>The pool never hangs\<close>

lemma pool_not_stuck:
  assumes "pool_ok workers n p" "0 < n" "0 < workers" "\<not> pool_returned workers n p"
  shows "\<exists>p'. pool_step n p p'"
proof (cases "p_busy p")
  case (Cons i js)
  then show ?thesis using pool_step.finish [of i p n] by auto
next
  case Nil
  show ?thesis
  proof (cases "p_closed p")
    case True
    then have "0 < p_idle p" using assms Nil by (auto simp: pool_ok_def pool_returned_def)
    then show ?thesis using True pool_step.exit by blast
  next
    case False
    then have "0 < p_idle p" using assms Nil by (auto simp: pool_ok_def)
    moreover have "p_next p \<le> n" using assms(1) by (simp add: pool_ok_def)
    ultimately show ?thesis
      using False pool_step.send [of p n] pool_step.close [of p n] by (cases "p_next p = n") auto
  qed
qed

text \<open>Every step decreases it: each job costs a send and a finish, each goroutine an exit.\<close>

definition pool_rest :: "nat \<Rightarrow> pool \<Rightarrow> nat" where
  "pool_rest n p = 3 * (n - p_next p) + 2 * length (p_busy p) + p_idle p + (if p_closed p then 0 else 1)"

lemma pool_step_rest: "pool_step n p p' \<Longrightarrow> pool_rest n p' < pool_rest n p"
proof (induction rule: pool_step.induct)
  case (finish i p)
  then obtain xs ys where "p_busy p = xs @ i # ys" "remove1 i (p_busy p) = xs @ ys" by (rule busy_split)
  then show ?case by (simp add: pool_rest_def)
qed (auto simp: pool_rest_def)

lemma pool_terminates: "wfP (\<lambda>p' p. pool_step n p p')"
  by (rule wfp_if_convertible_to_nat [where f = "pool_rest n"]) (rule pool_step_rest)

text \<open>C40. From every reachable state of a pool with work and workers, every step decreases a
  measure, so no run is infinite; a run that can go no further has returned (the queue is closed
  and every worker has gone), and such a run exists. Never more than the configured number of
  invocations is in flight.\<close>

theorem Run_returns:
  assumes "0 < n" "0 < workers" "(pool_step n)\<^sup>*\<^sup>* (pool_start workers n) p"
  shows "length (p_busy p) \<le> min workers n \<and>
    (\<forall>p'. pool_step n p p' \<longrightarrow> pool_rest n p' < pool_rest n p) \<and>
    (\<nexists>f. f 0 = p \<and> (\<forall>k. pool_step n (f k) (f (Suc k)))) \<and>
    (\<forall>q. (pool_step n)\<^sup>*\<^sup>* p q \<and> (\<nexists>q'. pool_step n q q') \<longrightarrow> pool_returned workers n q) \<and>
    (\<exists>q. (pool_step n)\<^sup>*\<^sup>* p q \<and> pool_returned workers n q)"
proof (intro conjI)
  have ok: "pool_ok workers n p" using pool_ok_reachable [OF assms(3)] .
  then show "length (p_busy p) \<le> min workers n" unfolding pool_ok_def by linarith
  show "\<forall>p'. pool_step n p p' \<longrightarrow> pool_rest n p' < pool_rest n p" using pool_step_rest by blast
  show "\<nexists>f. f 0 = p \<and> (\<forall>k. pool_step n (f k) (f (Suc k)))"
    using pool_terminates [of n] unfolding wfp_def wf_iff_no_infinite_down_chain by blast
  show stop: "\<forall>q. (pool_step n)\<^sup>*\<^sup>* p q \<and> (\<nexists>q'. pool_step n q q') \<longrightarrow> pool_returned workers n q"
    using pool_ok_reachable [OF rtranclp_trans [OF assms(3)]] pool_not_stuck [OF _ assms(1,2)] by blast
  have "\<exists>q. (pool_step n)\<^sup>*\<^sup>* p q \<and> (\<nexists>q'. pool_step n q q')"
  proof (induction "pool_rest n p" arbitrary: p rule: less_induct)
    case less
    then show ?case using pool_step_rest converse_rtranclp_into_rtranclp [of "pool_step n"] by blast
  qed
  then show "\<exists>q. (pool_step n)\<^sup>*\<^sup>* p q \<and> pool_returned workers n q" using stop by blast
qed

theorem Run_returns_witness:
  "\<exists>q. (pool_step 3)\<^sup>*\<^sup>* (pool_start 2 3) q \<and> pool_returned 2 3 q"
  using Run_returns [of 3 2 "pool_start 2 3"] by auto

section \<open>Draining ends\<close>

lemma pass_loop_ends:
  assumes "\<And>s n s'. pass_Run p tick s = (Inr n, s') \<Longrightarrow> n \<noteq> 0 \<Longrightarrow> \<mu> s' < (\<mu> s :: nat)"
  shows "\<exists>r. pass_loop p tick cnt s = Some r"
proof (induction "\<mu> s" arbitrary: s cnt rule: less_induct)
  case less
  show ?case
  proof (cases "pass_Run p tick s")
    case (Pair a s')
    then show ?thesis
      using less [of s'] assms [of s _ s'] by (cases a) (simp_all add: pass_loop.simps [of p tick cnt s])
  qed
qed

lemma pass_loop_spins:
  fixes p :: "('a, 'b) Pass"
  assumes "Drain p" "\<And>s. \<exists>n s'. pass_Run p tick s = (Inr n, s') \<and> n \<noteq> 0"
  shows "pass_loop p tick cnt s = None"
proof -
  let ?P = "\<lambda>p tick (cnt :: int) (s :: 'a) (r :: int \<times> 'b option \<times> 'a). Drain p \<longrightarrow>
    (\<forall>s. \<exists>n s'. pass_Run p tick s = (Inr n, s') \<and> n \<noteq> 0) \<longrightarrow> False"
  have "?P p tick cnt s r" if "pass_loop p tick cnt s = Some r" for r
  proof (rule pass_loop.raw_induct [of ?P, OF _ that], intro impI)
    fix f p tick cnt s and r :: "int \<times> 'b option \<times> 'a"
    assume IH: "\<And>p tick cnt s r. f p tick cnt s = Some r \<Longrightarrow> ?P p tick cnt s r"
      and body: "(case pass_Run p tick s of (Inl e, s') \<Rightarrow> Some (cnt, Some e, s')
        | (Inr n, s') \<Rightarrow> if \<not> Drain p \<or> n = 0 then Some (wrap64 (cnt + n), None, s') else f p tick (wrap64 (cnt + n)) s') = Some r"
      and h: "Drain p" "\<forall>s. \<exists>n s'. pass_Run p tick s = (Inr n, s') \<and> n \<noteq> 0"
    obtain n s' where "pass_Run p tick s = (Inr n, s')" "n \<noteq> 0" using h(2) by blast
    then have "f p tick (wrap64 (cnt + n)) s' = Some r" using body h(1) by simp
    then show False using IH h by blast
  qed
  then show ?thesis using assms by (cases "pass_loop p tick cnt s") auto
qed

text \<open>A draining pass of a job loop returns if reported work shrinks what is left, and never
  returns if it always reports work.\<close>

theorem drain_ends_iff_work_shrinks:
  assumes "Drain p"
  shows "((\<forall>s n s'. pass_Run p tick s = (Inr n, s') \<and> n \<noteq> 0 \<longrightarrow> \<mu> s' < (\<mu> s :: nat)) \<longrightarrow> (\<forall>s. pass_run p tick s \<noteq> None)) \<and>
    ((\<forall>s. \<exists>n s'. pass_Run p tick s = (Inr n, s') \<and> n \<noteq> 0) \<longrightarrow> (\<forall>s. pass_run p tick s = None))"
proof (intro conjI impI allI)
  fix s
  assume "\<forall>s n s'. pass_Run p tick s = (Inr n, s') \<and> n \<noteq> 0 \<longrightarrow> \<mu> s' < \<mu> s"
  then have "\<exists>r. pass_loop p tick 0 s = Some r" by (intro pass_loop_ends [where \<mu> = \<mu>]) blast
  then show "pass_run p tick s \<noteq> None" by (auto simp: pass_run_def)
next
  fix s
  assume "\<forall>s. \<exists>n s'. pass_Run p tick s = (Inr n, s') \<and> n \<noteq> 0"
  then have "pass_loop p tick 0 s = None" using assms by (intro pass_loop_spins) blast+
  then show "pass_run p tick s = None" by (simp add: pass_run_def)
qed

text \<open>A queue of tasks drained two at a time, and a pass that counts an attempt as work.\<close>

definition demo_drain :: "(nat, unit) Pass" where
  "demo_drain = \<lparr>pass_Run = \<lambda>tick s. (Inr (int (min 2 s)), s - 2), FailMsg = ''drain failed'', DoneMsg = ''drained'', Drain = True\<rparr>"

definition demo_spin :: "(nat, unit) Pass" where
  "demo_spin = demo_drain\<lparr>pass_Run := \<lambda>tick s. (Inr 1, s)\<rparr>"

theorem drain_ends_iff_work_shrinks_witness:
  "(\<forall>s. pass_run demo_drain 0 s \<noteq> None) \<and> (\<forall>s. pass_run demo_spin 0 s = None)"
proof
  have "\<forall>s n s'. pass_Run demo_drain 0 s = (Inr n, s') \<and> n \<noteq> 0 \<longrightarrow> id s' < id s"
    by (auto simp: demo_drain_def)
  then show "\<forall>s. pass_run demo_drain 0 s \<noteq> None"
    using drain_ends_iff_work_shrinks [of demo_drain 0 id] by (simp add: demo_drain_def)
  show "\<forall>s. pass_run demo_spin 0 s = None"
    using drain_ends_iff_work_shrinks [of demo_spin 0 id] by (simp add: demo_spin_def demo_drain_def)
qed

section \<open>An outage fills no log\<close>

lemma loop_ticks_append:
  "loop_ticks l b (ts @ us) sts s = (case loop_ticks l b ts sts s of None \<Rightarrow> None
     | Some (out, sts', s') \<Rightarrow> map_option (\<lambda>(out', r). (out @ out', r)) (loop_ticks l b us sts' s'))"
  by (induction l b ts sts s rule: loop_ticks.induct)
    (auto simp: option.map_comp comp_def case_prod_unfold option.map_ident split: option.splits prod.splits)

lemma failing_pass_tick:
  assumes "\<And>s. \<exists>e s'. pass_Run p tick s = (Inl e, s')" "\<not> tick < skipUntil st" "0 \<le> ps_failures st" "ps_failures st < 2 ^ 62"
  shows "\<exists>s'. pass_tick i b p tick (st, s) =
    Some ([Warn (FailMsg p) (ps_failures st + 1) (Backoff (ps_failures st + 1) i b)],
      \<lparr>ps_failures = ps_failures st + 1, skipUntil = tick + Backoff (ps_failures st + 1) i b\<rparr>, s')"
proof -
  obtain e s' where "pass_Run p tick s = (Inl e, s')" using assms(1) by blast
  then have "pass_loop p tick 0 s = Some (0, Some e, s')" by (simp add: pass_loop.simps)
  moreover have "wrap64 (ps_failures st + 1) = ps_failures st + 1" using assms(3,4) by (intro wrap64_id in64I) simp_all
  ultimately show ?thesis using assms(2) by (simp add: pass_tick_def pass_run_def Let_def)
qed

text \<open>Ticks one interval apart.\<close>

definition ticks :: "int \<Rightarrow> int \<Rightarrow> nat \<Rightarrow> (int \<times> bool) list" where
  "ticks t0 i n = map (\<lambda>k. (t0 + int k * i, True)) [0..<n]"

lemma ticks_Suc: "ticks t0 i (Suc n) = ticks t0 i n @ [(t0 + int n * i, True)]"
  by (simp add: ticks_def)

definition warnings :: "log_line list \<Rightarrow> nat" where
  "warnings out = length (filter (\<lambda>x. case x of Warn _ _ _ \<Rightarrow> True | _ \<Rightarrow> False) out)"

lemma outage_ladder:
  assumes "Passes l = [p]" "\<And>tick s. \<exists>e s'. pass_Run p tick s = (Inl e, s')" "0 < Interval l" "zeroTime \<le> t0"
    "b < 2 ^ 62" "Interval l * 2 ^ (m - 1) \<le> b" "n < 2 ^ m" "m \<le> 62"
  shows "\<exists>out f u s'. loop_ticks l b (ticks t0 (Interval l) n) [\<lparr>ps_failures = 0, skipUntil = zeroTime\<rparr>] s =
      Some (out, [\<lparr>ps_failures = int f, skipUntil = u\<rparr>], s') \<and> warnings out = f \<and> f \<le> m \<and>
      n < 2 ^ f \<and> (0 < n \<longrightarrow> 0 < f \<and> 2 ^ (f - 1) \<le> n \<and> u = t0 + (2 ^ f - 1) * Interval l) \<and> (n = 0 \<longrightarrow> f = 0 \<and> u = zeroTime)"
  using assms(7)
proof (induction n)
  case 0
  show ?case by (simp add: ticks_def warnings_def)
next
  case (Suc n)
  then obtain out f u s' where IH: "loop_ticks l b (ticks t0 (Interval l) n) [\<lparr>ps_failures = 0, skipUntil = zeroTime\<rparr>] s =
      Some (out, [\<lparr>ps_failures = int f, skipUntil = u\<rparr>], s')" "warnings out = f" "f \<le> m" "n < 2 ^ f"
      "0 < n \<longrightarrow> 0 < f \<and> 2 ^ (f - 1) \<le> n \<and> u = t0 + (2 ^ f - 1) * Interval l" "n = 0 \<longrightarrow> f = 0 \<and> u = zeroTime"
    by auto
  let ?t = "t0 + int n * Interval l" and ?st = "\<lparr>ps_failures = int f, skipUntil = u\<rparr>"
  show ?case
  proof (cases "?t < u")
    case True
    then have n: "0 < n" using IH(6) assms(4) by (cases n) auto
    then have "int n * Interval l < (2 ^ f - 1) * Interval l" using True IH(5) by simp
    then have "int n < 2 ^ f - 1" using assms(3) by (simp only: mult_less_cancel_right_pos)
    then have "Suc n < 2 ^ f" using of_nat_less_iff [where 'a = int, of "Suc n" "2 ^ f"] by simp
    moreover have "loop_ticks l b [(?t, True)] [?st] s' = Some ([], [?st], s')"
      using True assms(1) by (simp add: pass_tick_def)
    ultimately show ?thesis
      using IH n by (intro exI [of _ out] exI [of _ f] exI [of _ u] exI [of _ s'])
        (simp add: ticks_Suc loop_ticks_append)
  next
    case False
    have eq: "Suc n = 2 ^ f"
    proof (cases "n = 0")
      case False
      then have "(2 ^ f - 1) * Interval l \<le> int n * Interval l" using \<open>\<not> ?t < u\<close> IH(5) by simp
      then have "2 ^ f - 1 \<le> int n" using assms(3) by (simp only: mult_le_cancel_right_pos)
      then have "2 ^ f \<le> Suc n" using of_nat_le_iff [where 'a = int, of "2 ^ f" "Suc n"] by simp
      then show ?thesis using IH(4) by simp
    qed (use IH(4,6) in \<open>auto\<close>)
    have "(2::nat) ^ f < 2 ^ m" using Suc.prems eq by simp
    then have fm: "f < m" by (rule power_less_imp_less_exp [rotated]) simp
    have "Interval l * 2 ^ f \<le> Interval l * 2 ^ (m - 1)"
      using fm assms(3) by (intro mult_left_mono power_increasing) auto
    then have "Interval l * 2 ^ f \<le> b" using assms(6) by simp
    moreover have "Interval l * 1 \<le> Interval l * 2 ^ f" using assms(3) by (intro mult_left_mono) simp_all
    ultimately have "Interval l \<le> b" "Interval l * 2 ^ f \<le> b" by linarith+
    then have bk: "Backoff (int f + 1) (Interval l) b = Interval l * 2 ^ f"
      using assms(3,5) Backoff_closed [of "Interval l" b "int f + 1"] by (cases "f = 0") simp_all
    have "int f < 2 ^ 62" using fm assms(8) by simp
    then obtain s'' where "pass_tick (Interval l) b p ?t (?st, s') =
        Some ([Warn (FailMsg p) (int f + 1) (Interval l * 2 ^ f)], \<lparr>ps_failures = int f + 1, skipUntil = ?t + Interval l * 2 ^ f\<rparr>, s'')"
      using failing_pass_tick [of p ?t ?st "Interval l" b s'] assms(2) False by (auto simp: bk)
    moreover have "?t + Interval l * 2 ^ f = t0 + (2 ^ Suc f - 1) * Interval l"
    proof -
      have n: "int n = 2 ^ f - 1" using eq by (simp flip: of_nat_eq_iff [where 'a = int])
      show ?thesis unfolding n by (simp add: algebra_simps)
    qed
    ultimately have run: "loop_ticks l b (ticks t0 (Interval l) (Suc n)) [\<lparr>ps_failures = 0, skipUntil = zeroTime\<rparr>] s =
        Some (out @ [Warn (FailMsg p) (int f + 1) (Interval l * 2 ^ f)],
          [\<lparr>ps_failures = int (Suc f), skipUntil = t0 + (2 ^ Suc f - 1) * Interval l\<rparr>], s'')"
      using IH(1) assms(1) by (simp add: ticks_Suc loop_ticks_append)
    have "Suc n < 2 ^ Suc f" "2 ^ (Suc f - 1) \<le> Suc n" "Suc f \<le> m" using eq fm by simp_all
    moreover have "warnings (out @ [Warn (FailMsg p) (int f + 1) (Interval l * 2 ^ f)]) = Suc f"
      using IH(2) by (simp add: warnings_def)
    ultimately show ?thesis using run by blast
  qed
qed

text \<open>During an outage a failing pass warns m times in up to 2^m - 1 ticks, as long as the
  doubled delay is below the cap, and its next run is 2^m - 1 intervals after the first failure.\<close>

theorem outage_warnings_logarithmic:
  assumes "Passes l = [p]" "\<forall>tick s. \<exists>e s'. pass_Run p tick s = (Inl e, s')" "0 < Interval l" "zeroTime \<le> t0"
    "BackoffMax l < 2 ^ 62" "Interval l * 2 ^ (m - 1) \<le> (if BackoffMax l \<le> 0 then DefaultBackoffMax else BackoffMax l)"
    "m \<le> 62" "0 < n" "2 ^ (m - 1) \<le> n" "n < 2 ^ m"
  shows "\<exists>out st s'. loop_Run l (ticks t0 (Interval l) n) s = Some (out, [st], s') \<and> warnings out = m \<and>
    ps_failures st = int m \<and> skipUntil st = t0 + (2 ^ m - 1) * Interval l"
proof -
  let ?b = "if BackoffMax l \<le> 0 then DefaultBackoffMax else BackoffMax l"
  have "?b < 2 ^ 62" using assms(5) by (simp add: DefaultBackoffMax_def)
  then obtain out f u s' where r: "loop_ticks l ?b (ticks t0 (Interval l) n) [\<lparr>ps_failures = 0, skipUntil = zeroTime\<rparr>] s =
      Some (out, [\<lparr>ps_failures = int f, skipUntil = u\<rparr>], s')" "warnings out = f" "f \<le> m" "n < 2 ^ f" "0 < f"
      "u = t0 + (2 ^ f - 1) * Interval l"
    using outage_ladder [of l p t0 ?b m n s] assms(1-4,6-8,10) by auto
  have "(2::nat) ^ (m - 1) < 2 ^ f" using assms(9) r(4) by linarith
  then have "m - 1 < f" by (rule power_less_imp_less_exp [rotated]) simp
  then have "f = m" using r(3,5) by simp
  then show ?thesis using r assms(1) by (simp add: loop_Run_def)
qed

text \<open>A ten second loop whose database is away for five minutes: five warnings in place of thirty.\<close>

definition demo_outage :: "(unit, unit) Loop" where
  "demo_outage = \<lparr>Interval = 10 * Second, Leader = True, Passes = [\<lparr>pass_Run = \<lambda>tick s. (Inl (), s),
     FailMsg = ''sweep failed'', DoneMsg = '''', Drain = False\<rparr>], BackoffMax = 0\<rparr>"

theorem outage_warnings_logarithmic_witness:
  "\<exists>out st s'. loop_Run demo_outage (ticks 0 (10 * Second) 30) () = Some (out, [st], s') \<and> warnings out = 5 \<and>
    ps_failures st = 5 \<and> skipUntil st = 310 * Second"
  using outage_warnings_logarithmic [of demo_outage "hd (Passes demo_outage)" 0 5 30 "()"]
  by (simp add: demo_outage_def zeroTime_def DefaultBackoffMax_def)

section \<open>Recovery visits every queue\<close>

lemma recovery_loop_queues: "map sw_Queue (fst (recovery_loop ss w)) = map fst ss"
  by (induction ss arbitrary: w) (auto simp: case_prod_beta)

lemma recovery_loop_state: "snd (recovery_loop ss w) = fold (\<lambda>(queue, run) w. ignoreE run w) ss w"
  by (induction ss arbitrary: w) (auto simp: case_prod_beta ignoreE_def)

end
