(* ===== verification/Upload_Finalize.thy ===== *)
theory Upload_Finalize
  imports Upload_Sessions Worker_Loop
begin

text \<open>
  The asynchronous completion of uploads (\<open>internal/uploadfinalize/service.go\<close> with the statements of
  \<open>upload_finalize_jobs.sql\<close>, \<open>internal/safeerr\<close> and \<open>workerpool.Clamp\<close>).

  The video pipeline is the interface \<open>Pipeline\<close>: a parameter with its own state \<open>'x\<close>, which
  receives the assembler and the file system it reads from. A worker's state is the upload world
  together with the pipeline's. The jobs of one drain run one after another, the order
  \<open>workerpool.Run\<close> gives at its default concurrency of one; the lease ticker's renewals during a job
  are the list of clock readings at which it fired.
\<close>

section \<open>Safe errors\<close>

datatype safe_error = SafeError string | TerminalError string

fun safe_message :: "safe_error \<Rightarrow> string" where
  "safe_message (SafeError msg) = msg"
| "safe_message (TerminalError msg) = msg"

fun IsTerminal :: "safe_error \<Rightarrow> bool" where
  "IsTerminal (TerminalError _) = True"
| "IsTerminal (SafeError _) = False"

section \<open>State\<close>

definition maxAttempts :: int where "maxAttempts = 5"
definition baseBackoff :: int where "baseBackoff = Minute"
definition maxBackoff :: int where "maxBackoff = Hour"
definition maxErrorLen :: nat where "maxErrorLen = 300"

datatype video_error =
    ErrUnsupportedMedia
  | ErrVideoNotFound
  | ErrForbidden
  | ErrReplaceConflict
  | ReplaceRejectedError string
  | MalwareRejectedError
  | OtherVideoError

record 'x Pipeline =
  GetByID :: "string \<Rightarrow> 'x \<Rightarrow> string option"
  AttachOriginal :: "string \<Rightarrow> string \<Rightarrow> string \<Rightarrow> chunkAssembler \<Rightarrow> filesystem \<times> 'x \<Rightarrow> (video_error + string) \<times> filesystem \<times> 'x"
  Process :: "string \<Rightarrow> string \<Rightarrow> filesystem \<times> 'x \<Rightarrow> video_error option \<times> filesystem \<times> 'x"
  ReplaceSource :: "string \<Rightarrow> string \<Rightarrow> string \<Rightarrow> chunkAssembler \<Rightarrow> bool \<Rightarrow> filesystem \<times> 'x \<Rightarrow> (video_error + string) \<times> filesystem \<times> 'x"
  onReplaced :: "(string \<Rightarrow> string \<Rightarrow> 'x \<Rightarrow> 'x) option"

type_synonym 'x fin_world = "upload_world \<times> 'x"

type_synonym finalize_job = "finalize_payload job"

definition on_upload :: "'a upload_op \<Rightarrow> ('x fin_world, upload_error, 'a) op" where
  "on_upload m = (\<lambda>(w, x). case m w of (r, w') \<Rightarrow> (r, w', x))"

text \<open>A pipeline call works on the blob store and on its own state.\<close>

definition on_pipeline :: "(filesystem \<times> 'x \<Rightarrow> 'r \<times> filesystem \<times> 'x) \<Rightarrow> 'x fin_world \<Rightarrow> 'r \<times> 'x fin_world" where
  "on_pipeline call = (\<lambda>(w, x). case call (blobs w, x) of (r, fs, x') \<Rightarrow> (r, w\<lparr>blobs := fs\<rparr>, x'))"

section \<open>Statements\<close>

definition EnqueueUploadFinalizeJob ::
  "string \<Rightarrow> string \<Rightarrow> finalize_payload \<Rightarrow> upload_world \<Rightarrow> (db_error + finalize_job option) \<times> upload_world" where
  "EnqueueUploadFinalizeJob newID uploadID p w =
     (if find_session uploadID (sessions w) = None \<or> newID \<in> set (map job_id (finalize_jobs w)) then (Inl ErrDB, w)
      else case queue_enqueue (w_now w) newID uploadID p (finalize_jobs w) of
        (j, q) \<Rightarrow> (Inr j, w\<lparr>finalize_jobs := q\<rparr>))"

definition GetLatestUploadFinalizeJob :: "string \<Rightarrow> upload_world \<Rightarrow> (db_error + finalize_job) \<times> upload_world" where
  "GetLatestUploadFinalizeJob uploadID w =
     (case queue_latest uploadID (finalize_jobs w) of None \<Rightarrow> Inl ErrDB | Some j \<Rightarrow> Inr j, w)"

definition HasLiveUploadFinalizeJob :: "string \<Rightarrow> upload_world \<Rightarrow> bool \<times> upload_world" where
  "HasLiveUploadFinalizeJob uploadID w = (queue_has_live uploadID (finalize_jobs w), w)"

definition DeleteUploadFinalizeJob :: "string \<Rightarrow> upload_world \<Rightarrow> unit \<times> upload_world" where
  "DeleteUploadFinalizeJob i w = ((), w\<lparr>finalize_jobs := queue_delete i (finalize_jobs w)\<rparr>)"

definition ClaimDueUploadFinalizeJobs :: "int \<Rightarrow> upload_world \<Rightarrow> (db_error + finalize_job list) \<times> upload_world" where
  "ClaimDueUploadFinalizeJobs limit w =
     (if limit < 0 then (Inl ErrDB, w)
      else case queue_claim (w_now w) (nat limit) (finalize_jobs w) of
        (js, q) \<Rightarrow> (Inr js, w\<lparr>finalize_jobs := q\<rparr>))"

definition RenewUploadFinalizeJobLease :: "int \<Rightarrow> string \<Rightarrow> upload_world \<Rightarrow> unit \<times> upload_world" where
  "RenewUploadFinalizeJobLease at i w = ((), w\<lparr>finalize_jobs := queue_renew at i (finalize_jobs w)\<rparr>)"

definition CompleteUploadFinalizeJob :: "string \<Rightarrow> upload_world \<Rightarrow> unit \<times> upload_world" where
  "CompleteUploadFinalizeJob i w = ((), w\<lparr>finalize_jobs := queue_complete i (finalize_jobs w)\<rparr>)"

definition RescheduleUploadFinalizeJob ::
  "string \<Rightarrow> int \<Rightarrow> string \<Rightarrow> upload_world \<Rightarrow> (db_error + unit) \<times> upload_world" where
  "RescheduleUploadFinalizeJob i at err w = (case queue_reschedule i at err (finalize_jobs w) of
      (ok, q) \<Rightarrow> (if ok then Inr () else Inl ErrDB, w\<lparr>finalize_jobs := q\<rparr>))"

definition FailUploadFinalizeJob :: "string \<Rightarrow> string \<Rightarrow> upload_world \<Rightarrow> unit \<times> upload_world" where
  "FailUploadFinalizeJob i err w = ((), w\<lparr>finalize_jobs := queue_fail i err (finalize_jobs w)\<rparr>)"

definition SweepExpiredUploadFinalizeJobs :: "upload_world \<Rightarrow> nat \<times> upload_world" where
  "SweepExpiredUploadFinalizeJobs w = (case queue_sweep (w_now w) (finalize_jobs w) of
      (n, q) \<Rightarrow> (n, w\<lparr>finalize_jobs := q\<rparr>))"

section \<open>The service\<close>

definition finalize_Enqueue :: "string \<Rightarrow> string \<Rightarrow> string \<Rightarrow> string \<Rightarrow> bool \<Rightarrow> finalize_job upload_op" where
  "finalize_Enqueue newID uploadID videoID purpose canManage =
     (let purpose' = (if purpose \<noteq> PurposeReplace then PurposeUpload else purpose) in
      bindE (dbE (EnqueueUploadFinalizeJob newID uploadID
               \<lparr>fj_VideoID = videoID, fj_Purpose = purpose', fj_CanManage = canManage\<rparr>)) (\<lambda>r.
      case r of
        None \<Rightarrow> dbE (GetLatestUploadFinalizeJob uploadID)
      | Some job \<Rightarrow>
          bindE (MarkQueued uploadID) (\<lambda>queued.
          if \<not> queued
          then (\<lambda>w. (Inl ErrNotActive, ignoreE (db (DeleteUploadFinalizeJob (job_id job))) w))
          else retE job)))"

text \<open>A lookup error reports no live job.\<close>

definition finalize_HasLiveJob :: "string \<Rightarrow> upload_world \<Rightarrow> bool \<times> upload_world" where
  "finalize_HasLiveJob uploadID w = (case db (HasLiveUploadFinalizeJob uploadID) w of
      (Inl _, w') \<Rightarrow> (False, w') | (Inr found, w') \<Rightarrow> (found, w'))"

datatype finalize_lookup = ErrNoFinalizeJob

definition LatestForSession :: "string \<Rightarrow> (upload_world, finalize_lookup, finalize_job) op" where
  "LatestForSession uploadID = catchE (dbE (GetLatestUploadFinalizeJob uploadID)) (\<lambda>_. throwE ErrNoFinalizeJob) retE"

definition internalf :: safe_error where
  "internalf = SafeError ''the upload could not be processed''"

definition assemble_failure :: "upload_error \<Rightarrow> safe_error" where
  "assemble_failure e =
     (if e = ErrIncomplete then SafeError ''some of the uploaded parts are missing; upload the file again''
      else if e = ErrNotFound \<or> e = ErrNotActive then SafeError ''the upload session is no longer available''
      else internalf)"

definition attach_failure :: "video_error \<Rightarrow> safe_error" where
  "attach_failure e =
     (if e = ErrUnsupportedMedia then SafeError ''that file type is not an accepted video container''
      else if e = ErrVideoNotFound \<or> e = ErrForbidden then SafeError ''the video no longer exists''
      else internalf)"

fun replace_failure :: "video_error \<Rightarrow> safe_error" where
  "replace_failure (ReplaceRejectedError reason) = SafeError reason"
| "replace_failure ErrUnsupportedMedia = SafeError ''that file type is not an accepted video container''"
| "replace_failure ErrReplaceConflict = SafeError ''the video can no longer have its file replaced''"
| "replace_failure ErrVideoNotFound = SafeError ''the video no longer exists''"
| "replace_failure ErrForbidden = SafeError ''the video no longer exists''"
| "replace_failure _ = internalf"

definition runReplace ::
  "'x Pipeline \<Rightarrow> finalize_job \<Rightarrow> UploadSession \<Rightarrow> chunkAssembler \<Rightarrow> 'x fin_world \<Rightarrow> safe_error option \<times> 'x fin_world" where
  "runReplace p row sess reader s =
     (case on_pipeline (ReplaceSource p (sess_UserID sess) (fj_VideoID (job_payload row)) (sess_Filename sess)
              reader (fj_CanManage (job_payload row))) s of
        (Inl e, s') \<Rightarrow> (Some (replace_failure e), s')
      | (Inr key, (w, x)) \<Rightarrow> (None, w, case onReplaced p of
            None \<Rightarrow> x | Some hook \<Rightarrow> hook (fj_VideoID (job_payload row)) key x))"

definition SafetyScanRejectedMessage :: string where
  "SafetyScanRejectedMessage = ''This file was rejected by the instance's safety scan and was not stored.''"

definition runFinalize ::
  "'x Pipeline \<Rightarrow> upload_Service \<Rightarrow> finalize_job \<Rightarrow> 'x fin_world \<Rightarrow> safe_error option \<times> 'x fin_world" where
  "runFinalize p u row s =
     (let s1 = ignoreE (on_upload (MarkProcessing (job_key row))) s in
      case on_upload (Assemble u (job_key row)) s1 of
        (Inl e, s2) \<Rightarrow> (Some (assemble_failure e), s2)
      | (Inr (sess, reader), s2) \<Rightarrow>
          (case GetByID p (fj_VideoID (job_payload row)) (snd s2) of
             None \<Rightarrow> (Some (SafeError ''the video no longer exists''), s2)
           | Some owner \<Rightarrow>
               if fj_Purpose (job_payload row) = PurposeReplace then runReplace p row sess reader s2
               else case on_pipeline (AttachOriginal p owner (fj_VideoID (job_payload row)) (sess_Filename sess) reader) s2 of
                 (Inl e, s3) \<Rightarrow> (Some (attach_failure e), s3)
               | (Inr key, s3) \<Rightarrow>
                   (case on_pipeline (Process p (fj_VideoID (job_payload row)) key) s3 of
                      (None, s4) \<Rightarrow> (None, s4)
                    | (Some e, s4) \<Rightarrow> (Some (if e = MalwareRejectedError
                         then TerminalError SafetyScanRejectedMessage else internalf), s4))))"

definition finalize_backoff :: "int \<Rightarrow> int" where
  "finalize_backoff attempts = Backoff attempts baseBackoff maxBackoff"

text \<open>The parallelism of a drain; \<open>None\<close> is a provider that is not wired.\<close>

definition finalize_Concurrency :: "int option \<Rightarrow> int" where
  "finalize_Concurrency f = (case f of None \<Rightarrow> 1 | Some n \<Rightarrow> Clamp n)"

definition recordFailure :: "upload_Service \<Rightarrow> finalize_job \<Rightarrow> safe_error \<Rightarrow> upload_world \<Rightarrow> upload_world" where
  "recordFailure u row cause w =
     (let attempts = job_attempts row + 1;
          msg = take maxErrorLen (safe_message cause) in
      if attempts \<ge> maxAttempts \<or> IsTerminal cause
      then ignoreE (MarkFailed u (job_key row) msg) (ignoreE (db (FailUploadFinalizeJob (job_id row) msg)) w)
      else ignoreE (dbE (RescheduleUploadFinalizeJob (job_id row) (w_now w + finalize_backoff attempts) msg)) w)"

definition drain_one ::
  "'x Pipeline \<Rightarrow> upload_Service \<Rightarrow> (string \<Rightarrow> int list) \<Rightarrow> finalize_job \<Rightarrow> 'x fin_world \<Rightarrow> nat \<times> 'x fin_world" where
  "drain_one p u beats row s =
     (let s1 = (fold (\<lambda>at. ignoreE (db (RenewUploadFinalizeJobLease at (job_id row)))) (beats (job_id row)) (fst s), snd s) in
      case runFinalize p u row s1 of
        (Some cause, (w, x)) \<Rightarrow> (0, recordFailure u row cause w, x)
      | (None, (w, x)) \<Rightarrow>
          (1, ignoreE (MarkCompleted u (job_key row)) (ignoreE (db (CompleteUploadFinalizeJob (job_id row))) w), x))"

fun drain_rows ::
  "'x Pipeline \<Rightarrow> upload_Service \<Rightarrow> (string \<Rightarrow> int list) \<Rightarrow> finalize_job list \<Rightarrow> nat \<Rightarrow> 'x fin_world \<Rightarrow> nat \<times> 'x fin_world" where
  "drain_rows p u beats [] done s = (done, s)"
| "drain_rows p u beats (row # rows) done s =
     (case drain_one p u beats row s of (k, s') \<Rightarrow> drain_rows p u beats rows (done + k) s')"

definition finalize_DrainJobs ::
  "'x Pipeline \<Rightarrow> upload_Service \<Rightarrow> (string \<Rightarrow> int list) \<Rightarrow> int \<Rightarrow> 'x fin_world \<Rightarrow> (nat \<times> upload_error option) \<times> 'x fin_world" where
  "finalize_DrainJobs p u beats limit s = (case on_upload (dbE (ClaimDueUploadFinalizeJobs (wrap32 limit))) s of
      (Inl e, s') \<Rightarrow> ((0, Some e), s')
    | (Inr rows, s') \<Rightarrow> (case drain_rows p u beats rows 0 s' of (n, s'') \<Rightarrow> ((n, None), s'')))"

section \<open>Accepting a completion\<close>

lemma queue_delete_fresh: "i \<notin> set (map job_id q) \<Longrightarrow> queue_delete i q = q"
  by (auto simp: queue_delete_def filter_id_conv)

lemma queue_enqueue_no_live:
  "\<not> queue_has_live k q \<Longrightarrow> queue_enqueue now i k p q =
     (Some \<lparr>job_id = i, job_key = k, job_payload = p, job_state = Pending, job_attempts = 0, job_next = now, job_error = []\<rparr>,
      q @ [\<lparr>job_id = i, job_key = k, job_payload = p, job_state = Pending, job_attempts = 0, job_next = now, job_error = []\<rparr>])"
  by (simp add: queue_enqueue_def queue_has_live_def Let_def)

lemma MarkQueued_inactive:
  assumes "w_faults w = []" "\<forall>s\<in>set (sessions w). sess_ID s = i \<longrightarrow> sess_State s \<noteq> StateActive"
  shows "MarkQueued i w = (Inr False, w)"
proof -
  have "filter (\<lambda>s. sess_ID s = i \<and> sess_State s = StateActive) (sessions w) = []"
    using assms(2) by (auto simp: filter_empty_conv)
  moreover have "map (\<lambda>s. if sess_ID s = i \<and> sess_State s = StateActive
         then s\<lparr>sess_State := StateQueued, sess_FailureReason := []\<rparr> else s) (sessions w) = sessions w"
    using assms(2) by (induction "sessions w") (auto intro!: map_idI)
  ultimately show ?thesis
    using assms(1) by (simp add: MarkQueued_def op_simps db_healthy MarkUploadSessionQueued_def)
qed

definition distinct_sessions :: "upload_world \<Rightarrow> bool" where
  "distinct_sessions w \<longleftrightarrow> distinct (map sess_ID (sessions w))"

lemma find_session_unique:
  "distinct_sessions w \<Longrightarrow> find_session i (sessions w) = Some sess \<Longrightarrow> s \<in> set (sessions w) \<Longrightarrow> sess_ID s = i \<Longrightarrow> s = sess"
  by (auto simp: distinct_sessions_def find_session_def find_Some_iff distinct_map inj_on_def)

lemma Enqueue_active:
  assumes "w_faults w = []" "find_session i (sessions w) = Some sess" "sess_State sess = StateActive"
    "newID \<notin> set (map job_id (finalize_jobs w))" "\<not> queue_has_live i (finalize_jobs w)"
  shows "\<exists>w'. finalize_Enqueue newID i v p cm w = (Inr \<lparr>job_id = newID, job_key = i,
      job_payload = \<lparr>fj_VideoID = v, fj_Purpose = if p \<noteq> PurposeReplace then PurposeUpload else p, fj_CanManage = cm\<rparr>,
      job_state = Pending, job_attempts = 0, job_next = w_now w, job_error = []\<rparr>, w') \<and>
    finalize_jobs w' = finalize_jobs w @ [\<lparr>job_id = newID, job_key = i,
      job_payload = \<lparr>fj_VideoID = v, fj_Purpose = if p \<noteq> PurposeReplace then PurposeUpload else p, fj_CanManage = cm\<rparr>,
      job_state = Pending, job_attempts = 0, job_next = w_now w, job_error = []\<rparr>] \<and>
    find_session i (sessions w') = Some (sess\<lparr>sess_State := StateQueued, sess_FailureReason := []\<rparr>) \<and>
    w_faults w' = [] \<and> blobs w' = blobs w \<and> upload_chunks w' = upload_chunks w \<and> w_now w' = w_now w"
proof -
  let ?j = "\<lparr>job_id = newID, job_key = i,
      job_payload = \<lparr>fj_VideoID = v, fj_Purpose = if p \<noteq> PurposeReplace then PurposeUpload else p, fj_CanManage = cm\<rparr>,
      job_state = Pending, job_attempts = 0, job_next = w_now w, job_error = []\<rparr>"
  let ?w = "w\<lparr>finalize_jobs := finalize_jobs w @ [?j]\<rparr>"
  have enq: "dbE (EnqueueUploadFinalizeJob newID i (job_payload ?j)) w = (Inr (Some ?j), ?w)"
    using assms by (simp add: dbE_healthy EnqueueUploadFinalizeJob_def queue_enqueue_no_live)
  obtain w' where mq: "MarkQueued i ?w = (Inr True, w')" "blobs w' = blobs ?w" "upload_chunks w' = upload_chunks ?w"
    "finalize_jobs w' = finalize_jobs ?w" "w_faults w' = []" "w_now w' = w_now ?w"
    "find_session i (sessions w') = Some (sess\<lparr>sess_State := StateQueued, sess_FailureReason := []\<rparr>)"
    using MarkQueued_active [of ?w i sess] assms(1-3) by auto
  have "finalize_Enqueue newID i v p cm w = (Inr ?j, w')"
    using enq mq(1) by (simp add: finalize_Enqueue_def Let_def op_simps)
  then show ?thesis using mq by (intro exI [of _ w']) simp
qed

text \<open>A completion request against a live job returns that job and changes nothing; without one
  it appends a job and moves an active session to queued, touching no chunk; on a session that is
  not active it fails and takes its own job back.\<close>

theorem enqueue_accepts_once:
  assumes "w_faults w = []" "distinct_sessions w" "find_session i (sessions w) = Some sess"
    "newID \<notin> set (map job_id (finalize_jobs w))"
  shows
    "(queue_has_live i (finalize_jobs w) \<longrightarrow>
        (\<exists>job. queue_latest i (finalize_jobs w) = Some job \<and> finalize_Enqueue newID i v p cm w = (Inr job, w))) \<and>
     (\<not> queue_has_live i (finalize_jobs w) \<longrightarrow> sess_State sess = StateActive \<longrightarrow>
        (\<exists>job w'. finalize_Enqueue newID i v p cm w = (Inr job, w') \<and> finalize_jobs w' = finalize_jobs w @ [job] \<and>
           job_key job = i \<and> live job \<and> state_of i w' = Some StateQueued \<and> blobs w' = blobs w \<and>
           upload_chunks w' = upload_chunks w)) \<and>
     (\<not> queue_has_live i (finalize_jobs w) \<longrightarrow> sess_State sess \<noteq> StateActive \<longrightarrow>
        finalize_Enqueue newID i v p cm w = (Inl ErrNotActive, w))"
proof (intro conjI impI)
  have fresh: "newID \<in> set (map job_id (finalize_jobs w)) = False" using assms(4) by simp
  assume lv: "queue_has_live i (finalize_jobs w)"
  then have "filter (\<lambda>j. job_key j = i) (finalize_jobs w) \<noteq> []"
    by (auto simp: queue_has_live_def list_ex_iff filter_empty_conv)
  then obtain job where job: "queue_latest i (finalize_jobs w) = Some job"
    by (cases "filter (\<lambda>j. job_key j = i) (finalize_jobs w)") (auto simp: queue_latest_def)
  moreover have "finalize_Enqueue newID i v p cm w = (Inr job, w)"
    using assms(1,3) fresh lv job
    by (simp add: finalize_Enqueue_def Let_def op_simps dbE_healthy EnqueueUploadFinalizeJob_def
        queue_enqueue_def queue_has_live_def GetLatestUploadFinalizeJob_def)
  ultimately show "\<exists>job. queue_latest i (finalize_jobs w) = Some job \<and> finalize_Enqueue newID i v p cm w = (Inr job, w)"
    by blast
next
  assume none: "\<not> queue_has_live i (finalize_jobs w)" and act: "sess_State sess = StateActive"
  show "\<exists>job w'. finalize_Enqueue newID i v p cm w = (Inr job, w') \<and>
      finalize_jobs w' = finalize_jobs w @ [job] \<and> job_key job = i \<and> live job \<and>
      state_of i w' = Some StateQueued \<and> blobs w' = blobs w \<and> upload_chunks w' = upload_chunks w"
    using Enqueue_active [OF assms(1,3) act assms(4) none, of v p cm] by (auto simp: live_def state_of_def)
next
  assume none: "\<not> queue_has_live i (finalize_jobs w)" and inact: "sess_State sess \<noteq> StateActive"
  let ?j = "\<lparr>job_id = newID, job_key = i,
      job_payload = \<lparr>fj_VideoID = v, fj_Purpose = if p \<noteq> PurposeReplace then PurposeUpload else p, fj_CanManage = cm\<rparr>,
      job_state = Pending, job_attempts = 0, job_next = w_now w, job_error = []\<rparr>"
  let ?w = "w\<lparr>finalize_jobs := finalize_jobs w @ [?j]\<rparr>"
  have enq: "dbE (EnqueueUploadFinalizeJob newID i (job_payload ?j)) w = (Inr (Some ?j), ?w)"
    using assms(1,3,4) none by (simp add: dbE_healthy EnqueueUploadFinalizeJob_def queue_enqueue_no_live)
  have "MarkQueued i ?w = (Inr False, ?w)"
    using find_session_unique [OF assms(2,3)] inact assms(1) by (intro MarkQueued_inactive) auto
  moreover have "queue_delete newID (finalize_jobs w @ [?j]) = finalize_jobs w"
    using queue_delete_fresh [OF assms(4)] by (simp add: queue_delete_def)
  ultimately show "finalize_Enqueue newID i v p cm w = (Inl ErrNotActive, w)"
    using enq assms(1) by (simp add: finalize_Enqueue_def Let_def op_simps db_healthy DeleteUploadFinalizeJob_def)
qed

theorem enqueue_accepts_once_witness:
  "\<exists>job w'. finalize_Enqueue ''j1'' demo_id ''v'' [] False demo_world = (Inr job, w') \<and>
     finalize_jobs w' = finalize_jobs demo_world @ [job] \<and> job_key job = demo_id \<and> live job \<and>
     state_of demo_id w' = Some StateQueued \<and> blobs w' = blobs demo_world \<and> upload_chunks w' = upload_chunks demo_world"
proof -
  have "w_faults demo_world = []" "distinct_sessions demo_world" "sess_State demo_session = StateActive"
    "find_session demo_id (sessions demo_world) = Some demo_session"
    "''j1'' \<notin> set (map job_id (finalize_jobs demo_world))" "\<not> queue_has_live demo_id (finalize_jobs demo_world)"
    by (simp_all add: demo_world_def distinct_sessions_def demo_session_def find_session_def queue_has_live_def)
  then show ?thesis using enqueue_accepts_once [of demo_world demo_id demo_session "''j1''" "''v''" "[]" False] by blast
qed

section \<open>The failure ladder\<close>

interpretation finalize_retry: retry_policy "nat maxAttempts" baseBackoff maxBackoff
  by unfold_locales (simp_all add: maxAttempts_def baseBackoff_def maxBackoff_def)

lemma finalize_backoff_eq:
  assumes "0 \<le> a" "a < 4"
  shows "finalize_backoff (a + 1) = Minute * 2 ^ nat a"
proof -
  have "(2::int) ^ nat a \<le> 2 ^ 3" using assms by (intro power_increasing) auto
  then have "min Hour (Minute * 2 ^ nat a) = Minute * 2 ^ nat a" by simp
  then show ?thesis
    using assms by (simp add: finalize_backoff_def baseBackoff_def maxBackoff_def Backoff_closed)
qed

lemma reschedule_running:
  assumes "queue_ok q" "row \<in> set q" "live row"
  shows "queue_reschedule (job_id row) at err q = (True, update_jobs (\<lambda>j. job_id j = job_id row)
     (\<lambda>j. j\<lparr>job_state := Pending, job_attempts := job_attempts j + 1, job_next := at, job_error := err\<rparr>) q)"
proof -
  have "queue_ok (update_jobs (\<lambda>j. job_id j = job_id row)
     (\<lambda>j. j\<lparr>job_state := Pending, job_attempts := job_attempts j + 1, job_next := at, job_error := err\<rparr>) q)"
  proof (rule update_jobs_ok [OF assms(1)])
    show "live j" if "j \<in> set q" "job_id j = job_id row" for j
      using job_unique [OF assms(1) that(1) assms(2) that(2)] assms(3) by simp
  qed simp_all
  then show ?thesis by (simp add: queue_reschedule_def unique_live_def queue_ok_def)
qed

text \<open>What a terminal transition of the session leaves of the chunks.\<close>

lemma deleteChunks_eq:
  assumes "svc_blobs u = Some l" "local_reach l (blobs w) (chunkPrefix i)"
  shows "deleteChunks u i w = w\<lparr>blobs := local_forget l (chunkPrefix i) (blobs w)\<rparr>"
  using assms local_forget_effect [OF assms(2)]
  by (simp add: deleteChunks_def ignoreE_def on_blobs_def Local_DeletePrefix_def local_reach_def
      canonical_resolve RemoveAll_def fs_simps)

lemma forgotten_chunks:
  assumes "plain_segment i" "local_reach l fs (chunkPrefix i)" "0 \<le> n"
  shows "local_stored l (local_forget l (chunkPrefix i) fs) (chunkKey i n) = None"
  using local_store.stored_forget [OF assms(2) canonical_chunkKey(1) [OF assms(1,3)]]
    prefix_above_chunk [OF assms(1,1,3)] by simp

definition job_now :: "finalize_job \<Rightarrow> upload_world \<Rightarrow> job_state \<Rightarrow> int \<Rightarrow> string \<Rightarrow> bool" where
  "job_now row w st att err \<longleftrightarrow> (\<exists>j\<in>set (finalize_jobs w). job_id j = job_id row \<and> job_state j = st \<and>
     job_attempts j = att \<and> job_error j = err)"

text \<open>C11. A failed finalize attempt below the limit whose cause is not terminal goes back to pending
  after one minute doubled per attempt and keeps session and chunks; the fifth attempt, or a
  terminal cause, fails the job and the session with the safe message cut to 300 bytes and
  deletes the chunks.\<close>

theorem finalize_failure_ladder:
  assumes "w_faults w = []" "queue_ok (finalize_jobs w)" "row \<in> set (finalize_jobs w)" "job_state row = Running"
    "0 \<le> job_attempts row" "find_session (job_key row) (sessions w) = Some sess" "uuid_text (job_key row)"
    "svc_blobs u = Some l" "local_reach l (blobs w) (chunkPrefix (job_key row))"
  shows
   "(job_attempts row + 1 < maxAttempts \<and> \<not> IsTerminal cause \<longrightarrow>
      job_now row (recordFailure u row cause w) Pending (job_attempts row + 1) (take 300 (safe_message cause)) \<and>
      (\<forall>j\<in>set (finalize_jobs (recordFailure u row cause w)). job_id j = job_id row \<longrightarrow>
         job_next j = w_now w + Minute * 2 ^ nat (job_attempts row)) \<and>
      sessions (recordFailure u row cause w) = sessions w \<and> blobs (recordFailure u row cause w) = blobs w) \<and>
    (job_attempts row + 1 \<ge> maxAttempts \<or> IsTerminal cause \<longrightarrow>
      job_now row (recordFailure u row cause w) Dead (job_attempts row + 1) (take 300 (safe_message cause)) \<and>
      find_session (job_key row) (sessions (recordFailure u row cause w)) =
        Some (sess\<lparr>sess_State := StateFailed, sess_FailureReason := take 300 (safe_message cause)\<rparr>) \<and>
      (\<forall>n\<ge>0. local_stored l (blobs (recordFailure u row cause w)) (chunkKey (job_key row) n) = None))"
proof (intro conjI impI)
  let ?msg = "take 300 (safe_message cause)"
  assume c: "job_attempts row + 1 < maxAttempts \<and> \<not> IsTerminal cause"
  let ?at = "w_now w + finalize_backoff (job_attempts row + 1)"
  let ?w = "recordFailure u row cause w"
  let ?q = "update_jobs (\<lambda>j. job_id j = job_id row)
     (\<lambda>j. j\<lparr>job_state := Pending, job_attempts := job_attempts j + 1, job_next := ?at, job_error := ?msg\<rparr>) (finalize_jobs w)"
  have "live row" using assms(4) by (simp add: live_def)
  note rs = reschedule_running [OF assms(2,3) this, of ?at ?msg]
  then have w': "?w = w\<lparr>finalize_jobs := ?q\<rparr>"
    using c assms(1)
    by (simp add: recordFailure_def Let_def ignoreE_def dbE_healthy RescheduleUploadFinalizeJob_def maxErrorLen_def)
  show "job_now row ?w Pending (job_attempts row + 1) ?msg"
  proof -
    have jobs: "finalize_jobs ?w = ?q" using w' by simp
    show ?thesis
      unfolding job_now_def jobs by (rule bexI [OF _ updated_job [OF assms(3)]]) simp_all
  qed
  have "?at = w_now w + Minute * 2 ^ nat (job_attempts row)"
    using c assms(5) finalize_backoff_eq [of "job_attempts row"] by (simp add: maxAttempts_def)
  then show "\<forall>j\<in>set (finalize_jobs ?w). job_id j = job_id row \<longrightarrow> job_next j = w_now w + Minute * 2 ^ nat (job_attempts row)"
    unfolding w' by (auto simp: set_update_jobs)
  show "sessions ?w = sessions w" "blobs ?w = blobs w" unfolding w' by simp_all
next
  let ?msg = "take 300 (safe_message cause)"
  let ?w = "recordFailure u row cause w" and ?q = "queue_fail (job_id row) (take 300 (safe_message cause)) (finalize_jobs w)"
  assume c: "job_attempts row + 1 \<ge> maxAttempts \<or> IsTerminal cause"
  let ?v = "update_session (job_key row) (\<lambda>s. s\<lparr>sess_State := StateFailed, sess_FailureReason := ?msg\<rparr>) (w\<lparr>finalize_jobs := ?q\<rparr>)"
  have pl: "plain_segment (job_key row)" by (rule plain_uuid [OF assms(7)])
  have rc: "local_reach l (blobs ?v) (chunkPrefix (job_key row))" using assms(9) by (simp add: update_session_def)
  have "?w = deleteChunks u (job_key row) ?v"
    using c assms(1)
    by (auto simp: recordFailure_def Let_def ignoreE_def db_healthy FailUploadFinalizeJob_def MarkFailed_def op_simps
        FailUploadSession_def maxErrorLen_def)
  then have w': "?w = ?v\<lparr>blobs := local_forget l (chunkPrefix (job_key row)) (blobs ?v)\<rparr>"
    using deleteChunks_eq [OF assms(8) rc] by simp
  have jobs: "finalize_jobs ?w = ?q" and sess: "sessions ?w = sessions ?v"
    unfolding w' by (simp_all add: update_session_def)
  have gone: "\<And>n. 0 \<le> n \<Longrightarrow> local_stored l (blobs ?w) (chunkKey (job_key row) n) = None"
    unfolding w' using forgotten_chunks [OF pl rc] by simp
  show "job_now row ?w Dead (job_attempts row + 1) ?msg"
    unfolding job_now_def jobs queue_fail_def
    by (rule bexI [OF _ updated_job [OF assms(3)]]) simp_all
  have "sess_ID sess = job_key row" using assms(6) by (auto simp: find_session_def find_Some_iff)
  then show "find_session (job_key row) (sessions ?w) = Some (sess\<lparr>sess_State := StateFailed, sess_FailureReason := ?msg\<rparr>)"
    unfolding sess using assms(6) by (simp add: update_session_def find_session_map)
  show "\<forall>n\<ge>0. local_stored l (blobs ?w) (chunkKey (job_key row) n) = None" using gone by blast
qed

definition demo_job :: finalize_job where
  "demo_job = \<lparr>job_id = ''j1'', job_key = demo_id,
     job_payload = \<lparr>fj_VideoID = ''v'', fj_Purpose = PurposeUpload, fj_CanManage = False\<rparr>,
     job_state = Running, job_attempts = 3, job_next = lease_Duration, job_error = []\<rparr>"

definition demo_failing :: upload_world where
  "demo_failing = demo_world\<lparr>sessions := [demo_session\<lparr>sess_State := StateProcessing\<rparr>], finalize_jobs := [demo_job]\<rparr>"

theorem finalize_failure_ladder_witness:
  "job_now demo_job (recordFailure demo_service demo_job internalf demo_failing) Pending 4 (safe_message internalf) \<and>
   finalize_retry.total_wait = 15 * Minute"
proof -
  have c: "plain_segment demo_id" by (simp add: plain_segment_def demo_id_def)
  have "local_reach demo_root (blobs demo_failing) (chunkPrefix (job_key demo_job))"
    using canonical_chunkPrefix [OF c]
    by (auto simp: local_reach_def through_file_iff clean_root_def demo_root_def demo_failing_def demo_world_def demo_job_def)
  moreover have "w_faults demo_failing = []" "queue_ok (finalize_jobs demo_failing)"
    "demo_job \<in> set (finalize_jobs demo_failing)" "job_state demo_job = Running" "0 \<le> job_attempts demo_job"
    "find_session (job_key demo_job) (sessions demo_failing) = Some (demo_session\<lparr>sess_State := StateProcessing\<rparr>)"
    "uuid_text (job_key demo_job)" "svc_blobs demo_service = Some demo_root"
    by (simp_all add: demo_failing_def demo_world_def queue_ok_def demo_job_def find_session_def demo_session_def
        uuid_text_def demo_id_def demo_service_def NewService_def WithChunkSize_def live_def)
  moreover have "job_attempts demo_job + 1 < maxAttempts \<and> \<not> IsTerminal internalf" "job_attempts demo_job + 1 = 4"
    "take 300 (safe_message internalf) = safe_message internalf"
    by (simp_all add: demo_job_def maxAttempts_def internalf_def)
  ultimately have "job_now demo_job (recordFailure demo_service demo_job internalf demo_failing) Pending 4 (safe_message internalf)"
    using finalize_failure_ladder [of demo_failing demo_job "demo_session\<lparr>sess_State := StateProcessing\<rparr>" demo_service demo_root internalf]
    by auto
  moreover have "finalize_retry.total_wait = 15 * Minute"
  proof -
    have "{1..<nat maxAttempts} = {1, 2, 3, 4}" by (auto simp: maxAttempts_def)
    then show ?thesis
      unfolding finalize_retry.total_wait_def finalize_retry.wait_def
      by (simp add: Backoff_closed baseBackoff_def maxBackoff_def)
  qed
  ultimately show ?thesis by blast
qed

end
