(* ===== verification/Upload_Delivery.thy ===== *)
theory Upload_Delivery
  imports Upload_Finalize
begin

text \<open>
  From the first chunk to the finished video: the uploaded file reaches the pipeline unchanged, the
  job is done, the session is completed and its chunks are gone. Also what the finalize worker keeps
  invariant under every failure, and three histories in which a guard the comments rely on does not
  hold.
\<close>

section \<open>The pipeline's contract\<close>

text \<open>
  What the worker relies on (documented at \<open>Pipeline\<close> and \<open>video.AttachOriginal\<close>): the video exists; a
  stream that delivers \<open>file\<close> for every sequence of buffers is stored as the video's original; the
  publish step keeps it; neither makes the session's chunk directory unreachable. \<open>original x v\<close> is
  the stored original of a video in the pipeline's state.
\<close>

definition delivers :: "Local \<Rightarrow> chunkAssembler \<Rightarrow> filesystem \<Rightarrow> string \<Rightarrow> bool" where
  "delivers l a fs file \<longleftrightarrow> (\<forall>ks. list_all (\<lambda>k. 0 < k) ks \<longrightarrow> length file < length ks \<longrightarrow>
     assembler_reads l ks a fs = (file, Some EOF))"

definition stores_stream ::
  "'x Pipeline \<Rightarrow> Local \<Rightarrow> ('x \<Rightarrow> string \<Rightarrow> string option) \<Rightarrow> string \<Rightarrow> string \<Rightarrow> string \<Rightarrow> bool" where
  "stores_stream p l original i v file \<longleftrightarrow>
     (\<forall>x. GetByID p v x \<noteq> None) \<and>
     (\<forall>own name a fs x. local_reach l fs (chunkPrefix i) \<longrightarrow> delivers l a fs file \<longrightarrow>
        (\<exists>key fs' x'. AttachOriginal p own v name a (fs, x) = (Inr key, fs', x') \<and> original x' v = Some file \<and>
           local_reach l fs' (chunkPrefix i))) \<and>
     (\<forall>key fs x. local_reach l fs (chunkPrefix i) \<longrightarrow>
        (\<exists>fs' x'. Process p v key (fs, x) = (None, fs', x') \<and> original x' v = original x v \<and>
           local_reach l fs' (chunkPrefix i)))"

section \<open>One successful run\<close>

lemma SetState_healthy:
  assumes "w_faults w = []" "find_session i (sessions w) = Some sess"
  shows "\<exists>w'. db (SetUploadSessionState i st) w = (Inr (), w') \<and> w_faults w' = [] \<and> blobs w' = blobs w \<and>
    upload_chunks w' = upload_chunks w \<and> finalize_jobs w' = finalize_jobs w \<and> w_now w' = w_now w \<and>
    find_session i (sessions w') = Some (sess\<lparr>sess_State := st, sess_FailureReason := []\<rparr>)"
proof -
  have "sess_ID sess = i" using assms(2) by (auto simp: find_session_def find_Some_iff)
  then show ?thesis
    using assms by (simp add: db_healthy SetUploadSessionState_def update_session_def find_session_map)
qed

definition uploaded :: "Local \<Rightarrow> string \<Rightarrow> UploadSession \<Rightarrow> upload_world \<Rightarrow> bool" where
  "uploaded l file sess w \<longleftrightarrow> w_faults w = [] \<and> uuid_text (sess_ID sess) \<and>
     sess_TotalSize sess = int (length file) \<and> sane_size (int (length file)) (sess_ChunkSize sess) \<and>
     area_ready l (sess_ID sess) (blobs w) \<and>
     chunks_present l (sess_ID sess) (sess_ChunkSize sess) file {..<chunk_total sess} w"

lemma area_reaches_prefix:
  assumes "plain_segment i" "area_ready l i fs"
  shows "local_reach l fs (chunkPrefix i)"
proof -
  have r: "local_reach l fs (chunkKey i 0)" using assms(2) by (simp add: area_ready_def local_ready_def)
  have seg: "segments (chunkKey i 0) = segments (chunkPrefix i) @ [Itoa 0]"
    using canonical_chunkKey(2) [OF assms(1)] canonical_chunkPrefix(2) [OF assms(1)] by simp
  have "\<not> through_file fs (root l @ segments (chunkPrefix i))"
  proof
    assume "through_file fs (root l @ segments (chunkPrefix i))"
    then obtain q where q: "strict_prefix q (root l @ segments (chunkPrefix i))" "is_file (node_at fs q)"
      by (auto simp: through_file_iff)
    have "strict_prefix q (root l @ segments (chunkKey i 0))"
      unfolding seg append_assoc [symmetric] using q(1) by (rule prefix_order.less_le_trans) simp
    then show False using r q(2) by (auto simp: local_reach_def through_file_iff)
  qed
  then show ?thesis using r canonical_chunkPrefix(1) [OF assms(1)] by (simp add: local_reach_def)
qed

lemma Assemble_delivers:
  assumes "svc_blobs u = Some l" "uploaded l file sess w" "find_session (sess_ID sess) (sessions w) = Some sess"
    "Finalizing (sess_State sess)"
  shows "\<exists>a. Assemble u (sess_ID sess) w = (Inr (sess, a), w) \<and> delivers l a (blobs w) file"
proof -
  have u: "w_faults w = []" "sess_TotalSize sess = int (length file)" "sane_size (int (length file)) (sess_ChunkSize sess)"
    "area_ready l (sess_ID sess) (blobs w)"
    "chunks_present l (sess_ID sess) (sess_ChunkSize sess) file {..<chunk_total sess} w"
    using assms(2) unfolding uploaded_def by blast+
  let ?a = "\<lparr>asm_uploadID = sess_ID sess, asm_total = chunk_total sess, asm_idx = 0, asm_cur = None\<rparr>"
  have asm: "Assemble u (sess_ID sess) w = (Inr (sess, ?a), w)"
    using assms(1,3,4) u(1) checkChunksComplete_present [OF u(1-3,5)]
    by (simp add: Assemble_def op_simps db_healthy GetUploadSession_def)
  have rest: "asm_rest (chunk_of (sess_ChunkSize sess) file) ?a = file"
    using all_chunks_file [OF u(2,3)] by (simp add: asm_rest_def)
  have "delivers l ?a (blobs w) file"
    unfolding delivers_def
    using assembler_reads_all [of l ?a "chunk_of (sess_ChunkSize sess) file" "blobs w"]
      holds_chunks_present [OF u(2-5)] rest by (simp add: asm_good_def)
  then show ?thesis using asm by blast
qed

lemma uploaded_state:
  "uploaded l file sess w \<Longrightarrow> blobs w' = blobs w \<Longrightarrow> upload_chunks w' = upload_chunks w \<Longrightarrow> w_faults w' = [] \<Longrightarrow>
   uploaded l file (sess\<lparr>sess_State := st, sess_FailureReason := []\<rparr>) w'"
  by (simp add: uploaded_def chunks_present_def)

lemma runFinalize_delivers:
  assumes "svc_blobs u = Some l" "uploaded l file sess w" "find_session (sess_ID sess) (sessions w) = Some sess"
    "job_key row = sess_ID sess" "fj_VideoID (job_payload row) = v" "fj_Purpose (job_payload row) = PurposeUpload"
    "stores_stream p l original (sess_ID sess) v file"
  shows "\<exists>w' x'. runFinalize p u row (w, x) = (None, w', x') \<and> original x' v = Some file \<and>
    w_faults w' = [] \<and> finalize_jobs w' = finalize_jobs w \<and> local_reach l (blobs w') (chunkPrefix (sess_ID sess)) \<and>
    find_session (sess_ID sess) (sessions w') = Some (sess\<lparr>sess_State := StateProcessing, sess_FailureReason := []\<rparr>)"
proof -
  let ?i = "sess_ID sess" and ?s = "sess\<lparr>sess_State := StateProcessing, sess_FailureReason := []\<rparr>"
  have h: "w_faults w = []" "plain_segment ?i" "area_ready l ?i (blobs w)"
    using assms(2) plain_uuid by (simp_all add: uploaded_def)
  obtain w1 where m: "MarkProcessing ?i w = (Inr (), w1)" "w_faults w1 = []" "blobs w1 = blobs w"
    "upload_chunks w1 = upload_chunks w" "finalize_jobs w1 = finalize_jobs w" "find_session ?i (sessions w1) = Some ?s"
    using SetState_healthy [OF h(1) assms(3), of StateProcessing] by (auto simp: MarkProcessing_def)
  have "uploaded l file ?s w1" by (rule uploaded_state [OF assms(2) m(3,4,2)])
  then obtain a where a: "Assemble u ?i w1 = (Inr (?s, a), w1)" "delivers l a (blobs w1) file"
    using Assemble_delivers [of u l "file" ?s w1] assms(1) m(6) by (auto simp: Finalizing_def)
  have r1: "local_reach l (blobs w1) (chunkPrefix ?i)" using area_reaches_prefix [OF h(2,3)] m(3) by simp
  have "GetByID p v x \<noteq> None" using assms(7) unfolding stores_stream_def by blast
  then obtain own where own: "GetByID p v x = Some own" by blast
  obtain key fs2 x2 where at: "AttachOriginal p own v (sess_Filename ?s) a (blobs w1, x) = (Inr key, fs2, x2)"
    "original x2 v = Some file" "local_reach l fs2 (chunkPrefix ?i)"
    using assms(7) r1 a(2) unfolding stores_stream_def by blast
  obtain fs3 x3 where pr: "Process p v key (fs2, x2) = (None, fs3, x3)" "original x3 v = original x2 v"
    "local_reach l fs3 (chunkPrefix ?i)"
    using assms(7) at(3) unfolding stores_stream_def by blast
  have "PurposeUpload \<noteq> PurposeReplace" by (simp add: PurposeUpload_def PurposeReplace_def)
  then have "runFinalize p u row (w, x) = (None, w1\<lparr>blobs := fs3\<rparr>, x3)"
    using assms(4-6) m(1) a(1) own at(1) pr(1)
    by (simp add: runFinalize_def Let_def ignoreE_def on_upload_def on_pipeline_def)
  then show ?thesis using at(2) pr(2,3) m by simp
qed

text \<open>Statements on the last row of the table, which no other row shares its id with.\<close>

lemma update_last:
  "job_id row \<notin> set (map job_id q) \<Longrightarrow>
   update_jobs (\<lambda>j. job_id j = job_id row \<and> P j) f (q @ [row]) = q @ [if P row then f row else row]"
  by (induction q) (auto simp: update_jobs_def)

lemma renew_last:
  assumes "job_id row \<notin> set (map job_id q)"
  shows "\<exists>row'. queue_renew t (job_id row) (q @ [row]) = q @ [row'] \<and> job_id row' = job_id row"
  unfolding queue_renew_def update_last [OF assms] by auto

lemma complete_last:
  assumes "job_id row \<notin> set (map job_id q)"
  shows "queue_complete (job_id row) (q @ [row]) = q @ [row\<lparr>job_state := Done, job_error := []\<rparr>]"
  unfolding queue_complete_def using update_last [OF assms, of "\<lambda>_. True"] by simp

lemma renewals_healthy:
  assumes "w_faults w = []" "finalize_jobs w = q @ [row]" "job_id row \<notin> set (map job_id q)"
  shows "\<exists>row'. fold (\<lambda>at. ignoreE (db (RenewUploadFinalizeJobLease at (job_id row)))) ts w = w\<lparr>finalize_jobs := q @ [row']\<rparr> \<and>
     job_id row' = job_id row"
  using assms
proof (induction ts arbitrary: w row)
  case Nil
  then show ?case by (intro exI [of _ row]) simp
next
  case (Cons t ts)
  obtain row1 where r1: "queue_renew t (job_id row) (q @ [row]) = q @ [row1]" "job_id row1 = job_id row"
    using renew_last [OF Cons.prems(3)] by blast
  have "ignoreE (db (RenewUploadFinalizeJobLease t (job_id row))) w = w\<lparr>finalize_jobs := q @ [row1]\<rparr>"
    using Cons.prems(1,2) r1(1) by (simp add: ignoreE_def db_healthy RenewUploadFinalizeJobLease_def)
  then show ?case using Cons.IH [of "w\<lparr>finalize_jobs := q @ [row1]\<rparr>" row1] Cons.prems r1(2) by simp
qed

lemma drain_one_delivers:
  assumes "svc_blobs u = Some l" "uploaded l file sess w" "find_session (sess_ID sess) (sessions w) = Some sess"
    "job_key row = sess_ID sess" "fj_VideoID (job_payload row) = v" "fj_Purpose (job_payload row) = PurposeUpload"
    "stores_stream p l original (sess_ID sess) v file" "finalize_jobs w = qs @ [row]" "job_id row \<notin> set (map job_id qs)"
  shows "\<exists>w' x'. drain_one p u beats row (w, x) = (1, w', x') \<and> original x' v = Some file \<and>
    (\<exists>job'. finalize_jobs w' = qs @ [job'] \<and> job_id job' = job_id row \<and> job_state job' = Done) \<and> state_of (sess_ID sess) w' = Some StateCompleted \<and>
    (\<forall>n\<ge>0. local_stored l (blobs w') (chunkKey (sess_ID sess) n) = None)"
proof -
  let ?i = "sess_ID sess"
  have h: "w_faults w = []" "plain_segment ?i" using assms(2) plain_uuid by (simp_all add: uploaded_def)
  obtain row' where q: "fold (\<lambda>at. ignoreE (db (RenewUploadFinalizeJobLease at (job_id row)))) (beats (job_id row)) w =
      w\<lparr>finalize_jobs := qs @ [row']\<rparr>" "job_id row' = job_id row"
    using renewals_healthy [OF h(1) assms(8,9), of "beats (job_id row)"] by blast
  let ?q = "qs @ [row']"
  have "uploaded l file sess (w\<lparr>finalize_jobs := ?q\<rparr>)"
    using assms(2) by (simp add: uploaded_def chunks_present_def)
  then obtain w1 x1 where run: "runFinalize p u row (w\<lparr>finalize_jobs := ?q\<rparr>, x) = (None, w1, x1)"
    "original x1 v = Some file" "w_faults w1 = []" "finalize_jobs w1 = ?q" "local_reach l (blobs w1) (chunkPrefix ?i)"
    "find_session ?i (sessions w1) = Some (sess\<lparr>sess_State := StateProcessing, sess_FailureReason := []\<rparr>)"
    using runFinalize_delivers [of u l "file" sess "w\<lparr>finalize_jobs := ?q\<rparr>" row v p original x] assms(1,3-7) by auto
  let ?w2 = "w1\<lparr>finalize_jobs := queue_complete (job_id row) ?q\<rparr>"
  have c: "db (CompleteUploadFinalizeJob (job_id row)) w1 = (Inr (), ?w2)"
    using run(3,4) by (simp add: db_healthy CompleteUploadFinalizeJob_def)
  obtain w3 where s: "db (SetUploadSessionState ?i StateCompleted) ?w2 = (Inr (), w3)" "blobs w3 = blobs w1"
    "finalize_jobs w3 = queue_complete (job_id row) ?q" "state_of ?i w3 = Some StateCompleted"
    using SetState_healthy [of ?w2 ?i _ StateCompleted] run(3,6) by (auto simp: state_of_def)
  have r3: "local_reach l (blobs w3) (chunkPrefix ?i)" using run(5) s(2) by simp
  let ?w4 = "w3\<lparr>blobs := local_forget l (chunkPrefix ?i) (blobs w3)\<rparr>"
  have "MarkCompleted u ?i ?w2 = (Inr (), ?w4)"
    using s(1) deleteChunks_eq [OF assms(1) r3] by (simp add: MarkCompleted_def op_simps)
  then have "drain_one p u beats row (w, x) = (1, ?w4, x1)"
    using q(1) run(1) c assms(4) by (simp add: drain_one_def Let_def ignoreE_def)
  moreover have "queue_complete (job_id row) ?q = qs @ [row'\<lparr>job_state := Done, job_error := []\<rparr>]"
    using complete_last [of row' qs] q(2) assms(9) by simp
  ultimately show ?thesis
    using run(2) s(3,4) forgotten_chunks [OF h(2) r3] q(2) by (simp add: state_of_def)
qed

section \<open>From the first chunk to the finished video\<close>

lemma keeps_queue_PutChunk:
  "keeps (\<lambda>w. (finalize_jobs w, w_now w)) (PutChunk s i u n r)"
proof -
  have "keeps (\<lambda>w. (finalize_jobs w, w_now w)) (session i u)"
    unfolding keeps_def
  proof
    fix w show "(finalize_jobs (snd (session i u w)), w_now (snd (session i u w))) = (finalize_jobs w, w_now w)"
      using session_keeps_data [of w i u] unfolding same_data_def
      by (cases w; cases "snd (session i u w)") simp
  qed
  moreover have "finalize_jobs (ignoreE (on_blobs c) w) = finalize_jobs w" "w_now (ignoreE (on_blobs c) w) = w_now w"
    for c :: "(filesystem, body_error storage_error, unit) op" and w
    by (simp_all add: ignoreE_def on_blobs_def split: prod.splits sum.splits)
  ultimately show ?thesis
    unfolding PutChunk_def buildStatus_def
    by (intro keeps_rules) (simp_all add: UpsertUploadChunk_def ListUploadChunks_def keeps_def)
qed

lemma keeps_queue_put_all: "keeps (\<lambda>w. (finalize_jobs w, w_now w)) (put_all s i u ps)"
  by (induction ps rule: put_all.induct) (auto intro!: keeps_rules keeps_queue_PutChunk)

text \<open>A claim that finds one due job, the last row.\<close>

lemma claim_last:
  assumes "0 < n" "filter (claimable now) q = []" "job_id row \<notin> set (map job_id q)" "claimable now row"
  shows "queue_claim now n (q @ [row]) = ([row\<lparr>job_state := Running, job_next := now + lease_Duration\<rparr>],
     q @ [row\<lparr>job_state := Running, job_next := now + lease_Duration\<rparr>])"
proof -
  have "pick n (claimable now) (q @ [row]) = [job_id row]"
    using assms by (cases n) (simp_all add: pick_def)
  moreover have "filter (\<lambda>j. job_id j = job_id row) q = []" using assms(3) by (induction q) auto
  ultimately show ?thesis
    using update_last [OF assms(3), of "\<lambda>_. True"] by (simp add: queue_claim_def Let_def)
qed

text \<open>C1. On a healthy database and disk, chunks of an upload sent in any order, any of them more
  than once, in request bodies cut up in any way, complete the session, and the completion (of an
  upload, not of a source replacement) is accepted. If no other finalize job is due, and the
  video pipeline stores the stream it is given and succeeds, the next drain with a positive
  32-bit limit hands the pipeline exactly the bytes of the file, marks this job done and leaves
  the rows of all other jobs as they were, marks the session completed, and leaves no chunk
  behind.\<close>

theorem upload_delivered:
  assumes "awaiting s l file sess u w" "area_ready l (sess_ID sess) (blobs w)"
    "filter (claimable (w_now w)) (finalize_jobs w) = []" "newID \<notin> set (map job_id (finalize_jobs w))"
    "\<not> queue_has_live (sess_ID sess) (finalize_jobs w)"
    "\<forall>(n, r)\<in>set puts. n < chunk_total sess \<and> drain r = (chunk_of (sess_ChunkSize sess) file n, EOF)"
    "fst ` set puts = {..<chunk_total sess}"
    "stores_stream p l original (sess_ID sess) v file" "0 < limit" "limit < 2 ^ 31" "purpose \<noteq> PurposeReplace"
  shows "\<exists>sts w1 job w2 w3 x'. put_all s (sess_ID sess) u puts w = (Inr sts, w1) \<and>
    ValidateComplete s (sess_ID sess) u w1 = (Inr sess, w1) \<and>
    finalize_Enqueue newID (sess_ID sess) v purpose canManage w1 = (Inr job, w2) \<and>
    finalize_DrainJobs p s beats limit (w2, x) = ((1, None), w3, x') \<and>
    original x' v = Some file \<and>
    (\<exists>job'. finalize_jobs w3 = finalize_jobs w @ [job'] \<and> job_id job' = newID \<and> job_state job' = Done) \<and>
    state_of (sess_ID sess) w3 = Some StateCompleted \<and>
    (\<forall>n\<ge>0. local_stored l (blobs w3) (chunkKey (sess_ID sess) n) = None)"
proof -
  let ?i = "sess_ID sess"
  have "chunks_present l ?i (sess_ChunkSize sess) file {} w" by (simp add: chunks_present_def)
  from put_all_accepted [OF assms(1,2) this assms(6)] assms(7)
  obtain sts w1 where puts: "put_all s ?i u puts w = (Inr sts, w1)" and a1: "awaiting s l file sess u w1"
    and r1: "area_ready l ?i (blobs w1)"
    and p1: "chunks_present l ?i (sess_ChunkSize sess) file {..<chunk_total sess} w1" by auto
  have jobs1: "finalize_jobs w1 = finalize_jobs w" "w_now w1 = w_now w"
    using keepsD [OF keeps_queue_put_all, of s ?i u puts w] puts by simp_all
  have sz: "sess_TotalSize sess = int (length file)" "sane_size (int (length file)) (sess_ChunkSize sess)"
    and h1: "w_faults w1 = []" "svc_blobs s = Some l" "find_session ?i (sessions w1) = Some sess"
      "sess_UserID sess = u" "sess_State sess = StateActive" "uuid_text ?i"
    using a1 by (simp_all add: awaiting_def)
  have val: "ValidateComplete s ?i u w1 = (Inr sess, w1)"
    using h1 checkChunksComplete_present [OF h1(1) sz p1]
    by (simp add: ValidateComplete_def op_simps session_healthy)
  let ?pl = "\<lparr>fj_VideoID = v, fj_Purpose = PurposeUpload, fj_CanManage = canManage\<rparr>"
  let ?job = "\<lparr>job_id = newID, job_key = ?i, job_payload = ?pl, job_state = Pending, job_attempts = 0,
      job_next = w_now w1, job_error = []\<rparr>"
  let ?q = "sess\<lparr>sess_State := StateQueued, sess_FailureReason := []\<rparr>"
  obtain w2 where enq: "finalize_Enqueue newID ?i v purpose canManage w1 = (Inr ?job, w2)"
    "finalize_jobs w2 = finalize_jobs w @ [?job]" "find_session ?i (sessions w2) = Some ?q" "w_faults w2 = []" "blobs w2 = blobs w1"
    "upload_chunks w2 = upload_chunks w1" "w_now w2 = w_now w1"
    using Enqueue_active [OF h1(1,3,5), of newID v purpose canManage] jobs1 assms(4,5,11) by auto
  let ?row = "\<lparr>job_id = newID, job_key = ?i, job_payload = ?pl, job_state = Running, job_attempts = 0,
      job_next = w_now w1 + lease_Duration, job_error = []\<rparr>"
  let ?w = "w2\<lparr>finalize_jobs := finalize_jobs w @ [?row]\<rparr>"
  have claim: "dbE (ClaimDueUploadFinalizeJobs (wrap32 limit)) w2 = (Inr [?row], ?w)"
  proof -
    have "wrap32 limit = limit" using assms(9,10) by (simp add: wrap32_id in32_def)
    moreover have "queue_claim (w_now w1) (nat limit) (finalize_jobs w @ [?job]) = ([?row], finalize_jobs w @ [?row])"
      using claim_last [of "nat limit" "w_now w1" "finalize_jobs w" ?job] assms(3,4,9) jobs1(2) by (simp add: claimable_def)
    ultimately show ?thesis
      using enq(2,4,7) assms(9) by (simp add: dbE_healthy ClaimDueUploadFinalizeJobs_def)
  qed
  have "uploaded l file sess w1" using sz h1(1,6) r1 p1 unfolding uploaded_def by blast
  then have up: "uploaded l file ?q ?w" using uploaded_state [of l "file" sess w1 ?w StateQueued] enq(4-6) by simp
  have found: "find_session (sess_ID ?q) (sessions ?w) = Some ?q" using enq(3) by simp
  have row: "job_key ?row = sess_ID ?q" "fj_VideoID (job_payload ?row) = v"
    "fj_Purpose (job_payload ?row) = PurposeUpload"
    "finalize_jobs ?w = finalize_jobs w @ [?row]" "job_id ?row \<notin> set (map job_id (finalize_jobs w))"
    using assms(4) by simp_all
  have st: "stores_stream p l original (sess_ID ?q) v file" using assms(8) by simp
  obtain w3 x' where d: "drain_one p s beats ?row (?w, x) = (1, w3, x')" "original x' v = Some file"
    "\<exists>job'. finalize_jobs w3 = finalize_jobs w @ [job'] \<and> job_id job' = newID \<and> job_state job' = Done" "state_of (sess_ID ?q) w3 = Some StateCompleted"
    "\<forall>n\<ge>0. local_stored l (blobs w3) (chunkKey (sess_ID ?q) n) = None"
    using drain_one_delivers [OF h1(2) up found row(1-3) st row(4,5), of beats x]
    by (metis (no_types, lifting) job.select_convs(1))
  have "finalize_DrainJobs p s beats limit (w2, x) = ((1, None), w3, x')"
    using claim d(1) by (simp add: finalize_DrainJobs_def on_upload_def)
  then show ?thesis using puts val enq(1) d(2-5) by auto
qed

text \<open>A pipeline that keeps the originals it is given.\<close>

type_synonym shelf = "string \<Rightarrow> string option"

definition demo_pipeline :: "shelf Pipeline" where
  "demo_pipeline = \<lparr>GetByID = \<lambda>v x. Some ''alice'',
     AttachOriginal = \<lambda>own v name a (fs, x).
       (Inr v, fs, x(v \<mapsto> fst (assembler_reads demo_root (replicate 100 64) a fs))),
     Process = \<lambda>v key (fs, x). (None, fs, x),
     ReplaceSource = \<lambda>actor v name a cm (fs, x).
       (Inr v, fs, x(v \<mapsto> fst (assembler_reads demo_root (replicate 100 64) a fs))),
     onReplaced = None\<rparr>"

lemma demo_stores: "stores_stream demo_pipeline demo_root (\<lambda>x. x) (sess_ID demo_session) ''v'' ''abcde''"
proof -
  have "assembler_reads demo_root (replicate 100 64) a fs = (''abcde'', Some EOF)"
    if "delivers demo_root a fs ''abcde''" for a fs
    using that unfolding delivers_def by (rule allE [where x = "replicate 100 64"]) (simp add: list_all_iff)
  then show ?thesis by (simp add: stores_stream_def demo_pipeline_def)
qed

text \<open>Another upload's job waits for its next attempt.\<close>

definition demo_busy_world :: upload_world where
  "demo_busy_world = demo_world\<lparr>finalize_jobs := [\<lparr>job_id = ''j0'', job_key = ''other'', job_payload = \<lparr>fj_VideoID = ''v0'',
     fj_Purpose = PurposeUpload, fj_CanManage = False\<rparr>, job_state = Pending, job_attempts = 1, job_next = Minute, job_error = []\<rparr>]\<rparr>"

theorem upload_delivered_witness:
  "\<exists>sts w1 job w2 w3 x'. put_all demo_service (sess_ID demo_session) ''alice'' demo_puts demo_busy_world = (Inr sts, w1) \<and>
    ValidateComplete demo_service (sess_ID demo_session) ''alice'' w1 = (Inr demo_session, w1) \<and>
    finalize_Enqueue ''j1'' (sess_ID demo_session) ''v'' PurposeUpload False w1 = (Inr job, w2) \<and>
    finalize_DrainJobs demo_pipeline demo_service (\<lambda>_. [Minute]) 4 (w2, Map.empty) = ((1, None), w3, x') \<and>
    x' ''v'' = Some ''abcde'' \<and>
    (\<exists>job'. finalize_jobs w3 = finalize_jobs demo_busy_world @ [job'] \<and> job_id job' = ''j1'' \<and> job_state job' = Done) \<and>
    state_of (sess_ID demo_session) w3 = Some StateCompleted \<and>
    (\<forall>n\<ge>0. local_stored demo_root (blobs w3) (chunkKey (sess_ID demo_session) n) = None)"
proof (rule upload_delivered)
  have t: "chunk_total demo_session = 3"
    by (simp add: demo_session_def totalChunks_def wrap64_def signed_divide_int_def)
  show "awaiting demo_service demo_root ''abcde'' demo_session ''alice'' demo_busy_world"
    using demo_awaiting by (simp add: awaiting_def demo_busy_world_def)
  show "area_ready demo_root (sess_ID demo_session) (blobs demo_busy_world)"
    using demo_area by (simp add: demo_session_def demo_busy_world_def)
  show "filter (claimable (w_now demo_busy_world)) (finalize_jobs demo_busy_world) = []"
    "''j1'' \<notin> set (map job_id (finalize_jobs demo_busy_world))"
    "\<not> queue_has_live (sess_ID demo_session) (finalize_jobs demo_busy_world)"
    by (simp_all add: demo_busy_world_def demo_world_def claimable_def queue_has_live_def demo_session_def demo_id_def)
  show "\<forall>(n, r)\<in>set demo_puts. n < chunk_total demo_session \<and>
      drain r = (chunk_of (sess_ChunkSize demo_session) ''abcde'' n, EOF)"
    unfolding t by (simp add: demo_puts_def demo_session_def chunk_of_def)
  show "fst ` set demo_puts = {..<chunk_total demo_session}" unfolding t by (auto simp: demo_puts_def)
  show "stores_stream demo_pipeline demo_root (\<lambda>x. x) (sess_ID demo_session) ''v'' ''abcde''" by (rule demo_stores)
qed (simp_all add: PurposeUpload_def PurposeReplace_def)

section \<open>Histories the guards do not cover\<close>

text \<open>Assemble refuses a completed or cancelled session, but accepts it after the MarkProcessing
  call with which the worker starts every run.\<close>

theorem rerun_completed_session:
  assumes "svc_blobs u = Some l" "w_faults w = []" "find_session (job_key row) (sessions w) = Some sess"
    "sess_State sess \<in> {StateCompleted, StateCancelled}" "checkChunksComplete sess w = (Inr (), w)"
  shows "fst (Assemble u (job_key row) w) = Inl ErrNotActive \<and>
    (\<exists>a. Assemble u (job_key row) (snd (MarkProcessing (job_key row) w)) =
       (Inr (sess\<lparr>sess_State := StateProcessing, sess_FailureReason := []\<rparr>, a), snd (MarkProcessing (job_key row) w)))"
proof (rule conjI)
  have "\<not> Finalizing (sess_State sess)" using assms(4) by (auto simp: Finalizing_def)
  then show "fst (Assemble u (job_key row) w) = Inl ErrNotActive"
    using assms(1-3) by (simp add: Assemble_def op_simps db_healthy GetUploadSession_def)
next
  let ?s = "sess\<lparr>sess_State := StateProcessing, sess_FailureReason := []\<rparr>"
  obtain w1 where m: "MarkProcessing (job_key row) w = (Inr (), w1)" "w_faults w1 = []"
    "upload_chunks w1 = upload_chunks w" "find_session (job_key row) (sessions w1) = Some ?s"
    using SetState_healthy [OF assms(2,3), of StateProcessing] by (auto simp: MarkProcessing_def)
  have "checkChunksComplete ?s w1 = (Inr (), w1)"
    using assms(2,5) m(2,3)
    by (simp add: checkChunksComplete_def op_simps db_healthy ListUploadChunks_def cong: option.case_cong split: if_splits)
  then show "\<exists>a. Assemble u (job_key row) (snd (MarkProcessing (job_key row) w)) =
      (Inr (?s, a), snd (MarkProcessing (job_key row) w))"
    using assms(1) m by (simp add: Assemble_def op_simps db_healthy GetUploadSession_def Finalizing_def)
qed

definition demo_done_world :: upload_world where
  "demo_done_world = demo_world\<lparr>sessions := [demo_session\<lparr>sess_State := StateCompleted\<rparr>],
     upload_chunks := map (\<lambda>(n, k). \<lparr>chunk_upload = demo_id, chunk_N = n, chunk_SizeBytes = k\<rparr>) [(0, 2), (1, 2), (2, 1)]\<rparr>"

definition demo_rerun_job :: finalize_job where
  "demo_rerun_job = \<lparr>job_id = ''j1'', job_key = demo_id, job_payload = \<lparr>fj_VideoID = ''v'', fj_Purpose = PurposeUpload,
     fj_CanManage = False\<rparr>, job_state = Running, job_attempts = 1, job_next = Hour, job_error = []\<rparr>"

lemma demo_done_complete:
  "checkChunksComplete (demo_session\<lparr>sess_State := StateCompleted\<rparr>) demo_done_world = (Inr (), demo_done_world)"
  by (simp add: checkChunksComplete_def op_simps db_healthy demo_done_world_def demo_world_def ListUploadChunks_def
      demo_session_def chunk_rows_def chunkExpectedSize_def totalChunks_def wrap64_def signed_divide_int_def upt_rec)

theorem rerun_completed_session_witness:
  "fst (Assemble demo_service (job_key demo_rerun_job) demo_done_world) = Inl ErrNotActive \<and>
    (\<exists>a. Assemble demo_service (job_key demo_rerun_job) (snd (MarkProcessing (job_key demo_rerun_job) demo_done_world)) =
       (Inr (demo_session\<lparr>sess_State := StateCompleted, sess_State := StateProcessing, sess_FailureReason := []\<rparr>, a),
        snd (MarkProcessing (job_key demo_rerun_job) demo_done_world)))"
  by (rule rerun_completed_session [where l = demo_root, OF _ _ _ _ demo_done_complete])
    (simp_all add: demo_service_def NewService_def WithChunkSize_def demo_done_world_def demo_world_def demo_rerun_job_def
      find_session_def demo_session_def)

text \<open>If a completion is accepted between the two steps of a cancel, the cancel still goes
  through: the session is cancelled and its chunks deleted while a live job waits for them.\<close>

theorem cancel_overtakes_finalize:
  assumes "svc_blobs s = Some l" "w_faults w = []" "find_session i (sessions w) = Some sess" "sess_State sess = StateActive"
    "newID \<notin> set (map job_id (finalize_jobs w))" "\<not> queue_has_live i (finalize_jobs w)"
    "plain_segment i" "area_ready l i (blobs w)"
  shows "\<exists>job w1 w2. finalize_Enqueue newID i v purpose canManage w = (Inr job, w1) \<and>
    Cancel_write s i sess w1 = (Inr (), w2) \<and> state_of i w2 = Some StateCancelled \<and>
    queue_has_live i (finalize_jobs w2) \<and> (\<forall>n\<ge>0. local_stored l (blobs w2) (chunkKey i n) = None)"
proof -
  from Enqueue_active [OF assms(2-6), of v purpose canManage]
  obtain job w1 where e: "finalize_Enqueue newID i v purpose canManage w = (Inr job, w1)"
    "finalize_jobs w1 = finalize_jobs w @ [job]" "job_key job = i" "live job" "w_faults w1 = []" "blobs w1 = blobs w"
    "find_session i (sessions w1) = Some (sess\<lparr>sess_State := StateQueued, sess_FailureReason := []\<rparr>)"
    by (auto simp: live_def)
  obtain w2 where c: "db (SetUploadSessionState i StateCancelled) w1 = (Inr (), w2)" "blobs w2 = blobs w1"
    "finalize_jobs w2 = finalize_jobs w1" "state_of i w2 = Some StateCancelled"
    using SetState_healthy [OF e(5,7), of StateCancelled] by (auto simp: state_of_def)
  have r: "local_reach l (blobs w2) (chunkPrefix i)" using area_reaches_prefix [OF assms(7,8)] c(2) e(6) by simp
  let ?w3 = "w2\<lparr>blobs := local_forget l (chunkPrefix i) (blobs w2)\<rparr>"
  have "Cancel_write s i sess w1 = (Inr (), ?w3)"
    using c(1) assms(4) deleteChunks_eq [OF assms(1) r] by (simp add: Cancel_write_def op_simps Finalizing_def)
  then show ?thesis
    using e(1-4) c(3,4) forgotten_chunks [OF assms(7) r] by (auto simp: state_of_def queue_has_live_def)
qed

theorem cancel_overtakes_finalize_witness:
  "\<exists>job w1 w2. finalize_Enqueue ''j1'' demo_id ''v'' PurposeUpload False demo_world = (Inr job, w1) \<and>
    Cancel_write demo_service demo_id demo_session w1 = (Inr (), w2) \<and> state_of demo_id w2 = Some StateCancelled \<and>
    queue_has_live demo_id (finalize_jobs w2) \<and> (\<forall>n\<ge>0. local_stored demo_root (blobs w2) (chunkKey demo_id n) = None)"
  by (rule cancel_overtakes_finalize [OF _ _ _ _ _ _ _ demo_area])
    (simp_all add: demo_service_def NewService_def WithChunkSize_def demo_world_def demo_session_def
      find_session_def queue_has_live_def plain_segment_def demo_id_def)

end
