(* ===== verification/Transcode.thy ===== *)
theory Transcode
  imports Durable_Queue Worker_Loop Numerals
begin

text \<open>
  The transcoding pipeline (\<open>internal/transcode/service.go\<close> with the statements of \<open>transcoding.sql\<close>
  and \<open>video_files.sql\<close>).

  The world holds the job queue, the generation column of the videos, the playlists, renditions,
  files and progress steps; a statement that violates a constraint of the schema fails and changes
  nothing. The transcoder and the two hooks are parameters with a state \<open>'x\<close> of their own. The
  transcoder returns, with its result, the progress reports it made on the way: the callback answers
  nothing, so their order is all that matters. Text of driver errors is a parameter of the service.
  Logging and the operational projection (\<open>jobtrace\<close>) are left out; the jobs of one drain run in
  sequence.
\<close>

section \<open>Data\<close>

definition t_maxAttempts :: int where "t_maxAttempts = 5"
definition t_baseBackoff :: int where "t_baseBackoff = Minute"
definition t_maxBackoff :: int where "t_maxBackoff = Hour"
definition maxLastErrorLen :: nat where "maxLastErrorLen = 500"

definition TargetAll :: string where "TargetAll = ''all''"
definition TargetHLS :: string where "TargetHLS = ''hls''"
definition TargetWebVideo :: string where "TargetWebVideo = ''web_video''"

definition DefaultMinFreeScratchBytes :: int where "DefaultMinFreeScratchBytes = 10 * 2 ^ 30"
definition scratchMultiple :: int where "scratchMultiple = 3"
definition scratchRetryDelay :: int where "scratchRetryDelay = 5 * Minute"

datatype PlaylistState = PlaylistReady | PlaylistFailed

record transcode_payload =
  tj_SourceKey :: string
  tj_Type :: string

type_synonym transcode_job = "transcode_payload job"

record StreamingPlaylist =
  pl_MasterKey :: string
  pl_State :: PlaylistState
  pl_Format :: string

record VideoRendition =
  rd_Video :: string
  rd_Height :: int
  rd_Width :: int
  rd_KeyPrefix :: string
  rd_SizeBytes :: int

record VideoFile =
  vf_Video :: string
  vf_Kind :: string
  vf_StorageKey :: string
  vf_ContentType :: string
  vf_OriginalName :: string
  vf_SizeBytes :: int
  vf_Sha256 :: string

record TranscodeStep =
  ts_Job :: string
  ts_Video :: string
  ts_Format :: string
  ts_Height :: int
  ts_Width :: int
  ts_State :: string
  ts_Stage :: string
  ts_Percent :: int
  ts_Started :: "int option"
  ts_Finished :: "int option"

record transcode_world = world +
  t_jobs :: "transcode_payload queue"
  t_generation :: "(string \<times> int) list"
  t_playlists :: "string \<Rightarrow> StreamingPlaylist option"
  t_renditions :: "VideoRendition list"
  t_files :: "VideoFile list"
  t_steps :: "TranscodeStep list"

type_synonym 'a t_op = "(transcode_world, db_error, 'a) op"
type_synonym 'a t_stmt = "transcode_world \<Rightarrow> (db_error + 'a) \<times> transcode_world"

text \<open>\<open>t_generation\<close> is the \<open>videos\<close> table: a foreign key to it holds when the video has an entry.\<close>

definition has_video :: "string \<Rightarrow> transcode_world \<Rightarrow> bool" where
  "has_video v w \<longleftrightarrow> v \<in> set (map fst (t_generation w))"

section \<open>Statements\<close>

definition EnqueueTranscodeJob :: "string \<Rightarrow> string \<Rightarrow> string \<Rightarrow> string \<Rightarrow> unit t_stmt" where
  "EnqueueTranscodeJob newID v key type w =
     (if \<not> has_video v w \<or> newID \<in> set (map job_id (t_jobs w)) then (Inl ErrDB, w)
      else (Inr (), w\<lparr>t_jobs := snd (queue_enqueue (w_now w) newID v
              \<lparr>tj_SourceKey = key, tj_Type = type\<rparr> (t_jobs w))\<rparr>))"

definition BumpVideoTranscodeGeneration :: "string \<Rightarrow> int t_stmt" where
  "BumpVideoTranscodeGeneration v w = (case map_of (t_generation w) v of
      None \<Rightarrow> (Inl ErrDB, w)
    | Some g \<Rightarrow> if g + 1 \<ge> 2 ^ 31 then (Inl ErrDB, w)
               else (Inr (g + 1), w\<lparr>t_generation := map (\<lambda>(u, k). if u = v then (u, k + 1) else (u, k)) (t_generation w)\<rparr>))"

definition GetVideoTranscodeGeneration :: "string \<Rightarrow> int t_stmt" where
  "GetVideoTranscodeGeneration v w = (case map_of (t_generation w) v of None \<Rightarrow> Inl ErrDB | Some g \<Rightarrow> Inr g, w)"

definition ClaimDueTranscodeJobs :: "int \<Rightarrow> transcode_job list t_stmt" where
  "ClaimDueTranscodeJobs limit w = (if limit < 0 then (Inl ErrDB, w)
      else case queue_claim (w_now w) (nat limit) (t_jobs w) of (js, q) \<Rightarrow> (Inr js, w\<lparr>t_jobs := q\<rparr>))"

definition HasLiveTranscodeJob :: "string \<Rightarrow> bool t_stmt" where
  "HasLiveTranscodeJob v w = (Inr (queue_has_live v (t_jobs w)), w)"

text \<open>Unlike the finalize queue's, this completion keeps the last error.\<close>

definition CompleteTranscodeJob :: "string \<Rightarrow> unit t_stmt" where
  "CompleteTranscodeJob i w = (Inr (), w\<lparr>t_jobs := update_jobs (\<lambda>j. job_id j = i) (\<lambda>j. j\<lparr>job_state := Done\<rparr>) (t_jobs w)\<rparr>)"

definition RescheduleTranscodeJob :: "string \<Rightarrow> int \<Rightarrow> string \<Rightarrow> unit t_stmt" where
  "RescheduleTranscodeJob i at err w = (case queue_reschedule i at err (t_jobs w) of
      (ok, q) \<Rightarrow> (if ok then Inr () else Inl ErrDB, w\<lparr>t_jobs := q\<rparr>))"

definition DeferTranscodeJob :: "string \<Rightarrow> int \<Rightarrow> string \<Rightarrow> unit t_stmt" where
  "DeferTranscodeJob i at err w = (case queue_defer i at err (t_jobs w) of
      (ok, q) \<Rightarrow> (if ok then Inr () else Inl ErrDB, w\<lparr>t_jobs := q\<rparr>))"

definition RenewTranscodeJobLease :: "int \<Rightarrow> string \<Rightarrow> unit t_stmt" where
  "RenewTranscodeJobLease at i w = (Inr (), w\<lparr>t_jobs := queue_renew at i (t_jobs w)\<rparr>)"

definition FailTranscodeJob :: "string \<Rightarrow> string \<Rightarrow> unit t_stmt" where
  "FailTranscodeJob i err w = (Inr (), w\<lparr>t_jobs := queue_fail i err (t_jobs w)\<rparr>)"

definition SweepExpiredTranscodeJobs :: "int t_stmt" where
  "SweepExpiredTranscodeJobs w = (case queue_sweep (w_now w) (t_jobs w) of (n, q) \<Rightarrow> (Inr (int n), w\<lparr>t_jobs := q\<rparr>))"

definition UpsertStreamingPlaylist :: "string \<Rightarrow> string \<Rightarrow> PlaylistState \<Rightarrow> string \<Rightarrow> StreamingPlaylist t_stmt" where
  "UpsertStreamingPlaylist v key st format w =
     (let f = (if format = '''' then ''hls-ts'' else format) in
      if \<not> has_video v w \<or> f \<notin> {''hls-ts'', ''cmaf''} then (Inl ErrDB, w)
      else let p = \<lparr>pl_MasterKey = key, pl_State = st, pl_Format = f\<rparr>
           in (Inr p, w\<lparr>t_playlists := (t_playlists w)(v \<mapsto> p)\<rparr>))"

definition MarkStreamingPlaylistFailed :: "string \<Rightarrow> unit t_stmt" where
  "MarkStreamingPlaylistFailed v w =
     (if \<not> has_video v w then (Inl ErrDB, w)
      else (Inr (), w\<lparr>t_playlists := (t_playlists w)(v \<mapsto> \<lparr>pl_MasterKey = '''', pl_State = PlaylistFailed,
              pl_Format = (case t_playlists w v of None \<Rightarrow> ''hls-ts'' | Some p \<Rightarrow> pl_Format p)\<rparr>)\<rparr>))"

definition GetStreamingPlaylist :: "string \<Rightarrow> StreamingPlaylist t_stmt" where
  "GetStreamingPlaylist v w = (case t_playlists w v of None \<Rightarrow> Inl ErrDB | Some p \<Rightarrow> Inr p, w)"

definition DeleteStreamingPlaylist :: "string \<Rightarrow> unit t_stmt" where
  "DeleteStreamingPlaylist v w = (Inr (), w\<lparr>t_playlists := (t_playlists w)(v := None)\<rparr>)"

definition CreateVideoRendition :: "VideoRendition \<Rightarrow> unit t_stmt" where
  "CreateVideoRendition r w =
     (if \<not> has_video (rd_Video r) w \<or> rd_Height r \<le> 0 \<or> rd_Width r \<le> 0 \<or> rd_SizeBytes r < 0 \<or>
         list_ex (\<lambda>r'. rd_Video r' = rd_Video r \<and> rd_Height r' = rd_Height r) (t_renditions w)
      then (Inl ErrDB, w) else (Inr (), w\<lparr>t_renditions := t_renditions w @ [r]\<rparr>))"

definition DeleteVideoRenditions :: "string \<Rightarrow> unit t_stmt" where
  "DeleteVideoRenditions v w = (Inr (), w\<lparr>t_renditions := filter (\<lambda>r. rd_Video r \<noteq> v) (t_renditions w)\<rparr>)"

definition ListVideoRenditions :: "string \<Rightarrow> VideoRendition list t_stmt" where
  "ListVideoRenditions v w = (Inr (sort_key (\<lambda>r. - rd_Height r) (filter (\<lambda>r. rd_Video r = v) (t_renditions w))), w)"

definition CreateVideoFile :: "VideoFile \<Rightarrow> unit t_stmt" where
  "CreateVideoFile f w =
     (if \<not> has_video (vf_Video f) w \<or>
         vf_Kind f \<notin> {''original'', ''rendition'', ''thumbnail'', ''storyboard'', ''storyboard_vtt'', ''webm''}
      then (Inl ErrDB, w) else (Inr (), w\<lparr>t_files := t_files w @ [f]\<rparr>))"

definition DeleteVideoFilesByVideoAndKind :: "string \<Rightarrow> string \<Rightarrow> unit t_stmt" where
  "DeleteVideoFilesByVideoAndKind v kind w =
     (Inr (), w\<lparr>t_files := filter (\<lambda>f. \<not> (vf_Video f = v \<and> vf_Kind f = kind)) (t_files w)\<rparr>)"

definition GetVideoFileSizeByStorageKey :: "string \<Rightarrow> int t_stmt" where
  "GetVideoFileSizeByStorageKey key w = (case find (\<lambda>f. vf_StorageKey f = key) (t_files w) of
      None \<Rightarrow> Inl ErrDB | Some f \<Rightarrow> Inr (vf_SizeBytes f), w)"

definition step_valid :: "TranscodeStep \<Rightarrow> transcode_world \<Rightarrow> bool" where
  "step_valid t w \<longleftrightarrow> ts_Job t \<in> set (map job_id (t_jobs w)) \<and> has_video (ts_Video t) w \<and>
     ts_Format t \<in> {''hls'', ''web_video''} \<and> 0 < ts_Height t \<and> 0 < ts_Width t \<and>
     ts_State t \<in> {''queued'', ''running'', ''succeeded'', ''failed''} \<and> 0 \<le> ts_Percent t \<and> ts_Percent t \<le> 100"

definition same_step :: "TranscodeStep \<Rightarrow> TranscodeStep \<Rightarrow> bool" where
  "same_step t u \<longleftrightarrow> ts_Job t = ts_Job u \<and> ts_Format t = ts_Format u \<and> ts_Height t = ts_Height u"

definition UpsertTranscodeStep :: "TranscodeStep \<Rightarrow> unit t_stmt" where
  "UpsertTranscodeStep t w =
     (let finished = (if ts_State t \<in> {''succeeded'', ''failed''} then Some (w_now w) else None);
          started = (if ts_State t = ''running'' then Some (w_now w) else None) in
      if \<not> step_valid t w then (Inl ErrDB, w)
      else if list_ex (same_step t) (t_steps w)
      then (Inr (), w\<lparr>t_steps := map (\<lambda>u. if same_step t u
             then u\<lparr>ts_Width := ts_Width t, ts_State := ts_State t, ts_Stage := ts_Stage t, ts_Percent := ts_Percent t,
                    ts_Started := (if ts_Started u = None then started else ts_Started u), ts_Finished := finished\<rparr>
             else u) (t_steps w)\<rparr>)
      else (Inr (), w\<lparr>t_steps := t_steps w @ [t\<lparr>ts_Started := started, ts_Finished := finished\<rparr>]\<rparr>))"

section \<open>The service\<close>

datatype media_error = MediaError string | PermanentError string

fun error_text :: "media_error \<Rightarrow> string" where
  "error_text (MediaError msg) = msg"
| "error_text (PermanentError msg) = msg"

fun IsPermanent :: "media_error \<Rightarrow> bool" where
  "IsPermanent (PermanentError _) = True"
| "IsPermanent (MediaError _) = False"

record HLSRendition =
  hr_Height :: int
  hr_Width :: int
  hr_KeyPrefix :: string
  hr_SizeBytes :: int

record HLSResult =
  hls_MasterKey :: string
  hls_Format :: string
  hls_Renditions :: "HLSRendition list"
  hls_WebMKey :: string
  hls_WebMBytes :: int
  hls_WebMSHA256 :: string

record WebVideoResult =
  wv_Height :: int
  wv_StorageKey :: string
  wv_SizeBytes :: int
  wv_SHA256 :: string

record TranscodeProgress =
  pr_Format :: string
  pr_Height :: int
  pr_Width :: int
  pr_State :: string
  pr_Stage :: string
  pr_Percent :: int

type_synonym ('x, 'md, 'r) encoder =
  "string \<Rightarrow> string \<Rightarrow> int \<Rightarrow> 'md \<Rightarrow> 'x \<Rightarrow> (media_error + 'r) \<times> TranscodeProgress list \<times> 'x"

record ('x, 'md) TargetTranscoder =
  Probe :: "string \<Rightarrow> 'x \<Rightarrow> (media_error + 'md) \<times> 'x"
  TranscodeHLS :: "('x, 'md, HLSResult) encoder"
  TranscodeWebVideos :: "('x, 'md, WebVideoResult list) encoder"
  TranscodeAll :: "('x, 'md, HLSResult \<times> WebVideoResult list) encoder"

text \<open>A transcoder either has only the narrow method or implements \<open>TargetTranscoder\<close>.\<close>

datatype ('x, 'md) Transcoder =
    Narrow "string \<Rightarrow> string \<Rightarrow> 'x \<Rightarrow> (media_error + HLSResult) \<times> 'x"
  | Targets "('x, 'md) TargetTranscoder"

text \<open>The providers of one call: \<open>None\<close> is one that is not wired, \<open>Some None\<close> a failed measurement.\<close>

record ('x, 'md) transcode_Service =
  transcoder :: "('x, 'md) Transcoder option"
  onComplete :: "(string \<Rightarrow> 'x \<Rightarrow> 'x) option"
  onFail :: "(string \<Rightarrow> 'x \<Rightarrow> 'x) option"
  enabledFn :: "bool option"
  concurrencyFn :: "int option"
  scratchFn :: "int option option"
  minFreeScratch :: int
  storageWritableFn :: "bool option"
  driverText :: string

type_synonym 'x t_state = "transcode_world \<times> 'x"

definition transcode_NewService :: "string \<Rightarrow> ('x, 'md) Transcoder option \<Rightarrow> ('x, 'md) transcode_Service" where
  "transcode_NewService text t = \<lparr>transcoder = t, onComplete = None, onFail = None, enabledFn = None,
     concurrencyFn = None, scratchFn = None, minFreeScratch = 0, storageWritableFn = None, driverText = text\<rparr>"

definition WithScratchGuard :: "int option \<Rightarrow> int \<Rightarrow> ('x, 'md) transcode_Service \<Rightarrow> ('x, 'md) transcode_Service" where
  "WithScratchGuard free minFree s = s\<lparr>scratchFn := Some free,
     minFreeScratch := (if minFree = 0 then DefaultMinFreeScratchBytes else minFree)\<rparr>"

definition Enabled :: "('x, 'md) transcode_Service \<Rightarrow> bool" where
  "Enabled s \<longleftrightarrow> enabledFn s = None \<or> enabledFn s = Some True"

definition Capable :: "('x, 'md) transcode_Service \<Rightarrow> bool" where
  "Capable s \<longleftrightarrow> transcoder s \<noteq> None"

definition transcode_Concurrency :: "('x, 'md) transcode_Service \<Rightarrow> int" where
  "transcode_Concurrency s = (case concurrencyFn s of None \<Rightarrow> 1 | Some n \<Rightarrow> Clamp n)"

datatype transcode_error = ErrInvalidTarget | ErrNoTranscoder | ErrRepo

definition t_db :: "'a t_stmt \<Rightarrow> (transcode_world, transcode_error, 'a) op" where
  "t_db q = catchE (repoE q) (\<lambda>_. throwE ErrRepo) retE"

definition EnqueueTarget :: "('x, 'md) transcode_Service \<Rightarrow> string \<Rightarrow> string \<Rightarrow> string \<Rightarrow> string \<Rightarrow>
    (transcode_world, transcode_error, unit) op" where
  "EnqueueTarget s newID videoID sourceKey target =
     (if \<not> Enabled s then retE ()
      else guardE (target \<noteq> TargetAll \<and> target \<noteq> TargetHLS \<and> target \<noteq> TargetWebVideo) ErrInvalidTarget
        (bindE (t_db (EnqueueTranscodeJob newID videoID sourceKey target))
           (\<lambda>_ w. (Inr (), ignoreE (t_db (BumpVideoTranscodeGeneration videoID)) w))))"

definition transcode_Enqueue :: "('x, 'md) transcode_Service \<Rightarrow> string \<Rightarrow> string \<Rightarrow> string \<Rightarrow>
    (transcode_world, transcode_error, unit) op" where
  "transcode_Enqueue s newID videoID sourceKey = EnqueueTarget s newID videoID sourceKey TargetAll"

definition LiveJob :: "string \<Rightarrow> (transcode_world, transcode_error, bool) op" where
  "LiveJob videoID = t_db (HasLiveTranscodeJob videoID)"

text \<open>An error counts as busy.\<close>

definition transcode_HasLiveJob :: "string \<Rightarrow> transcode_world \<Rightarrow> bool \<times> transcode_world" where
  "transcode_HasLiveJob videoID w = (case LiveJob videoID w of (Inl _, w') \<Rightarrow> (True, w') | (Inr b, w') \<Rightarrow> (b, w'))"

definition Invalidate :: "string \<Rightarrow> (transcode_world, transcode_error, unit) op" where
  "Invalidate videoID =
     bindE (t_db (DeleteVideoRenditions videoID)) (\<lambda>_.
     bindE (t_db (DeleteVideoFilesByVideoAndKind videoID ''rendition'')) (\<lambda>_.
     bindE (t_db (DeleteVideoFilesByVideoAndKind videoID ''webm'')) (\<lambda>_.
     t_db (DeleteStreamingPlaylist videoID))))"

section \<open>Progress\<close>

definition progressWriteStep :: int where "progressWriteStep = 5"

record stepProgressMark =
  mk_state :: string
  mk_stage :: string
  mk_percent :: int

type_synonym throttle = "string \<times> int \<times> int \<Rightarrow> stepProgressMark option"

definition progress_key :: "TranscodeProgress \<Rightarrow> string \<times> int \<times> int" where
  "progress_key p = (pr_Format p, pr_Height p, pr_Width p)"

definition admit :: "TranscodeProgress \<Rightarrow> throttle \<Rightarrow> bool \<times> throttle" where
  "admit p lst = (let k = progress_key p;
       fresh = \<lparr>mk_state = pr_State p, mk_stage = pr_Stage p, mk_percent = pr_Percent p\<rparr> in
     case lst k of
       None \<Rightarrow> (True, lst(k \<mapsto> fresh))
     | Some prev \<Rightarrow>
         if pr_State p \<noteq> mk_state prev \<or> pr_Stage p \<noteq> mk_stage prev \<or> pr_Percent p \<ge> 100 \<or>
            pr_Percent p < mk_percent prev \<or> wrap64 (pr_Percent p - mk_percent prev) \<ge> progressWriteStep
         then (True, lst(k \<mapsto> fresh)) else (False, lst))"

definition wrap16 :: "int \<Rightarrow> int" where
  "wrap16 x = (x + 2 ^ 15) mod 2 ^ 16 - 2 ^ 15"

definition progress_step :: "transcode_job \<Rightarrow> TranscodeProgress \<Rightarrow> TranscodeStep" where
  "progress_step row p = \<lparr>ts_Job = job_id row, ts_Video = job_key row, ts_Format = pr_Format p,
     ts_Height = wrap32 (pr_Height p), ts_Width = wrap32 (pr_Width p), ts_State = pr_State p, ts_Stage = pr_Stage p,
     ts_Percent = wrap16 (pr_Percent p), ts_Started = None, ts_Finished = None\<rparr>"

fun report :: "transcode_job \<Rightarrow> TranscodeProgress list \<Rightarrow> throttle \<Rightarrow> transcode_world \<Rightarrow> transcode_world" where
  "report row [] lst w = w"
| "report row (p # ps) lst w = (case admit p lst of
     (True, lst') \<Rightarrow> report row ps lst' (ignoreE (t_db (UpsertTranscodeStep (progress_step row p))) w)
   | (False, lst') \<Rightarrow> report row ps lst' w)"

section \<open>Storing a result\<close>

fun create_renditions :: "string \<Rightarrow> HLSRendition list \<Rightarrow> (transcode_world, transcode_error, unit) op" where
  "create_renditions v [] = retE ()"
| "create_renditions v (r # rs) = bindE (t_db (CreateVideoRendition \<lparr>rd_Video = v, rd_Height = wrap32 (hr_Height r),
       rd_Width = wrap32 (hr_Width r), rd_KeyPrefix = hr_KeyPrefix r, rd_SizeBytes = hr_SizeBytes r\<rparr>))
     (\<lambda>_. create_renditions v rs)"

definition storeResult :: "string \<Rightarrow> HLSResult \<Rightarrow> (transcode_world, transcode_error, unit) op" where
  "storeResult videoID res =
     bindE (t_db (DeleteVideoRenditions videoID)) (\<lambda>_.
     bindE (create_renditions videoID (hls_Renditions res)) (\<lambda>_.
     bindE (if hls_WebMKey res \<noteq> ''''
            then bindE (t_db (DeleteVideoFilesByVideoAndKind videoID ''webm'')) (\<lambda>_.
                 t_db (CreateVideoFile \<lparr>vf_Video = videoID, vf_Kind = ''webm'', vf_StorageKey = hls_WebMKey res,
                   vf_ContentType = ''video/webm'', vf_OriginalName = ''vp9.webm'', vf_SizeBytes = hls_WebMBytes res,
                   vf_Sha256 = hls_WebMSHA256 res\<rparr>))
            else retE ()) (\<lambda>_.
     bindE (t_db (UpsertStreamingPlaylist videoID (hls_MasterKey res) PlaylistReady (hls_Format res))) (\<lambda>_. retE ()))))"

fun create_web_videos :: "string \<Rightarrow> WebVideoResult list \<Rightarrow> (transcode_world, transcode_error, unit) op" where
  "create_web_videos v [] = retE ()"
| "create_web_videos v (f # fs) = bindE (t_db (CreateVideoFile \<lparr>vf_Video = v, vf_Kind = ''rendition'',
       vf_StorageKey = wv_StorageKey f, vf_ContentType = ''video/mp4'', vf_OriginalName = Itoa (wv_Height f) @ ''p.mp4'',
       vf_SizeBytes = wv_SizeBytes f, vf_Sha256 = wv_SHA256 f\<rparr>))
     (\<lambda>_. create_web_videos v fs)"

definition storeWebVideos :: "string \<Rightarrow> WebVideoResult list \<Rightarrow> (transcode_world, transcode_error, unit) op" where
  "storeWebVideos videoID files =
     bindE (t_db (DeleteVideoFilesByVideoAndKind videoID ''rendition'')) (\<lambda>_. create_web_videos videoID files)"

section \<open>Running a job\<close>

text \<open>A failure: its text, whether it is permanent, and the target it is attributed to.\<close>

record run_error =
  re_text :: string
  re_permanent :: bool
  re_target :: "string option"

definition media_failure :: "string option \<Rightarrow> media_error \<Rightarrow> run_error" where
  "media_failure target e = \<lparr>re_text = error_text e, re_permanent = IsPermanent e, re_target = target\<rparr>"

definition store_failure :: "('x, 'md) transcode_Service \<Rightarrow> string option \<Rightarrow> run_error" where
  "store_failure s target = \<lparr>re_text = driverText s, re_permanent = False, re_target = target\<rparr>"

definition store :: "('x, 'md) transcode_Service \<Rightarrow> string option \<Rightarrow> (transcode_world, transcode_error, unit) op \<Rightarrow>
    ('x t_state \<Rightarrow> run_error option \<times> 'x t_state) \<Rightarrow> 'x t_state \<Rightarrow> run_error option \<times> 'x t_state" where
  "store s target m k = (\<lambda>(w, x). case m w of
      (Inl _, w') \<Rightarrow> (Some (store_failure s target), w', x)
    | (Inr _, w') \<Rightarrow> k (w', x))"

definition encode :: "transcode_job \<Rightarrow> string \<Rightarrow> ('x \<Rightarrow> (media_error + 'r) \<times> TranscodeProgress list \<times> 'x) \<Rightarrow>
    ('r \<Rightarrow> 'x t_state \<Rightarrow> run_error option \<times> 'x t_state) \<Rightarrow> 'x t_state \<Rightarrow> run_error option \<times> 'x t_state" where
  "encode row target call k = (\<lambda>(w, x). case call x of (r, ps, x') \<Rightarrow>
     (case r of
        Inl e \<Rightarrow> (Some (media_failure (Some target) e), report row ps Map.empty w, x')
      | Inr res \<Rightarrow> k res (report row ps Map.empty w, x')))"

text \<open>The output address of a run; an unreadable one falls back to the legacy prefix 0.\<close>

definition run_generation :: "string \<Rightarrow> transcode_world \<Rightarrow> int \<times> transcode_world" where
  "run_generation v w = (case t_db (GetVideoTranscodeGeneration v) w of (Inl _, w') \<Rightarrow> (0, w') | (Inr n, w') \<Rightarrow> (n, w'))"

definition runTarget :: "('x, 'md) transcode_Service \<Rightarrow> ('x, 'md) Transcoder \<Rightarrow> transcode_job \<Rightarrow> 'x t_state \<Rightarrow>
    run_error option \<times> 'x t_state" where
  "runTarget s t row = (\<lambda>(w, x).
     (let target = (if tj_Type (job_payload row) = '''' then TargetAll else tj_Type (job_payload row));
          v = job_key row; key = tj_SourceKey (job_payload row) in
      case t of
        Narrow transcode \<Rightarrow>
          (case transcode v key x of
             (Inl e, x') \<Rightarrow> (Some (media_failure None e), w, x')
           | (Inr res, x') \<Rightarrow> store s None (storeResult v res) (\<lambda>st. (None, st)) (w, x'))
      | Targets advanced \<Rightarrow>
          (case run_generation v w of (generation, w') \<Rightarrow>
            (case Probe advanced key x of
               (Inl e, x') \<Rightarrow> (Some (media_failure None e), w', x')
             | (Inr md, x') \<Rightarrow>
                 if target = TargetAll then
                   encode row TargetHLS (TranscodeAll advanced v key generation md) (\<lambda>(res, files).
                     store s (Some TargetHLS) (storeResult v res)
                       (store s (Some TargetWebVideo) (storeWebVideos v files) (\<lambda>st. (None, st)))) (w', x')
                 else if target = TargetHLS then
                   encode row TargetHLS (TranscodeHLS advanced v key generation md) (\<lambda>res.
                     store s (Some TargetHLS) (storeResult v res) (\<lambda>st. (None, st))) (w', x')
                 else if target = TargetWebVideo then
                   encode row TargetWebVideo (TranscodeWebVideos advanced v key generation md) (\<lambda>files.
                     store s (Some TargetWebVideo) (storeWebVideos v files) (\<lambda>st. (None, st))) (w', x')
                 else (None, w', x')))))"

definition transcode_backoff :: "int \<Rightarrow> int" where
  "transcode_backoff attempts = Backoff attempts t_baseBackoff t_maxBackoff"

definition affects_hls :: "transcode_job \<Rightarrow> run_error \<Rightarrow> bool" where
  "affects_hls row cause = (case re_target cause of
      None \<Rightarrow> tj_Type (job_payload row) \<noteq> TargetWebVideo | Some t \<Rightarrow> t = TargetHLS)"

definition transcode_recordFailure :: "('x, 'md) transcode_Service \<Rightarrow> transcode_job \<Rightarrow> run_error \<Rightarrow> 'x t_state \<Rightarrow> 'x t_state" where
  "transcode_recordFailure s row cause = (\<lambda>(w, x).
     (let attempts = job_attempts row + 1; msg = take maxLastErrorLen (re_text cause) in
      if attempts \<ge> t_maxAttempts \<or> re_permanent cause
      then (let w1 = ignoreE (t_db (FailTranscodeJob (job_id row) msg)) w;
                w2 = (if affects_hls row cause then ignoreE (t_db (MarkStreamingPlaylistFailed (job_key row))) w1 else w1)
            in (w2, case onFail s of None \<Rightarrow> x | Some hook \<Rightarrow> hook (job_key row) x))
      else (ignoreE (t_db (RescheduleTranscodeJob (job_id row) (w_now w + transcode_backoff attempts) msg)) w, x)))"

text \<open>The free scratch space, \<open>None\<close> when it is not known.\<close>

definition freeScratch :: "('x, 'md) transcode_Service \<Rightarrow> int option" where
  "freeScratch s = (case scratchFn s of None \<Rightarrow> None | Some r \<Rightarrow> r)"

definition wrapu64 :: "int \<Rightarrow> int" where
  "wrapu64 x = x mod 2 ^ 64"

definition scratchFits :: "string \<Rightarrow> int \<Rightarrow> transcode_world \<Rightarrow> bool \<times> transcode_world" where
  "scratchFits sourceKey free w = (case t_db (GetVideoFileSizeByStorageKey sourceKey) w of
      (Inl _, w') \<Rightarrow> (True, w')
    | (Inr sz, w') \<Rightarrow> (sz \<le> 0 \<or> free \<ge> wrapu64 (sz * scratchMultiple), w'))"

definition run_job :: "('x, 'md) transcode_Service \<Rightarrow> ('x, 'md) Transcoder \<Rightarrow> (string \<Rightarrow> int list) \<Rightarrow> transcode_job \<Rightarrow>
    'x t_state \<Rightarrow> nat \<times> 'x t_state" where
  "run_job s t beats row = (\<lambda>(w, x).
     (let w1 = fold (\<lambda>at. ignoreE (t_db (RenewTranscodeJobLease at (job_id row)))) (beats (job_id row)) w in
      case runTarget s t row (w1, x) of
        (Some cause, st) \<Rightarrow> (0, transcode_recordFailure s row cause st)
      | (None, (w2, x')) \<Rightarrow> (1, ignoreE (t_db (CompleteTranscodeJob (job_id row))) w2,
           case onComplete s of None \<Rightarrow> x' | Some hook \<Rightarrow> hook (job_key row) x')))"

definition drain_job :: "('x, 'md) transcode_Service \<Rightarrow> ('x, 'md) Transcoder \<Rightarrow> (string \<Rightarrow> int list) \<Rightarrow> int option \<Rightarrow>
    transcode_job \<Rightarrow> 'x t_state \<Rightarrow> nat \<times> 'x t_state" where
  "drain_job s t beats free row = (\<lambda>(w, x).
     (case (case free of None \<Rightarrow> (True, w) | Some n \<Rightarrow> scratchFits (tj_SourceKey (job_payload row)) n w) of
        (False, w') \<Rightarrow> (0, ignoreE (t_db (DeferTranscodeJob (job_id row) (w_now w' + scratchRetryDelay)
            ''deferred: not enough scratch space for this source'')) w', x)
      | (True, w') \<Rightarrow> run_job s t beats row (w', x)))"

fun drain_jobs :: "('x, 'md) transcode_Service \<Rightarrow> ('x, 'md) Transcoder \<Rightarrow> (string \<Rightarrow> int list) \<Rightarrow> int option \<Rightarrow>
    transcode_job list \<Rightarrow> nat \<Rightarrow> 'x t_state \<Rightarrow> nat \<times> 'x t_state" where
  "drain_jobs s t beats free [] n st = (n, st)"
| "drain_jobs s t beats free (row # rows) n st =
     (case drain_job s t beats free row st of (k, st') \<Rightarrow> drain_jobs s t beats free rows (n + k) st')"

definition transcode_DrainJobs :: "('x, 'md) transcode_Service \<Rightarrow> (string \<Rightarrow> int list) \<Rightarrow> int \<Rightarrow> 'x t_state \<Rightarrow>
    (nat \<times> transcode_error option) \<times> 'x t_state" where
  "transcode_DrainJobs s beats limit = (\<lambda>(w, x).
     (case transcoder s of
        None \<Rightarrow> ((0, Some ErrNoTranscoder), w, x)
      | Some t \<Rightarrow>
          if \<not> Enabled s then ((0, None), w, x)
          else if (case freeScratch s of None \<Rightarrow> False | Some free \<Rightarrow> free < minFreeScratch s) then ((0, None), w, x)
          else if storageWritableFn s = Some False then ((0, None), w, x)
          else case t_db (ClaimDueTranscodeJobs (wrap32 limit)) w of
            (Inl e, w') \<Rightarrow> ((0, Some e), w', x)
          | (Inr rows, w') \<Rightarrow> (case drain_jobs s t beats (freeScratch s) rows 0 (w', x) of
              (n, st) \<Rightarrow> ((n, None), st))))"

text \<open>A lookup error reads as absent.\<close>

definition Playlist :: "string \<Rightarrow> transcode_world \<Rightarrow> StreamingPlaylist option \<times> transcode_world" where
  "Playlist videoID w = (case t_db (GetStreamingPlaylist videoID) w of (Inl _, w') \<Rightarrow> (None, w') | (Inr p, w') \<Rightarrow> (Some p, w'))"

definition Renditions :: "string \<Rightarrow> transcode_world \<Rightarrow> VideoRendition list \<times> transcode_world" where
  "Renditions videoID w = (case t_db (ListVideoRenditions videoID) w of (Inl _, w') \<Rightarrow> ([], w') | (Inr rs, w') \<Rightarrow> (rs, w'))"

end
