(* ===== verification/Transcode_Props.thy ===== *)
theory Transcode_Props
  imports Transcode
begin

text \<open>
  Correctness of the transcoding pipeline: the promotion of a finished tree comes last, the queue
  invariant survives every operation and every failure, admission control never spends an attempt,
  the failure ladder, the throttle of progress writes, and the generation an idempotent enqueue
  moves under a running job.
\<close>

section \<open>Statements under faults\<close>

lemma t_db_healthy: "w_faults w = [] \<Longrightarrow> t_db q w = (case q w of (Inl _, w') \<Rightarrow> (Inl ErrRepo, w') | (Inr a, w') \<Rightarrow> (Inr a, w'))"
  by (simp add: t_db_def catchE_def repoE_healthy healthy_noop throwE_def retE_def split: prod.splits sum.splits)

lemma keeps_t_db:
  assumes "\<And>v fs. f (v\<lparr>w_faults := fs\<rparr>) = f v" "\<And>v. f (snd (q v)) = f v"
  shows "keeps f (t_db q)"
  unfolding t_db_def by (intro keeps_rules keeps_repoE assms)

lemma preserves_t_db:
  assumes "\<And>v fs. P v \<Longrightarrow> P (v\<lparr>w_faults := fs\<rparr>)" "\<And>v. P v \<Longrightarrow> P (snd (q v))"
  shows "preserves P (t_db q)"
  unfolding t_db_def by (intro preserves_rules preserves_repoE assms)

lemma t_db_Inr:
  "t_db q w = (Inr a, w') \<Longrightarrow> \<exists>fs. q (w\<lparr>w_faults := fs\<rparr>) = (Inr a, w')"
  by (auto simp: t_db_def catchE_def repoE_def throwE_def retE_def split: list.splits bool.splits sum.splits prod.splits)

lemmas statement_defs = EnqueueTranscodeJob_def BumpVideoTranscodeGeneration_def GetVideoTranscodeGeneration_def
  ClaimDueTranscodeJobs_def HasLiveTranscodeJob_def CompleteTranscodeJob_def RescheduleTranscodeJob_def
  DeferTranscodeJob_def RenewTranscodeJobLease_def FailTranscodeJob_def SweepExpiredTranscodeJobs_def
  UpsertStreamingPlaylist_def MarkStreamingPlaylistFailed_def GetStreamingPlaylist_def DeleteStreamingPlaylist_def
  CreateVideoRendition_def DeleteVideoRenditions_def ListVideoRenditions_def CreateVideoFile_def
  DeleteVideoFilesByVideoAndKind_def GetVideoFileSizeByStorageKey_def UpsertTranscodeStep_def

section \<open>Promotion comes last\<close>

definition stored_rendition :: "string \<Rightarrow> HLSRendition \<Rightarrow> VideoRendition" where
  "stored_rendition v r = \<lparr>rd_Video = v, rd_Height = wrap32 (hr_Height r), rd_Width = wrap32 (hr_Width r),
     rd_KeyPrefix = hr_KeyPrefix r, rd_SizeBytes = hr_SizeBytes r\<rparr>"

definition promoted :: "HLSResult \<Rightarrow> StreamingPlaylist" where
  "promoted res = \<lparr>pl_MasterKey = hls_MasterKey res, pl_State = PlaylistReady,
     pl_Format = (if hls_Format res = '''' then ''hls-ts'' else hls_Format res)\<rparr>"

lemma keeps_create_renditions: "keeps t_playlists (create_renditions v rs)"
  by (induction rs) (auto intro!: keeps_rules keeps_t_db simp: CreateVideoRendition_def)

lemma create_renditions_Inr:
  "create_renditions v rs w = (Inr u, w') \<Longrightarrow> t_renditions w' = t_renditions w @ map (stored_rendition v) rs"
proof (induction rs arbitrary: w)
  case (Cons r rs)
  then obtain w1 where w1: "t_db (CreateVideoRendition (stored_rendition v r)) w = (Inr (), w1)"
    "create_renditions v rs w1 = (Inr u, w')"
    by (auto simp: bindE_Inr stored_rendition_def)
  then have "t_renditions w1 = t_renditions w @ [stored_rendition v r]"
    by (auto dest!: t_db_Inr simp: CreateVideoRendition_def split: if_splits)
  then show ?case using Cons.IH [OF w1(2)] by simp
qed (simp add: retE_def)

definition store_webm :: "string \<Rightarrow> HLSResult \<Rightarrow> (transcode_world, transcode_error, unit) op" where
  "store_webm v res = (if hls_WebMKey res \<noteq> ''''
     then bindE (t_db (DeleteVideoFilesByVideoAndKind v ''webm'')) (\<lambda>_.
       t_db (CreateVideoFile \<lparr>vf_Video = v, vf_Kind = ''webm'', vf_StorageKey = hls_WebMKey res,
         vf_ContentType = ''video/webm'', vf_OriginalName = ''vp9.webm'', vf_SizeBytes = hls_WebMBytes res,
         vf_Sha256 = hls_WebMSHA256 res\<rparr>))
     else retE ())"

lemma storeResult_eq:
  "storeResult v res = bindE (t_db (DeleteVideoRenditions v)) (\<lambda>_.
     bindE (create_renditions v (hls_Renditions res)) (\<lambda>_. bindE (store_webm v res) (\<lambda>_.
     bindE (t_db (UpsertStreamingPlaylist v (hls_MasterKey res) PlaylistReady (hls_Format res))) (\<lambda>_. retE ()))))"
  by (simp add: storeResult_def store_webm_def)

lemma keeps_store_webm: "keeps t_playlists (store_webm v res)" "keeps t_renditions (store_webm v res)"
  unfolding store_webm_def
  by (intro keeps_rules keeps_t_db; simp add: DeleteVideoFilesByVideoAndKind_def CreateVideoFile_def)+

text \<open>Where an operation is a chain, an error leaves what all but its last step keep.\<close>

lemma bindE_keeps_Inl:
  "keeps f m \<Longrightarrow> (\<And>a s. k a s = (Inl e, s') \<Longrightarrow> f s' = f s) \<Longrightarrow> bindE m k s = (Inl e, s') \<Longrightarrow> f s' = f s"
  unfolding keeps_def bindE_def by (auto split: prod.splits sum.splits) (metis snd_conv)+

text \<open>C38. Under every schedule of database failures, storing a transcode result either fails and
  leaves every playlist as it was, or succeeds with the video's playlist ready at the new tree
  and its renditions replaced by the new ladder.\<close>

theorem storeResult_promotes_last:
  "case storeResult v res w of
     (Inl _, w') \<Rightarrow> t_playlists w' = t_playlists w
   | (Inr _, w') \<Rightarrow> t_playlists w' = (t_playlists w)(v \<mapsto> promoted res) \<and>
       t_renditions w' = filter (\<lambda>r. rd_Video r \<noteq> v) (t_renditions w) @ map (stored_rendition v) (hls_Renditions res)"
proof (cases "storeResult v res w")
  case (Pair r w')
  show ?thesis
  proof (cases r)
    case (Inl e)
    have "t_playlists w' = t_playlists w"
    proof (rule bindE_keeps_Inl [OF _ _ Pair [unfolded Inl storeResult_eq]])
      show "keeps t_playlists (t_db (DeleteVideoRenditions v))"
        by (intro keeps_t_db) (simp_all add: DeleteVideoRenditions_def)
      fix a s assume "bindE (create_renditions v (hls_Renditions res)) (\<lambda>_. bindE (store_webm v res) (\<lambda>_.
        bindE (t_db (UpsertStreamingPlaylist v (hls_MasterKey res) PlaylistReady (hls_Format res))) (\<lambda>_. retE ()))) s = (Inl e, w')"
      then show "t_playlists w' = t_playlists s"
      proof (rule bindE_keeps_Inl [OF keeps_create_renditions, rotated])
        fix a s assume "bindE (store_webm v res) (\<lambda>_.
          bindE (t_db (UpsertStreamingPlaylist v (hls_MasterKey res) PlaylistReady (hls_Format res))) (\<lambda>_. retE ())) s = (Inl e, w')"
        then show "t_playlists w' = t_playlists s"
        proof (rule bindE_keeps_Inl [OF keeps_store_webm(1), rotated])
          fix a s assume "bindE (t_db (UpsertStreamingPlaylist v (hls_MasterKey res) PlaylistReady (hls_Format res))) (\<lambda>_. retE ()) s = (Inl e, w')"
          then show "t_playlists w' = t_playlists s"
            by (auto simp: bindE_def retE_def t_db_def catchE_def repoE_def throwE_def UpsertStreamingPlaylist_def Let_def
                split: list.splits bool.splits sum.splits prod.splits if_splits)
        qed
      qed
    qed
    then show ?thesis using Pair Inl by simp
  next
    case (Inr u)
    then obtain w1 w2 w3 pl where s: "t_db (DeleteVideoRenditions v) w = (Inr (), w1)"
      "create_renditions v (hls_Renditions res) w1 = (Inr (), w2)" "store_webm v res w2 = (Inr (), w3)"
      "t_db (UpsertStreamingPlaylist v (hls_MasterKey res) PlaylistReady (hls_Format res)) w3 = (Inr pl, w')"
      using Pair by (auto simp: storeResult_eq bindE_Inr retE_def)
    have "t_renditions w1 = filter (\<lambda>r. rd_Video r \<noteq> v) (t_renditions w)" "t_playlists w1 = t_playlists w"
      using t_db_Inr [OF s(1)] by (auto simp: DeleteVideoRenditions_def)
    moreover have "t_renditions w3 = t_renditions w2" "t_playlists w3 = t_playlists w2"
      using keepsD [OF keeps_store_webm(1), of v res w2] keepsD [OF keeps_store_webm(2), of v res w2] s(3) by simp_all
    moreover have "t_playlists w2 = t_playlists w1"
      using keepsD [OF keeps_create_renditions, of v "hls_Renditions res" w1] s(2) by simp
    moreover have "t_playlists w' = (t_playlists w3)(v \<mapsto> promoted res) \<and> t_renditions w' = t_renditions w3"
      using t_db_Inr [OF s(4)] by (auto simp: UpsertStreamingPlaylist_def promoted_def Let_def split: if_splits)
    ultimately show ?thesis
      using Pair Inr create_renditions_Inr [OF s(2)] by simp
  qed
qed

section \<open>The queue invariant\<close>

definition jobs_ok :: "transcode_world \<Rightarrow> bool" where
  "jobs_ok w \<longleftrightarrow> queue_ok (t_jobs w)"

lemma jobs_ok_faults: "jobs_ok (w\<lparr>w_faults := fs\<rparr>) = jobs_ok w"
  by (simp add: jobs_ok_def)

lemma complete_transcode_ok: "queue_ok q \<Longrightarrow> queue_ok (update_jobs (\<lambda>j. job_id j = i) (\<lambda>j. j\<lparr>job_state := Done\<rparr>) q)"
  by (rule update_jobs_ok) (auto simp: live_def)

lemma jobs_statement:
  "(\<And>v. jobs_ok v \<Longrightarrow> jobs_ok (snd (q v))) \<Longrightarrow> preserves jobs_ok (t_db q)"
  by (rule preserves_t_db) (simp_all add: jobs_ok_faults)

lemma keeps_jobs_ok: "keeps t_jobs m \<Longrightarrow> preserves jobs_ok m"
  unfolding jobs_ok_def by (rule keeps_preserves)

lemma preserves_queue_statements [preserves_rules]:
  "preserves jobs_ok (t_db (EnqueueTranscodeJob i v k t))" "preserves jobs_ok (t_db (ClaimDueTranscodeJobs n))"
  "preserves jobs_ok (t_db (CompleteTranscodeJob i))" "preserves jobs_ok (t_db (RescheduleTranscodeJob i at err))"
  "preserves jobs_ok (t_db (DeferTranscodeJob i at err))" "preserves jobs_ok (t_db (RenewTranscodeJobLease at i))"
  "preserves jobs_ok (t_db (FailTranscodeJob i err))" "preserves jobs_ok (t_db SweepExpiredTranscodeJobs)"
proof -
  show "preserves jobs_ok (t_db (EnqueueTranscodeJob i v k t))"
    by (rule jobs_statement) (simp add: jobs_ok_def EnqueueTranscodeJob_def enqueue_ok)
  show "preserves jobs_ok (t_db (ClaimDueTranscodeJobs n))"
    by (rule jobs_statement) (simp add: jobs_ok_def ClaimDueTranscodeJobs_def split_beta claim_ok)
  show "preserves jobs_ok (t_db (CompleteTranscodeJob i))"
    by (rule jobs_statement) (simp add: jobs_ok_def CompleteTranscodeJob_def complete_transcode_ok)
  show "preserves jobs_ok (t_db (RescheduleTranscodeJob i at err))"
    by (rule jobs_statement) (simp add: jobs_ok_def RescheduleTranscodeJob_def split_beta reschedule_ok)
  show "preserves jobs_ok (t_db (DeferTranscodeJob i at err))"
    by (rule jobs_statement) (simp add: jobs_ok_def DeferTranscodeJob_def split_beta defer_ok)
  show "preserves jobs_ok (t_db (RenewTranscodeJobLease at i))"
    by (rule jobs_statement) (simp add: jobs_ok_def RenewTranscodeJobLease_def renew_ok)
  show "preserves jobs_ok (t_db (FailTranscodeJob i err))"
    by (rule jobs_statement) (simp add: jobs_ok_def FailTranscodeJob_def fail_ok)
  show "preserves jobs_ok (t_db SweepExpiredTranscodeJobs)"
    by (rule jobs_statement) (simp add: jobs_ok_def SweepExpiredTranscodeJobs_def split_beta sweep_ok)
qed

lemma preserves_other_statements [preserves_rules]:
  "preserves jobs_ok (t_db (BumpVideoTranscodeGeneration v))" "preserves jobs_ok (t_db (MarkStreamingPlaylistFailed v))"
  "preserves jobs_ok (t_db (GetVideoTranscodeGeneration v))" "preserves jobs_ok (t_db (GetVideoFileSizeByStorageKey k))"
  "preserves jobs_ok (t_db (UpsertTranscodeStep st))" "preserves jobs_ok (t_db (DeleteVideoRenditions v))"
  "preserves jobs_ok (t_db (CreateVideoRendition r))" "preserves jobs_ok (t_db (CreateVideoFile f))"
  "preserves jobs_ok (t_db (DeleteVideoFilesByVideoAndKind v kind))" "preserves jobs_ok (t_db (UpsertStreamingPlaylist v k ps fm))"
  by (rule jobs_statement; simp add: jobs_ok_def statement_defs Let_def split: option.split)+

lemma preserves_stores [preserves_rules]:
  "preserves jobs_ok (create_renditions v rs)" "preserves jobs_ok (create_web_videos v fs)"
  by (induction rs; simp; intro preserves_rules; assumption?)
     (induction fs; simp; intro preserves_rules; assumption?)

lemma preserves_storeResult [preserves_rules]: "preserves jobs_ok (storeResult v res)" "preserves jobs_ok (storeWebVideos v fs)"
  unfolding storeResult_def storeWebVideos_def by (intro preserves_rules)+

lemma report_ok: "jobs_ok w \<Longrightarrow> jobs_ok (report row ps lst w)"
proof (induction row ps lst w rule: report.induct)
  case (2 row p ps lst w)
  have "jobs_ok (ignoreE (t_db (UpsertTranscodeStep (progress_step row p))) w)"
    using preservesD [OF preserves_other_statements(5) 2(3)] by (simp add: ignoreE_def)
  then show ?case using 2 by (auto split: prod.splits bool.splits)
qed simp

lemma store_ok:
  assumes "preserves jobs_ok m" "\<And>st. jobs_ok (fst st) \<Longrightarrow> jobs_ok (fst (snd (k st)))" "jobs_ok (fst st)"
  shows "jobs_ok (fst (snd (store s target m k st)))"
proof (cases st)
  case (Pair w x)
  then show ?thesis using preservesD [OF assms(1), of w] assms(2,3)
    by (cases "m w") (auto simp: store_def split: sum.splits)
qed

lemma encode_ok:
  assumes "\<And>r st. jobs_ok (fst st) \<Longrightarrow> jobs_ok (fst (snd (k r st)))" "jobs_ok (fst st)"
  shows "jobs_ok (fst (snd (encode row target call k st)))"
  using assms report_ok by (cases st) (auto simp: encode_def split: prod.splits sum.splits)

lemma run_generation_ok: "jobs_ok w \<Longrightarrow> jobs_ok (snd (run_generation v w))"
  using preservesD [OF preserves_other_statements(3), of w v] by (auto simp: run_generation_def split: prod.splits sum.splits)

lemma runTarget_ok: "jobs_ok w \<Longrightarrow> jobs_ok (fst (snd (runTarget s t row (w, x))))"
  using run_generation_ok [of w "job_key row"]
  by (cases t) (auto simp: runTarget_def Let_def split_beta intro!: store_ok encode_ok preserves_rules split: sum.splits prod.splits)

lemma ignoreE_ok: "preserves jobs_ok m \<Longrightarrow> jobs_ok w \<Longrightarrow> jobs_ok (ignoreE m w)"
  by (simp add: ignoreE_def preserves_def)

lemma transcode_recordFailure_ok: "jobs_ok (fst st) \<Longrightarrow> jobs_ok (fst (transcode_recordFailure s row cause st))"
  by (cases st) (auto simp: transcode_recordFailure_def Let_def intro!: ignoreE_ok preserves_rules)

lemma renewals_ok: "jobs_ok w \<Longrightarrow> jobs_ok (fold (\<lambda>at. ignoreE (t_db (RenewTranscodeJobLease at i))) ts w)"
  by (induction ts arbitrary: w) (auto intro!: ignoreE_ok preserves_rules)

lemma run_job_ok: "jobs_ok w \<Longrightarrow> jobs_ok (fst (snd (run_job s t beats row (w, x))))"
proof -
  assume "jobs_ok w"
  then have "jobs_ok (fst (snd (runTarget s t row (fold (\<lambda>at. ignoreE (t_db (RenewTranscodeJobLease at (job_id row)))) (beats (job_id row)) w, x))))"
    by (intro runTarget_ok renewals_ok)
  then show ?thesis
    by (auto simp: run_job_def Let_def intro!: transcode_recordFailure_ok ignoreE_ok preserves_rules split: prod.splits option.splits)
qed

lemma drain_job_ok: "jobs_ok (fst st) \<Longrightarrow> jobs_ok (fst (snd (drain_job s t beats free row st)))"
proof -
  assume ok: "jobs_ok (fst st)"
  obtain w x where st: "st = (w, x)" by (cases st)
  have "jobs_ok (snd (scratchFits k n w))" for k n
    using preservesD [OF preserves_other_statements(4), of w k] ok st by (auto simp: scratchFits_def split: prod.splits sum.splits)
  then have "jobs_ok (snd (case free of None \<Rightarrow> (True, w) | Some n \<Rightarrow> scratchFits (tj_SourceKey (job_payload row)) n w))"
    using ok st by (simp split: option.splits)
  then show ?thesis
    unfolding st drain_job_def
    by (auto intro!: run_job_ok ignoreE_ok preserves_rules split: prod.splits bool.splits)
qed

lemma drain_jobs_ok: "jobs_ok (fst st) \<Longrightarrow> jobs_ok (fst (snd (drain_jobs s t beats free rows n st)))"
proof (induction s t beats free rows n st rule: drain_jobs.induct)
  case (2 s t beats free row rows n st)
  then show ?case using drain_job_ok [OF 2(2), of s t beats free row] by (cases "drain_job s t beats free row st") simp
qed simp

text \<open>Enqueueing, draining and sweeping keep the transcode queue sound (unique ids, one live job
  per video) under every failure schedule, transcoder and hook.\<close>

theorem transcode_queue_invariant:
  assumes "queue_ok (t_jobs w)"
  shows "queue_ok (t_jobs (snd (EnqueueTarget s newID v key target w))) \<and>
    queue_ok (t_jobs (fst (snd (transcode_DrainJobs s beats limit (w, x))))) \<and>
    queue_ok (t_jobs (snd (t_db SweepExpiredTranscodeJobs w)))"
proof (intro conjI)
  have ok: "jobs_ok w" using assms by (simp add: jobs_ok_def)
  have "preserves jobs_ok (EnqueueTarget s newID v key target)"
    unfolding EnqueueTarget_def
    by (intro preserves_rules) (auto simp: preserves_def intro!: ignoreE_ok preserves_rules)
  then show "queue_ok (t_jobs (snd (EnqueueTarget s newID v key target w)))"
    using ok by (simp add: preserves_def jobs_ok_def)
  show "queue_ok (t_jobs (snd (t_db SweepExpiredTranscodeJobs w)))"
    using preservesD [OF preserves_queue_statements(8) ok] by (simp add: jobs_ok_def)
  have "jobs_ok (snd (t_db (ClaimDueTranscodeJobs (wrap32 limit)) w))"
    by (rule preservesD [OF preserves_queue_statements(2) ok])
  then show "queue_ok (t_jobs (fst (snd (transcode_DrainJobs s beats limit (w, x)))))"
    using ok drain_jobs_ok [of "(snd (t_db (ClaimDueTranscodeJobs (wrap32 limit)) w), x)" s _ beats _ _ 0]
    by (auto simp: transcode_DrainJobs_def jobs_ok_def split_beta split: option.split sum.split)
qed

text \<open>A video with a ready CMAF tree and a running job; a transcoder that writes down the generation it is given.\<close>

definition demo_row :: transcode_job where
  "demo_row = \<lparr>job_id = ''j'', job_key = ''v'', job_payload = \<lparr>tj_SourceKey = ''web-videos/v.mp4'', tj_Type = TargetAll\<rparr>,
     job_state = Running, job_attempts = 1, job_next = Hour, job_error = ''''\<rparr>"

definition demo_playlist :: StreamingPlaylist where
  "demo_playlist = \<lparr>pl_MasterKey = ''m0'', pl_State = PlaylistReady, pl_Format = ''cmaf''\<rparr>"

definition demo_source :: VideoFile where
  "demo_source = \<lparr>vf_Video = ''v'', vf_Kind = ''original'', vf_StorageKey = ''web-videos/v.mp4'', vf_ContentType = ''video/mp4'',
     vf_OriginalName = ''a.mp4'', vf_SizeBytes = 8 * 2 ^ 30, vf_Sha256 = ''''\<rparr>"

definition demo_tworld :: transcode_world where
  "demo_tworld = \<lparr>w_now = 0, w_faults = [], t_jobs = [demo_row], t_generation = [(''v'', 3)],
     t_playlists = [''v'' \<mapsto> demo_playlist], t_renditions = [], t_files = [demo_source], t_steps = []\<rparr>"

definition demo_hls :: HLSResult where
  "demo_hls = \<lparr>hls_MasterKey = ''m1'', hls_Format = '''', hls_Renditions = [\<lparr>hr_Height = 720, hr_Width = 1280,
     hr_KeyPrefix = ''p'', hr_SizeBytes = 9\<rparr>], hls_WebMKey = '''', hls_WebMBytes = 0, hls_WebMSHA256 = ''''\<rparr>"

definition demo_coder :: "(int list, unit) TargetTranscoder" where
  "demo_coder = \<lparr>Probe = \<lambda>key x. (Inr (), x), TranscodeHLS = \<lambda>v key g md x. (Inr demo_hls, [], x @ [g]),
     TranscodeWebVideos = \<lambda>v key g md x. (Inr [], [], x @ [g]), TranscodeAll = \<lambda>v key g md x. (Inr (demo_hls, []), [], x @ [g])\<rparr>"

definition demo_tservice :: "(int list, unit) transcode_Service" where
  "demo_tservice = WithScratchGuard (Some (20 * 2 ^ 30)) 0 (transcode_NewService ''driver error'' (Some (Targets demo_coder)))"

lemma demo_queue_ok: "queue_ok (t_jobs demo_tworld)"
  by (simp add: demo_tworld_def queue_ok_def)

theorem transcode_queue_invariant_witness:
  "queue_ok (t_jobs (snd (EnqueueTarget demo_tservice ''k'' ''v'' ''key'' TargetHLS demo_tworld))) \<and>
    queue_ok (t_jobs (fst (snd (transcode_DrainJobs demo_tservice (\<lambda>_. []) 4 (demo_tworld, []))))) \<and>
    queue_ok (t_jobs (snd (t_db SweepExpiredTranscodeJobs demo_tworld)))"
  using demo_queue_ok by (rule transcode_queue_invariant)

section \<open>Admission control\<close>

text \<open>A closed gate claims nothing: the jobs stay pending and no attempt is spent.\<close>

lemma closed_gate_claims_nothing:
  assumes "\<not> Enabled s \<or> (\<exists>free. freeScratch s = Some free \<and> free < minFreeScratch s) \<or> storageWritableFn s = Some False"
  shows "snd (transcode_DrainJobs s beats limit st) = st \<and> fst (fst (transcode_DrainJobs s beats limit st)) = 0"
  using assms by (cases st) (auto simp: transcode_DrainJobs_def split: option.splits)

text \<open>A running row of a sound queue may always go back to pending.\<close>

lemma requeue_distinct:
  assumes "queue_ok q" "row \<in> set q" "job_state row = Running" "\<And>j. job_id (f j) = job_id j" "\<And>j. job_key (f j) = job_key j"
  shows "distinct (map job_key (filter live (update_jobs (\<lambda>j. job_id j = job_id row) f q)))"
proof -
  have "live j" if "j \<in> set q" "job_id j = job_id row" for j
    using job_unique [OF assms(1) that(1) assms(2)] that(2) assms(3) by (simp add: live_def)
  then show ?thesis using update_jobs_ok [of q f "\<lambda>j. job_id j = job_id row"] assms by (auto simp: queue_ok_def)
qed

text \<open>A job whose source needs more than the free scratch space (three times its size, in
  unsigned 64-bit arithmetic) goes back to pending for five minutes with its attempts unchanged,
  and the transcoder is not called.\<close>

theorem oversized_source_deferred:
  assumes "w_faults w = []" "queue_ok (t_jobs w)" "row \<in> set (t_jobs w)" "job_state row = Running"
    "find (\<lambda>f. vf_StorageKey f = tj_SourceKey (job_payload row)) (t_files w) = Some f"
    "0 < vf_SizeBytes f" "vf_SizeBytes f \<le> (2 ^ 64 - 1) div 3" "free < 3 * vf_SizeBytes f"
  shows "drain_job s t beats (Some free) row (w, x) = (0, w\<lparr>t_jobs := update_jobs (\<lambda>j. job_id j = job_id row)
      (\<lambda>j. j\<lparr>job_state := Pending, job_next := w_now w + 5 * Minute,
             job_error := ''deferred: not enough scratch space for this source''\<rparr>) (t_jobs w)\<rparr>, x)"
proof -
  have "vf_SizeBytes f * scratchMultiple < 2 ^ 64" using assms(7) by (simp add: scratchMultiple_def)
  then have "scratchFits (tj_SourceKey (job_payload row)) free w = (False, w)"
    using assms(1,5,6,8) by (simp add: scratchFits_def t_db_healthy GetVideoFileSizeByStorageKey_def wrapu64_def scratchMultiple_def)
  then show ?thesis
    using assms(1) requeue_distinct [OF assms(2-4)]
    by (simp add: drain_job_def ignoreE_def t_db_healthy DeferTranscodeJob_def queue_defer_def unique_live_def
        scratchRetryDelay_def cong: if_cong)
qed

theorem oversized_source_deferred_witness:
  "let r = drain_job demo_tservice (Targets demo_coder) (\<lambda>_. []) (Some (20 * 2 ^ 30)) demo_row (demo_tworld, []) in
   map job_state (t_jobs (fst (snd r))) = [Pending] \<and> map job_attempts (t_jobs (fst (snd r))) = [1] \<and> snd (snd r) = []"
proof -
  have "find (\<lambda>f. vf_StorageKey f = tj_SourceKey (job_payload demo_row)) (t_files demo_tworld) = Some demo_source"
    by (simp add: demo_tworld_def demo_source_def demo_row_def)
  note d = oversized_source_deferred [OF _ demo_queue_ok _ _ this, of "20 * 2 ^ 30" demo_tservice "Targets demo_coder" "\<lambda>_. []" "[]"]
  show ?thesis
    by (subst d) (simp_all add: d demo_tworld_def demo_row_def demo_source_def update_jobs_def)
qed

section \<open>The failure ladder\<close>

interpretation transcode_retry: retry_policy "nat t_maxAttempts" t_baseBackoff t_maxBackoff
  by unfold_locales (simp_all add: t_maxAttempts_def t_baseBackoff_def t_maxBackoff_def)

lemma transcode_backoff_eq:
  assumes "0 \<le> a" "a < 4"
  shows "transcode_backoff (a + 1) = Minute * 2 ^ nat a"
proof -
  have "(2::int) ^ nat a \<le> 2 ^ 3" using assms by (intro power_increasing) auto
  then have "min Hour (Minute * 2 ^ nat a) = Minute * 2 ^ nat a" by simp
  then show ?thesis
    using assms by (simp add: transcode_backoff_def t_baseBackoff_def t_maxBackoff_def Backoff_closed)
qed

text \<open>A failed transcode goes back to pending after one minute doubled per attempt, or, on the
  fifth attempt or a permanent error, is dead-lettered; only then the failure hook runs and, if
  the failure concerns HLS, the playlist is marked failed and keeps its format.\<close>

theorem transcode_failure_ladder:
  assumes "w_faults w = []" "queue_ok (t_jobs w)" "row \<in> set (t_jobs w)" "job_state row = Running" "0 \<le> job_attempts row"
    "has_video (job_key row) w"
  shows "transcode_recordFailure s row cause (w, x) =
    (if job_attempts row + 1 < t_maxAttempts \<and> \<not> re_permanent cause
     then (w\<lparr>t_jobs := update_jobs (\<lambda>j. job_id j = job_id row) (\<lambda>j. j\<lparr>job_state := Pending, job_attempts := job_attempts j + 1,
             job_next := w_now w + Minute * 2 ^ nat (job_attempts row), job_error := take 500 (re_text cause)\<rparr>) (t_jobs w)\<rparr>, x)
     else (w\<lparr>t_jobs := update_jobs (\<lambda>j. job_id j = job_id row) (\<lambda>j. j\<lparr>job_state := Dead, job_attempts := job_attempts j + 1,
               job_error := take 500 (re_text cause)\<rparr>) (t_jobs w),
             t_playlists := (if affects_hls row cause
               then (t_playlists w)(job_key row \<mapsto> \<lparr>pl_MasterKey = '''', pl_State = PlaylistFailed,
                 pl_Format = (case t_playlists w (job_key row) of None \<Rightarrow> ''hls-ts'' | Some p \<Rightarrow> pl_Format p)\<rparr>)
               else t_playlists w)\<rparr>,
           case onFail s of None \<Rightarrow> x | Some hook \<Rightarrow> hook (job_key row) x))"
proof (cases "job_attempts row + 1 < t_maxAttempts \<and> \<not> re_permanent cause")
  case True
  then have "transcode_backoff (job_attempts row + 1) = Minute * 2 ^ nat (job_attempts row)"
    using assms(5) by (intro transcode_backoff_eq) (simp_all add: t_maxAttempts_def)
  then show ?thesis
    using True assms(1) requeue_distinct [OF assms(2-4)]
    by (simp add: transcode_recordFailure_def Let_def ignoreE_def t_db_healthy RescheduleTranscodeJob_def
        queue_reschedule_def unique_live_def maxLastErrorLen_def cong: if_cong)
next
  case False
  then show ?thesis
    using assms(1,6)
    by (auto simp: transcode_recordFailure_def Let_def ignoreE_def t_db_healthy FailTranscodeJob_def queue_fail_def
        MarkStreamingPlaylistFailed_def has_video_def maxLastErrorLen_def)
qed

theorem transcode_failure_ladder_witness:
  "let cause = \<lparr>re_text = ''cannot package this source'', re_permanent = True, re_target = Some TargetHLS\<rparr>;
       w' = fst (transcode_recordFailure demo_tservice demo_row cause (demo_tworld, [])) in
   map job_state (t_jobs w') = [Dead] \<and> map job_attempts (t_jobs w') = [2] \<and>
   t_playlists w' ''v'' = Some \<lparr>pl_MasterKey = '''', pl_State = PlaylistFailed, pl_Format = ''cmaf''\<rparr> \<and>
   transcode_retry.total_wait = 15 * Minute"
proof -
  have h: "w_faults demo_tworld = []" "demo_row \<in> set (t_jobs demo_tworld)" "job_state demo_row = Running"
    "0 \<le> job_attempts demo_row" "has_video (job_key demo_row) demo_tworld"
    by (simp_all add: demo_tworld_def demo_row_def has_video_def)
  have "{1..<nat t_maxAttempts} = {1, 2, 3, 4}" by (auto simp: t_maxAttempts_def)
  then have "transcode_retry.total_wait = 15 * Minute"
    unfolding transcode_retry.total_wait_def transcode_retry.wait_def
    by (simp add: Backoff_closed t_baseBackoff_def t_maxBackoff_def)
  then show ?thesis
    unfolding Let_def transcode_failure_ladder [OF h(1) demo_queue_ok h(2-5)]
    by (simp add: demo_tworld_def demo_row_def demo_playlist_def affects_hls_def update_jobs_def)
qed

section \<open>The generation under a live job\<close>

lemma map_of_bump: "map_of (map (\<lambda>(u, k). if u = v then (u, k + 1) else (u, k)) gs) v = map_option (\<lambda>k. k + 1) (map_of gs v)"
  for gs :: "(string \<times> int) list"
  by (induction gs) auto

text \<open>Enqueueing a video that has a live job leaves the queue as it is but advances the video's
  generation, so the running job's next attempt writes to another prefix than its first.\<close>

theorem noop_enqueue_moves_generation:
  assumes "w_faults w = []" "Enabled s" "target \<in> {TargetAll, TargetHLS, TargetWebVideo}"
    "queue_has_live v (t_jobs w)" "map_of (t_generation w) v = Some g" "g + 1 < 2 ^ 31" "newID \<notin> set (map job_id (t_jobs w))"
  shows "\<exists>w'. EnqueueTarget s newID v key target w = (Inr (), w') \<and> t_jobs w' = t_jobs w \<and>
    fst (run_generation v w) = g \<and> fst (run_generation v w') = g + 1"
proof -
  have "has_video v w" using assms(5) by (force simp: has_video_def dest: map_of_SomeD)
  then have enq: "t_db (EnqueueTranscodeJob newID v key target) w = (Inr (), w)"
    using assms(1,4,7) by (simp add: t_db_healthy EnqueueTranscodeJob_def queue_enqueue_def queue_has_live_def)
  let ?w = "w\<lparr>t_generation := map (\<lambda>(u, k). if u = v then (u, k + 1) else (u, k)) (t_generation w)\<rparr>"
  have bump: "t_db (BumpVideoTranscodeGeneration v) w = (Inr (g + 1), ?w)"
    using assms(1,5,6) by (simp add: t_db_healthy BumpVideoTranscodeGeneration_def)
  have "EnqueueTarget s newID v key target w = (Inr (), ?w)"
    using assms(2,3) enq bump by (auto simp: EnqueueTarget_def op_simps)
  then show ?thesis
    using assms(1,5) by (simp add: run_generation_def t_db_healthy GetVideoTranscodeGeneration_def map_of_bump)
qed

text \<open>The running job of the demo retries into generation 4 after it has written generation 3.\<close>

theorem noop_enqueue_moves_generation_witness:
  "\<exists>w'. EnqueueTarget demo_tservice ''k'' ''v'' ''web-videos/v.mp4'' TargetAll demo_tworld = (Inr (), w') \<and>
    t_jobs w' = t_jobs demo_tworld \<and> fst (run_generation ''v'' demo_tworld) = 3 \<and> fst (run_generation ''v'' w') = 4"
  using noop_enqueue_moves_generation [of demo_tworld demo_tservice TargetAll "''v''" 3 "''k''" "''web-videos/v.mp4''"]
  by (simp add: demo_tworld_def demo_row_def demo_tservice_def WithScratchGuard_def transcode_NewService_def Enabled_def
      queue_has_live_def live_def)

section \<open>Throttled progress\<close>

text \<open>What the throttle remembers after a list of reports, and which of them are written.\<close>

definition marks :: "TranscodeProgress list \<Rightarrow> throttle \<Rightarrow> throttle" where
  "marks ps lst = fold (\<lambda>p l. snd (admit p l)) ps lst"

fun written :: "TranscodeProgress list \<Rightarrow> throttle \<Rightarrow> TranscodeProgress list" where
  "written [] lst = []"
| "written (p # ps) lst = (if fst (admit p lst) then [p] else []) @ written ps (snd (admit p lst))"

lemma report_written:
  "report row ps lst w = fold (\<lambda>p. ignoreE (t_db (UpsertTranscodeStep (progress_step row p)))) (written ps lst) w"
proof (induction ps arbitrary: lst w)
  case (Cons p ps)
  then show ?case by (cases "admit p lst"; cases "fst (admit p lst)") simp_all
qed simp

definition percents_ok :: "throttle \<Rightarrow> bool" where
  "percents_ok lst \<longleftrightarrow> (\<forall>k m. lst k = Some m \<longrightarrow> 0 \<le> mk_percent m \<and> mk_percent m \<le> 100)"

lemma percents_okD: "percents_ok lst \<Longrightarrow> lst k = Some m \<Longrightarrow> 0 \<le> mk_percent m \<and> mk_percent m \<le> 100"
  unfolding percents_ok_def by blast

lemma admit_diff:
  assumes "percents_ok lst" "0 \<le> pr_Percent p" "pr_Percent p \<le> 100" "lst (progress_key p) = Some m"
  shows "wrap64 (pr_Percent p - mk_percent m) = pr_Percent p - mk_percent m"
  using percents_okD [OF assms(1,4)] assms(2,3) by (intro wrap64_id in64I) simp_all

lemma admit_ok: "percents_ok lst \<Longrightarrow> 0 \<le> pr_Percent p \<Longrightarrow> pr_Percent p \<le> 100 \<Longrightarrow> percents_ok (snd (admit p lst))"
  by (auto simp: admit_def percents_ok_def Let_def split: option.splits if_splits)

definition close_mark :: "TranscodeProgress \<Rightarrow> stepProgressMark \<Rightarrow> bool" where
  "close_mark p m \<longleftrightarrow> mk_state m = pr_State p \<and> mk_stage m = pr_Stage p \<and> mk_percent m \<le> pr_Percent p \<and>
     pr_Percent p < mk_percent m + 5 \<and> (pr_Percent p = 100 \<longrightarrow> mk_percent m = 100)"

lemma admit_close:
  assumes "percents_ok lst" "0 \<le> pr_Percent p" "pr_Percent p \<le> 100"
  shows "\<exists>m. snd (admit p lst) (progress_key p) = Some m \<and> close_mark p m"
  using assms admit_diff [OF assms]
  by (cases "lst (progress_key p)") (auto simp: admit_def Let_def close_mark_def progressWriteStep_def)

lemma admit_other: "k \<noteq> progress_key p \<Longrightarrow> snd (admit p lst) k = lst k"
  by (auto simp: admit_def Let_def split: option.splits)

lemma marks_ok: "percents_ok lst \<Longrightarrow> \<forall>p\<in>set ps. 0 \<le> pr_Percent p \<and> pr_Percent p \<le> 100 \<Longrightarrow> percents_ok (marks ps lst)"
  unfolding marks_def by (induction ps arbitrary: lst) (simp_all add: admit_ok)

lemma marks_other: "\<forall>p\<in>set ps. progress_key p \<noteq> k \<Longrightarrow> marks ps lst k = lst k"
  unfolding marks_def by (induction ps arbitrary: lst) (auto simp: admit_other)

lemma written_steady:
  assumes "lst k = Some m" "percents_ok lst" "mk_state m = st" "mk_stage m = sg"
    "\<forall>p\<in>set ps. progress_key p = k \<and> pr_State p = st \<and> pr_Stage p = sg \<and> mk_percent m \<le> pr_Percent p \<and> pr_Percent p < 100"
    "sorted (map pr_Percent ps)" "mk_percent m < 100"
  shows "5 * int (length (written ps lst)) \<le> 99 - mk_percent m"
  using assms
proof (induction ps arbitrary: lst m)
  case (Cons p ps)
  have p: "progress_key p = k" "pr_State p = st" "pr_Stage p = sg" "mk_percent m \<le> pr_Percent p" "pr_Percent p < 100"
    using Cons.prems(5) by simp_all
  have nn: "0 \<le> pr_Percent p" using percents_okD [OF Cons.prems(2,1)] p(4) by simp
  have diff: "wrap64 (pr_Percent p - mk_percent m) = pr_Percent p - mk_percent m"
    using admit_diff [OF Cons.prems(2) nn] p(1,5) Cons.prems(1) by simp
  show ?case
  proof (cases "pr_Percent p - mk_percent m \<ge> 5")
    case True
    let ?m = "\<lparr>mk_state = st, mk_stage = sg, mk_percent = pr_Percent p\<rparr>"
    have ad: "admit p lst = (True, lst(k \<mapsto> ?m))"
      using True Cons.prems(1,3,4) p diff by (simp add: admit_def Let_def progressWriteStep_def)
    have ok: "percents_ok (lst(k \<mapsto> ?m))" using admit_ok [OF Cons.prems(2) nn] p(5) ad by simp
    have "5 * int (length (written ps (lst(k \<mapsto> ?m)))) \<le> 99 - mk_percent ?m"
      by (rule Cons.IH [OF _ ok]) (use Cons.prems p(5) in auto)
    then show ?thesis using ad True by simp
  next
    case False
    then have "admit p lst = (False, lst)"
      using Cons.prems(1,3,4) p diff by (simp add: admit_def Let_def progressWriteStep_def)
    then show ?thesis using Cons.IH [OF Cons.prems(1-4)] Cons.prems(5-7) by simp
  qed
next
  case Nil
  then show ?case by simp
qed

text \<open>The last written progress of a rung has the state and stage of its last report and lags it
  by less than five percent, never at 100; a steady run of a rung below 100 percent is written at
  most twenty times.\<close>

theorem progress_throttled:
  assumes "\<forall>p\<in>set (before @ p # later). 0 \<le> pr_Percent p \<and> pr_Percent p \<le> 100"
    "\<forall>q\<in>set later. progress_key q \<noteq> progress_key p"
    "\<forall>q\<in>set run. progress_key q = progress_key p \<and> pr_State q = pr_State p \<and> pr_Stage q = pr_Stage p \<and>
       pr_Percent p \<le> pr_Percent q \<and> pr_Percent q < 100"
    "sorted (map pr_Percent run)"
  shows "(\<exists>m. marks (before @ p # later) Map.empty (progress_key p) = Some m \<and> close_mark p m) \<and>
    length (written (p # run) Map.empty) \<le> 20"
proof
  have e: "percents_ok Map.empty" by (simp add: percents_ok_def)
  have "percents_ok (marks before Map.empty)" using assms(1) by (intro marks_ok e) simp
  then obtain m where "snd (admit p (marks before Map.empty)) (progress_key p) = Some m" "close_mark p m"
    using admit_close [of "marks before Map.empty" p] assms(1) by auto
  moreover have "marks (before @ p # later) Map.empty (progress_key p) = snd (admit p (marks before Map.empty)) (progress_key p)"
    using marks_other [OF assms(2)] by (simp add: marks_def)
  ultimately show "\<exists>m. marks (before @ p # later) Map.empty (progress_key p) = Some m \<and> close_mark p m" by auto
  let ?m = "\<lparr>mk_state = pr_State p, mk_stage = pr_Stage p, mk_percent = pr_Percent p\<rparr>"
  have ad: "admit p Map.empty = (True, [progress_key p \<mapsto> ?m])" by (simp add: admit_def Let_def)
  show "length (written (p # run) Map.empty) \<le> 20"
  proof (cases "pr_Percent p < 100")
    case True
    then have "5 * int (length (written run [progress_key p \<mapsto> ?m])) \<le> 99 - mk_percent ?m"
      using assms(1,3,4) by (intro written_steady [where k = "progress_key p"]) (auto simp: percents_ok_def)
    then show ?thesis using assms(1) by (simp add: ad)
  next
    case False
    then have "run = []" using assms(3) by (cases run) auto
    then show ?thesis by (simp add: ad)
  qed
qed

definition demo_progress :: "int \<Rightarrow> TranscodeProgress" where
  "demo_progress n = \<lparr>pr_Format = ''hls'', pr_Height = 720, pr_Width = 1280, pr_State = ''running'', pr_Stage = ''encoding'', pr_Percent = n\<rparr>"

text \<open>A rung that reports every percent from 0 to 99: a hundred callbacks, twenty writes.\<close>

theorem progress_throttled_witness:
  "(\<exists>m. marks (map demo_progress [0..12] @ demo_progress 13 # []) Map.empty (progress_key (demo_progress 13)) = Some m \<and>
      close_mark (demo_progress 13) m) \<and>
   length (written (demo_progress 0 # map demo_progress [1..99]) Map.empty) \<le> 20"
proof -
  have "sorted (map pr_Percent (map demo_progress [1..99]))" by (simp add: demo_progress_def comp_def)
  moreover have k: "progress_key (demo_progress n) = (''hls'', 720, 1280)" for n by (simp add: progress_key_def demo_progress_def)
  ultimately show ?thesis
    using progress_throttled [of "map demo_progress [0..12]" "demo_progress 13" "[]" "[]"]
      progress_throttled [of "[]" "demo_progress 0" "[]" "map demo_progress [1..99]"]
    by (auto simp: demo_progress_def)
qed

section \<open>A successful run\<close>

definition stored_file :: "string \<Rightarrow> WebVideoResult \<Rightarrow> VideoFile" where
  "stored_file v f = \<lparr>vf_Video = v, vf_Kind = ''rendition'', vf_StorageKey = wv_StorageKey f, vf_ContentType = ''video/mp4'',
     vf_OriginalName = Itoa (wv_Height f) @ ''p.mp4'', vf_SizeBytes = wv_SizeBytes f, vf_Sha256 = wv_SHA256 f\<rparr>"

definition ladder_ok :: "HLSRendition list \<Rightarrow> bool" where
  "ladder_ok rs \<longleftrightarrow> distinct (map hr_Height rs) \<and> (\<forall>r\<in>set rs. 0 < hr_Height r \<and> hr_Height r < 2 ^ 31 \<and>
     0 < hr_Width r \<and> hr_Width r < 2 ^ 31 \<and> 0 \<le> hr_SizeBytes r)"

lemma create_renditions_healthy:
  assumes "w_faults w = []" "has_video v w" "ladder_ok rs"
    "\<forall>r\<in>set rs. \<forall>r'\<in>set (t_renditions w). rd_Video r' = v \<longrightarrow> rd_Height r' \<noteq> hr_Height r"
  shows "create_renditions v rs w = (Inr (), w\<lparr>t_renditions := t_renditions w @ map (stored_rendition v) rs\<rparr>)"
  using assms
proof (induction rs arbitrary: w)
  case (Cons r rs)
  let ?r = "stored_rendition v r" and ?w = "w\<lparr>t_renditions := t_renditions w @ [stored_rendition v r]\<rparr>"
  have w32: "wrap32 (hr_Height r) = hr_Height r" "wrap32 (hr_Width r) = hr_Width r"
    using Cons.prems(3) by (simp_all add: ladder_ok_def wrap32_id in32_def)
  have "t_db (CreateVideoRendition ?r) w = (Inr (), ?w)"
    using Cons.prems w32 by (auto simp: t_db_healthy CreateVideoRendition_def stored_rendition_def ladder_ok_def list_ex_iff)
  moreover have "create_renditions v rs ?w = (Inr (), ?w\<lparr>t_renditions := t_renditions ?w @ map (stored_rendition v) rs\<rparr>)"
    using Cons.prems w32 by (intro Cons.IH) (auto simp: ladder_ok_def has_video_def stored_rendition_def)
  ultimately show ?case by (simp add: bindE_def stored_rendition_def)
qed (simp add: retE_def)

lemma create_web_videos_healthy:
  assumes "w_faults w = []" "has_video v w"
  shows "create_web_videos v fs w = (Inr (), w\<lparr>t_files := t_files w @ map (stored_file v) fs\<rparr>)"
  using assms
proof (induction fs arbitrary: w)
  case (Cons f fs)
  have "t_db (CreateVideoFile (stored_file v f)) w = (Inr (), w\<lparr>t_files := t_files w @ [stored_file v f]\<rparr>)"
    using Cons.prems by (simp add: t_db_healthy CreateVideoFile_def stored_file_def has_video_def)
  then show ?case using Cons by (simp add: bindE_def stored_file_def has_video_def)
qed (simp add: retE_def)

text \<open>Everything the result leaves: \<open>others\<close> are the rows of other videos and kinds.\<close>

definition stored_webm :: "string \<Rightarrow> HLSResult \<Rightarrow> VideoFile" where
  "stored_webm v res = \<lparr>vf_Video = v, vf_Kind = ''webm'', vf_StorageKey = hls_WebMKey res, vf_ContentType = ''video/webm'',
     vf_OriginalName = ''vp9.webm'', vf_SizeBytes = hls_WebMBytes res, vf_Sha256 = hls_WebMSHA256 res\<rparr>"

definition webm_files :: "string \<Rightarrow> HLSResult \<Rightarrow> VideoFile list \<Rightarrow> VideoFile list" where
  "webm_files v res fs = (if hls_WebMKey res = '''' then fs
     else filter (\<lambda>f. \<not> (vf_Video f = v \<and> vf_Kind f = ''webm'')) fs @ [stored_webm v res])"

lemma webm_files_webm:
  "filter (\<lambda>f. vf_Video f = v \<and> vf_Kind f = ''webm'') (webm_files v res fs) =
     (if hls_WebMKey res = '''' then filter (\<lambda>f. vf_Video f = v \<and> vf_Kind f = ''webm'') fs else [stored_webm v res])"
  by (auto simp: webm_files_def stored_webm_def filter_empty_conv)

lemma storeResult_healthy:
  assumes "w_faults w = []" "has_video v w" "ladder_ok (hls_Renditions res)" "hls_Format res \<in> {'''', ''hls-ts'', ''cmaf''}"
  shows "storeResult v res w = (Inr (), w\<lparr>t_renditions := filter (\<lambda>r. rd_Video r \<noteq> v) (t_renditions w) @
      map (stored_rendition v) (hls_Renditions res), t_files := webm_files v res (t_files w),
      t_playlists := (t_playlists w)(v \<mapsto> promoted res)\<rparr>)"
proof -
  let ?w = "w\<lparr>t_renditions := filter (\<lambda>r. rd_Video r \<noteq> v) (t_renditions w)\<rparr>"
  have "t_db (DeleteVideoRenditions v) w = (Inr (), ?w)" using assms(1) by (simp add: t_db_healthy DeleteVideoRenditions_def)
  moreover have "create_renditions v (hls_Renditions res) ?w =
      (Inr (), ?w\<lparr>t_renditions := t_renditions ?w @ map (stored_rendition v) (hls_Renditions res)\<rparr>)"
    using assms(1-3) by (intro create_renditions_healthy) (auto simp: has_video_def)
  ultimately show ?thesis
    using assms by (auto simp: storeResult_def bindE_def retE_def t_db_healthy UpsertStreamingPlaylist_def Let_def
        promoted_def has_video_def DeleteVideoFilesByVideoAndKind_def CreateVideoFile_def webm_files_def stored_webm_def)
qed

lemma storeWebVideos_healthy:
  assumes "w_faults w = []" "has_video v w"
  shows "storeWebVideos v fs w = (Inr (), w\<lparr>t_files :=
      filter (\<lambda>f. \<not> (vf_Video f = v \<and> vf_Kind f = ''rendition'')) (t_files w) @ map (stored_file v) fs\<rparr>)"
  using assms
  by (simp add: storeWebVideos_def bindE_def t_db_healthy DeleteVideoFilesByVideoAndKind_def create_web_videos_healthy has_video_def)

lemma step_healthy:
  assumes "w_faults w = []"
  shows "\<exists>ts. ignoreE (t_db (UpsertTranscodeStep t)) w = w\<lparr>t_steps := ts\<rparr>"
  using assms by (auto simp: ignoreE_def t_db_healthy UpsertTranscodeStep_def Let_def intro: exI [of _ "t_steps w"])

lemma report_healthy:
  assumes "w_faults w = []"
  shows "\<exists>ts. report row ps lst w = w\<lparr>t_steps := ts\<rparr>"
proof -
  have "\<exists>ts. fold (\<lambda>p. ignoreE (t_db (UpsertTranscodeStep (progress_step row p)))) qs w = w\<lparr>t_steps := ts\<rparr>" for qs
    using assms
  proof (induction qs arbitrary: w)
    case Nil
    show ?case by (intro exI [of _ "t_steps w"]) simp
  next
    case (Cons q qs)
    obtain ts where ts: "ignoreE (t_db (UpsertTranscodeStep (progress_step row q))) w = w\<lparr>t_steps := ts\<rparr>"
      using step_healthy [OF Cons.prems] by blast
    then show ?case using Cons.IH [of "w\<lparr>t_steps := ts\<rparr>"] Cons.prems by auto
  qed
  then show ?thesis unfolding report_written by blast
qed

lemma renew_healthy:
  assumes "w_faults w = []"
  shows "\<exists>q. fold (\<lambda>at. ignoreE (t_db (RenewTranscodeJobLease at i))) ts w = w\<lparr>t_jobs := q\<rparr> \<and> map job_id q = map job_id (t_jobs w)"
  using assms
proof (induction ts arbitrary: w)
  case Nil
  show ?case by (intro exI [of _ "t_jobs w"]) simp
next
  case (Cons t ts)
  let ?q = "queue_renew t i (t_jobs w)"
  have "ignoreE (t_db (RenewTranscodeJobLease t i)) w = w\<lparr>t_jobs := ?q\<rparr>"
    using Cons.prems by (simp add: ignoreE_def t_db_healthy RenewTranscodeJobLease_def)
  moreover have "map job_id ?q = map job_id (t_jobs w)" unfolding queue_renew_def by (rule ids_update_jobs) simp
  ultimately show ?case using Cons.IH [of "w\<lparr>t_jobs := ?q\<rparr>"] Cons.prems by auto
qed

text \<open>C37. On a healthy database, a full transcode job whose transcoder delivers a well-formed
  ladder, with or without a WebM encode, ends done: the playlist is ready at the new master key,
  the video's renditions and progressive files are exactly the delivered ones, its WebM file row
  is the delivered one or, if none was delivered, stays as it was, the transcoder was given the
  video's generation, and the completion hook ran.\<close>

theorem transcode_run_succeeds:
  assumes "w_faults w = []" "row \<in> set (t_jobs w)" "tj_Type (job_payload row) = TargetAll"
    "map_of (t_generation w) (job_key row) = Some g"
    "Probe adv (tj_SourceKey (job_payload row)) x = (Inr md, x1)"
    "TranscodeAll adv (job_key row) (tj_SourceKey (job_payload row)) g md x1 = (Inr (res, files), reports, x2)"
    "ladder_ok (hls_Renditions res)" "hls_Format res \<in> {'''', ''hls-ts'', ''cmaf''}"
  shows "\<exists>w'. run_job s (Targets adv) beats row (w, x) =
      (1, w', case onComplete s of None \<Rightarrow> x2 | Some hook \<Rightarrow> hook (job_key row) x2) \<and>
    t_playlists w' = (t_playlists w)(job_key row \<mapsto> promoted res) \<and>
    filter (\<lambda>r. rd_Video r = job_key row) (t_renditions w') = map (stored_rendition (job_key row)) (hls_Renditions res) \<and>
    filter (\<lambda>f. vf_Video f = job_key row \<and> vf_Kind f = ''rendition'') (t_files w') = map (stored_file (job_key row)) files \<and>
    filter (\<lambda>f. vf_Video f = job_key row \<and> vf_Kind f = ''webm'') (t_files w') = (if hls_WebMKey res = ''''
       then filter (\<lambda>f. vf_Video f = job_key row \<and> vf_Kind f = ''webm'') (t_files w) else [stored_webm (job_key row) res]) \<and>
    (\<exists>j\<in>set (t_jobs w'). job_id j = job_id row) \<and> (\<forall>j\<in>set (t_jobs w'). job_id j = job_id row \<longrightarrow> job_state j = Done)"
proof -
  let ?v = "job_key row"
  have hv: "has_video ?v w" using assms(4) by (force simp: has_video_def dest: map_of_SomeD)
  obtain q where q: "fold (\<lambda>at. ignoreE (t_db (RenewTranscodeJobLease at (job_id row)))) (beats (job_id row)) w = w\<lparr>t_jobs := q\<rparr>"
    "map job_id q = map job_id (t_jobs w)" using renew_healthy [OF assms(1), of "job_id row" "beats (job_id row)"] by blast
  have gen: "run_generation ?v (w\<lparr>t_jobs := q\<rparr>) = (g, w\<lparr>t_jobs := q\<rparr>)"
    using assms(1,4) by (simp add: run_generation_def t_db_healthy GetVideoTranscodeGeneration_def)
  obtain ts where ts: "report row reports Map.empty (w\<lparr>t_jobs := q\<rparr>) = w\<lparr>t_jobs := q, t_steps := ts\<rparr>"
    using report_healthy [of "w\<lparr>t_jobs := q\<rparr>" row reports Map.empty] assms(1) by auto
  let ?w1 = "w\<lparr>t_jobs := q, t_steps := ts\<rparr>"
  let ?w2 = "?w1\<lparr>t_renditions := filter (\<lambda>r. rd_Video r \<noteq> ?v) (t_renditions w) @ map (stored_rendition ?v) (hls_Renditions res),
      t_files := webm_files ?v res (t_files w), t_playlists := (t_playlists w)(?v \<mapsto> promoted res)\<rparr>"
  let ?w3 = "?w2\<lparr>t_files := filter (\<lambda>f. \<not> (vf_Video f = ?v \<and> vf_Kind f = ''rendition'')) (webm_files ?v res (t_files w)) @ map (stored_file ?v) files\<rparr>"
  have st: "storeResult ?v res ?w1 = (Inr (), ?w2)" "storeWebVideos ?v files ?w2 = (Inr (), ?w3)"
    using storeResult_healthy [of ?w1 ?v res] storeWebVideos_healthy [of ?w2 ?v files] assms(1,7,8) hv
    by (simp_all add: has_video_def)
  have "TargetAll \<noteq> ''''" by (simp add: TargetAll_def)
  then have "runTarget s (Targets adv) row (w\<lparr>t_jobs := q\<rparr>, x) = (None, ?w3, x2)"
    using assms(3,5,6) gen ts st by (simp add: runTarget_def Let_def encode_def store_def)
  then have run: "run_job s (Targets adv) beats row (w, x) =
      (1, ?w3\<lparr>t_jobs := update_jobs (\<lambda>j. job_id j = job_id row) (\<lambda>j. j\<lparr>job_state := Done\<rparr>) q\<rparr>,
       case onComplete s of None \<Rightarrow> x2 | Some hook \<Rightarrow> hook ?v x2)"
    using assms(1) q(1) by (simp add: run_job_def Let_def ignoreE_def t_db_healthy CompleteTranscodeJob_def)
  have "job_id row \<in> set (map job_id q)" using assms(2) q(2) by auto
  then obtain j where j: "j \<in> set q" "job_id j = job_id row" by auto
  have jobs: "\<exists>j\<in>set (update_jobs (\<lambda>j. job_id j = job_id row) (\<lambda>j. j\<lparr>job_state := Done\<rparr>) q). job_id j = job_id row"
    by (rule bexI [OF _ updated_job [OF j(1)]]) (simp_all add: j(2))
  have dn: "\<forall>j\<in>set (update_jobs (\<lambda>j. job_id j = job_id row) (\<lambda>j. j\<lparr>job_state := Done\<rparr>) q). job_id j = job_id row \<longrightarrow> job_state j = Done"
    by (auto simp: set_update_jobs)
  have "filter (\<lambda>r. rd_Video r = ?v) (t_renditions ?w3) = map (stored_rendition ?v) (hls_Renditions res)"
    by (auto simp: filter_empty_conv stored_rendition_def intro!: filter_True)
  moreover have "filter (\<lambda>f. vf_Video f = ?v \<and> vf_Kind f = ''rendition'') (t_files ?w3) = map (stored_file ?v) files"
    by (auto simp: filter_empty_conv stored_file_def intro!: filter_True)
  moreover have "filter (\<lambda>f. vf_Video f = ?v \<and> vf_Kind f = ''webm'') (t_files ?w3) =
      filter (\<lambda>f. vf_Video f = ?v \<and> vf_Kind f = ''webm'') (webm_files ?v res (t_files w))"
    by (auto simp: stored_file_def filter_empty_conv intro!: filter_cong)
  ultimately show ?thesis
    using run jobs dn webm_files_webm [of ?v res "t_files w"]
    by (intro exI [of _ "?w3\<lparr>t_jobs := update_jobs (\<lambda>j. job_id j = job_id row) (\<lambda>j. j\<lparr>job_state := Done\<rparr>) q\<rparr>"] conjI) simp_all
qed

theorem transcode_run_succeeds_witness:
  "\<exists>w'. run_job demo_tservice (Targets demo_coder) (\<lambda>_. [Minute, 6 * Minute]) demo_row (demo_tworld, []) = (1, w', [3]) \<and>
    t_playlists w' ''v'' = Some (promoted demo_hls) \<and> (\<exists>j\<in>set (t_jobs w'). job_id j = ''j'')"
proof -
  have h: "w_faults demo_tworld = []" "demo_row \<in> set (t_jobs demo_tworld)" "tj_Type (job_payload demo_row) = TargetAll"
    "map_of (t_generation demo_tworld) (job_key demo_row) = Some 3"
    by (simp_all add: demo_tworld_def demo_row_def)
  have c: "Probe demo_coder (tj_SourceKey (job_payload demo_row)) [] = (Inr (), [])"
    "TranscodeAll demo_coder (job_key demo_row) (tj_SourceKey (job_payload demo_row)) 3 () [] = (Inr (demo_hls, []), [], [3])"
    by (simp_all add: demo_coder_def)
  have r: "ladder_ok (hls_Renditions demo_hls)" "hls_Format demo_hls \<in> {'''', ''hls-ts'', ''cmaf''}"
    by (simp_all add: ladder_ok_def demo_hls_def)
  have k: "job_key demo_row = ''v''" "job_id demo_row = ''j''" "onComplete demo_tservice = None"
    by (simp_all add: demo_row_def demo_tservice_def WithScratchGuard_def transcode_NewService_def)
  obtain w' where "run_job demo_tservice (Targets demo_coder) (\<lambda>_. [Minute, 6 * Minute]) demo_row (demo_tworld, []) = (1, w', [3])"
    "t_playlists w' = (t_playlists demo_tworld)(''v'' \<mapsto> promoted demo_hls)" "\<exists>j\<in>set (t_jobs w'). job_id j = ''j''"
    using transcode_run_succeeds [OF h c r, of demo_tservice "\<lambda>_. [Minute, 6 * Minute]"] unfolding k option.case by blast
  then show ?thesis by (intro exI [of _ w']) simp
qed

end
