(* ===== verification/Media_GC.thy ===== *)
theory Media_GC
  imports "HOL-Library.Product_Lexorder" Hls_Manifest Blob_Store Numerals
begin

text \<open>
  Garbage collection of media objects (\<open>internal/mediagc/service.go\<close>, the owner marker of
  \<open>internal/storage/marker.go\<close> and the key grammar of \<open>internal/media\<close>).

  The storage backend is a record of the operations the sweep calls, on a store of its own type;
  \<open>local_backend\<close> builds it from the model of the local disk. The rows the database references are
  a record \<open>gc_rows\<close>; each of the five queries may fail. Ids are their canonical text. The UUID
  parser is third-party code and a parameter, of which nothing is assumed.
\<close>

section \<open>Key grammar\<close>

definition OwnerMarkerKey :: string where "OwnerMarkerKey = ''.vidra/owner''"

definition HLSKeyPrefix :: "string \<Rightarrow> string" where
  "HLSKeyPrefix videoID = ''streaming-playlists/'' @ videoID"

definition HLSGenerationName :: "int \<Rightarrow> string" where
  "HLSGenerationName version = (if version \<le> 0 then [] else ''r'' @ Itoa version)"

definition ascii_digit :: "char \<Rightarrow> bool" where
  "ascii_digit c \<longleftrightarrow> c \<in> set ''0123456789''"

text \<open>The regular expression \<open>^r[1-9][0-9]*$\<close>.\<close>

definition IsHLSGenerationName :: "string \<Rightarrow> bool" where
  "IsHLSGenerationName seg = (case seg of
      r # d # ds \<Rightarrow> r = CHR ''r'' \<and> ascii_digit d \<and> d \<noteq> CHR ''0'' \<and> list_all ascii_digit ds
    | _ \<Rightarrow> False)"

definition HLSPrefixForGeneration :: "string \<Rightarrow> int \<Rightarrow> string" where
  "HLSPrefixForGeneration videoID generation =
     (if HLSGenerationName generation \<noteq> [] then HLSKeyPrefix videoID @ ''/'' @ HLSGenerationName generation
      else HLSKeyPrefix videoID)"

definition PlaylistThumbnailKey :: "string \<Rightarrow> string \<Rightarrow> string" where
  "PlaylistThumbnailKey playlistID ext = ''playlist-thumbnails/'' @ playlistID @ ''.'' @ ext"

definition CutPrefix :: "string \<Rightarrow> string \<Rightarrow> (string \<times> bool)" where
  "CutPrefix s p = (if HasPrefix s p then (drop (length p) s, True) else (s, False))"

section \<open>State\<close>

datatype BucketOwnership =
  OwnershipUnknown | OwnershipNotApplicable | OwnershipOwned | OwnershipUnowned | OwnershipConflict

definition AllowsDelete :: "BucketOwnership \<Rightarrow> bool" where
  "AllowsDelete o' \<longleftrightarrow> o' = OwnershipOwned \<or> o' = OwnershipNotApplicable"

definition DefaultMaxOrphanPercent :: int where "DefaultMaxOrphanPercent = 25"
definition breakerFloor :: int where "breakerFloor = 100"

datatype gc_mode = ModeDryRun | ModeDelete
datatype forced_reason = ReasonBucketOwnership | ReasonMigrationActive

record gc_rows = world +
  VideoFileKeys :: "string list"
  CaptionKeys :: "string list"
  TranscodeGenerations :: "(string \<times> int) list"
  StreamingPlaylistRefs :: "(string \<times> string \<times> string) list"
  PlaylistThumbnailRefs :: "(string \<times> string option) list"

text \<open>
  \<open>be_Open\<close> gives the body and whether reading it failed half way; \<open>be_ObjectStore\<close> is the type
  assertion to the S3 backend, with the emptiness check only that one has.
\<close>

record ('s, 'e) Backend =
  be_ListKeys :: "(string \<Rightarrow> ('s, 'e, string list) op) option"
  be_Delete :: "string \<Rightarrow> ('s, 'e, unit) op"
  be_Open :: "string \<Rightarrow> ('s, 'e, string \<times> bool) op"
  be_Put :: "string \<Rightarrow> string \<Rightarrow> ('s, 'e, nat) op"
  be_NotFound :: "'e \<Rightarrow> bool"
  be_ObjectStore :: "('s, 'e, bool) op option"

text \<open>
  \<open>migrationActive\<close> and \<open>foreignLayoutRefs\<close> are the answers of the wired checks; \<open>Some None\<close> is a
  check that failed.
\<close>

record gc_Service =
  maxOrphanPercent :: int
  identity :: string
  migrationActive :: "bool option option"
  foreignLayoutRefs :: "int option option"
  ownership :: BucketOwnership
  uuid_parses :: "string \<Rightarrow> bool"

datatype 'e gc_error =
    ErrListingUnsupported | ErrAdoptNotApplicable | ErrNoInstanceIdentity | ErrAdoptForeignLayoutMedia
  | ErrRows | ErrStorage 'e | ErrMarker

definition gc_NewService :: "('s, 'e) Backend \<Rightarrow> (string \<Rightarrow> bool) \<Rightarrow> gc_Service" where
  "gc_NewService b parses = \<lparr>maxOrphanPercent = DefaultMaxOrphanPercent, identity = [], migrationActive = None,
     foreignLayoutRefs = None, ownership = (if be_ObjectStore b \<noteq> None then OwnershipUnknown else OwnershipNotApplicable),
     uuid_parses = parses\<rparr>"

definition WithMaxOrphanPercent :: "int \<Rightarrow> gc_Service \<Rightarrow> gc_Service" where
  "WithMaxOrphanPercent pct s = (if pct \<ge> 0 \<and> pct \<le> 100 then s\<lparr>maxOrphanPercent := pct\<rparr> else s)"

definition WithBucketOwnership :: "BucketOwnership \<Rightarrow> gc_Service \<Rightarrow> gc_Service" where
  "WithBucketOwnership o' s = s\<lparr>ownership := o'\<rparr>"

definition WithActiveMigrationCheck :: "bool option \<Rightarrow> gc_Service \<Rightarrow> gc_Service" where
  "WithActiveMigrationCheck answer s = s\<lparr>migrationActive := Some answer\<rparr>"

definition WithForeignLayoutRefCheck :: "int option \<Rightarrow> gc_Service \<Rightarrow> gc_Service" where
  "WithForeignLayoutRefCheck answer s = s\<lparr>foreignLayoutRefs := Some answer\<rparr>"

definition WithInstanceIdentity :: "string \<Rightarrow> gc_Service \<Rightarrow> gc_Service" where
  "WithInstanceIdentity i s = s\<lparr>identity := TrimSpace i\<rparr>"

section \<open>Ownership\<close>

definition ReadOwnerMarker :: "('s, 'e) Backend \<Rightarrow> 's \<Rightarrow> ('e gc_error + string option) \<times> 's" where
  "ReadOwnerMarker b s = (case be_Open b OwnerMarkerKey s of
      (Inl e, s') \<Rightarrow> (if be_NotFound b e then Inr None else Inl (ErrStorage e), s')
    | (Inr (body, broken), s') \<Rightarrow> (if broken then Inl ErrMarker else Inr (Some (TrimSpace (take 4096 body))), s'))"

definition WriteOwnerMarker :: "('s, 'e) Backend \<Rightarrow> string \<Rightarrow> 's \<Rightarrow> ('e gc_error + unit) \<times> 's" where
  "WriteOwnerMarker b i s = (if TrimSpace i = [] then (Inl ErrMarker, s)
     else case be_Put b OwnerMarkerKey (TrimSpace i) s of
        (Inl e, s') \<Rightarrow> (Inl (ErrStorage e), s') | (Inr _, s') \<Rightarrow> (Inr (), s'))"

definition refreshOwnership :: "('s, 'e) Backend \<Rightarrow> gc_Service \<Rightarrow> 's \<Rightarrow> gc_Service \<times> 's" where
  "refreshOwnership b g s = (if identity g = [] then (g, s)
     else case ReadOwnerMarker b s of
        (Inl _, s') \<Rightarrow> (g, s')
      | (Inr None, s') \<Rightarrow> (g, s')
      | (Inr (Some marker), s') \<Rightarrow>
          (g\<lparr>ownership := if marker = identity g then OwnershipOwned else OwnershipConflict\<rparr>, s'))"

definition AdoptBucket :: "('s, 'e) Backend \<Rightarrow> bool \<Rightarrow> gc_Service \<Rightarrow> 's \<Rightarrow> ('e gc_error + unit) \<times> gc_Service \<times> 's" where
  "AdoptBucket b force g s =
     (if ownership g = OwnershipNotApplicable then (Inl ErrAdoptNotApplicable, g, s)
      else if identity g = [] then (Inl ErrNoInstanceIdentity, g, s)
      else if \<not> force \<and> (case foreignLayoutRefs g of None \<Rightarrow> False | Some None \<Rightarrow> True | Some (Some n) \<Rightarrow> n > 0)
      then (Inl ErrAdoptForeignLayoutMedia, g, s)
      else case WriteOwnerMarker b (identity g) s of
        (Inl e, s') \<Rightarrow> (Inl e, g, s')
      | (Inr _, s') \<Rightarrow> (Inr (), g\<lparr>ownership := OwnershipOwned\<rparr>, s'))"

text \<open>
  Ownership at boot, in the two parts another process can come between: the questions, which either
  decide or leave the store to be claimed, and the claim.
\<close>

definition resolve_questions :: "('s, 'e) Backend \<Rightarrow> bool \<Rightarrow> string \<Rightarrow> 's \<Rightarrow> BucketOwnership option \<times> 's" where
  "resolve_questions b createdBucket i s =
     (case be_ObjectStore b of
        None \<Rightarrow> (Some OwnershipNotApplicable, s)
      | Some isEmpty \<Rightarrow>
      if i = [] then (Some OwnershipUnowned, s)
      else case ReadOwnerMarker b s of
        (Inl _, s') \<Rightarrow> (Some OwnershipUnowned, s')
      | (Inr (Some marker), s') \<Rightarrow> (Some (if marker = i then OwnershipOwned else OwnershipConflict), s')
      | (Inr None, s') \<Rightarrow>
          (if createdBucket then (None, s')
           else case isEmpty s' of
             (Inl _, s'') \<Rightarrow> (Some OwnershipUnowned, s'')
           | (Inr claimable, s'') \<Rightarrow> (if claimable then None else Some OwnershipUnowned, s'')))"

definition resolve_claim :: "('s, 'e) Backend \<Rightarrow> string \<Rightarrow> 's \<Rightarrow> BucketOwnership \<times> 's" where
  "resolve_claim b i s = (case WriteOwnerMarker b i s of
      (Inl _, s') \<Rightarrow> (OwnershipUnowned, s') | (Inr _, s') \<Rightarrow> (OwnershipOwned, s'))"

definition resolveBucketOwnership :: "('s, 'e) Backend \<Rightarrow> bool \<Rightarrow> string \<Rightarrow> 's \<Rightarrow> BucketOwnership \<times> 's" where
  "resolveBucketOwnership b createdBucket i s = (case resolve_questions b createdBucket i s of
      (Some o', s') \<Rightarrow> (o', s') | (None, s') \<Rightarrow> resolve_claim b i s')"

section \<open>References\<close>

record refSet =
  referenced :: "string list"
  liveVideoIDs :: "string list"
  hasPlaylist :: "string list"
  promotedGen :: "string \<Rightarrow> string option"
  targetGen :: "string \<Rightarrow> string option"

definition playlist_generation :: "string \<Rightarrow> string \<Rightarrow> string option" where
  "playlist_generation v master = (case CutPrefix master (HLSKeyPrefix v @ ''/'') of
      (rest, isOwn) \<Rightarrow>
        if \<not> isOwn \<or> rest = [] then None
        else case Cut rest CHR ''/'' of
          (seg, _, found) \<Rightarrow> Some (if found \<and> IsHLSGenerationName seg then seg else []))"

definition add_playlist :: "string \<times> string \<times> string \<Rightarrow> refSet \<Rightarrow> refSet" where
  "add_playlist r refs = (case r of (v, master, _) \<Rightarrow>
     (case playlist_generation v master of
        None \<Rightarrow> refs
      | Some gen \<Rightarrow> refs\<lparr>hasPlaylist := v # hasPlaylist refs, promotedGen := (promotedGen refs)(v \<mapsto> gen)\<rparr>))"

definition add_generation :: "string \<times> int \<Rightarrow> refSet \<Rightarrow> refSet" where
  "add_generation r refs = (case r of (v, n) \<Rightarrow>
     refs\<lparr>liveVideoIDs := v # liveVideoIDs refs, targetGen := (targetGen refs)(v \<mapsto> HLSGenerationName n)\<rparr>)"

definition cover_keys :: "(string \<times> string option) list \<Rightarrow> string list" where
  "cover_keys rs = concat (map (\<lambda>(i, ext). case ext of None \<Rightarrow> [] | Some e \<Rightarrow> if e = [] then [] else [PlaylistThumbnailKey i e]) rs)"

definition row_query :: "('a \<Rightarrow> gc_rows \<Rightarrow> ('e gc_error + 'b) \<times> gc_rows) \<Rightarrow> (gc_rows \<Rightarrow> 'a) \<Rightarrow>
    gc_rows \<Rightarrow> ('e gc_error + 'b) \<times> gc_rows" where
  "row_query k sel = catchE (repo (\<lambda>w. (sel w, w))) (\<lambda>_. throwE ErrRows) k"

definition referenceSet :: "gc_rows \<Rightarrow> ('e gc_error + refSet) \<times> gc_rows" where
  "referenceSet =
     row_query (\<lambda>fileKeys.
     row_query (\<lambda>capKeys.
     row_query (\<lambda>plRefs.
     row_query (\<lambda>spRefs.
     row_query (\<lambda>gens.
       retE (fold add_generation gens (fold add_playlist spRefs
         \<lparr>referenced = fileKeys @ capKeys @ cover_keys plRefs, liveVideoIDs = [], hasPlaylist = [],
          promotedGen = Map.empty, targetGen = Map.empty\<rparr>)))
     TranscodeGenerations) StreamingPlaylistRefs) PlaylistThumbnailRefs) CaptionKeys) VideoFileKeys"

section \<open>The sweep\<close>

definition sweptPrefixes :: "string list" where
  "sweptPrefixes = [''web-videos'', ''thumbnails'', ''storyboards'', ''captions'', ''streaming-playlists'', ''playlist-thumbnails'']"

definition hlsPrefix :: string where "hlsPrefix = ''streaming-playlists''"
definition webVideoPrefix :: string where "webVideoPrefix = ''web-videos''"

definition isMintedKey :: "(string \<Rightarrow> bool) \<Rightarrow> string \<Rightarrow> string \<Rightarrow> bool" where
  "isMintedKey isEntityID key pre = (case CutPrefix key (pre @ ''/'') of
      (rest, ok) \<Rightarrow> ok \<and> (let seg = fst (Cut rest CHR ''/'') in
         isEntityID seg \<or> (case Cut seg CHR ''.'' of (stem, _, found) \<Rightarrow> found \<and> isEntityID stem)))"

definition isReferenced :: "(string \<Rightarrow> bool) \<Rightarrow> string \<Rightarrow> string \<Rightarrow> refSet \<Rightarrow> bool" where
  "isReferenced isEntityID key pre refs =
     (let parts = split_on CHR ''/'' key in
      if \<not> isMintedKey isEntityID key pre then True
      else if pre = hlsPrefix then
        (let vid = (if length parts > 1 then parts ! 1 else []) in
         if \<not> isEntityID vid then True
         else if vid \<notin> set (liveVideoIDs refs) then False
         else if vid \<notin> set (hasPlaylist refs) then True
         else let gen = (if length parts > 2 \<and> IsHLSGenerationName (parts ! 2) then parts ! 2 else [])
              in gen = (case promotedGen refs vid of None \<Rightarrow> [] | Some g \<Rightarrow> g) \<or> targetGen refs vid = Some gen)
      else if pre = webVideoPrefix then
        key \<in> set (referenced refs) \<or>
        (length parts = 4 \<and> isEntityID (parts ! 1) \<and> IsHLSGenerationName (parts ! 2) \<and>
         parts ! 1 \<in> set (liveVideoIDs refs) \<and> parts ! 2 = (case targetGen refs (parts ! 1) of None \<Rightarrow> [] | Some g \<Rightarrow> g))
      else key \<in> set (referenced refs))"

definition breakerTrips :: "gc_Service \<Rightarrow> int \<Rightarrow> int \<Rightarrow> bool" where
  "breakerTrips g orphans scanned \<longleftrightarrow> \<not> orphans \<le> breakerFloor \<and>
     wrap64 (orphans * 100) > wrap64 (scanned * maxOrphanPercent g)"

definition percentOf :: "int \<Rightarrow> int \<Rightarrow> int" where
  "percentOf part tot = (if tot \<le> 0 then 0 else wrap64 (part * 100) sdiv tot)"

definition modeOf :: "bool \<Rightarrow> gc_mode" where
  "modeOf dryRun = (if dryRun then ModeDryRun else ModeDelete)"

record gc_Result =
  gc_DryRun :: bool
  gc_Mode :: gc_mode
  gc_Scanned :: int
  gc_Orphans :: "string list"
  gc_Deleted :: nat
  gc_OrphanPercent :: int
  gc_BreakerTripped :: bool
  gc_Ownership :: BucketOwnership
  gc_ForcedDryRun :: "forced_reason option"

text \<open>The gates: the mode the sweep may run in, and the service after a refreshed ownership.\<close>

definition gates :: "('s, 'e) Backend \<Rightarrow> bool \<Rightarrow> gc_Service \<Rightarrow> 's \<Rightarrow> (bool \<times> forced_reason option) \<times> gc_Service \<times> 's" where
  "gates b dryRun g s =
     (if dryRun then ((True, None), g, s)
      else if (case migrationActive g of None \<Rightarrow> False | Some None \<Rightarrow> True | Some (Some active) \<Rightarrow> active)
      then ((True, Some ReasonMigrationActive), g, s)
      else if AllowsDelete (ownership g) then ((False, None), g, s)
      else case refreshOwnership b g s of (g', s') \<Rightarrow>
        (if AllowsDelete (ownership g') then ((False, None), g', s') else ((True, Some ReasonBucketOwnership), g', s')))"

text \<open>The keys listed under each prefix, with the prefix they were listed under.\<close>

fun list_all_keys :: "(string \<Rightarrow> ('s, 'e, string list) op) \<Rightarrow> string list \<Rightarrow> 's \<Rightarrow> ('e gc_error + (string \<times> string) list) \<times> 's" where
  "list_all_keys ls [] s = (Inr [], s)"
| "list_all_keys ls (p # ps) s = (case ls p s of
      (Inl e, s') \<Rightarrow> (Inl (ErrStorage e), s')
    | (Inr keys, s') \<Rightarrow> (case list_all_keys ls ps s' of
        (Inl e, s'') \<Rightarrow> (Inl e, s'')
      | (Inr rest, s'') \<Rightarrow> (Inr (map (\<lambda>k. (k, p)) keys @ rest), s'')))"

fun delete_all :: "('s, 'e) Backend \<Rightarrow> string list \<Rightarrow> 's \<Rightarrow> nat \<times> 's" where
  "delete_all b [] s = (0, s)"
| "delete_all b (k # ks) s = (case be_Delete b k s of
      (Inl _, s') \<Rightarrow> delete_all b ks s'
    | (Inr _, s') \<Rightarrow> (case delete_all b ks s' of (n, s'') \<Rightarrow> (n + 1, s'')))"

text \<open>From the references and the listing to the result and the keys that are deleted.\<close>

definition sweep_listed :: "gc_Service \<Rightarrow> bool \<Rightarrow> forced_reason option \<Rightarrow> refSet \<Rightarrow> (string \<times> string) list \<Rightarrow> gc_Result \<times> string list" where
  "sweep_listed g dryRun forced refs listed =
     (let orphans = sort (map fst (filter (\<lambda>(k, p). \<not> isReferenced (uuid_parses g) k p refs) listed));
          n = int (length orphans); scanned = int (length listed);
          trips = (\<not> dryRun \<and> breakerTrips g n scanned); dry = (dryRun \<or> trips)
      in (\<lparr>gc_DryRun = dry, gc_Mode = modeOf dry, gc_Scanned = scanned, gc_Orphans = orphans, gc_Deleted = 0,
           gc_OrphanPercent = percentOf n scanned, gc_BreakerTripped = trips, gc_Ownership = ownership g,
           gc_ForcedDryRun = forced\<rparr>, if dry then [] else orphans))"

definition gc_Sweep :: "('s, 'e) Backend \<Rightarrow> bool \<Rightarrow> gc_Service \<Rightarrow> gc_rows \<Rightarrow> 's \<Rightarrow>
    ('e gc_error + gc_Result) \<times> gc_Service \<times> gc_rows \<times> 's" where
  "gc_Sweep b dryRun g w s = (case be_ListKeys b of
      None \<Rightarrow> (Inl ErrListingUnsupported, g, w, s)
    | Some ls \<Rightarrow> (case gates b dryRun g s of ((dry, forced), g', s1) \<Rightarrow>
        (case referenceSet w of
           (Inl e, w') \<Rightarrow> (Inl e, g', w', s1)
         | (Inr refs, w') \<Rightarrow>
             (case list_all_keys ls sweptPrefixes s1 of
                (Inl e, s2) \<Rightarrow> (Inl e, g', w', s2)
              | (Inr listed, s2) \<Rightarrow>
                  (case sweep_listed g' dry forced refs listed of (res, keys) \<Rightarrow>
                     (case delete_all b keys s2 of (n, s3) \<Rightarrow> (Inr (res\<lparr>gc_Deleted := n\<rparr>), g', w', s3)))))))"

section \<open>The reference report\<close>

record PlaylistRef =
  ref_VideoID :: string
  ref_MasterKey :: string
  ref_Format :: string
  ref_Prefix :: string

definition ListReferences :: "gc_rows \<Rightarrow> ('e gc_error + string list \<times> PlaylistRef list) \<times> gc_rows" where
  "ListReferences = bindE referenceSet (\<lambda>refs.
     row_query (\<lambda>spRefs. retE
       (sort (remdups (filter (\<lambda>k. TrimSpace k \<noteq> []) (referenced refs))),
        sort_key (\<lambda>r. (ref_VideoID r, ref_MasterKey r))
          (map (\<lambda>(v, master, format). \<lparr>ref_VideoID = v, ref_MasterKey = TrimSpace master, ref_Format = format,
             ref_Prefix = HLSKeyPrefix v\<rparr>) spRefs)))
     StreamingPlaylistRefs)"

section \<open>The local disk as a backend\<close>

definition local_backend :: "Local \<Rightarrow> (filesystem, unit storage_error) Backend" where
  "local_backend l = \<lparr>be_ListKeys = Some (Local_ListKeys l), be_Delete = Local_Delete l,
     be_Open = (\<lambda>k fs. case Local_Open l k fs of
        (Inl e, fs') \<Rightarrow> (Inl e, fs')
      | (Inr (File c), fs') \<Rightarrow> (Inr (c, False), fs')
      | (Inr Dir, fs') \<Rightarrow> (Inr ([], True), fs')),
     be_Put = (\<lambda>k c. Local_Put l k (plain_body c)),
     be_NotFound = (\<lambda>e. e = ErrObjectNotFound), be_ObjectStore = None\<rparr>"

end
