(* ===== verification/Blob_Disk.thy ===== *)
theory Blob_Disk
  imports Blob_Store
begin

text \<open>
  The local backend as a map: what listing and deleting do to a disk whose names are those of an
  operating system and whose directories form a tree, and the refinement of a key-value store by
  the backend over every sequence of commands.
\<close>

lemma join_split: "xs \<noteq> [] \<Longrightarrow> \<forall>s\<in>set xs. CHR ''/'' \<notin> set s \<Longrightarrow> split_on CHR ''/'' (join_slash xs) = xs"
  by (induction xs rule: join_slash.induct) (simp_all add: split_on_plain split_on_append)

definition names_ok :: "filesystem \<Rightarrow> bool" where
  "names_ok fs \<longleftrightarrow> list_all (\<lambda>e. list_all plain_segment (fst e)) (entries fs)"

lemma set_join_slash: "set (join_slash xs) \<subseteq> insert (CHR ''/'') (\<Union> (set ` set xs))"
  by (induction xs rule: join_slash.induct) auto

lemma hd_join_slash: "xs \<noteq> [] \<Longrightarrow> list_all plain_segment xs \<Longrightarrow> join_slash xs \<noteq> [] \<and> hd (join_slash xs) \<noteq> CHR ''/''"
  by (cases xs rule: join_slash.cases) (auto simp: plain_segment_def hd_append dest: hd_in_set)

lemma join_canonical:
  assumes "xs \<noteq> []" "list_all plain_segment xs"
  shows "canonical_key (join_slash xs)" "segments (join_slash xs) = xs"
proof -
  have split: "split_on CHR ''/'' (join_slash xs) = xs"
    using assms by (intro join_split) (auto simp: list_all_iff plain_segment_def)
  have "CHR 0x00 \<notin> set (join_slash xs)"
    using set_join_slash [of xs] assms(2) by (auto simp: list_all_iff plain_segment_def)
  then have "validateKey (join_slash xs)"
    using hd_join_slash [OF assms] assms(2) split
    by (cases "join_slash xs") (auto simp: validateKey_def list_all_iff plain_segment_def)
  then show key: "canonical_key (join_slash xs)"
    using split assms(2) by (auto simp: canonical_key_def list_all_iff plain_segment_def)
  then show "segments (join_slash xs) = xs" using split segments_canonical by metis
qed

lemma syscall_read:
  assumes "syscall (\<lambda>fs. (f fs, fs)) fs = (r, fs')"
  shows "entries fs' = entries fs" "failures fs = [] \<Longrightarrow> r = f fs \<and> fs' = fs"
  using assms by (auto simp: syscall_def split: list.splits option.splits) (cases fs; simp)+

lemma stat_node_read:
  assumes "stat_node p fs = (r, fs')"
  shows "entries fs' = entries fs"
  using assms by (auto simp: stat_node_def syscall_def split: list.splits option.splits if_splits)

lemma stat_node_ok: "stat_node p fs = (Inr v, fs') \<Longrightarrow> node_at fs p = Some v"
  by (auto simp: stat_node_def syscall_def split: list.splits option.splits if_splits)

lemma Open_entries: "Local_Open l k fs = (r, fs') \<Longrightarrow> entries fs' = entries fs"
  by (auto simp: Local_Open_def split: sum.splits prod.splits dest: stat_node_read)

lemma ListKeys_local:
  assumes "Local_ListKeys l p fs = (r, fs')"
  shows "entries fs' = entries fs"
  using assms by (auto simp: Local_ListKeys_def walk_def op_simps split: sum.splits prod.splits if_splits dest: stat_node_read)

lemma ListKeys_keys:
  assumes "Local_ListKeys l p fs = (Inr ks, fs')" "clean_root (root l)" "canonical_key p" "names_ok fs" "k \<in> set ks"
  shows "canonical_key k \<and> (\<exists>v. (root l @ segments k, v) \<in> set (entries fs) \<and> v \<noteq> Dir)"
proof -
  let ?full = "root l @ segments p"
  obtain r fs1 where st: "stat_node ?full fs = (r, fs1)" by fastforce
  have full: "resolve l p = (Inr ?full :: 'a storage_error + path)" using canonical_resolve assms(2,3) by blast
  have ks: "ks = [] \<or> ks = map fst (walk_files l ?full fs1)" and fs1: "entries fs1 = entries fs"
    using assms(1) st stat_node_read [OF st] by (auto simp: Local_ListKeys_def walk_def op_simps full split: sum.splits if_splits)
  then obtain path v where e: "(path, v) \<in> set (entries fs)" "prefix ?full path" "k = join_slash (Rel (root l) path)" "v \<noteq> Dir"
    using assms(5) by (auto simp: walk_files_def)
  then obtain ts where path: "path = root l @ segments p @ ts" by (auto simp: prefix_def)
  have "segments p \<noteq> []" using assms(3) segments_canonical by fastforce
  moreover have "list_all plain_segment (segments p @ ts)"
    using e(1) assms(4) path by (auto simp: names_ok_def list_all_iff)
  ultimately show ?thesis using join_canonical [of "segments p @ ts"] e path by auto
qed

lemma ListKeys_complete:
  assumes "Local_ListKeys l p fs = (Inr ks, fs')" "clean_root (root l)" "canonical_key p" "failures fs = []"
    "local_stored l fs k = Some c" "canonical_key k" "prefix (segments p) (segments k)" "names_ok fs" "\<not> through_file fs (root l @ segments p)"
    "node_at fs (root l @ segments p) \<noteq> None"
  shows "k \<in> set ks"
proof -
  let ?full = "root l @ segments p" and ?path = "root l @ segments k"
  have full: "resolve l p = (Inr ?full :: 'a storage_error + path)" using canonical_resolve assms(2,3) by blast
  obtain v where v: "node_at fs ?full = Some v" using assms(10) by blast
  have "stat_node ?full fs = (Inr v, fs)"
    using assms(4,9) v by (simp add: stat_node_def fs_simps)
  then have ks: "ks = map fst (walk_files l ?full fs)"
    using assms(1) by (auto simp: Local_ListKeys_def walk_def op_simps full)
  have "node_at fs ?path = Some (File c)" using assms(5) by (auto simp: local_stored_def split: option.splits node.splits)
  then have mem: "(?path, File c) \<in> set (entries fs)" by (rule map_of_SomeD)
  have ok: "list_all plain_segment (segments k)" using mem assms(8) by (auto simp: names_ok_def list_all_iff)
  have ne: "segments k \<noteq> []" using assms(6) segments_canonical by fastforce
  have "k = join_slash (Rel (root l) ?path)"
    using canonical_inj [OF assms(6) join_canonical(1) [OF ne ok]] join_canonical(2) [OF ne ok] by simp
  then show ?thesis using mem assms(7) by (force simp: ks walk_files_def)
qed

lemma Delete_local:
  assumes "clean_root (root l)" "canonical_key k" "Local_Delete l k fs = (r, fs')"
  shows "same_but (root l @ segments k) fs fs'"
  using assms(3) remove_effect [of "root l @ segments k" fs]
  by (auto simp: Local_Delete_def canonical_resolve [OF assms(1,2)] split: prod.splits sum.splits if_splits)

text \<open>Every path has one entry and everything above it is a directory.\<close>

definition fs_tree :: "filesystem \<Rightarrow> bool" where
  "fs_tree fs \<longleftrightarrow> distinct (map fst (entries fs)) \<and>
     list_all (\<lambda>e. list_all (\<lambda>q. node_at fs q = Some Dir) (butlast (prefixes (fst e)))) (entries fs)"

lemma fs_tree_dir: "fs_tree fs \<Longrightarrow> node_at fs p \<noteq> None \<Longrightarrow> strict_prefix q p \<Longrightarrow> node_at fs q = Some Dir"
proof -
  assume *: "fs_tree fs" "node_at fs p \<noteq> None" "strict_prefix q p"
  then obtain v where "(p, v) \<in> set (entries fs)" using map_of_SomeD by fastforce
  moreover have "q \<in> set (butlast (prefixes p))" using *(3) by (simp only: in_butlast_prefixes)
  ultimately show "node_at fs q = Some Dir" using *(1) by (fastforce simp: fs_tree_def list_all_iff)
qed

lemma fs_tree_above: "fs_tree fs \<Longrightarrow> node_at fs p \<noteq> None \<Longrightarrow> \<not> through_file fs p"
  using fs_tree_dir by (fastforce simp: through_file_iff)

lemma ListKeys_healthy:
  assumes "Local_ListKeys l p fs = (r, fs')" "failures fs = []"
  shows "fs' = fs"
  using assms
  by (auto simp: Local_ListKeys_def walk_def op_simps stat_node_def fs_simps split: sum.splits prod.splits if_splits option.splits)

text \<open>A path whose deletion succeeds: not a directory and not below a file.\<close>

definition deletable :: "filesystem \<Rightarrow> path \<Rightarrow> bool" where
  "deletable fs p \<longleftrightarrow> \<not> through_file fs p \<and> node_at fs p \<noteq> Some Dir"

lemma Delete_healthy:
  assumes "clean_root (root l)" "canonical_key k" "failures fs = []" "deletable fs (root l @ segments k)"
    and "Local_Delete l k fs = (r, fs')"
  shows "failures fs' = [] \<and> r = Inr () \<and>
    node_at fs' = (node_at fs)(root l @ segments k := None)"
  using assms(3-)
  by (auto simp: Local_Delete_def canonical_resolve [OF assms(1,2)] remove_def fs_simps deletable_def fun_eq_iff
      split: option.splits node.splits)

lemma deletable_shrink: "deletable fs p \<Longrightarrow> node_at fs' = (node_at fs)(q := None) \<Longrightarrow> deletable fs' p"
  by (auto simp: deletable_def through_file_iff split: if_splits)

section \<open>The backend refines a map\<close>

datatype store_cmd =
  SPut string "unit reader" | SOpen string | SExists string | SDelete string | SDeletePrefix string

datatype store_out =
    OPut "unit storage_error + nat"
  | OOpen "unit storage_error + node"
  | OExists "unit storage_error + bool"
  | ODone "unit storage_error + unit"

fun local_step :: "Local \<Rightarrow> store_cmd \<Rightarrow> filesystem \<Rightarrow> store_out \<times> filesystem" where
  "local_step l (SPut k r) fs = apfst OPut (Local_Put l k r fs)"
| "local_step l (SOpen k) fs = apfst OOpen (Local_Open l k fs)"
| "local_step l (SExists k) fs = apfst OExists (Local_Exists l k fs)"
| "local_step l (SDelete k) fs = apfst ODone (Local_Delete l k fs)"
| "local_step l (SDeletePrefix k) fs = apfst ODone (Local_DeletePrefix l k fs)"

text \<open>The specification: a map from keys to contents; a body that fails half way leaves no object.\<close>

fun map_step :: "store_cmd \<Rightarrow> (string \<Rightarrow> string option) \<Rightarrow> store_out \<times> (string \<Rightarrow> string option)" where
  "map_step (SPut k r) m = (case drain r of
      (c, EOF) \<Rightarrow> (OPut (Inr (length c)), m(k \<mapsto> c))
    | (c, Failing e) \<Rightarrow> (OPut (Inl (classifyLocal ''put'' (Reader e))), m(k := None)))"
| "map_step (SOpen k) m = (OOpen (case m k of Some c \<Rightarrow> Inr (File c) | None \<Rightarrow> Inl ErrObjectNotFound), m)"
| "map_step (SExists k) m = (OExists (Inr (m k \<noteq> None)), m)"
| "map_step (SDelete k) m = (ODone (Inr ()), m(k := None))"
| "map_step (SDeletePrefix p) m = (ODone (Inr ()), \<lambda>k. if k = p \<or> key_above p k then None else m k)"

fun run_cmds :: "(store_cmd \<Rightarrow> 's \<Rightarrow> store_out \<times> 's) \<Rightarrow> store_cmd list \<Rightarrow> 's \<Rightarrow> store_out list \<times> 's" where
  "run_cmds step [] s = ([], s)"
| "run_cmds step (c # cs) s = (case step c s of (out, s') \<Rightarrow> apfst ((#) out) (run_cmds step cs s'))"

fun cmd_ok :: "string set \<Rightarrow> string set \<Rightarrow> store_cmd \<Rightarrow> bool" where
  "cmd_ok K P (SPut k r) \<longleftrightarrow> k \<in> K"
| "cmd_ok K P (SOpen k) \<longleftrightarrow> k \<in> K"
| "cmd_ok K P (SExists k) \<longleftrightarrow> k \<in> K"
| "cmd_ok K P (SDelete k) \<longleftrightarrow> k \<in> K"
| "cmd_ok K P (SDeletePrefix p) \<longleftrightarrow> p \<in> P"

definition usable :: "Local \<Rightarrow> string set \<Rightarrow> string set \<Rightarrow> filesystem \<Rightarrow> bool" where
  "usable l K P fs \<longleftrightarrow> (\<forall>k\<in>K. local_ready l fs k) \<and> (\<forall>p\<in>P. local_reach l fs p)"

text \<open>A step that adds at most the object \<open>k\<close> and directories above it keeps every other key usable.\<close>

definition adds_only :: "path \<Rightarrow> filesystem \<Rightarrow> filesystem \<Rightarrow> bool" where
  "adds_only p fs fs' \<longleftrightarrow> failures fs' = [] \<and> node_at fs' p \<noteq> Some Dir \<and>
     (\<forall>q. q \<noteq> p \<longrightarrow> (is_file (node_at fs' q) \<longrightarrow> is_file (node_at fs q)) \<and>
       (node_at fs' q = Some Dir \<longrightarrow> node_at fs q = Some Dir \<or> strict_prefix q p))"

lemma reach_adds:
  assumes "adds_only (root l @ segments k) fs fs'" "local_reach l fs q" "\<not> key_above k q"
  shows "local_reach l fs' q"
proof -
  have "\<not> is_file (node_at fs' r)" if "strict_prefix r (root l @ segments q)" for r
  proof -
    have "r \<noteq> root l @ segments k" using that assms(3) by (auto simp: key_above_def strict_prefix_def)
    then show ?thesis using assms(1,2) that by (auto simp: adds_only_def local_reach_def through_file_iff)
  qed
  then show ?thesis using assms(1,2) by (auto simp: adds_only_def local_reach_def through_file_iff)
qed

lemma ready_adds:
  assumes "adds_only (root l @ segments k) fs fs'" "local_ready l fs q" "\<not> key_above k q" "\<not> key_above q k"
  shows "local_ready l fs' q"
proof -
  have "\<not> strict_prefix (root l @ segments q) (root l @ segments k)"
    using assms(4) by (auto simp: key_above_def strict_prefix_def)
  then have "node_at fs' (root l @ segments q) \<noteq> Some Dir"
    using assms(1,2) by (cases "root l @ segments q = root l @ segments k") (auto simp: adds_only_def local_ready_def writable_def)
  moreover have "local_reach l fs' q" using reach_adds [OF assms(1) _ assms(3)] assms(2) by (simp add: local_ready_def)
  ultimately show ?thesis using assms(2) by (simp add: local_ready_def writable_def local_reach_def)
qed

definition keys_apart :: "string set \<Rightarrow> string set \<Rightarrow> bool" where
  "keys_apart K P \<longleftrightarrow> (\<forall>k\<in>K. \<forall>q\<in>K \<union> P. \<not> key_above k q)"

lemma usable_adds:
  assumes "adds_only (root l @ segments k) fs fs'" "k \<in> K" "keys_apart K P" "usable l K P fs"
  shows "usable l K P fs'"
  using assms reach_adds [OF assms(1)] ready_adds [OF assms(1)] by (auto simp: usable_def keys_apart_def)

lemma usable_drops:
  assumes "usable l K P fs" "\<And>q. node_at fs' q = node_at fs q \<or> node_at fs' q = None" "failures fs' = []"
  shows "usable l K P fs'"
proof -
  have "is_file (node_at fs' q) \<Longrightarrow> is_file (node_at fs q)" "node_at fs' q = Some Dir \<Longrightarrow> node_at fs q = Some Dir" for q
    using assms(2) [of q] by auto
  then show ?thesis
    using assms(1,3) by (auto simp: usable_def local_ready_def local_reach_def writable_def through_file_iff) blast+
qed

lemma ready_resolve:
  "local_ready l fs k \<Longrightarrow> resolve l k = (Inr (root l @ segments k) :: unit storage_error + path) \<and> failures fs = [] \<and>
     writable fs (root l @ segments k) \<and> canonical_key k \<and> local_reach l fs k"
  by (simp add: local_ready_def local_reach_def canonical_resolve)

lemma stored_grows:
  assumes "grows_to (root l @ segments k) fs fs'" "canonical_key k" "canonical_key k'" "k' \<noteq> k"
  shows "local_stored l fs' k' = local_stored l fs k'"
proof -
  have "root l @ segments k' \<noteq> root l @ segments k" using canonical_inj assms(2-) by blast
  note grown = grows_to_file [OF assms(1) this]
  then show ?thesis by (auto simp: local_stored_def file_content)
qed

lemma grows_adds:
  assumes "grows_to p fs fs'" "failures fs' = []" "node_at fs' p \<noteq> Some Dir"
  shows "adds_only p fs fs'"
  using assms(2,3) grows_to_file(1,3) [OF assms(1)] unfolding adds_only_def by metis

lemma Put_refines:
  assumes "local_ready l fs k" "Local_Put l k r fs = (res, fs')" "map_step (SPut k r) m = (out, m')"
    "\<forall>k. canonical_key k \<longrightarrow> m k = local_stored l fs k"
  shows "out = OPut res \<and> (\<forall>k. canonical_key k \<longrightarrow> m' k = local_stored l fs' k) \<and> adds_only (root l @ segments k) fs fs'"
proof -
  let ?p = "root l @ segments k"
  note k = ready_resolve [OF assms(1)]
  have grow: "grows_to ?p fs fs'" using Put_frame k assms(2) by blast
  have healthy: "failures fs' = [] \<and> (case snd (drain r) of EOF \<Rightarrow> res = Inr (length (fst (drain r)))
     | Failing e \<Rightarrow> res = Inl (classifyLocal ''put'' (Reader e)) \<and> node_at fs' ?p = None)"
    using Put_healthy [OF _ _ _ assms(2)] k by blast
  have other: "m k' = local_stored l fs' k'" if "canonical_key k'" "k' \<noteq> k" for k'
    using stored_grows [OF grow] k that assms(4) by simp
  show ?thesis
  proof (cases "snd (drain r)")
    case EOF
    then have d: "drain r = (fst (drain r), EOF)" by (metis prod.collapse)
    then have res: "res = Inr (length (fst (drain r)))" using healthy EOF by simp
    have "node_at fs' ?p = Some (File (fst (drain r)))"
      using Put_stored [of l k ?p r fs "length (fst (drain r))" fs'] k assms(2) res d by auto
    moreover from this have "local_stored l fs' k = Some (fst (drain r))" by (simp add: local_stored_def)
    ultimately show ?thesis
      using assms(3) d res other healthy grows_adds [OF grow] by (subst (asm) d) (auto split: prod.splits)
  next
    case (Failing e)
    then have d: "drain r = (fst (drain r), Failing e)" by (metis prod.collapse)
    have "node_at fs' ?p = None" "res = Inl (classifyLocal ''put'' (Reader e))" using healthy Failing by simp_all
    moreover from this have "local_stored l fs' k = None" by (simp add: local_stored_def)
    ultimately show ?thesis
      using assms(3) d other healthy grows_adds [OF grow] by (subst (asm) d) (auto split: prod.splits)
  qed
qed

lemma local_step_refines:
  assumes "usable l K P fs" "keys_apart K P" "cmd_ok K P c" "\<forall>k. canonical_key k \<longrightarrow> m k = local_stored l fs k"
    "local_step l c fs = (out, fs')"
  shows "fst (map_step c m) = out \<and> (\<forall>k. canonical_key k \<longrightarrow> snd (map_step c m) k = local_stored l fs' k) \<and> usable l K P fs'"
proof (cases c)
  case (SPut k r)
  then have k: "k \<in> K" "local_ready l fs k" using assms(1,3) by (auto simp: usable_def)
  obtain res where put: "Local_Put l k r fs = (res, fs')" "out = OPut res"
    using assms(5) SPut by (auto simp: apfst_def map_prod_def split: prod.splits)
  show ?thesis
    using Put_refines [OF k(2) put(1) _ assms(4)] usable_adds [OF _ k(1) assms(2,1)] put(2) SPut by (metis prod.collapse)
next
  case (SOpen k)
  then have r: "local_ready l fs k" using assms(1,3) by (auto simp: usable_def)
  have "Local_Open l k fs =
      (case local_stored l fs k of Some c \<Rightarrow> Inr (File c) | None \<Rightarrow> Inl (ErrObjectNotFound :: unit storage_error), fs)"
    using r by (auto simp: Local_Open_def local_ready_def local_reach_def writable_def canonical_resolve stat_node_def
        fs_simps local_stored_def split: option.splits node.splits)
  moreover have "canonical_key k" using ready_resolve [OF r] by blast
  ultimately show ?thesis using assms(1,4,5) SOpen by auto
next
  case (SExists k)
  then have r: "local_ready l fs k" using assms(1,3) by (auto simp: usable_def)
  have "Local_Exists l k fs = (Inr (local_stored l fs k \<noteq> None) :: unit storage_error + bool, fs)"
    using r by (auto simp: Local_Exists_def local_ready_def local_reach_def writable_def canonical_resolve stat_node_def
        fs_simps local_stored_def split: option.splits node.splits)
  moreover have "canonical_key k" using ready_resolve [OF r] by blast
  ultimately show ?thesis using assms(1,4,5) SExists by auto
next
  case (SDelete k)
  then have r: "local_ready l fs k" using assms(1,3) by (auto simp: usable_def)
  note k = ready_resolve [OF r]
  obtain res where d: "Local_Delete l k fs = (res, fs')" "out = ODone res"
    using assms(5) SDelete by (auto simp: apfst_def map_prod_def split: prod.splits)
  have "deletable fs (root l @ segments k)" using k by (simp add: deletable_def writable_def)
  then have eff: "failures fs' = [] \<and> res = Inr () \<and> node_at fs' = (node_at fs)(root l @ segments k := None)"
    using Delete_healthy [OF _ _ _ _ d(1)] k by (auto simp: local_reach_def)
  have "(m(k := None)) k' = local_stored l fs' k'" if "canonical_key k'" for k'
    using that k eff assms(4) canonical_inj [of k' k] by (auto simp: local_stored_def)
  then show ?thesis using eff d(2) SDelete usable_drops [OF assms(1)] by auto
next
  case (SDeletePrefix p)
  then have r: "local_reach l fs p" using assms(1,3) by (auto simp: usable_def)
  have "Local_DeletePrefix l p fs = (Inr () :: unit storage_error + unit, drop_nodes (prefix (root l @ segments p)) fs)"
    using r by (simp add: local_reach_def Local_DeletePrefix_def RemoveAll_def fs_simps canonical_resolve)
  then have out: "out = ODone (Inr ())" "fs' = drop_nodes (prefix (root l @ segments p)) fs"
    using assms(5) SDeletePrefix by auto
  then have "fs' = local_forget l p fs" using local_forget_effect [OF r] by simp
  then have "local_stored l fs' k = (if k = p \<or> key_above p k then None else m k)" if "canonical_key k" for k
    using local_stored_forget [OF r that] assms(4) that by simp
  moreover have "usable l K P fs'"
    using usable_drops [OF assms(1)] r out(2) by (simp add: local_reach_def)
  ultimately show ?thesis using out(1) SDeletePrefix by simp
qed

text \<open>C23. On a healthy disk the local backend implements a map from keys to contents: every sequence
  of put (with bodies that may fail half way), open, exists, delete and delete-prefix over keys
  that do not lie below each other returns what the map returns and leaves the same contents.\<close>

theorem local_refines_map:
  assumes "usable l K P fs" "keys_apart K P" "\<forall>c\<in>set cs. cmd_ok K P c" "canonical_key k"
  shows "fst (run_cmds (local_step l) cs fs) = fst (run_cmds map_step cs (local_stored l fs)) \<and>
    local_stored l (snd (run_cmds (local_step l) cs fs)) k = snd (run_cmds map_step cs (local_stored l fs)) k"
proof -
  have "fst (run_cmds (local_step l) cs fs) = fst (run_cmds map_step cs m) \<and>
    local_stored l (snd (run_cmds (local_step l) cs fs)) k = snd (run_cmds map_step cs m) k"
    if "usable l K P fs" "\<forall>c\<in>set cs. cmd_ok K P c" "\<forall>k. canonical_key k \<longrightarrow> m k = local_stored l fs k" for fs m
    using that
  proof (induction cs arbitrary: fs m)
    case (Cons c cs)
    obtain out fs' where st: "local_step l c fs = (out, fs')" by fastforce
    obtain out' m' where ms: "map_step c m = (out', m')" by fastforce
    have "out' = out" "\<forall>k. canonical_key k \<longrightarrow> m' k = local_stored l fs' k" "usable l K P fs'"
      using local_step_refines [OF Cons.prems(1) assms(2) _ Cons.prems(3) st] Cons.prems(2) ms by simp_all
    then show ?case using Cons.IH [of fs' m'] Cons.prems(2) st ms by (simp add: apfst_def map_prod_def split_beta)
  qed (use assms(4) in simp)
  then show ?thesis using assms(1,3) by blast
qed

definition demo_cmds :: "store_cmd list" where
  "demo_cmds = [SPut ''u/1'' (Body [''ab'', ''c''] EOF True), SPut ''u/2'' (Body [''x''] (Failing ()) False), SOpen ''u/1'', SExists ''u/2'',
     SDeletePrefix ''u'', SOpen ''u/1'', SDelete ''f'']"

theorem local_refines_map_witness:
  "fst (run_cmds (local_step demo_root) demo_cmds demo_fs) = fst (run_cmds map_step demo_cmds (local_stored demo_root demo_fs)) \<and>
   local_stored demo_root (snd (run_cmds (local_step demo_root) demo_cmds demo_fs)) ''f'' = None \<and>
   fst (run_cmds (local_step demo_root) demo_cmds demo_fs) = [OPut (Inr 3), OPut (Inl (Unclassified (Reader ()))), OOpen (Inr (File ''abc'')),
     OExists (Inr False), ODone (Inr ()), OOpen (Inl ErrObjectNotFound), ODone (Inr ())]"
proof -
  let ?K = "{''u/1'', ''u/2'', ''f''}"
  have ready: "\<forall>k\<in>?K. local_ready demo_root demo_fs k" by code_simp
  have reach: "\<forall>p\<in>{''u''}. local_reach demo_root demo_fs p" by code_simp
  have apart: "keys_apart ?K {''u''}" by code_simp
  have use: "usable demo_root ?K {''u''} demo_fs" using ready reach by (simp only: usable_def)
  have ok: "\<forall>c\<in>set demo_cmds. cmd_ok ?K {''u''} c" by (simp add: demo_cmds_def)
  have key: "canonical_key ''f''" by code_simp
  have "fst (run_cmds map_step demo_cmds (local_stored demo_root demo_fs)) = [OPut (Inr 3), OPut (Inl (Unclassified (Reader ()))),
     OOpen (Inr (File ''abc'')), OExists (Inr False), ODone (Inr ()), OOpen (Inl ErrObjectNotFound), ODone (Inr ())]"
    "snd (run_cmds map_step demo_cmds (local_stored demo_root demo_fs)) ''f'' = None" by code_simp+
  then show ?thesis using local_refines_map [OF use apart ok key] by simp
qed

end
