(* ===== verification/Media_GC_Props.thy ===== *)
theory Media_GC_Props
  imports Media_GC Blob_Disk
begin

text \<open>
  What the sweep of \<open>Media_GC\<close> guarantees: the database's references survive under every schedule of
  storage failures, the gates let nothing be deleted, and a clean sweep reclaims the garbage.
\<close>

section \<open>Keys and their segments\<close>

lemma Cut_append: "sep \<notin> set a \<Longrightarrow> Cut (a @ sep # b) sep = (a, b, True)"
proof -
  assume sep: "sep \<notin> set a"
  then have "takeWhile (\<lambda>c. c \<noteq> sep) (a @ sep # b) = a" "dropWhile (\<lambda>c. c \<noteq> sep) (a @ sep # b) = sep # b"
    by (induction a) auto
  then show "Cut (a @ sep # b) sep = (a, b, True)" by (simp add: Cut_def)
qed

lemma Cut_plain: "sep \<notin> set a \<Longrightarrow> Cut a sep = (a, [], False)"
  by (simp add: Cut_def)

lemma CutPrefix_append [simp]: "CutPrefix (p @ s) p = (s, True)"
  by (simp add: CutPrefix_def HasPrefix_def)

lemma CutPrefix_True: "CutPrefix s p = (r, True) \<longleftrightarrow> s = p @ r"
  by (auto simp: CutPrefix_def HasPrefix_def split: if_splits) (metis append_take_drop_id)

lemma HLSGenerationName_pos: "0 < n \<Longrightarrow> HLSGenerationName n = CHR ''r'' # Itoa n"
  by (simp add: HLSGenerationName_def)

lemma HLSGenerationName_inj: "0 < m \<Longrightarrow> 0 < n \<Longrightarrow> HLSGenerationName m = HLSGenerationName n \<Longrightarrow> m = n"
  using Itoa_inj [of m n] by (simp add: HLSGenerationName_pos)

lemma digit_char_ascii: "d < 10 \<Longrightarrow> ascii_digit (digit_char d)"
proof -
  have "list_all (\<lambda>d. ascii_digit (digit_char d)) [0..<10]" by code_simp
  then show "d < 10 \<Longrightarrow> ascii_digit (digit_char d)" by (auto simp: list_all_iff)
qed

text \<open>Every generation the transcoder mints is recognised, and no other directory name is.\<close>

lemma IsHLSGenerationName_mint: "0 < n \<Longrightarrow> IsHLSGenerationName (HLSGenerationName n)"
proof -
  assume n: "0 < n"
  let ?ds = "rev (digits 10 (nat n))"
  have ne: "?ds \<noteq> []" and hd: "hd ?ds \<noteq> 0" and lt: "\<forall>d\<in>set ?ds. d < 10"
    using n digits_nonempty [of 10 "nat n"] digits_last [of 10 "nat n"] digits_less [of 10 _ "nat n"]
    by (simp_all add: hd_rev)
  obtain d ds where ds: "?ds = d # ds" using ne by (cases ?ds) auto
  have "digit_char d \<noteq> CHR ''0''" using digit_char_inj [of d 0] hd lt ds by (auto simp: digit_char_0)
  moreover have "Itoa n = digit_char d # map digit_char ds"
    using n ds by (simp add: Itoa_def rev_map)
  ultimately show ?thesis
    using lt ds n by (simp add: HLSGenerationName_pos IsHLSGenerationName_def digit_char_ascii list_all_iff)
qed

lemma generation_no_slash: "CHR ''/'' \<notin> set (HLSGenerationName n)"
proof (cases "0 < n")
  case True
  have "CHR ''/'' \<notin> set (Itoa n)" using Itoa_bytes [of n "CHR ''/''"] True by auto
  then show ?thesis using True by (simp add: HLSGenerationName_pos)
qed (simp add: HLSGenerationName_def)

section \<open>The reference set\<close>

abbreviation refs_of :: "gc_rows \<Rightarrow> refSet" where
  "refs_of w \<equiv> fold add_generation (TranscodeGenerations w) (fold add_playlist (StreamingPlaylistRefs w)
     \<lparr>referenced = VideoFileKeys w @ CaptionKeys w @ cover_keys (PlaylistThumbnailRefs w), liveVideoIDs = [],
      hasPlaylist = [], promotedGen = Map.empty, targetGen = Map.empty\<rparr>)"

lemma row_query_Inr:
  assumes "row_query k sel w = (Inr b, w')" "\<And>fs. sel (w\<lparr>w_faults := fs\<rparr>) = sel w"
  shows "\<exists>fs. k (sel w) (w\<lparr>w_faults := fs\<rparr>) = (Inr b, w')"
  using assms by (auto simp: row_query_def op_simps repo_def split: list.splits bool.splits)

lemma referenceSet_Inr:
  assumes "referenceSet w = (Inr refs, w')"
  shows "refs = refs_of w"
  using assms unfolding referenceSet_def
  by (auto dest!: row_query_Inr simp: retE_def)

lemma add_generation_fields [simp]:
  "referenced (fold add_generation gs r) = referenced r"
  "hasPlaylist (fold add_generation gs r) = hasPlaylist r"
  "promotedGen (fold add_generation gs r) = promotedGen r"
  "set (liveVideoIDs (fold add_generation gs r)) = fst ` set gs \<union> set (liveVideoIDs r)"
  by (induction gs arbitrary: r) (auto simp: add_generation_def)

lemma targetGen_other: "v \<notin> fst ` set gs \<Longrightarrow> targetGen (fold add_generation gs r) v = targetGen r v"
  by (induction gs arbitrary: r) (auto simp: add_generation_def split: prod.splits)

lemma targetGen_row:
  "distinct (map fst gs) \<Longrightarrow> (v, n) \<in> set gs \<Longrightarrow> targetGen (fold add_generation gs r) v = Some (HLSGenerationName n)"
  by (induction gs arbitrary: r) (auto simp: add_generation_def targetGen_other split: prod.splits)

lemma add_playlist_fields [simp]:
  "referenced (fold add_playlist ps r) = referenced r"
  "liveVideoIDs (fold add_playlist ps r) = liveVideoIDs r"
  "targetGen (fold add_playlist ps r) = targetGen r"
  by (induction ps arbitrary: r) (auto simp: add_playlist_def split: prod.splits option.splits)

lemma hasPlaylist_row:
  "v \<in> set (hasPlaylist (fold add_playlist ps r)) \<longleftrightarrow>
   v \<in> set (hasPlaylist r) \<or> (\<exists>m f. (v, m, f) \<in> set ps \<and> playlist_generation v m \<noteq> None)"
  by (induction ps arbitrary: r) (auto simp: add_playlist_def split: prod.splits option.splits)

lemma promotedGen_other: "v \<notin> fst ` set ps \<Longrightarrow> promotedGen (fold add_playlist ps r) v = promotedGen r v"
  by (induction ps arbitrary: r) (auto simp: add_playlist_def split: prod.splits option.splits)

lemma promotedGen_row:
  "distinct (map fst ps) \<Longrightarrow> (v, m, f) \<in> set ps \<Longrightarrow> playlist_generation v m = Some g \<Longrightarrow>
   promotedGen (fold add_playlist ps r) v = Some g"
  by (induction ps arbitrary: r) (auto simp: add_playlist_def promotedGen_other split: prod.splits option.splits)

lemmas refs_simps = hasPlaylist_row targetGen_row promotedGen_row

section \<open>What the database protects\<close>

text \<open>
  A key that lies in the tree of generation \<open>g\<close> of a video's HLS output; generations up to zero are
  the legacy layout, everything of the tree outside a generation directory.
\<close>

definition in_generation :: "string \<Rightarrow> int \<Rightarrow> string \<Rightarrow> bool" where
  "in_generation v g key = (case CutPrefix key (HLSPrefixForGeneration v g @ ''/'') of
     (rest, ok) \<Rightarrow> ok \<and> rest \<noteq> [] \<and> (g \<le> 0 \<longrightarrow> \<not> IsHLSGenerationName (fst (Cut rest CHR ''/''))))"

inductive gc_protected :: "(string \<Rightarrow> bool) \<Rightarrow> gc_rows \<Rightarrow> string \<Rightarrow> bool" for isEntityID w where
  foreign: "pre \<in> set sweptPrefixes \<Longrightarrow> key = pre @ ''/'' @ rest \<Longrightarrow> \<not> isEntityID (fst (Cut rest CHR ''/'')) \<Longrightarrow>
    \<not> isEntityID (fst (Cut (fst (Cut rest CHR ''/'')) CHR ''.'')) \<Longrightarrow> gc_protected isEntityID w key"
| row: "key \<in> set (VideoFileKeys w) \<union> set (CaptionKeys w) \<union> set (cover_keys (PlaylistThumbnailRefs w)) \<Longrightarrow>
    \<not> HasPrefix key (hlsPrefix @ ''/'') \<Longrightarrow> gc_protected isEntityID w key"
| unattributed: "(v, n) \<in> set (TranscodeGenerations w) \<Longrightarrow>
    (\<And>m f. (v, m, f) \<in> set (StreamingPlaylistRefs w) \<Longrightarrow> playlist_generation v m = None) \<Longrightarrow>
    key = HLSKeyPrefix v @ ''/'' @ rest \<Longrightarrow> gc_protected isEntityID w key"
| promoted: "(v, n) \<in> set (TranscodeGenerations w) \<Longrightarrow> (v, m, f) \<in> set (StreamingPlaylistRefs w) \<Longrightarrow>
    in_generation v g m \<Longrightarrow> in_generation v g key \<Longrightarrow> gc_protected isEntityID w key"
| target: "(v, n) \<in> set (TranscodeGenerations w) \<Longrightarrow> in_generation v n key \<Longrightarrow> gc_protected isEntityID w key"
| target_web: "(v, n) \<in> set (TranscodeGenerations w) \<Longrightarrow> 0 < n \<Longrightarrow> CHR ''/'' \<notin> set rung \<Longrightarrow>
    key = webVideoPrefix @ ''/'' @ v @ ''/'' @ HLSGenerationName n @ ''/'' @ rung \<Longrightarrow> gc_protected isEntityID w key"

text \<open>The primary keys of the two tables, the foreign key between them, and that an id is an id.\<close>

definition gc_rows_ok :: "(string \<Rightarrow> bool) \<Rightarrow> gc_rows \<Rightarrow> bool" where
  "gc_rows_ok isEntityID w \<longleftrightarrow> distinct (map fst (TranscodeGenerations w)) \<and> distinct (map fst (StreamingPlaylistRefs w)) \<and>
     list_all (\<lambda>(v, n). isEntityID v \<and> CHR ''/'' \<notin> set v) (TranscodeGenerations w)"

lemma seg_cut: "CHR ''/'' \<notin> set v \<Longrightarrow> fst (Cut (v @ ''/'' @ rest) CHR ''/'') = v"
  by (simp add: Cut_append)

lemma other_prefix:
  "p \<in> set sweptPrefixes \<Longrightarrow> pre \<in> set sweptPrefixes \<Longrightarrow> p \<noteq> pre \<Longrightarrow> \<not> isMintedKey isE (pre @ ''/'' @ rest) p"
proof -
  assume *: "p \<in> set sweptPrefixes" "pre \<in> set sweptPrefixes" "p \<noteq> pre"
  have slash: "CHR ''/'' \<notin> set q" if "q \<in> set sweptPrefixes" for q
    using that by (auto simp: sweptPrefixes_def)
  have False if eq: "pre @ ''/'' @ rest = (p @ ''/'') @ r" for r
    using seg_cut [OF slash [OF *(1)], of r] seg_cut [OF slash [OF *(2)], of rest] *(3) eq by simp
  then have "\<not> snd (CutPrefix (pre @ ''/'' @ rest) (p @ ''/''))"
    using CutPrefix_True [of "pre @ ''/'' @ rest" "p @ ''/''"] by (metis prod.collapse)
  then show ?thesis by (simp add: isMintedKey_def split_beta)
qed

lemma unminted_referenced: "\<not> isMintedKey isE key p \<Longrightarrow> isReferenced isE key p refs"
  by (simp add: isReferenced_def)

lemma split_tree: "CHR ''/'' \<notin> set a \<Longrightarrow> split_on CHR ''/'' (a @ ''/'' @ rest) = a # split_on CHR ''/'' rest"
  by (simp add: split_on_append split_on_plain)

lemma split_hd: "split_on c rest ! 0 = fst (Cut rest c)"
proof (cases "c \<in> set rest")
  case True
  then obtain a b where "rest = a @ c # b" "c \<notin> set a" by (meson split_list_first)
  then show ?thesis by (simp add: split_on_append split_on_plain Cut_append)
qed (simp add: split_on_plain Cut_plain)

text \<open>The sweep's question about a key of a video's HLS tree.\<close>

lemma isReferenced_hls:
  assumes "isE v" "CHR ''/'' \<notin> set v"
  shows "isReferenced isE (HLSKeyPrefix v @ ''/'' @ rest) hlsPrefix refs \<longleftrightarrow>
    v \<in> set (liveVideoIDs refs) \<and> (v \<notin> set (hasPlaylist refs) \<or>
      (let gen = if IsHLSGenerationName (fst (Cut rest CHR ''/'')) then fst (Cut rest CHR ''/'') else [] in
       gen = (case promotedGen refs v of None \<Rightarrow> [] | Some g \<Rightarrow> g) \<or> targetGen refs v = Some gen))"
proof -
  have key: "HLSKeyPrefix v @ ''/'' @ rest = (hlsPrefix @ ''/'') @ (v @ ''/'' @ rest)"
    by (simp add: HLSKeyPrefix_def hlsPrefix_def)
  have "isMintedKey isE (HLSKeyPrefix v @ ''/'' @ rest) hlsPrefix"
    unfolding key isMintedKey_def CutPrefix_append using assms seg_cut [of v rest] by (simp add: Let_def)
  moreover have "split_on CHR ''/'' (HLSKeyPrefix v @ ''/'' @ rest) = hlsPrefix # v # split_on CHR ''/'' rest"
    unfolding key append_assoc using assms(2)
    by (subst split_tree, simp add: hlsPrefix_def) (subst split_tree, simp_all)
  ultimately show ?thesis
    using assms by (simp add: isReferenced_def Let_def split_hd)
qed

lemma in_generation_iff:
  "in_generation v g key \<longleftrightarrow> (\<exists>rest. key = HLSPrefixForGeneration v g @ ''/'' @ rest \<and> rest \<noteq> [] \<and>
     (g \<le> 0 \<longrightarrow> \<not> IsHLSGenerationName (fst (Cut rest CHR ''/''))))"
proof (cases "CutPrefix key (HLSPrefixForGeneration v g @ ''/'')")
  case (Pair rest ok)
  let ?p = "HLSPrefixForGeneration v g @ ''/''"
  have cut: "CutPrefix key ?p = (r, True) \<longleftrightarrow> key = HLSPrefixForGeneration v g @ ''/'' @ r" for r
    by (simp only: CutPrefix_True append_assoc)
  have "in_generation v g key \<longleftrightarrow> (\<exists>r. CutPrefix key ?p = (r, True) \<and> r \<noteq> [] \<and>
     (g \<le> 0 \<longrightarrow> \<not> IsHLSGenerationName (fst (Cut r CHR ''/''))))"
    unfolding in_generation_def Pair by simp
  then show ?thesis unfolding cut .
qed

lemma in_generation_pos:
  "0 < g \<Longrightarrow> in_generation v g key \<longleftrightarrow> (\<exists>rest. rest \<noteq> [] \<and> key = HLSKeyPrefix v @ ''/'' @ HLSGenerationName g @ ''/'' @ rest)"
  by (auto simp: in_generation_iff HLSPrefixForGeneration_def HLSGenerationName_pos)

lemma gc_rows_okD:
  assumes "gc_rows_ok isE w" "(v, n) \<in> set (TranscodeGenerations w)"
  shows "isE v" "CHR ''/'' \<notin> set v" "v \<in> set (liveVideoIDs (refs_of w))"
    "targetGen (refs_of w) v = Some (HLSGenerationName n)"
  using assms by (auto simp: gc_rows_ok_def list_all_iff targetGen_row intro!: rev_image_eqI)

lemma tree_referenced:
  assumes "isReferenced isE (HLSKeyPrefix v @ ''/'' @ rest) hlsPrefix refs" "p \<in> set sweptPrefixes"
  shows "isReferenced isE (HLSKeyPrefix v @ ''/'' @ rest) p refs"
proof (cases "p = hlsPrefix")
  case False
  have "HLSKeyPrefix v @ ''/'' @ rest = hlsPrefix @ ''/'' @ v @ ''/'' @ rest"
    by (simp add: HLSKeyPrefix_def hlsPrefix_def)
  then have "\<not> isMintedKey isE (HLSKeyPrefix v @ ''/'' @ rest) p"
    using other_prefix [OF assms(2) _ False] by (simp add: hlsPrefix_def sweptPrefixes_def)
  then show ?thesis by (rule unminted_referenced)
qed (use assms in simp)

text \<open>The generation a key of a tree belongs to, as the sweep reads it.\<close>

lemma in_generation_tree:
  assumes "in_generation v g key"
  obtains rest where "key = HLSKeyPrefix v @ ''/'' @ rest" "rest \<noteq> []"
    "(if IsHLSGenerationName (fst (Cut rest CHR ''/'')) then fst (Cut rest CHR ''/'') else []) = HLSGenerationName g"
    "playlist_generation v key = Some (HLSGenerationName g)"
proof (cases "0 < g")
  case True
  then obtain r where key: "key = HLSKeyPrefix v @ ''/'' @ HLSGenerationName g @ ''/'' @ r"
    using assms in_generation_pos by blast
  have cut: "Cut (HLSGenerationName g @ ''/'' @ r) CHR ''/'' = (HLSGenerationName g, r, True)"
    using Cut_append generation_no_slash by simp
  have "CutPrefix key (HLSKeyPrefix v @ ''/'') = (HLSGenerationName g @ ''/'' @ r, True)"
    unfolding key CutPrefix_True by simp
  then have "playlist_generation v key = Some (HLSGenerationName g)"
    using cut IsHLSGenerationName_mint [OF True] by (simp add: playlist_generation_def)
  then show ?thesis using key cut IsHLSGenerationName_mint [OF True] that [of "HLSGenerationName g @ ''/'' @ r"] by simp
next
  case False
  then have name: "HLSGenerationName g = []" by (simp add: HLSGenerationName_def)
  then obtain r where r: "key = HLSKeyPrefix v @ ''/'' @ r" "r \<noteq> []" "\<not> IsHLSGenerationName (fst (Cut r CHR ''/''))"
    using assms False by (auto simp: in_generation_iff HLSPrefixForGeneration_def)
  have "CutPrefix key (HLSKeyPrefix v @ ''/'') = (r, True)" unfolding r CutPrefix_True by simp
  then have "playlist_generation v key = Some []" using r(2,3) by (simp add: playlist_generation_def split_beta)
  then show ?thesis using r name that [of r] by simp
qed

lemma gc_protected_referenced:
  assumes "gc_protected isE w key" "gc_rows_ok isE w" "p \<in> set sweptPrefixes"
  shows "isReferenced isE key p (refs_of w)"
  using assms(1)
proof cases
  case (foreign pre rest)
  have "\<not> isMintedKey isE key p"
  proof (cases "p = pre")
    case True
    then have "CutPrefix key (p @ ''/'') = (rest, True)" unfolding CutPrefix_True using foreign(2) by simp
    then show ?thesis using foreign(3,4) by (simp add: isMintedKey_def Let_def split_beta)
  qed (use other_prefix [OF assms(3) foreign(1)] foreign(2) in simp)
  then show ?thesis by (rule unminted_referenced)
next
  case row
  have "\<not> isMintedKey isE key hlsPrefix" using row(2) by (simp add: isMintedKey_def CutPrefix_def)
  then show ?thesis using row(1) by (auto simp: isReferenced_def Let_def)
next
  case (unattributed v n rest)
  note v = gc_rows_okD [OF assms(2) unattributed(1)]
  have "v \<notin> set (hasPlaylist (refs_of w))" by (simp add: hasPlaylist_row) (metis unattributed(2))
  then show ?thesis
    using v(3) unfolding unattributed(3)
    by (intro tree_referenced [OF _ assms(3)]) (simp add: isReferenced_hls [of isE v, OF v(1,2)] del: append_Cons append.simps)
next
  case (promoted v n m f g)
  note v = gc_rows_okD [OF assms(2) promoted(1)]
  obtain rest where rest: "key = HLSKeyPrefix v @ ''/'' @ rest"
    "(if IsHLSGenerationName (fst (Cut rest CHR ''/'')) then fst (Cut rest CHR ''/'') else []) = HLSGenerationName g"
    using in_generation_tree [OF promoted(4)] .
  have "playlist_generation v m = Some (HLSGenerationName g)" using in_generation_tree [OF promoted(3)] .
  then have "promotedGen (refs_of w) v = Some (HLSGenerationName g)"
    using promotedGen_row [OF _ promoted(2)] assms(2) by (simp add: gc_rows_ok_def)
  then show ?thesis
    using v(3) unfolding rest(1) by (intro tree_referenced [OF _ assms(3)])
      (simp add: isReferenced_hls [of isE v, OF v(1,2)] rest(2) Let_def del: append_Cons append.simps)
next
  case (target v n)
  note v = gc_rows_okD [OF assms(2) target(1)]
  obtain rest where rest: "key = HLSKeyPrefix v @ ''/'' @ rest"
    "(if IsHLSGenerationName (fst (Cut rest CHR ''/'')) then fst (Cut rest CHR ''/'') else []) = HLSGenerationName n"
    using in_generation_tree [OF target(2)] .
  show ?thesis
    using v(3,4) unfolding rest(1) by (intro tree_referenced [OF _ assms(3)])
      (simp add: isReferenced_hls [of isE v, OF v(1,2)] rest(2) Let_def del: append_Cons append.simps)
next
  case (target_web v n rung)
  note v = gc_rows_okD [OF assms(2) target_web(1)]
  have parts: "split_on CHR ''/'' key = [webVideoPrefix, v, HLSGenerationName n, rung]"
    unfolding target_web(4) using v(2) generation_no_slash [of n] target_web(3)
    by (subst split_tree, simp add: webVideoPrefix_def, subst split_tree, simp, subst split_tree, simp, simp add: split_on_plain)
  show ?thesis
  proof (cases "p = webVideoPrefix")
    case True
    then have "p \<noteq> hlsPrefix" by (simp add: webVideoPrefix_def hlsPrefix_def)
    then show ?thesis
      using True v IsHLSGenerationName_mint [OF target_web(2)] by (simp add: isReferenced_def parts Let_def)
  next
    case False
    then have "\<not> isMintedKey isE key p"
      unfolding target_web(4) by (intro other_prefix [OF assms(3)]) (simp_all add: webVideoPrefix_def sweptPrefixes_def)
    then show ?thesis by (rule unminted_referenced)
  qed
qed

section \<open>The local disk under a sweep\<close>

lemma gates_local: "entries (snd (snd (gates (local_backend l) dryRun g fs))) = entries fs"
proof -
  have "entries (snd (be_Open (local_backend l) k fs)) = entries fs" for k
    by (auto simp: local_backend_def split: prod.splits sum.splits node.splits dest: Open_entries)
  then show ?thesis
    by (auto simp: gates_def refreshOwnership_def ReadOwnerMarker_def split: prod.splits sum.splits option.splits)
      (metis snd_conv)+
qed

lemma list_all_keys_local:
  assumes "list_all_keys (Local_ListKeys l) ps fs = (r, fs')"
  shows "entries fs' = entries fs"
  using assms
proof (induction ps arbitrary: fs r)
  case (Cons p ps)
  then show ?case
    by (auto split: prod.splits sum.splits dest!: ListKeys_local)
qed simp

lemma list_all_keys_canonical:
  assumes "list_all_keys (Local_ListKeys l) ps fs = (Inr listed :: unit storage_error gc_error + _, fs')"
    "clean_root (root l)" "names_ok fs"
    "\<forall>p\<in>set ps. canonical_key p"
  shows "\<forall>(k, p)\<in>set listed. canonical_key k \<and> p \<in> set ps \<and> (\<exists>v. (root l @ segments k, v) \<in> set (entries fs) \<and> v \<noteq> Dir)"
  using assms
proof (induction ps arbitrary: fs listed)
  case (Cons p ps)
  obtain ks fs1 rest where l: "Local_ListKeys l p fs = (Inr ks :: unit storage_error + _, fs1)"
    "list_all_keys (Local_ListKeys l) ps fs1 = (Inr rest :: unit storage_error gc_error + _, fs')"
    "listed = map (\<lambda>k. (k, p)) ks @ rest"
    using Cons.prems(1) by (auto split: prod.splits sum.splits)
  have fs1: "entries fs1 = entries fs" using ListKeys_local [OF l(1)] .
  then have "names_ok fs1" using Cons.prems(3) by (simp add: names_ok_def)
  then show ?case
    using Cons.IH [OF l(2)] Cons.prems ListKeys_keys [OF l(1) Cons.prems(2) _ Cons.prems(3)] l(3) fs1 by auto
qed simp

lemma Delete_backend [simp]: "be_Delete (local_backend l) = Local_Delete l"
  by (simp add: local_backend_def)

lemma delete_all_local:
  assumes "clean_root (root l)" "\<forall>k\<in>set ks. canonical_key k" "q \<notin> (\<lambda>k. root l @ segments k) ` set ks"
    "delete_all (local_backend l) ks fs = (n, fs')"
  shows "node_at fs' q = node_at fs q"
  using assms(2-)
proof (induction ks arbitrary: fs n)
  case (Cons k ks)
  obtain r :: "unit storage_error + unit" and fs1 where d: "Local_Delete l k fs = (r, fs1)" by fastforce
  have "node_at fs1 q = node_at fs q"
    using Delete_local [OF assms(1) _ d] Cons.prems(1,2) by (auto simp: same_but_def)
  moreover obtain m where "delete_all (local_backend l) ks fs1 = (m, fs')"
    using Cons.prems(3) d by (cases r) (auto split: prod.splits)
  ultimately show ?case using Cons.IH Cons.prems(1,2) by simp
qed simp

text \<open>One sweep on the local disk, unfolded to its stages.\<close>

lemma gc_Sweep_local:
  assumes "gc_Sweep (local_backend l) dryRun g w fs = (res, g', w', fs')"
  obtains (stopped) e where "res = Inl e" "entries fs' = entries fs"
  | (swept) dry forced fs1 refs listed fs2 r keys n where
      "gates (local_backend l) dryRun g fs = ((dry, forced), g', fs1)" "referenceSet w = (Inr refs :: unit storage_error gc_error + refSet, w')"
      "list_all_keys (Local_ListKeys l) sweptPrefixes fs1 = (Inr listed :: unit storage_error gc_error + _, fs2)"
      "sweep_listed g' dry forced refs listed = (r, keys)" "delete_all (local_backend l) keys fs2 = (n, fs')"
      "res = Inr (r\<lparr>gc_Deleted := n\<rparr>)" "entries fs2 = entries fs"
proof -
  obtain dry forced g1 fs1 where gt: "gates (local_backend l) dryRun g fs = ((dry, forced), g1, fs1)" by (metis surj_pair)
  obtain a w1 where rf: "referenceSet w = (a :: unit storage_error gc_error + refSet, w1)" by fastforce
  obtain b fs2 where ls: "list_all_keys (Local_ListKeys l) sweptPrefixes fs1 = (b :: unit storage_error gc_error + _, fs2)"
    by fastforce
  have e: "entries fs1 = entries fs" "entries fs2 = entries fs"
    using gates_local [of l dryRun g fs] gt list_all_keys_local [OF ls] by simp_all
  have ops: "be_ListKeys (local_backend l) = Some (Local_ListKeys l)" by (simp add: local_backend_def)
  show ?thesis
  proof (cases a)
    case (Inl err)
    then show ?thesis using assms gt rf e by (intro stopped [of err]) (auto simp: gc_Sweep_def ops)
  next
    case refs: (Inr refs)
    show ?thesis
    proof (cases b)
      case (Inl err)
      then show ?thesis using assms gt rf refs ls e by (intro stopped [of err]) (auto simp: gc_Sweep_def ops)
    next
      case (Inr listed)
      obtain r keys where sl: "sweep_listed g1 dry forced refs listed = (r, keys)" by fastforce
      obtain n fs3 where del: "delete_all (local_backend l) keys fs2 = (n, fs3)" by fastforce
      have "res = Inr (r\<lparr>gc_Deleted := n\<rparr>)" "g' = g1" "w' = w1" "fs' = fs3"
        using assms gt rf refs ls Inr sl del by (auto simp: gc_Sweep_def ops)
      then show ?thesis using swept gt rf refs ls Inr sl del e by simp
    qed
  qed
qed

section \<open>Properties\<close>

lemma sweptPrefixes_canonical: "p \<in> set sweptPrefixes \<Longrightarrow> canonical_key p"
proof -
  have "list_all canonical_key sweptPrefixes" by code_simp
  then show "p \<in> set sweptPrefixes \<Longrightarrow> canonical_key p" by (simp add: list_all_iff)
qed

lemma gates_identity:
  "gates b dryRun g s = (m, g', s') \<Longrightarrow> uuid_parses g' = uuid_parses g \<and> maxOrphanPercent g' = maxOrphanPercent g"
  by (auto simp: gates_def refreshOwnership_def split: if_splits prod.splits sum.splits option.splits)

lemma sweep_listed_keys:
  assumes "sweep_listed g dry forced refs listed = (r, keys)" "k \<in> set keys"
  obtains p where "(k, p) \<in> set listed" "\<not> isReferenced (uuid_parses g) k p refs"
  using assms by (auto simp: sweep_listed_def Let_def split: if_splits)

text \<open>C20. Whatever storage calls fail and whatever gates are open, one media sweep on the local
  disk, over tables that do not change under it and obey their keys, leaves every key the
  database needs as it was: keys of file, caption and cover rows outside streaming-playlists/,
  keys another system laid out, the promoted and the target generation of a live video's HLS
  tree, its whole tree while it has no attributable playlist, and the progressive files of its
  target generation. A file row below streaming-playlists/, such as an older WebM outside these
  generations, is not covered: the sweep does delete it.\<close>

theorem sweep_keeps_references:
  assumes "clean_root (root l)" "names_ok fs" "gc_rows_ok (uuid_parses g) w"
    and sweep: "gc_Sweep (local_backend l) dryRun g w fs = (res, g', w', fs')"
    and key: "canonical_key key" "gc_protected (uuid_parses g) w key"
  shows "local_stored l fs' key = local_stored l fs key"
  using sweep
proof (cases rule: gc_Sweep_local)
  case (swept dry forced fs1 refs listed fs2 r keys n)
  have "names_ok fs1" using swept(1) gates_local [of l dryRun g fs] assms(2) by (simp add: names_ok_def)
  note can = list_all_keys_canonical [OF swept(3) assms(1) this, simplified] 
  have refs: "refs = refs_of w" using referenceSet_Inr swept(2) by blast
  have uuid: "uuid_parses g' = uuid_parses g" using gates_identity [OF swept(1)] by blast
  have keys: "canonical_key k \<and> k \<noteq> key" if k: "k \<in> set keys" for k
  proof -
    obtain p where p: "(k, p) \<in> set listed" "\<not> isReferenced (uuid_parses g) k p (refs_of w)"
      using sweep_listed_keys [OF swept(4) k] refs uuid by metis
    then show ?thesis
      using can sweptPrefixes_canonical gc_protected_referenced [OF key(2) assms(3)] by fastforce
  qed
  have "root l @ segments key \<notin> (\<lambda>k. root l @ segments k) ` set keys"
    using keys canonical_inj [OF key(1)] by auto
  then have "node_at fs' (root l @ segments key) = node_at fs2 (root l @ segments key)"
    using delete_all_local [OF assms(1) _ _ swept(5)] keys by blast
  then show ?thesis using swept(7) by (simp add: local_stored_def)
qed (simp add: local_stored_def)

text \<open>What a gate that opened says about the service and the store.\<close>

lemma gates_open:
  assumes "gates (local_backend l) dryRun g fs = ((False, forced), g', fs1)"
  shows "\<not> dryRun" "migrationActive g = None \<or> migrationActive g = Some (Some False)" "AllowsDelete (ownership g')"
    "clean_root (root l) \<Longrightarrow> AllowsDelete (ownership g) \<or> (identity g \<noteq> [] \<and> ownership g' = OwnershipOwned \<and>
       (\<exists>c. local_stored l fs OwnerMarkerKey = Some c \<and> TrimSpace (take 4096 c) = identity g))"
proof -
  show "\<not> dryRun" "migrationActive g = None \<or> migrationActive g = Some (Some False)" "AllowsDelete (ownership g')"
    using assms by (auto simp: gates_def split: if_splits prod.splits option.splits)
  show "AllowsDelete (ownership g) \<or> (identity g \<noteq> [] \<and> ownership g' = OwnershipOwned \<and>
       (\<exists>c. local_stored l fs OwnerMarkerKey = Some c \<and> TrimSpace (take 4096 c) = identity g))"
    if root: "clean_root (root l)"
  proof (cases "AllowsDelete (ownership g)")
    case False
    then have "refreshOwnership (local_backend l) g fs = (g', fs1)" "AllowsDelete (ownership g')"
      using assms by (auto simp: gates_def split: if_splits prod.splits option.splits)
    then obtain marker where id: "identity g \<noteq> []" and m: "ReadOwnerMarker (local_backend l) fs = (Inr (Some marker), fs1)"
      "marker = identity g" "ownership g' = OwnershipOwned"
      using False by (auto simp: refreshOwnership_def AllowsDelete_def split: if_splits prod.splits sum.splits option.splits)
    obtain c where op: "Local_Open l OwnerMarkerKey fs = (Inr (File c) :: unit storage_error + node, fs1)"
      and c: "marker = TrimSpace (take 4096 c)"
      using m(1) by (auto simp: ReadOwnerMarker_def local_backend_def split: if_splits prod.splits sum.splits node.splits)
    have key: "canonical_key OwnerMarkerKey" by code_simp
    have "stat_node (root l @ segments OwnerMarkerKey) fs = (Inr (File c), fs1)"
      using op by (simp add: Local_Open_def canonical_resolve [OF root key] split: prod.splits sum.splits if_splits)
    from stat_node_ok [OF this] have "local_stored l fs OwnerMarkerKey = Some c"
      by (simp add: local_stored_def)
    then show ?thesis using id m(2,3) c by (intro disjI2 conjI exI [of _ c]) simp_all
  qed simp
qed

lemma breaker_bound:
  assumes "\<not> breakerTrips g (int m) (int n)" "0 \<le> maxOrphanPercent g" "maxOrphanPercent g \<le> 100" "m \<le> n" "int n * 100 < 2 ^ 63"
  shows "m \<le> 100 \<or> int m * 100 \<le> int n * maxOrphanPercent g"
proof -
  have "int n * maxOrphanPercent g \<le> int n * 100" using assms(3) by (intro mult_left_mono) auto
  moreover have "int m * 100 \<le> int n * 100" "0 \<le> int n * maxOrphanPercent g" using assms(2,4) by simp_all
  ultimately have "wrap64 (int m * 100) = int m * 100" "wrap64 (int n * maxOrphanPercent g) = int n * maxOrphanPercent g"
    using assms(5) by (intro wrap64_id in64I; linarith)+
  then show ?thesis using assms(1) by (auto simp: breakerTrips_def breakerFloor_def)
qed

text \<open>C21. If a sweep changes anything on the disk, a delete was asked for, no migration is active or
  undetermined, ownership allows deletion or the marker in the store names this install, and the
  orphans are at most a hundred or at most the configured share of the scanned keys.\<close>

theorem sweep_gated:
  assumes "clean_root (root l)" "0 \<le> maxOrphanPercent g" "maxOrphanPercent g \<le> 100"
    and sweep: "gc_Sweep (local_backend l) dryRun g w fs = (res, g', w', fs')"
    and change: "node_at fs' q \<noteq> node_at fs q"
  shows "\<exists>r. res = Inr r \<and> \<not> dryRun \<and> gc_Mode r = ModeDelete \<and>
    (migrationActive g = None \<or> migrationActive g = Some (Some False)) \<and>
    (AllowsDelete (ownership g) \<or> (\<exists>c. local_stored l fs OwnerMarkerKey = Some c \<and> TrimSpace (take 4096 c) = identity g \<and> identity g \<noteq> [])) \<and>
    (gc_Scanned r * 100 < 2 ^ 63 \<longrightarrow>
       length (gc_Orphans r) \<le> 100 \<or> int (length (gc_Orphans r)) * 100 \<le> gc_Scanned r * maxOrphanPercent g)"
  using sweep
proof (cases rule: gc_Sweep_local)
  case (swept dry forced fs1 refs listed fs2 r keys n)
  have pct: "maxOrphanPercent g' = maxOrphanPercent g" using gates_identity [OF swept(1)] by blast
  have "keys \<noteq> []" using change swept(5,7) by auto
  then have live: "\<not> dry" "\<not> breakerTrips g' (int (length keys)) (int (length listed))" "gc_Orphans r = keys"
    "gc_Scanned r = int (length listed)" "gc_Mode r = ModeDelete" "length keys \<le> length listed"
    using swept(4) by (auto simp: sweep_listed_def Let_def modeOf_def split: if_splits)
  have gate: "gates (local_backend l) dryRun g fs = ((False, forced), g', fs1)" using swept(1) live(1) by simp
  show ?thesis
    using gates_open [OF gate] live breaker_bound [OF live(2)] assms(1-3) swept(6) pct by auto
qed (use change in simp)

section \<open>Reclaiming\<close>

lemma list_all_keys_complete:
  assumes "list_all_keys (Local_ListKeys l) ps fs = (Inr listed :: unit storage_error gc_error + _, fs')"
    "clean_root (root l)" "names_ok fs" "fs_tree fs" "failures fs = []"
    "p \<in> set ps" "canonical_key p" "canonical_key k" "prefix (segments p) (segments k)" "local_stored l fs k = Some c"
  shows "(k, p) \<in> set listed"
  using assms(1,6)
proof (induction ps arbitrary: listed)
  case (Cons q ps)
  obtain ks fs1 rest where l: "Local_ListKeys l q fs = (Inr ks :: unit storage_error + _, fs1)"
    "list_all_keys (Local_ListKeys l) ps fs1 = (Inr rest :: unit storage_error gc_error + _, fs')"
    "listed = map (\<lambda>k. (k, q)) ks @ rest"
    using Cons.prems(1) by (auto split: prod.splits sum.splits)
  have fs1: "fs1 = fs" using ListKeys_healthy [OF l(1) assms(5)] .
  show ?case
  proof (cases "q = p")
    case True
    have node: "node_at fs (root l @ segments k) \<noteq> None"
      using assms(10) by (auto simp: local_stored_def split: option.splits)
    have p: "prefix (root l @ segments p) (root l @ segments k)" using assms(9) by simp
    then have exists: "node_at fs (root l @ segments p) \<noteq> None"
      using node assms(4) by (cases "root l @ segments p = root l @ segments k") (auto simp: strict_prefix_def dest: fs_tree_dir [of fs "root l @ segments k" "root l @ segments p"])
    have "k \<in> set ks"
      using ListKeys_complete [OF l(1) assms(2) _ assms(5,10,8) _ assms(3)] True assms(7,9) exists
        fs_tree_above [OF assms(4) exists] by simp
    then show ?thesis using l(3) True by auto
  next
    case False
    then show ?thesis using Cons.IH [of rest] Cons.prems(2) l fs1 by auto
  qed
qed simp

lemma delete_all_healthy:
  assumes "clean_root (root l)" "\<forall>k\<in>set ks. canonical_key k \<and> deletable fs (root l @ segments k)" "failures fs = []"
    "delete_all (local_backend l) ks fs = (n, fs')"
  shows "n = length ks \<and> (\<forall>k\<in>set ks. node_at fs' (root l @ segments k) = None)"
  using assms(2-)
proof (induction ks arbitrary: fs n)
  case (Cons k ks)
  obtain r :: "unit storage_error + unit" and fs1 where d: "Local_Delete l k fs = (r, fs1)" by fastforce
  from Cons.prems(1) have "canonical_key k" "deletable fs (root l @ segments k)" by simp_all
  note eff = Delete_healthy [OF assms(1) this(1) Cons.prems(2) this(2) d]
  obtain m where m: "delete_all (local_backend l) ks fs1 = (m, fs')" "n = m + 1"
    using Cons.prems(3) d eff by (auto split: prod.splits)
  have del: "\<forall>k\<in>set ks. canonical_key k \<and> deletable fs1 (root l @ segments k)"
    using Cons.prems(1) eff deletable_shrink by fastforce
  note IH = Cons.IH [OF del _ m(1)]
  have "node_at fs' (root l @ segments k) = None"
  proof (cases "root l @ segments k \<in> (\<lambda>k. root l @ segments k) ` set ks")
    case True
    then show ?thesis using IH eff by auto
  next
    case False
    then show ?thesis using delete_all_local [OF assms(1) _ False m(1)] del eff by simp
  qed
  then show ?case using IH eff m(2) by simp
qed simp

inductive gc_garbage :: "(string \<Rightarrow> bool) \<Rightarrow> gc_rows \<Rightarrow> string \<Rightarrow> bool" for isEntityID w where
  dead_tree: "isEntityID v \<Longrightarrow> CHR ''/'' \<notin> set v \<Longrightarrow> v \<notin> fst ` set (TranscodeGenerations w) \<Longrightarrow>
    key = HLSKeyPrefix v @ ''/'' @ rest \<Longrightarrow> gc_garbage isEntityID w key"
| superseded: "(v, n) \<in> set (TranscodeGenerations w) \<Longrightarrow> (v, m, f) \<in> set (StreamingPlaylistRefs w) \<Longrightarrow>
    in_generation v g m \<Longrightarrow> in_generation v h key \<Longrightarrow>
    HLSGenerationName h \<noteq> HLSGenerationName g \<Longrightarrow> HLSGenerationName h \<noteq> HLSGenerationName n \<Longrightarrow> gc_garbage isEntityID w key"
| unreferenced: "pre \<in> set sweptPrefixes \<Longrightarrow> pre \<noteq> hlsPrefix \<Longrightarrow> key = pre @ ''/'' @ rest \<Longrightarrow>
    isMintedKey isEntityID key pre \<Longrightarrow> (pre = webVideoPrefix \<Longrightarrow> CHR ''/'' \<notin> set rest) \<Longrightarrow>
    key \<notin> set (VideoFileKeys w) \<union> set (CaptionKeys w) \<union> set (cover_keys (PlaylistThumbnailRefs w)) \<Longrightarrow> gc_garbage isEntityID w key"
| superseded_web: "isEntityID v \<Longrightarrow> CHR ''/'' \<notin> set v \<Longrightarrow> 0 < h \<Longrightarrow> (v, h) \<notin> set (TranscodeGenerations w) \<Longrightarrow> CHR ''/'' \<notin> set rung \<Longrightarrow>
    key = webVideoPrefix @ ''/'' @ v @ ''/'' @ HLSGenerationName h @ ''/'' @ rung \<Longrightarrow>
    key \<notin> set (VideoFileKeys w) \<union> set (CaptionKeys w) \<union> set (cover_keys (PlaylistThumbnailRefs w)) \<Longrightarrow> gc_garbage isEntityID w key"

text \<open>A key is reclaimable when some swept prefix lists it as an orphan.\<close>

definition orphan_under :: "(string \<Rightarrow> bool) \<Rightarrow> refSet \<Rightarrow> string \<Rightarrow> string \<Rightarrow> bool" where
  "orphan_under isE refs key p \<longleftrightarrow> p \<in> set sweptPrefixes \<and> (\<exists>rest. key = p @ ''/'' @ rest) \<and> \<not> isReferenced isE key p refs"

lemma orphan_tree:
  assumes "isE v" "CHR ''/'' \<notin> set v" "\<not> isReferenced isE (HLSKeyPrefix v @ ''/'' @ rest) hlsPrefix refs"
  shows "orphan_under isE refs (HLSKeyPrefix v @ ''/'' @ rest) hlsPrefix"
  using assms by (auto simp: orphan_under_def hlsPrefix_def sweptPrefixes_def HLSKeyPrefix_def)

lemma targetGen_iff:
  assumes "gc_rows_ok isE w"
  shows "targetGen (refs_of w) v = Some t \<longleftrightarrow> (\<exists>n. (v, n) \<in> set (TranscodeGenerations w) \<and> t = HLSGenerationName n)"
proof (cases "v \<in> fst ` set (TranscodeGenerations w)")
  case True
  then obtain n where n: "(v, n) \<in> set (TranscodeGenerations w)" by auto
  have "distinct (map fst (TranscodeGenerations w))" using assms by (simp add: gc_rows_ok_def)
  then have "m = n" if "(v, m) \<in> set (TranscodeGenerations w)" for m
    using eq_key_imp_eq_value that n by metis
  then show ?thesis using gc_rows_okD(4) [OF assms n] n by (metis option.inject)
next
  case False
  then have "\<nexists>n. (v, n) \<in> set (TranscodeGenerations w)" by force
  then show ?thesis using False by (simp add: targetGen_other)
qed

lemma gc_garbage_orphan:
  assumes "gc_garbage isE w key" "gc_rows_ok isE w"
  shows "\<exists>p. orphan_under isE (refs_of w) key p"
  using assms(1)
proof cases
  case (dead_tree v rest)
  then have "\<not> isReferenced isE key hlsPrefix (refs_of w)"
    using isReferenced_hls [of isE v rest "refs_of w", OF dead_tree(1,2)] by (simp add: dead_tree(4) del: append_Cons append.simps)
  then show ?thesis using orphan_tree [of isE v, OF dead_tree(1,2)] dead_tree(4) by blast
next
  case (superseded v n m f g h)
  note v = gc_rows_okD [OF assms(2) superseded(1)]
  obtain rest where rest: "key = HLSKeyPrefix v @ ''/'' @ rest"
    "(if IsHLSGenerationName (fst (Cut rest CHR ''/'')) then fst (Cut rest CHR ''/'') else []) = HLSGenerationName h"
    using in_generation_tree [OF superseded(4)] .
  have pg: "playlist_generation v m = Some (HLSGenerationName g)" using in_generation_tree [OF superseded(3)] .
  then have "promotedGen (refs_of w) v = Some (HLSGenerationName g)"
    using promotedGen_row [OF _ superseded(2)] assms(2) by (simp add: gc_rows_ok_def)
  moreover have "v \<in> set (hasPlaylist (refs_of w))" using pg superseded(2) by (auto simp: hasPlaylist_row)
  ultimately have "\<not> isReferenced isE key hlsPrefix (refs_of w)"
    using v(4) superseded(5,6) unfolding rest(1) isReferenced_hls [of isE v rest "refs_of w", OF v(1,2)] rest(2) Let_def by simp
  then show ?thesis using orphan_tree [of isE v, OF v(1,2)] rest(1) by blast
next
  case (unreferenced pre rest)
  have "\<not> isReferenced isE key pre (refs_of w)"
  proof (cases "pre = webVideoPrefix")
    case True
    then have "split_on CHR ''/'' key = [pre, rest]"
      unfolding unreferenced(3) using unreferenced(5) by (subst split_tree) (simp_all add: webVideoPrefix_def split_on_plain)
    then show ?thesis using unreferenced(2,4,6) by (auto simp: isReferenced_def Let_def)
  qed (use unreferenced in \<open>simp add: isReferenced_def Let_def\<close>)
  then show ?thesis using unreferenced(1,3) by (auto simp: orphan_under_def)
next
  case (superseded_web v h rung)
  have parts: "split_on CHR ''/'' key = [webVideoPrefix, v, HLSGenerationName h, rung]"
    unfolding superseded_web(6) using superseded_web(2) generation_no_slash [of h] superseded_web(5)
    by (subst split_tree, simp add: webVideoPrefix_def, subst split_tree, simp, subst split_tree, simp, simp add: split_on_plain)
  have "CutPrefix key (webVideoPrefix @ ''/'') = (v @ ''/'' @ HLSGenerationName h @ ''/'' @ rung, True)"
    unfolding CutPrefix_True superseded_web(6) by simp
  then have "isMintedKey isE key webVideoPrefix"
    using superseded_web(1) seg_cut [OF superseded_web(2)] by (simp add: isMintedKey_def Let_def)
  moreover have "targetGen (refs_of w) v \<noteq> Some (HLSGenerationName h)"
  proof
    assume "targetGen (refs_of w) v = Some (HLSGenerationName h)"
    then obtain n where n: "(v, n) \<in> set (TranscodeGenerations w)" "HLSGenerationName h = HLSGenerationName n"
      using targetGen_iff [OF assms(2)] by blast
    then have "0 < n" using superseded_web(3) by (auto simp: HLSGenerationName_def split: if_splits)
    then show False using HLSGenerationName_inj [OF superseded_web(3)] n superseded_web(4) by blast
  qed
  moreover have "HLSGenerationName h \<noteq> []" "webVideoPrefix \<noteq> hlsPrefix" using superseded_web(3)
    by (simp_all add: HLSGenerationName_pos webVideoPrefix_def hlsPrefix_def)
  ultimately have "\<not> isReferenced isE key webVideoPrefix (refs_of w)"
    using superseded_web(7) by (auto simp: isReferenced_def parts Let_def split: option.splits)
  moreover have "webVideoPrefix \<in> set sweptPrefixes" by (simp add: sweptPrefixes_def webVideoPrefix_def)
  ultimately show ?thesis using superseded_web(6) unfolding orphan_under_def by blast
qed

lemma orphan_segments:
  assumes "orphan_under isE refs key p" "canonical_key key"
  shows "prefix (segments p) (segments key)" "canonical_key p"
proof -
  obtain rest where p: "p \<in> set sweptPrefixes" "key = p @ ''/'' @ rest" using assms(1) by (auto simp: orphan_under_def)
  then have "CHR ''/'' \<notin> set p" by (auto simp: sweptPrefixes_def)
  then have "segments key = p # split_on CHR ''/'' rest" "segments p = [p]"
    using segments_canonical [OF assms(2)] segments_canonical [OF sweptPrefixes_canonical [OF p(1)]] p(2) split_tree [of p rest]
    by (simp_all add: split_on_plain)
  then show "prefix (segments p) (segments key)" "canonical_key p" using sweptPrefixes_canonical [OF p(1)] by simp_all
qed

lemma gates_healthy:
  assumes "gates (local_backend l) dryRun g fs = (m, g', fs1)" "failures fs = []"
  shows "fs1 = fs"
proof -
  have "snd (be_Open (local_backend l) k fs) = fs" for k
    using assms(2) by (auto simp: local_backend_def Local_Open_def stat_node_def fs_simps
        split: prod.splits sum.splits node.splits if_splits option.splits)
  then have "snd (ReadOwnerMarker (local_backend l) fs) = fs"
    by (simp add: ReadOwnerMarker_def split_beta split: sum.split)
  then show ?thesis
    using assms(1) by (auto simp: gates_def refreshOwnership_def split: if_splits prod.splits sum.splits option.splits)
qed

lemma ListKeys_stored:
  assumes "list_all_keys (Local_ListKeys l) ps fs = (Inr listed :: unit storage_error gc_error + _, fs')"
    "clean_root (root l)" "names_ok fs" "fs_tree fs" "failures fs = []" "\<forall>p\<in>set ps. canonical_key p" "(k, p) \<in> set listed"
  shows "deletable fs (root l @ segments k) \<and> canonical_key k"
proof -
  have all: "\<forall>(k, p)\<in>set listed. canonical_key k \<and> p \<in> set ps \<and> (\<exists>v. (root l @ segments k, v) \<in> set (entries fs) \<and> v \<noteq> Dir)"
    using list_all_keys_canonical [OF assms(1-3,6)] .
  then obtain v where v: "canonical_key k" "(root l @ segments k, v) \<in> set (entries fs)" "v \<noteq> Dir"
    using assms(7) by blast
  have "node_at fs (root l @ segments k) = Some v"
    using v(2) assms(4) by (simp add: fs_tree_def)
  then show ?thesis using v fs_tree_above [OF assms(4)] by (simp add: deletable_def)
qed

lemma list_all_keys_healthy:
  "list_all_keys (Local_ListKeys l) ps fs = (r, fs') \<Longrightarrow> failures fs = [] \<Longrightarrow> fs' = fs"
proof (induction ps arbitrary: r)
  case (Cons p ps)
  then show ?case by (auto split: prod.splits sum.splits dest!: ListKeys_healthy)
qed simp

lemma sweep_reclaim:
  assumes "clean_root (root l)" "names_ok fs" "fs_tree fs" "failures fs = []" "gc_rows_ok (uuid_parses g) w"
    and sweep: "gc_Sweep (local_backend l) dryRun g w fs = (Inr r, g', w', fs')" "\<not> gc_DryRun r"
    and key: "canonical_key key" "gc_garbage (uuid_parses g) w key"
  shows "local_stored l fs' key = None \<and> gc_Deleted r = length (gc_Orphans r)"
  using sweep(1)
proof (cases rule: gc_Sweep_local)
  case (swept dry forced fs1 refs listed fs2 r' keys n)
  have fs1: "fs1 = fs" using gates_healthy swept(1) assms(4) by blast
  have refs: "refs = refs_of w" using referenceSet_Inr swept(2) by blast
  have uuid: "uuid_parses g' = uuid_parses g" using gates_identity [OF swept(1)] by blast
  note st = ListKeys_stored [OF swept(3) [unfolded fs1] assms(1-4)]
  have out: "keys = gc_Orphans r" "keys = sort (map fst (filter (\<lambda>(k, p). \<not> isReferenced (uuid_parses g) k p (refs_of w)) listed))"
    using swept(4,6) sweep(2) refs uuid by (auto simp: sweep_listed_def Let_def split: if_splits)
  have ok: "\<forall>k\<in>set keys. canonical_key k \<and> deletable fs (root l @ segments k)"
    using st sweptPrefixes_canonical out(2) by auto
  have fs2: "fs2 = fs" using list_all_keys_healthy swept(3) fs1 assms(4) by blast
  note del = delete_all_healthy [OF assms(1) ok assms(4) swept(5) [unfolded fs2]]
  obtain p where p: "orphan_under (uuid_parses g) (refs_of w) key p" using gc_garbage_orphan [OF key(2) assms(5)] by blast
  have "root l @ segments key \<in> (\<lambda>k. root l @ segments k) ` set keys \<or> local_stored l fs key = None"
  proof (cases "local_stored l fs key")
    case (Some c)
    have "(key, p) \<in> set listed"
      using list_all_keys_complete [OF swept(3) [unfolded fs1] assms(1-4) _ orphan_segments(2) [OF p key(1)] key(1)
          orphan_segments(1) [OF p key(1)] Some] p by (simp add: orphan_under_def)
    then show ?thesis using p by (force simp: out(2) orphan_under_def)
  qed simp
  moreover have "node_at fs' (root l @ segments key) = node_at fs (root l @ segments key)"
    if "root l @ segments key \<notin> (\<lambda>k. root l @ segments k) ` set keys"
    using delete_all_local [OF assms(1) _ that swept(5)] ok fs2 by blast
  ultimately have "local_stored l fs' key = None"
    using del by (cases "root l @ segments key \<in> (\<lambda>k. root l @ segments k) ` set keys") (auto simp: local_stored_def)
  moreover have "gc_Deleted r = n" using swept(6) by simp
  ultimately show ?thesis using del out(1) by simp
qed simp

text \<open>C22. A sweep that ran in delete mode on a healthy disk removed every key that is garbage: trees
  of videos without a row, superseded generations of live ones, and minted keys no row records;
  it counts as many deletions as it lists orphans.\<close>

theorem sweep_reclaims:
  assumes "clean_root (root l)" "names_ok fs" "fs_tree fs" "failures fs = []" "gc_rows_ok (uuid_parses g) w"
    and "gc_Sweep (local_backend l) dryRun g w fs = (Inr r, g', w', fs')" "\<not> gc_DryRun r"
    and "canonical_key key" "gc_garbage (uuid_parses g) w key"
  shows "local_stored l fs' key = None \<and> gc_Deleted r = length (gc_Orphans r)"
  using assms by (rule sweep_reclaim)

section \<open>A concrete store\<close>

definition demo_gc :: gc_Service where
  "demo_gc = gc_NewService (local_backend demo_root) (\<lambda>s. length s = 4)"

definition demo_rows :: gc_rows where
  "demo_rows = \<lparr>w_now = 0, w_faults = [], VideoFileKeys = [''web-videos/aaaa.mp4''], CaptionKeys = [],
     TranscodeGenerations = [(''aaaa'', 3)], StreamingPlaylistRefs = [(''aaaa'', ''streaming-playlists/aaaa/r2/master.m3u8'', ''cmaf'')],
     PlaylistThumbnailRefs = []\<rparr>"

definition demo_tree :: "errno option list \<Rightarrow> filesystem" where
  "demo_tree faults = \<lparr>entries = [([], Dir), ([''srv''], Dir), ([''srv'', ''web-videos''], Dir), ([''srv'', ''web-videos'', ''aaaa.mp4''], File ''o''),
     ([''srv'', ''streaming-playlists''], Dir), ([''srv'', ''streaming-playlists'', ''aaaa''], Dir),
     ([''srv'', ''streaming-playlists'', ''aaaa'', ''r1''], Dir), ([''srv'', ''streaming-playlists'', ''aaaa'', ''r1'', ''vp9.webm''], File ''1''),
     ([''srv'', ''streaming-playlists'', ''aaaa'', ''r2''], Dir), ([''srv'', ''streaming-playlists'', ''aaaa'', ''r2'', ''s''], File ''2'')],
     failures = faults\<rparr>"

lemma demo_ok:
  "clean_root (root demo_root)" "gc_rows_ok (uuid_parses demo_gc) demo_rows" "names_ok (demo_tree fl)"
  "canonical_key ''streaming-playlists/aaaa/r1/vp9.webm''" "canonical_key ''streaming-playlists/aaaa/r2/s''"
  "in_generation ''aaaa'' 1 ''streaming-playlists/aaaa/r1/vp9.webm''" "in_generation ''aaaa'' 2 ''streaming-playlists/aaaa/r2/s''"
  "in_generation ''aaaa'' 2 ''streaming-playlists/aaaa/r2/master.m3u8''"
  by (simp add: demo_root_def clean_root_def, code_simp,
      simp add: names_ok_def plain_segment_def demo_tree_def, code_simp, code_simp, code_simp, code_simp, code_simp)

theorem sweep_keeps_references_witness:
  "let out = gc_Sweep (local_backend demo_root) False demo_gc demo_rows (demo_tree [None, None, None, None, None, None, Some EIO]);
       fs' = snd (snd (snd out)); key = ''streaming-playlists/aaaa/r2/s'' in
   local_stored demo_root fs' key = local_stored demo_root (demo_tree [None, None, None, None, None, None, Some EIO]) key \<and>
   local_stored demo_root fs' key = Some ''2''"
proof -
  let ?fs = "demo_tree [None, None, None, None, None, None, Some EIO]"
  let ?out = "gc_Sweep (local_backend demo_root) False demo_gc demo_rows ?fs"
  have p: "gc_protected (uuid_parses demo_gc) demo_rows ''streaming-playlists/aaaa/r2/s''"
    by (rule promoted [where v = "''aaaa''" and g = 2 and n = 3 and m = "''streaming-playlists/aaaa/r2/master.m3u8''" and f = "''cmaf''"]) (use demo_ok(7,8) in \<open>simp_all add: demo_rows_def\<close>)
  have "?out = (fst ?out, fst (snd ?out), fst (snd (snd ?out)), snd (snd (snd ?out)))" by simp
  note keep = sweep_keeps_references [OF demo_ok(1,3,2) this demo_ok(5) p]
  have "local_stored demo_root ?fs ''streaming-playlists/aaaa/r2/s'' = Some ''2''" by code_simp
  with keep show ?thesis by (simp add: Let_def)
qed

theorem sweep_gated_witness:
  "let fs = demo_tree []; q = [''srv'', ''streaming-playlists'', ''aaaa'', ''r1'', ''vp9.webm'']; out = gc_Sweep (local_backend demo_root) False demo_gc demo_rows fs in
   node_at (snd (snd (snd out))) q \<noteq> node_at fs q \<and>
   (\<exists>r. fst out = Inr r \<and> gc_Mode r = ModeDelete)"
proof -
  let ?q = "[''srv'', ''streaming-playlists'', ''aaaa'', ''r1'', ''vp9.webm'']"
  let ?out = "gc_Sweep (local_backend demo_root) False demo_gc demo_rows (demo_tree [])"
  have ne: "node_at (snd (snd (snd ?out))) ?q \<noteq> node_at (demo_tree []) ?q" by code_simp
  have eq: "?out = (fst ?out, fst (snd ?out), fst (snd (snd ?out)), snd (snd (snd ?out)))" by simp
  have pct: "0 \<le> maxOrphanPercent demo_gc" "maxOrphanPercent demo_gc \<le> 100" by code_simp+
  show ?thesis using sweep_gated [OF demo_ok(1) pct eq ne] ne by (auto simp: Let_def)
qed

theorem sweep_reclaims_witness:
  "let key = ''streaming-playlists/aaaa/r1/vp9.webm''; out = gc_Sweep (local_backend demo_root) False demo_gc demo_rows (demo_tree []) in
   local_stored demo_root (demo_tree []) key = Some ''1'' \<and> local_stored demo_root (snd (snd (snd out))) key = None"
proof -
  let ?out = "gc_Sweep (local_backend demo_root) False demo_gc demo_rows (demo_tree [])"
  have g: "gc_garbage (uuid_parses demo_gc) demo_rows ''streaming-playlists/aaaa/r1/vp9.webm''"
    by (rule superseded [where v = "''aaaa''" and h = 1 and g = 2 and n = 3 and m = "''streaming-playlists/aaaa/r2/master.m3u8''" and f = "''cmaf''"])
      (use demo_ok(6,8) in \<open>simp_all add: demo_rows_def\<close>, code_simp+)
  have "(case fst ?out of Inr r \<Rightarrow> \<not> gc_DryRun r | _ \<Rightarrow> False)" by code_simp
  then obtain r where r: "fst ?out = Inr r" "\<not> gc_DryRun r" by (auto split: sum.splits)
  then have eq: "?out = (Inr r, fst (snd ?out), fst (snd (snd ?out)), snd (snd (snd ?out)))" by (metis prod.collapse)
  have tree: "fs_tree (demo_tree [])" "failures (demo_tree []) = []" by code_simp+
  have "local_stored demo_root (demo_tree []) ''streaming-playlists/aaaa/r1/vp9.webm'' = Some ''1''" by code_simp
  then show ?thesis
    using sweep_reclaims [OF demo_ok(1,3) tree demo_ok(2) eq r(2) demo_ok(4) g] by (simp add: Let_def)
qed

end
