(* ===== verification/Media_Lifecycle.thy ===== *)
theory Media_Lifecycle
  imports Media_GC_Props Transcode_Props
begin

text \<open>
  The sweep of \<open>Media_GC\<close> over the rows the transcoder of \<open>Transcode\<close> writes: the five reference
  queries of \<open>media_gc.sql\<close> on the transcoder's tables, and what the two services do to each other.
\<close>

section \<open>The reference queries\<close>

definition ListAllVideoFileKeys :: "transcode_world \<Rightarrow> string list" where
  "ListAllVideoFileKeys w = map vf_StorageKey (t_files w)"

definition ListVideoTranscodeGenerations :: "transcode_world \<Rightarrow> (string \<times> int) list" where
  "ListVideoTranscodeGenerations w = t_generation w"

text \<open>A playlist row belongs to a video; \<open>streaming_playlists\<close> has one row per video.\<close>

definition ListStreamingPlaylistRefs :: "transcode_world \<Rightarrow> (string \<times> string \<times> string) list" where
  "ListStreamingPlaylistRefs w = List.map_filter (\<lambda>(v, _). case t_playlists w v of
      None \<Rightarrow> None | Some p \<Rightarrow> Some (v, pl_MasterKey p, pl_Format p)) (t_generation w)"

definition gc_view :: "string list \<Rightarrow> (string \<times> string option) list \<Rightarrow> transcode_world \<Rightarrow> gc_rows" where
  "gc_view captions covers w = \<lparr>w_now = w_now w, w_faults = w_faults w, VideoFileKeys = ListAllVideoFileKeys w,
     CaptionKeys = captions, TranscodeGenerations = ListVideoTranscodeGenerations w,
     StreamingPlaylistRefs = ListStreamingPlaylistRefs w, PlaylistThumbnailRefs = covers\<rparr>"

lemma playlist_ref:
  "(v, m, f) \<in> set (ListStreamingPlaylistRefs w) \<longleftrightarrow>
   has_video v w \<and> (\<exists>p. t_playlists w v = Some p \<and> m = pl_MasterKey p \<and> f = pl_Format p)"
  by (auto simp: ListStreamingPlaylistRefs_def has_video_def map_filter_def split: option.splits) force+

definition videos_ok :: "(string \<Rightarrow> bool) \<Rightarrow> transcode_world \<Rightarrow> bool" where
  "videos_ok isE w \<longleftrightarrow> distinct (map fst (t_generation w)) \<and>
     list_all (\<lambda>v. isE v \<and> CHR ''/'' \<notin> set v) (map fst (t_generation w))"

lemma playlist_ids:
  "map fst (List.map_filter (\<lambda>(v, _). case P v of None \<Rightarrow> None | Some p \<Rightarrow> Some (v, F p, G p)) gs) =
   filter (\<lambda>v. P v \<noteq> None) (map fst gs)"
  by (induction gs) (auto simp: map_filter_simps split: option.splits)

lemma gc_view_ok: "videos_ok isE w \<Longrightarrow> gc_rows_ok isE (gc_view captions covers w)"
  by (auto simp: videos_ok_def gc_rows_ok_def gc_view_def ListVideoTranscodeGenerations_def list_all_iff
      ListStreamingPlaylistRefs_def playlist_ids)

section \<open>A retry that loses its alternate\<close>

lemma keeps_files_generation:
  "keeps t_files (create_renditions v rs)" "keeps t_generation (create_renditions v rs)"
  by (induction rs) (auto intro!: keeps_rules keeps_t_db simp: CreateVideoRendition_def)

lemma storeResult_no_webm:
  assumes "storeResult v res w = (Inr (), w')" "hls_WebMKey res = []"
  shows "t_files w' = t_files w \<and> t_generation w' = t_generation w \<and>
    (\<exists>p. t_playlists w' v = Some p \<and> pl_MasterKey p = hls_MasterKey res) \<and> has_video v w"
proof -
  obtain w1 w2 pl where s: "t_db (DeleteVideoRenditions v) w = (Inr (), w1)"
    "create_renditions v (hls_Renditions res) w1 = (Inr (), w2)"
    "t_db (UpsertStreamingPlaylist v (hls_MasterKey res) PlaylistReady (hls_Format res)) w2 = (Inr pl, w')"
    using assms by (auto simp: storeResult_eq bindE_Inr retE_def store_webm_def)
  have "t_files w1 = t_files w \<and> t_generation w1 = t_generation w"
    using t_db_Inr [OF s(1)] by (auto simp: DeleteVideoRenditions_def)
  moreover have "t_files w2 = t_files w1 \<and> t_generation w2 = t_generation w1"
    using keepsD [OF keeps_files_generation(1), of v "hls_Renditions res" w1]
      keepsD [OF keeps_files_generation(2), of v "hls_Renditions res" w1] s(2) by simp
  moreover have "t_files w' = t_files w2 \<and> t_generation w' = t_generation w2 \<and> has_video v w2 \<and>
    (\<exists>p. t_playlists w' v = Some p \<and> pl_MasterKey p = hls_MasterKey res)"
    using t_db_Inr [OF s(3)] by (auto simp: UpsertStreamingPlaylist_def Let_def has_video_def split: if_splits)
  ultimately show ?thesis by (simp add: has_video_def)
qed

text \<open>After a re-transcode that produced no VP9 alternate, the row of the earlier alternate
  still references its key in the superseded generation, and the next delete sweep on a healthy
  disk removes that object.\<close>

theorem stale_webm_swept:
  assumes store: "storeResult v res w = (Inr (), w')" "hls_WebMKey res = []"
    and rows: "videos_ok (uuid_parses g) w" "f \<in> set (t_files w)" "vf_Kind f = ''webm''" "vf_StorageKey f = key"
    and trees: "in_generation v m key" "in_generation v n (hls_MasterKey res)" "0 < m" "m < n" "map_of (t_generation w) v = Some n"
    and disk: "clean_root (root l)" "names_ok fs" "fs_tree fs" "failures fs = []" "canonical_key key"
    and sweep: "gc_Sweep (local_backend l) False g (gc_view captions covers w') fs = (Inr r, g', w'', fs')" "\<not> gc_DryRun r"
  shows "f \<in> set (t_files w') \<and> key \<in> set (VideoFileKeys (gc_view captions covers w')) \<and> local_stored l fs' key = None"
proof -
  note eff = storeResult_no_webm [OF store]
  then have ok: "gc_rows_ok (uuid_parses g) (gc_view captions covers w')"
    using rows(1) by (intro gc_view_ok) (simp add: videos_ok_def)
  obtain p where p: "t_playlists w' v = Some p" "pl_MasterKey p = hls_MasterKey res" using eff by blast
  have "gc_garbage (uuid_parses g) (gc_view captions covers w') key"
  proof (rule superseded [where v = v and g = n and h = m and n = n and m = "hls_MasterKey res" and f = "pl_Format p"])
    show "(v, n) \<in> set (TranscodeGenerations (gc_view captions covers w'))"
      using eff trees(5) by (auto simp: gc_view_def ListVideoTranscodeGenerations_def dest: map_of_SomeD)
    show "(v, hls_MasterKey res, pl_Format p) \<in> set (StreamingPlaylistRefs (gc_view captions covers w'))"
      using eff p by (simp add: gc_view_def playlist_ref has_video_def)
  qed (use trees HLSGenerationName_inj [of m n] in auto)
  then have "local_stored l fs' key = None"
    using sweep_reclaim [OF disk(1-4) ok sweep disk(5)] by blast
  then show ?thesis using eff rows by (auto simp: gc_view_def ListAllVideoFileKeys_def)
qed

section \<open>An enqueue that changes nothing but the generation\<close>

text \<open>C36. A tree a running job is writing is protected until an enqueue for the same video that
  leaves the queue unchanged; after it the next delete sweep on a healthy disk removes that tree
  if the video has an older promoted generation.\<close>

theorem inflight_tree_swept:
  assumes enq: "w_faults w = []" "Enabled s" "target \<in> {TargetAll, TargetHLS, TargetWebVideo}" "queue_has_live v (t_jobs w)"
      "map_of (t_generation w) v = Some n" "n + 1 < 2 ^ 31" "newID \<notin> set (map job_id (t_jobs w))"
      "EnqueueTarget s newID v src target w = (Inr (), w')"
    and rows: "videos_ok (uuid_parses g) w" "t_playlists w v = Some p" "in_generation v m (pl_MasterKey p)" "m < n"
    and tree: "0 < n" "in_generation v n key"
    and disk: "clean_root (root l)" "names_ok fs" "fs_tree fs" "failures fs = []" "canonical_key key"
    and sweep: "gc_Sweep (local_backend l) False g (gc_view captions covers w') fs = (Inr r, g', w'', fs')" "\<not> gc_DryRun r"
  shows "t_jobs w' = t_jobs w \<and> gc_protected (uuid_parses g) (gc_view captions covers w) key \<and> local_stored l fs' key = None"
proof -
  let ?w = "w\<lparr>t_generation := map (\<lambda>(u, k). if u = v then (u, k + 1) else (u, k)) (t_generation w)\<rparr>"
  have vn: "(v, n) \<in> set (t_generation w)" using enq(5) by (rule map_of_SomeD)
  then have "has_video v w" by (force simp: has_video_def)
  then have "t_db (EnqueueTranscodeJob newID v src target) w = (Inr (), w)"
    using enq(1,4,7) by (simp add: t_db_healthy EnqueueTranscodeJob_def queue_enqueue_def queue_has_live_def)
  moreover have "t_db (BumpVideoTranscodeGeneration v) w = (Inr (n + 1), ?w)"
    using enq(1,5,6) by (simp add: t_db_healthy BumpVideoTranscodeGeneration_def)
  ultimately have w': "w' = ?w" using enq(2,3,8) by (auto simp: EnqueueTarget_def op_simps)
  have ids: "map fst (t_generation w') = map fst (t_generation w)" by (auto simp: w')
  then have ok: "gc_rows_ok (uuid_parses g) (gc_view captions covers w')"
    using rows(1) by (intro gc_view_ok) (simp add: videos_ok_def)
  have "gc_garbage (uuid_parses g) (gc_view captions covers w') key"
  proof (rule superseded [where v = v and g = m and h = n and n = "n + 1" and m = "pl_MasterKey p" and f = "pl_Format p"])
    show "(v, n + 1) \<in> set (TranscodeGenerations (gc_view captions covers w'))"
      using vn by (force simp: gc_view_def ListVideoTranscodeGenerations_def w')
    show "(v, pl_MasterKey p, pl_Format p) \<in> set (StreamingPlaylistRefs (gc_view captions covers w'))"
      using \<open>has_video v w\<close> rows(2) ids by (simp add: gc_view_def playlist_ref has_video_def w')
    show "HLSGenerationName n \<noteq> HLSGenerationName m"
      using tree(1) rows(4) HLSGenerationName_inj [of n m] by (cases "0 < m") (auto simp: HLSGenerationName_def)
  qed (use tree rows(3) HLSGenerationName_inj [of n "n + 1"] in auto)
  then have "local_stored l fs' key = None"
    using sweep_reclaim [OF disk(1-4) ok sweep disk(5)] by blast
  moreover have "gc_protected (uuid_parses g) (gc_view captions covers w) key"
    using vn tree(2) by (intro target) (simp add: gc_view_def ListVideoTranscodeGenerations_def)
  ultimately show ?thesis by (simp add: w')
qed

section \<open>Concrete runs\<close>

definition life_webm :: VideoFile where
  "life_webm = \<lparr>vf_Video = ''aaaa'', vf_Kind = ''webm'', vf_StorageKey = ''streaming-playlists/aaaa/r1/vp9.webm'', vf_ContentType = ''video/webm'',
     vf_OriginalName = ''vp9.webm'', vf_SizeBytes = 1, vf_Sha256 = ''''\<rparr>"

definition life_world :: transcode_world where
  "life_world = \<lparr>w_now = 0, w_faults = [], t_jobs = [demo_row\<lparr>job_key := ''aaaa''\<rparr>], t_generation = [(''aaaa'', 2)],
     t_playlists = [''aaaa'' \<mapsto> demo_playlist\<lparr>pl_MasterKey := ''streaming-playlists/aaaa/r1/master.m3u8''\<rparr>], t_renditions = [],
     t_files = [demo_source\<lparr>vf_Video := ''aaaa'', vf_StorageKey := ''web-videos/aaaa.mp4''\<rparr>, life_webm], t_steps = []\<rparr>"

definition life_hls :: HLSResult where
  "life_hls = demo_hls\<lparr>hls_MasterKey := ''streaming-playlists/aaaa/r2/master.m3u8''\<rparr>"

lemma life_ok: "videos_ok (uuid_parses demo_gc) life_world" "fs_tree (demo_tree [])" "failures (demo_tree []) = []"
  by code_simp+

lemma outcome: "fst x = Inr r \<Longrightarrow> x = (Inr r, fst (snd x), fst (snd (snd x)), snd (snd (snd x)))"
  by (metis prod.collapse)

theorem stale_webm_swept_witness:
  "let w' = snd (storeResult ''aaaa'' life_hls life_world); key = ''streaming-playlists/aaaa/r1/vp9.webm'';
       out = gc_Sweep (local_backend demo_root) False demo_gc (gc_view [] [] w') (demo_tree []) in
   life_webm \<in> set (t_files w') \<and> local_stored demo_root (demo_tree []) key = Some ''1'' \<and>
   local_stored demo_root (snd (snd (snd out))) key = None"
proof -
  let ?w = "snd (storeResult ''aaaa'' life_hls life_world)" and ?key = "''streaming-playlists/aaaa/r1/vp9.webm''"
  let ?out = "gc_Sweep (local_backend demo_root) False demo_gc (gc_view [] [] ?w) (demo_tree [])"
  have st: "storeResult ''aaaa'' life_hls life_world = (Inr (), ?w)"
    by (rule prod_eqI) (code_simp, simp)
  have "(case fst ?out of Inr r \<Rightarrow> \<not> gc_DryRun r | _ \<Rightarrow> False)" by code_simp
  then obtain r where r: "fst ?out = Inr r" "\<not> gc_DryRun r" by (auto split: sum.splits)
  have rows: "hls_WebMKey life_hls = []" "vf_Kind life_webm = ''webm''" "vf_StorageKey life_webm = ?key"
    "life_webm \<in> set (t_files life_world)" "map_of (t_generation life_world) ''aaaa'' = Some 2"
    by (simp_all add: life_hls_def demo_hls_def life_webm_def life_world_def)
  have tree: "in_generation ''aaaa'' 2 (hls_MasterKey life_hls)" by code_simp
  have "local_stored demo_root (demo_tree []) ?key = Some ''1''" by code_simp
  then show ?thesis
    using stale_webm_swept [OF st rows(1) life_ok(1) rows(4,2,3) demo_ok(6) tree _ _ rows(5) demo_ok(1,3) life_ok(2,3) demo_ok(4)
        outcome [OF r(1)] r(2)] by (simp add: Let_def)
qed

theorem inflight_tree_swept_witness:
  "let w' = snd (EnqueueTarget demo_tservice ''k'' ''aaaa'' ''web-videos/aaaa.mp4'' TargetAll life_world);
       key = ''streaming-playlists/aaaa/r2/s'';
       out = gc_Sweep (local_backend demo_root) False demo_gc (gc_view [] [] w') (demo_tree []) in
   t_jobs w' = t_jobs life_world \<and> local_stored demo_root (demo_tree []) key = Some ''2'' \<and>
   local_stored demo_root (snd (snd (snd out))) key = None"
proof -
  let ?w = "snd (EnqueueTarget demo_tservice ''k'' ''aaaa'' ''web-videos/aaaa.mp4'' TargetAll life_world)"
  let ?key = "''streaming-playlists/aaaa/r2/s''"
  let ?out = "gc_Sweep (local_backend demo_root) False demo_gc (gc_view [] [] ?w) (demo_tree [])"
  have en: "EnqueueTarget demo_tservice ''k'' ''aaaa'' ''web-videos/aaaa.mp4'' TargetAll life_world = (Inr (), ?w)"
    by (rule prod_eqI) (code_simp, simp)
  have "(case fst ?out of Inr r \<Rightarrow> \<not> gc_DryRun r | _ \<Rightarrow> False)" by code_simp
  then obtain r where r: "fst ?out = Inr r" "\<not> gc_DryRun r" by (auto split: sum.splits)
  have rows: "w_faults life_world = []" "queue_has_live ''aaaa'' (t_jobs life_world)" "map_of (t_generation life_world) ''aaaa'' = Some 2"
    "''k'' \<notin> set (map job_id (t_jobs life_world))"
    "t_playlists life_world ''aaaa'' = Some (demo_playlist\<lparr>pl_MasterKey := ''streaming-playlists/aaaa/r1/master.m3u8''\<rparr>)"
    by (simp_all add: life_world_def demo_row_def queue_has_live_def live_def)
  have en': "Enabled demo_tservice" "TargetAll \<in> {TargetAll, TargetHLS, TargetWebVideo}"
    by (simp_all add: demo_tservice_def WithScratchGuard_def transcode_NewService_def Enabled_def)
  have tree: "in_generation ''aaaa'' 1 (pl_MasterKey (demo_playlist\<lparr>pl_MasterKey := ''streaming-playlists/aaaa/r1/master.m3u8''\<rparr>))"
    by code_simp
  have "local_stored demo_root (demo_tree []) ?key = Some ''2''" by code_simp
  then show ?thesis
    using inflight_tree_swept [OF rows(1) en' rows(2,3) _ rows(4) en life_ok(1) rows(5) tree _ _ demo_ok(7) demo_ok(1,3) life_ok(2,3)
        demo_ok(5) outcome [OF r(1)] r(2)] by (simp add: Let_def)
qed

end
