(* ===== verification/Media_Ownership.thy ===== *)
theory Media_Ownership
  imports Media_GC Blob_Disk
begin

text \<open>
  The ownership protocol of the object store: boot resolution (\<open>resolveBucketOwnership\<close> of
  \<open>cmd/api/main.go\<close>), adoption and the refresh of a blocked sweep, over the marker object.

  The locale \<open>marker_store\<close> states what the protocol relies on: a marker put is the marker read, and
  reading or asking for emptiness changes nothing. The local disk implements it.
\<close>

definition identity_ok :: "string \<Rightarrow> bool" where
  "identity_ok i \<longleftrightarrow> i \<noteq> [] \<and> TrimSpace i = i \<and> length i \<le> 4096"

text \<open>Boots of installs one after another: the identity, whether the boot created the bucket.\<close>

fun boots :: "('s, 'e) Backend \<Rightarrow> (string \<times> bool) list \<Rightarrow> 's \<Rightarrow> (string \<times> BucketOwnership) list" where
  "boots b [] s = []"
| "boots b ((i, created) # is) s = (case resolveBucketOwnership b created i s of (o', s') \<Rightarrow> (i, o') # boots b is s')"

text \<open>Two boots of which each asks before the other writes.\<close>

definition racing_boots :: "('s, 'e) Backend \<Rightarrow> string \<Rightarrow> string \<Rightarrow> 's \<Rightarrow> (BucketOwnership \<times> BucketOwnership) \<times> 's" where
  "racing_boots b i j s =
     (case resolve_questions b False i s of (q1, s1) \<Rightarrow>
      case resolve_questions b False j s1 of (q2, s2) \<Rightarrow>
      case (case q1 of Some o' \<Rightarrow> (o', s2) | None \<Rightarrow> resolve_claim b i s2) of (o1, s3) \<Rightarrow>
      case (case q2 of Some o' \<Rightarrow> (o', s3) | None \<Rightarrow> resolve_claim b j s3) of (o2, s4) \<Rightarrow> ((o1, o2), s4))"

locale marker_store =
  fixes b :: "('s, 'e) Backend" and ok :: "'s \<Rightarrow> bool" and marker :: "'s \<Rightarrow> string option"
  assumes open_none: "ok s \<Longrightarrow> marker s = None \<Longrightarrow> \<exists>e. be_Open b OwnerMarkerKey s = (Inl e, s) \<and> be_NotFound b e"
    and open_some: "ok s \<Longrightarrow> marker s = Some c \<Longrightarrow> be_Open b OwnerMarkerKey s = (Inr (c, False), s)"
    and put_marker: "ok s \<Longrightarrow> \<exists>n s'. be_Put b OwnerMarkerKey c s = (Inr n, s') \<and> ok s' \<and> marker s' = Some c"
    and asks: "ok s \<Longrightarrow> be_ObjectStore b = Some isEmpty \<Longrightarrow> \<exists>r. isEmpty s = (r, s)"
begin

definition owner :: "'s \<Rightarrow> string option" where
  "owner s = map_option (\<lambda>c. TrimSpace (take 4096 c)) (marker s)"

lemma read_marker: "ok s \<Longrightarrow> ReadOwnerMarker b s = (Inr (owner s), s)"
  using open_none [of s] open_some [of s] by (cases "marker s") (auto simp: ReadOwnerMarker_def owner_def)

lemma write_marker:
  assumes "ok s" "identity_ok i"
  obtains s' where "WriteOwnerMarker b i s = (Inr (), s')" "ok s'" "owner s' = Some i"
  using put_marker [OF assms(1), of i] assms(2) by (auto simp: WriteOwnerMarker_def identity_ok_def owner_def)

lemma questions:
  assumes "ok s" "identity_ok i" "be_ObjectStore b \<noteq> None" "resolve_questions b created i s = (q, s')"
  shows "s' = s" "q = None \<Longrightarrow> owner s = None" "q = Some OwnershipOwned \<Longrightarrow> owner s = Some i"
  using assms(3,4) read_marker [OF assms(1)] assms(2) asks [OF assms(1)]
  by (fastforce simp: resolve_questions_def identity_ok_def split: option.splits if_splits prod.splits sum.splits)+

lemma boot:
  assumes "ok s" "identity_ok i" "be_ObjectStore b \<noteq> None" "resolveBucketOwnership b created i s = (o', s')"
  shows "ok s' \<and> (o' = OwnershipOwned \<longrightarrow> owner s' = Some i) \<and> (owner s \<noteq> None \<longrightarrow> owner s' = owner s)"
proof -
  obtain q s1 where q: "resolve_questions b created i s = (q, s1)" by fastforce
  note qs = questions [OF assms(1-3) q]
  obtain s2 where w: "WriteOwnerMarker b i s = (Inr (), s2)" "ok s2" "owner s2 = Some i" using write_marker assms(1,2) .
  show ?thesis
    using assms(1,4) q qs w by (cases q) (auto simp: resolveBucketOwnership_def resolve_claim_def)
qed

lemma boots_owned:
  assumes "ok s" "\<forall>(i, created)\<in>set is. identity_ok i" "be_ObjectStore b \<noteq> None"
  shows "(i, OwnershipOwned) \<in> set (boots b is s) \<Longrightarrow> owner s = None \<or> owner s = Some i"
    and "(i, OwnershipOwned) \<in> set (boots b is s) \<Longrightarrow> (j, OwnershipOwned) \<in> set (boots b is s) \<Longrightarrow> i = j"
proof -
  have "((i, OwnershipOwned) \<in> set (boots b is s) \<longrightarrow> owner s = None \<or> owner s = Some i) \<and>
    ((i, OwnershipOwned) \<in> set (boots b is s) \<longrightarrow> (j, OwnershipOwned) \<in> set (boots b is s) \<longrightarrow> i = j)" for i j
    using assms
  proof (induction "is" arbitrary: s i j)
    case (Cons x xs)
    obtain k created where x: "x = (k, created)" by fastforce
    obtain o' s' where b: "resolveBucketOwnership b created k s = (o', s')" by fastforce
    note eff = boot [OF Cons.prems(1) _ Cons.prems(3) b]
    have IH: "(i, OwnershipOwned) \<in> set (boots b xs s') \<longrightarrow> owner s' = None \<or> owner s' = Some i"
      "(i, OwnershipOwned) \<in> set (boots b xs s') \<longrightarrow> (j, OwnershipOwned) \<in> set (boots b xs s') \<longrightarrow> i = j" for i j
      using Cons.IH [of s'] Cons.prems eff x by auto
    show ?case using IH eff Cons.prems(2) x b by (auto; metis option.distinct(1) option.inject)
  qed simp
  then show "(i, OwnershipOwned) \<in> set (boots b is s) \<Longrightarrow> owner s = None \<or> owner s = Some i"
    "(i, OwnershipOwned) \<in> set (boots b is s) \<Longrightarrow> (j, OwnershipOwned) \<in> set (boots b is s) \<Longrightarrow> i = j" by blast+
qed

lemma race:
  assumes "ok s" "identity_ok i" "identity_ok j" "be_ObjectStore b = Some isEmpty" "marker s = None" "isEmpty s = (Inr True, s)"
  shows "\<exists>s'. racing_boots b i j s = ((OwnershipOwned, OwnershipOwned), s') \<and> ReadOwnerMarker b s' = (Inr (Some j), s')"
proof -
  have "owner s = None" using assms(5) by (simp add: owner_def)
  then have q: "resolve_questions b False k s = (None, s)" if "identity_ok k" for k
    using that assms(4,6) read_marker [OF assms(1)] by (simp add: resolve_questions_def identity_ok_def)
  obtain s1 where 1: "WriteOwnerMarker b i s = (Inr (), s1)" "ok s1" using write_marker assms(1,2) .
  obtain s2 where 2: "WriteOwnerMarker b j s1 = (Inr (), s2)" "ok s2" "owner s2 = Some j" using write_marker 1(2) assms(3) .
  show ?thesis
    using q [OF assms(2)] q [OF assms(3)] 1 2 read_marker [OF 2(2)] by (simp add: racing_boots_def resolve_claim_def)
qed

lemma adopted:
  assumes "ok s" "identity_ok (identity g)" "AdoptBucket b force g s = (Inr u, g', s')"
  shows "ok s' \<and> owner s' = Some (identity g) \<and> ownership g' = OwnershipOwned"
proof -
  obtain s2 where "WriteOwnerMarker b (identity g) s = (Inr (), s2)" "ok s2" "owner s2 = Some (identity g)"
    using write_marker assms(1,2) .
  then show ?thesis using assms(3) by (auto simp: AdoptBucket_def split: if_splits)
qed

lemma boot_claims:
  assumes "ok s" "identity_ok i" "be_ObjectStore b = Some isEmpty" "marker s = None" "isEmpty s = (Inr True, s)"
  shows "\<exists>s'. resolveBucketOwnership b created i s = (OwnershipOwned, s')"
proof -
  obtain s1 where "WriteOwnerMarker b i s = (Inr (), s1)" using write_marker assms(1,2) .
  then show ?thesis
    using assms read_marker [OF assms(1)]
    by (simp add: resolveBucketOwnership_def resolve_questions_def resolve_claim_def owner_def identity_ok_def)
qed

lemma adopts:
  assumes "ok s" "identity_ok (identity g)" "ownership g \<noteq> OwnershipNotApplicable" "foreignLayoutRefs g = None"
  shows "\<exists>s'. AdoptBucket b force g s = (Inr (), g\<lparr>ownership := OwnershipOwned\<rparr>, s')"
proof -
  obtain s1 where "WriteOwnerMarker b (identity g) s = (Inr (), s1)" using write_marker assms(1,2) .
  then show ?thesis using assms(2-) by (simp add: AdoptBucket_def identity_ok_def)
qed

lemma opened:
  assumes "ok s" "owner s = Some (identity g)" "identity g \<noteq> []" "migrationActive g = None \<or> migrationActive g = Some (Some False)"
  shows "\<exists>g'. gates b False g s = ((False, None), g', s)"
  using assms read_marker [OF assms(1)] by (auto simp: gates_def refreshOwnership_def AllowsDelete_def)

end

section \<open>The local disk carries a marker\<close>

interpretation local_marker: marker_store "local_backend l" "\<lambda>fs. local_ready l fs OwnerMarkerKey"
  "\<lambda>fs. local_stored l fs OwnerMarkerKey" for l
proof unfold_locales
  fix s c isEmpty
  assume ok: "local_ready l s OwnerMarkerKey"
  show "\<exists>e. be_Open (local_backend l) OwnerMarkerKey s = (Inl e, s) \<and> be_NotFound (local_backend l) e"
    if "local_stored l s OwnerMarkerKey = None"
    using ok that by (auto simp: local_backend_def Local_Open_def local_ready_def local_reach_def writable_def canonical_resolve
        stat_node_def fs_simps local_stored_def split: option.splits node.splits)
  show "be_Open (local_backend l) OwnerMarkerKey s = (Inr (c, False), s)" if "local_stored l s OwnerMarkerKey = Some c"
  proof -
    have "Local_Open l OwnerMarkerKey s = (Inr (File c) :: unit storage_error + node, s)"
      using ok that by (intro Open_stored) (simp_all add: local_ready_def)
    then show ?thesis by (simp add: local_backend_def)
  qed
  have "local_ready l (local_place l OwnerMarkerKey c s) OwnerMarkerKey"
    using local_ready_place [OF ok ok] by (simp add: key_above_def)
  moreover have "canonical_key OwnerMarkerKey" by code_simp
  ultimately show "\<exists>n s'. be_Put (local_backend l) OwnerMarkerKey c s = (Inr n, s') \<and> local_ready l s' OwnerMarkerKey \<and>
    local_stored l s' OwnerMarkerKey = Some c"
    using Put_place [OF ok, of "plain_body c" c] local_stored_place [OF ok, of OwnerMarkerKey c]
    by (auto simp: local_backend_def plain_body_def)
  show "\<exists>r. isEmpty s = (r, s)" if "be_ObjectStore (local_backend l) = Some isEmpty"
    using that by (simp add: local_backend_def)
qed

text \<open>A bucket kept on a disk, for the protocol of an object store.\<close>

definition disk_bucket :: "Local \<Rightarrow> (filesystem, unit storage_error) Backend" where
  "disk_bucket l = (local_backend l)\<lparr>be_ObjectStore := Some (\<lambda>fs. (Inr (walk_files l (root l) fs = []), fs))\<rparr>"

interpretation bucket: marker_store "disk_bucket l" "\<lambda>fs. local_ready l fs OwnerMarkerKey"
  "\<lambda>fs. local_stored l fs OwnerMarkerKey" for l
  by unfold_locales (use local_marker.open_none local_marker.open_some local_marker.put_marker in \<open>auto simp: disk_bucket_def\<close>)

section \<open>Properties\<close>

text \<open>C35. If installs boot one after another against one bucket, in any order and any number of
  times, all boots that come out as its owner have the same identity; the bucket's reads return
  its last write.\<close>

theorem boots_agree_on_owner:
  assumes "marker_store b ok marker" "be_ObjectStore b \<noteq> None" "ok s" "\<forall>(i, created)\<in>set is. identity_ok i"
    and "(i, OwnershipOwned) \<in> set (boots b is s)" "(j, OwnershipOwned) \<in> set (boots b is s)"
  shows "i = j"
  using marker_store.boots_owned(2) [OF assms(1,3,4,2,5,6)] .

text \<open>Two installs that boot against an empty bucket and both ask before either writes both come
  out as owner, while the marker names only the second.\<close>

theorem racing_boots_both_own:
  assumes "marker_store b ok marker" "be_ObjectStore b = Some isEmpty" "ok s" "identity_ok i" "identity_ok j"
    and "marker s = None" "isEmpty s = (Inr True, s)"
  shows "\<exists>s'. racing_boots b i j s = ((OwnershipOwned, OwnershipOwned), s') \<and> ReadOwnerMarker b s' = (Inr (Some j), s')"
  using marker_store.race [OF assms(1,3-5,2,6,7)] .

text \<open>After a successful adoption in one process, the gates of a delete sweep in every process
  of the same install are open when no migration is active, whatever ownership that process had
  cached.\<close>

theorem adoption_reaches_replicas:
  assumes "marker_store b ok marker" "ok s" "identity_ok (identity g)"
    and "AdoptBucket b force g s = (Inr u, g', s')"
    and "identity replica = identity g" "migrationActive replica = None \<or> migrationActive replica = Some (Some False)"
  shows "ownership g' = OwnershipOwned \<and> (\<exists>replica'. gates b False replica s' = ((False, None), replica', s'))"
proof -
  have "ok s' \<and> marker_store.owner marker s' = Some (identity g) \<and> ownership g' = OwnershipOwned"
    using marker_store.adopted [OF assms(1-4)] .
  then show ?thesis
    using marker_store.opened [OF assms(1), of s' replica] assms(3,5,6) by (simp add: identity_ok_def)
qed

section \<open>Concrete runs\<close>

definition empty_disk :: filesystem where
  "empty_disk = \<lparr>entries = [([], Dir), ([''srv''], Dir)], failures = []\<rparr>"

lemma empty_disk_ok:
  "local_ready demo_root empty_disk OwnerMarkerKey" "identity_ok ''id-1''" "identity_ok ''id-2''"
  "local_stored demo_root empty_disk OwnerMarkerKey = None"
  by code_simp+

lemma disk_bucket_store: "be_ObjectStore (disk_bucket l) = Some (\<lambda>fs. (Inr (walk_files l (root l) fs = []), fs))"
  by (simp add: disk_bucket_def)

lemma empty_disk_empty: "(Inr (walk_files demo_root (root demo_root) empty_disk = []), empty_disk) = (Inr True, empty_disk)"
proof -
  have "walk_files demo_root (root demo_root) empty_disk = []" by code_simp
  then show ?thesis by simp
qed

theorem boots_agree_on_owner_witness:
  "let bs = boots (disk_bucket demo_root) [(''id-1'', False), (''id-2'', True)] empty_disk in
   (''id-1'', OwnershipOwned) \<in> set bs \<and> (''id-2'', OwnershipOwned) \<notin> set bs"
proof -
  let ?is = "[(''id-1'', False), (''id-2'', True)]" and ?b = "disk_bucket demo_root"
  have ids: "\<forall>(i, created)\<in>set ?is. identity_ok i" using empty_disk_ok by simp
  have some: "be_ObjectStore ?b \<noteq> None" by (simp add: disk_bucket_store)
  obtain s' where "resolveBucketOwnership ?b False ''id-1'' empty_disk = (OwnershipOwned, s')"
    using bucket.boot_claims [OF empty_disk_ok(1,2) disk_bucket_store empty_disk_ok(4) empty_disk_empty] by blast
  then have own: "(''id-1'', OwnershipOwned) \<in> set (boots ?b ?is empty_disk)" by simp
  have "''id-1'' \<noteq> ''id-2''" by simp
  then have "(''id-2'', OwnershipOwned) \<notin> set (boots ?b ?is empty_disk)"
    using boots_agree_on_owner [OF bucket.marker_store_axioms some empty_disk_ok(1) ids own] by blast
  with own show ?thesis unfolding Let_def by (rule conjI)
qed

theorem racing_boots_both_own_witness:
  "\<exists>s'. racing_boots (disk_bucket demo_root) ''id-1'' ''id-2'' empty_disk = ((OwnershipOwned, OwnershipOwned), s') \<and>
     ReadOwnerMarker (disk_bucket demo_root) s' = (Inr (Some ''id-2''), s')"
  by (rule racing_boots_both_own [OF bucket.marker_store_axioms disk_bucket_store empty_disk_ok empty_disk_empty])

definition demo_replica :: gc_Service where
  "demo_replica = WithInstanceIdentity '' id-1 '' (gc_NewService (disk_bucket demo_root) (\<lambda>s. length s = 4))"

lemma demo_replica_ok:
  "identity_ok (identity demo_replica)" "ownership demo_replica = OwnershipUnknown" "foreignLayoutRefs demo_replica = None"
  "migrationActive demo_replica = None"
proof -
  have "TrimSpace '' id-1 '' = ''id-1''" by code_simp
  then show "identity_ok (identity demo_replica)" "ownership demo_replica = OwnershipUnknown"
    "foreignLayoutRefs demo_replica = None" "migrationActive demo_replica = None"
    using empty_disk_ok(2) by (simp_all add: demo_replica_def WithInstanceIdentity_def gc_NewService_def disk_bucket_store)
qed

theorem adoption_reaches_replicas_witness:
  "\<exists>g' s'. AdoptBucket (disk_bucket demo_root) False demo_replica empty_disk = (Inr (), g', s') \<and>
     ownership demo_replica = OwnershipUnknown \<and>
     (\<exists>r'. gates (disk_bucket demo_root) False demo_replica s' = ((False, None), r', s'))"
proof -
  obtain g' s' where a: "AdoptBucket (disk_bucket demo_root) False demo_replica empty_disk = (Inr (), g', s')"
    using bucket.adopts [OF empty_disk_ok(1) demo_replica_ok(1)] demo_replica_ok(2,3) by fastforce
  show ?thesis
    using adoption_reaches_replicas [OF bucket.marker_store_axioms empty_disk_ok(1) demo_replica_ok(1) a refl] a demo_replica_ok(2,4)
    by blast
qed

end
