(* ===== verification/Storage_Migration.thy ===== *)
theory Storage_Migration
  imports Media_GC Retry Durable_Queue
begin

text \<open>
  Moving a media library between two stores: the campaign service
  (\<open>internal/storagemigration/service.go\<close>, \<open>controls.go\<close>), its statements
  (\<open>sqlcgen/storage_migrations.sql.go\<close>), the identity and listing of the stores
  (\<open>internal/storage/identity.go\<close>), the write verdict (\<open>writehealth.go\<close>) and the dual-read view
  (\<open>fallback.go\<close>).

  A store handle is a record of the operations the service calls, on a state \<open>'s\<close> that holds every
  store. An operation of the service runs on the pair of the database and that state. Every statement
  can fail by the schedule of the world; every store operation can fail in the way the handle says,
  except that closing the reader of an opened object succeeds.
  The context a pass runs under is a schedule of answers of \<open>ctx.Err()\<close>. SHA-256 is a parameter of
  which nothing is assumed, and every call to the clock reads the time of the world.
\<close>

section \<open>Stores\<close>

record ('s, 'e) Store =
  st_backend :: "('s, 'e) Backend"
  st_Describe :: string
  st_ListAllKeys :: "('s, 'e, string list) op option"
  st_ListAllObjects :: "('s, 'e, (string \<times> int) list) op option"
  st_Put :: "string \<Rightarrow> unit reader \<Rightarrow> ('s, 'e, nat) op"
  st_Exists :: "string \<Rightarrow> ('s, 'e, bool) op"
  st_InvalidKey :: "'e \<Rightarrow> bool"

abbreviation st_Open :: "('s, 'e) Store \<Rightarrow> string \<Rightarrow> ('s, 'e, string \<times> bool) op" where
  "st_Open h \<equiv> be_Open (st_backend h)"

abbreviation st_Delete :: "('s, 'e) Store \<Rightarrow> string \<Rightarrow> ('s, 'e, unit) op" where
  "st_Delete h \<equiv> be_Delete (st_backend h)"

abbreviation st_NotFound :: "('s, 'e) Store \<Rightarrow> 'e \<Rightarrow> bool" where
  "st_NotFound h \<equiv> be_NotFound (st_backend h)"

definition Describe :: "('s, 'e) Store option \<Rightarrow> string" where
  "Describe b = (case b of None \<Rightarrow> [] | Some h \<Rightarrow> st_Describe h)"

text \<open>The body a reader delivers after \<open>Open\<close>: what was read and whether it broke off.\<close>

definition opened_body :: "string \<times> bool \<Rightarrow> unit reader" where
  "opened_body cb = Body [fst cb] (if snd cb then Failing () else EOF) False"

text \<open>The digest is taken from the bytes the backend read, which is the whole body when it succeeds.\<close>

definition PutSizedHashed :: "(string \<Rightarrow> string) \<Rightarrow> ('s, 'e) Store \<Rightarrow> string \<Rightarrow> unit reader \<Rightarrow> ('s, 'e, nat \<times> string) op" where
  "PutSizedHashed sha h key r = bindE (st_Put h key r) (\<lambda>n. retE (n, sha (fst (drain r))))"

definition Local_ListAllObjects :: "Local \<Rightarrow> (filesystem, 'e storage_error, (string \<times> int) list) op" where
  "Local_ListAllObjects l fs = (case stat_node (root l) fs of
      (Inl e, fs1) \<Rightarrow> if e = ENOENT then (Inr [], fs1) else (Inl (Unclassified (Sys e)), fs1)
    | (Inr _, fs1) \<Rightarrow> (Inr (map (\<lambda>(k, n). (k, int n)) (walk_files l (root l) fs1)), fs1))"

definition Local_ListAllKeys :: "Local \<Rightarrow> (filesystem, 'e storage_error, string list) op" where
  "Local_ListAllKeys l = bindE (Local_ListAllObjects l) (\<lambda>objects. retE (map fst objects))"

definition Local_Describe :: "Local \<Rightarrow> string" where
  "Local_Describe l = ''local:/'' @ join_slash (root l)"

section \<open>The write verdict\<close>

record WriteStatus =
  ws_Probed :: bool
  ws_OK :: bool
  ws_Class :: "ErrorClass option"

definition Writable :: "WriteStatus \<Rightarrow> bool \<times> ErrorClass option" where
  "Writable st = (if \<not> ws_Probed st \<or> ws_OK st then (True, None) else (False, ws_Class st))"

definition RecordDenied :: "ErrorClass option \<Rightarrow> WriteStatus" where
  "RecordDenied c = \<lparr>ws_Probed = True, ws_OK = False,
     ws_Class = Some (case c of None \<Rightarrow> ClassWriteDenied | Some cl \<Rightarrow> cl)\<rparr>"

section \<open>State\<close>

datatype mig_state =
    StateEnumerating | StateCopying | StateSynced | StatePaused | StateAborting
  | StateCutover | StateDeletingSource | StateDone | StateCancelled | StateFailed

datatype object_state =
  ObjectPending | ObjectCopying | ObjectVerified | ObjectFailed | ObjectSourceDeleted

text \<open>The texts the service writes into a campaign's \<open>last_error\<close>, one constructor each.\<close>

datatype mig_note =
    NoteEmpty | NoteWrongStores | NoteCutoverUndone | NoteSwappedEarly | NoteSwappedPaused
  | NoteSwappedAborting | NoteNoCutoverTime | NoteUncopied | NotePausedByTarget | NoteAborting

definition failSourceMissing :: string where "failSourceMissing = ''source object missing''"
definition failVerification :: string where
  "failVerification = ''verification failed: the object read back from the target is not the object that was written''"
definition failRecordedHash :: string where
  "failRecordedHash = ''the source object does not match the sha256 recorded for this file''"
definition failTransientCopy :: string where "failTransientCopy = ''copy failed; retrying''"
definition failAttemptsSpent :: string where "failAttemptsSpent = ''copy failed repeatedly; giving up on this object''"
definition failKeyUnsupported :: string where "failKeyUnsupported = ''the target store will not accept this object key''"

definition PauseReasonTargetWriteDenied :: string where "PauseReasonTargetWriteDenied = ''target_write_denied''"
definition PauseReasonOperator :: string where "PauseReasonOperator = ''operator''"

definition mig_maxAttempts :: int where "mig_maxAttempts = 5"
definition enumerateChunk :: nat where "enumerateChunk = 1000"
definition deleteBatch :: nat where "deleteBatch = 200"

record StorageMigration =
  mg_ID :: nat
  mg_State :: mig_state
  mg_SourceDesc :: string
  mg_TargetDesc :: string
  mg_ObjectsTotal :: int
  mg_ObjectsDone :: int
  mg_ObjectsFailed :: int
  mg_LastError :: mig_note
  mg_PausedReason :: string
  mg_ResumeState :: "mig_state option"
  mg_ObservedCutoverAt :: "int option"
  mg_RequestID :: string
  mg_CorrelationID :: string
  mg_WorkerID :: string
  mg_CreatedAt :: int
  mg_UpdatedAt :: int

record StorageMigrationObject =
  ob_Key :: string
  ob_Campaign :: nat
  ob_State :: object_state
  ob_SHA256 :: string
  ob_Size :: int
  ob_Attempts :: int
  ob_NextAttemptAt :: int
  ob_LastError :: string
  ob_UpdatedAt :: int

text \<open>
  \<open>m_next\<close> is the next campaign id, \<open>m_hashes\<close> the digests of \<open>video_files\<close> by storage key,
  \<open>m_identity\<close> the install's identity, \<open>m_ctx\<close> the coming answers of \<open>ctx.Err()\<close>.
\<close>

record mig_world = world +
  m_camps :: "StorageMigration list"
  m_objs :: "StorageMigrationObject list"
  m_next :: nat
  m_hashes :: "string \<Rightarrow> string option"
  m_identity :: string
  m_ctx :: "bool list"

datatype 'e mig_error =
    ErrNoTarget | ErrAlreadyActive | ErrCampaignNotFound | ErrRootListingUnsupported | ErrIdentityUnknown
  | ErrSameStore string | ErrTargetWriteDenied | ErrCutoverNotObserved | ErrObjectsUncopied
  | IllegalTransition string mig_state | ErrUnknownPauseReason string
  | ErrRefuseDelete string string | ErrRefuseCleanup string string
  | ErrContext | MigDb | MigStorage 'e

type_synonym ('s, 'e, 'a) mig_op = "(mig_world \<times> 's, 'e mig_error, 'a) op"

record ('s, 'e) mig_Service =
  sv_primary :: "('s, 'e) Store"
  sv_target :: "('s, 'e) Store option"
  sv_targetWrite :: "WriteStatus option"
  sv_workerID :: string
  sv_grace :: int
  sv_sha256 :: "string \<Rightarrow> string"

definition mig_NewService :: "('s, 'e) Store \<Rightarrow> ('s, 'e) Store option \<Rightarrow> WriteStatus option \<Rightarrow> string \<Rightarrow> int \<Rightarrow>
    (string \<Rightarrow> string) \<Rightarrow> ('s, 'e) mig_Service" where
  "mig_NewService p t wr worker grace sha = \<lparr>sv_primary = p, sv_target = t, sv_targetWrite = wr, sv_workerID = worker,
     sv_grace = (if grace < 0 then 0 else grace), sv_sha256 = sha\<rparr>"

definition mig_Enabled :: "('s, 'e) mig_Service \<Rightarrow> bool" where
  "mig_Enabled sv \<longleftrightarrow> sv_target sv \<noteq> None"

text \<open>One statement, one store operation, one look at the context.\<close>

definition db :: "(mig_world \<Rightarrow> 'a \<times> mig_world) \<Rightarrow> ('s, 'e, 'a) mig_op" where
  "db q x = (case repo q (fst x) of
      (Inl _, w) \<Rightarrow> (Inl MigDb, (w, snd x)) | (Inr a, w) \<Rightarrow> (Inr a, (w, snd x)))"

definition store_call :: "('s, 'e, 'a) op \<Rightarrow> ('s, 'e, 'a) mig_op" where
  "store_call f x = (case f (snd x) of
      (Inl e, s) \<Rightarrow> (Inl (MigStorage e), (fst x, s)) | (Inr a, s) \<Rightarrow> (Inr a, (fst x, s)))"

definition ctx_Err :: "('s, 'e, unit) mig_op" where
  "ctx_Err x = (case m_ctx (fst x) of
      True # _ \<Rightarrow> (Inl ErrContext, x)
    | _ \<Rightarrow> (Inr (), ((fst x)\<lparr>m_ctx := tl (m_ctx (fst x))\<rparr>, snd x)))"

definition attempt :: "('s, 'e, 'a) mig_op \<Rightarrow> ('s, 'e, 'b) mig_op \<Rightarrow> ('a \<Rightarrow> ('s, 'e, 'b) mig_op) \<Rightarrow> ('s, 'e, 'b) mig_op" where
  "attempt m h k = catchE m (\<lambda>_. h) k"

section \<open>Statements\<close>

definition terminal_state :: "mig_state \<Rightarrow> bool" where
  "terminal_state st \<longleftrightarrow> st \<in> {StateDone, StateCancelled, StateFailed}"

text \<open>\<open>UPDATE \<dots> SET updated_at = now(), \<dots> WHERE id = i AND \<dots>\<close> with the number of rows it changed.\<close>

definition update_camp :: "nat \<Rightarrow> (StorageMigration \<Rightarrow> bool) \<Rightarrow> (StorageMigration \<Rightarrow> StorageMigration) \<Rightarrow>
    mig_world \<Rightarrow> nat \<times> mig_world" where
  "update_camp i P f w =
     (length (filter (\<lambda>c. mg_ID c = i \<and> P c) (m_camps w)),
      w\<lparr>m_camps := map (\<lambda>c. if mg_ID c = i \<and> P c then (f c)\<lparr>mg_UpdatedAt := w_now w\<rparr> else c) (m_camps w)\<rparr>)"

definition update_objs :: "(StorageMigrationObject \<Rightarrow> bool) \<Rightarrow> (StorageMigrationObject \<Rightarrow> StorageMigrationObject) \<Rightarrow>
    mig_world \<Rightarrow> unit \<times> mig_world" where
  "update_objs P f w =
     ((), w\<lparr>m_objs := map (\<lambda>o'. if P o' then (f o')\<lparr>ob_UpdatedAt := w_now w\<rparr> else o') (m_objs w)\<rparr>)"

definition GetStorageMigration :: "nat \<Rightarrow> mig_world \<Rightarrow> StorageMigration option \<times> mig_world" where
  "GetStorageMigration i w = (find (\<lambda>c. mg_ID c = i) (m_camps w), w)"

text \<open>Newest first, ids breaking ties.\<close>

definition newest_first :: "StorageMigration list \<Rightarrow> StorageMigration list" where
  "newest_first cs = sort_key (\<lambda>c. (- mg_CreatedAt c, mg_ID c)) cs"

definition GetActiveStorageMigration :: "mig_world \<Rightarrow> StorageMigration option \<times> mig_world" where
  "GetActiveStorageMigration w =
     (case newest_first (filter (\<lambda>c. \<not> terminal_state (mg_State c)) (m_camps w)) of [] \<Rightarrow> None | c # _ \<Rightarrow> Some c, w)"

definition ListStorageMigrations :: "nat \<Rightarrow> mig_world \<Rightarrow> StorageMigration list \<times> mig_world" where
  "ListStorageMigrations n w = (take n (newest_first (m_camps w)), w)"

definition HasActiveStorageMigration :: "mig_world \<Rightarrow> bool \<times> mig_world" where
  "HasActiveStorageMigration w = (list_ex (\<lambda>c. mg_State c \<noteq> StateDone \<and> mg_State c \<noteq> StateCancelled) (m_camps w), w)"

text \<open>The partial unique index refuses a second live campaign: no row is returned then.\<close>

definition CreateStorageMigration :: "string \<Rightarrow> string \<Rightarrow> string \<Rightarrow> string \<Rightarrow> mig_world \<Rightarrow> StorageMigration option \<times> mig_world" where
  "CreateStorageMigration source dest req corr w =
     (if list_ex (\<lambda>c. \<not> terminal_state (mg_State c)) (m_camps w) then (None, w)
      else let c = \<lparr>mg_ID = m_next w, mg_State = StateEnumerating, mg_SourceDesc = source, mg_TargetDesc = dest,
             mg_ObjectsTotal = 0, mg_ObjectsDone = 0, mg_ObjectsFailed = 0, mg_LastError = NoteEmpty,
             mg_PausedReason = [], mg_ResumeState = None, mg_ObservedCutoverAt = None, mg_RequestID = req,
             mg_CorrelationID = corr, mg_WorkerID = [], mg_CreatedAt = w_now w, mg_UpdatedAt = w_now w\<rparr>
           in (Some c, w\<lparr>m_camps := c # m_camps w, m_next := m_next w + 1\<rparr>))"

definition SetStorageMigrationState :: "nat \<Rightarrow> mig_state \<Rightarrow> mig_note \<Rightarrow> mig_world \<Rightarrow> nat \<times> mig_world" where
  "SetStorageMigrationState i st note = update_camp i (\<lambda>c. \<not> terminal_state (mg_State c))
     (\<lambda>c. c\<lparr>mg_State := st, mg_LastError := note\<rparr>)"

definition SetStorageMigrationError :: "nat \<Rightarrow> mig_note \<Rightarrow> mig_world \<Rightarrow> nat \<times> mig_world" where
  "SetStorageMigrationError i note = update_camp i (\<lambda>c. \<not> terminal_state (mg_State c) \<and> mg_LastError c \<noteq> note)
     (\<lambda>c. c\<lparr>mg_LastError := note\<rparr>)"

definition MarkStorageMigrationCutover :: "nat \<Rightarrow> mig_world \<Rightarrow> nat \<times> mig_world" where
  "MarkStorageMigrationCutover i w = update_camp i (\<lambda>c. mg_State c \<in> {StateCopying, StateSynced})
     (\<lambda>c. c\<lparr>mg_State := StateCutover,
            mg_ObservedCutoverAt := Some (case mg_ObservedCutoverAt c of None \<Rightarrow> w_now w | Some t \<Rightarrow> t),
            mg_LastError := NoteEmpty\<rparr>) w"

definition PauseStorageMigration :: "nat \<Rightarrow> string \<Rightarrow> mig_note \<Rightarrow> mig_world \<Rightarrow> nat \<times> mig_world" where
  "PauseStorageMigration i reason note =
     update_camp i (\<lambda>c. mg_State c \<in> {StateEnumerating, StateCopying, StateSynced})
     (\<lambda>c. c\<lparr>mg_ResumeState := Some (mg_State c), mg_State := StatePaused, mg_PausedReason := reason, mg_LastError := note\<rparr>)"

definition ResumeStorageMigration :: "nat \<Rightarrow> mig_world \<Rightarrow> nat \<times> mig_world" where
  "ResumeStorageMigration i = update_camp i (\<lambda>c. mg_State c = StatePaused)
     (\<lambda>c. c\<lparr>mg_State := (case mg_ResumeState c of None \<Rightarrow> StateCopying | Some st \<Rightarrow> st), mg_ResumeState := None,
            mg_PausedReason := [], mg_LastError := NoteEmpty\<rparr>)"

definition AbortStorageMigrationWithCleanup :: "nat \<Rightarrow> mig_note \<Rightarrow> mig_world \<Rightarrow> nat \<times> mig_world" where
  "AbortStorageMigrationWithCleanup i note =
     update_camp i (\<lambda>c. mg_State c \<in> {StateEnumerating, StateCopying, StateSynced, StatePaused})
     (\<lambda>c. c\<lparr>mg_State := StateAborting, mg_PausedReason := [], mg_ResumeState := None, mg_LastError := note\<rparr>)"

definition ReleaseStorageMigrationSource :: "nat \<Rightarrow> mig_world \<Rightarrow> nat \<times> mig_world" where
  "ReleaseStorageMigrationSource i = update_camp i (\<lambda>c. mg_State c = StateCutover)
     (\<lambda>c. c\<lparr>mg_State := StateDeletingSource, mg_LastError := NoteEmpty\<rparr>)"

definition CancelStorageMigration :: "nat \<Rightarrow> mig_world \<Rightarrow> nat \<times> mig_world" where
  "CancelStorageMigration i = update_camp i (\<lambda>c. \<not> terminal_state (mg_State c))
     (\<lambda>c. c\<lparr>mg_State := StateCancelled, mg_PausedReason := [], mg_ResumeState := None\<rparr>)"

text \<open>The stamp leaves \<open>updated_at\<close> alone.\<close>

definition SetStorageMigrationWorker :: "nat \<Rightarrow> string \<Rightarrow> mig_world \<Rightarrow> unit \<times> mig_world" where
  "SetStorageMigrationWorker i worker w =
     ((), w\<lparr>m_camps := map (\<lambda>c. if mg_ID c = i then c\<lparr>mg_WorkerID := worker\<rparr> else c) (m_camps w)\<rparr>)"

definition count_objs :: "nat \<Rightarrow> object_state set \<Rightarrow> mig_world \<Rightarrow> int" where
  "count_objs i sts w = int (length (filter (\<lambda>o'. ob_Campaign o' = i \<and> ob_State o' \<in> sts) (m_objs w)))"

definition RefreshStorageMigrationCounters :: "nat \<Rightarrow> mig_world \<Rightarrow> nat \<times> mig_world" where
  "RefreshStorageMigrationCounters i w =
     (let tot = int (length (filter (\<lambda>o'. ob_Campaign o' = i) (m_objs w)));
          fin = count_objs i {ObjectVerified, ObjectSourceDeleted} w; bad = count_objs i {ObjectFailed} w
      in update_camp i (\<lambda>c. (mg_ObjectsTotal c, mg_ObjectsDone c, mg_ObjectsFailed c) \<noteq> (tot, fin, bad))
           (\<lambda>c. c\<lparr>mg_ObjectsTotal := tot, mg_ObjectsDone := fin, mg_ObjectsFailed := bad\<rparr>) w)"

definition DeleteTerminalStorageMigrationObjects :: "mig_world \<Rightarrow> nat \<times> mig_world" where
  "DeleteTerminalStorageMigrationObjects w =
     (let over = (\<lambda>o'. list_ex (\<lambda>c. mg_ID c = ob_Campaign o' \<and> terminal_state (mg_State c)) (m_camps w))
      in (length (filter over (m_objs w)), w\<lparr>m_objs := filter (\<lambda>o'. \<not> over o') (m_objs w)\<rparr>))"

definition new_object :: "nat \<Rightarrow> int \<Rightarrow> string \<Rightarrow> StorageMigrationObject" where
  "new_object i now k = \<lparr>ob_Key = k, ob_Campaign = i, ob_State = ObjectPending, ob_SHA256 = [], ob_Size = 0, ob_Attempts = 0,
     ob_NextAttemptAt = now, ob_LastError = [], ob_UpdatedAt = now\<rparr>"

text \<open>\<open>ON CONFLICT (object_key) DO NOTHING\<close>, also between the keys of one batch.\<close>

definition UpsertStorageMigrationObjects :: "nat \<Rightarrow> string list \<Rightarrow> mig_world \<Rightarrow> nat \<times> mig_world" where
  "UpsertStorageMigrationObjects i keys w =
     (let fresh = filter (\<lambda>k. k \<notin> set (map ob_Key (m_objs w))) (remdups keys)
      in (length fresh, w\<lparr>m_objs := m_objs w @ map (new_object i (w_now w)) fresh\<rparr>))"

definition claimable_object :: "mig_world \<Rightarrow> StorageMigrationObject \<Rightarrow> bool" where
  "claimable_object w o' \<longleftrightarrow> ob_State o' = ObjectPending \<and> ob_NextAttemptAt o' \<le> w_now w \<and>
     list_ex (\<lambda>c. mg_ID c = ob_Campaign o' \<and> mg_State c \<in> {StateCopying, StateSynced}) (m_camps w)"

definition ClaimDueStorageMigrationObjects :: "nat \<Rightarrow> mig_world \<Rightarrow> (string \<times> nat \<times> int) list \<times> mig_world" where
  "ClaimDueStorageMigrationObjects n w =
     (let due = take n (sort_key (\<lambda>o'. (ob_NextAttemptAt o', ob_Key o')) (filter (claimable_object w) (m_objs w)))
      in (map (\<lambda>o'. (ob_Key o', ob_Campaign o', ob_Attempts o')) due,
          snd (update_objs (\<lambda>o'. ob_Key o' \<in> set (map ob_Key due))
            (\<lambda>o'. o'\<lparr>ob_State := ObjectCopying, ob_NextAttemptAt := w_now w + lease_Duration\<rparr>) w)))"

definition RenewStorageMigrationObjectLease :: "string \<Rightarrow> mig_world \<Rightarrow> unit \<times> mig_world" where
  "RenewStorageMigrationObjectLease k w = update_objs (\<lambda>o'. ob_Key o' = k \<and> ob_State o' = ObjectCopying)
     (\<lambda>o'. o'\<lparr>ob_NextAttemptAt := w_now w + lease_Duration\<rparr>) w"

definition lease_expired :: "mig_world \<Rightarrow> StorageMigrationObject \<Rightarrow> bool" where
  "lease_expired w o' \<longleftrightarrow> ob_State o' = ObjectCopying \<and> ob_NextAttemptAt o' \<le> w_now w"

definition SweepExpiredStorageMigrationObjects :: "mig_world \<Rightarrow> nat \<times> mig_world" where
  "SweepExpiredStorageMigrationObjects w =
     (let due = take 1000 (sort_key ob_NextAttemptAt (filter (lease_expired w) (m_objs w)))
      in (length due, snd (update_objs (\<lambda>o'. ob_Key o' \<in> set (map ob_Key due))
            (\<lambda>o'. o'\<lparr>ob_State := ObjectPending, ob_Attempts := ob_Attempts o' + 1\<rparr>) w)))"

definition MarkStorageMigrationObjectVerified :: "string \<Rightarrow> string \<Rightarrow> int \<Rightarrow> mig_world \<Rightarrow> unit \<times> mig_world" where
  "MarkStorageMigrationObjectVerified k digest n = update_objs (\<lambda>o'. ob_Key o' = k \<and> ob_State o' = ObjectCopying)
     (\<lambda>o'. o'\<lparr>ob_State := ObjectVerified, ob_SHA256 := digest, ob_Size := n, ob_LastError := []\<rparr>)"

definition RescheduleStorageMigrationObject :: "string \<Rightarrow> int \<Rightarrow> string \<Rightarrow> mig_world \<Rightarrow> unit \<times> mig_world" where
  "RescheduleStorageMigrationObject k at err = update_objs (\<lambda>o'. ob_Key o' = k \<and> ob_State o' = ObjectCopying)
     (\<lambda>o'. o'\<lparr>ob_State := ObjectPending, ob_Attempts := ob_Attempts o' + 1, ob_NextAttemptAt := at, ob_LastError := err\<rparr>)"

definition FailStorageMigrationObject :: "string \<Rightarrow> string \<Rightarrow> mig_world \<Rightarrow> unit \<times> mig_world" where
  "FailStorageMigrationObject k err = update_objs (\<lambda>o'. ob_Key o' = k \<and> ob_State o' = ObjectCopying)
     (\<lambda>o'. o'\<lparr>ob_State := ObjectFailed, ob_Attempts := ob_Attempts o' + 1, ob_LastError := err\<rparr>)"

definition MarkStorageMigrationObjectSourceDeleted :: "string \<Rightarrow> mig_world \<Rightarrow> unit \<times> mig_world" where
  "MarkStorageMigrationObjectSourceDeleted k = update_objs (\<lambda>o'. ob_Key o' = k \<and> ob_State o' = ObjectVerified)
     (\<lambda>o'. o'\<lparr>ob_State := ObjectSourceDeleted\<rparr>)"

definition DeleteStorageMigrationObject :: "string \<Rightarrow> mig_world \<Rightarrow> unit \<times> mig_world" where
  "DeleteStorageMigrationObject k w = ((), w\<lparr>m_objs := filter (\<lambda>o'. ob_Key o' \<noteq> k) (m_objs w)\<rparr>)"

definition verified_keys :: "nat \<Rightarrow> mig_world \<Rightarrow> string list" where
  "verified_keys i w = sort (map ob_Key (filter (\<lambda>o'. ob_Campaign o' = i \<and> ob_State o' = ObjectVerified) (m_objs w)))"

definition ListVerifiedStorageMigrationObjects :: "nat \<Rightarrow> nat \<Rightarrow> mig_world \<Rightarrow> string list \<times> mig_world" where
  "ListVerifiedStorageMigrationObjects i n w = (take n (verified_keys i w), w)"

definition ListDestinationCopiesToRemove :: "nat \<Rightarrow> nat \<Rightarrow> mig_world \<Rightarrow> string list \<times> mig_world" where
  "ListDestinationCopiesToRemove i n w = (take n (verified_keys i w), w)"

definition CountUncopiedStorageMigrationObjects :: "nat \<Rightarrow> mig_world \<Rightarrow> int \<times> mig_world" where
  "CountUncopiedStorageMigrationObjects i w = (count_objs i {ObjectPending, ObjectCopying} w, w)"

definition CountUnfinishedStorageMigrationObjects :: "nat \<Rightarrow> mig_world \<Rightarrow> int \<times> mig_world" where
  "CountUnfinishedStorageMigrationObjects i w = (count_objs i {ObjectPending, ObjectCopying, ObjectVerified} w, w)"

definition object_states :: "object_state list" where
  "object_states = [ObjectCopying, ObjectFailed, ObjectPending, ObjectSourceDeleted, ObjectVerified]"

definition CountStorageMigrationObjectsByState :: "nat \<Rightarrow> mig_world \<Rightarrow> (object_state \<times> int) list \<times> mig_world" where
  "CountStorageMigrationObjectsByState i w =
     (filter (\<lambda>(st, n). n \<noteq> 0) (map (\<lambda>st. (st, count_objs i {st} w)) object_states), w)"

definition CountStorageMigrationObjectFailuresByCategory :: "nat \<Rightarrow> mig_world \<Rightarrow> (string \<times> int \<times> int) list \<times> mig_world" where
  "CountStorageMigrationObjectFailuresByCategory i w =
     (let rows = filter (\<lambda>o'. ob_Campaign o' = i \<and> ob_LastError o' \<noteq> []) (m_objs w)
      in (map (\<lambda>cat. (cat, int (length (filter (\<lambda>o'. ob_LastError o' = cat \<and> ob_State o' = ObjectFailed) rows)),
                          int (length (filter (\<lambda>o'. ob_LastError o' = cat \<and> ob_State o' \<noteq> ObjectFailed) rows))))
            (sort (remdups (map ob_LastError rows))), w))"

definition GetVideoFileSHA256ByStorageKey :: "string \<Rightarrow> mig_world \<Rightarrow> string option \<times> mig_world" where
  "GetVideoFileSHA256ByStorageKey k w = (m_hashes w k, w)"

definition GetInstanceIdentity :: "mig_world \<Rightarrow> string \<times> mig_world" where
  "GetInstanceIdentity w = (m_identity w, w)"

section \<open>Campaigns\<close>

definition targetWritable :: "('s, 'e) mig_Service \<Rightarrow> bool" where
  "targetWritable sv = (case sv_targetWrite sv of None \<Rightarrow> True | Some st \<Rightarrow> fst (Writable st))"

definition mig_Start :: "('s, 'e) mig_Service \<Rightarrow> string \<times> string \<Rightarrow> ('s, 'e, StorageMigration) mig_op" where
  "mig_Start sv requester =
     (case sv_target sv of None \<Rightarrow> throwE ErrNoTarget | Some target \<Rightarrow>
      let source = st_Describe (sv_primary sv); dest = st_Describe target in
      guardE (source = [] \<or> dest = []) ErrIdentityUnknown (
      guardE (source = dest) (ErrSameStore source) (
      guardE (st_ListAllKeys (sv_primary sv) = None) ErrRootListingUnsupported (
      guardE (\<not> targetWritable sv) ErrTargetWriteDenied (
      bindE (db GetActiveStorageMigration) (\<lambda>active.
      guardE (active \<noteq> None) ErrAlreadyActive (
      bindE (db (CreateStorageMigration source dest (fst requester) (snd requester))) (\<lambda>created.
      case created of None \<Rightarrow> throwE ErrAlreadyActive | Some row \<Rightarrow>
      attempt (db DeleteTerminalStorageMigrationObjects) (retE row) (\<lambda>_. retE row)))))))))"

definition known :: "nat \<Rightarrow> ('s, 'e, StorageMigration) mig_op" where
  "known i = bindE (db (GetStorageMigration i))
     (\<lambda>row. case row of None \<Rightarrow> throwE ErrCampaignNotFound | Some c \<Rightarrow> retE c)"

text \<open>\<open>reread\<close> is the same read.\<close>

definition reread :: "nat \<Rightarrow> ('s, 'e, StorageMigration) mig_op" where
  "reread i = known i"

definition mig_Cancel :: "nat \<Rightarrow> ('s, 'e, StorageMigration) mig_op" where
  "mig_Cancel i = bindE (known i) (\<lambda>_. bindE (db (CancelStorageMigration i)) (\<lambda>_.
     bindE (db (GetStorageMigration i)) (\<lambda>row. case row of None \<Rightarrow> throwE MigDb | Some c \<Rightarrow> retE c)))"

definition objectCounts :: "nat \<Rightarrow> ('s, 'e, object_state \<Rightarrow> int) mig_op" where
  "objectCounts i = bindE (db (CountStorageMigrationObjectsByState i))
     (\<lambda>rows. retE (\<lambda>st. case map_of rows st of None \<Rightarrow> 0 | Some n \<Rightarrow> n))"

definition mig_failures :: "nat \<Rightarrow> ('s, 'e, (string \<times> int \<times> int) list) mig_op" where
  "mig_failures i = db (CountStorageMigrationObjectFailuresByCategory i)"

definition mig_Get :: "nat \<Rightarrow> ('s, 'e, StorageMigration \<times> (object_state \<Rightarrow> int) \<times> (string \<times> int \<times> int) list) mig_op" where
  "mig_Get i = bindE (known i) (\<lambda>c. bindE (objectCounts i) (\<lambda>counts. bindE (mig_failures i) (\<lambda>fails.
     retE (c, counts, fails))))"

definition mig_List :: "int \<Rightarrow> ('s, 'e, StorageMigration list) mig_op" where
  "mig_List limit = db (ListStorageMigrations (nat (if limit \<le> 0 \<or> limit > 200 then 50 else limit)))"

datatype topology = TopologyMismatch | TopologyForward | TopologySwapped

definition topologyFor :: "('s, 'e) mig_Service \<Rightarrow> StorageMigration \<Rightarrow> topology" where
  "topologyFor sv c =
     (let primary = st_Describe (sv_primary sv); second = Describe (sv_target sv) in
      if primary = [] \<or> second = [] then TopologyMismatch
      else if primary = mg_SourceDesc c \<and> second = mg_TargetDesc c then TopologyForward
      else if primary = mg_TargetDesc c \<and> second = mg_SourceDesc c then TopologySwapped
      else TopologyMismatch)"

definition setState :: "nat \<Rightarrow> mig_state \<Rightarrow> ('s, 'e, unit) mig_op" where
  "setState i st = bindE (db (SetStorageMigrationState i st NoteEmpty)) (\<lambda>_. retE ())"

definition note_error :: "nat \<Rightarrow> mig_note \<Rightarrow> ('s, 'e, unit) mig_op" where
  "note_error i n = bindE (db (SetStorageMigrationError i n)) (\<lambda>_. retE ())"

definition mig_backoff :: "int \<Rightarrow> int" where
  "mig_backoff n = Backoff n Minute Hour"

section \<open>The sweep\<close>

definition stampWorker :: "('s, 'e) mig_Service \<Rightarrow> nat \<Rightarrow> ('s, 'e, unit) mig_op" where
  "stampWorker sv i = (if sv_workerID sv = [] then retE ()
     else attempt (db (SetStorageMigrationWorker i (sv_workerID sv))) (retE ()) (\<lambda>_. retE ()))"

definition reconcileTargetWritability :: "('s, 'e) mig_Service \<Rightarrow> StorageMigration \<Rightarrow> ('s, 'e, bool) mig_op" where
  "reconcileTargetWritability sv c =
     (if mg_State c \<notin> {StateEnumerating, StateCopying, StateSynced, StatePaused} then retE False
      else if \<not> targetWritable sv \<and> mg_State c = StatePaused then retE True
      else if \<not> targetWritable sv then
        attempt (db (PauseStorageMigration (mg_ID c) PauseReasonTargetWriteDenied NotePausedByTarget)) (retE True) (\<lambda>_. retE True)
      else if mg_State c = StatePaused \<and> mg_PausedReason c = PauseReasonTargetWriteDenied then
        attempt (db (ResumeStorageMigration (mg_ID c))) (retE True) (\<lambda>_. retE True)
      else retE (mg_State c = StatePaused))"

text \<open>The keys in chunks of \<open>enumerateChunk\<close>, one upsert each.\<close>

function upsert_chunks :: "nat \<Rightarrow> string list \<Rightarrow> nat \<Rightarrow> ('s, 'e, nat) mig_op" where
  "upsert_chunks i keys added =
     (if keys = [] then retE added
      else bindE (db (UpsertStorageMigrationObjects i (take enumerateChunk keys)))
        (\<lambda>n. upsert_chunks i (drop enumerateChunk keys) (added + n)))"
  by pat_completeness auto
termination
  by (relation "measure (\<lambda>(_, keys, _). length keys)") (auto simp: enumerateChunk_def)

definition enumerate :: "('s, 'e) mig_Service \<Rightarrow> nat \<Rightarrow> ('s, 'e, nat) mig_op" where
  "enumerate sv i = (case st_ListAllKeys (sv_primary sv) of
      None \<Rightarrow> throwE ErrRootListingUnsupported
    | Some ls \<Rightarrow> bindE (store_call ls) (\<lambda>keys. upsert_chunks i keys 0))"

definition refresh :: "nat \<Rightarrow> ('s, 'e, unit) mig_op" where
  "refresh i = bindE (db (RefreshStorageMigrationCounters i)) (\<lambda>_. retE ())"

definition reconcile :: "('s, 'e) mig_Service \<Rightarrow> StorageMigration \<Rightarrow> ('s, 'e, unit) mig_op" where
  "reconcile sv c =
     bindE (db (CountUncopiedStorageMigrationObjects (mg_ID c))) (\<lambda>left.
     bindE (refresh (mg_ID c)) (\<lambda>_.
     if left > 0 then retE ()
     else bindE (enumerate sv (mg_ID c)) (\<lambda>added.
     bindE (refresh (mg_ID c)) (\<lambda>_.
     if added > 0 then (if mg_State c \<noteq> StateCopying then setState (mg_ID c) StateCopying else retE ())
     else if mg_State c \<noteq> StateSynced then setState (mg_ID c) StateSynced
     else retE ()))))"

text \<open>
  One pass over a batch of keys through a handle: delete, and on success run the statement. A failed
  delete is skipped, a failed statement or a cancelled context ends the pass.
\<close>

fun delete_keys :: "('s, 'e) Store \<Rightarrow> (string \<Rightarrow> mig_world \<Rightarrow> unit \<times> mig_world) \<Rightarrow> string list \<Rightarrow> nat \<Rightarrow> ('s, 'e, nat) mig_op" where
  "delete_keys h stmt [] n = retE n"
| "delete_keys h stmt (k # ks) n = bindE ctx_Err (\<lambda>_.
     attempt (store_call (st_Delete h k)) (delete_keys h stmt ks n)
       (\<lambda>_. bindE (db (stmt k)) (\<lambda>_. delete_keys h stmt ks (n + 1))))"

definition abortCleanupBatch :: "('s, 'e) Store \<Rightarrow> StorageMigration \<Rightarrow> ('s, 'e, unit) mig_op" where
  "abortCleanupBatch target c =
     guardE (st_Describe target \<noteq> mg_TargetDesc c) (ErrRefuseCleanup (st_Describe target) (mg_TargetDesc c)) (
     bindE (db (ListDestinationCopiesToRemove (mg_ID c) deleteBatch)) (\<lambda>keys.
     bindE (delete_keys target DeleteStorageMigrationObject keys 0) (\<lambda>removed.
     if length keys = deleteBatch \<or> removed < length keys then retE ()
     else bindE (db (CancelStorageMigration (mg_ID c))) (\<lambda>_. retE ()))))"

definition sweepForward :: "('s, 'e) mig_Service \<Rightarrow> ('s, 'e) Store \<Rightarrow> StorageMigration \<Rightarrow> ('s, 'e, unit) mig_op" where
  "sweepForward sv target c = (case mg_State c of
      StateEnumerating \<Rightarrow> bindE (enumerate sv (mg_ID c)) (\<lambda>_. bindE (refresh (mg_ID c)) (\<lambda>_. setState (mg_ID c) StateCopying))
    | StateCopying \<Rightarrow> reconcile sv c
    | StateSynced \<Rightarrow> reconcile sv c
    | StateAborting \<Rightarrow> abortCleanupBatch target c
    | StateCutover \<Rightarrow> note_error (mg_ID c) NoteCutoverUndone
    | StateDeletingSource \<Rightarrow> note_error (mg_ID c) NoteCutoverUndone
    | _ \<Rightarrow> retE ())"

definition now_op :: "('s, 'e, int) mig_op" where
  "now_op x = (Inr (w_now (fst x)), x)"

definition maybeBeginDeletingSource :: "('s, 'e) mig_Service \<Rightarrow> StorageMigration \<Rightarrow> ('s, 'e, unit) mig_op" where
  "maybeBeginDeletingSource sv c = (case mg_ObservedCutoverAt c of
      None \<Rightarrow> note_error (mg_ID c) NoteNoCutoverTime
    | Some t \<Rightarrow> bindE now_op (\<lambda>now.
        if time_sub now t < sv_grace sv then retE ()
        else bindE (db (CountUncopiedStorageMigrationObjects (mg_ID c))) (\<lambda>left.
          if left > 0 then note_error (mg_ID c) NoteUncopied
          else setState (mg_ID c) StateDeletingSource)))"

text \<open>The marker operations of \<open>Media_GC\<close> on the handle; only their outcome matters to the campaign.\<close>

definition adoptDestination :: "('s, 'e) mig_Service \<Rightarrow> StorageMigration \<Rightarrow> ('s, 'e, unit) mig_op" where
  "adoptDestination sv c =
     (if st_Describe (sv_primary sv) \<noteq> mg_TargetDesc c then retE ()
      else attempt (db GetInstanceIdentity) (retE ()) (\<lambda>i x.
        (case ReadOwnerMarker (st_backend (sv_primary sv)) (snd x) of
           (Inl _, s) \<Rightarrow> (Inr (), (fst x, s))
         | (Inr (Some _), s) \<Rightarrow> (Inr (), (fst x, s))
         | (Inr None, s) \<Rightarrow> (Inr (), (fst x, snd (WriteOwnerMarker (st_backend (sv_primary sv)) i s))))))"

definition deleteSourceBatch :: "('s, 'e) mig_Service \<Rightarrow> ('s, 'e) Store \<Rightarrow> StorageMigration \<Rightarrow> ('s, 'e, unit) mig_op" where
  "deleteSourceBatch sv target c =
     guardE (st_Describe target \<noteq> mg_SourceDesc c) (ErrRefuseDelete (st_Describe target) (mg_SourceDesc c)) (
     bindE (db (ListVerifiedStorageMigrationObjects (mg_ID c) deleteBatch)) (\<lambda>keys.
     bindE (delete_keys target MarkStorageMigrationObjectSourceDeleted keys 0) (\<lambda>_.
     bindE (refresh (mg_ID c)) (\<lambda>_.
     bindE (db (CountUnfinishedStorageMigrationObjects (mg_ID c))) (\<lambda>left.
     if left > 0 then retE ()
     else bindE (adoptDestination sv c) (\<lambda>_. setState (mg_ID c) StateDone))))))"

definition sweepSwapped :: "('s, 'e) mig_Service \<Rightarrow> ('s, 'e) Store \<Rightarrow> StorageMigration \<Rightarrow> ('s, 'e, unit) mig_op" where
  "sweepSwapped sv target c = (case mg_State c of
      StateEnumerating \<Rightarrow> note_error (mg_ID c) NoteSwappedEarly
    | StateCopying \<Rightarrow> bindE (db (MarkStorageMigrationCutover (mg_ID c))) (\<lambda>_. retE ())
    | StateSynced \<Rightarrow> bindE (db (MarkStorageMigrationCutover (mg_ID c))) (\<lambda>_. retE ())
    | StatePaused \<Rightarrow> note_error (mg_ID c) NoteSwappedPaused
    | StateAborting \<Rightarrow> note_error (mg_ID c) NoteSwappedAborting
    | StateCutover \<Rightarrow> maybeBeginDeletingSource sv c
    | StateDeletingSource \<Rightarrow> deleteSourceBatch sv target c
    | _ \<Rightarrow> retE ())"

text \<open>What a sweep does with the campaign it has read; the operator's controls can come in between.\<close>

definition sweep_act :: "('s, 'e) mig_Service \<Rightarrow> ('s, 'e) Store \<Rightarrow> StorageMigration \<Rightarrow> ('s, 'e, unit) mig_op" where
  "sweep_act sv target c = bindE (stampWorker sv (mg_ID c)) (\<lambda>_. case topologyFor sv c of
      TopologyForward \<Rightarrow> bindE (reconcileTargetWritability sv c) (\<lambda>stop.
        if stop then retE () else sweepForward sv target c)
    | TopologySwapped \<Rightarrow> sweepSwapped sv target c
    | TopologyMismatch \<Rightarrow> note_error (mg_ID c) NoteWrongStores)"

definition SweepOnce :: "('s, 'e) mig_Service \<Rightarrow> ('s, 'e, unit) mig_op" where
  "SweepOnce sv = (case sv_target sv of None \<Rightarrow> retE () | Some target \<Rightarrow>
     bindE (db GetActiveStorageMigration) (\<lambda>active. case active of None \<Rightarrow> retE () | Some c \<Rightarrow> sweep_act sv target c))"

section \<open>The copy\<close>

datatype copy_error = CopyTerminal string | CopyTransient

definition SentinelMissing :: string where "SentinelMissing = ''missing''"

definition recordedHash :: "string \<Rightarrow> (mig_world \<times> 's, copy_error, string option) op" where
  "recordedHash k x = (case db (GetVideoFileSHA256ByStorageKey k) x :: ('s mig_error + string option) \<times> mig_world \<times> 's of
      (Inr (Some digest), x') \<Rightarrow> (Inr (if digest = [] \<or> digest = SentinelMissing then None else Some digest), x')
    | (_, x') \<Rightarrow> (Inr None, x'))"

text \<open>Reading the object back fails like the open of it, or because the body breaks off.\<close>

definition hashTarget :: "(string \<Rightarrow> string) \<Rightarrow> ('s, 'e) Store \<Rightarrow> string \<Rightarrow> 's \<Rightarrow> ('e option + string) \<times> 's" where
  "hashTarget sha target k s = (case st_Open target k s of
      (Inl e, s') \<Rightarrow> (Inl (Some e), s')
    | (Inr (body, broken), s') \<Rightarrow> (if broken then Inl None else Inr (sha body), s'))"

definition on_store :: "('s \<Rightarrow> 'r \<times> 's) \<Rightarrow> ('r \<Rightarrow> (mig_world \<times> 's, copy_error, 'a) op) \<Rightarrow> (mig_world \<times> 's, copy_error, 'a) op" where
  "on_store f k x = (case f (snd x) of (r, s) \<Rightarrow> k r (fst x, s))"

definition copyAndVerify :: "('s, 'e) mig_Service \<Rightarrow> ('s, 'e) Store \<Rightarrow> string \<Rightarrow> (mig_world \<times> 's, copy_error, string \<times> nat) op" where
  "copyAndVerify sv target k =
     on_store (st_Open (sv_primary sv) k) (\<lambda>opened. case opened of
       Inl e \<Rightarrow> throwE (if st_NotFound (sv_primary sv) e then CopyTerminal failSourceMissing
                       else if st_InvalidKey (sv_primary sv) e then CopyTerminal failKeyUnsupported else CopyTransient)
     | Inr body \<Rightarrow>
     on_store (PutSizedHashed (sv_sha256 sv) target k (opened_body body)) (\<lambda>put. case put of
       Inl e \<Rightarrow> throwE (if st_InvalidKey target e then CopyTerminal failKeyUnsupported else CopyTransient)
     | Inr (n, sent) \<Rightarrow>
     on_store (hashTarget (sv_sha256 sv) target k) (\<lambda>stored. case stored of
       Inl (Some e) \<Rightarrow> throwE (if st_NotFound target e then CopyTerminal failVerification else CopyTransient)
     | Inl None \<Rightarrow> throwE CopyTransient
     | Inr back \<Rightarrow>
     if back \<noteq> sent then throwE (CopyTerminal failVerification)
     else bindE (recordedHash k) (\<lambda>recorded. case recorded of
       None \<Rightarrow> retE (sent, n)
     | Some r \<Rightarrow> if r \<noteq> sent then throwE (CopyTerminal failRecordedHash) else retE (sent, n)))))"

text \<open>A statement whose failure is only logged.\<close>

definition logged :: "(mig_world \<Rightarrow> 'a \<times> mig_world) \<Rightarrow> mig_world \<times> 's \<Rightarrow> mig_world \<times> 's" where
  "logged q = ignoreE (db q :: (_, unit, _) mig_op)"

definition copyOne :: "('s, 'e) mig_Service \<Rightarrow> ('s, 'e) Store \<Rightarrow> string \<times> nat \<times> int \<Rightarrow> mig_world \<times> 's \<Rightarrow> mig_world \<times> 's" where
  "copyOne sv target row x = (case row of (k, _, attempts) \<Rightarrow>
     (case copyAndVerify sv target k x of
        (Inr (digest, n), x') \<Rightarrow> logged (MarkStorageMigrationObjectVerified k digest (int n)) x'
      | (Inl (CopyTerminal category), x') \<Rightarrow> logged (FailStorageMigrationObject k category) x'
      | (Inl CopyTransient, x') \<Rightarrow>
          if attempts + 1 \<ge> mig_maxAttempts then logged (FailStorageMigrationObject k failAttemptsSpent) x'
          else logged (RescheduleStorageMigrationObject k (w_now (fst x') + mig_backoff (attempts + 1)) failTransientCopy) x'))"

text \<open>The claim of a pass, with the campaign it is for; nothing when the pass has nothing to do.\<close>

definition copy_claim :: "('s, 'e) mig_Service \<Rightarrow> int \<Rightarrow> ('s, 'e, (StorageMigration \<times> (string \<times> nat \<times> int) list) option) mig_op" where
  "copy_claim sv batch = bindE (db GetActiveStorageMigration) (\<lambda>active. case active of None \<Rightarrow> retE None | Some c \<Rightarrow>
     if mg_State c \<noteq> StateCopying \<and> mg_State c \<noteq> StateSynced then retE None
     else if topologyFor sv c \<noteq> TopologyForward then retE None
     else bindE (db (ClaimDueStorageMigrationObjects (nat (if batch \<le> 0 then 1 else batch)))) (\<lambda>rows. retE (Some (c, rows))))"

fun copy_rows :: "('s, 'e) mig_Service \<Rightarrow> ('s, 'e) Store \<Rightarrow> (string \<times> nat \<times> int) list \<Rightarrow> ('s, 'e, unit) mig_op" where
  "copy_rows sv target [] = retE ()"
| "copy_rows sv target (row # rows) = bindE ctx_Err (\<lambda>_ x. copy_rows sv target rows (copyOne sv target row x))"

definition CopyOnce :: "('s, 'e) mig_Service \<Rightarrow> int \<Rightarrow> ('s, 'e, nat) mig_op" where
  "CopyOnce sv batch = (case sv_target sv of None \<Rightarrow> retE 0 | Some target \<Rightarrow>
     bindE (copy_claim sv batch) (\<lambda>claimed. case claimed of None \<Rightarrow> retE 0 | Some (c, rows) \<Rightarrow>
       bindE (copy_rows sv target rows) (\<lambda>_.
       if rows = [] then retE 0 else bindE (refresh (mg_ID c)) (\<lambda>_. retE (length rows)))))"

section \<open>Controls\<close>

definition illegal :: "nat \<Rightarrow> string \<Rightarrow> ('s, 'e, 'a) mig_op" where
  "illegal i action = bindE (known i) (\<lambda>c. throwE (IllegalTransition action (mg_State c)))"

record Preview =
  pv_SourceDesc :: string
  pv_TargetDesc :: string
  pv_Objects :: int
  pv_Bytes :: int
  pv_BytesKnown :: bool

definition mig_Preview :: "('s, 'e) mig_Service \<Rightarrow> ('s, 'e, Preview) mig_op" where
  "mig_Preview sv = (case sv_target sv of None \<Rightarrow> throwE ErrNoTarget | Some target \<Rightarrow>
     let source = st_Describe (sv_primary sv); dest = st_Describe target in
     guardE (source = [] \<or> dest = []) ErrIdentityUnknown (
     case st_ListAllObjects (sv_primary sv) of
       Some ls \<Rightarrow> bindE (store_call ls) (\<lambda>objs. retE \<lparr>pv_SourceDesc = source, pv_TargetDesc = dest,
         pv_Objects = int (length objs), pv_Bytes = fold (\<lambda>ob b. wrap64 (b + snd ob)) objs 0, pv_BytesKnown = True\<rparr>)
     | None \<Rightarrow> (case st_ListAllKeys (sv_primary sv) of
         None \<Rightarrow> throwE ErrRootListingUnsupported
       | Some ls \<Rightarrow> bindE (store_call ls) (\<lambda>keys. retE \<lparr>pv_SourceDesc = source, pv_TargetDesc = dest,
           pv_Objects = int (length keys), pv_Bytes = 0, pv_BytesKnown = False\<rparr>))))"

definition mig_Pause :: "nat \<Rightarrow> string \<Rightarrow> ('s, 'e, StorageMigration) mig_op" where
  "mig_Pause i reason =
     guardE (reason \<noteq> PauseReasonOperator \<and> reason \<noteq> PauseReasonTargetWriteDenied) (ErrUnknownPauseReason reason) (
     bindE (db (PauseStorageMigration i reason
       (if reason = PauseReasonTargetWriteDenied then NotePausedByTarget else NoteEmpty))) (\<lambda>n.
     if n = 0 then illegal i ''pause'' else reread i))"

definition mig_Resume :: "('s, 'e) mig_Service \<Rightarrow> nat \<Rightarrow> ('s, 'e, StorageMigration) mig_op" where
  "mig_Resume sv i = guardE (\<not> targetWritable sv) ErrTargetWriteDenied (
     bindE (db (ResumeStorageMigration i)) (\<lambda>n. if n = 0 then illegal i ''resume'' else reread i))"

definition mig_Abort :: "nat \<Rightarrow> bool \<Rightarrow> ('s, 'e, StorageMigration) mig_op" where
  "mig_Abort i cleanDestination = (if \<not> cleanDestination then mig_Cancel i
     else bindE (db (AbortStorageMigrationWithCleanup i NoteAborting)) (\<lambda>n.
       if n = 0 then illegal i ''abort with destination clean-up'' else reread i))"

definition mig_Switch :: "('s, 'e) mig_Service \<Rightarrow> nat \<Rightarrow> ('s, 'e, StorageMigration) mig_op" where
  "mig_Switch sv i = bindE (known i) (\<lambda>row.
     guardE (mg_State row \<noteq> StateCopying \<and> mg_State row \<noteq> StateSynced)
       (IllegalTransition ''record a cutover for'' (mg_State row)) (
     guardE (topologyFor sv row \<noteq> TopologySwapped) ErrCutoverNotObserved (
     bindE (db (MarkStorageMigrationCutover i)) (\<lambda>_. reread i))))"

definition mig_Release :: "nat \<Rightarrow> ('s, 'e, StorageMigration) mig_op" where
  "mig_Release i = bindE (known i) (\<lambda>row.
     guardE (mg_State row \<noteq> StateCutover) (IllegalTransition ''release the source of'' (mg_State row)) (
     bindE (db (CountUncopiedStorageMigrationObjects i)) (\<lambda>left.
     guardE (left > 0) ErrObjectsUncopied (
     bindE (db (ReleaseStorageMigrationSource i)) (\<lambda>n.
     if n = 0 then illegal i ''release the source of'' else reread i)))))"

section \<open>Dual reads\<close>

record ('s, 'e) Fallback =
  fb_primary :: "('s, 'e) Store"
  fb_secondary :: "('s, 'e) Store option"

definition Fallback_Put :: "('s, 'e) Fallback \<Rightarrow> string \<Rightarrow> unit reader \<Rightarrow> ('s, 'e, nat) op" where
  "Fallback_Put f k r = st_Put (fb_primary f) k r"

definition Fallback_Delete :: "('s, 'e) Fallback \<Rightarrow> string \<Rightarrow> ('s, 'e, unit) op" where
  "Fallback_Delete f k = bindE (st_Delete (fb_primary f) k) (\<lambda>_. case fb_secondary f of
      None \<Rightarrow> retE () | Some h \<Rightarrow> catchE (st_Delete h k) (\<lambda>_. retE ()) (\<lambda>_. retE ()))"

definition Fallback_Open :: "('s, 'e) Fallback \<Rightarrow> string \<Rightarrow> ('s, 'e, string \<times> bool) op" where
  "Fallback_Open f k = catchE (st_Open (fb_primary f) k)
     (\<lambda>e. case fb_secondary f of
        Some h \<Rightarrow> if st_NotFound (fb_primary f) e then st_Open h k else throwE e
      | None \<Rightarrow> throwE e)
     retE"

definition Fallback_Exists :: "('s, 'e) Fallback \<Rightarrow> string \<Rightarrow> ('s, 'e, bool) op" where
  "Fallback_Exists f k =
     (let secondly = (\<lambda>there. if there then retE True else case fb_secondary f of
            None \<Rightarrow> retE False | Some h \<Rightarrow> st_Exists h k)
      in catchE (st_Exists (fb_primary f) k) (\<lambda>e. if st_NotFound (fb_primary f) e then secondly False else throwE e) secondly)"

section \<open>The local disk as a store\<close>

definition local_Store :: "Local \<Rightarrow> (filesystem, unit storage_error) Store" where
  "local_Store l = \<lparr>st_backend = local_backend l, st_Describe = Local_Describe l,
     st_ListAllKeys = Some (Local_ListAllKeys l), st_ListAllObjects = Some (Local_ListAllObjects l),
     st_Put = Local_Put l, st_Exists = Local_Exists l, st_InvalidKey = (\<lambda>e. e = ErrInvalidKey)\<rparr>"

end
