(* ===== verification/Migration_Ledger.thy ===== *)
theory Migration_Ledger
  imports Storage_Migration
begin

text \<open>
  The running storage migration as a step relation, what is relied on of the stores it runs between
  (the locales \<open>migration_store\<close> and \<open>store_pair\<close>; a write may leave anything under its own key,
  whatever it returns), and the invariant of its ledger under every database statement.
  The relation interleaves one campaign's leader-gated sweep (reading the campaign and acting on it
  are two steps), the copy workers (claim and copy are two steps), the operator's controls from any
  process, the lease sweep, uploads and deletions by the instance, crashes, and failures of the
  database and of both stores.
\<close>

section \<open>What is relied on of a store\<close>

locale migration_store =
  fixes h :: "('s, 'e) Store" and ok :: "'s \<Rightarrow> bool" and view :: "'s \<Rightarrow> string \<Rightarrow> string option"
    and good :: "string \<Rightarrow> bool"
  assumes open_keeps: "ok s \<Longrightarrow> st_Open h k s = (res, s') \<Longrightarrow> ok s' \<and> view s' = view s"
    and open_held: "ok s \<Longrightarrow> good k \<Longrightarrow> st_Open h k s = (Inr (c, False), s') \<Longrightarrow> view s k = Some c"
    and put_frame: "ok s \<Longrightarrow> good k \<Longrightarrow> st_Put h k r s = (res', s') \<Longrightarrow>
      ok s' \<and> (\<forall>k'. good k' \<longrightarrow> k' \<noteq> k \<longrightarrow> view s' k' = view s k')"
    and put_whole: "ok s \<Longrightarrow> good k \<Longrightarrow> st_Put h k r s = (Inr n, s') \<Longrightarrow> snd (drain r) = EOF"
    and mark_frame: "ok s \<Longrightarrow> good k \<Longrightarrow> be_Put (st_backend h) k c s = (res', s') \<Longrightarrow>
      ok s' \<and> (\<forall>k'. good k' \<longrightarrow> k' \<noteq> k \<longrightarrow> view s' k' = view s k')"
    and delete_frame: "ok s \<Longrightarrow> good k \<Longrightarrow> st_Delete h k s = (res'', s') \<Longrightarrow>
      ok s' \<and> (\<forall>k'. good k' \<longrightarrow> k' \<noteq> k \<longrightarrow> view s' k' = view s k')"
    and list_keeps: "ok s \<Longrightarrow> st_ListAllKeys h = Some ls \<Longrightarrow> ls s = (lres, s') \<Longrightarrow> ok s' \<and> view s' = view s"
    and list_held: "ok s \<Longrightarrow> st_ListAllKeys h = Some ls \<Longrightarrow> ls s = (Inr ks, s') \<Longrightarrow>
      list_all (\<lambda>k. good k \<and> view s k \<noteq> None) ks"

text \<open>Everything the migration can do to the store behind a handle.\<close>

definition store_effects :: "('s, 'e) Store \<Rightarrow> ('s \<Rightarrow> 's) set" where
  "store_effects h = range (\<lambda>k s. snd (st_Open h k s)) \<union> range (\<lambda>(k, r) s. snd (st_Put h k r s)) \<union>
     range (\<lambda>(k, c) s. snd (be_Put (st_backend h) k c s)) \<union> range (\<lambda>k s. snd (st_Delete h k s)) \<union>
     (case st_ListAllKeys h of None \<Rightarrow> {} | Some ls \<Rightarrow> {\<lambda>s. snd (ls s)})"

lemma effectI:
  "(\<lambda>s. snd (st_Open h k s)) \<in> store_effects h" "(\<lambda>s. snd (st_Put h k r s)) \<in> store_effects h"
  "(\<lambda>s. snd (be_Put (st_backend h) k c s)) \<in> store_effects h" "(\<lambda>s. snd (st_Delete h k s)) \<in> store_effects h"
  "st_ListAllKeys h = Some ls \<Longrightarrow> (\<lambda>s. snd (ls s)) \<in> store_effects h"
  by (force simp: store_effects_def)+

section \<open>The running system\<close>

text \<open>
  The database and the stores; the sweep in progress with the campaign it has read; the rows claimed
  by live workers; the objects the instance has stored and not deleted.
\<close>

record ('s, 'e) mig_run =
  r_x :: "mig_world \<times> 's"
  r_snap :: "(('s, 'e) mig_Service \<times> ('s, 'e) Store \<times> StorageMigration) option"
  r_flight :: "(('s, 'e) mig_Service \<times> ('s, 'e) Store \<times> string \<times> nat \<times> int) list"
  r_live :: "string \<Rightarrow> string option"

datatype control = Pausing string | Resuming | Aborting bool | Switching | Releasing | Cancelling

definition run_control :: "('s, 'e) mig_Service \<Rightarrow> control \<Rightarrow> nat \<Rightarrow> mig_world \<times> 's \<Rightarrow>
    ('e mig_error + StorageMigration) \<times> mig_world \<times> 's" where
  "run_control sv ctl i = (case ctl of
      Pausing reason \<Rightarrow> mig_Pause i reason | Resuming \<Rightarrow> mig_Resume sv i | Aborting clean \<Rightarrow> mig_Abort i clean
    | Switching \<Rightarrow> mig_Switch sv i | Releasing \<Rightarrow> mig_Release i | Cancelling \<Rightarrow> mig_Cancel i)"

text \<open>A process of the install: a handle that describes itself as one of the two stores is that store.\<close>

definition process :: "('s, 'e) Store \<Rightarrow> ('s, 'e) Store \<Rightarrow> (string \<Rightarrow> string) \<Rightarrow> ('s, 'e) mig_Service \<Rightarrow> bool" where
  "process src dst sha sv \<longleftrightarrow> sv_sha256 sv = sha \<and> (\<forall>h \<in> insert (sv_primary sv) (set_option (sv_target sv)).
     (st_Describe h = st_Describe src \<longrightarrow> h = src) \<and> (st_Describe h = st_Describe dst \<longrightarrow> h = dst))"

abbreviation ledger_keys :: "mig_world \<Rightarrow> string set" where
  "ledger_keys w \<equiv> ob_Key ` set (m_objs w)"

inductive mig_step :: "('s, 'e) Store \<Rightarrow> ('s, 'e) Store \<Rightarrow> (string \<Rightarrow> string) \<Rightarrow> ('s \<Rightarrow> string \<Rightarrow> string option) \<Rightarrow>
    ('s \<Rightarrow> string \<Rightarrow> string option) \<Rightarrow> (string \<Rightarrow> bool) \<Rightarrow> ('s, 'e) mig_run \<Rightarrow> ('s, 'e) mig_run \<Rightarrow> bool"
  for src dst sha viewA viewB good where
  sweep_read: "r_snap r = None \<Longrightarrow> process src dst sha sv \<Longrightarrow> sv_target sv = Some t \<Longrightarrow>
    (db GetActiveStorageMigration (r_x r) :: ('e mig_error + _) \<times> _) = (Inr (Some c), x) \<Longrightarrow>
    mig_step src dst sha viewA viewB good r (r\<lparr>r_x := x, r_snap := Some (sv, t, c)\<rparr>)"
| sweep_acts: "r_snap r = Some (sv, t, c) \<Longrightarrow> sweep_act sv t c (r_x r) = (res, x) \<Longrightarrow>
    mig_step src dst sha viewA viewB good r (r\<lparr>r_x := x, r_snap := None\<rparr>)"
| claim: "process src dst sha sv \<Longrightarrow> sv_target sv = Some t \<Longrightarrow> copy_claim sv batch (r_x r) = (Inr (Some (c, rows)), x) \<Longrightarrow>
    mig_step src dst sha viewA viewB good r (r\<lparr>r_x := x, r_flight := map (\<lambda>row. (sv, t, row)) rows @ r_flight r\<rparr>)"
| copy: "r_flight r = before @ (sv, t, row) # after \<Longrightarrow>
    mig_step src dst sha viewA viewB good r (r\<lparr>r_x := copyOne sv t row (r_x r), r_flight := before @ after\<rparr>)"
| renew: "(db (RenewStorageMigrationObjectLease k) (r_x r) :: ('e mig_error + _) \<times> _) = (res', x) \<Longrightarrow>
    mig_step src dst sha viewA viewB good r (r\<lparr>r_x := x\<rparr>)"
| counters: "(refresh i (r_x r) :: ('e mig_error + _) \<times> _) = (res, x) \<Longrightarrow>
    mig_step src dst sha viewA viewB good r (r\<lparr>r_x := x\<rparr>)"
| lease_sweep: "\<forall>(_, _, k, _)\<in>set (r_flight r). \<forall>o'\<in>set (m_objs (fst (r_x r))). ob_Key o' = k \<longrightarrow> \<not> lease_expired (fst (r_x r)) o' \<Longrightarrow>
    (db SweepExpiredStorageMigrationObjects (r_x r) :: ('e mig_error + _) \<times> _) = (res'', x) \<Longrightarrow>
    mig_step src dst sha viewA viewB good r (r\<lparr>r_x := x\<rparr>)"
| controlled: "process src dst sha sv \<Longrightarrow> run_control sv ctl i (r_x r) = (res3, x) \<Longrightarrow>
    mig_step src dst sha viewA viewB good r (r\<lparr>r_x := x\<rparr>)"
| crash: "mig_step src dst sha viewA viewB good r (r\<lparr>r_snap := None, r_flight := filter keep (r_flight r)\<rparr>)"
| stored: "r_x r = (w, s) \<Longrightarrow> h = src \<and> view = viewA \<or> h = dst \<and> view = viewB \<Longrightarrow>
    good k \<Longrightarrow> k \<noteq> OwnerMarkerKey \<Longrightarrow> viewA s k = None \<Longrightarrow> viewB s k = None \<Longrightarrow> k \<notin> ledger_keys w \<Longrightarrow>
    st_Put h k (plain_body c) s = (Inr n, s') \<Longrightarrow> view s' k = Some c \<Longrightarrow>
    mig_step src dst sha viewA viewB good r (r\<lparr>r_x := (w, s'), r_live := (r_live r)(k \<mapsto> c)\<rparr>)"
| deleted: "r_x r = (w, s) \<Longrightarrow> h = src \<or> h = dst \<Longrightarrow> good k \<Longrightarrow> st_Delete h k s = (res4, s') \<Longrightarrow>
    mig_step src dst sha viewA viewB good r (r\<lparr>r_x := (w, s'), r_live := (r_live r)(k := None)\<rparr>)"
| elapse: "r_x r = (w, s) \<Longrightarrow> w_now w \<le> t' \<Longrightarrow>
    mig_step src dst sha viewA viewB good r
      (r\<lparr>r_x := (w\<lparr>w_now := t', w_faults := faults, m_ctx := cancels, m_hashes := hashes\<rparr>, s)\<rparr>)"

section \<open>The ledger\<close>

definition row_state :: "nat \<Rightarrow> mig_world \<Rightarrow> string \<Rightarrow> object_state option" where
  "row_state i w k = map_option ob_State (find (\<lambda>o'. ob_Campaign o' = i \<and> ob_Key o' = k) (m_objs w))"

lemma find_map_same: "(\<And>x. x \<in> set xs \<Longrightarrow> P (f x) = P x) \<Longrightarrow> find P (map f xs) = map_option f (find P xs)"
  by (induction xs) auto

lemma row_state_update:
  assumes "\<And>o'. ob_Campaign (f o') = ob_Campaign o' \<and> ob_Key (f o') = ob_Key o'"
  shows "row_state i (snd (update_objs P f w)) k =
    map_option (\<lambda>o'. if P o' then ob_State (f o') else ob_State o') (find (\<lambda>o'. ob_Campaign o' = i \<and> ob_Key o' = k) (m_objs w))"
  unfolding row_state_def update_objs_def using assms
  by (simp add: option.map_comp) (subst find_map_same; auto simp: option.map_comp comp_def intro!: option.map_cong)

lemma keys_update:
  assumes "\<And>o'. ob_Campaign (f o') = ob_Campaign o' \<and> ob_Key (f o') = ob_Key o'"
  shows "map ob_Key (m_objs (snd (update_objs P f w))) = map ob_Key (m_objs w)"
    "map ob_Campaign (m_objs (snd (update_objs P f w))) = map ob_Campaign (m_objs w)"
  using assms by (auto simp: update_objs_def)

lemma row_state_find:
  "row_state i w k = Some st \<longleftrightarrow> (\<exists>o'. find (\<lambda>o'. ob_Campaign o' = i \<and> ob_Key o' = k) (m_objs w) = Some o' \<and> ob_State o' = st)"
  by (auto simp: row_state_def)

lemma row_state_mem:
  assumes "distinct (map ob_Key (m_objs w))" "o' \<in> set (m_objs w)" "ob_Campaign o' = i"
  shows "row_state i w (ob_Key o') = Some (ob_State o')"
proof -
  have "find (\<lambda>a. ob_Campaign a = i \<and> ob_Key a = ob_Key o') xs = Some o'"
    if "distinct (map ob_Key xs)" "o' \<in> set xs" for xs
    using that assms(3) by (induction xs) (auto simp: image_iff)
  then show ?thesis using assms by (simp add: row_state_def)
qed

section \<open>The invariant\<close>

text \<open>
  How far the destructive ends of a campaign may have gone: not at all, removing copies from the
  destination, or removing objects from the source.
\<close>

datatype mode = Untouched | Cleaned | Emptied

definition same :: "(string \<Rightarrow> string) \<Rightarrow> string \<Rightarrow> string option \<Rightarrow> bool" where
  "same sha c v \<longleftrightarrow> (case v of None \<Rightarrow> False | Some d \<Rightarrow> sha d = sha c)"

text \<open>Where an object is held, by the state of its row; \<open>a\<close> is what the source holds, \<open>b\<close> the destination.\<close>

fun placed :: "(string \<Rightarrow> string) \<Rightarrow> mode \<Rightarrow> object_state option \<Rightarrow> string \<Rightarrow> string option \<Rightarrow> string option \<Rightarrow> bool" where
  "placed sha m None c a b \<longleftrightarrow> same sha c a \<or> a = None \<and> same sha c b"
| "placed sha m (Some ObjectVerified) c a b \<longleftrightarrow> (m \<noteq> Emptied \<longrightarrow> same sha c a) \<and> (m \<noteq> Cleaned \<longrightarrow> same sha c b)"
| "placed sha m (Some ObjectSourceDeleted) c a b \<longleftrightarrow> same sha c b"
| "placed sha m (Some st) c a b \<longleftrightarrow> same sha c a"

lemma placed_held: "placed sha m st c a b \<Longrightarrow> same sha c a \<or> same sha c b"
  by (cases "(sha, m, st, c, a, b)" rule: placed.cases) (cases m; auto)+

lemma placed_weaken: "placed sha Untouched st c a b \<Longrightarrow> placed sha m st c a b"
  by (cases "(sha, m, st, c, a, b)" rule: placed.cases) auto

text \<open>The campaign in question, and every other campaign over.\<close>

definition only_camp :: "nat \<Rightarrow> string \<Rightarrow> string \<Rightarrow> StorageMigration \<Rightarrow> bool" where
  "only_camp i dA dB c \<longleftrightarrow> (mg_ID c = i \<longrightarrow> mg_SourceDesc c = dA \<and> mg_TargetDesc c = dB) \<and>
     (mg_ID c \<noteq> i \<longrightarrow> terminal_state (mg_State c))"

definition stuck :: "nat \<Rightarrow> mig_state \<Rightarrow> mig_world \<Rightarrow> bool" where
  "stuck i st w \<longleftrightarrow> (\<forall>c\<in>set (m_camps w). mg_ID c = i \<longrightarrow> mg_State c = st \<or> terminal_state (mg_State c))"

definition ledger_ok :: "nat \<Rightarrow> string \<Rightarrow> string \<Rightarrow> (string \<Rightarrow> bool) \<Rightarrow> mig_world \<Rightarrow> bool" where
  "ledger_ok i dA dB good w \<longleftrightarrow> distinct (map mg_ID (m_camps w)) \<and> (\<forall>c\<in>set (m_camps w). only_camp i dA dB c) \<and>
     distinct (map ob_Key (m_objs w)) \<and>
     (\<forall>o'\<in>set (m_objs w). ob_Campaign o' = i \<longrightarrow> good (ob_Key o'))"

text \<open>A statement on campaigns that respects their identity leaves the ledger in order.\<close>

lemma update_camp_all:
  assumes "\<forall>c\<in>set (m_camps w). Q c" "\<And>c t. Q c \<Longrightarrow> mg_ID c = i \<Longrightarrow> P c \<Longrightarrow> Q ((f c)\<lparr>mg_UpdatedAt := t\<rparr>)"
  shows "\<forall>c\<in>set (m_camps (snd (update_camp i P f w))). Q c"
  using assms by (auto simp: update_camp_def)

lemma update_camp_objs [simp]: "m_objs (snd (update_camp i P f w)) = m_objs w"
  by (simp add: update_camp_def)

lemma row_state_camp [simp]: "row_state i (snd (update_camp j P f w)) = row_state i w"
  by (simp add: row_state_def fun_eq_iff)

lemma row_state_camps [simp]: "row_state i (w\<lparr>m_camps := cs\<rparr>) = row_state i w"
  "row_state i (w\<lparr>w_faults := fs\<rparr>) = row_state i w" "row_state i (w\<lparr>m_ctx := fs\<rparr>) = row_state i w"
  by (simp_all add: row_state_def fun_eq_iff)

section \<open>Rules for the operations\<close>

lemma preserves_db:
  assumes "\<And>v s fs. P (v, s) \<Longrightarrow> P (v\<lparr>w_faults := fs\<rparr>, s)" "\<And>v s. P (v, s) \<Longrightarrow> P (snd (q v), s)"
  shows "preserves P (db q)"
  unfolding preserves_def
proof (intro allI impI)
  fix x assume x: "P x"
  have "P (snd (repo q (fst x)), snd x)"
    by (rule repo_keeps [where P = "\<lambda>v. P (v, snd x)"]) (use x assms in auto)
  then show "P (snd (db q x))" by (auto simp: db_def split: prod.splits sum.splits)
qed

lemma preserves_store:
  assumes "\<And>w s r s'. P (w, s) \<Longrightarrow> f s = (r, s') \<Longrightarrow> P (w, s')"
  shows "preserves P (store_call f)"
  using assms by (auto simp: preserves_def store_call_def split: prod.splits sum.splits)

lemma preserves_ctx:
  assumes "\<And>w s cs. P (w, s) \<Longrightarrow> P (w\<lparr>m_ctx := cs\<rparr>, s)"
  shows "preserves P ctx_Err"
  using assms by (auto simp: preserves_def ctx_Err_def split: list.splits bool.splits)

lemma preserves_attempt [preserves_rules]:
  "preserves P m \<Longrightarrow> preserves P h \<Longrightarrow> (\<And>a. preserves P (k a)) \<Longrightarrow> preserves P (attempt m h k)"
  unfolding attempt_def by (intro preserves_catchE)

lemma preserves_now [preserves_rules]: "preserves P now_op"
  by (simp add: preserves_def now_op_def)

lemmas camp_stmts = SetStorageMigrationState_def SetStorageMigrationError_def MarkStorageMigrationCutover_def
  PauseStorageMigration_def ResumeStorageMigration_def AbortStorageMigrationWithCleanup_def
  ReleaseStorageMigrationSource_def CancelStorageMigration_def RefreshStorageMigrationCounters_def Let_def

locale store_pair = A: migration_store src ok viewA good + B: migration_store dst ok viewB good
  for src dst :: "('s, 'e) Store" and ok viewA viewB good +
  assumes apartA: "f \<in> store_effects src \<Longrightarrow> ok s \<Longrightarrow> viewB (f s) = viewB s"
    and apartB: "f \<in> store_effects dst \<Longrightarrow> ok s \<Longrightarrow> viewA (f s) = viewA s"
    and marker_good: "good OwnerMarkerKey"
    and descs: "st_Describe src \<noteq> st_Describe dst" "st_Describe src \<noteq> []" "st_Describe dst \<noteq> []"
begin

abbreviation lok :: "nat \<Rightarrow> mig_world \<Rightarrow> bool" where
  "lok i \<equiv> ledger_ok i (st_Describe src) (st_Describe dst) good"

definition objects_ok :: "nat \<Rightarrow> (string \<Rightarrow> string) \<Rightarrow> mode \<Rightarrow> (string \<Rightarrow> string option) \<Rightarrow> string set \<Rightarrow> mig_world \<times> 's \<Rightarrow> bool" where
  "objects_ok i sha m lib fk x \<longleftrightarrow> ok (snd x) \<and> lok i (fst x) \<and> (\<forall>k\<in>fk. row_state i (fst x) k = Some ObjectCopying) \<and>
     (\<forall>k c. lib k = Some c \<longrightarrow> good k \<and> k \<noteq> OwnerMarkerKey \<and>
       placed sha m (row_state i (fst x) k) c (viewA (snd x) k) (viewB (snd x) k))"

lemma objects_okD:
  assumes "objects_ok i sha m lib fk (w, s)"
  shows "ok s" "lok i w" "k \<in> fk \<Longrightarrow> row_state i w k = Some ObjectCopying"
    "lib k = Some c \<Longrightarrow> good k \<and> k \<noteq> OwnerMarkerKey \<and> placed sha m (row_state i w k) c (viewA s k) (viewB s k)"
  using assms by (auto simp: objects_ok_def)

lemma weaken: "objects_ok i sha Untouched lib fk x \<Longrightarrow> objects_ok i sha m lib fk x"
  by (auto simp: objects_ok_def intro: placed_weaken)

text \<open>Steps on the database alone.\<close>

lemma ok_cong: "objects_ok i sha m lib fk (w, s) \<Longrightarrow> row_state i w' = row_state i w \<Longrightarrow> lok i w' \<Longrightarrow> objects_ok i sha m lib fk (w', s)"
  by (simp add: objects_ok_def)

lemma ok_pop: "objects_ok i sha m lib fk (v, s) \<Longrightarrow> objects_ok i sha m lib fk (v\<lparr>w_faults := fs\<rparr>, s)"
  "objects_ok i sha m lib fk (v, s) \<Longrightarrow> objects_ok i sha m lib fk (v\<lparr>m_ctx := cs\<rparr>, s)"
  by (simp_all add: objects_ok_def ledger_ok_def)

lemma ok_db: "(\<And>v s. objects_ok i sha m lib fk (v, s) \<Longrightarrow> objects_ok i sha m lib fk (snd (q v), s)) \<Longrightarrow>
    preserves (objects_ok i sha m lib fk) (db q)"
  by (rule preserves_db) (auto intro: ok_pop)

lemma camp_step:
  assumes "objects_ok i sha m lib fk (w, s)"
    and "\<And>c t. mg_ID (f c) = mg_ID c \<and> mg_SourceDesc (f c) = mg_SourceDesc c \<and> mg_TargetDesc (f c) = mg_TargetDesc c"
    and "j = i \<or> (\<forall>c. P c \<longrightarrow> \<not> terminal_state (mg_State c)) \<or> (\<forall>c. mg_State (f c) = mg_State c)"
  shows "objects_ok i sha m lib fk (snd (update_camp j P f w), s)"
proof -
  have "\<forall>c\<in>set (m_camps (snd (update_camp j P f w))). only_camp i (st_Describe src) (st_Describe dst) c"
    using objects_okD(2) [OF assms(1)] assms(2,3)
    by (intro update_camp_all) (auto simp: ledger_ok_def only_camp_def)
  moreover have "map mg_ID (m_camps (snd (update_camp j P f w))) = map mg_ID (m_camps w)"
    using assms(2) by (simp add: update_camp_def)
  ultimately show ?thesis using assms(1) by (simp add: objects_ok_def ledger_ok_def)
qed

lemma ok_camp_stmts:
  assumes "objects_ok i sha m lib fk (w, s)"
  shows "objects_ok i sha m lib fk (snd (SetStorageMigrationState j st n w), s)"
    "objects_ok i sha m lib fk (snd (SetStorageMigrationError j n w), s)"
    "objects_ok i sha m lib fk (snd (MarkStorageMigrationCutover j w), s)"
    "objects_ok i sha m lib fk (snd (PauseStorageMigration j reason n w), s)"
    "objects_ok i sha m lib fk (snd (ResumeStorageMigration j w), s)"
    "objects_ok i sha m lib fk (snd (AbortStorageMigrationWithCleanup j n w), s)"
    "objects_ok i sha m lib fk (snd (ReleaseStorageMigrationSource j w), s)"
    "objects_ok i sha m lib fk (snd (CancelStorageMigration j w), s)"
    "objects_ok i sha m lib fk (snd (RefreshStorageMigrationCounters j w), s)"
  unfolding camp_stmts by (rule camp_step [OF assms]; auto simp: terminal_state_def)+

lemma ok_worker: "objects_ok i sha m lib fk (w, s) \<Longrightarrow> objects_ok i sha m lib fk (snd (SetStorageMigrationWorker j wk w), s)"
  by (rule ok_cong) (auto simp: ledger_ok_def SetStorageMigrationWorker_def only_camp_def row_state_def comp_def if_distrib cong: if_cong dest: objects_okD(2))

lemma ok_reads:
  assumes "objects_ok i sha m lib fk (w, s)"
  shows "objects_ok i sha m lib fk (snd (GetStorageMigration j w), s)"
    "objects_ok i sha m lib fk (snd (GetActiveStorageMigration w), s)"
    "objects_ok i sha m lib fk (snd (CountUncopiedStorageMigrationObjects j w), s)"
    "objects_ok i sha m lib fk (snd (CountUnfinishedStorageMigrationObjects j w), s)"
    "objects_ok i sha m lib fk (snd (GetInstanceIdentity w), s)"
    "objects_ok i sha m lib fk (snd (GetVideoFileSHA256ByStorageKey k w), s)"
    "objects_ok i sha m lib fk (snd (ListVerifiedStorageMigrationObjects j n w), s)"
    "objects_ok i sha m lib fk (snd (ListDestinationCopiesToRemove j n w), s)"
  using assms by (simp_all add: GetStorageMigration_def GetActiveStorageMigration_def CountUncopiedStorageMigrationObjects_def
    CountUnfinishedStorageMigrationObjects_def GetInstanceIdentity_def GetVideoFileSHA256ByStorageKey_def
    ListVerifiedStorageMigrationObjects_def ListDestinationCopiesToRemove_def)

lemmas ok_rules = preserves_rules ok_db ok_camp_stmts ok_worker ok_reads

text \<open>Steps on the ledger.\<close>

fun row_moves :: "mode \<Rightarrow> object_state option \<Rightarrow> object_state option \<Rightarrow> bool" where
  "row_moves m (Some ObjectVerified) st' \<longleftrightarrow> st' = Some ObjectVerified \<or> st' = Some ObjectSourceDeleted \<and> m \<noteq> Cleaned"
| "row_moves m (Some ObjectSourceDeleted) st' \<longleftrightarrow> st' = Some ObjectSourceDeleted"
| "row_moves m None st' \<longleftrightarrow> st' = None"
| "row_moves m (Some st) st' \<longleftrightarrow> st' \<in> {Some ObjectPending, Some ObjectCopying, Some ObjectFailed}"

lemma row_moves_placed: "row_moves m st st' \<Longrightarrow> placed sha m st c a b \<Longrightarrow> placed sha m st' c a b"
  by (cases "(m, st, st')" rule: row_moves.cases) auto

lemma ok_update:
  assumes "objects_ok i sha m lib fk (w, s)"
    and f: "\<And>o'. ob_Campaign (f o') = ob_Campaign o' \<and> ob_Key (f o') = ob_Key o'"
    and "\<And>o'. o' \<in> set (m_objs w) \<Longrightarrow> ob_Campaign o' = i \<Longrightarrow> P o' \<Longrightarrow>
      row_moves m (Some (ob_State o')) (Some (ob_State (f o'))) \<and> (ob_Key o' \<in> fk \<longrightarrow> ob_State (f o') = ob_State o')"
  shows "objects_ok i sha m lib fk (snd (update_objs P f w), s)"
proof -
  let ?w = "snd (update_objs P f w)"
  have keys: "lok i ?w"
    using objects_okD(2) [OF assms(1)] f by (auto simp: ledger_ok_def update_objs_def comp_def if_distrib cong: if_cong)
  have row: "row_moves m (row_state i w k) (row_state i ?w k) \<and> (k \<in> fk \<longrightarrow> row_state i ?w k = row_state i w k)" for k
  proof (cases "find (\<lambda>o'. ob_Campaign o' = i \<and> ob_Key o' = k) (m_objs w)")
    case None
    then show ?thesis using row_state_update [of f i P w k] f by (simp add: row_state_def)
  next
    case (Some o')
    then have o': "o' \<in> set (m_objs w)" "ob_Campaign o' = i" "ob_Key o' = k"
      by (auto simp: find_Some_iff)
    have "row_moves m (Some st) (Some st)" for st by (cases st) auto
    then show ?thesis
      using row_state_update [of f i P w k] f Some assms(3) [OF o'(1,2)] o'(3) by (auto simp: row_state_def)
  qed
  show ?thesis
    using assms(1) keys row row_moves_placed unfolding objects_ok_def by fastforce
qed

end

lemma find_memD: "find P xs = Some x \<Longrightarrow> x \<in> set xs \<and> P x"
  by (auto simp: find_Some_iff)

lemma distinct_keys_sort: "distinct (map g xs) \<Longrightarrow> distinct (map g (take n (sort_key f (filter P xs))))"
  using inj_on_subset [of g "set xs" "set (filter P xs)"]
  by (auto simp: distinct_map take_map [symmetric] intro!: distinct_take inj_on_subset [of g "set (filter P xs)"] dest: in_set_takeD)

context store_pair
begin

lemma same_row:
  assumes "lok i w" "o1 \<in> set (m_objs w)" "o2 \<in> set (m_objs w)" "ob_Key o1 = ob_Key o2"
  shows "o1 = o2"
  using assms by (auto simp: ledger_ok_def distinct_map inj_on_def)

lemma ok_renew: "objects_ok i sha m lib fk (w, s) \<Longrightarrow> objects_ok i sha m lib fk (snd (RenewStorageMigrationObjectLease k w), s)"
  unfolding RenewStorageMigrationObjectLease_def by (erule ok_update) auto

lemma ok_unclaim:
  assumes "objects_ok i sha m lib fk (w, s)" "k \<notin> fk"
  shows "objects_ok i sha m lib fk (snd (RescheduleStorageMigrationObject k t err w), s)"
    "objects_ok i sha m lib fk (snd (FailStorageMigrationObject k err w), s)"
  unfolding RescheduleStorageMigrationObject_def FailStorageMigrationObject_def
  by (rule ok_update [OF assms(1)]; use assms(2) in auto)+

lemma ok_source_deleted:
  assumes "objects_ok i sha m lib fk (w, s)" "m \<noteq> Cleaned"
  shows "objects_ok i sha m lib fk (snd (MarkStorageMigrationObjectSourceDeleted k w), s)"
proof -
  have "ob_Key o' \<notin> fk" if "o' \<in> set (m_objs w)" "ob_Campaign o' = i" "ob_State o' = ObjectVerified" for o'
    using objects_okD(3) [OF assms(1)] row_state_mem [of w o' i] that objects_okD(2) [OF assms(1)]
    by (auto simp: ledger_ok_def)
  then show ?thesis
    unfolding MarkStorageMigrationObjectSourceDeleted_def by (intro ok_update [OF assms(1)]) (use assms(2) in auto)
qed

lemma ok_expired:
  assumes "objects_ok i sha m lib fk (w, s)" "\<forall>o'\<in>set (m_objs w). ob_Key o' \<in> fk \<longrightarrow> \<not> lease_expired w o'"
  shows "objects_ok i sha m lib fk (snd (SweepExpiredStorageMigrationObjects w), s)"
proof -
  define due where "due = take 1000 (sort_key ob_NextAttemptAt (filter (lease_expired w) (m_objs w)))"
  have late: "d \<in> set (m_objs w) \<and> lease_expired w d" if "d \<in> set due" for d
    using that unfolding due_def by (auto dest: in_set_takeD)
  have due: "ob_State o' = ObjectCopying \<and> ob_Key o' \<notin> fk" if o': "o' \<in> set (m_objs w)" "ob_Key o' \<in> set (map ob_Key due)" for o'
  proof -
    obtain d where d: "d \<in> set due" "ob_Key d = ob_Key o'" using o'(2) by auto
    then have "o' = d" using same_row [OF objects_okD(2) [OF assms(1)] o'(1), of d] late by simp
    then show ?thesis using late [OF d(1)] assms(2) by (auto simp: lease_expired_def)
  qed
  have "objects_ok i sha m lib fk (snd (update_objs (\<lambda>o'. ob_Key o' \<in> set (map ob_Key due))
      (\<lambda>o'. o'\<lparr>ob_State := ObjectPending, ob_Attempts := ob_Attempts o' + 1\<rparr>) w), s)"
    by (rule ok_update [OF assms(1)]) (use due in simp_all)
  then show ?thesis unfolding SweepExpiredStorageMigrationObjects_def Let_def due_def by simp
qed

text \<open>A claim hands out pending rows of this campaign, and no row twice.\<close>

lemma ok_claim:
  assumes "objects_ok i sha m lib fk (w, s)" "ClaimDueStorageMigrationObjects n w = (rows, w')"
  shows "objects_ok i sha m lib (fk \<union> fst ` set rows) (w', s)" "distinct (map fst rows)" "fst ` set rows \<inter> fk = {}"
    "fst ` set rows \<subseteq> Collect good"
proof -
  define due where "due = take n (sort_key (\<lambda>o'. (ob_NextAttemptAt o', ob_Key o')) (filter (claimable_object w) (m_objs w)))"
  note lok = objects_okD(2) [OF assms(1)]
  have rows: "rows = map (\<lambda>o'. (ob_Key o', ob_Campaign o', ob_Attempts o')) due"
    and w': "w' = snd (update_objs (\<lambda>o'. ob_Key o' \<in> set (map ob_Key due))
      (\<lambda>o'. o'\<lparr>ob_State := ObjectCopying, ob_NextAttemptAt := w_now w + lease_Duration\<rparr>) w)"
    using assms(2) by (simp_all add: ClaimDueStorageMigrationObjects_def Let_def due_def)
  have due: "d \<in> set (m_objs w)" "claimable_object w d" if "d \<in> set due" for d
    using that unfolding due_def by (auto dest: in_set_takeD)
  have camp: "ob_Campaign d = i" "ob_State d = ObjectPending" if "d \<in> set due" for d
    using due [OF that] lok
    by (auto simp: claimable_object_def list_ex_iff ledger_ok_def only_camp_def terminal_state_def)
  have state: "row_state i w (ob_Key d) = Some ObjectPending" if "d \<in> set due" for d
    using row_state_mem [of w d i] due [OF that] camp [OF that] lok by (simp add: ledger_ok_def)
  have keys: "fst ` set rows = ob_Key ` set due" unfolding rows by force
  have distinct: "distinct (map ob_Key due)"
    unfolding due_def using lok by (intro distinct_keys_sort) (simp add: ledger_ok_def)
  then show "distinct (map fst rows)" unfolding rows by (simp add: comp_def)
  have out: "ob_Key d \<notin> fk" if "d \<in> set due" for d
    using objects_okD(3) [OF assms(1), of "ob_Key d"] state [OF that] by auto
  then show "fst ` set rows \<inter> fk = {}" unfolding keys by auto
  have "good (ob_Key d)" if "d \<in> set due" for d
    using due(1) [OF that] camp(1) [OF that] lok by (simp add: ledger_ok_def)
  then show "fst ` set rows \<subseteq> Collect good" unfolding keys by auto
  have moved: "objects_ok i sha m lib fk (w', s)" unfolding w'
  proof (rule ok_update [OF assms(1)])
    fix o' assume o': "o' \<in> set (m_objs w)" "ob_Key o' \<in> set (map ob_Key due)"
    then obtain d where d: "d \<in> set due" "ob_Key d = ob_Key o'" by auto
    then have "o' = d" using same_row [OF lok o'(1), of d] due by simp
    then show "row_moves m (Some (ob_State o')) (Some (ob_State (o'\<lparr>ob_State := ObjectCopying, ob_NextAttemptAt := w_now w + lease_Duration\<rparr>))) \<and>
      (ob_Key o' \<in> fk \<longrightarrow> ob_State (o'\<lparr>ob_State := ObjectCopying, ob_NextAttemptAt := w_now w + lease_Duration\<rparr>) = ob_State o')"
      using camp [OF d(1)] out [OF d(1)] by simp
  qed simp
  have "row_state i w' k = Some ObjectCopying" if k: "k \<in> fst ` set rows" for k
  proof -
    obtain d where d: "d \<in> set due" "ob_Key d = k" using k keys by auto
    then obtain o' where o': "find (\<lambda>o'. ob_Campaign o' = i \<and> ob_Key o' = k) (m_objs w) = Some o'"
      using state [OF d(1)] by (auto simp: row_state_def)
    then have "ob_Key o' \<in> ob_Key ` set due" using d by (auto dest: find_memD simp: image_iff)
    then show ?thesis unfolding w' using o' by (subst row_state_update) auto
  qed
  then show "objects_ok i sha m lib (fk \<union> fst ` set rows) (w', s)"
    using moved unfolding objects_ok_def by (metis Un_iff fst_conv)
qed

lemma ok_upsert:
  assumes "objects_ok i sha m lib fk (w, s)" "\<forall>k\<in>set keys. good k \<and> viewA s k \<noteq> None"
  shows "objects_ok i sha m lib fk (snd (UpsertStorageMigrationObjects i keys w), s)"
proof -
  let ?new = "filter (\<lambda>k. k \<notin> set (map ob_Key (m_objs w))) (remdups keys)"
  let ?w = "snd (UpsertStorageMigrationObjects i keys w)"
  have objs: "m_objs ?w = m_objs w @ map (new_object i (w_now w)) ?new" "m_camps ?w = m_camps w"
    by (simp_all add: UpsertStorageMigrationObjects_def Let_def)
  have new: "ob_Key (new_object i t k) = k" "ob_Campaign (new_object i t k) = i" "ob_State (new_object i t k) = ObjectPending" for t k
    by (simp_all add: new_object_def)
  have lok: "lok i ?w"
    using objects_okD(2) [OF assms(1)] assms(2) unfolding ledger_ok_def objs by (auto simp: new comp_def ball_Un)
  have row: "row_state i ?w k = row_state i w k \<or> row_state i w k = None \<and> row_state i ?w k = Some ObjectPending \<and> k \<in> set keys" for k
  proof (cases "row_state i w k")
    case None
    then have none: "find (\<lambda>o'. ob_Campaign o' = i \<and> ob_Key o' = k) (m_objs w) = None" by (simp add: row_state_def)
    have app: "find P (xs @ ys) = (case find P xs of None \<Rightarrow> find P ys | Some x \<Rightarrow> Some x)" for P xs and ys :: "StorageMigrationObject list"
      by (induction xs) auto
    have "find (\<lambda>o'. ob_Campaign o' = i \<and> ob_Key o' = k) (m_objs ?w) =
        find (\<lambda>o'. ob_Campaign o' = i \<and> ob_Key o' = k) (map (new_object i (w_now w)) ?new)"
      unfolding objs app none by simp
    moreover have "ob_State o' = ObjectPending \<and> ob_Key o' \<in> set keys" if "o' \<in> set (map (new_object i (w_now w)) ?new)" for o'
      using that new by auto
    ultimately show ?thesis using None
      by (cases "find (\<lambda>o'. ob_Campaign o' = i \<and> ob_Key o' = k) (map (new_object i (w_now w)) ?new)")
        (auto simp: row_state_def simp del: set_map dest!: find_memD)
  next
    case (Some st)
    have "find P (xs @ ys) = Some x" if "find P xs = Some x" for P x xs and ys :: "StorageMigrationObject list"
      using that by (induction xs) (auto split: if_splits)
    then show ?thesis using Some unfolding row_state_def objs by auto
  qed
  have "placed sha m (row_state i ?w k) c (viewA s k) (viewB s k)" if "lib k = Some c" for k c
    using row [of k] objects_okD(4) [OF assms(1) that] assms(2) by (elim disjE conjE) auto
  moreover have "row_state i ?w k = Some ObjectCopying" if "k \<in> fk" for k
    using row [of k] objects_okD(3) [OF assms(1) that] by auto
  ultimately show ?thesis using assms(1) lok by (simp add: objects_ok_def)
qed

end

end
