(* ===== verification/Migration_Safety.thy ===== *)
theory Migration_Safety
  imports Migration_Ledger
begin

text \<open>
  The invariant of \<open>Migration_Ledger\<close> under the sweeps, the copies, the operator's controls and every
  step of the running system: an object the instance stored and did not delete is held by the source
  or by the destination.
\<close>

section \<open>Sweeps\<close>

declare upsert_chunks.simps [simp del]

lemma preserves_bind_post:
  assumes "\<And>x a x'. P x \<Longrightarrow> m x = (Inr a, x') \<Longrightarrow> P x' \<and> Q a x'" "\<And>x e x'. P x \<Longrightarrow> m x = (Inl e, x') \<Longrightarrow> P x'"
    and "\<And>a x. P x \<Longrightarrow> Q a x \<Longrightarrow> P (snd (k a x))"
  shows "preserves P (bindE m k)"
  unfolding preserves_def
proof (intro allI impI)
  fix x assume x: "P x"
  obtain r y where y: "m x = (r, y)" by (metis surj_pair)
  show "P (snd (bindE m k x))"
  proof (cases r)
    case (Inl e)
    then show ?thesis using assms(2) [OF x] y by (simp add: bindE_def)
  next
    case (Inr a)
    then show ?thesis using assms(1) [OF x] assms(3) [of y a] y by (simp add: bindE_def)
  qed
qed

text \<open>The loop that deletes through a handle, for an invariant that follows the remaining keys.\<close>

lemma delete_keys_inv:
  assumes "J ks x"
    and ctx: "\<And>ks w s cs. J ks (w, s) \<Longrightarrow> J ks (w\<lparr>m_ctx := cs\<rparr>, s)"
    and pop: "\<And>ks w s fs. J ks (w, s) \<Longrightarrow> J ks (w\<lparr>w_faults := fs\<rparr>, s)"
    and del: "\<And>k ks w s r s'. J (k # ks) (w, s) \<Longrightarrow> st_Delete h k s = (r, s') \<Longrightarrow> J (k # ks) (w, s')"
    and stmt: "\<And>k ks w s. J (k # ks) (w, s) \<Longrightarrow> J ks (snd (stmt k w), s)"
    and tail: "\<And>k ks x. J (k # ks) x \<Longrightarrow> J ks x"
  shows "J [] (snd (delete_keys h stmt ks n x))"
  using assms(1)
proof (induction ks arbitrary: n x)
  case Nil
  then show ?case by (simp add: retE_def)
next
  case (Cons k ks)
  have drop: "J [] y" if "J l y" for l y using that by (induction l) (auto intro: tail)
  have "J (k # ks) (snd (ctx_Err x :: ('b mig_error + unit) \<times> _))"
    using preservesD [OF preserves_ctx [of "J (k # ks)"] Cons.prems] ctx by blast
  moreover obtain r y where y: "(ctx_Err x :: ('b mig_error + unit) \<times> _) = (r, y)" by (metis surj_pair)
  ultimately have J1: "J (k # ks) y" by simp
  obtain d z where z: "(store_call (st_Delete h k) y :: ('b mig_error + unit) \<times> _) = (d, z)" by (metis surj_pair)
  have J2: "J (k # ks) z"
    using z J1 del [of k ks "fst y" "snd y"] by (auto simp: store_call_def split: prod.splits sum.splits)
  obtain q v where v: "(db (stmt k) z :: ('b mig_error + unit) \<times> _) = (q, v)" by (metis surj_pair)
  have J3: "J ks v"
  proof (cases rule: repo_cases [of "fst z" "stmt k"])
    case (fault fs)
    then show ?thesis using v pop [of "k # ks" "fst z" "snd z"] J2 by (auto simp: db_def intro: tail)
  next
    case (run a w')
    then show ?thesis
      using v stmt [OF pop [of "k # ks" "fst z" "snd z" "tl (w_faults (fst z))"]] J2 by (auto simp: db_def)
  qed
  have skip: "J [] (snd (delete_keys h stmt ks n' z))" for n' using Cons.IH [OF tail [OF J2]] .
  have go: "J [] (snd (delete_keys h stmt ks n' v))" for n' using Cons.IH [OF J3] .
  show ?case
    using y z v drop [OF J1] drop [OF J2] drop [OF J3] skip go
    by (auto simp: bindE_def attempt_def catchE_def split: sum.splits)
qed

context store_pair
begin

lemma ok_views:
  assumes "objects_ok i sha m lib fk (w, s)" "ok s'"
    and "\<And>k. good k \<Longrightarrow> k \<noteq> OwnerMarkerKey \<Longrightarrow> viewA s' k = viewA s k \<and> viewB s' k = viewB s k"
  shows "objects_ok i sha m lib fk (w, s')"
  using assms by (simp add: objects_ok_def)

lemma open_effect:
  assumes "ok s" "h = src \<or> h = dst" "st_Open h k s = (r, s')"
  shows "ok s' \<and> viewA s' = viewA s \<and> viewB s' = viewB s"
  using assms(2)
proof
  assume "h = src"
  then show ?thesis using A.open_keeps [OF assms(1), of k r s'] apartA [OF effectI(1) assms(1), of k] assms(3) by simp
next
  assume "h = dst"
  then show ?thesis using B.open_keeps [OF assms(1), of k r s'] apartB [OF effectI(1) assms(1), of k] assms(3) by simp
qed

lemma list_effect:
  assumes "ok s" "st_ListAllKeys src = Some ls" "ls s = (r, s')"
  shows "ok s' \<and> viewA s' = viewA s \<and> viewB s' = viewB s"
  using A.list_keeps [OF assms] apartA [OF effectI(5) [OF assms(2)] assms(1)] assms(3) by simp

lemma upsert_chunks_ok:
  "objects_ok i sha m lib fk x \<Longrightarrow> \<forall>k\<in>set keys. good k \<and> viewA (snd x) k \<noteq> None \<Longrightarrow>
     objects_ok i sha m lib fk (snd ((upsert_chunks i keys n :: ('s, 'f, nat) mig_op) x))"
proof (induction i keys n arbitrary: x rule: upsert_chunks.induct)
  case (1 j keys n)
  show ?case
  proof (cases "keys = []")
    case True
    then show ?thesis using 1(2) by (simp add: upsert_chunks.simps retE_def)
  next
    case False
    let ?q = "UpsertStorageMigrationObjects j (take enumerateChunk keys)"
    obtain r y where y: "(db ?q :: ('s, 'f, nat) mig_op) x = (r, y)" by (metis surj_pair)
    have views: "snd y = snd x" using y by (auto simp: db_def split: prod.splits sum.splits)
    let ?P = "\<lambda>x'. objects_ok j sha m lib fk x' \<and> snd x' = snd x"
    have "preserves ?P (db ?q :: ('s, 'f, nat) mig_op)"
    proof (rule preserves_db)
      show "?P (snd (?q v), s)" if "?P (v, s)" for v s
      proof -
        have "\<forall>k\<in>set (take enumerateChunk keys). good k \<and> viewA s k \<noteq> None"
          using that 1(3) by (auto dest: in_set_takeD)
        then show ?thesis using that ok_upsert [of j sha m lib fk v s "take enumerateChunk keys"] by (auto simp del: not_None_eq)
      qed
    qed (auto intro: ok_pop)
    from preservesD [OF this, of x] have oky: "objects_ok j sha m lib fk y" using 1(2) y by simp
    show ?thesis
    proof (cases r)
      case (Inl e)
      then show ?thesis using False y oky by (simp add: upsert_chunks.simps bindE_def)
    next
      case (Inr a)
      have "\<forall>k\<in>set (drop enumerateChunk keys). good k \<and> viewA (snd y) k \<noteq> None"
        using 1(3) views by (auto dest: in_set_dropD)
      from 1(1) [OF False oky this, of a]
      have "objects_ok j sha m lib fk (snd ((upsert_chunks j (drop enumerateChunk keys) (n + a) :: ('s, 'f, nat) mig_op) y))" .
      then show ?thesis using False y Inr by (subst upsert_chunks.simps) (simp add: bindE_def)
    qed
  qed
qed

lemma enumerate_ok:
  assumes "sv_primary sv = src"
  shows "preserves (objects_ok i sha m lib fk) (enumerate sv i)"
proof (cases "st_ListAllKeys src")
  case None
  then show ?thesis using assms by (simp add: enumerate_def preserves_rules)
next
  case (Some ls)
  have "preserves (objects_ok i sha m lib fk) (bindE (store_call ls) (\<lambda>keys. upsert_chunks i keys 0))"
  proof (rule preserves_bind_post [where Q = "\<lambda>keys x. \<forall>k\<in>set keys. good k \<and> viewA (snd x) k \<noteq> None"])
    fix x keys x' assume x: "objects_ok i sha m lib fk x" "store_call ls x = (Inr keys, x')"
    obtain w s where ws: "x = (w, s)" by fastforce
    then obtain s' where s': "ls s = (Inr keys, s')" "x' = (w, s')"
      using x(2) by (auto simp: store_call_def split: prod.splits sum.splits)
    have ok: "ok s" using x(1) ws by (simp add: objects_ok_def)
    note eff = list_effect [OF ok Some s'(1)]
    then show "objects_ok i sha m lib fk x' \<and> (\<forall>k\<in>set keys. good k \<and> viewA (snd x') k \<noteq> None)"
      using ok_views [of i sha m lib fk w s s'] x(1) ws s' A.list_held [OF ok Some s'(1)] by (simp add: list_all_iff)
  next
    fix x e x' assume x: "objects_ok i sha m lib fk x" "store_call ls x = (Inl e, x')"
    obtain w s where ws: "x = (w, s)" by fastforce
    then obtain e' s' where s': "ls s = (Inl e', s')" "x' = (w, s')"
      using x(2) by (auto simp: store_call_def split: prod.splits sum.splits)
    have ok: "ok s" using x(1) ws by (simp add: objects_ok_def)
    show "objects_ok i sha m lib fk x'"
      using list_effect [OF ok Some s'(1)] ok_views [of i sha m lib fk w s s'] x(1) ws s' by simp
  qed (use upsert_chunks_ok in blast)
  then show ?thesis using assms Some by (simp add: enumerate_def)
qed

lemma small_ok:
  "preserves (objects_ok i sha m lib fk) (setState j st)" "preserves (objects_ok i sha m lib fk) (note_error j n)"
  "preserves (objects_ok i sha m lib fk) (refresh j)" "preserves (objects_ok i sha m lib fk) (stampWorker sv j)"
  "preserves (objects_ok i sha m lib fk) (reconcileTargetWritability sv c)"
  "preserves (objects_ok i sha m lib fk) (maybeBeginDeletingSource sv c)"
  unfolding setState_def note_error_def refresh_def stampWorker_def reconcileTargetWritability_def maybeBeginDeletingSource_def
  by (intro ok_rules; assumption)+

end

lemma verified_keys_rows:
  assumes "distinct (map ob_Key (m_objs w))"
  shows "distinct (verified_keys i w)" "k \<in> set (verified_keys i w) \<longleftrightarrow> row_state i w k = Some ObjectVerified"
proof -
  show "distinct (verified_keys i w)" using assms by (simp add: verified_keys_def distinct_map_filter)
  show "k \<in> set (verified_keys i w) \<longleftrightarrow> row_state i w k = Some ObjectVerified"
  proof
    assume "k \<in> set (verified_keys i w)"
    then obtain o' where "o' \<in> set (m_objs w)" "ob_Campaign o' = i" "ob_Key o' = k" "ob_State o' = ObjectVerified"
      by (auto simp: verified_keys_def)
    then show "row_state i w k = Some ObjectVerified" using row_state_mem [OF assms] by metis
  qed (auto simp: verified_keys_def row_state_def dest: find_memD)
qed

context store_pair
begin

text \<open>What the two deleting loops keep: the invariant, and that the keys still to do are verified.\<close>

definition to_do :: "nat \<Rightarrow> (string \<Rightarrow> string) \<Rightarrow> mode \<Rightarrow> (string \<Rightarrow> string option) \<Rightarrow> string set \<Rightarrow> string list \<Rightarrow> mig_world \<times> 's \<Rightarrow> bool" where
  "to_do i sha m lib fk ks x \<longleftrightarrow> objects_ok i sha m lib fk x \<and> distinct ks \<and>
     (\<forall>k\<in>set ks. row_state i (fst x) k = Some ObjectVerified)"

lemma to_doD: "to_do i sha m lib fk (k # ks) (w, s) \<Longrightarrow> objects_ok i sha m lib fk (w, s) \<and> row_state i w k = Some ObjectVerified \<and>
    k \<notin> set ks \<and> k \<notin> fk \<and> good k"
  by (auto simp: to_do_def objects_ok_def ledger_ok_def row_state_def dest: find_memD)

lemma to_do_pop: "to_do i sha m lib fk ks (w, s) \<Longrightarrow> to_do i sha m lib fk ks (w\<lparr>w_faults := fs\<rparr>, s)"
  "to_do i sha m lib fk ks (w, s) \<Longrightarrow> to_do i sha m lib fk ks (w\<lparr>m_ctx := cs\<rparr>, s)"
  "to_do i sha m lib fk (k # ks) x \<Longrightarrow> to_do i sha m lib fk ks x"
  by (auto simp: to_do_def intro: ok_pop)

lemma placed_other:
  "placed sha Cleaned (Some ObjectVerified) c a b \<Longrightarrow> placed sha Cleaned (Some ObjectVerified) c a b'"
  "placed sha Emptied (Some ObjectVerified) c a b \<Longrightarrow> placed sha Emptied (Some ObjectVerified) c a' b"
  by auto

lemma drop_ok:
  assumes "objects_ok i sha m lib fk (w, s)" "row_state i w k = Some ObjectVerified" "good k" "st_Delete h k s = (r, s')"
    and "h = dst \<and> m = Cleaned \<or> h = src \<and> m = Emptied"
  shows "objects_ok i sha m lib fk (w, s')"
proof -
  note ok = objects_okD(1) [OF assms(1)]
  have eff: "ok s' \<and> (\<forall>k'. good k' \<longrightarrow> k' \<noteq> k \<longrightarrow> viewA s' k' = viewA s k' \<and> viewB s' k' = viewB s k') \<and>
      (m = Cleaned \<longrightarrow> viewA s' k = viewA s k) \<and> (m = Emptied \<longrightarrow> viewB s' k = viewB s k)"
    using assms(5)
  proof
    assume h: "h = dst \<and> m = Cleaned"
    then show ?thesis
      using B.delete_frame [OF ok assms(3), of r s'] apartB [OF effectI(4) ok, of k] assms(4) by simp
  next
    assume h: "h = src \<and> m = Emptied"
    then show ?thesis
      using A.delete_frame [OF ok assms(3), of r s'] apartA [OF effectI(4) ok, of k] assms(4) by simp
  qed
  have "placed sha m (row_state i w k') c (viewA s' k') (viewB s' k')" if "lib k' = Some c" for k' c
  proof (cases "k' = k")
    case True
    then show ?thesis using objects_okD(4) [OF assms(1) that] assms(2,5) eff placed_other by auto
  next
    case False
    then show ?thesis using objects_okD(4) [OF assms(1) that] eff by simp
  qed
  then show ?thesis using assms(1) eff by (simp add: objects_ok_def)
qed

lemma forget_row:
  assumes "objects_ok i sha Cleaned lib fk (w, s)" "row_state i w k = Some ObjectVerified"
  shows "objects_ok i sha Cleaned lib fk (snd (DeleteStorageMigrationObject k w), s)"
    "k' \<noteq> k \<Longrightarrow> row_state i (snd (DeleteStorageMigrationObject k w)) k' = row_state i w k'"
proof -
  let ?w = "snd (DeleteStorageMigrationObject k w)"
  have objs: "m_objs ?w = filter (\<lambda>o'. ob_Key o' \<noteq> k) (m_objs w)" "m_camps ?w = m_camps w"
    by (simp_all add: DeleteStorageMigrationObject_def)
  have find: "find P (filter Q xs) = find P xs" if "\<And>x. P x \<Longrightarrow> Q x" for P Q and xs :: "StorageMigrationObject list"
    using that by (induction xs) auto
  show other: "row_state i ?w k' = row_state i w k'" if "k' \<noteq> k" for k'
    unfolding row_state_def objs using that by (subst find) auto
  have gone: "row_state i ?w k = None"
    unfolding row_state_def objs by (auto simp: find_None_iff)
  have lok: "lok i ?w"
    using objects_okD(2) [OF assms(1)] unfolding ledger_ok_def objs by (auto simp: distinct_map_filter)
  have "placed sha Cleaned (row_state i ?w k') c (viewA s k') (viewB s k')" if "lib k' = Some c" for k' c
    using objects_okD(4) [OF assms(1) that] assms(2) gone other [of k'] by (cases "k' = k") auto
  moreover have "row_state i ?w k' = Some ObjectCopying" if "k' \<in> fk" for k'
    using objects_okD(3) [OF assms(1) that] assms(2) other [of k'] by (cases "k' = k") auto
  ultimately show "objects_ok i sha Cleaned lib fk (?w, s)" using assms(1) lok by (simp add: objects_ok_def)
qed

lemma mark_row:
  assumes "objects_ok i sha Emptied lib fk (w, s)" "k' \<noteq> k"
  shows "row_state i (snd (MarkStorageMigrationObjectSourceDeleted k w)) k' = row_state i w k'"
  unfolding MarkStorageMigrationObjectSourceDeleted_def
  using assms(2) by (subst row_state_update) (auto simp: row_state_def intro!: option.map_cong dest!: find_memD simp: option.set_map)

lemma cleanup_loop:
  assumes "to_do i sha Cleaned lib fk ks x"
  shows "objects_ok i sha Cleaned lib fk (snd (delete_keys dst DeleteStorageMigrationObject ks n x))"
proof -
  have "to_do i sha Cleaned lib fk [] (snd (delete_keys dst DeleteStorageMigrationObject ks n x))"
  proof (rule delete_keys_inv [where J = "to_do i sha Cleaned lib fk", OF assms])
    fix k ks w s r s' assume J: "to_do i sha Cleaned lib fk (k # ks) (w, s)"
    show "to_do i sha Cleaned lib fk (k # ks) (w, s')" if "st_Delete dst k s = (r, s')"
      using drop_ok [of i sha Cleaned lib fk w s k dst r s'] that J to_doD [OF J] by (simp add: to_do_def)
    show "to_do i sha Cleaned lib fk ks (snd (DeleteStorageMigrationObject k w), s)"
      using forget_row [of i sha lib fk w s k] J to_doD [OF J] unfolding to_do_def by (metis distinct.simps(2) fst_conv list.set_intros(2))
  qed (auto intro: to_do_pop)
  then show ?thesis by (simp add: to_do_def)
qed

lemma empty_loop:
  assumes "to_do i sha Emptied lib fk ks x"
  shows "objects_ok i sha Emptied lib fk (snd (delete_keys src MarkStorageMigrationObjectSourceDeleted ks n x))"
proof -
  have "to_do i sha Emptied lib fk [] (snd (delete_keys src MarkStorageMigrationObjectSourceDeleted ks n x))"
  proof (rule delete_keys_inv [where J = "to_do i sha Emptied lib fk", OF assms])
    fix k ks w s r s' assume J: "to_do i sha Emptied lib fk (k # ks) (w, s)"
    show "to_do i sha Emptied lib fk (k # ks) (w, s')" if "st_Delete src k s = (r, s')"
      using drop_ok [of i sha Emptied lib fk w s k src r s'] that J to_doD [OF J] by (simp add: to_do_def)
    show "to_do i sha Emptied lib fk ks (snd (MarkStorageMigrationObjectSourceDeleted k w), s)"
      using ok_source_deleted [of i sha Emptied lib fk w s k] mark_row [of i sha lib fk w s _ k] J to_doD [OF J]
      unfolding to_do_def by (metis distinct.simps(2) fst_conv list.set_intros(2) mode.distinct(5))
  qed (auto intro: to_do_pop)
  then show ?thesis by (simp add: to_do_def)
qed

text \<open>The listing of a batch.\<close>

lemma batch_rows:
  assumes "objects_ok i sha m lib fk x" "db q x = (Inr keys, x')" "\<And>w. q w = (take n (verified_keys i w), w)"
  shows "to_do i sha m lib fk keys x'"
proof -
  obtain w s where x: "x = (w, s)" by fastforce
  obtain fs where fs: "x' = (w\<lparr>w_faults := fs\<rparr>, s)" "keys = take n (verified_keys i (w\<lparr>w_faults := fs\<rparr>))"
    using assms(2,3) x by (cases rule: repo_cases [of w q]) (auto simp: db_def)
  have ok: "objects_ok i sha m lib fk (w\<lparr>w_faults := fs\<rparr>, s)" using assms(1) x ok_pop by blast
  then have "distinct (map ob_Key (m_objs (w\<lparr>w_faults := fs\<rparr>)))"
    by (simp add: objects_ok_def ledger_ok_def)
  note rows = verified_keys_rows(1) [OF this, of i] verified_keys_rows(2) [OF this, of _ i]
  show ?thesis using ok rows fs by (auto simp: to_do_def dest: in_set_takeD)
qed

end

lemma topology_handles:
  assumes "process src dst sha sv" "sv_target sv = Some t" "mg_SourceDesc c = st_Describe src" "mg_TargetDesc c = st_Describe dst"
  shows "topologyFor sv c = TopologyForward \<Longrightarrow> sv_primary sv = src \<and> t = dst"
    and "topologyFor sv c = TopologySwapped \<Longrightarrow> sv_primary sv = dst \<and> t = src"
  using assms by (auto simp: process_def topologyFor_def Describe_def Let_def split: if_splits)

lemma preserves_bind_known:
  assumes "preserves P m" "\<And>x a x'. P x \<Longrightarrow> m x = (Inr a, x') \<Longrightarrow> Q a x'" "\<And>a x. Q a x \<Longrightarrow> P (snd (k a x))"
  shows "preserves P (bindE m k)"
proof (rule preserves_bind_post [where Q = Q])
  fix x r x' assume "P x"
  then have "P (snd (m x))" by (rule preservesD [OF assms(1)])
  then show "m x = (Inl r, x') \<Longrightarrow> P x'" by simp
next
  fix x a x' assume "P x" "m x = (Inr a, x')"
  then show "P x' \<and> Q a x'" using preservesD [OF assms(1)] assms(2) by (metis snd_conv)
qed (use assms(3) in blast)

context store_pair
begin

lemma adopt_ok:
  assumes "sv_primary sv = dst"
  shows "preserves (objects_ok i sha m lib fk) (adoptDestination sv c)"
proof -
  have read: "ok s' \<and> viewA s' = viewA s \<and> viewB s' = viewB s" if "ok s" "ReadOwnerMarker (st_backend dst) s = (r, s')" for s r s'
    using that open_effect [OF that(1), of dst OwnerMarkerKey]
    by (auto simp: ReadOwnerMarker_def split: prod.splits sum.splits if_splits)
  have wr: "ok s' \<and> viewA s' = viewA s \<and> (\<forall>k. good k \<longrightarrow> k \<noteq> OwnerMarkerKey \<longrightarrow> viewB s' k = viewB s k)"
    if "ok s" "WriteOwnerMarker (st_backend dst) v s = (r, s')" for s v r s'
    using that B.mark_frame [OF that(1) marker_good, of "TrimSpace v"] apartB [OF effectI(3) that(1), of OwnerMarkerKey "TrimSpace v"]
    by (auto simp: WriteOwnerMarker_def split: prod.splits sum.splits if_splits)
  let ?k = "\<lambda>v x. (case ReadOwnerMarker (st_backend (sv_primary sv)) (snd x) of
           (Inl _, s) \<Rightarrow> (Inr (), (fst x, s))
         | (Inr (Some _), s) \<Rightarrow> (Inr (), (fst x, s))
         | (Inr None, s) \<Rightarrow> (Inr (), (fst x, snd (WriteOwnerMarker (st_backend (sv_primary sv)) v s))))"
  have "preserves (objects_ok i sha m lib fk) (?k v)" for v
    unfolding preserves_def
  proof (intro allI impI)
    fix x assume x: "objects_ok i sha m lib fk x"
    obtain w s where ws: "x = (w, s)" by fastforce
    obtain r s1 where r: "ReadOwnerMarker (st_backend dst) s = (r, s1)" by fastforce
    obtain r2 s2 where r2: "WriteOwnerMarker (st_backend dst) v s1 = (r2, s2)" by fastforce
    have ok: "ok s" using x ws by (simp add: objects_ok_def)
    note R = read [OF ok r] and W = wr [OF conjunct1 [OF read [OF ok r]] r2]
    have "objects_ok i sha m lib fk (w, s1)" "objects_ok i sha m lib fk (w, s2)"
      using ok_views [of i sha m lib fk w s] x ws R W by simp_all
    then show "objects_ok i sha m lib fk (snd (?k v x))"
      using ws r r2 assms by (auto split: sum.splits option.splits)
  qed
  note k = this
  show ?thesis unfolding adoptDestination_def by (intro ok_rules k; assumption)
qed

lemma listed_rows:
  assumes "objects_ok i sha m lib fk x"
  shows "db (ListVerifiedStorageMigrationObjects i n) x = (Inr keys, x') \<Longrightarrow> to_do i sha m lib fk keys x'"
    "db (ListDestinationCopiesToRemove i n) x = (Inr keys, x') \<Longrightarrow> to_do i sha m lib fk keys x'"
  by (erule batch_rows [OF assms], simp add: ListVerifiedStorageMigrationObjects_def ListDestinationCopiesToRemove_def)+

lemma abort_ok:
  assumes "mg_ID c = i"
  shows "preserves (objects_ok i sha Cleaned lib fk) (abortCleanupBatch dst c)"
proof -
  let ?rest = "\<lambda>keys. bindE (delete_keys dst DeleteStorageMigrationObject keys 0) (\<lambda>removed.
     if length keys = deleteBatch \<or> removed < length keys then retE ()
     else bindE (db (CancelStorageMigration (mg_ID c))) (\<lambda>_. retE ()))"
  have fin: "preserves (objects_ok i sha Cleaned lib fk) (bindE (db (CancelStorageMigration (mg_ID c))) (\<lambda>_. retE ()))"
    by (intro ok_rules; assumption)
  have "objects_ok i sha Cleaned lib fk (snd (?rest keys x))" if "to_do i sha Cleaned lib fk keys x" for keys x
    using cleanup_loop [OF that, of 0] fin preservesD [OF fin]
    by (cases "delete_keys dst DeleteStorageMigrationObject keys 0 x") (auto simp: bindE_def retE_def split: sum.splits)
  note rest = this [unfolded assms]
  have "preserves (objects_ok i sha Cleaned lib fk)
      (bindE (db (ListDestinationCopiesToRemove (mg_ID c) deleteBatch)) ?rest)"
    unfolding assms
  proof (rule preserves_bind_known [where Q = "to_do i sha Cleaned lib fk"])
    show "preserves (objects_ok i sha Cleaned lib fk) (db (ListDestinationCopiesToRemove i deleteBatch))"
      by (intro ok_rules; assumption)
  qed (rule listed_rows(2) rest; assumption)+
  then show ?thesis unfolding abortCleanupBatch_def by (intro preserves_guardE)
qed

lemma empty_ok:
  assumes "mg_ID c = i" "sv_primary sv = dst"
  shows "preserves (objects_ok i sha Emptied lib fk) (deleteSourceBatch sv src c)"
proof -
  let ?fin = "bindE (refresh i) (\<lambda>_. bindE (db (CountUnfinishedStorageMigrationObjects i)) (\<lambda>left.
     if left > 0 then retE () else bindE (adoptDestination sv c) (\<lambda>_. setState i StateDone)))"
  let ?rest = "\<lambda>keys. bindE (delete_keys src MarkStorageMigrationObjectSourceDeleted keys 0) (\<lambda>_. ?fin)"
  have fin: "preserves (objects_ok i sha Emptied lib fk) ?fin"
    by (intro ok_rules small_ok adopt_ok assms(2); assumption)
  have "objects_ok i sha Emptied lib fk (snd (?rest keys x))" if "to_do i sha Emptied lib fk keys x" for keys x
    using empty_loop [OF that, of 0] preservesD [OF fin]
    by (cases "delete_keys src MarkStorageMigrationObjectSourceDeleted keys 0 x") (auto simp: bindE_def [of "delete_keys _ _ _ _"] split: sum.splits)
  note rest = this
  have "preserves (objects_ok i sha Emptied lib fk)
      (bindE (db (ListVerifiedStorageMigrationObjects i deleteBatch)) ?rest)"
  proof (rule preserves_bind_known [where Q = "to_do i sha Emptied lib fk"])
    show "preserves (objects_ok i sha Emptied lib fk) (db (ListVerifiedStorageMigrationObjects i deleteBatch))"
      by (intro ok_rules; assumption)
  qed (rule listed_rows(1) rest; assumption)+
  then show ?thesis unfolding deleteSourceBatch_def assms(1) by (intro preserves_guardE)
qed

text \<open>The three kinds of sweep, by the state of the campaign that was read.\<close>

definition sweeping :: "nat \<Rightarrow> (string \<Rightarrow> string) \<Rightarrow> ('s, 'e) mig_Service \<Rightarrow> ('s, 'e) Store \<Rightarrow> StorageMigration \<Rightarrow> bool" where
  "sweeping i sha sv t c \<longleftrightarrow> process src dst sha sv \<and> sv_target sv = Some t \<and> mg_ID c = i \<and>
     mg_SourceDesc c = st_Describe src \<and> mg_TargetDesc c = st_Describe dst"

lemma sweep_handles:
  assumes "sweeping i sha sv t c"
  shows "topologyFor sv c = TopologyForward \<Longrightarrow> sv_primary sv = src \<and> t = dst"
    and "topologyFor sv c = TopologySwapped \<Longrightarrow> sv_primary sv = dst \<and> t = src"
  using topology_handles [of src dst sha sv t c] assms by (simp_all add: sweeping_def)

lemma sweep_quiet:
  assumes "sweeping i sha sv t c" "mg_State c \<noteq> StateAborting" "mg_State c \<noteq> StateDeletingSource"
  shows "preserves (objects_ok i sha m lib fk) (sweep_act sv t c)"
proof -
  have id: "mg_ID c = i" using assms(1) by (simp add: sweeping_def)
  have forward: "preserves (objects_ok i sha m lib fk) (sweepForward sv t c)" if "topologyFor sv c = TopologyForward"
  proof -
    have "sv_primary sv = src" using sweep_handles(1) [OF assms(1) that] by simp
    note en = enumerate_ok [OF this]
    have "preserves (objects_ok i sha m lib fk) (reconcile sv c)"
      unfolding reconcile_def id by (intro ok_rules small_ok en; assumption)
    then show ?thesis
      using assms(2,3) unfolding sweepForward_def id by (cases "mg_State c") (simp_all, (intro ok_rules small_ok en; assumption)+)
  qed
  have swapped: "preserves (objects_ok i sha m lib fk) (sweepSwapped sv t c)"
    using assms(2,3) unfolding sweepSwapped_def by (cases "mg_State c") (simp_all, (intro ok_rules small_ok; assumption)+)
  show ?thesis unfolding sweep_act_def
    by (intro preserves_bindE small_ok, cases "topologyFor sv c")
      (simp_all add: swapped small_ok, intro preserves_bindE small_ok preserves_if preserves_retE forward)
qed

lemma sweep_aborting:
  assumes "sweeping i sha sv t c" "mg_State c = StateAborting"
  shows "preserves (objects_ok i sha Cleaned lib fk) (sweep_act sv t c)"
proof -
  have id: "mg_ID c = i" using assms(1) by (simp add: sweeping_def)
  have "preserves (objects_ok i sha Cleaned lib fk) (sweepForward sv t c)" if "topologyFor sv c = TopologyForward"
  proof -
    have "t = dst" using sweep_handles(1) [OF assms(1) that] by simp
    then show ?thesis using assms(2) abort_ok [OF id] by (simp add: sweepForward_def)
  qed
  moreover have "preserves (objects_ok i sha Cleaned lib fk) (sweepSwapped sv t c)"
    using assms(2) small_ok(2) by (simp add: sweepSwapped_def)
  ultimately show ?thesis unfolding sweep_act_def
    by (intro preserves_bindE small_ok, cases "topologyFor sv c")
      (simp_all add: small_ok, intro preserves_bindE small_ok preserves_if preserves_retE)
qed

lemma sweep_deleting:
  assumes "sweeping i sha sv t c" "mg_State c = StateDeletingSource"
  shows "preserves (objects_ok i sha Emptied lib fk) (sweep_act sv t c)"
proof -
  have id: "mg_ID c = i" using assms(1) by (simp add: sweeping_def)
  have "preserves (objects_ok i sha Emptied lib fk) (sweepSwapped sv t c)" if "topologyFor sv c = TopologySwapped"
  proof -
    have "sv_primary sv = dst \<and> t = src" using sweep_handles(2) [OF assms(1) that] .
    then show ?thesis using assms(2) empty_ok [OF id, of sv] by (simp add: sweepSwapped_def)
  qed
  moreover have "preserves (objects_ok i sha Emptied lib fk) (sweepForward sv t c)"
    using assms(2) small_ok(2) by (simp add: sweepForward_def)
  ultimately show ?thesis unfolding sweep_act_def
    by (intro preserves_bindE small_ok, cases "topologyFor sv c")
      (simp_all add: small_ok, intro preserves_bindE small_ok preserves_if preserves_retE)
qed

end

section \<open>Copies\<close>

context store_pair
begin

lemma lok_update:
  assumes "lok i w" "\<And>o'. ob_Campaign (f o') = ob_Campaign o' \<and> ob_Key (f o') = ob_Key o'"
  shows "lok i (snd (update_objs P f w))"
  using assms by (auto simp: ledger_ok_def update_objs_def comp_def if_distrib cong: if_cong)

lemma logged_ok:
  assumes "objects_ok i sha m lib fk x" "\<And>v s. objects_ok i sha m lib fk (v, s) \<Longrightarrow> s = snd x \<Longrightarrow> row_state i v = row_state i (fst x) \<Longrightarrow> lok i v \<Longrightarrow>
      objects_ok i sha m lib fk' (snd (q v), s)" "fk' \<subseteq> fk"
  shows "objects_ok i sha m lib fk' (logged q x)"
proof -
  obtain w s where x: "x = (w, s)" by fastforce
  have sub: "objects_ok i sha m lib fk' y" if "objects_ok i sha m lib fk y" for y
    using that assms(3) by (auto simp: objects_ok_def)
  show ?thesis
  proof (cases rule: repo_cases [of w q])
    case (fault fs)
    then show ?thesis
      using x sub [OF ok_pop(1)] assms(1) by (auto simp: logged_def ignoreE_def db_def)
  next
    case (run a w')
    let ?v = "w\<lparr>w_faults := tl (w_faults w)\<rparr>"
    have ok: "objects_ok i sha m lib fk (?v, s)" using assms(1) x ok_pop(1) by blast
    have "objects_ok i sha m lib fk' (snd (q ?v), s)"
      by (rule assms(2) [OF ok]) (use x objects_okD(2) [OF ok] in simp_all)
    then show ?thesis using run x by (auto simp: logged_def ignoreE_def db_def)
  qed
qed

text \<open>Losing a claim forgets nothing: the object is still in the source.\<close>

lemma ok_less: "objects_ok i sha m lib fk x \<Longrightarrow> fk' \<subseteq> fk \<Longrightarrow> objects_ok i sha m lib fk' x"
  by (auto simp: objects_ok_def)

text \<open>
  A copy reads the source, writes the destination under its own key and reads that back; whatever
  the write left, the object is still in the source, and a digest that matches puts it in both.
\<close>

lemma copy_effect:
  assumes "objects_ok i sha m lib fk x" "k \<in> fk" "good k" "sv_primary sv = src" "sv_sha256 sv = sha"
    and "copyAndVerify sv dst k x = (res, x')"
  shows "objects_ok i sha m lib fk x'"
    and "res = Inr (digest, n) \<Longrightarrow> lib k = Some c \<Longrightarrow> same sha c (viewA (snd x') k) \<and> same sha c (viewB (snd x') k)"
proof -
  obtain w s where x: "x = (w, s)" by fastforce
  note ok = objects_okD(1) [OF assms(1) [unfolded x]]
  have row: "row_state i w k = Some ObjectCopying" using assms(1,2) x by (simp add: objects_ok_def)
  obtain op s1 where open1: "st_Open src k s = (op, s1)" by fastforce
  note e1 = open_effect [OF ok disjI1 [OF refl] open1]
  have ok1: "objects_ok i sha m lib fk (w, s1)" using ok_views [OF assms(1) [unfolded x]] e1 by simp
  have both: "objects_ok i sha m lib fk x' \<and> (\<forall>digest n. res = Inr (digest, n) \<longrightarrow>
      (\<exists>body d. viewA (snd x') k = Some body \<and> viewB (snd x') k = Some d \<and> sha d = sha body))"
  proof (cases op)
    case (Inl e)
    then show ?thesis using assms(4,6) x open1 ok1
      by (auto simp: copyAndVerify_def on_store_def throwE_def)
  next
    case (Inr body)
    let ?r = "opened_body body"
    obtain put s2 where put: "st_Put dst k ?r s1 = (put, s2)" by fastforce
    note frame = B.put_frame [OF _ assms(3) put] and apart = apartB [OF effectI(2), of s1 k ?r]
    have e2: "ok s2" "viewA s2 = viewA s1" "\<And>k'. good k' \<Longrightarrow> k' \<noteq> k \<Longrightarrow> viewB s2 k' = viewB s1 k'"
      using frame apart e1 put by auto
    have "placed sha m (row_state i w k') c (viewA s2 k') (viewB s2 k')" if "lib k' = Some c" for k' c
      using objects_okD(4) [OF ok1 that] e2 row by (cases "k' = k") auto
    then have ok2: "objects_ok i sha m lib fk (w, s2)" using ok1 e2 by (simp add: objects_ok_def)
    show ?thesis
    proof (cases put)
      case (Inl e)
      then show ?thesis using assms(4,6) x open1 put Inr ok2
        by (auto simp: copyAndVerify_def on_store_def throwE_def PutSizedHashed_def bindE_def)
    next
      case (Inr n')
      note putn = Inr
      have whole: "snd (drain ?r) = EOF" using B.put_whole [OF _ assms(3)] e1 put putn by blast
      obtain c b where cb: "body = (c, b)" by fastforce
      have nb: "b = False" using whole cb by (cases b) (auto simp: opened_body_def)
      then have sent: "fst (drain ?r) = c" using cb by (simp add: opened_body_def)
      have srcc: "viewA s k = Some c" using A.open_held [OF ok assms(3)] open1 \<open>op = Inr body\<close> cb nb by auto
      obtain got s3 where open3: "st_Open dst k s2 = (got, s3)" by fastforce
      note e3 = open_effect [OF e2(1) disjI2 [OF refl] open3]
      have ok3: "objects_ok i sha m lib fk (w, s3)" using ok_views [OF ok2] e3 by simp
      have vA: "viewA s3 k = Some c" using e1 e2 e3 srcc by simp
      obtain rec y where rec: "(recordedHash k (w, s3) :: (copy_error + string option) \<times> _) = (rec, y)" by (metis surj_pair)
      have y: "snd y = s3" "objects_ok i sha m lib fk y"
      proof -
        have "preserves (\<lambda>z. objects_ok i sha m lib fk z \<and> snd z = s3) (db (GetVideoFileSHA256ByStorageKey k) :: ('s, 's, _) mig_op)"
          by (rule preserves_db) (auto intro: ok_pop ok_reads)
        from preservesD [OF this, of "(w, s3)"] show "snd y = s3" "objects_ok i sha m lib fk y"
          using rec ok3 by (auto simp: recordedHash_def split: prod.splits sum.splits option.splits)
      qed
      have hash: "sha d = sha c \<Longrightarrow> got = Inr (d, False) \<Longrightarrow> viewB s3 k = Some d" for d
        using B.open_held [OF e2(1) assms(3)] open3 e3 by auto
      show ?thesis
        using assms(4,5,6) x open1 put \<open>op = Inr body\<close> putn open3 rec y ok3 vA hash sent
        by (auto simp: copyAndVerify_def on_store_def throwE_def retE_def PutSizedHashed_def bindE_def hashTarget_def
            split: sum.splits option.splits prod.splits if_splits)
    qed
  qed
  then show "objects_ok i sha m lib fk x'" by blast
  assume r: "res = Inr (digest, n)" and lib: "lib k = Some c"
  obtain w' s' where x': "x' = (w', s')" by fastforce
  have "row_state i w' k = Some ObjectCopying" using both x' assms(2) by (auto simp: objects_ok_def)
  then have "same sha c (viewA s' k)" using both objects_okD(4) [of i sha m lib fk w' s' k c] x' lib by auto
  then show "same sha c (viewA (snd x') k) \<and> same sha c (viewB (snd x') k)" using both r x' by (auto simp: same_def)
qed

lemma ok_verified:
  assumes "objects_ok i sha m lib fk (w, s)" "k \<in> fk" "\<And>c. lib k = Some c \<Longrightarrow> same sha c (viewA s k) \<and> same sha c (viewB s k)"
  shows "objects_ok i sha m lib (fk - {k}) (snd (MarkStorageMigrationObjectVerified k digest n w), s)"
proof -
  let ?w = "snd (MarkStorageMigrationObjectVerified k digest n w)"
  obtain o' where o': "find (\<lambda>o'. ob_Campaign o' = i \<and> ob_Key o' = k) (m_objs w) = Some o'" "ob_State o' = ObjectCopying"
    using objects_okD(3) [OF assms(1,2)] by (auto simp: row_state_def)
  have this_row: "row_state i ?w k = Some ObjectVerified"
    unfolding MarkStorageMigrationObjectVerified_def using o' find_memD [OF o'(1)] by (subst row_state_update) auto
  have other: "row_state i ?w k' = row_state i w k'" if "k' \<noteq> k" for k'
    unfolding MarkStorageMigrationObjectVerified_def using that
    by (subst row_state_update) (auto simp: row_state_def intro!: option.map_cong dest!: find_memD simp: option.set_map)
  have lok: "lok i ?w"
    unfolding MarkStorageMigrationObjectVerified_def using lok_update [OF objects_okD(2) [OF assms(1)]] by simp
  have "placed sha m (row_state i ?w k') c (viewA s k') (viewB s k')" if "lib k' = Some c" for k' c
  proof (cases "k' = k")
    case True
    then show ?thesis using this_row assms(3) that by simp
  next
    case False
    then show ?thesis using other objects_okD(4) [OF assms(1) that] by simp
  qed
  moreover have "row_state i ?w k' = Some ObjectCopying" if "k' \<in> fk - {k}" for k'
    using that other objects_okD(3) [OF assms(1), of k'] by auto
  ultimately show ?thesis using assms(1) lok by (simp add: objects_ok_def)
qed

lemma copyOne_ok:
  assumes "objects_ok i sha m lib fk x" "k \<in> fk" "good k" "sv_primary sv = src" "sv_sha256 sv = sha"
  shows "objects_ok i sha m lib (fk - {k}) (copyOne sv dst (k, j, a) x)"
proof -
  obtain res x' where c: "copyAndVerify sv dst k x = (res, x')" by (metis surj_pair)
  note eff = copy_effect [OF assms c]
  have lost: "objects_ok i sha m lib (fk - {k}) (logged (FailStorageMigrationObject k err) x')"
    "objects_ok i sha m lib (fk - {k}) (logged (RescheduleStorageMigrationObject k t err) x')" for t err
    by (rule logged_ok [OF ok_less [OF eff(1), of "fk - {k}"]]; use ok_unclaim in auto)+
  have verified: "objects_ok i sha m lib (fk - {k}) (logged (MarkStorageMigrationObjectVerified k digest n) x')"
    if "res = Inr (digest, n')" for digest n n'
    by (rule logged_ok [OF eff(1)]) (use ok_verified [OF _ assms(2)] eff(2) [OF that] in auto)
  show ?thesis
    using c lost verified by (auto simp: copyOne_def split: sum.splits copy_error.splits)
qed

end

section \<open>Past the point of no return\<close>

text \<open>
  Once a campaign is aborting or deleting its source, it stays there until it is over, whatever the
  controls do; only a sweep that has read an earlier state can take it back.
\<close>

abbreviation stuck_at :: "nat \<Rightarrow> mig_state \<Rightarrow> mig_world \<times> 's \<Rightarrow> bool" where
  "stuck_at i st x \<equiv> stuck i st (fst x)"

lemma stuck_camps: "m_camps w' = m_camps w \<Longrightarrow> stuck i st w' = stuck i st w"
  by (simp add: stuck_def)

lemma stuck_update:
  assumes "stuck i st w" "\<And>c. mg_ID (f c) = mg_ID c"
    and "\<And>c. P c \<Longrightarrow> mg_State c = st \<or> terminal_state (mg_State c) \<Longrightarrow> mg_State (f c) = st \<or> terminal_state (mg_State (f c))"
  shows "stuck i st (snd (update_camp j P f w))"
  unfolding stuck_def
proof (rule update_camp_all)
  show "\<forall>c\<in>set (m_camps w). mg_ID c = i \<longrightarrow> mg_State c = st \<or> terminal_state (mg_State c)"
    using assms(1) by (simp add: stuck_def)
qed (use assms(2,3) in simp)

lemma stuck_db: "(\<And>v. stuck i st v \<Longrightarrow> stuck i st (snd (q v))) \<Longrightarrow> preserves (stuck_at i st) (db q)"
  by (rule preserves_db) (auto simp: stuck_def)

definition ending :: "mig_state \<Rightarrow> bool" where
  "ending st \<longleftrightarrow> st = StateAborting \<or> st = StateDeletingSource"

lemma stuck_stmts:
  assumes "stuck i st w"
  shows "stuck i st (snd (SetStorageMigrationError j n w))" "stuck i st (snd (RefreshStorageMigrationCounters j w))"
    "stuck i st (snd (CancelStorageMigration j w))" "stuck i st (snd (SetStorageMigrationState j StateDone n w))"
  unfolding camp_stmts by (rule stuck_update [OF assms]; simp add: terminal_state_def)+

lemma stuck_others:
  assumes "stuck i st w"
  shows "stuck i st (snd (SetStorageMigrationWorker j wk w))"
    "stuck i st (snd (DeleteStorageMigrationObject k w))" "stuck i st (snd (MarkStorageMigrationObjectSourceDeleted k w))"
    "stuck i st (snd (GetStorageMigration j w))" "stuck i st (snd (GetActiveStorageMigration w))"
    "stuck i st (snd (CountUncopiedStorageMigrationObjects j w))" "stuck i st (snd (CountUnfinishedStorageMigrationObjects j w))"
    "stuck i st (snd (GetInstanceIdentity w))" "stuck i st (snd (ListVerifiedStorageMigrationObjects j m w))"
    "stuck i st (snd (ListDestinationCopiesToRemove j m w))"
  using assms
  by (auto simp: SetStorageMigrationWorker_def DeleteStorageMigrationObject_def
      MarkStorageMigrationObjectSourceDeleted_def update_objs_def GetStorageMigration_def GetActiveStorageMigration_def
      CountUncopiedStorageMigrationObjects_def CountUnfinishedStorageMigrationObjects_def GetInstanceIdentity_def
      ListVerifiedStorageMigrationObjects_def ListDestinationCopiesToRemove_def stuck_def)

lemma stuck_controls:
  assumes "stuck i st w" "ending st"
  shows "stuck i st (snd (MarkStorageMigrationCutover j w))" "stuck i st (snd (PauseStorageMigration j reason n w))"
    "stuck i st (snd (ResumeStorageMigration j w))" "stuck i st (snd (AbortStorageMigrationWithCleanup j n w))"
    "stuck i st (snd (ReleaseStorageMigrationSource j w))"
  unfolding camp_stmts by (rule stuck_update [OF assms(1)]; use assms(2) in \<open>auto simp: terminal_state_def ending_def\<close>)+

lemmas stuck_rules = preserves_rules stuck_db stuck_stmts stuck_others

lemma known_rules:
  "preserves (stuck_at i st) (known j)" "preserves (stuck_at i st) (illegal j action)" "preserves (stuck_at i st) (reread j)"
  unfolding reread_def illegal_def known_def by (intro stuck_rules; assumption)+

lemma control_stuck:
  assumes "ending st"
  shows "preserves (stuck_at i st) (run_control sv ctl j)"
proof -
  show ?thesis
    unfolding run_control_def mig_Pause_def mig_Resume_def mig_Abort_def mig_Switch_def mig_Release_def mig_Cancel_def
    by (cases ctl; simp only: control.case; intro stuck_rules known_rules stuck_controls [OF _ assms]; assumption)
qed

lemma stuck_small:
  "preserves (stuck_at i st) (note_error j n)" "preserves (stuck_at i st) (refresh j)"
  "preserves (stuck_at i st) (setState j StateDone)" "preserves (stuck_at i st) (stampWorker sv j)"
  unfolding note_error_def refresh_def setState_def stampWorker_def by (intro stuck_rules; assumption)+

lemma stuck_adopt: "preserves (stuck_at i st) (adoptDestination sv c)"
proof -
  have "preserves (stuck_at i st) (\<lambda>x. case ReadOwnerMarker (st_backend (sv_primary sv)) (snd x) of
           (Inl _, s) \<Rightarrow> (Inr (), (fst x, s))
         | (Inr (Some _), s) \<Rightarrow> (Inr (), (fst x, s))
         | (Inr None, s) \<Rightarrow> (Inr (), (fst x, snd (WriteOwnerMarker (st_backend (sv_primary sv)) v s))))" for v
    by (auto simp: preserves_def split: prod.splits sum.splits option.splits)
  note k = this
  show ?thesis unfolding adoptDestination_def by (intro stuck_rules k; assumption)
qed

lemma stuck_delete_keys:
  assumes "\<And>k w. stuck i st w \<Longrightarrow> stuck i st (snd (stmt k w))"
  shows "preserves (stuck_at i st) (delete_keys h stmt ks n)"
  unfolding preserves_def
  by (intro allI impI delete_keys_inv [where J = "\<lambda>_. stuck_at i st"]) (auto simp: stuck_def intro!: assms [unfolded stuck_def])

lemma sweep_stuck:
  assumes "mg_State c = st" "ending st"
  shows "preserves (stuck_at i st) (sweep_act sv t c)"
proof -
  have "preserves (stuck_at i st) (abortCleanupBatch t c)"
    unfolding abortCleanupBatch_def by (intro stuck_rules stuck_delete_keys; assumption)
  moreover have "preserves (stuck_at i st) (deleteSourceBatch sv t c)"
    unfolding deleteSourceBatch_def by (intro stuck_rules stuck_delete_keys stuck_small stuck_adopt; assumption)
  moreover have "reconcileTargetWritability sv c = retE False"
    using assms by (auto simp: reconcileTargetWritability_def ending_def)
  moreover have "mg_State c = StateAborting \<or> mg_State c = StateDeletingSource" using assms by (simp add: ending_def)
  ultimately show ?thesis
    unfolding sweep_act_def sweepForward_def sweepSwapped_def
    by (intro preserves_bindE stuck_small, cases "topologyFor sv c") (auto intro: stuck_small)
qed

lemma db_camps:
  assumes "\<And>v. m_camps (snd (q v)) = m_camps v"
  shows "m_camps (fst (snd (db q y))) = m_camps (fst y)"
proof (cases rule: repo_cases [of "fst y" q])
  case (run a w')
  then have "m_camps w' = m_camps (fst y)" using assms [of "(fst y)\<lparr>w_faults := tl (w_faults (fst y))\<rparr>"] by simp
  then show ?thesis using run by (simp add: db_def)
qed (simp add: db_def)

lemma recordedHash_camps:
  assumes "recordedHash k y = (r, z)"
  shows "m_camps (fst z) = m_camps (fst y)"
proof -
  obtain r' z' where z: "(db (GetVideoFileSHA256ByStorageKey k) y :: ('a mig_error + string option) \<times> _) = (r', z')"
    by (metis surj_pair)
  have "m_camps (fst (snd (db (GetVideoFileSHA256ByStorageKey k) y :: ('a mig_error + string option) \<times> _))) = m_camps (fst y)"
    by (rule db_camps) (simp add: GetVideoFileSHA256ByStorageKey_def)
  then show ?thesis using z assms by (auto simp: recordedHash_def split: sum.splits option.splits)
qed

lemma copyAndVerify_camps: "copyAndVerify sv t k x = (r, z) \<Longrightarrow> m_camps (fst z) = m_camps (fst x)"
  by (auto simp: copyAndVerify_def on_store_def throwE_def retE_def bindE_def split: prod.splits sum.splits option.splits if_splits
      dest!: recordedHash_camps)

lemma logged_camps: "(\<And>v. m_camps (snd (q v)) = m_camps v) \<Longrightarrow> m_camps (fst (logged q y)) = m_camps (fst y)"
  unfolding logged_def ignoreE_def by (rule db_camps)

lemma copyOne_camps: "m_camps (fst (copyOne sv t row x)) = m_camps (fst x)"
proof -
  obtain k j a where row: "row = (k, j, a)" by (cases row)
  obtain r z where z: "copyAndVerify sv t k x = (r, z)" by (metis surj_pair)
  have "m_camps (fst (logged (MarkStorageMigrationObjectVerified k d n) z)) = m_camps (fst z)"
    "m_camps (fst (logged (FailStorageMigrationObject k err) z)) = m_camps (fst z)"
    "m_camps (fst (logged (RescheduleStorageMigrationObject k t' err) z)) = m_camps (fst z)" for d n err t'
    by (rule logged_camps; simp add: MarkStorageMigrationObjectVerified_def FailStorageMigrationObject_def
        RescheduleStorageMigrationObject_def update_objs_def)+
  then show ?thesis
    using copyAndVerify_camps [OF z] row z by (auto simp: copyOne_def split: sum.splits copy_error.splits)
qed

section \<open>Every step keeps the library\<close>

fun mode_state :: "mode \<Rightarrow> mig_state" where
  "mode_state Cleaned = StateAborting"
| "mode_state m = StateDeletingSource"

lemma ending_mode [simp]: "ending (mode_state m)"
  by (cases m) (simp_all add: ending_def)

definition flight_key :: "('s, 'e) mig_Service \<times> ('s, 'e) Store \<times> string \<times> nat \<times> int \<Rightarrow> string" where
  "flight_key = (\<lambda>(_, _, k, _). k)"

lemma active_camp:
  assumes "db GetActiveStorageMigration (w, s) = (Inr (Some c), x)"
  shows "x = (w\<lparr>w_faults := tl (w_faults w)\<rparr>, s)" "c \<in> set (m_camps w)" "\<not> terminal_state (mg_State c)"
proof -
  have "repo GetActiveStorageMigration w = (Inr (Some c), fst x) \<and> snd x = s"
    using assms by (auto simp: db_def split: prod.splits sum.splits)
  then have "x = (w\<lparr>w_faults := tl (w_faults w)\<rparr>, s) \<and>
      (case newest_first (filter (\<lambda>c. \<not> terminal_state (mg_State c)) (m_camps w)) of [] \<Rightarrow> None | c # _ \<Rightarrow> Some c) = Some c"
    by (cases rule: repo_cases [of w GetActiveStorageMigration]) (auto simp: GetActiveStorageMigration_def intro: prod_eqI)
  moreover from this have "c \<in> set (newest_first (filter (\<lambda>c. \<not> terminal_state (mg_State c)) (m_camps w)))"
    by (auto split: list.splits)
  ultimately show "x = (w\<lparr>w_faults := tl (w_faults w)\<rparr>, s)" "c \<in> set (m_camps w)" "\<not> terminal_state (mg_State c)"
    by (auto simp: newest_first_def)
qed

context store_pair
begin

definition flight_ok :: "(string \<Rightarrow> string) \<Rightarrow> ('s, 'e) mig_run \<Rightarrow> bool" where
  "flight_ok sha r \<longleftrightarrow> distinct (map flight_key (r_flight r)) \<and>
     (\<forall>(sv, t, k, _)\<in>set (r_flight r). sv_primary sv = src \<and> t = dst \<and> sv_sha256 sv = sha \<and> good k)"

definition snap_ok :: "nat \<Rightarrow> (string \<Rightarrow> string) \<Rightarrow> ('s, 'e) mig_run \<Rightarrow> bool" where
  "snap_ok i sha r \<longleftrightarrow> (case r_snap r of None \<Rightarrow> True | Some (sv, t, c) \<Rightarrow>
     sweeping i sha sv t c \<and> (ending (mg_State c) \<longrightarrow> stuck_at i (mg_State c) (r_x r)))"

definition in_mode :: "nat \<Rightarrow> (string \<Rightarrow> string) \<Rightarrow> mode \<Rightarrow> ('s, 'e) mig_run \<Rightarrow> bool" where
  "in_mode i sha m r \<longleftrightarrow> objects_ok i sha m (r_live r) (flight_key ` set (r_flight r)) (r_x r) \<and>
     (m \<noteq> Untouched \<longrightarrow> stuck_at i (mode_state m) (r_x r) \<and>
       (case r_snap r of None \<Rightarrow> True | Some (_, _, c) \<Rightarrow> mg_State c = mode_state m))"

definition run_ok :: "nat \<Rightarrow> (string \<Rightarrow> string) \<Rightarrow> ('s, 'e) mig_run \<Rightarrow> bool" where
  "run_ok i sha r \<longleftrightarrow> (\<exists>m. in_mode i sha m r) \<and> flight_ok sha r \<and> snap_ok i sha r"

lemma run_x:
  assumes "run_ok i sha r"
    and "\<And>m. objects_ok i sha m (r_live r) (flight_key ` set (r_flight r)) (r_x r) \<Longrightarrow>
      objects_ok i sha m (r_live r) (flight_key ` set (r_flight r)) x"
    and "\<And>st. ending st \<Longrightarrow> stuck_at i st (r_x r) \<Longrightarrow> stuck_at i st x"
  shows "run_ok i sha (r\<lparr>r_x := x\<rparr>)"
proof -
  obtain m where m: "in_mode i sha m r" using assms(1) by (auto simp: run_ok_def)
  have "in_mode i sha m (r\<lparr>r_x := x\<rparr>)" using m assms(2,3) by (simp add: in_mode_def)
  moreover have "flight_ok sha (r\<lparr>r_x := x\<rparr>)" using assms(1) by (simp add: run_ok_def flight_ok_def)
  moreover have "snap_ok i sha (r\<lparr>r_x := x\<rparr>)"
    using assms(1,3) by (auto simp: run_ok_def snap_ok_def split: option.splits)
  ultimately show ?thesis by (auto simp: run_ok_def)
qed

lemma run_camps:
  assumes "run_ok i sha r" "m_camps (fst x) = m_camps (fst (r_x r))"
    and "\<And>m. objects_ok i sha m (r_live r) (flight_key ` set (r_flight r)) (r_x r) \<Longrightarrow>
      objects_ok i sha m (r_live r) (flight_key ` set (r_flight r)) x"
  shows "run_ok i sha (r\<lparr>r_x := x\<rparr>)"
  by (rule run_x [OF assms(1,3)]) (use assms(2) in \<open>auto simp: stuck_def\<close>)

lemma control_ok: "preserves (objects_ok i sha m lib fk) (run_control sv ctl j)"
  unfolding run_control_def mig_Pause_def mig_Resume_def mig_Abort_def mig_Switch_def mig_Release_def mig_Cancel_def
    reread_def illegal_def known_def
  by (cases ctl; simp only: control.case; intro ok_rules; assumption)

lemma read_step:
  assumes "run_ok i sha r" "r_snap r = None" "process src dst sha sv" "sv_target sv = Some t"
    and "(db GetActiveStorageMigration (r_x r) :: ('e mig_error + _) \<times> _) = (Inr (Some c), x)"
  shows "run_ok i sha (r\<lparr>r_x := x, r_snap := Some (sv, t, c)\<rparr>)"
proof -
  obtain m where m: "in_mode i sha m r" using assms(1) by (auto simp: run_ok_def)
  obtain w s where ws: "r_x r = (w, s)" by fastforce
  note a = active_camp [OF assms(5) [unfolded ws]]
  have x: "x = (w\<lparr>w_faults := tl (w_faults w)\<rparr>, s)" by (rule a(1))
  have camp: "only_camp i (st_Describe src) (st_Describe dst) c"
    using m a(2) ws by (auto simp: in_mode_def objects_ok_def ledger_ok_def)
  then have c: "mg_ID c = i" "mg_SourceDesc c = st_Describe src" "mg_TargetDesc c = st_Describe dst"
    using a(3) by (auto simp: only_camp_def)
  have st: "mg_State c = st" if "stuck i st w" for st
    using that a(2,3) c(1) by (auto simp: stuck_def)
  have pop: "stuck i st (w\<lparr>w_faults := fs\<rparr>) = stuck i st w" for st fs by (simp add: stuck_def)
  have "in_mode i sha m (r\<lparr>r_x := x, r_snap := Some (sv, t, c)\<rparr>)"
    using m st ws ok_pop(1) by (auto simp: in_mode_def x pop)
  moreover have "stuck i (mg_State c) w" if "ending (mg_State c)"
    using m a(2) c(1) ws by (auto simp: in_mode_def objects_ok_def ledger_ok_def stuck_def distinct_map dest: inj_onD)
  ultimately show ?thesis
    using assms(1,3,4) c by (auto simp: run_ok_def flight_ok_def snap_ok_def sweeping_def x pop)
qed

end

lemma image_drop: "distinct (map f (xs @ y # ys)) \<Longrightarrow> f ` set (xs @ ys) = f ` set (xs @ y # ys) - {f y}"
  by (simp add: image_Un)

lemma claim_camps: "m_camps (snd (ClaimDueStorageMigrationObjects n v)) = m_camps v"
  by (simp add: ClaimDueStorageMigrationObjects_def Let_def update_objs_def)

context store_pair
begin

lemma act_step:
  assumes "run_ok i sha r" "r_snap r = Some (sv, t, c)" "sweep_act sv t c (r_x r) = (res, x)"
  shows "run_ok i sha (r\<lparr>r_x := x, r_snap := None\<rparr>)"
proof -
  obtain m where m: "in_mode i sha m r" using assms(1) by (auto simp: run_ok_def)
  have sw: "sweeping i sha sv t c" and st: "ending (mg_State c) \<Longrightarrow> stuck_at i (mg_State c) (r_x r)"
    using assms(1,2) by (auto simp: run_ok_def snap_ok_def)
  let ?lib = "r_live r" and ?fk = "flight_key ` set (r_flight r)"
  have ok: "objects_ok i sha m ?lib ?fk (r_x r)" "m \<noteq> Untouched \<Longrightarrow> mg_State c = mode_state m"
    using m assms(2) by (auto simp: in_mode_def)
  have x: "x = snd (sweep_act sv t c (r_x r))" using assms(3) by simp
  have "\<exists>m'. objects_ok i sha m' ?lib ?fk x \<and> (m' \<noteq> Untouched \<longrightarrow> stuck_at i (mode_state m') x)"
  proof (cases "ending (mg_State c)")
    case True
    define m' where "m' = (if mg_State c = StateAborting then Cleaned else Emptied)"
    have m': "mode_state m' = mg_State c" using True by (auto simp: m'_def ending_def)
    have "m = Untouched \<or> m = m'" using ok(2) True by (cases m) (auto simp: m'_def)
    then have "objects_ok i sha m' ?lib ?fk (r_x r)" using ok(1) weaken [of i sha ?lib ?fk "r_x r" m'] by auto
    then have "objects_ok i sha m' ?lib ?fk x"
      using preservesD [OF sweep_aborting [OF sw]] preservesD [OF sweep_deleting [OF sw]] True
      unfolding x m'_def ending_def by (simp split: if_splits)
    moreover have "stuck_at i (mode_state m') x"
      using preservesD [OF sweep_stuck [of c "mg_State c" i sv t] st] True x m' by simp
    ultimately show ?thesis by blast
  next
    case False
    then have "m = Untouched" using ok(2) by (cases m) (auto simp: ending_def)
    then have "objects_ok i sha Untouched ?lib ?fk x"
      using preservesD [OF sweep_quiet [OF sw]] ok(1) False x by (simp add: ending_def)
    then show ?thesis by blast
  qed
  then show ?thesis using assms(1) by (auto simp: run_ok_def in_mode_def flight_ok_def snap_ok_def)
qed

lemma claim_effect:
  assumes "objects_ok i sha m lib fk x" "process src dst sha sv" "sv_target sv = Some t"
    "copy_claim sv batch x = (Inr (Some (c, rows)), x')"
  shows "objects_ok i sha m lib (fk \<union> fst ` set rows) x'" "distinct (map fst rows)" "fst ` set rows \<inter> fk = {}"
    "fst ` set rows \<subseteq> Collect good" "sv_primary sv = src \<and> t = dst" "m_camps (fst x') = m_camps (fst x)"
proof -
  obtain w s where ws: "x = (w, s)" by fastforce
  obtain n y where y: "(db GetActiveStorageMigration x :: ('e mig_error + _) \<times> _) = (Inr (Some c), y)"
    "topologyFor sv c = TopologyForward" "(db (ClaimDueStorageMigrationObjects n) y :: ('e mig_error + _) \<times> _) = (Inr rows, x')"
    using assms(4) by (auto simp: copy_claim_def bindE_def retE_def split: prod.splits sum.splits option.splits if_splits)
  note a = active_camp [OF y(1) [unfolded ws]]
  have ok: "objects_ok i sha m lib fk y" using a(1) assms(1) ws ok_pop(1) by simp
  obtain v where v: "objects_ok i sha m lib fk (v, s)" "m_camps v = m_camps w" "ClaimDueStorageMigrationObjects n v = (rows, fst x')" "snd x' = s"
  proof (cases rule: repo_cases [of "fst y" "ClaimDueStorageMigrationObjects n"])
    case (fault fs)
    then show ?thesis using y(3) by (simp add: db_def)
  next
    case (run b w')
    then show ?thesis
      using that [of "(fst y)\<lparr>w_faults := tl (w_faults (fst y))\<rparr>"] y(3) a(1) ok_pop(1) assms(1) ws by (auto simp: db_def)
  qed
  note eff = ok_claim [OF v(1,3)]
  show "objects_ok i sha m lib (fk \<union> fst ` set rows) x'" using eff(1) v(4) by (metis prod.collapse)
  show "distinct (map fst rows)" "fst ` set rows \<inter> fk = {}" "fst ` set rows \<subseteq> Collect good" using eff(2-4) .
  have "only_camp i (st_Describe src) (st_Describe dst) c" using a(2) assms(1) ws by (auto simp: objects_ok_def ledger_ok_def)
  then have "mg_SourceDesc c = st_Describe src" "mg_TargetDesc c = st_Describe dst" using a(3) by (auto simp: only_camp_def)
  then show "sv_primary sv = src \<and> t = dst" using topology_handles(1) [of src dst sha sv t c] assms(2,3) y(2) by simp
  show "m_camps (fst x') = m_camps (fst x)"
    using claim_camps [of n v] v(2,3) ws by simp
qed

lemma claim_step:
  assumes "run_ok i sha r" "process src dst sha sv" "sv_target sv = Some t" "copy_claim sv batch (r_x r) = (Inr (Some (c, rows)), x)"
  shows "run_ok i sha (r\<lparr>r_x := x, r_flight := map (\<lambda>row. (sv, t, row)) rows @ r_flight r\<rparr>)"
proof -
  obtain m where m: "in_mode i sha m r" using assms(1) by (auto simp: run_ok_def)
  let ?r = "r\<lparr>r_x := x, r_flight := map (\<lambda>row. (sv, t, row)) rows @ r_flight r\<rparr>"
  note eff = claim_effect [OF _ assms(2-4), of i m "r_live r" "flight_key ` set (r_flight r)"]
  have ok: "objects_ok i sha m (r_live r) (flight_key ` set (r_flight r)) (r_x r)" using m by (simp add: in_mode_def)
  have key: "flight_key (sv, t, row) = fst row" for row by (simp add: flight_key_def split: prod.splits)
  have keys: "flight_key ` set (r_flight ?r) = flight_key ` set (r_flight r) \<union> fst ` set rows" by (auto simp: image_Un image_image key)
  have stuck: "stuck_at i st x = stuck_at i st (r_x r)" for st using eff(6) [OF ok] by (simp add: stuck_def)
  have "in_mode i sha m ?r" using m eff(1) [OF ok] keys stuck unfolding in_mode_def by simp
  moreover have "flight_ok sha ?r"
  proof -
    have sha: "sv_sha256 sv = sha" using assms(2) by (simp add: process_def)
    have "good k" if "(k, v) \<in> set rows" for k v using eff(4) [OF ok] that by force
    moreover have "distinct (map flight_key (map (\<lambda>row. (sv, t, row)) rows @ r_flight r))"
      using assms(1) eff(2,3) [OF ok] keys by (simp add: run_ok_def flight_ok_def comp_def key image_image Int_commute)
    ultimately show ?thesis
      using assms(1) eff(5) [OF ok] sha by (auto simp: run_ok_def flight_ok_def)
  qed
  moreover have "snap_ok i sha ?r" using assms(1) stuck by (auto simp: run_ok_def snap_ok_def split: option.splits)
  ultimately show ?thesis by (auto simp: run_ok_def)
qed

lemma copy_step:
  assumes "run_ok i sha r" "r_flight r = before @ (sv, t, row) # after"
  shows "run_ok i sha (r\<lparr>r_x := copyOne sv t row (r_x r), r_flight := before @ after\<rparr>)"
proof -
  obtain m where m: "in_mode i sha m r" using assms(1) by (auto simp: run_ok_def)
  obtain k j a where row: "row = (k, j, a)" by (cases row)
  have fl: "sv_primary sv = src" "t = dst" "sv_sha256 sv = sha" "good k" "distinct (map flight_key (r_flight r))"
    using assms row by (auto simp: run_ok_def flight_ok_def)
  let ?fk = "flight_key ` set (r_flight r)" and ?x = "copyOne sv t row (r_x r)"
  have key: "flight_key (sv, t, row) = k" by (simp add: flight_key_def row)
  have "k \<in> ?fk" using assms(2) key by auto
  moreover have "flight_key ` set (before @ after) = ?fk - {k}"
    using image_drop [of flight_key before "(sv, t, row)" after] fl(5) assms(2) key by simp
  moreover have "objects_ok i sha m (r_live r) ?fk (r_x r)" using m by (simp add: in_mode_def)
  ultimately have "objects_ok i sha m (r_live r) (flight_key ` set (before @ after)) ?x"
    using copyOne_ok [of i sha m "r_live r" ?fk "r_x r" k sv j a] fl row by simp
  moreover have stuck: "stuck_at i st ?x = stuck_at i st (r_x r)" for st by (simp add: stuck_def copyOne_camps)
  ultimately have "in_mode i sha m (r\<lparr>r_x := ?x, r_flight := before @ after\<rparr>)" using m by (simp add: in_mode_def)
  moreover have "flight_ok sha (r\<lparr>r_x := ?x, r_flight := before @ after\<rparr>)"
    using assms by (auto simp: run_ok_def flight_ok_def)
  moreover have "snap_ok i sha (r\<lparr>r_x := ?x, r_flight := before @ after\<rparr>)"
    using assms(1) stuck by (auto simp: run_ok_def snap_ok_def split: option.splits)
  ultimately show ?thesis by (auto simp: run_ok_def)
qed

end

context store_pair
begin

lemma stored_step:
  assumes "run_ok i sha r" "r_x r = (w, s)" "h = src \<and> view = viewA \<or> h = dst \<and> view = viewB" "good k" "k \<noteq> OwnerMarkerKey"
    and "viewA s k = None" "viewB s k = None" "k \<notin> ledger_keys w" "st_Put h k (plain_body c) s = (Inr n, s')" "view s' k = Some c"
  shows "run_ok i sha (r\<lparr>r_x := (w, s'), r_live := (r_live r)(k \<mapsto> c)\<rparr>)"
proof -
  obtain m where m: "in_mode i sha m r" using assms(1) by (auto simp: run_ok_def)
  have ok: "objects_ok i sha m (r_live r) (flight_key ` set (r_flight r)) (w, s)" using m assms(2) by (simp add: in_mode_def)
  note oks = objects_okD(1) [OF ok]
  have eff: "ok s' \<and> (\<forall>k'. good k' \<longrightarrow> k' \<noteq> k \<longrightarrow> viewA s' k' = viewA s k' \<and> viewB s' k' = viewB s k') \<and>
      (viewA s' k = Some c \<or> viewA s' k = None \<and> viewB s' k = Some c)"
    using assms(3)
  proof
    assume "h = src \<and> view = viewA"
    then show ?thesis using A.put_frame [OF oks assms(4)] apartA [OF effectI(2) oks, of k "plain_body c"] assms(9,10) by auto
  next
    assume "h = dst \<and> view = viewB"
    then show ?thesis using B.put_frame [OF oks assms(4)] apartB [OF effectI(2) oks, of k "plain_body c"] assms(6,9,10) by auto
  qed
  have "row_state i w k = None" using assms(8) by (auto simp: row_state_def find_None_iff)
  then have "placed sha m (row_state i w k') c' (viewA s' k') (viewB s' k') \<and> good k' \<and> k' \<noteq> OwnerMarkerKey"
    if "((r_live r)(k \<mapsto> c)) k' = Some c'" for k' c'
    using that eff objects_okD(4) [OF ok, of k' c'] assms(4,5) by (cases "k' = k") (auto simp: same_def)
  then have "objects_ok i sha m ((r_live r)(k \<mapsto> c)) (flight_key ` set (r_flight r)) (w, s')"
    using ok eff by (simp add: objects_ok_def)
  then show ?thesis
    using assms(1,2) m by (auto simp: run_ok_def in_mode_def flight_ok_def snap_ok_def split: option.splits)
qed

lemma deleted_step:
  assumes "run_ok i sha r" "r_x r = (w, s)" "h = src \<or> h = dst" "good k" "st_Delete h k s = (res, s')"
  shows "run_ok i sha (r\<lparr>r_x := (w, s'), r_live := (r_live r)(k := None)\<rparr>)"
proof -
  obtain m where m: "in_mode i sha m r" using assms(1) by (auto simp: run_ok_def)
  have ok: "objects_ok i sha m (r_live r) (flight_key ` set (r_flight r)) (w, s)" using m assms(2) by (simp add: in_mode_def)
  note oks = objects_okD(1) [OF ok]
  have eff: "ok s' \<and> (\<forall>k'. good k' \<longrightarrow> k' \<noteq> k \<longrightarrow> viewA s' k' = viewA s k' \<and> viewB s' k' = viewB s k')"
    using assms(3)
  proof
    assume "h = src"
    then show ?thesis using A.delete_frame [OF oks assms(4)] apartA [OF effectI(4) oks, of k] assms(5) by auto
  next
    assume "h = dst"
    then show ?thesis using B.delete_frame [OF oks assms(4)] apartB [OF effectI(4) oks, of k] assms(5) by auto
  qed
  have "placed sha m (row_state i w k') c' (viewA s' k') (viewB s' k') \<and> good k' \<and> k' \<noteq> OwnerMarkerKey"
    if "((r_live r)(k := None)) k' = Some c'" for k' c'
    using that eff objects_okD(4) [OF ok, of k' c'] by (cases "k' = k") auto
  then have "objects_ok i sha m ((r_live r)(k := None)) (flight_key ` set (r_flight r)) (w, s')"
    using ok eff by (simp add: objects_ok_def)
  then show ?thesis
    using assms(1,2) m by (auto simp: run_ok_def in_mode_def flight_ok_def snap_ok_def split: option.splits)
qed

lemma crash_step:
  assumes "run_ok i sha r"
  shows "run_ok i sha (r\<lparr>r_snap := None, r_flight := filter keep (r_flight r)\<rparr>)"
proof -
  obtain m where m: "in_mode i sha m r" using assms by (auto simp: run_ok_def)
  let ?r = "r\<lparr>r_snap := None, r_flight := filter keep (r_flight r)\<rparr>"
  have "objects_ok i sha m (r_live r) (flight_key ` set (filter keep (r_flight r))) (r_x r)"
    by (rule ok_less [of i sha m "r_live r" "flight_key ` set (r_flight r)"]) (use m in \<open>auto simp: in_mode_def\<close>)
  then have "in_mode i sha m ?r" using m by (auto simp: in_mode_def)
  moreover have "flight_ok sha ?r" using assms by (auto simp: run_ok_def flight_ok_def distinct_map_filter)
  ultimately show ?thesis by (auto simp: run_ok_def snap_ok_def)
qed

lemma db_step:
  assumes "run_ok i sha r" "(db q (r_x r) :: ('e mig_error + _) \<times> _) = (res, x)" "\<And>v. m_camps (snd (q v)) = m_camps v"
    and "\<And>m. preserves (objects_ok i sha m (r_live r) (flight_key ` set (r_flight r))) (db q :: ('s, 'e, _) mig_op)"
  shows "run_ok i sha (r\<lparr>r_x := x\<rparr>)"
proof (rule run_camps [OF assms(1)])
  have "m_camps (fst (snd (db q (r_x r) :: ('e mig_error + _) \<times> _))) = m_camps (fst (r_x r))" by (rule db_camps [OF assms(3)])
  then show "m_camps (fst x) = m_camps (fst (r_x r))" using assms(2) by simp
  show "objects_ok i sha m (r_live r) (flight_key ` set (r_flight r)) x"
    if "objects_ok i sha m (r_live r) (flight_key ` set (r_flight r)) (r_x r)" for m
    using preservesD [OF assms(4) that] assms(2) by simp
qed

lemma run_op:
  fixes f :: "('s, 'e, 'a) mig_op"
  assumes "run_ok i sha r" "f (r_x r) = (res, x)"
    and "\<And>m. preserves (objects_ok i sha m (r_live r) (flight_key ` set (r_flight r))) f"
    and "\<And>st. ending st \<Longrightarrow> preserves (stuck_at i st) f"
  shows "run_ok i sha (r\<lparr>r_x := x\<rparr>)"
proof (rule run_x [OF assms(1)])
  show "objects_ok i sha m (r_live r) (flight_key ` set (r_flight r)) x"
    if "objects_ok i sha m (r_live r) (flight_key ` set (r_flight r)) (r_x r)" for m
    using preservesD [OF assms(3) that] assms(2) by simp
  show "stuck_at i st x" if "ending st" "stuck_at i st (r_x r)" for st
    using preservesD [OF assms(4) [OF that(1)] that(2)] assms(2) by simp
qed

lemma step_ok: "mig_step src dst sha viewA viewB good r r' \<Longrightarrow> run_ok i sha r \<Longrightarrow> run_ok i sha r'"
proof (induction rule: mig_step.induct)
  case (renew k r res' x)
  show ?case
    by (rule db_step [OF renew(2,1)]) (simp add: RenewStorageMigrationObjectLease_def update_objs_def, intro ok_db ok_renew)
next
  case (counters j r res x)
  show ?case by (rule run_op [where f = "refresh j", OF counters(2,1)]) (rule small_ok stuck_small)+
next
  case (lease_sweep r res'' x)
  let ?fk = "flight_key ` set (r_flight r)"
  have quiet: "\<forall>o'\<in>set (m_objs (fst (r_x r))). ob_Key o' \<in> ?fk \<longrightarrow> \<not> lease_expired (fst (r_x r)) o'"
    using lease_sweep(1) by (force simp: flight_key_def)
  let ?q = SweepExpiredStorageMigrationObjects
  obtain w s where ws: "r_x r = (w, s)" by fastforce
  have camps: "m_camps (snd (?q v)) = m_camps v" for v
    by (simp add: SweepExpiredStorageMigrationObjects_def Let_def update_objs_def)
  have "objects_ok i sha m (r_live r) ?fk x" if ok: "objects_ok i sha m (r_live r) ?fk (r_x r)" for m
  proof (cases rule: repo_cases [of w ?q])
    case (fault fs)
    then show ?thesis using lease_sweep(2) ws ok ok_pop(1) by (auto simp: db_def)
  next
    case (run a w')
    let ?v = "w\<lparr>w_faults := tl (w_faults w)\<rparr>"
    have "objects_ok i sha m (r_live r) ?fk (snd (?q ?v), s)"
      by (rule ok_expired) (use ok ok_pop(1) ws quiet in \<open>auto simp: lease_expired_def\<close>)
    then show ?thesis using run lease_sweep(2) ws by (auto simp: db_def)
  qed
  moreover have "m_camps (fst (snd (db ?q (r_x r) :: ('e mig_error + nat) \<times> _))) = m_camps (fst (r_x r))"
    by (rule db_camps) (rule camps)
  ultimately show ?case using lease_sweep(2) by (intro run_camps [OF lease_sweep(3)]) simp_all
next
  case (controlled sv ctl j r res3 x)
  show ?case by (rule run_op [where f = "run_control sv ctl j", OF controlled(3,2)]) (rule control_ok, rule control_stuck)
next
  case (elapse r w s t' faults cancels hashes)
  then show ?case
    by (intro run_camps) (simp_all add: objects_ok_def ledger_ok_def row_state_def)
qed (blast intro: read_step act_step claim_step copy_step crash_step stored_step deleted_step)+

end

section \<open>From the start of a campaign\<close>

definition tables_ok :: "mig_world \<Rightarrow> bool" where
  "tables_ok w \<longleftrightarrow> distinct (map mg_ID (m_camps w)) \<and> (\<forall>c\<in>set (m_camps w). mg_ID c < m_next w) \<and>
     distinct (map ob_Key (m_objs w)) \<and> (\<forall>o'\<in>set (m_objs w). ob_Campaign o' < m_next w)"

lemma db_InrD:
  assumes "db q (w, s) = (Inr a, x)"
  obtains fs where "q (w\<lparr>w_faults := fs\<rparr>) = (a, fst x)" "snd x = s"
  using assms by (cases rule: repo_cases [of w q]) (auto simp: db_def)

lemma create_effect:
  assumes "CreateStorageMigration a b q r w = (Some c, w')"
  shows "mg_ID c = m_next w \<and> mg_State c = StateEnumerating \<and> mg_SourceDesc c = a \<and> mg_TargetDesc c = b \<and>
    m_camps w' = c # m_camps w \<and> m_objs w' = m_objs w" "\<forall>d\<in>set (m_camps w). terminal_state (mg_State d)"
  using assms by (auto simp: CreateStorageMigration_def Let_def list_ex_iff split: if_splits)

lemma start_effect:
  fixes sv :: "('s, 'e) mig_Service"
  assumes "mig_Start sv requester (w, s) = (Inr c, x)" "sv_target sv = Some dst" "tables_ok w"
  shows "snd x = s \<and> mg_ID c = m_next w \<and> ledger_ok (mg_ID c) (st_Describe (sv_primary sv)) (st_Describe dst) good (fst x) \<and>
    row_state (mg_ID c) (fst x) = (\<lambda>_. None)"
proof -
  obtain y z res where y: "(db GetActiveStorageMigration (w, s) :: ('e mig_error + _) \<times> _) = (Inr None, y)"
    and z: "(db (CreateStorageMigration (st_Describe (sv_primary sv)) (st_Describe dst) (fst requester) (snd requester)) y :: ('e mig_error + _) \<times> _) = (Inr (Some c), z)"
    and x: "(db DeleteTerminalStorageMigrationObjects z :: ('e mig_error + _) \<times> _) = (res, x)"
    using assms(1,2)
    by (auto simp: mig_Start_def Let_def guardE_def throwE_def bindE_def retE_def attempt_def catchE_def
        split: if_splits prod.splits sum.splits option.splits)
  obtain fs where fs: "y = (w\<lparr>w_faults := fs\<rparr>, s)"
    by (rule db_InrD [OF y]) (metis GetActiveStorageMigration_def prod.collapse snd_conv)
  obtain fs' where c: "CreateStorageMigration (st_Describe (sv_primary sv)) (st_Describe dst) (fst requester) (snd requester)
      (w\<lparr>w_faults := fs'\<rparr>) = (Some c, fst z)" "snd z = s"
    by (rule db_InrD [OF z [unfolded fs]]) simp
  have over: "terminal_state (mg_State d)" if "d \<in> set (m_camps w)" for d
    using create_effect(2) [OF c(1)] that by simp
  have new: "mg_ID c = m_next w" "mg_SourceDesc c = st_Describe (sv_primary sv)" "mg_TargetDesc c = st_Describe dst"
    "m_camps (fst z) = c # m_camps w" "m_objs (fst z) = m_objs w"
    using create_effect(1) [OF c(1)] by simp_all
  have objs: "m_camps (fst x) = m_camps (fst z) \<and> snd x = s \<and>
      (m_objs (fst x) = m_objs (fst z) \<or> (\<exists>P. m_objs (fst x) = filter P (m_objs (fst z))))"
    using c(2) x
    by (cases rule: repo_cases [of "fst z" DeleteTerminalStorageMigrationObjects])
      (auto simp: db_def DeleteTerminalStorageMigrationObjects_def Let_def)
  then have sub: "set (m_objs (fst x)) \<subseteq> set (m_objs w)" "distinct (map ob_Key (m_objs (fst x)))"
    using new(5) assms(3) by (auto simp: tables_ok_def distinct_map_filter)
  have old: "ob_Campaign o' \<noteq> m_next w" if "o' \<in> set (m_objs (fst x))" for o'
    using that sub(1) assms(3) less_irrefl [of "m_next w"] unfolding tables_ok_def by (metis subsetD)
  have camps: "distinct (map mg_ID (c # m_camps w))" using assms(3) new(1) by (auto simp: tables_ok_def)
  have "\<forall>d\<in>set (m_camps w). mg_ID d \<noteq> m_next w" using assms(3) by (auto simp: tables_ok_def)
  then have "ledger_ok (mg_ID c) (st_Describe (sv_primary sv)) (st_Describe dst) good (fst x)"
    using objs new old sub camps over by (simp add: ledger_ok_def only_camp_def)
  moreover have "row_state (mg_ID c) (fst x) k = None" for k
    using old new(1) by (auto simp: row_state_def find_None_iff)
  ultimately show ?thesis using objs new(1) by (simp add: fun_eq_iff)
qed

definition fresh_run :: "mig_world \<times> 's \<Rightarrow> (string \<Rightarrow> string option) \<Rightarrow> ('s, 'e) mig_run" where
  "fresh_run x lib = \<lparr>r_x = x, r_snap = None, r_flight = [], r_live = lib\<rparr>"

context store_pair
begin

lemma start_ok:
  assumes "mig_Start sv requester x0 = (Inr c, x)" "sv_primary sv = src" "sv_target sv = Some dst" "tables_ok (fst x0)" "ok (snd x0)"
    and "\<And>k c. lib k = Some c \<Longrightarrow> good k \<and> k \<noteq> OwnerMarkerKey \<and> viewA (snd x0) k = Some c"
  shows "run_ok (mg_ID c) sha (fresh_run x lib)"
proof -
  obtain w s where ws: "x0 = (w, s)" by fastforce
  have eff: "snd x = s" "lok (mg_ID c) (fst x)" "row_state (mg_ID c) (fst x) = (\<lambda>_. None)"
    using start_effect [OF assms(1) [unfolded ws] assms(3), of good] assms(2,4) ws by auto
  have "objects_ok (mg_ID c) sha Untouched lib {} x"
    unfolding objects_ok_def eff(1,3) using eff(2) assms(5,6) ws by (simp add: same_def)
  then have "in_mode (mg_ID c) sha Untouched (fresh_run x lib)" by (simp add: in_mode_def fresh_run_def)
  then show ?thesis by (auto simp: run_ok_def flight_ok_def snap_ok_def fresh_run_def)
qed

lemma reachable_ok:
  "(mig_step src dst sha viewA viewB good)\<^sup>*\<^sup>* r r' \<Longrightarrow> run_ok i sha r \<Longrightarrow> run_ok i sha r'"
  by (induction rule: rtranclp_induct) (auto intro: step_ok)

lemma held_somewhere:
  assumes "run_ok i sha r" "r_live r k = Some c"
  shows "\<exists>d. (viewA (snd (r_x r)) k = Some d \<or> viewB (snd (r_x r)) k = Some d) \<and> sha d = sha c"
proof -
  obtain m where "placed sha m (row_state i (fst (r_x r)) k) c (viewA (snd (r_x r)) k) (viewB (snd (r_x r)) k)"
    using assms by (auto simp: run_ok_def in_mode_def objects_ok_def)
  from placed_held [OF this] show ?thesis by (auto simp: same_def split: option.splits)
qed

end

end
