(* ===== verification/Migration_Stores.thy ===== *)
theory Migration_Stores
  imports Migration_Safety Blob_Disk
begin

text \<open>
  The stores a migration runs between: the local disk, with every schedule of I/O errors, and a
  bucket with atomic writes, both as instances of \<open>migration_store\<close>; two stores that share no state
  form a \<open>store_pair\<close>.
\<close>

section \<open>The local disk\<close>

definition disk_ok :: "Local \<Rightarrow> filesystem \<Rightarrow> bool" where
  "disk_ok l fs \<longleftrightarrow> list_all plain_segment (root l) \<and> names_ok fs \<and> distinct (map fst (entries fs)) \<and> \<not> is_file (node_at fs (root l))"

definition tidy :: "filesystem \<Rightarrow> bool" where
  "tidy fs \<longleftrightarrow> names_ok fs \<and> distinct (map fst (entries fs))"

lemma tidy_failures [simp]: "tidy (fs\<lparr>failures := es\<rparr>) = tidy fs"
  by (simp add: tidy_def names_ok_def)

lemma tidy_set: "tidy fs \<Longrightarrow> list_all plain_segment p \<Longrightarrow> tidy (set_node p v fs)"
  by (auto simp: tidy_def names_ok_def set_node_def list_all_iff distinct_map_filter)

lemma tidy_drop: "tidy fs \<Longrightarrow> tidy (drop_nodes P fs)"
  by (auto simp: tidy_def names_ok_def drop_nodes_def list_all_iff distinct_map_filter)

lemma tidy_syscall:
  assumes "\<And>fs. tidy fs \<Longrightarrow> tidy (snd (f fs))" "tidy fs"
  shows "tidy (snd (syscall f fs))"
  using assms by (auto simp: syscall_def split: list.splits option.splits)

lemma plain_prefixes: "q \<in> set (prefixes p) \<Longrightarrow> list_all plain_segment p \<Longrightarrow> list_all plain_segment q"
  by (auto simp: prefix_def)

lemma tidy_mkdir: "tidy fs \<Longrightarrow> list_all plain_segment p \<Longrightarrow> tidy (snd (MkdirAll p fs))"
proof -
  have "tidy (fold (\<lambda>q. set_node q Dir) qs fs)" if "tidy fs" "\<forall>q\<in>set qs. list_all plain_segment q" for qs fs
    using that by (induction qs arbitrary: fs) (auto intro: tidy_set)
  then show "tidy fs \<Longrightarrow> list_all plain_segment p \<Longrightarrow> tidy (snd (MkdirAll p fs))"
    unfolding MkdirAll_def by (intro tidy_syscall) (auto dest: plain_prefixes)
qed

lemma tidy_calls:
  assumes "tidy fs" "list_all plain_segment p"
  shows "tidy (snd (OpenFile p fs))" "tidy (snd (write_file p bs fs))" "tidy (snd (close_file fs))" "tidy (snd (remove p fs))"
    "tidy (snd (stat_node p fs))"
  unfolding OpenFile_def write_file_def close_file_def remove_def stat_node_def using assms
  by (auto intro!: tidy_syscall tidy_set tidy_drop split: option.splits node.splits)

lemma tidy_copy: "tidy fs \<Longrightarrow> list_all plain_segment p \<Longrightarrow> tidy (snd (io_Copy p r n fs))"
proof (induction p r n fs rule: io_Copy.induct)
  case (1 p r n fs)
  obtain bs er r' where rd: "cappedReader_Read r copy_buffer = ((bs, er), r')" by (metis surj_pair)
  let ?wr = "if bs = [] then (Inr (), fs) else write_file p bs fs"
  obtain w fs' where w: "?wr = (w, fs')" by fastforce
  have t: "tidy fs'" using w 1(2,3) tidy_calls(2) [of fs p bs] by (auto split: if_splits)
  have IH: "tidy (snd (io_Copy p r' (n + length bs) fs'))" if "w = Inr b" "er = None" for b
    using 1(1) [OF rd [symmetric] refl w [symmetric] that t 1(3)] .
  show ?case
    by (subst io_Copy.simps) (use rd w t IH in \<open>auto split: sum.splits option.splits read_end.splits\<close>)
qed

lemma tidy_put:
  assumes "tidy fs" "resolve l k = (Inr full :: 'e storage_error + path)" "list_all plain_segment full" "Local_Put l k (r :: 'e reader) fs = (res, fs')"
  shows "tidy fs'"
proof -
  have "list_all plain_segment (butlast full)" using assms(3) by (auto simp: list_all_iff dest: in_set_butlastD)
  note mk = tidy_mkdir [OF assms(1) this]
  show ?thesis
    using assms(2,4)
  proof (cases rule: Put_steps)
    case (mkdir e)
    then show ?thesis using mk by simp
  next
    case (openf fs1 e)
    then show ?thesis using mk tidy_calls(1) [of fs1 full] assms(3) by simp
  next
    case (copied fs1 fs2 n copyErr fs3 closeErr fs4)
    have "tidy fs2" using mk tidy_calls(1) [of fs1 full] assms(3) copied by simp
    then have "tidy fs3" using tidy_copy [of fs2 full r 0] assms(3) copied(3) by simp
    then have "tidy fs4" using tidy_calls(3) [of fs3 full] assms(3) copied(4) by simp
    then show ?thesis using tidy_calls(4) [of fs4 full] assms(3) copied(5) by simp
  qed
qed

lemma plain_clean: "list_all plain_segment p \<Longrightarrow> clean_root p"
  by (auto simp: clean_root_def list_all_iff plain_segment_def)

lemma canonical_plain: "canonical_key k \<Longrightarrow> list_all plain_segment (segments k) \<and> segments k \<noteq> []"
proof -
  assume k: "canonical_key k"
  have seg: "CHR ''/'' \<notin> set s \<and> set s \<subseteq> set k" if "s \<in> set (split_on CHR ''/'' k)" for s
    using that
  proof (induction k arbitrary: s)
    case (Cons a k)
    let ?ss = "split_on CHR ''/'' k"
    have hd: "hd ?ss \<in> set ?ss" by simp
    have tl: "v \<in> set ?ss" if "v \<in> set (tl ?ss)" for v using that list.set_sel(2) [of ?ss] by simp
    consider "a = CHR ''/''" "s = [] \<or> s \<in> set ?ss" | "a \<noteq> CHR ''/''" "s = a # hd ?ss" | "s \<in> set (tl ?ss)"
      using Cons.prems by (auto simp: Let_def split: if_splits)
    then show ?case
    proof cases
      case 1
      then show ?thesis using Cons.IH [of s] by auto
    next
      case 2
      then show ?thesis using Cons.IH [OF hd] by auto
    next
      case 3
      then show ?thesis using Cons.IH [OF tl [OF 3]] by auto
    qed
  qed simp
  then show ?thesis
    using k segments_canonical [OF k] by (auto simp: canonical_key_def validateKey_def list_all_iff plain_segment_def)
qed

lemma disk_ok_parts: "disk_ok l fs \<longleftrightarrow> tidy fs \<and> list_all plain_segment (root l) \<and> \<not> is_file (node_at fs (root l))"
  by (auto simp: disk_ok_def tidy_def)

lemma disk_read: "entries fs' = entries fs \<Longrightarrow> disk_ok l fs' = disk_ok l fs \<and> local_stored l fs' = local_stored l fs"
  by (simp add: disk_ok_def names_ok_def local_stored_def fun_eq_iff)

lemma disk_put:
  assumes "disk_ok l fs" "canonical_key k" "Local_Put l k (r :: 'e reader) fs = (res, fs')"
  shows "disk_ok l fs' \<and> (\<forall>k'. canonical_key k' \<longrightarrow> k' \<noteq> k \<longrightarrow> local_stored l fs' k' = local_stored l fs k')"
proof -
  note parts = assms(1) [unfolded disk_ok_parts] and seg = canonical_plain [OF assms(2)]
  have full: "resolve l k = (Inr (root l @ segments k) :: 'e storage_error + path)"
    using canonical_resolve plain_clean parts assms(2) by blast
  have grow: "grows_to (root l @ segments k) fs fs'" by (rule Put_frame [OF full assms(3)])
  have "tidy fs'" using tidy_put [OF _ full _ assms(3)] parts seg by simp
  moreover have "\<not> is_file (node_at fs' (root l))" using grows_to_file(1) [OF grow, of "root l"] parts seg by simp
  ultimately show ?thesis using parts stored_grows [OF grow assms(2)] by (simp add: disk_ok_parts)
qed

lemma disk_delete:
  assumes "disk_ok l fs" "canonical_key k" "Local_Delete l k fs = (res, fs')"
  shows "disk_ok l fs' \<and> (\<forall>k'. canonical_key k' \<longrightarrow> k' \<noteq> k \<longrightarrow> local_stored l fs' k' = local_stored l fs k')"
proof -
  note parts = assms(1) [unfolded disk_ok_parts] and seg = canonical_plain [OF assms(2)]
  have root: "clean_root (root l)" using parts plain_clean by blast
  have same: "same_but (root l @ segments k) fs fs'" by (rule Delete_local [OF root assms(2,3)])
  have "tidy fs'"
    using assms(3) tidy_calls(4) [of fs "root l @ segments k"] parts seg
    by (auto simp: Local_Delete_def canonical_resolve [OF root assms(2)] split: prod.splits sum.splits if_splits)
  moreover have "local_stored l fs' k' = local_stored l fs k'" if "canonical_key k'" "k' \<noteq> k" for k'
  proof -
    have "root l @ segments k' \<noteq> root l @ segments k" using canonical_inj [OF that(1) assms(2)] that(2) by auto
    then show ?thesis using same by (simp add: same_but_def local_stored_def)
  qed
  moreover have "node_at fs' (root l) = node_at fs (root l)" using same seg by (simp add: same_but_def)
  ultimately show ?thesis using parts by (simp add: disk_ok_parts)
qed

lemma disk_list:
  assumes "disk_ok l fs" "Local_ListAllKeys l fs = (res, fs')"
  shows "entries fs' = entries fs" "res = Inr ks \<Longrightarrow> list_all (\<lambda>k. canonical_key k \<and> local_stored l fs k \<noteq> None) ks"
proof -
  note parts = assms(1) [unfolded disk_ok_parts]
  obtain r fs1 where st: "stat_node (root l) fs = (r, fs1)" by fastforce
  have fs1: "entries fs1 = entries fs" "fs' = fs1" "res = Inr ks \<Longrightarrow> ks = [] \<or> ks = map fst (walk_files l (root l) fs1)"
    using assms(2) st stat_node_read [OF st]
    by (auto simp: Local_ListAllKeys_def Local_ListAllObjects_def op_simps comp_def split_beta split: sum.splits if_splits)
  then show "entries fs' = entries fs" by simp
  assume "res = Inr ks"
  then have ks: "ks = [] \<or> ks = map fst (walk_files l (root l) fs1)" by (rule fs1(3))
  have "canonical_key k \<and> local_stored l fs k \<noteq> None" if k: "k \<in> set ks" for k
  proof -
    obtain p v where e: "(p, v) \<in> set (entries fs)" "prefix (root l) p" "k = join_slash (Rel (root l) p)" "v \<noteq> Dir"
      using k ks fs1(1) by (auto simp: walk_files_def)
    then obtain ts where p: "p = root l @ ts" by (auto simp: prefix_def)
    have at: "node_at fs p = Some v" using e(1) parts by (auto simp: tidy_def)
    then have "ts \<noteq> []" using e(4) parts p by (cases v) (auto simp: is_file_def)
    moreover have "list_all plain_segment ts" using e(1) parts p by (auto simp: tidy_def names_ok_def list_all_iff)
    ultimately show ?thesis using join_canonical [of ts] e(3,4) p at by (cases v) (auto simp: local_stored_def)
  qed
  then show "list_all (\<lambda>k. canonical_key k \<and> local_stored l fs k \<noteq> None) ks" by (simp add: list_all_iff)
qed

lemma local_Store_ops [simp]:
  "st_backend (local_Store l) = local_backend l" "st_Put (local_Store l) = Local_Put l"
  "st_ListAllKeys (local_Store l) = Some (Local_ListAllKeys l)" "st_Describe (local_Store l) = Local_Describe l"
  "be_Delete (local_backend l) = Local_Delete l" "be_Put (local_backend l) k c = Local_Put l k (plain_body c)"
  by (simp_all add: local_Store_def local_backend_def)

interpretation local_disk: migration_store "local_Store l" "disk_ok l" "local_stored l" canonical_key for l
proof unfold_locales
  fix s k res s' assume "disk_ok l s" "st_Open (local_Store l) k s = (res, s')"
  then have "entries s' = entries s"
    by (auto simp: local_backend_def split: prod.splits sum.splits node.splits dest: Open_entries)
  from disk_read [OF this] show "disk_ok l s' \<and> local_stored l s' = local_stored l s" using \<open>disk_ok l s\<close> by simp
next
  fix s k c s' assume s: "disk_ok l s" and k: "canonical_key k" and "st_Open (local_Store l) k s = (Inr (c, False), s')"
  then have "Local_Open l k s = (Inr (File c) :: unit storage_error + node, s')"
    by (auto simp: local_backend_def split: prod.splits sum.splits node.splits)
  moreover have "clean_root (root l)" using s plain_clean by (simp add: disk_ok_def)
  ultimately have "node_at s (root l @ segments k) = Some (File c)"
    by (auto simp: Local_Open_def canonical_resolve [OF _ k] split: prod.splits sum.splits dest: stat_node_ok)
  then show "local_stored l s k = Some c" by (simp add: local_stored_def)
next
  fix s k r n s' assume "disk_ok l s" "canonical_key k" "st_Put (local_Store l) k r s = (Inr n, s')"
  moreover from this have "resolve l k = (Inr (root l @ segments k) :: unit storage_error + path)"
    using canonical_resolve plain_clean by (auto simp: disk_ok_def)
  ultimately show "snd (drain r) = EOF" using Put_stored by fastforce
next
  fix s k r res' s' assume "disk_ok l s" "canonical_key k" "st_Put (local_Store l) k r s = (res', s')"
  then show "disk_ok l s' \<and> (\<forall>k'. canonical_key k' \<longrightarrow> k' \<noteq> k \<longrightarrow> local_stored l s' k' = local_stored l s k')"
    unfolding local_Store_ops by (rule disk_put)
next
  fix s k c res' s' assume "disk_ok l s" "canonical_key k" "be_Put (st_backend (local_Store l)) k c s = (res', s')"
  then show "disk_ok l s' \<and> (\<forall>k'. canonical_key k' \<longrightarrow> k' \<noteq> k \<longrightarrow> local_stored l s' k' = local_stored l s k')"
    unfolding local_Store_ops by (rule disk_put)
next
  fix s k res'' s' assume "disk_ok l s" "canonical_key k" "st_Delete (local_Store l) k s = (res'', s')"
  then show "disk_ok l s' \<and> (\<forall>k'. canonical_key k' \<longrightarrow> k' \<noteq> k \<longrightarrow> local_stored l s' k' = local_stored l s k')"
    unfolding local_Store_ops by (rule disk_delete)
next
  fix s ls lres s' assume s: "disk_ok l s" and "st_ListAllKeys (local_Store l) = Some ls" "ls s = (lres, s')"
  then have "Local_ListAllKeys l s = (lres, s')" by simp
  from disk_read [OF disk_list(1) [OF s this]] show "disk_ok l s' \<and> local_stored l s' = local_stored l s" using s by simp
next
  fix s ls ks s' assume s: "disk_ok l s" and "st_ListAllKeys (local_Store l) = Some ls" "ls s = (Inr ks, s')"
  then have "Local_ListAllKeys l s = (Inr ks :: unit storage_error + _, s')" by simp
  from disk_list(2) [OF s this refl] show "list_all (\<lambda>k. canonical_key k \<and> local_stored l s k \<noteq> None) ks" .
qed

section \<open>Stores that share no state\<close>

text \<open>A store as a part of a larger state, that \<open>rd\<close> reads and \<open>wr\<close> replaces.\<close>

definition within :: "('s \<Rightarrow> 'a) \<Rightarrow> ('a \<Rightarrow> 's \<Rightarrow> 's) \<Rightarrow> ('a \<Rightarrow> 'r \<times> 'a) \<Rightarrow> 's \<Rightarrow> 'r \<times> 's" where
  "within rd wr f s = (case f (rd s) of (r, a) \<Rightarrow> (r, wr a s))"

definition part :: "('s \<Rightarrow> 'a) \<Rightarrow> ('a \<Rightarrow> 's \<Rightarrow> 's) \<Rightarrow> ('a, 'e) Store \<Rightarrow> ('s, 'e) Store" where
  "part rd wr h = (let b = st_backend h in
     \<lparr>st_backend = \<lparr>be_ListKeys = map_option (\<lambda>ls p. within rd wr (ls p)) (be_ListKeys b),
        be_Delete = (\<lambda>k. within rd wr (be_Delete b k)), be_Open = (\<lambda>k. within rd wr (be_Open b k)),
        be_Put = (\<lambda>k c. within rd wr (be_Put b k c)), be_NotFound = be_NotFound b,
        be_ObjectStore = map_option (within rd wr) (be_ObjectStore b)\<rparr>,
      st_Describe = st_Describe h, st_ListAllKeys = map_option (within rd wr) (st_ListAllKeys h),
      st_ListAllObjects = map_option (within rd wr) (st_ListAllObjects h),
      st_Put = (\<lambda>k r. within rd wr (st_Put h k r)), st_Exists = (\<lambda>k. within rd wr (st_Exists h k)),
      st_InvalidKey = st_InvalidKey h\<rparr>)"

lemma part_ops [simp]:
  "st_Open (part rd wr h) k = within rd wr (st_Open h k)" "st_Delete (part rd wr h) k = within rd wr (st_Delete h k)"
  "be_Put (st_backend (part rd wr h)) k c = within rd wr (be_Put (st_backend h) k c)"
  "st_Put (part rd wr h) k r = within rd wr (st_Put h k r)" "st_Describe (part rd wr h) = st_Describe h"
  "st_ListAllKeys (part rd wr h) = map_option (within rd wr) (st_ListAllKeys h)"
  "st_NotFound (part rd wr h) = st_NotFound h" "st_InvalidKey (part rd wr h) = st_InvalidKey h"
  by (simp_all add: part_def Let_def)

lemma withinE:
  assumes "within rd wr f s = (r, s')"
  obtains a where "f (rd s) = (r, a)" "s' = wr a s"
  using assms by (auto simp: within_def split: prod.splits)

locale lens =
  fixes rd :: "'s \<Rightarrow> 'a" and wr :: "'a \<Rightarrow> 's \<Rightarrow> 's" and rest :: "'s \<Rightarrow> bool"
  assumes rd_wr [simp]: "rd (wr a s) = a" and rest_wr [simp]: "rest (wr a s) = rest s"
begin

lemma part_store:
  assumes "migration_store h ok view good"
  shows "migration_store (part rd wr h) (\<lambda>s. ok (rd s) \<and> rest s) (\<lambda>s. view (rd s)) good"
proof -
  from assms have h: "migration_store h ok view good" .
  show ?thesis
  proof (unfold_locales, unfold part_ops, goal_cases)
    case (1 s k res s')
    then show ?case using migration_store.open_keeps [OF h] by (auto elim!: withinE)
  next
    case (2 s k c s')
    then show ?case using migration_store.open_held [OF h] by (auto elim!: withinE)
  next
    case (3 s k r res' s')
    then show ?case using migration_store.put_frame [OF h] by (fastforce elim!: withinE)
  next
    case (4 s k r n s')
    then show ?case using migration_store.put_whole [OF h] by (fastforce elim!: withinE)
  next
    case (5 s k c res' s')
    then show ?case using migration_store.mark_frame [OF h] by (fastforce elim!: withinE)
  next
    case (6 s k res'' s')
    then show ?case using migration_store.delete_frame [OF h] by (fastforce elim!: withinE)
  next
    case (7 s ls lres s')
    then show ?case using migration_store.list_keeps [OF h] by (fastforce elim!: withinE)
  next
    case (8 s ls ks s')
    then show ?case using migration_store.list_held [OF h] by (fastforce elim!: withinE)
  qed
qed

lemma part_effects:
  "f \<in> store_effects (part rd wr h) \<Longrightarrow> \<exists>a. f s = wr a s"
  by (auto simp: store_effects_def within_def split_beta split: option.splits)

end

abbreviation first_store :: "('a, 'e) Store \<Rightarrow> ('a \<times> 'b, 'e) Store" where
  "first_store \<equiv> part fst (\<lambda>a. apfst (\<lambda>_. a))"

abbreviation second_store :: "('b, 'e) Store \<Rightarrow> ('a \<times> 'b, 'e) Store" where
  "second_store \<equiv> part snd (\<lambda>b. apsnd (\<lambda>_. b))"

interpretation first: lens fst "\<lambda>a. apfst (\<lambda>_. a)" "\<lambda>s. Q (snd s)" for Q
  by unfold_locales auto

interpretation second: lens snd "\<lambda>b. apsnd (\<lambda>_. b)" "\<lambda>s. Q (fst s)" for Q
  by unfold_locales auto

lemma two_stores:
  fixes h1 :: "('a, 'e) Store" and h2 :: "('b, 'e) Store"
  assumes "migration_store h1 ok1 view1 good" "migration_store h2 ok2 view2 good" "good OwnerMarkerKey"
    and "st_Describe h1 \<noteq> st_Describe h2" "st_Describe h1 \<noteq> []" "st_Describe h2 \<noteq> []"
  shows "store_pair (first_store h1) (second_store h2) (\<lambda>s. ok1 (fst s) \<and> ok2 (snd s)) (\<lambda>s. view1 (fst s)) (\<lambda>s. view2 (snd s)) good"
proof -
  have "migration_store (second_store h2) (\<lambda>s. ok1 (fst s) \<and> ok2 (snd s)) (\<lambda>s. view2 (snd s)) good"
    using second.part_store [OF assms(2), of ok1] by (simp add: conj_commute)
  moreover note first.part_store [OF assms(1), of ok2]
  moreover have "view2 (snd (f s)) = view2 (snd s)" if "f \<in> store_effects (first_store h1)" for f and s :: "'a \<times> 'b"
    using first.part_effects [OF that, of s] by auto
  moreover have "view1 (fst (f s)) = view1 (fst s)" if "f \<in> store_effects (second_store h2)" for f and s :: "'a \<times> 'b"
    using second.part_effects [OF that, of s] by auto
  ultimately show ?thesis using assms(3-6) by (intro store_pair.intro store_pair_axioms.intro) auto
qed

text \<open>Two directories of the host, on separate file systems.\<close>

interpretation two_disks: store_pair "first_store (local_Store \<lparr>root = [''srv'', ''media'']\<rparr>)" "second_store (local_Store \<lparr>root = [''mnt'', ''media'']\<rparr>)"
  "\<lambda>s. disk_ok \<lparr>root = [''srv'', ''media'']\<rparr> (fst s) \<and> disk_ok \<lparr>root = [''mnt'', ''media'']\<rparr> (snd s)"
  "\<lambda>s. local_stored \<lparr>root = [''srv'', ''media'']\<rparr> (fst s)" "\<lambda>s. local_stored \<lparr>root = [''mnt'', ''media'']\<rparr> (snd s)" canonical_key
proof (rule two_stores [OF local_disk.migration_store_axioms local_disk.migration_store_axioms])
  show "canonical_key OwnerMarkerKey" by code_simp
qed (simp_all add: Local_Describe_def)

section \<open>A bucket\<close>

text \<open>
  An object store whose writes take effect whole or not at all: the behaviour S3 documents for PUT,
  GET, DELETE and LIST, with the objects as an association list.
\<close>

type_synonym bucket = "(string \<times> string) list"

definition bucket_Put :: "string \<Rightarrow> 'e reader \<Rightarrow> bucket \<Rightarrow> (unit storage_error + nat) \<times> bucket" where
  "bucket_Put k r s = (case drain r of
      (c, EOF) \<Rightarrow> (Inr (length c), (k, c) # filter (\<lambda>e. fst e \<noteq> k) s)
    | (c, Failing _) \<Rightarrow> (Inl (Unclassified (Reader ())), s))"

definition bucket_Store :: "string \<Rightarrow> (bucket, unit storage_error) Store" where
  "bucket_Store d = \<lparr>st_backend = \<lparr>be_ListKeys = Some (\<lambda>p s. (Inr (filter (prefix p) (map fst s)), s)),
        be_Delete = (\<lambda>k s. (Inr (), filter (\<lambda>e. fst e \<noteq> k) s)),
        be_Open = (\<lambda>k s. (case map_of s k of None \<Rightarrow> Inl ErrObjectNotFound | Some c \<Rightarrow> Inr (c, False), s)),
        be_Put = (\<lambda>k c. bucket_Put k (plain_body c :: unit reader)), be_NotFound = (\<lambda>e. e = ErrObjectNotFound), be_ObjectStore = None\<rparr>,
     st_Describe = d, st_ListAllKeys = Some (\<lambda>s. (Inr (map fst s), s)),
     st_ListAllObjects = Some (\<lambda>s. (Inr (map (\<lambda>(k, c). (k, int (length c))) s), s)), st_Put = bucket_Put,
     st_Exists = (\<lambda>k s. (Inr (map_of s k \<noteq> None), s)), st_InvalidKey = (\<lambda>e. e = ErrInvalidKey)\<rparr>"

lemma map_of_without: "map_of (filter (\<lambda>e. fst e \<noteq> k) s) k' = (if k' = k then None else map_of s k')"
  by (induction s) auto

interpretation bucket: migration_store "bucket_Store d" "\<lambda>_. True" map_of "\<lambda>_. True" for d
  by unfold_locales (auto simp: bucket_Store_def bucket_Put_def map_of_without list_all_iff map_of_eq_None_iff
      split: prod.splits read_end.splits option.splits)

abbreviation near :: "(bucket \<times> bucket, unit storage_error) Store" where
  "near \<equiv> first_store (bucket_Store ''near'')"

abbreviation far :: "(bucket \<times> bucket, unit storage_error) Store" where
  "far \<equiv> second_store (bucket_Store ''far'')"

interpretation two_buckets: store_pair near far "\<lambda>_. True \<and> True" "\<lambda>s. map_of (fst s)" "\<lambda>s. map_of (snd s)" "\<lambda>_. True"
  by (rule two_stores [OF bucket.migration_store_axioms bucket.migration_store_axioms]) (simp_all add: bucket_Store_def)

end
