(* ===== verification/Migration_Run.thy ===== *)
theory Migration_Run
  imports Migration_Stores
begin

text \<open>
  A storage migration that nothing disturbs, followed from its start to its end: the state of the
  campaign and of its ledger after every pass, for stores of which every call succeeds (the locale
  \<open>reliable_store\<close>) and a database without faults. The number of passes is exact: a copy pass moves
  as many objects as its batch, a deleting sweep \<open>deleteBatch\<close>.
\<close>

section \<open>The database between passes\<close>

definition quiet :: "mig_world \<Rightarrow> bool" where
  "quiet w \<longleftrightarrow> w_faults w = [] \<and> m_ctx w = []"

lemma db_quiet: "quiet w \<Longrightarrow> db q (w, s) = (Inr (fst (q w)), (snd (q w), s))"
  by (simp add: db_def quiet_def repo_healthy healthy_noop split: prod.splits)

lemma ctx_quiet: "quiet w \<Longrightarrow> ctx_Err (w, s) = (Inr (), (w, s))"
  by (cases w) (simp add: ctx_Err_def quiet_def)

lemma bind_run: "m x = (Inr a, y) \<Longrightarrow> bindE m k x = k a y"
  by (simp add: bindE_def)

lemma attempt_run: "m x = (Inr a, y) \<Longrightarrow> attempt m h k x = k a y"
  by (simp add: attempt_def catchE_def)

lemma bind_db: "quiet w \<Longrightarrow> bindE (db q) k (w, s) = k (fst (q w)) (snd (q w), s)"
  by (simp add: bindE_def db_quiet)

lemma attempt_db: "quiet w \<Longrightarrow> attempt (db q) h k (w, s) = k (fst (q w)) (snd (q w), s)"
  by (simp add: attempt_def catchE_def db_quiet)

text \<open>
  The campaign \<open>i\<close> from \<open>dA\<close> to \<open>dB\<close> is the newest and all others are over; the ledger has the keys
  \<open>ks\<close>, each in the state \<open>\<sigma>\<close> gives it; \<open>seen\<close> is when a cutover was observed.
\<close>

record migrating =
  g_id :: nat
  g_from :: string
  g_to :: string
  g_hashes :: "string \<Rightarrow> string option"
  g_identity :: string

definition campaign_in :: "migrating \<Rightarrow> mig_state \<Rightarrow> int option \<Rightarrow> mig_world \<Rightarrow> bool" where
  "campaign_in g st seen w \<longleftrightarrow> (\<exists>c cs. m_camps w = c # cs \<and> mg_ID c = g_id g \<and> mg_SourceDesc c = g_from g \<and> mg_TargetDesc c = g_to g \<and>
     mg_State c = st \<and> mg_ObservedCutoverAt c = seen \<and> (\<forall>d\<in>set cs. mg_ID d \<noteq> g_id g \<and> terminal_state (mg_State d)))"

definition ledger_in :: "migrating \<Rightarrow> string list \<Rightarrow> (string \<Rightarrow> object_state) \<Rightarrow> mig_world \<Rightarrow> bool" where
  "ledger_in g ks \<sigma> w \<longleftrightarrow> map ob_Key (m_objs w) = ks \<and> (\<forall>o'\<in>set (m_objs w). ob_Campaign o' = g_id g \<and> ob_State o' = \<sigma> (ob_Key o') \<and>
     (ob_State o' = ObjectPending \<longrightarrow> ob_NextAttemptAt o' \<le> w_now w))"

definition stage :: "migrating \<Rightarrow> mig_state \<Rightarrow> int option \<Rightarrow> string list \<Rightarrow> (string \<Rightarrow> object_state) \<Rightarrow> int \<Rightarrow> mig_world \<Rightarrow> bool" where
  "stage g st seen ks \<sigma> now w \<longleftrightarrow> quiet w \<and> campaign_in g st seen w \<and> ledger_in g ks \<sigma> w \<and> w_now w = now \<and> distinct ks \<and>
     m_hashes w = g_hashes g \<and> m_identity w = g_identity g"

lemma stage_quiet: "stage g st seen ks \<sigma> now w \<Longrightarrow> quiet w"
  by (simp add: stage_def)

lemma stage_cong: "stage g st seen ks \<sigma> now w \<Longrightarrow> (\<And>k. k \<in> set ks \<Longrightarrow> \<sigma> k = \<tau> k) \<Longrightarrow> stage g st seen ks \<tau> now w"
  by (auto simp: stage_def ledger_in_def)

lemma active_stage:
  assumes "stage g st seen ks \<sigma> now w" "\<not> terminal_state st"
  obtains c where "GetActiveStorageMigration w = (Some c, w)" "mg_ID c = g_id g" "mg_State c = st" "mg_SourceDesc c = g_from g"
    "mg_TargetDesc c = g_to g" "mg_ObservedCutoverAt c = seen"
proof -
  obtain c cs where c: "m_camps w = c # cs" "mg_ID c = g_id g" "mg_SourceDesc c = g_from g" "mg_TargetDesc c = g_to g"
    "mg_State c = st" "mg_ObservedCutoverAt c = seen" "\<forall>d\<in>set cs. terminal_state (mg_State d)"
    using assms(1) by (auto simp: stage_def campaign_in_def)
  then have "filter (\<lambda>c. \<not> terminal_state (mg_State c)) (m_camps w) = [c]" using assms(2) by simp
  then show thesis using that c by (simp add: GetActiveStorageMigration_def newest_first_def)
qed

lemma inactive_stage:
  assumes "stage g st seen ks \<sigma> now w" "terminal_state st"
  shows "GetActiveStorageMigration w = (None, w)"
proof -
  have "\<forall>c\<in>set (m_camps w). terminal_state (mg_State c)"
    using assms by (auto simp: stage_def campaign_in_def)
  then show ?thesis by (simp add: GetActiveStorageMigration_def newest_first_def)
qed

text \<open>Statements on the campaign.\<close>

lemma update_camp_stage:
  assumes "stage g st seen ks \<sigma> now w"
    and "\<And>c. mg_ID (f c) = mg_ID c \<and> mg_SourceDesc (f c) = mg_SourceDesc c \<and> mg_TargetDesc (f c) = mg_TargetDesc c"
    and "\<And>c. mg_State c = st \<Longrightarrow> mg_ObservedCutoverAt c = seen \<Longrightarrow> P c \<Longrightarrow> mg_State (f c) = st' \<and> mg_ObservedCutoverAt (f c) = seen'"
    and "\<And>c. mg_State c = st \<Longrightarrow> mg_ObservedCutoverAt c = seen \<Longrightarrow> \<not> P c \<Longrightarrow> st' = st \<and> seen' = seen"
  shows "stage g st' seen' ks \<sigma> now (snd (update_camp (g_id g) P f w))"
proof -
  let ?u = "\<lambda>c. if mg_ID c = g_id g \<and> P c then (f c)\<lparr>mg_UpdatedAt := w_now w\<rparr> else c"
  obtain c cs where c: "m_camps w = c # cs" "mg_ID c = g_id g" "mg_SourceDesc c = g_from g" "mg_TargetDesc c = g_to g"
    "mg_State c = st" "mg_ObservedCutoverAt c = seen" "\<forall>d\<in>set cs. mg_ID d \<noteq> g_id g \<and> terminal_state (mg_State d)"
    using assms(1) by (auto simp: stage_def campaign_in_def)
  have "map ?u cs = cs" using c(7) by (auto intro: map_idI)
  then have "m_camps (snd (update_camp (g_id g) P f w)) = ?u c # cs" using c(1) by (simp add: update_camp_def)
  moreover have "mg_ID (?u c) = g_id g \<and> mg_SourceDesc (?u c) = g_from g \<and> mg_TargetDesc (?u c) = g_to g \<and>
      mg_State (?u c) = st' \<and> mg_ObservedCutoverAt (?u c) = seen'"
    using c assms(2) [of c] assms(3) [OF c(5,6)] assms(4) [OF c(5,6)] by auto
  ultimately have "campaign_in g st' seen' (snd (update_camp (g_id g) P f w))" using c(7) unfolding campaign_in_def by blast
  then show ?thesis using assms(1) by (auto simp: stage_def quiet_def ledger_in_def update_camp_def)
qed

lemma refresh_stage: "stage g st seen ks \<sigma> now w \<Longrightarrow> \<exists>w'. refresh (g_id g) (w, s) = (Inr (), (w', s)) \<and> stage g st seen ks \<sigma> now w'"
  by (auto simp: refresh_def bind_db [OF stage_quiet] retE_apply RefreshStorageMigrationCounters_def Let_def
      intro!: update_camp_stage)

lemma setState_stage:
  assumes "stage g st seen ks \<sigma> now w" "\<not> terminal_state st"
  shows "\<exists>w'. setState (g_id g) st' (w, s) = (Inr (), (w', s)) \<and> stage g st' seen ks \<sigma> now w'"
  using assms by (auto simp: setState_def bind_db [OF stage_quiet] retE_apply SetStorageMigrationState_def
      intro!: update_camp_stage)

lemma cutover_stage:
  assumes "stage g st None ks \<sigma> now w" "st \<in> {StateCopying, StateSynced}"
  shows "stage g StateCutover (Some now) ks \<sigma> now (snd (MarkStorageMigrationCutover (g_id g) w))"
proof -
  have "w_now w = now" using assms(1) by (simp add: stage_def)
  then show ?thesis
    unfolding MarkStorageMigrationCutover_def using assms by (intro update_camp_stage [OF assms(1)]) auto
qed

lemma stamp_stage: "stage g st seen ks \<sigma> now w \<Longrightarrow> \<exists>w'. stampWorker sv (g_id g) (w, s) = (Inr (), (w', s)) \<and> stage g st seen ks \<sigma> now w'"
proof (cases "sv_workerID sv = []")
  case False
  assume st: "stage g st seen ks \<sigma> now w"
  let ?w = "snd (SetStorageMigrationWorker (g_id g) (sv_workerID sv) w)"
  have "campaign_in g st seen ?w"
    using st by (fastforce simp: stage_def campaign_in_def SetStorageMigrationWorker_def)
  then have "stage g st seen ks \<sigma> now ?w"
    using st by (auto simp: stage_def quiet_def ledger_in_def SetStorageMigrationWorker_def)
  then show ?thesis
    using False by (simp add: stampWorker_def attempt_db [OF stage_quiet [OF st]] retE_apply)
qed (auto simp: stampWorker_def retE_apply)

text \<open>Statements on the ledger.\<close>

lemma count_stage:
  assumes "stage g st seen ks \<sigma> now w"
  shows "count_objs (g_id g) sts w = int (length (filter (\<lambda>k. \<sigma> k \<in> sts) ks))"
proof -
  have "filter (\<lambda>o'. ob_Campaign o' = g_id g \<and> ob_State o' \<in> sts) (m_objs w) = filter (\<lambda>o'. \<sigma> (ob_Key o') \<in> sts) (m_objs w)"
    using assms by (intro filter_cong) (auto simp: stage_def ledger_in_def)
  moreover have "ks = map ob_Key (m_objs w)" using assms by (simp add: stage_def ledger_in_def)
  ultimately show ?thesis by (simp add: count_objs_def filter_map comp_def)
qed

lemma verified_stage:
  assumes "stage g st seen ks \<sigma> now w"
  shows "verified_keys (g_id g) w = sort (filter (\<lambda>k. \<sigma> k = ObjectVerified) ks)"
proof -
  have "filter (\<lambda>o'. ob_Campaign o' = g_id g \<and> ob_State o' = ObjectVerified) (m_objs w) = filter (\<lambda>o'. \<sigma> (ob_Key o') = ObjectVerified) (m_objs w)"
    using assms by (intro filter_cong) (auto simp: stage_def ledger_in_def)
  moreover have "ks = map ob_Key (m_objs w)" using assms by (simp add: stage_def ledger_in_def)
  ultimately show ?thesis by (simp add: verified_keys_def filter_map comp_def)
qed

lemma update_objs_stage:
  assumes "stage g st seen ks \<sigma> now w"
    and "\<And>o'. ob_Key (f o') = ob_Key o' \<and> ob_Campaign (f o') = ob_Campaign o' \<and> ob_State (f o') \<noteq> ObjectPending"
    and "\<And>o'. o' \<in> set (m_objs w) \<Longrightarrow> \<tau> (ob_Key o') = (if P o' then ob_State (f o') else \<sigma> (ob_Key o'))"
  shows "stage g st seen ks \<tau> now (snd (update_objs P f w))"
proof -
  have "map ob_Key (m_objs (snd (update_objs P f w))) = map ob_Key (m_objs w)"
    using assms(2) by (simp add: update_objs_def)
  moreover have "ob_Campaign o' = g_id g \<and> ob_State o' = \<tau> (ob_Key o') \<and> (ob_State o' = ObjectPending \<longrightarrow> ob_NextAttemptAt o' \<le> w_now w)"
    if o': "o' \<in> set (m_objs (snd (update_objs P f w)))" for o'
  proof -
    obtain p where p: "p \<in> set (m_objs w)" "o' = (if P p then (f p)\<lparr>ob_UpdatedAt := w_now w\<rparr> else p)"
      using o' by (auto simp: update_objs_def)
    then show ?thesis using assms(1) assms(2,3) [of p] by (auto simp: stage_def ledger_in_def)
  qed
  ultimately show ?thesis using assms(1) by (auto simp: stage_def quiet_def ledger_in_def campaign_in_def update_objs_def)
qed

lemma verify_stage:
  assumes "stage g st seen ks \<sigma> now w" "\<sigma> k = ObjectCopying"
  shows "stage g st seen ks (\<sigma>(k := ObjectVerified)) now (snd (MarkStorageMigrationObjectVerified k d n w))"
  unfolding MarkStorageMigrationObjectVerified_def
  by (rule update_objs_stage [OF assms(1)]) (use assms in \<open>auto simp: stage_def ledger_in_def\<close>)

lemma source_deleted_stage:
  assumes "stage g st seen ks \<sigma> now w" "\<sigma> k = ObjectVerified"
  shows "stage g st seen ks (\<sigma>(k := ObjectSourceDeleted)) now (snd (MarkStorageMigrationObjectSourceDeleted k w))"
  unfolding MarkStorageMigrationObjectSourceDeleted_def
  by (rule update_objs_stage [OF assms(1)]) (use assms in \<open>auto simp: stage_def ledger_in_def\<close>)

lemma claim_stage:
  assumes "stage g st seen ks \<sigma> now w" "st \<in> {StateCopying, StateSynced}"
  obtains rows w' where "ClaimDueStorageMigrationObjects n w = (rows, w')" "distinct (map fst rows)"
    "set (map fst rows) \<subseteq> {k \<in> set ks. \<sigma> k = ObjectPending}" "length rows = min n (length (filter (\<lambda>k. \<sigma> k = ObjectPending) ks))"
    "stage g st seen ks (\<lambda>k. if k \<in> set (map fst rows) then ObjectCopying else \<sigma> k) now w'"
proof -
  let ?due = "take n (sort_key (\<lambda>o'. (ob_NextAttemptAt o', ob_Key o')) (filter (claimable_object w) (m_objs w)))"
  let ?rows = "map (\<lambda>o'. (ob_Key o', ob_Campaign o', ob_Attempts o')) ?due"
  let ?w' = "snd (update_objs (\<lambda>o'. ob_Key o' \<in> set (map ob_Key ?due))
            (\<lambda>o'. o'\<lparr>ob_State := ObjectCopying, ob_NextAttemptAt := w_now w + lease_Duration\<rparr>) w)"
  have st: "map ob_Key (m_objs w) = ks" "distinct ks"
    "\<forall>o'\<in>set (m_objs w). ob_Campaign o' = g_id g \<and> ob_State o' = \<sigma> (ob_Key o') \<and> (ob_State o' = ObjectPending \<longrightarrow> ob_NextAttemptAt o' \<le> w_now w)"
    using assms(1) by (auto simp: stage_def ledger_in_def)
  have "list_ex (\<lambda>c. mg_ID c = g_id g \<and> mg_State c \<in> {StateCopying, StateSynced}) (m_camps w)"
    using assms by (auto simp: stage_def campaign_in_def)
  then have flt: "filter (claimable_object w) (m_objs w) = filter (\<lambda>o'. \<sigma> (ob_Key o') = ObjectPending) (m_objs w)"
    using st(3) by (intro filter_cong) (auto simp: claimable_object_def)
  have due: "set ?due \<subseteq> {o' \<in> set (m_objs w). \<sigma> (ob_Key o') = ObjectPending}"
    unfolding flt by (auto dest: in_set_takeD)
  have rows: "ClaimDueStorageMigrationObjects n w = (?rows, ?w')"
    by (simp add: ClaimDueStorageMigrationObjects_def Let_def)
  have fst_rows: "map fst ?rows = map ob_Key ?due" by simp
  have "distinct (map ob_Key (sort_key (\<lambda>o'. (ob_NextAttemptAt o', ob_Key o')) (filter (claimable_object w) (m_objs w))))"
    using st(1,2) by (auto simp: distinct_map inj_on_def)
  then have "distinct (map fst ?rows)" unfolding fst_rows by (metis distinct_take take_map)
  moreover have "set (map fst ?rows) \<subseteq> {k \<in> set ks. \<sigma> k = ObjectPending}" unfolding fst_rows using due st(1) by auto
  moreover have "length ?rows = min n (length (filter (\<lambda>k. \<sigma> k = ObjectPending) ks))"
    by (simp add: flt st(1) [symmetric] filter_map comp_def min.commute)
  moreover have "stage g st seen ks (\<lambda>k. if k \<in> set (map fst ?rows) then ObjectCopying else \<sigma> k) now ?w'"
    unfolding fst_rows by (rule update_objs_stage [OF assms(1)]) auto
  ultimately show thesis using that rows by blast
qed

lemma upsert_stage:
  assumes "stage g st seen ks \<sigma> now w" "distinct keys"
  defines "fresh \<equiv> filter (\<lambda>k. k \<notin> set ks) keys"
  shows "\<exists>w'. UpsertStorageMigrationObjects (g_id g) keys w = (length fresh, w') \<and>
    stage g st seen (ks @ fresh) (\<lambda>k. if k \<in> set ks then \<sigma> k else ObjectPending) now w'"
proof -
  have ks: "map ob_Key (m_objs w) = ks" using assms(1) by (simp add: stage_def ledger_in_def)
  then have "set ks = ob_Key ` set (m_objs w)" by force
  then have "UpsertStorageMigrationObjects (g_id g) keys w = (length fresh, w\<lparr>m_objs := m_objs w @ map (new_object (g_id g) (w_now w)) fresh\<rparr>)"
    using assms(2) by (simp add: UpsertStorageMigrationObjects_def Let_def fresh_def distinct_remdups_id)
  moreover have "stage g st seen (ks @ fresh) (\<lambda>k. if k \<in> set ks then \<sigma> k else ObjectPending) now
      (w\<lparr>m_objs := m_objs w @ map (new_object (g_id g) (w_now w)) fresh\<rparr>)"
    using assms(1,2) ks
    by (auto simp: stage_def quiet_def campaign_in_def ledger_in_def new_object_def comp_def fresh_def)
  ultimately show ?thesis by blast
qed

lemma upsert_chunks_stage:
  assumes "stage g st seen ks \<sigma> now w" "distinct keys"
  shows "\<exists>w'. (upsert_chunks (g_id g) keys added :: ('s, 'e, nat) mig_op) (w, s) = (Inr (added + length (filter (\<lambda>k. k \<notin> set ks) keys)), (w', s)) \<and>
    stage g st seen (ks @ filter (\<lambda>k. k \<notin> set ks) keys) (\<lambda>k. if k \<in> set ks then \<sigma> k else ObjectPending) now w'"
  using assms
proof (induction "length keys" arbitrary: keys added ks \<sigma> w rule: less_induct)
  case less
  show ?case
  proof (cases "keys = []")
    case True
    then show ?thesis using less.prems(1)
      by (intro exI [of _ w]) (auto simp: upsert_chunks.simps retE_apply intro: stage_cong)
  next
    case False
    let ?now = "take enumerateChunk keys" and ?later = "drop enumerateChunk keys"
    have split: "keys = ?now @ ?later" by simp
    have dist: "distinct ?now" "distinct ?later" "set ?now \<inter> set ?later = {}"
      using less.prems(2) by (auto simp: set_take_disj_set_drop_if_distinct)
    let ?ks = "ks @ filter (\<lambda>k. k \<notin> set ks) ?now" and ?\<sigma> = "\<lambda>k. if k \<in> set ks then \<sigma> k else ObjectPending"
    obtain w1 where w1: "UpsertStorageMigrationObjects (g_id g) ?now w = (length (filter (\<lambda>k. k \<notin> set ks) ?now), w1)"
      "stage g st seen ?ks ?\<sigma> now w1"
      using upsert_stage [OF less.prems(1) dist(1)] by blast
    have "length ?later < length keys" using False by (simp add: enumerateChunk_def)
    from less.hyps [OF this w1(2) dist(2)] obtain w2 where
      w2: "(upsert_chunks (g_id g) ?later (added + length (filter (\<lambda>k. k \<notin> set ks) ?now)) :: ('s, 'e, nat) mig_op) (w1, s) =
          (Inr (added + length (filter (\<lambda>k. k \<notin> set ks) ?now) + length (filter (\<lambda>k. k \<notin> set ?ks) ?later)), (w2, s))"
      "stage g st seen (?ks @ filter (\<lambda>k. k \<notin> set ?ks) ?later) (\<lambda>k. if k \<in> set ?ks then ?\<sigma> k else ObjectPending) now w2"
      by blast
    have "filter (\<lambda>k. k \<notin> set ?ks) ?later = filter (\<lambda>k. k \<notin> set ks) ?later"
      using dist(3) by (intro filter_cong) auto
    moreover have "filter (\<lambda>k. k \<notin> set ks) keys = filter (\<lambda>k. k \<notin> set ks) ?now @ filter (\<lambda>k. k \<notin> set ks) ?later"
      by (subst split) (simp only: filter_append)
    moreover have "(upsert_chunks (g_id g) keys added :: ('s, 'e, nat) mig_op) (w, s) =
        upsert_chunks (g_id g) ?later (added + length (filter (\<lambda>k. k \<notin> set ks) ?now)) (w1, s)"
      using False w1(1) by (subst upsert_chunks.simps) (simp add: bind_db [OF stage_quiet [OF less.prems(1)]])
    ultimately show ?thesis using w2 by (intro exI [of _ w2]) (auto intro: stage_cong)
  qed
qed

section \<open>Stores without failures\<close>

locale reliable_store =
  fixes h :: "('s, 'e) Store" and ok :: "'s \<Rightarrow> bool" and view :: "'s \<Rightarrow> string \<Rightarrow> string option" and good :: "string \<Rightarrow> bool"
  assumes opens: "ok s \<Longrightarrow> good k \<Longrightarrow> view s k = Some c \<Longrightarrow> st_Open h k s = (Inr (c, False), s)"
    and opens_nothing: "ok s \<Longrightarrow> good k \<Longrightarrow> view s k = None \<Longrightarrow> \<exists>e. st_Open h k s = (Inl e, s) \<and> st_NotFound h e"
    and puts: "ok s \<Longrightarrow> good k \<Longrightarrow> drain r = (c, EOF) \<Longrightarrow> \<exists>s'. st_Put h k r s = (Inr (length c), s') \<and> ok s' \<and>
      (\<forall>k'. good k' \<longrightarrow> view s' k' = (if k' = k then Some c else view s k'))"
    and marks: "ok s \<Longrightarrow> good k \<Longrightarrow> \<exists>n s'. be_Put (st_backend h) k c s = (Inr n, s') \<and> ok s' \<and>
      (\<forall>k'. good k' \<longrightarrow> view s' k' = (if k' = k then Some c else view s k'))"
    and deletes: "ok s \<Longrightarrow> good k \<Longrightarrow> \<exists>s'. st_Delete h k s = (Inr (), s') \<and> ok s' \<and>
      (\<forall>k'. good k' \<longrightarrow> view s' k' = (if k' = k then None else view s k'))"
    and lists: "ok s \<Longrightarrow> \<exists>ls ks. st_ListAllKeys h = Some ls \<and> ls s = (Inr ks, s) \<and> distinct ks \<and>
      set ks = {k. good k \<and> view s k \<noteq> None}"

text \<open>The digest on record for a key, where there is one, is the digest of the object.\<close>

definition recorded_right :: "migrating \<Rightarrow> (string \<Rightarrow> string) \<Rightarrow> (string \<Rightarrow> string option) \<Rightarrow> bool" where
  "recorded_right g sha lib \<longleftrightarrow> (\<forall>k c. lib k = Some c \<longrightarrow> g_hashes g k \<in> {None, Some [], Some SentinelMissing, Some (sha c)})"

locale quiet_migration = A: reliable_store h1 ok1 view1 good + B: reliable_store h2 ok2 view2 good
  for h1 :: "('a, 'e) Store" and h2 :: "('b, 'e) Store" and ok1 ok2 view1 view2 good +
  fixes svf svs :: "('a \<times> 'b, 'e) mig_Service" and g :: migrating
  assumes forward: "sv_primary svf = first_store h1" "sv_target svf = Some (second_store h2)" "targetWritable svf"
    and swapped: "sv_primary svs = second_store h2" "sv_target svs = Some (first_store h1)"
    and named: "g_from g = st_Describe h1" "g_to g = st_Describe h2" "st_Describe h1 \<noteq> st_Describe h2"
      "st_Describe h1 \<noteq> []" "st_Describe h2 \<noteq> []"
    and marker: "good OwnerMarkerKey"
begin

abbreviation sha :: "string \<Rightarrow> string" where
  "sha \<equiv> sv_sha256 svf"

lemma copy_one:
  assumes "stage g st seen ks \<sigma> now w" "\<sigma> k = ObjectCopying" "ok1 a" "ok2 b" "good k" "view1 a k = Some c"
    and "recorded_right g sha (view1 a)"
  shows "\<exists>w' b'. copyOne svf (second_store h2) (k, i, n) (w, (a, b)) = (w', (a, b')) \<and> stage g st seen ks (\<sigma>(k := ObjectVerified)) now w' \<and>
    ok2 b' \<and> (\<forall>k'. good k' \<longrightarrow> view2 b' k' = (if k' = k then Some c else view2 b k'))"
proof -
  have d: "drain (opened_body (c, False)) = (c, EOF)" by (simp add: opened_body_def)
  obtain b' where put: "st_Put h2 k (opened_body (c, False)) b = (Inr (length c), b')" and b': "ok2 b'"
    "\<forall>k'. good k' \<longrightarrow> view2 b' k' = (if k' = k then Some c else view2 b k')"
    using B.puts [OF assms(4,5) d] by blast
  have op: "st_Open h1 k a = (Inr (c, False), a)" using A.opens assms by blast
  have again: "st_Open h2 k b' = (Inr (c, False), b')" using B.opens [OF b'(1) assms(5)] b'(2) assms(5) by simp
  have "g_hashes g k \<in> {None, Some [], Some SentinelMissing, Some (sha c)}"
    using assms(6,7) by (auto simp: recorded_right_def)
  moreover have "m_hashes w = g_hashes g" using assms(1) by (simp add: stage_def)
  ultimately have hash: "\<exists>r. recordedHash k (w, (a, b')) = (Inr r, (w, (a, b'))) \<and> (r = None \<or> r = Some (sha c))"
    by (auto simp: recordedHash_def db_quiet [OF stage_quiet [OF assms(1)]] GetVideoFileSHA256ByStorageKey_def)
  have "copyAndVerify svf (second_store h2) k (w, (a, b)) = (Inr (sha c, length c), (w, (a, b')))"
    using op put again d hash
    by (auto simp: copyAndVerify_def on_store_def forward within_def PutSizedHashed_def hashTarget_def bindE_apply retE_apply)
  then have "copyOne svf (second_store h2) (k, i, n) (w, (a, b)) = (snd (MarkStorageMigrationObjectVerified k (sha c) (int (length c)) w), (a, b'))"
    by (simp add: copyOne_def logged_def ignoreE_apply db_quiet [OF stage_quiet [OF assms(1)]])
  then show ?thesis using verify_stage [OF assms(1,2)] b' by blast
qed

lemma copy_all:
  assumes "stage g st seen ks \<sigma> now w" "\<forall>k\<in>set (map fst rows). \<sigma> k = ObjectCopying \<and> good k \<and> view1 a k \<noteq> None" "ok1 a" "ok2 b"
    and "recorded_right g sha (view1 a)" "distinct (map fst rows)"
  shows "\<exists>w' b'. copy_rows svf (second_store h2) rows (w, (a, b)) = (Inr (), (w', (a, b'))) \<and> ok2 b' \<and>
    stage g st seen ks (\<lambda>k. if k \<in> set (map fst rows) then ObjectVerified else \<sigma> k) now w' \<and>
    (\<forall>k. good k \<longrightarrow> view2 b' k = (if k \<in> set (map fst rows) then view1 a k else view2 b k))"
  using assms
proof (induction rows arbitrary: w b \<sigma>)
  case Nil
  then show ?case by (auto simp: retE_apply)
next
  case (Cons row rows)
  obtain k i n where row: "row = (k, i, n)" using prod_cases3 by blast
  then obtain c where c: "\<sigma> k = ObjectCopying" "good k" "view1 a k = Some c" using Cons.prems(2) by auto
  obtain w1 b1 where one: "copyOne svf (second_store h2) row (w, (a, b)) = (w1, (a, b1))" "stage g st seen ks (\<sigma>(k := ObjectVerified)) now w1"
    "ok2 b1" "\<forall>k'. good k' \<longrightarrow> view2 b1 k' = (if k' = k then Some c else view2 b k')"
    using copy_one [OF Cons.prems(1) c(1) Cons.prems(3,4) c(2,3) Cons.prems(5)] row by blast
  have "\<forall>q\<in>set (map fst rows). (\<sigma>(k := ObjectVerified)) q = ObjectCopying \<and> good q \<and> view1 a q \<noteq> None"
    using Cons.prems(2,6) row by auto
  from Cons.IH [OF one(2) this Cons.prems(3) one(3) Cons.prems(5)] obtain w2 b2 where
    all: "copy_rows svf (second_store h2) rows (w1, (a, b1)) = (Inr (), (w2, (a, b2)))" "ok2 b2"
    "stage g st seen ks (\<lambda>q. if q \<in> set (map fst rows) then ObjectVerified else (\<sigma>(k := ObjectVerified)) q) now w2"
    "\<forall>q. good q \<longrightarrow> view2 b2 q = (if q \<in> set (map fst rows) then view1 a q else view2 b1 q)"
    using Cons.prems(6) by auto
  have "copy_rows svf (second_store h2) (row # rows) (w, (a, b)) = (Inr (), (w2, (a, b2)))"
    using one(1) all(1) by (simp add: bind_run [where m = ctx_Err, OF ctx_quiet [OF stage_quiet [OF Cons.prems(1)]]])
  moreover have "stage g st seen ks (\<lambda>q. if q \<in> set (map fst (row # rows)) then ObjectVerified else \<sigma> q) now w2"
    by (rule stage_cong [OF all(3)]) (auto simp: row)
  ultimately show ?case using all(2,4) one(4) row c(3) by (intro exI [of _ w2] exI [of _ b2]) auto
qed

end

section \<open>The passes\<close>

definition outstanding :: "object_state \<Rightarrow> (string \<Rightarrow> object_state) \<Rightarrow> string list \<Rightarrow> nat" where
  "outstanding st \<sigma> ks = length (filter (\<lambda>k. \<sigma> k = st) ks)"

lemma outstanding_less:
  assumes "distinct ks" "set ds \<subseteq> {k \<in> set ks. \<sigma> k = st}" "distinct ds" "\<And>k. \<tau> k = st \<longleftrightarrow> \<sigma> k = st \<and> k \<notin> set ds"
  shows "outstanding st \<tau> ks = outstanding st \<sigma> ks - length ds"
proof -
  have "set (filter (\<lambda>k. \<tau> k = st) ks) = {k \<in> set ks. \<sigma> k = st} - set ds" using assms(4) by auto
  then have "outstanding st \<tau> ks = card ({k \<in> set ks. \<sigma> k = st} - set ds)"
    using assms(1) distinct_card [of "filter (\<lambda>k. \<tau> k = st) ks"] by (simp add: outstanding_def)
  also have "\<dots> = card {k \<in> set ks. \<sigma> k = st} - card (set ds)" by (rule card_Diff_subset) (use assms(2) in auto)
  also have "card {k \<in> set ks. \<sigma> k = st} = outstanding st \<sigma> ks" using assms(1) by (simp add: outstanding_def distinct_card [symmetric])
  finally show ?thesis using assms(3) by (simp add: distinct_card)
qed

context quiet_migration
begin

definition copied :: "'a \<Rightarrow> string list \<Rightarrow> (string \<Rightarrow> object_state) \<Rightarrow> 'b \<Rightarrow> bool" where
  "copied a ks \<sigma> b \<longleftrightarrow> ok1 a \<and> ok2 b \<and> recorded_right g sha (view1 a) \<and> set ks = {k. good k \<and> view1 a k \<noteq> None} \<and>
     (\<forall>k\<in>set ks. \<sigma> k = ObjectPending \<or> \<sigma> k = ObjectVerified \<and> view2 b k = view1 a k)"

text \<open>The small operations, at the types of this migration.\<close>

lemma here:
  fixes s :: "'a \<times> 'b"
  assumes "stage g st seen ks \<sigma> now w"
  shows "\<exists>w'. (refresh (g_id g) :: ('a \<times> 'b, 'e, unit) mig_op) (w, s) = (Inr (), (w', s)) \<and> stage g st seen ks \<sigma> now w'"
    "\<exists>w'. (stampWorker sv (g_id g) :: ('a \<times> 'b, 'e, unit) mig_op) (w, s) = (Inr (), (w', s)) \<and> stage g st seen ks \<sigma> now w'"
    "\<not> terminal_state st \<Longrightarrow>
      \<exists>w'. (setState (g_id g) st' :: ('a \<times> 'b, 'e, unit) mig_op) (w, s) = (Inr (), (w', s)) \<and> stage g st' seen ks \<sigma> now w'"
  by (rule refresh_stage [OF assms] stamp_stage [OF assms] setState_stage [OF assms]; assumption)+

lemma topologies:
  assumes "mg_SourceDesc c = g_from g" "mg_TargetDesc c = g_to g"
  shows "topologyFor svf c = TopologyForward" "topologyFor svs c = TopologySwapped"
  using assms named forward swapped by (auto simp: topologyFor_def Describe_def Let_def)

lemma copy_pass:
  assumes "stage g StateCopying None ks \<sigma> now w" "copied a ks \<sigma> b" "0 < batch"
  obtains m w' b' \<tau> where "CopyOnce svf batch (w, (a, b)) = (Inr m, (w', (a, b')))" "stage g StateCopying None ks \<tau> now w'"
    "copied a ks \<tau> b'" "outstanding ObjectPending \<tau> ks = outstanding ObjectPending \<sigma> ks - nat batch"
proof -
  obtain c where c: "GetActiveStorageMigration w = (Some c, w)" "mg_ID c = g_id g" "mg_State c = StateCopying" "mg_SourceDesc c = g_from g"
    "mg_TargetDesc c = g_to g"
    using active_stage [OF assms(1)] by (auto simp: terminal_state_def)
  obtain rows w1 where rows: "ClaimDueStorageMigrationObjects (nat batch) w = (rows, w1)" "distinct (map fst rows)"
    "set (map fst rows) \<subseteq> {k \<in> set ks. \<sigma> k = ObjectPending}" "length rows = min (nat batch) (outstanding ObjectPending \<sigma> ks)"
    "stage g StateCopying None ks (\<lambda>k. if k \<in> set (map fst rows) then ObjectCopying else \<sigma> k) now w1"
    using claim_stage [OF assms(1), of "nat batch"] by (auto simp: outstanding_def)
  have claim: "copy_claim svf batch (w, (a, b)) = (Inr (Some (c, rows)), (w1, (a, b)))"
    using c rows(1) assms(3) topologies(1) [OF c(4,5)] by (simp add: copy_claim_def bind_db [OF stage_quiet [OF assms(1)]] retE_apply)
  have cp: "ok1 a" "ok2 b" "recorded_right g sha (view1 a)" "set ks = {k. good k \<and> view1 a k \<noteq> None}"
    "\<forall>k\<in>set ks. \<sigma> k = ObjectPending \<or> \<sigma> k = ObjectVerified \<and> view2 b k = view1 a k"
    using assms(2) by (auto simp: copied_def)
  let ?\<tau> = "\<lambda>k. if k \<in> set (map fst rows) then ObjectVerified else \<sigma> k"
  have due: "\<forall>k\<in>set (map fst rows). (if k \<in> set (map fst rows) then ObjectCopying else \<sigma> k) = ObjectCopying \<and> good k \<and> view1 a k \<noteq> None"
    using rows(3) cp(4) by auto
  obtain w2 b2 where two: "copy_rows svf (second_store h2) rows (w1, (a, b)) = (Inr (), (w2, (a, b2)))" "ok2 b2"
    "stage g StateCopying None ks (\<lambda>k. if k \<in> set (map fst rows) then ObjectVerified else if k \<in> set (map fst rows) then ObjectCopying else \<sigma> k) now w2"
    "\<forall>k. good k \<longrightarrow> view2 b2 k = (if k \<in> set (map fst rows) then view1 a k else view2 b k)"
    using copy_all [OF rows(5) due cp(1,2,3) rows(2)] by blast
  have st2: "stage g StateCopying None ks ?\<tau> now w2" by (rule stage_cong [OF two(3)]) auto
  have cp2: "copied a ks ?\<tau> b2" using cp two(2,4) rows(3) by (auto simp: copied_def)
  have less: "outstanding ObjectPending ?\<tau> ks = outstanding ObjectPending \<sigma> ks - nat batch"
    using outstanding_less [OF _ rows(3,2), of ?\<tau>] rows(4) assms(1) by (auto simp: stage_def)
  obtain w3 where w3: "(refresh (g_id g) :: ('a \<times> 'b, 'e, unit) mig_op) (w2, (a, b2)) = (Inr (), (w3, (a, b2)))" "stage g StateCopying None ks ?\<tau> now w3"
    using here(1) [OF st2, of "(a, b2)"] by blast
  have out: "CopyOnce svf batch (w, (a, b)) = (if rows = [] then (Inr 0, (w2, (a, b2))) else (Inr (length rows), (w3, (a, b2))))"
    using two(1) w3(1) c(2) by (simp add: CopyOnce_def forward bind_run [where m = "copy_claim svf batch", OF claim] bind_run [where m = "copy_rows svf (second_store h2) rows"]
        bind_run [where m = "refresh (g_id g)"] retE_apply)
  show thesis
  proof (cases "rows = []")
    case True
    show thesis by (rule that [OF _ st2 cp2 less]) (use out True in simp)
  next
    case False
    show thesis by (rule that [OF _ w3(2) cp2 less]) (use out False in simp)
  qed
qed

lemma forward_sweep:
  assumes "stage g st None ks \<sigma> now w" "st \<in> {StateEnumerating, StateCopying, StateSynced}"
  obtains c w' where "SweepOnce svf (w, s) = sweepForward svf (second_store h2) c (w', s)" "stage g st None ks \<sigma> now w'"
    "mg_ID c = g_id g" "mg_State c = st"
proof -
  obtain c where c: "GetActiveStorageMigration w = (Some c, w)" "mg_ID c = g_id g" "mg_State c = st" "mg_SourceDesc c = g_from g"
    "mg_TargetDesc c = g_to g"
    using active_stage [OF assms(1)] assms(2) by (auto simp: terminal_state_def)
  obtain w' where w': "(stampWorker svf (g_id g) :: ('a \<times> 'b, 'e, unit) mig_op) (w, s) = (Inr (), (w', s))" "stage g st None ks \<sigma> now w'"
    using here(2) [OF assms(1)] by blast
  have "reconcileTargetWritability svf c = retE False"
    using assms(2) c(3) forward(3) by (auto simp: reconcileTargetWritability_def)
  then have "SweepOnce svf (w, s) = sweepForward svf (second_store h2) c (w', s)"
    using c w'(1) by (simp add: SweepOnce_def sweep_act_def forward bind_db [OF stage_quiet [OF assms(1)]]
        bind_run [where m = "stampWorker svf (g_id g)"] topologies)
  then show thesis using that w'(2) c by blast
qed

lemma enumerate_stage:
  assumes "stage g st None ks \<sigma> now w" "ok1 a"
  obtains keys w' where "enumerate svf (g_id g) (w, (a, b)) = (Inr (length (filter (\<lambda>k. k \<notin> set ks) keys)), (w', (a, b)))"
    "set keys = {k. good k \<and> view1 a k \<noteq> None}"
    "stage g st None (ks @ filter (\<lambda>k. k \<notin> set ks) keys) (\<lambda>k. if k \<in> set ks then \<sigma> k else ObjectPending) now w'"
proof -
  obtain ls keys where ls: "st_ListAllKeys h1 = Some ls" "ls a = (Inr keys, a)" "distinct keys" "set keys = {k. good k \<and> view1 a k \<noteq> None}"
    using A.lists [OF assms(2)] by blast
  have "store_call (within fst (\<lambda>a. apfst (\<lambda>_. a)) ls) (w, (a, b)) = (Inr keys, (w, (a, b)))"
    using ls(2) by (simp add: store_call_def within_def)
  moreover obtain w' where "(upsert_chunks (g_id g) keys 0 :: ('a \<times> 'b, 'e, nat) mig_op) (w, (a, b)) = (Inr (length (filter (\<lambda>k. k \<notin> set ks) keys)), (w', (a, b)))"
    "stage g st None (ks @ filter (\<lambda>k. k \<notin> set ks) keys) (\<lambda>k. if k \<in> set ks then \<sigma> k else ObjectPending) now w'"
    using upsert_chunks_stage [OF assms(1) ls(3), of 0 "(a, b)"] by auto
  ultimately show thesis
    using that ls by (simp add: enumerate_def forward bindE_apply)
qed

text \<open>The first sweep lists the source.\<close>

lemma first_sweep:
  assumes "stage g StateEnumerating None [] \<sigma> now w" "ok1 a" "ok2 b" "recorded_right g sha (view1 a)"
  obtains ks w' where "SweepOnce svf (w, (a, b)) = (Inr (), (w', (a, b)))" "stage g StateCopying None ks (\<lambda>_. ObjectPending) now w'"
    "copied a ks (\<lambda>_. ObjectPending) b"
proof -
  obtain c w1 where c: "SweepOnce svf (w, (a, b)) = sweepForward svf (second_store h2) c (w1, (a, b))" "stage g StateEnumerating None [] \<sigma> now w1"
    "mg_ID c = g_id g" "mg_State c = StateEnumerating"
    by (rule forward_sweep [OF assms(1), of "(a, b)"]) auto
  obtain ks w2 where w2: "enumerate svf (g_id g) (w1, (a, b)) = (Inr (length ks), (w2, (a, b)))" "set ks = {k. good k \<and> view1 a k \<noteq> None}"
    "stage g StateEnumerating None ks (\<lambda>_. ObjectPending) now w2"
    by (rule enumerate_stage [OF c(2) assms(2), of b]) auto
  obtain w3 where w3: "(refresh (g_id g) :: ('a \<times> 'b, 'e, unit) mig_op) (w2, (a, b)) = (Inr (), (w3, (a, b)))" "stage g StateEnumerating None ks (\<lambda>_. ObjectPending) now w3"
    using here(1) [OF w2(3)] by blast
  obtain w4 where w4: "(setState (g_id g) StateCopying :: ('a \<times> 'b, 'e, unit) mig_op) (w3, (a, b)) = (Inr (), (w4, (a, b)))" "stage g StateCopying None ks (\<lambda>_. ObjectPending) now w4"
    using here(3) [OF w3(2), where s = "(a, b)" and st' = StateCopying] by (auto simp: terminal_state_def)
  have "SweepOnce svf (w, (a, b)) = (Inr (), (w4, (a, b)))"
    using c w2(1) w3(1) w4(1) by (simp add: sweepForward_def bindE_apply)
  then show thesis using that w4(2) w2(2) assms by (auto simp: copied_def)
qed

text \<open>Once everything is copied a sweep finds nothing new.\<close>

lemma synced_sweep:
  assumes "stage g StateCopying None ks \<sigma> now w" "copied a ks \<sigma> b" "outstanding ObjectPending \<sigma> ks = 0"
  obtains w' where "SweepOnce svf (w, (a, b)) = (Inr (), (w', (a, b)))" "stage g StateSynced None ks \<sigma> now w'"
proof -
  obtain c w1 where c: "SweepOnce svf (w, (a, b)) = sweepForward svf (second_store h2) c (w1, (a, b))" "stage g StateCopying None ks \<sigma> now w1"
    "mg_ID c = g_id g" "mg_State c = StateCopying"
    by (rule forward_sweep [OF assms(1), of "(a, b)"]) auto
  have cp: "ok1 a" "set ks = {k. good k \<and> view1 a k \<noteq> None}" "\<forall>k\<in>set ks. \<sigma> k = ObjectVerified"
    using assms(2,3) by (auto simp: copied_def outstanding_def filter_empty_conv)
  have left: "CountUncopiedStorageMigrationObjects (g_id g) w1 = (0, w1)"
    using cp(3) by (simp add: CountUncopiedStorageMigrationObjects_def count_stage [OF c(2)])
  obtain w2 where w2: "(refresh (g_id g) :: ('a \<times> 'b, 'e, unit) mig_op) (w1, (a, b)) = (Inr (), (w2, (a, b)))" "stage g StateCopying None ks \<sigma> now w2"
    using here(1) [OF c(2)] by blast
  obtain keys w3 where keys: "enumerate svf (g_id g) (w2, (a, b)) = (Inr (length (filter (\<lambda>k. k \<notin> set ks) keys)), (w3, (a, b)))"
    "set keys = set ks" "stage g StateCopying None (ks @ filter (\<lambda>k. k \<notin> set ks) keys) (\<lambda>k. if k \<in> set ks then \<sigma> k else ObjectPending) now w3"
    using cp(2) by (auto intro: enumerate_stage [OF w2(2) cp(1), of b])
  then have none: "filter (\<lambda>k. k \<notin> set ks) keys = []" by (simp add: filter_empty_conv)
  have st3: "stage g StateCopying None ks \<sigma> now w3" using keys(3) unfolding none by (auto intro: stage_cong)
  obtain w4 where w4: "(refresh (g_id g) :: ('a \<times> 'b, 'e, unit) mig_op) (w3, (a, b)) = (Inr (), (w4, (a, b)))" "stage g StateCopying None ks \<sigma> now w4"
    using here(1) [OF st3] by blast
  obtain w5 where w5: "(setState (g_id g) StateSynced :: ('a \<times> 'b, 'e, unit) mig_op) (w4, (a, b)) = (Inr (), (w5, (a, b)))" "stage g StateSynced None ks \<sigma> now w5"
    using here(3) [OF w4(2), where s = "(a, b)" and st' = StateSynced] by (auto simp: terminal_state_def)
  have "SweepOnce svf (w, (a, b)) = (Inr (), (w5, (a, b)))"
    using c left w2(1) keys(1) none w4(1) w5(1)
    by (simp add: sweepForward_def reconcile_def bind_db [OF stage_quiet [OF c(2)]] bindE_apply [of "refresh _"] bindE_apply [of "enumerate _ _"])
  then show thesis using that w5(2) by blast
qed

end

context quiet_migration
begin

lemma swapped_sweep:
  assumes "stage g st seen ks \<sigma> now w" "\<not> terminal_state st"
  obtains c w' where "SweepOnce svs (w, s) = sweepSwapped svs (first_store h1) c (w', s)" "stage g st seen ks \<sigma> now w'"
    "mg_ID c = g_id g" "mg_State c = st" "mg_ObservedCutoverAt c = seen" "mg_SourceDesc c = g_from g" "mg_TargetDesc c = g_to g"
proof -
  obtain c where c: "GetActiveStorageMigration w = (Some c, w)" "mg_ID c = g_id g" "mg_State c = st" "mg_SourceDesc c = g_from g"
    "mg_TargetDesc c = g_to g" "mg_ObservedCutoverAt c = seen"
    using active_stage [OF assms] by blast
  obtain w' where w': "(stampWorker svs (g_id g) :: ('a \<times> 'b, 'e, unit) mig_op) (w, s) = (Inr (), (w', s))" "stage g st seen ks \<sigma> now w'"
    using here(2) [OF assms(1)] by blast
  have "SweepOnce svs (w, s) = sweepSwapped svs (first_store h1) c (w', s)"
    using c w'(1) by (simp add: SweepOnce_def sweep_act_def swapped bind_db [OF stage_quiet [OF assms(1)]]
        bind_run [where m = "stampWorker svs (g_id g)"] topologies)
  then show thesis using that w'(2) c by blast
qed

lemma cutover_sweep:
  assumes "stage g StateSynced None ks \<sigma> now w"
  obtains w' where "SweepOnce svs (w, s) = (Inr (), (w', s))" "stage g StateCutover (Some now) ks \<sigma> now w'"
proof -
  obtain c w1 where c: "SweepOnce svs (w, s) = sweepSwapped svs (first_store h1) c (w1, s)" "stage g StateSynced None ks \<sigma> now w1"
    "mg_ID c = g_id g" "mg_State c = StateSynced"
    by (rule swapped_sweep [OF assms, of s]) (auto simp: terminal_state_def)
  have "SweepOnce svs (w, s) = (Inr (), (snd (MarkStorageMigrationCutover (g_id g) w1), s))"
    using c by (simp add: sweepSwapped_def bind_db [OF stage_quiet [OF c(2)]] retE_apply)
  then show thesis using that cutover_stage [OF c(2)] by simp
qed

lemma release_sweep:
  assumes "stage g StateCutover (Some t) ks \<sigma> now w" "\<forall>k\<in>set ks. \<sigma> k = ObjectVerified" "sv_grace svs \<le> time_sub now t"
  obtains w' where "SweepOnce svs (w, s) = (Inr (), (w', s))" "stage g StateDeletingSource (Some t) ks \<sigma> now w'"
proof -
  obtain c w1 where c: "SweepOnce svs (w, s) = sweepSwapped svs (first_store h1) c (w1, s)" "stage g StateCutover (Some t) ks \<sigma> now w1"
    "mg_ID c = g_id g" "mg_State c = StateCutover" "mg_ObservedCutoverAt c = Some t"
    by (rule swapped_sweep [OF assms(1), of s]) (auto simp: terminal_state_def)
  have left: "CountUncopiedStorageMigrationObjects (g_id g) w1 = (0, w1)"
    using assms(2) by (simp add: CountUncopiedStorageMigrationObjects_def count_stage [OF c(2)])
  obtain w2 where w2: "(setState (g_id g) StateDeletingSource :: ('a \<times> 'b, 'e, unit) mig_op) (w1, s) = (Inr (), (w2, s))"
    "stage g StateDeletingSource (Some t) ks \<sigma> now w2"
    using here(3) [OF c(2), where s = s and st' = StateDeletingSource] by (auto simp: terminal_state_def)
  have "w_now w1 = now" using c(2) by (simp add: stage_def)
  then have "SweepOnce svs (w, s) = (Inr (), (w2, s))"
    using c(1,3-) assms(3) left w2(1)
    by (simp add: sweepSwapped_def maybeBeginDeletingSource_def bindE_apply [of now_op] now_op_def bind_db [OF stage_quiet [OF c(2)]])
  then show thesis using that w2(2) by blast
qed

text \<open>The source is emptied.\<close>

lemma delete_all:
  assumes "stage g st seen ks \<sigma> now w" "\<forall>k\<in>set ds. \<sigma> k = ObjectVerified \<and> good k" "ok1 a" "distinct ds"
  shows "\<exists>w' a'. delete_keys (first_store h1) MarkStorageMigrationObjectSourceDeleted ds n (w, (a, b)) = (Inr (n + length ds), (w', (a', b))) \<and>
    ok1 a' \<and> stage g st seen ks (\<lambda>k. if k \<in> set ds then ObjectSourceDeleted else \<sigma> k) now w' \<and>
    (\<forall>k. good k \<longrightarrow> view1 a' k = (if k \<in> set ds then None else view1 a k))"
  using assms
proof (induction ds arbitrary: n w a \<sigma>)
  case Nil
  then show ?case by (auto simp: retE_apply)
next
  case (Cons k ds)
  obtain a1 where a1: "st_Delete h1 k a = (Inr (), a1)" "ok1 a1" "\<forall>q. good q \<longrightarrow> view1 a1 q = (if q = k then None else view1 a q)"
    using A.deletes [OF Cons.prems(3), of k] Cons.prems(2) by auto
  let ?w1 = "snd (MarkStorageMigrationObjectSourceDeleted k w)"
  have st: "stage g st seen ks (\<sigma>(k := ObjectSourceDeleted)) now ?w1"
    using source_deleted_stage [OF Cons.prems(1)] Cons.prems(2) by simp
  have "\<forall>q\<in>set ds. (\<sigma>(k := ObjectSourceDeleted)) q = ObjectVerified \<and> good q" using Cons.prems(2,4) by auto
  from Cons.IH [OF st this a1(2), of "n + 1"] obtain w2 a2 where
    two: "delete_keys (first_store h1) MarkStorageMigrationObjectSourceDeleted ds (n + 1) (?w1, (a1, b)) = (Inr (n + 1 + length ds), (w2, (a2, b)))"
    "ok1 a2" "stage g st seen ks (\<lambda>q. if q \<in> set ds then ObjectSourceDeleted else (\<sigma>(k := ObjectSourceDeleted)) q) now w2"
    "\<forall>q. good q \<longrightarrow> view1 a2 q = (if q \<in> set ds then None else view1 a1 q)"
    using Cons.prems(4) by auto
  note q = stage_quiet [OF Cons.prems(1)]
  have "store_call (st_Delete (first_store h1) k) (w, (a, b)) = (Inr (), (w, (a1, b)))"
    using a1(1) by (simp add: store_call_def within_def)
  then have "delete_keys (first_store h1) MarkStorageMigrationObjectSourceDeleted (k # ds) n (w, (a, b)) = (Inr (n + length (k # ds)), (w2, (a2, b)))"
    using two(1)
    by (simp add: bind_run [where m = ctx_Err, OF ctx_quiet [OF q]] attempt_run [where m = "store_call _"] bind_db [OF q] del: part_ops)
  moreover have "stage g st seen ks (\<lambda>q. if q \<in> set (k # ds) then ObjectSourceDeleted else \<sigma> q) now w2"
    by (rule stage_cong [OF two(3)]) auto
  ultimately show ?case using two(2,4) a1(3) by (intro exI [of _ w2] exI [of _ a2]) auto
qed

lemma adopt_at_end:
  assumes "stage g st seen ks \<sigma> now w" "ok2 b" "mg_TargetDesc c = g_to g"
  shows "\<exists>b'. adoptDestination svs c (w, (a, b)) = (Inr (), (w, (a, b'))) \<and> ok2 b' \<and>
    (\<forall>k. good k \<longrightarrow> k \<noteq> OwnerMarkerKey \<longrightarrow> view2 b' k = view2 b k) \<and>
    (TrimSpace (g_identity g) \<noteq> [] \<longrightarrow> view2 b' OwnerMarkerKey \<noteq> None)"
proof -
  have id: "GetInstanceIdentity w = (g_identity g, w)" using assms(1) by (simp add: GetInstanceIdentity_def stage_def)
  show ?thesis
  proof (cases "view2 b OwnerMarkerKey")
    case None
    then obtain e where e: "st_Open h2 OwnerMarkerKey b = (Inl e, b)" "st_NotFound h2 e"
      using B.opens_nothing [OF assms(2) marker] by blast
    obtain n b' where b': "be_Put (st_backend h2) OwnerMarkerKey (TrimSpace (g_identity g)) b = (Inr n, b')" "ok2 b'"
      "\<forall>k'. good k' \<longrightarrow> view2 b' k' = (if k' = OwnerMarkerKey then Some (TrimSpace (g_identity g)) else view2 b k')"
      using B.marks [OF assms(2) marker] by blast
    have "adoptDestination svs c (w, (a, b)) = (Inr (), (w, (a, if TrimSpace (g_identity g) = [] then b else b')))"
      using e b'(1) assms(3) id by (simp add: adoptDestination_def swapped named attempt_db [OF stage_quiet [OF assms(1)]]
          ReadOwnerMarker_def WriteOwnerMarker_def within_def)
    then show ?thesis using b'(2,3) assms(2) marker by (cases "TrimSpace (g_identity g) = []") auto
  next
    case (Some m)
    then have "st_Open h2 OwnerMarkerKey b = (Inr (m, False), b)" using B.opens [OF assms(2) marker] by blast
    then have "adoptDestination svs c (w, (a, b)) = (Inr (), (w, (a, b)))"
      using assms(3) id by (simp add: adoptDestination_def swapped named attempt_db [OF stage_quiet [OF assms(1)]]
          ReadOwnerMarker_def within_def)
    then show ?thesis using assms(2) Some by auto
  qed
qed

end

text \<open>Passes one after another, stopping at the first error.\<close>

primrec passes :: "('s, 'e, unit) mig_op list \<Rightarrow> ('s, 'e, unit) mig_op" where
  "passes [] = retE ()"
| "passes (f # fs) = bindE f (\<lambda>_. passes fs)"

lemma passes_append: "passes fs x = (Inr (), y) \<Longrightarrow> passes (fs @ gs) x = passes gs y"
  by (induction fs arbitrary: x) (auto simp: retE_apply bindE_Inr bind_run)

definition CopyOnce_pass :: "('s, 'e) mig_Service \<Rightarrow> int \<Rightarrow> ('s, 'e, unit) mig_op" where
  "CopyOnce_pass sv batch = bindE (CopyOnce sv batch) (\<lambda>_. retE ())"

text \<open>Time passes and nothing else happens.\<close>

definition idle :: "int \<Rightarrow> ('s, 'e, unit) mig_op" where
  "idle t x = (Inr (), ((fst x)\<lparr>w_now := w_now (fst x) + t\<rparr>, snd x))"

lemma idle_stage:
  assumes "stage g st seen ks \<sigma> now w" "0 \<le> t"
  shows "\<exists>w'. idle t (w, s) = (Inr (), (w', s)) \<and> stage g st seen ks \<sigma> (now + t) w'"
  using assms by (fastforce simp: idle_def stage_def quiet_def campaign_in_def ledger_in_def)

context quiet_migration
begin

definition emptied :: "string list \<Rightarrow> (string \<Rightarrow> object_state) \<Rightarrow> 'a \<Rightarrow> bool" where
  "emptied ks \<sigma> a \<longleftrightarrow> ok1 a \<and> (\<forall>k\<in>set ks. good k \<and> (\<sigma> k = ObjectVerified \<or> \<sigma> k = ObjectSourceDeleted \<and> view1 a k = None))"

definition marked :: "'b \<Rightarrow> 'b \<Rightarrow> bool" where
  "marked b b' \<longleftrightarrow> ok2 b' \<and> (\<forall>k. good k \<longrightarrow> k \<noteq> OwnerMarkerKey \<longrightarrow> view2 b' k = view2 b k) \<and>
     (TrimSpace (g_identity g) \<noteq> [] \<longrightarrow> view2 b' OwnerMarkerKey \<noteq> None)"

lemma delete_sweep:
  assumes "stage g StateDeletingSource seen ks \<sigma> now w" "emptied ks \<sigma> a" "ok2 b"
  obtains w' a' b' \<tau> where "SweepOnce svs (w, (a, b)) = (Inr (), (w', (a', b')))" "emptied ks \<tau> a'"
    "outstanding ObjectVerified \<tau> ks = outstanding ObjectVerified \<sigma> ks - deleteBatch"
    "if outstanding ObjectVerified \<tau> ks = 0 then stage g StateDone seen ks \<tau> now w' \<and> marked b b'
     else stage g StateDeletingSource seen ks \<tau> now w' \<and> b' = b"
proof -
  obtain c w1 where c: "SweepOnce svs (w, (a, b)) = sweepSwapped svs (first_store h1) c (w1, (a, b))" "stage g StateDeletingSource seen ks \<sigma> now w1"
    "mg_ID c = g_id g" "mg_State c = StateDeletingSource" "mg_SourceDesc c = g_from g" "mg_TargetDesc c = g_to g"
    by (rule swapped_sweep [OF assms(1), of "(a, b)"]) (auto simp: terminal_state_def)
  define ds where "ds = take deleteBatch (sort (filter (\<lambda>k. \<sigma> k = ObjectVerified) ks))"
  have ds: "set ds \<subseteq> {k \<in> set ks. \<sigma> k = ObjectVerified}" "distinct ds" "length ds = min deleteBatch (outstanding ObjectVerified \<sigma> ks)"
    using assms(1) unfolding ds_def by (auto simp: stage_def outstanding_def dest: in_set_takeD)
  have keys: "ListVerifiedStorageMigrationObjects (g_id g) deleteBatch w1 = (ds, w1)"
    by (simp add: ListVerifiedStorageMigrationObjects_def verified_stage [OF c(2)] ds_def)
  let ?\<tau> = "\<lambda>k. if k \<in> set ds then ObjectSourceDeleted else \<sigma> k"
  obtain w2 a2 where w2: "delete_keys (first_store h1) MarkStorageMigrationObjectSourceDeleted ds 0 (w1, (a, b)) = (Inr (length ds), (w2, (a2, b)))"
    "ok1 a2" "stage g StateDeletingSource seen ks ?\<tau> now w2" "\<forall>k. good k \<longrightarrow> view1 a2 k = (if k \<in> set ds then None else view1 a k)"
    using delete_all [OF c(2) _ _ ds(2), of a 0 b] assms(2) ds(1) by (auto simp: emptied_def)
  have em: "emptied ks ?\<tau> a2" using assms(2) w2(2,4) by (auto simp: emptied_def)
  have less: "outstanding ObjectVerified ?\<tau> ks = outstanding ObjectVerified \<sigma> ks - deleteBatch"
    using outstanding_less [OF _ ds(1,2), of ?\<tau>] ds(3) assms(1) by (auto simp: stage_def)
  obtain w3 where w3: "(refresh (g_id g) :: ('a \<times> 'b, 'e, unit) mig_op) (w2, (a2, b)) = (Inr (), (w3, (a2, b)))" "stage g StateDeletingSource seen ks ?\<tau> now w3"
    using here(1) [OF w2(3), of "(a2, b)"] by blast
  have "filter (\<lambda>k. ?\<tau> k \<in> {ObjectPending, ObjectCopying, ObjectVerified}) ks = filter (\<lambda>k. ?\<tau> k = ObjectVerified) ks"
    using em by (intro filter_cong) (auto simp: emptied_def)
  then have left: "CountUnfinishedStorageMigrationObjects (g_id g) w3 = (int (outstanding ObjectVerified ?\<tau> ks), w3)"
    by (simp add: CountUnfinishedStorageMigrationObjects_def count_stage [OF w3(2)] outstanding_def)
  have sweep: "SweepOnce svs (w, (a, b)) = (if outstanding ObjectVerified ?\<tau> ks > 0 then (Inr (), (w3, (a2, b)))
      else bindE (adoptDestination svs c) (\<lambda>_. setState (g_id g) StateDone) (w3, (a2, b)))"
    using c(1,3-) keys w2(1) w3(1) left
    by (simp add: sweepSwapped_def deleteSourceBatch_def guardE_apply named bind_db [OF stage_quiet [OF c(2)]] bind_db [OF stage_quiet [OF w3(2)]]
        bind_run [where m = "delete_keys _ _ _ _"] bind_run [where m = "refresh _"] retE_apply)
  show thesis
  proof (cases "outstanding ObjectVerified ?\<tau> ks = 0")
    case True
    obtain b3 where b3: "adoptDestination svs c (w3, (a2, b)) = (Inr (), (w3, (a2, b3)))" "marked b b3"
      using adopt_at_end [OF w3(2) assms(3) c(6), of a2] unfolding marked_def by blast
    obtain w4 where w4: "(setState (g_id g) StateDone :: ('a \<times> 'b, 'e, unit) mig_op) (w3, (a2, b3)) = (Inr (), (w4, (a2, b3)))" "stage g StateDone seen ks ?\<tau> now w4"
      using here(3) [OF w3(2), where s = "(a2, b3)" and st' = StateDone] by (auto simp: terminal_state_def)
    show thesis
      by (rule that [OF _ em less, of w4 b3]) (use sweep True b3 w4 in \<open>simp_all add: bind_run [where m = "adoptDestination svs c"]\<close>)
  next
    case False
    show thesis by (rule that [OF _ em less, of w3 b]) (use sweep False w3 in simp_all)
  qed
qed

lemma over_sweep: "stage g StateDone seen ks \<sigma> now w \<Longrightarrow> SweepOnce svs (w, s) = (Inr (), (w, s))"
  by (simp add: SweepOnce_def swapped bind_db [OF stage_quiet] inactive_stage terminal_state_def retE_apply)

lemma over_sweeps: "stage g StateDone seen ks \<sigma> now w \<Longrightarrow> passes (replicate m (SweepOnce svs)) (w, s) = (Inr (), (w, s))"
  by (induction m) (simp_all add: retE_apply bind_run [where m = "SweepOnce svs", OF over_sweep])

lemma delete_sweeps:
  assumes "stage g StateDeletingSource seen ks \<sigma> now w" "emptied ks \<sigma> a" "ok2 b" "0 < m" "outstanding ObjectVerified \<sigma> ks \<le> deleteBatch * m"
  shows "\<exists>w' a' b' \<tau>. passes (replicate m (SweepOnce svs)) (w, (a, b)) = (Inr (), (w', (a', b'))) \<and> stage g StateDone seen ks \<tau> now w' \<and>
    ok1 a' \<and> (\<forall>k\<in>set ks. view1 a' k = None) \<and> marked b b'"
  using assms
proof (induction m arbitrary: w a \<sigma>)
  case (Suc m)
  obtain w1 a1 b1 \<tau> where one: "SweepOnce svs (w, (a, b)) = (Inr (), (w1, (a1, b1)))" "emptied ks \<tau> a1"
    "outstanding ObjectVerified \<tau> ks = outstanding ObjectVerified \<sigma> ks - deleteBatch"
    "if outstanding ObjectVerified \<tau> ks = 0 then stage g StateDone seen ks \<tau> now w1 \<and> marked b b1
     else stage g StateDeletingSource seen ks \<tau> now w1 \<and> b1 = b"
    by (rule delete_sweep [OF Suc.prems(1-3)])
  show ?case
  proof (cases "outstanding ObjectVerified \<tau> ks = 0")
    case True
    then have "\<forall>k\<in>set ks. view1 a1 k = None" using one(2) by (auto simp: emptied_def outstanding_def filter_empty_conv)
    then show ?thesis
      using True one(1,2,4) over_sweeps [of seen ks \<tau> now w1 m "(a1, b1)"] by (auto simp: bind_run emptied_def)
  next
    case False
    then have st: "stage g StateDeletingSource seen ks \<tau> now w1" "b1 = b" using one(4) by auto
    have "0 < m" "outstanding ObjectVerified \<tau> ks \<le> deleteBatch * m" using False one(3) Suc.prems(5) by (cases m; simp)+
    from Suc.IH [OF st(1) one(2) Suc.prems(3) this] show ?thesis using one(1) st(2) by (simp add: bind_run)
  qed
qed simp

lemma copy_passes:
  assumes "stage g StateCopying None ks \<sigma> now w" "copied a ks \<sigma> b" "0 < batch" "outstanding ObjectPending \<sigma> ks \<le> nat batch * n"
  shows "\<exists>w' b' \<tau>. passes (replicate n (CopyOnce_pass svf batch)) (w, (a, b)) = (Inr (), (w', (a, b'))) \<and> stage g StateCopying None ks \<tau> now w' \<and>
    copied a ks \<tau> b' \<and> outstanding ObjectPending \<tau> ks = 0"
  using assms
proof (induction n arbitrary: w b \<sigma>)
  case 0
  then show ?case by (auto simp: retE_apply)
next
  case (Suc n)
  obtain m w1 b1 \<tau> where one: "CopyOnce svf batch (w, (a, b)) = (Inr m, (w1, (a, b1)))" "stage g StateCopying None ks \<tau> now w1"
    "copied a ks \<tau> b1" "outstanding ObjectPending \<tau> ks = outstanding ObjectPending \<sigma> ks - nat batch"
    by (rule copy_pass [OF Suc.prems(1-3)])
  have "CopyOnce_pass svf batch (w, (a, b)) = (Inr (), (w1, (a, b1)))"
    using one(1) by (simp add: CopyOnce_pass_def bind_run retE_apply)
  moreover have "outstanding ObjectPending \<tau> ks \<le> nat batch * n" using one(4) Suc.prems(4) by simp
  ultimately show ?case using Suc.IH [OF one(2,3) assms(3)] by (simp add: bind_run)
qed

end

section \<open>From start to end\<close>

text \<open>The passes of a migration: list, copy and reconcile; then swap, wait, release and empty the source.\<close>

definition copy_half :: "('s, 'e) mig_Service \<Rightarrow> int \<Rightarrow> nat \<Rightarrow> ('s, 'e, unit) mig_op" where
  "copy_half sv batch n = passes ([SweepOnce sv] @ replicate n (CopyOnce_pass sv batch) @ [SweepOnce sv])"

definition empty_half :: "('s, 'e) mig_Service \<Rightarrow> int \<Rightarrow> nat \<Rightarrow> ('s, 'e, unit) mig_op" where
  "empty_half sv t m = passes ([SweepOnce sv, idle t, SweepOnce sv] @ replicate m (SweepOnce sv))"

context quiet_migration
begin

lemma copied_half:
  assumes "stage g StateEnumerating None [] \<sigma> now w" "ok1 a" "ok2 b" "recorded_right g sha (view1 a)"
    and "0 < batch" "card {k. good k \<and> view1 a k \<noteq> None} \<le> nat batch * n"
  obtains w' b' ks \<tau> where "copy_half svf batch n (w, (a, b)) = (Inr (), (w', (a, b')))" "stage g StateSynced None ks \<tau> now w'" "ok2 b'"
    "set ks = {k. good k \<and> view1 a k \<noteq> None}" "length ks = card {k. good k \<and> view1 a k \<noteq> None}"
    "\<forall>k\<in>set ks. \<tau> k = ObjectVerified \<and> view2 b' k = view1 a k"
proof -
  obtain ks w1 where w1: "SweepOnce svf (w, (a, b)) = (Inr (), (w1, (a, b)))" "stage g StateCopying None ks (\<lambda>_. ObjectPending) now w1"
    "copied a ks (\<lambda>_. ObjectPending) b"
    by (rule first_sweep [OF assms(1-4)])
  have ks: "set ks = {k. good k \<and> view1 a k \<noteq> None}" "length ks = card {k. good k \<and> view1 a k \<noteq> None}"
    using w1(2,3) by (auto simp: copied_def stage_def dest: distinct_card)
  have "outstanding ObjectPending (\<lambda>_. ObjectPending) ks \<le> nat batch * n" using assms(6) ks(2) by (simp add: outstanding_def)
  from copy_passes [OF w1(2,3) assms(5) this] obtain w2 b2 \<tau> where
    w2: "passes (replicate n (CopyOnce_pass svf batch)) (w1, (a, b)) = (Inr (), (w2, (a, b2)))" "stage g StateCopying None ks \<tau> now w2"
    "copied a ks \<tau> b2" "outstanding ObjectPending \<tau> ks = 0"
    by blast
  obtain w3 where w3: "SweepOnce svf (w2, (a, b2)) = (Inr (), (w3, (a, b2)))" "stage g StateSynced None ks \<tau> now w3"
    by (rule synced_sweep [OF w2(2-4)])
  have "\<forall>k\<in>set ks. \<tau> k = ObjectVerified \<and> view2 b2 k = view1 a k"
    using w2(3,4) by (auto simp: copied_def outstanding_def filter_empty_conv)
  moreover have "copy_half svf batch n (w, (a, b)) = (Inr (), (w3, (a, b2)))"
    using w1(1) w3(1) passes_append [OF w2(1)] by (simp add: copy_half_def bind_run retE_apply)
  moreover have "ok2 b2" using w2(3) by (simp add: copied_def)
  ultimately show thesis using that w3(2) ks by blast
qed

text \<open>From a synced campaign on, whatever the source holds by then.\<close>

lemma emptied_half:
  assumes "stage g StateSynced None ks \<tau> now w" "\<forall>k\<in>set ks. \<tau> k = ObjectVerified \<and> good k" "ok1 a" "ok2 b"
    and "0 < m" "length ks \<le> deleteBatch * m" "0 \<le> t" "sv_grace svs \<le> t" "in64 t"
  obtains w' a' b' \<rho> where "empty_half svs t m (w, (a, b)) = (Inr (), (w', (a', b')))" "stage g StateDone (Some now) ks \<rho> (now + t) w'"
    "\<forall>k\<in>set ks. view1 a' k = None" "marked b b'"
proof -
  obtain w4 where w4: "SweepOnce svs (w, (a, b)) = (Inr (), (w4, (a, b)))" "stage g StateCutover (Some now) ks \<tau> now w4"
    by (rule cutover_sweep [OF assms(1)])
  have "\<exists>w5. (idle t :: ('a \<times> 'b, 'e, unit) mig_op) (w4, (a, b)) = (Inr (), (w5, (a, b))) \<and> stage g StateCutover (Some now) ks \<tau> (now + t) w5"
    by (rule idle_stage [OF w4(2) assms(7)])
  then obtain w5 where w5: "(idle t :: ('a \<times> 'b, 'e, unit) mig_op) (w4, (a, b)) = (Inr (), (w5, (a, b)))" "stage g StateCutover (Some now) ks \<tau> (now + t) w5"
    by blast
  have "sv_grace svs \<le> time_sub (now + t) now" using assms(8,9) by (simp add: time_sub_id)
  from release_sweep [OF w5(2) _ this] assms(2) obtain w6 where
    w6: "SweepOnce svs (w5, (a, b)) = (Inr (), (w6, (a, b)))" "stage g StateDeletingSource (Some now) ks \<tau> (now + t) w6"
    by blast
  have "emptied ks \<tau> a" using assms(2,3) by (auto simp: emptied_def)
  moreover have "outstanding ObjectVerified \<tau> ks \<le> deleteBatch * m"
    unfolding outstanding_def by (rule order_trans [OF length_filter_le assms(6)])
  ultimately obtain w7 a7 b7 \<rho> where w7: "passes (replicate m (SweepOnce svs)) (w6, (a, b)) = (Inr (), (w7, (a7, b7)))"
    "stage g StateDone (Some now) ks \<rho> (now + t) w7" "\<forall>k\<in>set ks. view1 a7 k = None" "marked b b7"
    using delete_sweeps [OF w6(2) _ assms(4,5)] by blast
  have "empty_half svs t m (w, (a, b)) = (Inr (), (w7, (a7, b7)))"
    using w4(1) w5(1) w6(1) w7(1) by (simp add: empty_half_def bind_run)
  then show thesis using that w7(2-4) by blast
qed

end

lemma done_campaign: "stage g StateDone seen ks \<tau> now w \<Longrightarrow> map_option mg_State (fst (GetStorageMigration (g_id g) w)) = Some StateDone"
  by (auto simp: stage_def campaign_in_def GetStorageMigration_def)

text \<open>A started campaign, with the rows of earlier campaigns cleared away.\<close>

lemma start_stage:
  fixes sv :: "('s, 'e) mig_Service"
  assumes "sv_target sv = Some dst" "targetWritable sv" "st_ListAllKeys (sv_primary sv) \<noteq> None"
    and "st_Describe (sv_primary sv) \<noteq> st_Describe dst" "st_Describe (sv_primary sv) \<noteq> []" "st_Describe dst \<noteq> []"
    and "quiet w" "tables_ok w" "\<forall>c\<in>set (m_camps w). terminal_state (mg_State c)"
    and "\<forall>o'\<in>set (m_objs w). \<exists>c\<in>set (m_camps w). mg_ID c = ob_Campaign o'"
  defines "g \<equiv> \<lparr>g_id = m_next w, g_from = st_Describe (sv_primary sv), g_to = st_Describe dst, g_hashes = m_hashes w, g_identity = m_identity w\<rparr>"
  shows "\<exists>c w'. mig_Start sv requester (w, s) = (Inr c, (w', s)) \<and> mg_ID c = m_next w \<and> stage g StateEnumerating None [] \<sigma> (w_now w) w'"
proof -
  have active: "GetActiveStorageMigration w = (None, w)"
    using assms(9) by (simp add: GetActiveStorageMigration_def newest_first_def)
  obtain c w1 where c: "CreateStorageMigration (st_Describe (sv_primary sv)) (st_Describe dst) (fst requester) (snd requester) w = (Some c, w1)"
    and w1: "w1 = w\<lparr>m_camps := c # m_camps w, m_next := m_next w + 1\<rparr>" and new: "mg_ID c = m_next w" "mg_State c = StateEnumerating"
      "mg_SourceDesc c = st_Describe (sv_primary sv)" "mg_TargetDesc c = st_Describe dst" "mg_ObservedCutoverAt c = None"
    using assms(9) by (auto simp: CreateStorageMigration_def Let_def list_ex_iff)
  let ?w2 = "snd (DeleteTerminalStorageMigrationObjects w1)"
  have q1: "quiet w1" using assms(7) w1 by (simp add: quiet_def)
  have "mig_Start sv requester (w, s) = (Inr c, (?w2, s))"
    using assms(1-6) active c
    by (simp add: mig_Start_def Let_def guardE_def bind_db [OF assms(7)] attempt_db [OF q1] retE_apply del: not_None_eq)
  moreover have "m_objs ?w2 = []"
    using assms(9,10) w1 by (fastforce simp: DeleteTerminalStorageMigrationObjects_def Let_def filter_empty_conv list_ex_iff)
  moreover have "\<forall>d\<in>set (m_camps w). mg_ID d \<noteq> m_next w" using assms(8) by (auto simp: tables_ok_def)
  ultimately show ?thesis
    using new assms(7,9) w1
    by (intro exI [of _ c] exI [of _ ?w2]) (auto simp: stage_def quiet_def ledger_in_def campaign_in_def g_def DeleteTerminalStorageMigrationObjects_def Let_def)
qed

section \<open>The stores at hand\<close>

interpretation reliable_bucket: reliable_store "bucket_Store d" "\<lambda>s. distinct (map fst s) \<and> fst ` set s \<subseteq> K" map_of "\<lambda>k. k \<in> K" for d K
  by unfold_locales (auto simp: bucket_Store_def bucket_Put_def plain_body_def map_of_without distinct_map_filter
      map_of_eq_None_iff [symmetric] simp del: map_of_eq_None_iff intro: rev_image_eqI)

text \<open>
  A disk without failures, used for the keys \<open>K\<close> only, none of which lies below another: what the
  migration requires of the paths it writes.
\<close>

definition clean_disk :: "Local \<Rightarrow> string set \<Rightarrow> filesystem \<Rightarrow> bool" where
  "clean_disk l K fs \<longleftrightarrow> disk_ok l fs \<and> failures fs = [] \<and> node_at fs (root l) = Some Dir \<and> \<not> through_file fs (root l) \<and>
     usable l K {} fs \<and> keys_apart K {} \<and> (\<forall>k. canonical_key k \<longrightarrow> local_stored l fs k \<noteq> None \<longrightarrow> k \<in> K)"

lemma clean_key:
  assumes "clean_disk l K fs" "k \<in> K"
  shows "canonical_key k" "local_ready l fs k"
  using assms by (auto simp: clean_disk_def usable_def local_ready_def local_reach_def)

lemma clean_disk_step:
  assumes "clean_disk l K fs" "cmd_ok K {} c" "local_step l c fs = (out, fs')"
  shows "out = fst (map_step c (local_stored l fs))" "k \<in> K \<Longrightarrow> local_stored l fs' k = snd (map_step c (local_stored l fs)) k"
    "disk_ok l fs' \<Longrightarrow> failures fs' = [] \<Longrightarrow> node_at fs' (root l) = Some Dir \<Longrightarrow> \<not> through_file fs' (root l) \<Longrightarrow> clean_disk l K fs'"
proof -
  have u: "usable l K {} fs" "keys_apart K {}" using assms(1) by (simp_all add: clean_disk_def)
  note refines = local_step_refines [OF u assms(2) _ assms(3), of "local_stored l fs"]
  then show "out = fst (map_step c (local_stored l fs))" by simp
  have canon: "canonical_key k" if "k \<in> K" for k using clean_key(1) [OF assms(1) that] .
  then show "k \<in> K \<Longrightarrow> local_stored l fs' k = snd (map_step c (local_stored l fs)) k" using refines by simp
  have "snd (map_step c (local_stored l fs)) k = None \<or> local_stored l fs k \<noteq> None \<or> k \<in> K" for k
    using assms(2) by (cases c) (auto split: prod.splits read_end.splits)
  then have "k \<in> K" if "canonical_key k" "local_stored l fs' k \<noteq> None" for k
    using refines assms(1) that unfolding clean_disk_def by metis
  then show "clean_disk l K fs'" if "disk_ok l fs'" "failures fs' = []" "node_at fs' (root l) = Some Dir" "\<not> through_file fs' (root l)"
    using refines u that by (simp add: clean_disk_def)
qed

lemma clean_disk_put:
  fixes r :: "unit reader"
  assumes "clean_disk l K fs" "k \<in> K" "drain r = (c, EOF)"
  shows "\<exists>fs'. Local_Put l k r fs = (Inr (length c), fs') \<and> clean_disk l K fs' \<and>
    (\<forall>k'\<in>K. local_stored l fs' k' = (if k' = k then Some c else local_stored l fs k'))"
proof -
  let ?p = "root l @ segments k"
  obtain res fs' where put: "Local_Put l k r fs = (res, fs')" by fastforce
  note key = clean_key [OF assms(1,2)] and step = clean_disk_step [OF assms(1), of "SPut k r"]
  have out: "local_step l (SPut k r) fs = (OPut res, fs')" using put by simp
  have ok: "disk_ok l fs" using assms(1) by (simp add: clean_disk_def)
  have res: "resolve l k = (Inr ?p :: unit storage_error + path)" "writable fs ?p" "failures fs = []"
    using ready_resolve [OF key(2)] by simp_all
  have grow: "grows_to ?p fs fs'" by (rule Put_frame [OF res(1) put])
  have seg: "segments k \<noteq> []" using canonical_plain [OF key(1)] by simp
  have rootd: "node_at fs' (root l) = Some Dir"
    using grow assms(1) seg by (auto simp: grows_to_def clean_disk_def)
  have "\<not> is_file (node_at fs' q)" if "strict_prefix q (root l)" for q
  proof -
    have "q \<noteq> ?p" using that by (auto simp: strict_prefix_def prefix_def)
    then show ?thesis using grows_to_file(1) [OF grow] that assms(1) by (auto simp: clean_disk_def through_file_iff)
  qed
  then have "\<not> through_file fs' (root l)" by (auto simp: through_file_iff)
  then have "clean_disk l K fs'"
    using step(3) [OF _ out] assms(2) disk_put [OF ok key(1) put] Put_healthy [OF res(1,3,2) put] rootd by simp
  moreover have "res = Inr (length c)" using step(1) [OF _ out] assms(2,3) by simp
  moreover have "\<forall>k'\<in>K. local_stored l fs' k' = (if k' = k then Some c else local_stored l fs k')"
    using step(2) [OF _ out] assms(2,3) by simp
  ultimately show ?thesis using put by blast
qed

lemma clean_disk_delete:
  assumes "clean_disk l K fs" "k \<in> K"
  shows "\<exists>fs'. Local_Delete l k fs = (Inr () :: unit storage_error + unit, fs') \<and> clean_disk l K fs' \<and>
    (\<forall>k'\<in>K. local_stored l fs' k' = (if k' = k then None else local_stored l fs k'))"
proof -
  let ?p = "root l @ segments k"
  obtain res fs' where del: "Local_Delete l k fs = (res :: unit storage_error + unit, fs')" by fastforce
  note key = clean_key [OF assms] and step = clean_disk_step [OF assms(1), of "SDelete k"]
  have out: "local_step l (SDelete k) fs = (ODone res, fs')" using del by simp
  have ok: "disk_ok l fs" using assms(1) by (simp add: clean_disk_def)
  have root: "clean_root (root l)" "failures fs = []" "writable fs ?p" "local_reach l fs k"
    using ready_resolve [OF key(2)] by (simp_all add: local_reach_def)
  have eff: "failures fs' = []" "node_at fs' = (node_at fs)(?p := None)"
    using Delete_healthy [OF root(1) key(1) root(2) _ del] root(3) by (auto simp: deletable_def writable_def)
  have "segments k \<noteq> []" using canonical_plain [OF key(1)] by simp
  then have "node_at fs' (root l) = Some Dir" "\<not> through_file fs' (root l)"
    using eff(2) assms(1) by (auto simp: clean_disk_def through_file_iff)
  then have "clean_disk l K fs'" using step(3) [OF _ out] assms(2) disk_delete [OF ok key(1) del] eff(1) by simp
  moreover have "res = Inr ()" using step(1) [OF _ out] assms(2) by simp
  moreover have "\<forall>k'\<in>K. local_stored l fs' k' = (if k' = k then None else local_stored l fs k')"
    using step(2) [OF _ out] assms(2) by simp
  ultimately show ?thesis using del by blast
qed

lemma clean_disk_open:
  assumes "clean_disk l K fs" "k \<in> K"
  shows "Local_Open l k fs = (case local_stored l fs k of Some c \<Rightarrow> Inr (File c) | None \<Rightarrow> Inl (ErrObjectNotFound :: unit storage_error), fs)"
  using clean_key(2) [OF assms] by (auto simp: Local_Open_def local_ready_def local_reach_def writable_def canonical_resolve
      stat_node_def fs_simps local_stored_def split: option.splits node.splits)

lemma clean_disk_list:
  assumes "clean_disk l K fs"
  shows "\<exists>ks. Local_ListAllKeys l fs = (Inr ks :: unit storage_error + _, fs) \<and> distinct ks \<and> set ks = {k \<in> K. local_stored l fs k \<noteq> None}"
proof -
  let ?files = "filter (\<lambda>e. prefix (root l) (fst e) \<and> snd e \<noteq> Dir) (entries fs)" and ?key = "\<lambda>e. join_slash (Rel (root l) (fst e))"
  have ok: "tidy fs" "node_at fs (root l) = Some Dir" "disk_ok l fs" using assms by (auto simp: clean_disk_def disk_ok_parts)
  have "stat_node (root l) fs = (Inr Dir, fs)" using assms by (simp add: stat_node_def fs_simps clean_disk_def)
  then have list: "Local_ListAllKeys l fs = (Inr (map ?key (sort_key fst ?files)) :: unit storage_error + _, fs)"
    by (simp add: Local_ListAllKeys_def Local_ListAllObjects_def op_simps walk_files_def comp_def split_beta)
  have each: "\<exists>ts c. fst e = root l @ ts \<and> ts \<noteq> [] \<and> list_all plain_segment ts \<and> ?key e = join_slash ts \<and> node_at fs (fst e) = Some (File c) \<and> snd e = File c"
    if mem: "e \<in> set ?files" for e
  proof -
    obtain p v where e: "e = (p, v)" "(p, v) \<in> set (entries fs)" "prefix (root l) p" "v \<noteq> Dir" by (rule prod.exhaust [of e]) (use mem in auto)
    then obtain ts where p: "p = root l @ ts" by (auto simp: prefix_def)
    have at: "node_at fs p = Some v" using e(2) ok(1) by (auto simp: tidy_def)
    then have "ts \<noteq> []" using e(4) ok(2) p by auto
    moreover have "list_all plain_segment ts" using e(2) ok(1) p by (auto simp: tidy_def names_ok_def list_all_iff)
    ultimately show ?thesis using e p at by (cases v) auto
  qed
  have "inj_on ?key (set ?files)"
  proof (rule inj_onI)
    fix d e assume d: "d \<in> set ?files" and e: "e \<in> set ?files" and eq: "?key d = ?key e"
    from each [OF d] each [OF e] eq obtain ts us c c' where "fst d = root l @ ts" "fst e = root l @ us" "segments (join_slash ts) = ts"
      "segments (join_slash us) = us" "join_slash ts = join_slash us" "node_at fs (fst d) = Some (File c)" "node_at fs (fst e) = Some (File c')"
      "snd d = File c" "snd e = File c'"
      by (metis join_canonical(2))
    then have "fst d = fst e" "snd d = snd e" by (metis, metis node.inject option.inject)
    then show "d = e" by (rule prod_eqI)
  qed
  moreover have "distinct ?files" using ok(1) by (auto simp: tidy_def distinct_map)
  ultimately have "distinct (map ?key (sort_key fst ?files))" by (simp add: distinct_map)
  moreover have "?key ` set ?files = {k \<in> K. local_stored l fs k \<noteq> None}"
  proof (intro equalityI subsetI)
    fix k assume "k \<in> ?key ` set ?files"
    then obtain e where "e \<in> set ?files" "k = ?key e" by blast
    with each [of e] obtain ts c where ts: "ts \<noteq> []" "list_all plain_segment ts" "k = join_slash ts" "node_at fs (root l @ ts) = Some (File c)" by auto
    then have "canonical_key k" "local_stored l fs k = Some c" using join_canonical [OF ts(1,2)] by (auto simp: local_stored_def)
    then show "k \<in> {k \<in> K. local_stored l fs k \<noteq> None}" using assms by (auto simp: clean_disk_def)
  next
    fix k assume "k \<in> {k \<in> K. local_stored l fs k \<noteq> None}"
    then obtain c where k: "k \<in> K" "node_at fs (root l @ segments k) = Some (File c)"
      by (auto simp: local_stored_def split: option.splits node.splits)
    note seg = canonical_plain [OF clean_key(1) [OF assms k(1)]]
    have "join_slash (segments k) = k"
      using canonical_inj [OF join_canonical(1) clean_key(1) [OF assms k(1)]] join_canonical(2) seg by blast
    moreover have "(root l @ segments k, File c) \<in> set ?files" using map_of_SomeD [OF k(2)] by simp
    ultimately show "k \<in> ?key ` set ?files" by (force intro: image_eqI)
  qed
  ultimately show ?thesis using list by auto
qed

interpretation reliable_disk: reliable_store "local_Store l" "clean_disk l K" "local_stored l" "\<lambda>k. k \<in> K" for l K
proof unfold_locales
  fix s k c assume "clean_disk l K s" "k \<in> K" "local_stored l s k = Some c"
  then show "st_Open (local_Store l) k s = (Inr (c, False), s)" by (simp add: local_backend_def clean_disk_open)
next
  fix s k assume "clean_disk l K s" "k \<in> K" "local_stored l s k = None"
  then show "\<exists>e. st_Open (local_Store l) k s = (Inl e, s) \<and> st_NotFound (local_Store l) e" by (simp add: local_backend_def clean_disk_open)
next
  fix s k c and r :: "unit reader" assume "clean_disk l K s" "k \<in> K" "drain r = (c, EOF)"
  from clean_disk_put [OF this] show "\<exists>s'. st_Put (local_Store l) k r s = (Inr (length c), s') \<and> clean_disk l K s' \<and>
      (\<forall>k'. k' \<in> K \<longrightarrow> local_stored l s' k' = (if k' = k then Some c else local_stored l s k'))"
    unfolding local_Store_ops by blast
next
  fix s k c assume "clean_disk l K s" "k \<in> K"
  from clean_disk_put [OF this, of "plain_body c" c] show "\<exists>n s'. be_Put (st_backend (local_Store l)) k c s = (Inr n, s') \<and> clean_disk l K s' \<and>
      (\<forall>k'. k' \<in> K \<longrightarrow> local_stored l s' k' = (if k' = k then Some c else local_stored l s k'))"
    unfolding local_Store_ops by (auto simp: plain_body_def)
next
  fix s k assume "clean_disk l K s" "k \<in> K"
  from clean_disk_delete [OF this] show "\<exists>s'. st_Delete (local_Store l) k s = (Inr (), s') \<and> clean_disk l K s' \<and>
      (\<forall>k'. k' \<in> K \<longrightarrow> local_stored l s' k' = (if k' = k then None else local_stored l s k'))"
    unfolding local_Store_ops by blast
next
  fix s assume "clean_disk l K s"
  from clean_disk_list [OF this] show "\<exists>ls ks. st_ListAllKeys (local_Store l) = Some ls \<and> ls s = (Inr ks, s) \<and> distinct ks \<and>
      set ks = {k. k \<in> K \<and> local_stored l s k \<noteq> None}"
    unfolding local_Store_ops by blast
qed

text \<open>From a disk to a bucket, with the handles swapped for the second half.\<close>

abbreviation to_bucket :: "Local \<Rightarrow> (string \<Rightarrow> string) \<Rightarrow> (filesystem \<times> bucket, unit storage_error) mig_Service" where
  "to_bucket l sha \<equiv> mig_NewService (first_store (local_Store l)) (Some (second_store (bucket_Store ''s3:media''))) None ''w1'' 0 sha"

abbreviation in_bucket :: "Local \<Rightarrow> (string \<Rightarrow> string) \<Rightarrow> (filesystem \<times> bucket, unit storage_error) mig_Service" where
  "in_bucket l sha \<equiv> mig_NewService (second_store (bucket_Store ''s3:media'')) (Some (first_store (local_Store l))) None ''w1'' 0 sha"

interpretation disk_to_bucket: quiet_migration "local_Store l" "bucket_Store ''s3:media''" "clean_disk l (insert OwnerMarkerKey K)"
  "\<lambda>s. distinct (map fst s) \<and> fst ` set s \<subseteq> insert OwnerMarkerKey K" "local_stored l" map_of "\<lambda>k. k \<in> insert OwnerMarkerKey K"
  "to_bucket l sha" "in_bucket l sha" "\<lparr>g_id = i, g_from = Local_Describe l, g_to = ''s3:media'', g_hashes = hs, g_identity = me\<rparr>" for l K sha i hs me
  by (rule quiet_migration.intro [OF reliable_disk.reliable_store_axioms reliable_bucket.reliable_store_axioms])
    (unfold_locales; simp add: mig_NewService_def targetWritable_def bucket_Store_def Local_Describe_def)

end
