(* ===== verification/Migration_Props.thy ===== *)
theory Migration_Props
  imports Migration_Run Media_GC_Props
begin

text \<open>
  The properties of the storage migration: nothing is lost under any interleaving and any failure, an
  undisturbed migration finishes, what the controls do, how the migration holds the media sweep off,
  and two ways in which the code falls short of its documentation.
\<close>

section \<open>Nothing is lost\<close>

text \<open>C3. After a successful start of a storage migration, every object the instance stored and did
  not delete is held by the source or by the destination with the same digest, in every state
  reached by sweeps whose read and whose action are separated by anything else, any number of
  copy workers, operator controls from any process in either configuration of the stores, lease
  renewals and lease sweeps, new uploads, deletions, crashes, database faults, and store calls
  that fail, tear or lie about a write. It is proved for runs in which there is one campaign and
  one leader sweeping at a time, the copy of one object is one step, a lease sweep runs only
  while no copy under way has an expired lease, an upload uses a key that neither store nor the
  ledger has (overwriting in place is excluded: it does lose data), and a handle that describes
  itself as one of the two stores is that store.\<close>

theorem migration_loses_nothing:
  assumes "store_pair src dst ok viewA viewB good"
    and "mig_Start sv requester x0 = (Inr camp, x)" "sv_primary sv = src" "sv_target sv = Some dst"
    and "tables_ok (fst x0)" "ok (snd x0)"
    and "\<And>k c. lib k = Some c \<Longrightarrow> good k \<and> k \<noteq> OwnerMarkerKey \<and> viewA (snd x0) k = Some c"
    and "(mig_step src dst sha viewA viewB good)\<^sup>*\<^sup>* (fresh_run x lib) r"
    and "r_live r k = Some c"
  shows "\<exists>d. (viewA (snd (r_x r)) k = Some d \<or> viewB (snd (r_x r)) k = Some d) \<and> sha d = sha c"
  using store_pair.held_somewhere [OF assms(1) store_pair.reachable_ok [OF assms(1,8) store_pair.start_ok [OF assms(1-7)]] assms(9)] .

text \<open>An install with two buckets, one object and no earlier campaign.\<close>

definition demo_mig_world :: mig_world where
  "demo_mig_world = \<lparr>w_now = 0, w_faults = [], m_camps = [], m_objs = [], m_next = 1, m_hashes = (\<lambda>_. None), m_identity = ''me'', m_ctx = []\<rparr>"

definition demo_mover :: "(bucket \<times> bucket, unit storage_error) mig_Service" where
  "demo_mover = mig_NewService near (Some far) None ''w1'' 0 id"

lemma demo_process: "process near far id demo_mover"
  by (simp add: process_def demo_mover_def mig_NewService_def part_def Let_def bucket_Store_def)

text \<open>A sweep has read the campaign, and before it acts a second object is uploaded.\<close>

theorem migration_loses_nothing_witness:
  "\<exists>x camp r. mig_Start demo_mover ([], []) (demo_mig_world, ([(''a'', ''x'')], [])) = (Inr camp, x) \<and>
     (mig_step near far id (\<lambda>s. map_of (fst s)) (\<lambda>s. map_of (snd s)) (\<lambda>_. True))\<^sup>*\<^sup>* (fresh_run x [''a'' \<mapsto> ''x'']) r \<and>
     r_snap r \<noteq> None \<and> r_live r ''b'' = Some ''y'' \<and>
     (\<exists>d. (map_of (fst (snd (r_x r))) ''b'' = Some d \<or> map_of (snd (snd (r_x r))) ''b'' = Some d) \<and> id d = id ''y'')"
proof -
  let ?step = "mig_step near far id (\<lambda>s. map_of (fst s)) (\<lambda>s. map_of (snd s)) (\<lambda>_. True)"
  obtain camp w where start: "mig_Start demo_mover ([], []) (demo_mig_world, ([(''a'', ''x'')], [])) = (Inr camp, (w, ([(''a'', ''x'')], [])))"
    and w: "quiet w" "m_objs w = []" "GetActiveStorageMigration w = (Some camp, w)"
    by (auto simp: mig_Start_def demo_mover_def mig_NewService_def Let_def guardE_def bind_db attempt_db retE_apply demo_mig_world_def quiet_def
        bucket_Store_def targetWritable_def GetActiveStorageMigration_def newest_first_def CreateStorageMigration_def
        DeleteTerminalStorageMigrationObjects_def terminal_state_def)
  let ?r0 = "fresh_run (w, ([(''a'', ''x'')], [])) [''a'' \<mapsto> ''x''] :: (bucket \<times> bucket, unit storage_error) mig_run"
  let ?r1 = "?r0\<lparr>r_snap := Some (demo_mover, far, camp)\<rparr>"
  let ?r2 = "?r1\<lparr>r_x := (w, ([(''b'', ''y''), (''a'', ''x'')], [])), r_live := (r_live ?r1)(''b'' \<mapsto> ''y'')\<rparr>"
  have "?step ?r0 (?r0\<lparr>r_x := (w, ([(''a'', ''x'')], [])), r_snap := Some (demo_mover, far, camp)\<rparr>)"
    by (rule sweep_read [OF _ demo_process]) (use w in \<open>simp_all add: fresh_run_def demo_mover_def mig_NewService_def db_quiet\<close>)
  then have s1: "?step ?r0 ?r1" by (simp add: fresh_run_def)
  have s2: "?step ?r1 ?r2"
    by (rule stored [where h = near and view = "\<lambda>s. map_of (fst s)" and n = 1])
      (use w in \<open>auto simp: fresh_run_def OwnerMarkerKey_def within_def bucket_Store_def bucket_Put_def plain_body_def\<close>)
  from s1 s2 have reach: "?step\<^sup>*\<^sup>* ?r0 ?r2" by (meson rtranclp.rtrancl_into_rtrancl rtranclp.rtrancl_refl)
  have "\<exists>d. (map_of (fst (snd (r_x ?r2))) ''b'' = Some d \<or> map_of (snd (snd (r_x ?r2))) ''b'' = Some d) \<and> id d = id ''y''"
    by (rule migration_loses_nothing [OF two_buckets.store_pair_axioms start _ _ _ _ _ reach])
      (auto simp: demo_mover_def mig_NewService_def tables_ok_def demo_mig_world_def OwnerMarkerKey_def split: if_splits)
  then show ?thesis using start reach by (intro exI [of _ "(w, ([(''a'', ''x'')], []))"] exI [of _ camp] exI [of _ ?r2]) (simp add: fresh_run_def)
qed

section \<open>An undisturbed migration finishes\<close>

text \<open>Two processes of the install, before and after the operator swapped the stores.\<close>

definition before_after :: "('a, 'e) Store \<Rightarrow> ('b, 'e) Store \<Rightarrow> ('a \<times> 'b, 'e) mig_Service \<Rightarrow> ('a \<times> 'b, 'e) mig_Service \<Rightarrow> bool" where
  "before_after h1 h2 svf svs \<longleftrightarrow> sv_primary svf = first_store h1 \<and> sv_target svf = Some (second_store h2) \<and> targetWritable svf \<and>
     sv_primary svs = second_store h2 \<and> sv_target svs = Some (first_store h1) \<and>
     st_Describe h1 \<noteq> st_Describe h2 \<and> st_Describe h1 \<noteq> [] \<and> st_Describe h2 \<noteq> []"

text \<open>No live campaign, every ledger row belongs to a campaign, and no recorded digest is wrong.\<close>

definition idle_tables :: "(string \<Rightarrow> string) \<Rightarrow> (string \<Rightarrow> string option) \<Rightarrow> mig_world \<Rightarrow> bool" where
  "idle_tables sha lib w \<longleftrightarrow> quiet w \<and> tables_ok w \<and> (\<forall>c\<in>set (m_camps w). terminal_state (mg_State c)) \<and>
     (\<forall>o'\<in>set (m_objs w). \<exists>c\<in>set (m_camps w). mg_ID c = ob_Campaign o') \<and>
     (\<forall>k c. lib k = Some c \<longrightarrow> m_hashes w k \<in> {None, Some [], Some SentinelMissing, Some (sha c)})"

lemma started:
  assumes "reliable_store h1 ok1 view1 good" "reliable_store h2 ok2 view2 good" "good OwnerMarkerKey" "before_after h1 h2 svf svs"
    and "idle_tables (sv_sha256 svf) (view1 a) w" "ok1 a"
  obtains c w' g where "mig_Start svf requester (w, (a, b)) = (Inr c, (w', (a, b)))" "g_id g = mg_ID c" "g_identity g = m_identity w"
    "quiet_migration h1 h2 ok1 ok2 view1 view2 good svf svs g" "recorded_right g (sv_sha256 svf) (view1 a)"
    "stage g StateEnumerating None [] (\<lambda>_. ObjectPending) (w_now w) w'"
proof -
  let ?g = "\<lparr>g_id = m_next w, g_from = st_Describe h1, g_to = st_Describe h2, g_hashes = m_hashes w, g_identity = m_identity w\<rparr>"
  have q: "quiet_migration h1 h2 ok1 ok2 view1 view2 good svf svs ?g"
    using assms(3,4) by (intro quiet_migration.intro [OF assms(1,2)] quiet_migration_axioms.intro) (simp_all add: before_after_def)
  have ls: "st_ListAllKeys (sv_primary svf) \<noteq> None"
    using reliable_store.lists [OF assms(1,6)] assms(4) by (auto simp: before_after_def)
  have "\<exists>c w'. mig_Start svf requester (w, (a, b)) = (Inr c, (w', (a, b))) \<and> mg_ID c = m_next w \<and>
      stage ?g StateEnumerating None [] (\<lambda>_. ObjectPending) (w_now w) w'"
    using start_stage [of svf "second_store h2" w requester "(a, b)"] assms(4,5) ls by (simp add: before_after_def idle_tables_def)
  moreover have "recorded_right ?g (sv_sha256 svf) (view1 a)" using assms(5) by (simp add: recorded_right_def idle_tables_def)
  ultimately show thesis using that [of _ _ ?g] q by auto
qed

lemma synced:
  assumes "reliable_store h1 ok1 view1 good" "reliable_store h2 ok2 view2 good" "good OwnerMarkerKey" "before_after h1 h2 svf svs"
    and "idle_tables (sv_sha256 svf) (view1 a) w" "ok1 a" "ok2 b"
    and "0 < batch" "card {k. good k \<and> view1 a k \<noteq> None} \<le> nat batch * n"
  obtains c w0 g w1 b1 ks \<tau> where "mig_Start svf requester (w, (a, b)) = (Inr c, (w0, (a, b)))" "g_id g = mg_ID c" "g_identity g = m_identity w"
    "quiet_migration h1 h2 ok1 ok2 view1 view2 good svf svs g"
    "copy_half svf batch n (w0, (a, b)) = (Inr (), (w1, (a, b1)))" "stage g StateSynced None ks \<tau> (w_now w) w1" "ok2 b1"
    "set ks = {k. good k \<and> view1 a k \<noteq> None}" "length ks = card {k. good k \<and> view1 a k \<noteq> None}"
    "\<forall>k\<in>set ks. \<tau> k = ObjectVerified \<and> view2 b1 k = view1 a k"
proof -
  obtain c w0 g where start: "mig_Start svf requester (w, (a, b)) = (Inr c, (w0, (a, b)))" "g_id g = mg_ID c" "g_identity g = m_identity w"
    and q: "quiet_migration h1 h2 ok1 ok2 view1 view2 good svf svs g"
    and g: "recorded_right g (sv_sha256 svf) (view1 a)" "stage g StateEnumerating None [] (\<lambda>_. ObjectPending) (w_now w) w0"
    by (rule started [OF assms(1-6)])
  show thesis
    by (rule quiet_migration.copied_half [OF q g(2) assms(6,7) g(1) assms(8,9)]) (rule that [OF start q])
qed

text \<open>C4. With stores and a database that do not fail, a migration finishes in a number of passes
  fixed by the size of the library: one listing sweep, a copy pass per batch, one reconciling
  sweep, then after the swap one sweep, the grace period, one sweep and a deleting sweep per two
  hundred objects. It ends done, the destination holds every object and an ownership marker, the
  source holds none of them.\<close>

theorem migration_completes:
  assumes "reliable_store h1 ok1 view1 good" "reliable_store h2 ok2 view2 good" "good OwnerMarkerKey" "before_after h1 h2 svf svs"
    and "idle_tables (sv_sha256 svf) (view1 a) w" "ok1 a" "ok2 b"
    and "0 < batch" "card {k. good k \<and> view1 a k \<noteq> None} \<le> nat batch * n"
    and "0 < m" "card {k. good k \<and> view1 a k \<noteq> None} \<le> deleteBatch * m"
    and "0 \<le> t" "sv_grace svs \<le> t" "in64 t"
  shows "\<exists>c x y w' a' b'. mig_Start svf requester (w, (a, b)) = (Inr c, x) \<and> copy_half svf batch n x = (Inr (), y) \<and>
    empty_half svs t m y = (Inr (), (w', (a', b'))) \<and>
    map_option mg_State (fst (GetStorageMigration (mg_ID c) w')) = Some StateDone \<and>
    (\<forall>k. good k \<and> view1 a k \<noteq> None \<longrightarrow> view1 a' k = None \<and> (k \<noteq> OwnerMarkerKey \<longrightarrow> view2 b' k = view1 a k)) \<and>
    (TrimSpace (m_identity w) \<noteq> [] \<longrightarrow> view2 b' OwnerMarkerKey \<noteq> None)"
proof -
  obtain c w0 g w1 b1 ks \<tau> where start: "mig_Start svf requester (w, (a, b)) = (Inr c, (w0, (a, b)))" "g_id g = mg_ID c" "g_identity g = m_identity w"
    and q: "quiet_migration h1 h2 ok1 ok2 view1 view2 good svf svs g"
    and half: "copy_half svf batch n (w0, (a, b)) = (Inr (), (w1, (a, b1)))" "stage g StateSynced None ks \<tau> (w_now w) w1" "ok2 b1"
    and ks: "set ks = {k. good k \<and> view1 a k \<noteq> None}" "length ks = card {k. good k \<and> view1 a k \<noteq> None}"
      "\<forall>k\<in>set ks. \<tau> k = ObjectVerified \<and> view2 b1 k = view1 a k"
    by (rule synced [OF assms(1-9)])
  have good: "\<forall>k\<in>set ks. \<tau> k = ObjectVerified \<and> good k" "length ks \<le> deleteBatch * m" using ks assms(11) by auto
  obtain w2 a2 b2 \<rho> where rest: "empty_half svs t m (w1, (a, b1)) = (Inr (), (w2, (a2, b2)))" "stage g StateDone (Some (w_now w)) ks \<rho> (w_now w + t) w2"
    "\<forall>k\<in>set ks. view1 a2 k = None" "quiet_migration.marked ok2 view2 good g b1 b2"
    by (rule quiet_migration.emptied_half [OF q half(2) good(1) assms(6) half(3) assms(10) good(2) assms(12-14)])
  have "TrimSpace (m_identity w) \<noteq> [] \<longrightarrow> view2 b2 OwnerMarkerKey \<noteq> None" "\<forall>k. good k \<longrightarrow> k \<noteq> OwnerMarkerKey \<longrightarrow> view2 b2 k = view2 b1 k"
    using rest(4) start(3) by (simp_all add: quiet_migration.marked_def [OF q])
  then show ?thesis using start half(1) rest done_campaign [OF rest(2)] ks(1,3) by (intro exI conjI) auto
qed

text \<open>C26. An object that is overwritten in place in the source after the campaign reports synced is
  lost: the remaining passes end done, the destination has the old bytes and the source has
  nothing under the key.\<close>

theorem overwritten_object_lost:
  assumes "reliable_store h1 ok1 view1 good" "reliable_store h2 ok2 view2 good" "good OwnerMarkerKey" "before_after h1 h2 svf svs"
    and "idle_tables (sv_sha256 svf) (view1 a) w" "ok1 a" "ok2 b"
    and "0 < batch" "card {k. good k \<and> view1 a k \<noteq> None} \<le> nat batch * n"
    and "0 < m" "card {k. good k \<and> view1 a k \<noteq> None} \<le> deleteBatch * m"
    and "0 \<le> t" "sv_grace svs \<le> t" "in64 t"
    and "good k" "k \<noteq> OwnerMarkerKey" "view1 a k = Some old" "drain r = (new, EOF)"
  shows "\<exists>c x w1 s1 s2 w' a' b'. mig_Start svf requester (w, (a, b)) = (Inr c, x) \<and> copy_half svf batch n x = (Inr (), (w1, s1)) \<and>
    st_Put (sv_primary svf) k r s1 = (Inr (length new), s2) \<and> view1 (fst s2) k = Some new \<and>
    empty_half svs t m (w1, s2) = (Inr (), (w', (a', b'))) \<and>
    map_option mg_State (fst (GetStorageMigration (mg_ID c) w')) = Some StateDone \<and>
    view1 a' k = None \<and> view2 b' k = Some old"
proof -
  obtain c w0 g w1 b1 ks \<tau> where start: "mig_Start svf requester (w, (a, b)) = (Inr c, (w0, (a, b)))" "g_id g = mg_ID c" "g_identity g = m_identity w"
    and q: "quiet_migration h1 h2 ok1 ok2 view1 view2 good svf svs g"
    and half: "copy_half svf batch n (w0, (a, b)) = (Inr (), (w1, (a, b1)))" "stage g StateSynced None ks \<tau> (w_now w) w1" "ok2 b1"
    and ks: "set ks = {k. good k \<and> view1 a k \<noteq> None}" "length ks = card {k. good k \<and> view1 a k \<noteq> None}"
      "\<forall>k\<in>set ks. \<tau> k = ObjectVerified \<and> view2 b1 k = view1 a k"
    by (rule synced [OF assms(1-9)])
  obtain a1 where put: "st_Put h1 k r a = (Inr (length new), a1)" "ok1 a1" "view1 a1 k = Some new"
    using reliable_store.puts [OF assms(1,6,15,18)] assms(15) by auto
  have "sv_primary svf = first_store h1" using assms(4) by (simp add: before_after_def)
  then have over: "st_Put (sv_primary svf) k r (a, b1) = (Inr (length new), (a1, b1))" using put(1) by (simp add: within_def)
  have good: "\<forall>k\<in>set ks. \<tau> k = ObjectVerified \<and> good k" "length ks \<le> deleteBatch * m" using ks assms(11) by auto
  obtain w2 a2 b2 \<rho> where rest: "empty_half svs t m (w1, (a1, b1)) = (Inr (), (w2, (a2, b2)))" "stage g StateDone (Some (w_now w)) ks \<rho> (w_now w + t) w2"
    "\<forall>k\<in>set ks. view1 a2 k = None" "quiet_migration.marked ok2 view2 good g b1 b2"
    by (rule quiet_migration.emptied_half [OF q half(2) good(1) put(2) half(3) assms(10) good(2) assms(12-14)])
  have "view2 b2 k = view2 b1 k" using rest(4) assms(15,16) by (simp add: quiet_migration.marked_def [OF q])
  then have "view1 a2 k = None" "view2 b2 k = Some old" using rest(3) ks(1,3) assms(15,17) by auto
  moreover have "map_option mg_State (fst (GetStorageMigration (mg_ID c) w2)) = Some StateDone" using done_campaign [OF rest(2)] start(2) by simp
  ultimately show ?thesis using start(1) half(1) over put(3) rest(1) by (intro exI conjI; assumption?) simp_all
qed

text \<open>Two buckets and three objects, one of which has a recorded digest; batches of two.\<close>

definition demo_tables :: mig_world where
  "demo_tables = demo_mig_world\<lparr>m_hashes := [''a'' \<mapsto> ''x'']\<rparr>"

definition demo_swapped :: "(bucket \<times> bucket, unit storage_error) mig_Service" where
  "demo_swapped = mig_NewService far (Some near) None ''w1'' 3600 id"

definition demo_bucket :: bucket where
  "demo_bucket = [(''a'', ''x''), (''b'', ''y''), (''c'', ''z'')]"

lemma demo_reliable: "reliable_store (bucket_Store d) (\<lambda>s. distinct (map fst s) \<and> fst ` set s \<subseteq> UNIV) map_of (\<lambda>k. k \<in> UNIV)"
  by (rule reliable_bucket.reliable_store_axioms)

lemma demo_setting:
  "before_after (bucket_Store ''near'') (bucket_Store ''far'') demo_mover demo_swapped"
  "idle_tables (sv_sha256 demo_mover) (map_of demo_bucket) demo_tables"
  "card {k. k \<in> UNIV \<and> map_of demo_bucket k \<noteq> None} \<le> nat 2 * 2" "card {k. k \<in> UNIV \<and> map_of demo_bucket k \<noteq> None} \<le> deleteBatch * 1"
  "sv_grace demo_swapped \<le> 3600" "in64 3600"
proof -
  show "before_after (bucket_Store ''near'') (bucket_Store ''far'') demo_mover demo_swapped"
    by (simp add: before_after_def demo_mover_def demo_swapped_def mig_NewService_def targetWritable_def bucket_Store_def)
  show "idle_tables (sv_sha256 demo_mover) (map_of demo_bucket) demo_tables"
    by (simp add: idle_tables_def demo_tables_def demo_mig_world_def demo_mover_def mig_NewService_def demo_bucket_def quiet_def tables_ok_def)
  have "{k. k \<in> UNIV \<and> map_of demo_bucket k \<noteq> None} = {''a'', ''b'', ''c''}" by (auto simp: demo_bucket_def)
  then have "card {k. k \<in> UNIV \<and> map_of demo_bucket k \<noteq> None} = 3" by simp
  then show "card {k. k \<in> UNIV \<and> map_of demo_bucket k \<noteq> None} \<le> nat 2 * 2" "card {k. k \<in> UNIV \<and> map_of demo_bucket k \<noteq> None} \<le> deleteBatch * 1"
    by (simp_all add: deleteBatch_def)
qed (simp_all add: demo_swapped_def mig_NewService_def in64_def)

lemmas demo_run = demo_reliable demo_reliable UNIV_I demo_setting(1,2)

theorem migration_completes_witness:
  "\<exists>c x y w' a' b'. mig_Start demo_mover ([], []) (demo_tables, (demo_bucket, [])) = (Inr c, x) \<and> copy_half demo_mover 2 2 x = (Inr (), y) \<and>
    empty_half demo_swapped 3600 1 y = (Inr (), (w', (a', b'))) \<and>
    map_option mg_State (fst (GetStorageMigration (mg_ID c) w')) = Some StateDone \<and>
    map_of a' ''b'' = None \<and> map_of b' ''b'' = Some ''y'' \<and> map_of b' OwnerMarkerKey \<noteq> None"
proof -
  have id: "TrimSpace (m_identity demo_tables) \<noteq> []" "''b'' \<noteq> OwnerMarkerKey" "map_of demo_bucket ''b'' = Some ''y''" by code_simp+
  have "\<exists>c x y w' a' b'. mig_Start demo_mover ([], []) (demo_tables, (demo_bucket, [])) = (Inr c, x) \<and> copy_half demo_mover 2 2 x = (Inr (), y) \<and>
    empty_half demo_swapped 3600 1 y = (Inr (), (w', (a', b'))) \<and>
    map_option mg_State (fst (GetStorageMigration (mg_ID c) w')) = Some StateDone \<and>
    (\<forall>k. k \<in> UNIV \<and> map_of demo_bucket k \<noteq> None \<longrightarrow> map_of a' k = None \<and> (k \<noteq> OwnerMarkerKey \<longrightarrow> map_of b' k = map_of demo_bucket k)) \<and>
    (TrimSpace (m_identity demo_tables) \<noteq> [] \<longrightarrow> map_of b' OwnerMarkerKey \<noteq> None)"
    by (rule migration_completes [OF demo_run _ _ _ demo_setting(3) _ demo_setting(4) _ demo_setting(5,6)]) (simp_all add: demo_bucket_def)
  then show ?thesis using id by (elim exE conjE) (intro exI conjI; assumption | force)
qed

theorem overwritten_object_lost_witness:
  "\<exists>c x w1 s1 s2 w' a' b'. mig_Start demo_mover ([], []) (demo_tables, (demo_bucket, [])) = (Inr c, x) \<and> copy_half demo_mover 2 2 x = (Inr (), (w1, s1)) \<and>
    st_Put near ''b'' (plain_body ''new'') s1 = (Inr (length ''new''), s2) \<and> map_of (fst s2) ''b'' = Some ''new'' \<and>
    empty_half demo_swapped 3600 1 (w1, s2) = (Inr (), (w', (a', b'))) \<and>
    map_option mg_State (fst (GetStorageMigration (mg_ID c) w')) = Some StateDone \<and>
    map_of a' ''b'' = None \<and> map_of b' ''b'' = Some ''y''"
proof -
  have near: "sv_primary demo_mover = near" by (simp add: demo_mover_def mig_NewService_def)
  show ?thesis
    unfolding near [symmetric]
    by (rule overwritten_object_lost [OF demo_run _ _ _ demo_setting(3) _ demo_setting(4) _ demo_setting(5,6)])
      (simp_all add: demo_bucket_def OwnerMarkerKey_def plain_body_def)
qed

section \<open>The controls\<close>

text \<open>The table of \<open>controls.go\<close>: the state a control takes a campaign to, where it is legal.\<close>

fun control_target :: "control \<Rightarrow> StorageMigration \<Rightarrow> mig_state option" where
  "control_target (Pausing _) c = (if mg_State c \<in> {StateEnumerating, StateCopying, StateSynced} then Some StatePaused else None)"
| "control_target Resuming c = (if mg_State c = StatePaused then
     Some (case mg_ResumeState c of None \<Rightarrow> StateCopying | Some st \<Rightarrow> st) else None)"
| "control_target (Aborting True) c =
     (if mg_State c \<in> {StateEnumerating, StateCopying, StateSynced, StatePaused} then Some StateAborting else None)"
| "control_target (Aborting False) c = (if \<not> terminal_state (mg_State c) then Some StateCancelled else None)"
| "control_target Cancelling c = (if \<not> terminal_state (mg_State c) then Some StateCancelled else None)"
| "control_target Switching c = (if mg_State c \<in> {StateCopying, StateSynced} then Some StateCutover else None)"
| "control_target Releasing c = (if mg_State c = StateCutover then Some StateDeletingSource else None)"

text \<open>What else a control asks for.\<close>

fun control_guard :: "('s, 'e) mig_Service \<Rightarrow> control \<Rightarrow> nat \<Rightarrow> mig_world \<Rightarrow> StorageMigration \<Rightarrow> bool" where
  "control_guard sv (Pausing reason) i w c \<longleftrightarrow> reason \<in> {PauseReasonOperator, PauseReasonTargetWriteDenied}"
| "control_guard sv Resuming i w c \<longleftrightarrow> targetWritable sv"
| "control_guard sv Switching i w c \<longleftrightarrow> topologyFor sv c = TopologySwapped"
| "control_guard sv Releasing i w c \<longleftrightarrow> count_objs i {ObjectPending, ObjectCopying} w \<le> 0"
| "control_guard sv _ i w c \<longleftrightarrow> True"

definition control_legal :: "('s, 'e) mig_Service \<Rightarrow> control \<Rightarrow> nat \<Rightarrow> mig_world \<Rightarrow> StorageMigration \<Rightarrow> mig_state option" where
  "control_legal sv ctl i w c = (if control_guard sv ctl i w c then control_target ctl c else None)"

definition campaign :: "nat \<Rightarrow> mig_world \<Rightarrow> StorageMigration option" where
  "campaign i w = find (\<lambda>c. mg_ID c = i) (m_camps w)"

definition others :: "nat \<Rightarrow> mig_world \<Rightarrow> StorageMigration list" where
  "others i w = filter (\<lambda>c. mg_ID c \<noteq> i) (m_camps w)"

lemma find_first: "find P xs = None \<longleftrightarrow> filter P xs = []"
  by (induction xs) auto

lemma update_camp_effect:
  assumes "distinct (map mg_ID (m_camps w))" "\<And>c. mg_ID (f c) = mg_ID c"
  shows "campaign i (snd (update_camp i P f w)) = map_option (\<lambda>c. if P c then (f c)\<lparr>mg_UpdatedAt := w_now w\<rparr> else c) (campaign i w)"
    "others i (snd (update_camp i P f w)) = others i w" "m_objs (snd (update_camp i P f w)) = m_objs w"
    "map mg_ID (m_camps (snd (update_camp i P f w))) = map mg_ID (m_camps w)"
    "fst (update_camp i P f w) \<noteq> 0 \<longleftrightarrow> (\<exists>c. campaign i w = Some c \<and> P c)"
proof -
  let ?u = "\<lambda>c. if mg_ID c = i \<and> P c then (f c)\<lparr>mg_UpdatedAt := w_now w\<rparr> else c"
  have camps: "m_camps (snd (update_camp i P f w)) = map ?u (m_camps w)" by (simp add: update_camp_def)
  show "campaign i (snd (update_camp i P f w)) = map_option (\<lambda>c. if P c then (f c)\<lparr>mg_UpdatedAt := w_now w\<rparr> else c) (campaign i w)"
    unfolding campaign_def camps using assms(2) by (subst find_map_same) (auto simp: find_Some_iff intro: option.map_cong)
  show "others i (snd (update_camp i P f w)) = others i w"
  proof -
    have "filter (\<lambda>c. mg_ID c \<noteq> i) (map ?u xs) = filter (\<lambda>c. mg_ID c \<noteq> i) xs" for xs using assms(2) by (induction xs) auto
    then show ?thesis by (simp only: others_def camps)
  qed
  show "m_objs (snd (update_camp i P f w)) = m_objs w" by simp
  show "map mg_ID (m_camps (snd (update_camp i P f w))) = map mg_ID (m_camps w)" unfolding camps using assms(2) by simp
  have one: "c = d" if "c \<in> set (m_camps w)" "d \<in> set (m_camps w)" "mg_ID c = mg_ID d" for c d
    using assms(1) that by (auto simp: distinct_map inj_on_def)
  show "fst (update_camp i P f w) \<noteq> 0 \<longleftrightarrow> (\<exists>c. campaign i w = Some c \<and> P c)"
  proof
    assume "fst (update_camp i P f w) \<noteq> 0"
    then obtain d where d: "d \<in> set (m_camps w)" "mg_ID d = i" "P d" by (auto simp: update_camp_def filter_empty_conv)
    then obtain c where c: "campaign i w = Some c" by (cases "campaign i w") (auto simp: campaign_def find_None_iff)
    then have "c \<in> set (m_camps w)" "mg_ID c = i" by (auto simp: campaign_def find_Some_iff)
    then show "\<exists>c. campaign i w = Some c \<and> P c" using one [OF _ d(1)] d c by auto
  next
    assume "\<exists>c. campaign i w = Some c \<and> P c"
    then show "fst (update_camp i P f w) \<noteq> 0" by (auto simp: campaign_def update_camp_def filter_empty_conv find_Some_iff)
  qed
qed

text \<open>What a control may have done when it returns.\<close>

definition ctl_effect :: "(StorageMigration \<Rightarrow> mig_state option) \<Rightarrow> nat \<Rightarrow> mig_world \<Rightarrow> mig_world \<Rightarrow> bool" where
  "ctl_effect legal i w w' \<longleftrightarrow> m_objs w' = m_objs w \<and> map mg_ID (m_camps w') = map mg_ID (m_camps w) \<and> others i w' = others i w \<and> (campaign i w' = campaign i w \<or>
     (\<exists>c c'. campaign i w = Some c \<and> campaign i w' = Some c' \<and> legal c = Some (mg_State c')))"

definition same_tables :: "mig_world \<Rightarrow> mig_world \<Rightarrow> bool" where
  "same_tables w w' \<longleftrightarrow> m_objs w' = m_objs w \<and> m_camps w' = m_camps w"

lemma db_effect:
  assumes "db q (w, s) = (r, (w', s'))"
  obtains (failed) "s' = s" "r = Inl MigDb" "same_tables w w'"
  | (ran) v where "s' = s" "same_tables w v" "r = Inr (fst (q v))" "w' = snd (q v)" "w_now v = w_now w"
proof (cases rule: repo_cases [of w q])
  case (fault fs)
  then show thesis using assms failed by (auto simp: db_def same_tables_def)
next
  case (run a w'')
  have "s' = s" "r = Inr a" "w' = w''" using assms run(2) by (auto simp: db_def)
  then show thesis by (intro ran [of "w\<lparr>w_faults := tl (w_faults w)\<rparr>"]) (simp_all add: same_tables_def run(1))
qed

lemma known_effect:
  assumes "(known i :: ('s, 'e, StorageMigration) mig_op) (w, s) = (r, (w', s'))"
  shows "s' = s" "same_tables w w'" "r = Inr c \<Longrightarrow> campaign i w = Some c"
proof -
  obtain r0 w0 s0 where 0: "(db (GetStorageMigration i) :: ('s, 'e, StorageMigration option) mig_op) (w, s) = (r0, (w0, s0))" by (metis prod_cases3)
  have "(s' = s \<and> same_tables w w') \<and> (r = Inr c \<longrightarrow> campaign i w = Some c)"
    using 0
  proof (cases rule: db_effect)
    case failed
    then show ?thesis using assms 0 by (auto simp: known_def bindE_apply)
  next
    case (ran v)
    then show ?thesis using assms 0
      by (auto simp: known_def bindE_apply GetStorageMigration_def campaign_def same_tables_def throwE_apply retE_apply split: option.splits)
  qed
  then show "s' = s" "same_tables w w'" "r = Inr c \<Longrightarrow> campaign i w = Some c" by auto
qed

lemma illegal_effect:
  assumes "(illegal i msg :: ('s, 'e, 'a) mig_op) (w, s) = (r, (w', s'))"
  shows "s' = s" "same_tables w w'" "r \<noteq> Inr c"
proof -
  obtain r0 w0 s0 where 0: "(known i :: ('s, 'e, _) mig_op) (w, s) = (r0, (w0, s0))" by (metis prod_cases3)
  have "r = (case r0 of Inl e \<Rightarrow> Inl e | Inr d \<Rightarrow> Inl (IllegalTransition msg (mg_State d)))" "w' = w0" "s' = s0"
    using assms 0 by (auto simp: illegal_def bindE_apply throwE_apply split: sum.splits)
  then show "s' = s" "same_tables w w'" "r \<noteq> Inr c" using known_effect [OF 0] by (auto split: sum.splits)
qed

lemma campaign_same: "same_tables w w' \<Longrightarrow> campaign i w' = campaign i w \<and> others i w' = others i w \<and> m_objs w' = m_objs w \<and> map mg_ID (m_camps w') = map mg_ID (m_camps w)"
  by (simp add: same_tables_def campaign_def others_def)

text \<open>A guarded statement, then the answer: the row as it is now, or why nothing happened.\<close>

lemma guarded_effect:
  fixes k :: "nat \<Rightarrow> ('s, 'e, StorageMigration) mig_op"
  assumes "bindE (db q) k (w, s) = (r, (w', s'))" "\<And>v. w_now v = w_now w \<Longrightarrow> q v = update_camp i P f v"
    and "distinct (map mg_ID (m_camps w))" "\<And>c. mg_ID (f c) = mg_ID c"
    and k: "\<And>n v s0 r0 v' s0'. k n (v, s0) = (r0, (v', s0')) \<Longrightarrow> s0' = s0 \<and> same_tables v v' \<and> (\<forall>c. r0 = Inr c \<longrightarrow> campaign i v = Some c \<and> Q n)"
    and target: "\<And>c t. campaign i w = Some c \<Longrightarrow> P c \<Longrightarrow> legal c = Some (mg_State ((f c)\<lparr>mg_UpdatedAt := t\<rparr>))"
  shows "s' = s \<and> ctl_effect legal i w w' \<and> (\<forall>c'. r = Inr c' \<longrightarrow> campaign i w' = Some c' \<and> (\<exists>c n. campaign i w = Some c \<and> Q n \<and> (n \<noteq> 0 \<longleftrightarrow> P c) \<and>
    (if P c then legal c = Some (mg_State c') else c' = c)))"
proof -
  obtain r0 w0 s0 where 0: "(db q :: ('s, 'e, nat) mig_op) (w, s) = (r0, (w0, s0))" by (metis prod_cases3)
  from 0 show ?thesis
  proof (cases rule: db_effect)
    case failed
    then show ?thesis using assms(1) 0 campaign_same [OF failed(3), of i] by (auto simp: bindE_apply ctl_effect_def)
  next
    case (ran v)
    have v: "distinct (map mg_ID (m_camps v))" "campaign i v = campaign i w" "others i v = others i w" "m_objs v = m_objs w" "map mg_ID (m_camps v) = map mg_ID (m_camps w)"
      using ran(2) assms(3) by (auto simp: same_tables_def campaign_def others_def)
    note eff = update_camp_effect [OF v(1) assms(4), of i P]
    note q = assms(2) [OF ran(5)]
    have "k (fst (update_camp i P f v)) (w0, s) = (r, (w', s'))" using assms(1) 0 ran q by (simp add: bindE_apply)
    note k = k [OF this] and same = campaign_same [of w0 w' i]
    have now: "campaign i w' = map_option (\<lambda>c. if P c then (f c)\<lparr>mg_UpdatedAt := w_now v\<rparr> else c) (campaign i w)"
      "others i w' = others i w" "m_objs w' = m_objs w" "map mg_ID (m_camps w') = map mg_ID (m_camps w)"
      using k same eff v ran(4) q by auto
    have "ctl_effect legal i w w'"
      using now target by (cases "campaign i w") (auto simp: ctl_effect_def)
    moreover have "campaign i w' = Some c' \<and> (\<exists>c n. campaign i w = Some c \<and> Q n \<and> (n \<noteq> 0 \<longleftrightarrow> P c) \<and>
        (if P c then legal c = Some (mg_State c') else c' = c))" if c': "r = Inr c'" for c'
    proof -
      have "campaign i w0 = Some c'" "Q (fst (update_camp i P f v))" using k c' by auto
      then have "campaign i w' = Some c'" using same k by simp
      moreover then obtain c where c: "campaign i w = Some c" "c' = (if P c then (f c)\<lparr>mg_UpdatedAt := w_now v\<rparr> else c)" using now(1) by auto
      moreover have "fst (update_camp i P f v) \<noteq> 0 \<longleftrightarrow> P c" using eff(5) v(2) c(1) by simp
      ultimately show ?thesis using \<open>Q (fst (update_camp i P f v))\<close> target [OF c(1)] by auto
    qed
    ultimately show ?thesis using k by blast
  qed
qed

lemma row_or_illegal:
  assumes "(if n = 0 then illegal i msg else reread i :: ('s, 'e, StorageMigration) mig_op) (v, s) = (r, (v', s'))"
  shows "s' = s \<and> same_tables v v' \<and> (\<forall>c. r = Inr c \<longrightarrow> campaign i v = Some c \<and> n \<noteq> (0 :: nat))"
proof (cases "n = 0")
  case True
  then show ?thesis using illegal_effect [of i msg v s r v' s'] assms by auto
next
  case False
  then show ?thesis using known_effect [of i v s r v' s'] assms by (auto simp: reread_def)
qed

lemma refused: "ctl_effect legal i w w" "same_tables w w' \<Longrightarrow> ctl_effect legal i w w'"
  using campaign_same [of w w' i] by (auto simp: ctl_effect_def)

text \<open>A read first, then the rest.\<close>

lemma known_first:
  fixes k :: "StorageMigration \<Rightarrow> ('s, 'e, 'a) mig_op"
  assumes "bindE (known i) k (w, s) = (r, (w', s'))"
  obtains (refused) e where "r = Inl e" "s' = s" "same_tables w w'"
  | (row) c v where "campaign i w = Some c" "same_tables w v" "k c (v, s) = (r, (w', s'))"
proof -
  obtain r0 w0 s0 where 0: "(known i :: ('s, 'e, _) mig_op) (w, s) = (r0, (w0, s0))" by (metis prod_cases3)
  show thesis
  proof (cases r0)
    case (Inl e)
    then show thesis using refused [of e] known_effect(1,2) [OF 0] assms 0 by (simp add: bindE_apply)
  next
    case (Inr c)
    then show thesis using row [of c w0] known_effect [OF 0] assms 0 by (simp add: bindE_apply)
  qed
qed

lemma db_first:
  fixes k :: "'x \<Rightarrow> ('s, 'e, 'a) mig_op"
  assumes "bindE (db q) k (w, s) = (r, (w', s'))" "\<And>v. snd (q v) = v"
  obtains (refused) e where "r = Inl e" "s' = s" "same_tables w w'"
  | (row) v where "same_tables w v" "k (fst (q v)) (v, s) = (r, (w', s'))"
proof -
  obtain r0 w0 s0 where 0: "(db q :: ('s, 'e, 'x) mig_op) (w, s) = (r0, (w0, s0))" by (metis prod_cases3)
  from 0 show thesis
  proof (cases rule: db_effect)
    case failed
    then show thesis using refused [of MigDb] assms(1) 0 by (simp add: bindE_apply)
  next
    case (ran v)
    then show thesis using row [of v] assms 0 by (simp add: bindE_apply)
  qed
qed

definition follows_table :: "('s, 'e) mig_Service \<Rightarrow> control \<Rightarrow> nat \<Rightarrow> mig_world \<Rightarrow> 's \<Rightarrow> 'e mig_error + StorageMigration \<Rightarrow> mig_world \<Rightarrow> 's \<Rightarrow> bool" where
  "follows_table sv ctl i w s r w' s' \<longleftrightarrow> s' = s \<and> ctl_effect (control_legal sv ctl i w) i w w' \<and>
    (\<forall>c'. r = Inr c' \<longrightarrow> campaign i w' = Some c' \<and> (\<exists>c. campaign i w = Some c \<and>
      (control_legal sv ctl i w c = Some (mg_State c') \<or>
       control_legal sv ctl i w c = None \<and> c' = c \<and> (ctl = Cancelling \<or> ctl = Aborting False))))"

lemma follows_refused: "s' = s \<Longrightarrow> same_tables w w' \<Longrightarrow> r = Inl e \<Longrightarrow> follows_table sv ctl i w s r w' s'"
  by (simp add: follows_table_def refused)

lemma follows_failed: "s' = s \<Longrightarrow> same_tables w w' \<Longrightarrow> isl r \<Longrightarrow> follows_table sv ctl i w s r w' s'"
  by (cases r) (simp_all add: follows_table_def refused)

lemma follows_same:
  assumes "same_tables w v" "follows_table sv ctl i v s r w' s'"
  shows "follows_table sv ctl i w s r w' s'"
proof -
  have "control_legal sv ctl i v = control_legal sv ctl i w"
    using assms(1) by (cases ctl) (auto simp: fun_eq_iff control_legal_def same_tables_def count_objs_def)
  then show ?thesis using assms(2) campaign_same [OF assms(1), of i] by (simp add: follows_table_def ctl_effect_def)
qed

text \<open>The guarded statement of a control and its answer.\<close>

lemma follows_guarded:
  fixes k :: "nat \<Rightarrow> ('s, 'e, StorageMigration) mig_op"
  assumes "bindE (db q) k (w, s) = (r, (w', s'))" "\<And>v. w_now v = w_now w \<Longrightarrow> q v = update_camp i P f v"
    and "distinct (map mg_ID (m_camps w))" "\<And>c. mg_ID (f c) = mg_ID c"
    and "\<And>n v s0 r0 v' s0'. k n (v, s0) = (r0, (v', s0')) \<Longrightarrow> s0' = s0 \<and> same_tables v v' \<and> (\<forall>c. r0 = Inr c \<longrightarrow> campaign i v = Some c \<and> Q n)"
    and "\<And>c t. campaign i w = Some c \<Longrightarrow> P c \<Longrightarrow> control_legal sv ctl i w c = Some (mg_State ((f c)\<lparr>mg_UpdatedAt := t\<rparr>))"
    and "\<And>c. campaign i w = Some c \<Longrightarrow> \<not> P c \<Longrightarrow> Q 0 \<Longrightarrow> control_legal sv ctl i w c = None \<and> (ctl = Cancelling \<or> ctl = Aborting False)"
  shows "follows_table sv ctl i w s r w' s'"
proof -
  have eff: "s' = s \<and> ctl_effect (control_legal sv ctl i w) i w w' \<and> (\<forall>c'. r = Inr c' \<longrightarrow> campaign i w' = Some c' \<and>
      (\<exists>c n. campaign i w = Some c \<and> Q n \<and> (n \<noteq> 0 \<longleftrightarrow> P c) \<and> (if P c then control_legal sv ctl i w c = Some (mg_State c') else c' = c)))"
    by (rule guarded_effect [OF assms(1-4)]) (assumption, erule assms(5), rule assms(6))
  have "\<exists>c. campaign i w = Some c \<and> (control_legal sv ctl i w c = Some (mg_State c') \<or>
      control_legal sv ctl i w c = None \<and> c' = c \<and> (ctl = Cancelling \<or> ctl = Aborting False))" if "r = Inr c'" for c'
  proof -
    from eff that obtain c n where c: "campaign i w = Some c" "Q n" "n \<noteq> 0 \<longleftrightarrow> P c"
      "if P c then control_legal sv ctl i w c = Some (mg_State c') else c' = c"
      by blast
    then show ?thesis using assms(7) [OF c(1)] by (cases "P c") auto
  qed
  then show ?thesis using eff unfolding follows_table_def by blast
qed

lemma get_row:
  assumes "(bindE (db (GetStorageMigration i)) (\<lambda>row. case row of None \<Rightarrow> throwE MigDb | Some c \<Rightarrow> retE c) :: ('s, 'e, StorageMigration) mig_op) (v, s) = (r, (v', s'))"
  shows "s' = s \<and> same_tables v v' \<and> (\<forall>c. r = Inr c \<longrightarrow> campaign i v = Some c \<and> True)"
proof (rule db_first [OF assms])
  fix u assume "same_tables v u" "(case fst (GetStorageMigration i u) of None \<Rightarrow> throwE MigDb | Some c \<Rightarrow> retE c) (u, s) = (r, (v', s'))"
  then show ?thesis by (auto simp: GetStorageMigration_def campaign_def same_tables_def throwE_apply retE_apply split: option.splits)
qed (auto simp: GetStorageMigration_def)

lemma pause_follows:
  assumes "mig_Pause i reason (w, s) = (r, (w', s'))" "distinct (map mg_ID (m_camps w))"
  shows "follows_table sv (Pausing reason) i w s r w' s'"
proof (cases "reason = PauseReasonOperator \<or> reason = PauseReasonTargetWriteDenied")
  case True
  let ?note = "if reason = PauseReasonTargetWriteDenied then NotePausedByTarget else NoteEmpty"
  from True have "bindE (db (PauseStorageMigration i reason ?note)) (\<lambda>n. if n = 0 then illegal i ''pause'' else reread i) (w, s) = (r, (w', s'))"
    using assms(1) by (auto simp: mig_Pause_def guardE_def)
  from follows_guarded [OF this fun_cong [OF PauseStorageMigration_def] assms(2) _ row_or_illegal] show ?thesis
    using True by (auto simp: control_legal_def)
next
  case False
  then show ?thesis using assms(1) by (intro follows_refused) (auto simp: mig_Pause_def guardE_def throwE_apply same_tables_def)
qed

lemma resume_follows:
  assumes "mig_Resume sv i (w, s) = (r, (w', s'))" "distinct (map mg_ID (m_camps w))"
  shows "follows_table sv Resuming i w s r w' s'"
proof (cases "targetWritable sv")
  case True
  then have "bindE (db (ResumeStorageMigration i)) (\<lambda>n. if n = 0 then illegal i ''resume'' else reread i) (w, s) = (r, (w', s'))"
    using assms(1) by (simp add: mig_Resume_def guardE_def)
  from follows_guarded [OF this fun_cong [OF ResumeStorageMigration_def] assms(2) _ row_or_illegal] show ?thesis
    using True by (auto simp: control_legal_def)
next
  case False
  then show ?thesis using assms(1) by (intro follows_refused) (auto simp: mig_Resume_def guardE_def throwE_apply same_tables_def)
qed

lemma cancel_follows:
  assumes "mig_Cancel i (w, s) = (r, (w', s'))" "distinct (map mg_ID (m_camps w))" "ctl = Cancelling \<or> ctl = Aborting False"
  shows "follows_table sv ctl i w s r w' s'"
  using assms(1) unfolding mig_Cancel_def
proof (cases rule: known_first)
  case (row c v)
  have "distinct (map mg_ID (m_camps v))" using assms(2) row(2) by (simp add: same_tables_def)
  from follows_guarded [OF row(3) fun_cong [OF CancelStorageMigration_def] this _ get_row] have "follows_table sv ctl i v s r w' s'"
    using assms(3) by (auto simp: control_legal_def)
  then show ?thesis by (rule follows_same [OF row(2)])
qed (rule follows_refused)

lemma abort_follows:
  assumes "mig_Abort i clean (w, s) = (r, (w', s'))" "distinct (map mg_ID (m_camps w))"
  shows "follows_table sv (Aborting clean) i w s r w' s'"
proof (cases clean)
  case True
  then have "bindE (db (AbortStorageMigrationWithCleanup i NoteAborting))
      (\<lambda>n. if n = 0 then illegal i ''abort with destination clean-up'' else reread i) (w, s) = (r, (w', s'))"
    using assms(1) by (simp add: mig_Abort_def)
  from follows_guarded [OF this fun_cong [OF AbortStorageMigrationWithCleanup_def] assms(2) _ row_or_illegal] show ?thesis
    using True by (auto simp: control_legal_def)
next
  case False
  then show ?thesis using assms cancel_follows [of i w s r w' s' "Aborting clean"] by (simp add: mig_Abort_def)
qed

lemma reread_row:
  assumes "(reread i :: ('s, 'e, StorageMigration) mig_op) (v, s) = (r, (v', s'))"
  shows "s' = s \<and> same_tables v v' \<and> (\<forall>c. r = Inr c \<longrightarrow> campaign i v = Some c \<and> True)"
  using known_effect [of i v s r v' s'] assms by (auto simp: reread_def)

lemma switch_follows:
  assumes "mig_Switch sv i (w, s) = (r, (w', s'))" "distinct (map mg_ID (m_camps w))"
  shows "follows_table sv Switching i w s r w' s'"
  using assms(1) unfolding mig_Switch_def
proof (cases rule: known_first)
  case (row c v)
  have v: "distinct (map mg_ID (m_camps v))" "campaign i v = Some c"
    using assms(2) row(1,2) by (auto simp: same_tables_def campaign_def)
  show ?thesis
  proof (cases "(mg_State c = StateCopying \<or> mg_State c = StateSynced) \<and> topologyFor sv c = TopologySwapped")
    case True
    then have "bindE (db (MarkStorageMigrationCutover i)) (\<lambda>_. reread i) (v, s) = (r, (w', s'))"
      using row(3) by (auto simp: guardE_def)
    moreover have "MarkStorageMigrationCutover i u = update_camp i (\<lambda>c. mg_State c \<in> {StateCopying, StateSynced})
        (\<lambda>c. c\<lparr>mg_State := StateCutover, mg_ObservedCutoverAt := Some (case mg_ObservedCutoverAt c of None \<Rightarrow> w_now v | Some t \<Rightarrow> t),
          mg_LastError := NoteEmpty\<rparr>) u" if "w_now u = w_now v" for u
      unfolding MarkStorageMigrationCutover_def that ..
    ultimately have "follows_table sv Switching i v s r w' s'"
      by (rule follows_guarded [OF _ _ v(1) _ reread_row]) (use v(2) True in \<open>auto simp: control_legal_def\<close>)
    then show ?thesis by (rule follows_same [OF row(2)])
  next
    case False
    then show ?thesis using row
      by (intro follows_failed) (auto simp: guardE_def throwE_apply same_tables_def split: if_splits)
  qed
qed (rule follows_refused)

lemma release_follows:
  assumes "mig_Release i (w, s) = (r, (w', s'))" "distinct (map mg_ID (m_camps w))"
  shows "follows_table sv Releasing i w s r w' s'"
  using assms(1) unfolding mig_Release_def
proof (cases rule: known_first)
  case (row c v)
  show ?thesis
  proof (cases "mg_State c = StateCutover")
    case True
    let ?rest = "\<lambda>left. guardE (left > 0) ErrObjectsUncopied (bindE (db (ReleaseStorageMigrationSource i))
        (\<lambda>n. if n = 0 then illegal i ''release the source of'' else reread i))"
    have "bindE (db (CountUncopiedStorageMigrationObjects i)) ?rest (v, s) = (r, (w', s'))"
      using row(3) True by (simp add: guardE_def)
    then show ?thesis
    proof (rule db_first)
      fix u assume u: "same_tables v u" "?rest (fst (CountUncopiedStorageMigrationObjects i u)) (u, s) = (r, (w', s'))"
      have wu: "same_tables w u" "distinct (map mg_ID (m_camps u))" using row(2) u(1) assms(2) by (auto simp: same_tables_def)
      show ?thesis
      proof (cases "count_objs i {ObjectPending, ObjectCopying} u \<le> 0")
        case True
        then have "bindE (db (ReleaseStorageMigrationSource i)) (\<lambda>n. if n = 0 then illegal i ''release the source of'' else reread i) (u, s) = (r, (w', s'))"
          using u(2) by (simp add: guardE_def CountUncopiedStorageMigrationObjects_def)
        from follows_guarded [OF this fun_cong [OF ReleaseStorageMigrationSource_def] wu(2) _ row_or_illegal] have "follows_table sv Releasing i u s r w' s'"
          using True by (auto simp: control_legal_def)
        then show ?thesis by (rule follows_same [OF wu(1)])
      next
        case False
        then show ?thesis using u(2) wu(1)
          by (intro follows_refused) (auto simp: guardE_def throwE_apply CountUncopiedStorageMigrationObjects_def split: if_splits)
      qed
    next
      fix e assume "r = Inl e" "s' = s" "same_tables v w'"
      then show ?thesis using row(2) by (intro follows_refused [where e = e]) (auto simp: same_tables_def)
    qed (simp add: CountUncopiedStorageMigrationObjects_def)
  next
    case False
    then show ?thesis using row by (intro follows_refused) (auto simp: guardE_def throwE_apply split: if_splits)
  qed
qed (rule follows_refused)

text \<open>C24. A control of a storage migration touches neither the stores, the object ledger nor another
  campaign, under every schedule of database faults. It leaves its campaign as it is or takes it
  to the state the table of controls names for it, and only if the control's own condition holds
  (a writable target for resume, the swapped stores for switch, no uncopied object for release);
  a control that answers with the campaign has done so, except that cancelling a campaign that is
  over answers with it unchanged.\<close>

theorem control_transitions:
  assumes "run_control sv ctl i (w, s) = (r, (w', s'))" "distinct (map mg_ID (m_camps w))"
  shows "s' = s \<and> m_objs w' = m_objs w \<and> others i w' = others i w \<and>
    (campaign i w' = campaign i w \<or> (\<exists>c c'. campaign i w = Some c \<and> campaign i w' = Some c' \<and> control_legal sv ctl i w c = Some (mg_State c'))) \<and>
    (\<forall>c'. r = Inr c' \<longrightarrow> campaign i w' = Some c' \<and> (\<exists>c. campaign i w = Some c \<and>
      (control_legal sv ctl i w c = Some (mg_State c') \<or>
       control_legal sv ctl i w c = None \<and> c' = c \<and> (ctl = Cancelling \<or> ctl = Aborting False))))"
proof -
  have "follows_table sv ctl i w s r w' s'"
    using assms(1) pause_follows [OF _ assms(2)] resume_follows [OF _ assms(2)] abort_follows [OF _ assms(2)]
      switch_follows [OF _ assms(2)] release_follows [OF _ assms(2)] cancel_follows [OF _ assms(2) disjI1 [OF refl]]
    by (cases ctl) (simp_all add: run_control_def)
  then show ?thesis unfolding follows_table_def ctl_effect_def by blast
qed

text \<open>Pausing twice: the second attempt is refused and changes nothing.\<close>

definition demo_paused :: mig_world where
  "demo_paused = demo_mig_world\<lparr>m_camps := [\<lparr>mg_ID = 1, mg_State = StatePaused, mg_SourceDesc = ''near'', mg_TargetDesc = ''far'',
     mg_ObjectsTotal = 0, mg_ObjectsDone = 0, mg_ObjectsFailed = 0, mg_LastError = NoteEmpty, mg_PausedReason = PauseReasonOperator,
     mg_ResumeState = Some StateSynced, mg_ObservedCutoverAt = None, mg_RequestID = [], mg_CorrelationID = [], mg_WorkerID = [],
     mg_CreatedAt = 0, mg_UpdatedAt = 0\<rparr>]\<rparr>"

theorem control_transitions_witness:
  "let out = run_control demo_mover (Pausing PauseReasonOperator) 1 (demo_paused, ([], [])); resumed = run_control demo_mover Resuming 1 (demo_paused, ([], [])) in
   campaign 1 (fst (snd out)) = campaign 1 demo_paused \<and> fst out = Inl (IllegalTransition ''pause'' StatePaused) \<and>
   m_objs (fst (snd resumed)) = m_objs demo_paused \<and> map_option mg_State (campaign 1 (fst (snd resumed))) = Some StateSynced"
proof -
  let ?out = "run_control demo_mover (Pausing PauseReasonOperator) 1 (demo_paused, ([], []))"
  let ?resumed = "run_control demo_mover Resuming 1 (demo_paused, ([], []))"
  have d: "distinct (map mg_ID (m_camps demo_paused))" by (simp add: demo_paused_def)
  have 1: "?out = (fst ?out, (fst (snd ?out), snd (snd ?out)))" "?resumed = (fst ?resumed, (fst (snd ?resumed), snd (snd ?resumed)))" by simp_all
  note t = control_transitions [OF 1(1) d] control_transitions [OF 1(2) d]
  have c: "campaign 1 demo_paused = Some (hd (m_camps demo_paused))" by (simp add: campaign_def demo_paused_def)
  have illegal: "control_legal demo_mover (Pausing PauseReasonOperator) 1 demo_paused (hd (m_camps demo_paused)) = None"
    by (simp add: control_legal_def demo_paused_def)
  have out: "fst ?out = Inl (IllegalTransition ''pause'' StatePaused)" "map_option mg_State (campaign 1 (fst (snd ?resumed))) = Some StateSynced"
    by code_simp+
  show ?thesis using t c illegal out by (auto simp: Let_def)
qed

section \<open>A control between the two halves of a sweep\<close>

definition state_is :: "nat \<Rightarrow> mig_state \<Rightarrow> mig_world \<Rightarrow> bool" where
  "state_is i st w \<longleftrightarrow> distinct (map mg_ID (m_camps w)) \<and> map_option mg_State (campaign i w) = Some st"

abbreviation in_state :: "nat \<Rightarrow> mig_state \<Rightarrow> mig_world \<times> 's \<Rightarrow> bool" where
  "in_state i st \<equiv> \<lambda>x. state_is i st (fst x)"

lemma state_is_update:
  assumes "state_is i st w" "\<And>c. mg_ID (f c) = mg_ID c" "\<And>c. mg_State c = st \<Longrightarrow> st' = (if P c then mg_State (f c) else st)"
  shows "state_is i st' (snd (update_camp i P f w))"
proof -
  obtain c where c: "campaign i w = Some c" "mg_State c = st" and d: "distinct (map mg_ID (m_camps w))"
    using assms(1) by (auto simp: state_is_def)
  show ?thesis using c d assms(3) [OF c(2)] update_camp_effect(1,4) [OF d assms(2), of i P] by (auto simp: state_is_def)
qed

lemma state_is_camps: "m_camps v = m_camps w \<Longrightarrow> state_is i st v = state_is i st w"
  by (simp add: state_is_def campaign_def)

lemma state_is_db: "(\<And>v. state_is i st v \<Longrightarrow> state_is i st (snd (q v))) \<Longrightarrow> preserves (in_state i st) (db q)"
  by (rule preserves_db) (auto simp: state_is_camps [of "_\<lparr>w_faults := _\<rparr>"])

lemma state_is_worker: "state_is i st v \<Longrightarrow> state_is i st (snd (SetStorageMigrationWorker j wk v))"
proof -
  have "map mg_ID (m_camps (snd (SetStorageMigrationWorker j wk v))) = map mg_ID (m_camps v)"
    by (simp add: SetStorageMigrationWorker_def)
  moreover have "map_option mg_State (campaign i (snd (SetStorageMigrationWorker j wk v))) = map_option mg_State (campaign i v)"
    unfolding campaign_def SetStorageMigrationWorker_def by (simp, subst find_map_same) (auto simp: option.map_comp comp_def intro: option.map_cong)
  ultimately show "state_is i st v \<Longrightarrow> state_is i st (snd (SetStorageMigrationWorker j wk v))" by (simp add: state_is_def)
qed

lemma state_is_ops:
  "preserves (in_state i st) (stampWorker sv j)" "preserves (in_state i st) (refresh i)"
  "preserves (in_state i st) (upsert_chunks j keys n)" "preserves (in_state i st) (enumerate sv j)"
proof -
  show "preserves (in_state i st) (stampWorker sv j)"
    unfolding stampWorker_def by (intro preserves_rules state_is_db state_is_worker)
  show "preserves (in_state i st) (refresh i)"
    unfolding refresh_def RefreshStorageMigrationCounters_def Let_def
    by (intro preserves_rules state_is_db) (rule state_is_update; auto)
  have upsert: "state_is i st v \<Longrightarrow> state_is i st (snd (UpsertStorageMigrationObjects j ks v))" for j ks v
    by (subst state_is_camps [where w = v]) (simp_all add: UpsertStorageMigrationObjects_def Let_def)
  show up: "preserves (in_state i st) (upsert_chunks j keys n)" for keys n
  proof (induction j keys n rule: upsert_chunks.induct)
    case (1 j keys n)
    then show ?case by (subst upsert_chunks.simps) (intro preserves_rules state_is_db upsert; assumption)
  qed
  show "preserves (in_state i st) (enumerate sv j)"
    unfolding enumerate_def by (intro preserves_rules up preserves_store) simp
qed

lemma setState_reaches:
  assumes "state_is i st w" "\<not> terminal_state st" "(setState i st' :: ('s, 'e, unit) mig_op) (w, s) = (Inr (), (w', s'))"
  shows "state_is i st' w'"
proof -
  obtain r0 w0 s0 where 0: "(db (SetStorageMigrationState i st' NoteEmpty) :: ('s, 'e, nat) mig_op) (w, s) = (r0, (w0, s0))" by (metis prod_cases3)
  show ?thesis
    using 0
  proof (cases rule: db_effect)
    case (ran v)
    then have "state_is i st v" using assms(1) state_is_camps [of v w] by (simp add: same_tables_def)
    then have "state_is i st' (snd (SetStorageMigrationState i st' NoteEmpty v))"
      unfolding SetStorageMigrationState_def by (rule state_is_update) (use assms(2) in simp_all)
    then show ?thesis using assms(3) 0 ran by (simp add: setState_def bindE_apply retE_apply)
  qed (use assms(3) 0 in \<open>simp add: setState_def bindE_apply\<close>)
qed

text \<open>C25. An operator's pause or abort that is accepted between a sweep's read of an enumerating
  campaign and its action is undone: when the sweep finishes, the campaign is copying again.\<close>

theorem stale_sweep_overrides_control:
  fixes sv :: "('s, 'e) mig_Service"
  assumes "distinct (map mg_ID (m_camps w))" "(db GetActiveStorageMigration (w, s) :: ('e mig_error + _) \<times> _) = (Inr (Some c), (w1, s1))"
    and "mg_State c = StateEnumerating" "topologyFor sv c = TopologyForward" "targetWritable sv"
    and "ctl = Pausing PauseReasonOperator \<or> ctl = Aborting True" "run_control sv' ctl (mg_ID c) (w1, s1) = (Inr c1, (w2, s2))"
    and "sweep_act sv t c (w2, s2) = (Inr (), (w3, s3))"
  shows "mg_State c1 = (if ctl = Aborting True then StateAborting else StatePaused) \<and> campaign (mg_ID c) w2 = Some c1 \<and>
    map_option mg_State (campaign (mg_ID c) w3) = Some StateCopying"
proof -
  let ?i = "mg_ID c"
  have "same_tables w w1"
    using assms(2) by (cases rule: db_effect) (auto simp: GetActiveStorageMigration_def)
  then have d: "distinct (map mg_ID (m_camps w1))" using assms(1) by (simp add: same_tables_def)
  have "follows_table sv' ctl ?i w1 s1 (Inr c1) w2 s2"
    using assms(6,7) pause_follows [OF _ d, of ?i PauseReasonOperator s1] abort_follows [OF _ d, of ?i True s1]
    by (auto simp: run_control_def)
  then have c1: "campaign ?i w2 = Some c1" "mg_State c1 = (if ctl = Aborting True then StateAborting else StatePaused)"
    and d2: "distinct (map mg_ID (m_camps w2))"
    using assms(6) d by (auto simp: follows_table_def ctl_effect_def control_legal_def split: if_splits)
  then have s2: "state_is ?i (mg_State c1) w2" and live: "\<not> terminal_state (mg_State c1)" by (simp_all add: state_is_def terminal_state_def)
  have "sweep_act sv t c = bindE (stampWorker sv ?i) (\<lambda>_. bindE (bindE (enumerate sv ?i) (\<lambda>_. refresh ?i)) (\<lambda>_. setState ?i StateCopying))"
    using assms(3-5) by (simp add: sweep_act_def reconcileTargetWritability_def sweepForward_def bindE_assoc)
  then have run: "bindE (stampWorker sv ?i) (\<lambda>_. bindE (bindE (enumerate sv ?i) (\<lambda>_. refresh ?i)) (\<lambda>_. setState ?i StateCopying)) (w2, s2) = (Inr (), (w3, s3))"
    using assms(8) by simp
  then obtain u s4 where u: "(stampWorker sv ?i :: ('s, 'e, unit) mig_op) (w2, s2) = (Inr (), (u, s4))"
    and rest: "bindE (bindE (enumerate sv ?i) (\<lambda>_. refresh ?i)) (\<lambda>_. setState ?i StateCopying) (u, s4) = (Inr (), (w3, s3))"
    by (subst (asm) bindE_Inr) auto
  from rest obtain v s5 n where v: "bindE (enumerate sv ?i) (\<lambda>_. refresh ?i) (u, s4) = (Inr n, (v, s5))" and w3: "(setState ?i StateCopying :: ('s, 'e, unit) mig_op) (v, s5) = (Inr (), (w3, s3))"
    by (subst (asm) bindE_Inr) auto
  have "state_is ?i (mg_State c1) u" using preservesD [OF state_is_ops(1), of ?i "mg_State c1" "(w2, s2)" sv ?i] s2 u by simp
  then have "state_is ?i (mg_State c1) v"
    using preservesD [OF preserves_bindE [OF state_is_ops(4) state_is_ops(2)], of ?i "mg_State c1" "(u, s4)" sv ?i] v by simp
  from setState_reaches [OF this live w3] have "map_option mg_State (campaign ?i w3) = Some StateCopying" by (simp add: state_is_def)
  then show ?thesis using c1 by simp
qed

text \<open>A campaign that is listing its source; the operator aborts it while a sweep is under way.\<close>

definition demo_listing :: mig_world where
  "demo_listing = demo_paused\<lparr>m_camps := map (\<lambda>c. c\<lparr>mg_State := StateEnumerating, mg_ResumeState := None, mg_PausedReason := []\<rparr>) (m_camps demo_paused)\<rparr>"

theorem stale_sweep_overrides_control_witness:
  "let c = hd (m_camps demo_listing); aborted = run_control demo_mover (Aborting True) 1 (demo_listing, ([], []));
       swept = sweep_act demo_mover far c (snd aborted) in
   (\<exists>c1. fst aborted = Inr c1 \<and> mg_State c1 = StateAborting) \<and> fst swept = Inr () \<and>
   map_option mg_State (campaign 1 (fst (snd swept))) = Some StateCopying"
proof -
  let ?c = "hd (m_camps demo_listing)" and ?out = "run_control demo_mover (Aborting True) 1 (demo_listing, ([], []))"
  let ?swept = "sweep_act demo_mover far ?c (snd ?out)"
  have "quiet demo_listing" "GetActiveStorageMigration demo_listing = (Some ?c, demo_listing)"
    by (simp_all add: quiet_def demo_listing_def demo_paused_def demo_mig_world_def GetActiveStorageMigration_def newest_first_def terminal_state_def)
  then have read: "(db GetActiveStorageMigration (demo_listing, ([], [])) :: (unit storage_error mig_error + _) \<times> _) = (Inr (Some ?c), (demo_listing, ([], [])))"
    by (simp add: db_quiet)
  have now: "distinct (map mg_ID (m_camps demo_listing))" "mg_State ?c = StateEnumerating" "topologyFor demo_mover ?c = TopologyForward"
    "targetWritable demo_mover" "mg_ID ?c = 1"
    by (simp_all add: demo_listing_def demo_paused_def demo_mover_def mig_NewService_def topologyFor_def Describe_def Let_def bucket_Store_def targetWritable_def)
  have "isl (fst ?out) = False" "fst ?swept = Inr ()" by code_simp+
  then obtain c1 where out: "fst ?out = Inr c1" "fst ?swept = Inr ()" by (cases "fst ?out") auto
  have "?out = (Inr c1, (fst (snd ?out), snd (snd ?out)))" "?swept = (Inr (), (fst (snd ?swept), snd (snd ?swept)))"
    using out by (metis prod.collapse)+
  then show ?thesis
    using stale_sweep_overrides_control [OF now(1) read now(2-4) _ _, of "Aborting True" demo_mover c1 "fst (snd ?out)" "snd (snd ?out)" far "fst (snd ?swept)" "snd (snd ?swept)"]
      now(5) out by (simp add: Let_def)
qed

section \<open>The media sweep waits\<close>

text \<open>The check wired into the media sweep: a query that fails is an answer that is not known.\<close>

definition migration_check :: "mig_world \<Rightarrow> bool option" where
  "migration_check w = (case repo HasActiveStorageMigration w of (Inl _, _) \<Rightarrow> None | (Inr active, _) \<Rightarrow> Some active)"

text \<open>C28. While a campaign is neither done nor cancelled, a media sweep wired to the migration check
  deletes nothing from the disk, also when the check itself fails, and says that the migration is
  the reason.\<close>

theorem migration_blocks_gc:
  assumes "c \<in> set (m_camps w)" "mg_State c \<noteq> StateDone" "mg_State c \<noteq> StateCancelled"
    and "gc_Sweep (local_backend l) dryRun (WithActiveMigrationCheck (migration_check w) g) rows fs = (res, g', rows', fs')"
  shows "node_at fs' = node_at fs \<and> (\<forall>r. res = Inr r \<longrightarrow> gc_Deleted r = 0 \<and> gc_DryRun r \<and> (\<not> dryRun \<longrightarrow> gc_ForcedDryRun r = Some ReasonMigrationActive))"
proof -
  let ?g = "WithActiveMigrationCheck (migration_check w) g"
  have "migration_check w \<noteq> Some False"
    using assms(1-3) by (cases rule: repo_cases [of w HasActiveStorageMigration]) (auto simp: migration_check_def HasActiveStorageMigration_def list_ex_iff)
  then have gate: "gates (local_backend l) dryRun ?g fs = ((True, if dryRun then None else Some ReasonMigrationActive), ?g, fs)"
    by (auto simp: gates_def WithActiveMigrationCheck_def split: option.splits)
  from assms(4) show ?thesis
  proof (cases rule: gc_Sweep_local)
    case (swept dry forced fs1 refs listed fs2 r keys n)
    have "dry" "forced = (if dryRun then None else Some ReasonMigrationActive)" using swept(1) gate by simp_all
    then have "keys = []" "gc_DryRun r" "gc_ForcedDryRun r = forced" using swept(4) by (auto simp: sweep_listed_def Let_def)
    then show ?thesis using swept(5-7) \<open>forced = _\<close> by auto
  qed simp
qed

theorem migration_blocks_gc_witness:
  "let out = gc_Sweep (local_backend demo_root) False (WithActiveMigrationCheck (migration_check demo_paused) demo_gc) demo_rows (demo_tree []) in
   node_at (snd (snd (snd out))) = node_at (demo_tree []) \<and> (\<exists>r. fst out = Inr r \<and> gc_Deleted r = 0 \<and> gc_ForcedDryRun r = Some ReasonMigrationActive)"
proof -
  let ?out = "gc_Sweep (local_backend demo_root) False (WithActiveMigrationCheck (migration_check demo_paused) demo_gc) demo_rows (demo_tree [])"
  have eq: "?out = (fst ?out, fst (snd ?out), fst (snd (snd ?out)), snd (snd (snd ?out)))" by simp
  have c: "hd (m_camps demo_paused) \<in> set (m_camps demo_paused)" "mg_State (hd (m_camps demo_paused)) \<noteq> StateDone" "mg_State (hd (m_camps demo_paused)) \<noteq> StateCancelled"
    by (simp_all add: demo_paused_def)
  have "isl (fst ?out) = False" by code_simp
  then obtain r where "fst ?out = Inr r" by (cases "fst ?out") auto
  then show ?thesis using migration_blocks_gc [OF c eq] by (simp add: Let_def)
qed

section \<open>Dual reads\<close>

text \<open>What a reader of the pair of stores sees.\<close>

definition dual_view :: "('a \<Rightarrow> string \<Rightarrow> string option) \<Rightarrow> ('b \<Rightarrow> string \<Rightarrow> string option) \<Rightarrow> 'a \<times> 'b \<Rightarrow> string \<Rightarrow> string option" where
  "dual_view view1 view2 s k = (case view1 (fst s) k of Some c \<Rightarrow> Some c | None \<Rightarrow> view2 (snd s) k)"

text \<open>C27. Over two stores that do not fail, the dual-read view refines one map, the primary's object
  where there is one and else the secondary's: open returns what the map holds and not found
  otherwise, put sets one key, and delete removes it from both, so that it does not come back
  through the fallback.\<close>

theorem dual_read_refines:
  assumes "reliable_store h1 ok1 view1 good" "reliable_store h2 ok2 view2 good" "ok1 a" "ok2 b" "good k" "drain r = (new, EOF)"
  defines "f \<equiv> \<lparr>fb_primary = first_store h1, fb_secondary = Some (second_store h2)\<rparr>" and "see \<equiv> dual_view view1 view2"
  shows "(case see (a, b) k of Some c \<Rightarrow> Fallback_Open f k (a, b) = (Inr (c, False), (a, b))
      | None \<Rightarrow> \<exists>e. Fallback_Open f k (a, b) = (Inl e, (a, b)) \<and> st_NotFound h2 e) \<and>
    (\<exists>s. Fallback_Put f k r (a, b) = (Inr (length new), s) \<and> ok1 (fst s) \<and> ok2 (snd s) \<and>
      (\<forall>k'. good k' \<longrightarrow> see s k' = (if k' = k then Some new else see (a, b) k'))) \<and>
    (\<exists>s. Fallback_Delete f k (a, b) = (Inr (), s) \<and> ok1 (fst s) \<and> ok2 (snd s) \<and>
      (\<forall>k'. good k' \<longrightarrow> see s k' = (if k' = k then None else see (a, b) k')))"
proof (intro conjI)
  note A = reliable_store.opens [OF assms(1)] reliable_store.opens_nothing [OF assms(1)] and B = reliable_store.opens [OF assms(2)] reliable_store.opens_nothing [OF assms(2)]
  show "case see (a, b) k of Some c \<Rightarrow> Fallback_Open f k (a, b) = (Inr (c, False), (a, b))
      | None \<Rightarrow> \<exists>e. Fallback_Open f k (a, b) = (Inl e, (a, b)) \<and> st_NotFound h2 e"
  proof (cases "view1 a k")
    case None
    obtain e where "st_Open h1 k a = (Inl e, a)" "st_NotFound h1 e" using A(2) [OF assms(3,5) None] by blast
    then have "Fallback_Open f k (a, b) = within snd (\<lambda>b. apsnd (\<lambda>_. b)) (st_Open h2 k) (a, b)"
      by (simp add: Fallback_Open_def f_def catchE_apply within_def)
    then show ?thesis
      using None B(1) [OF assms(4,5)] B(2) [OF assms(4,5)] by (cases "view2 b k") (auto simp: see_def dual_view_def within_def)
  next
    case (Some c)
    then show ?thesis using A(1) [OF assms(3,5) Some] by (simp add: see_def dual_view_def Fallback_Open_def f_def catchE_apply within_def retE_apply)
  qed
  show "\<exists>s. Fallback_Put f k r (a, b) = (Inr (length new), s) \<and> ok1 (fst s) \<and> ok2 (snd s) \<and>
      (\<forall>k'. good k' \<longrightarrow> see s k' = (if k' = k then Some new else see (a, b) k'))"
  proof -
    obtain a' where "st_Put h1 k r a = (Inr (length new), a')" "ok1 a'" "\<forall>k'. good k' \<longrightarrow> view1 a' k' = (if k' = k then Some new else view1 a k')"
      using reliable_store.puts [OF assms(1,3,5,6)] by blast
    then show ?thesis using assms(4) by (intro exI [of _ "(a', b)"]) (auto simp: Fallback_Put_def f_def see_def dual_view_def within_def split: option.splits)
  qed
  show "\<exists>s. Fallback_Delete f k (a, b) = (Inr (), s) \<and> ok1 (fst s) \<and> ok2 (snd s) \<and>
      (\<forall>k'. good k' \<longrightarrow> see s k' = (if k' = k then None else see (a, b) k'))"
  proof -
    obtain a' where a': "st_Delete h1 k a = (Inr (), a')" "ok1 a'" "\<forall>k'. good k' \<longrightarrow> view1 a' k' = (if k' = k then None else view1 a k')"
      using reliable_store.deletes [OF assms(1,3,5)] by blast
    obtain b' where b': "st_Delete h2 k b = (Inr (), b')" "ok2 b'" "\<forall>k'. good k' \<longrightarrow> view2 b' k' = (if k' = k then None else view2 b k')"
      using reliable_store.deletes [OF assms(2,4,5)] by blast
    have "Fallback_Delete f k (a, b) = (Inr (), (a', b'))"
      using a'(1) b'(1) by (simp add: Fallback_Delete_def f_def bindE_apply catchE_apply within_def retE_apply)
    then show ?thesis using a' b' by (intro exI [of _ "(a', b')"]) (auto simp: see_def dual_view_def split: option.splits)
  qed
qed

text \<open>An object that only the second bucket holds is read from there; a deletion reaches both.\<close>

theorem dual_read_refines_witness:
  "let f = \<lparr>fb_primary = near, fb_secondary = Some far\<rparr>; s = ([(''a'', ''x'')], [(''a'', ''old''), (''b'', ''y'')]) in
   Fallback_Open f ''b'' s = (Inr (''y'', False), s) \<and> (\<exists>s'. Fallback_Delete f ''b'' s = (Inr (), s') \<and> dual_view map_of map_of s' ''b'' = None)"
proof -
  note t = dual_read_refines [OF demo_reliable [of "''near''"] demo_reliable [of "''far''"], of "[(''a'', ''x'')]" "[(''a'', ''old''), (''b'', ''y'')]" "''b''" "plain_body ''n''" "''n''"]
  have d: "dual_view map_of map_of ([(''a'', ''x'')], [(''a'', ''old''), (''b'', ''y'')]) ''b'' = Some ''y''" by (simp add: dual_view_def)
  show ?thesis using t by (simp add: d plain_body_def Let_def) (elim conjE exE, intro exI conjI, assumption, simp)
qed

end
