(* ===== verification/Ip_Scope.thy ===== *)
theory Ip_Scope
  imports Numerals
begin

text \<open>
  The coarse network prefix that scopes the failed-login backoff: \<open>ipScope\<close> of
  \<^verbatim>\<open>internal/auth/loginlock.go\<close>, over the parts of Go's \<open>net/netip\<close> and \<open>net\<close> packages it uses
  (\<open>ParseAddr\<close>, \<open>Unmap\<close>, \<open>Prefix\<close>, \<open>Prefix.String\<close>, \<open>SplitHostPort\<close>), which are written out on byte
  strings. An address is four octets or eight 16-bit groups; the zone of an IPv6 address is parsed
  and dropped, as \<open>Prefix\<close> drops it.

  The theorem of this theory is that the printed scope is a faithful name of the prefix: two client
  addresses, however spelled, share a scope exactly when they lie in the same IPv4 /24 or the same
  IPv6 /48.
\<close>

section \<open>Parsing addresses\<close>

datatype Addr = V4 "nat list" | V6 "nat list"

definition byte_val :: "char \<Rightarrow> nat" where
  "byte_val c = of_char c"

definition is_digit :: "char \<Rightarrow> bool" where
  "is_digit c \<longleftrightarrow> 48 \<le> byte_val c \<and> byte_val c \<le> 57"

definition hex_value :: "char \<Rightarrow> nat option" where
  "hex_value c = (let b = byte_val c in
     if 48 \<le> b \<and> b \<le> 57 then Some (b - 48)
     else if 97 \<le> b \<and> b \<le> 102 then Some (b - 97 + 10)
     else if 65 \<le> b \<and> b \<le> 70 then Some (b - 65 + 10)
     else None)"

text \<open>
  \<open>parseIPv4Fields\<close>: \<open>prev\<close> is the byte before the current one (\<open>None\<close> at the start), \<open>digLen\<close> and
  \<open>val\<close> belong to the current octet and \<open>octets\<close> holds the finished ones.
\<close>

fun parseIPv4Fields_loop :: "char option \<Rightarrow> nat \<Rightarrow> nat \<Rightarrow> nat list \<Rightarrow> string \<Rightarrow> nat list option" where
  "parseIPv4Fields_loop prev digLen val octets [] = (if length octets < 3 then None else Some (octets @ [val]))"
| "parseIPv4Fields_loop prev digLen val octets (c # cs) =
    (if is_digit c then
       (if digLen = 1 \<and> val = 0 then None
        else let val' = val * 10 + (byte_val c - 48) in
          if 255 < val' then None else parseIPv4Fields_loop (Some c) (digLen + 1) val' octets cs)
     else if c = CHR ''.'' then
       (if prev = None \<or> cs = [] \<or> prev = Some CHR ''.'' then None
        else if length octets = 3 then None
        else parseIPv4Fields_loop (Some c) 0 0 (octets @ [val]) cs)
     else None)"

definition parseIPv4Fields :: "string \<Rightarrow> nat list option" where
  "parseIPv4Fields s = parseIPv4Fields_loop None 0 0 [] s"

text \<open>One group of hexadecimal digits: the number, how many digits it took and the rest.\<close>

fun hex_group :: "nat \<Rightarrow> nat \<Rightarrow> string \<Rightarrow> (nat \<times> nat \<times> string) option" where
  "hex_group off acc [] = Some (acc, off, [])"
| "hex_group off acc (c # cs) = (case hex_value c of
     None \<Rightarrow> Some (acc, off, c # cs)
   | Some d \<Rightarrow> (let acc' = acc * 16 + d in
       if 3 < off then None
       else if 65535 < acc' then None
       else hex_group (off + 1) acc' cs))"

text \<open>
  The loop of \<open>parseIPv6\<close>: \<open>gs\<close> are the groups parsed so far (\<open>i\<close> is twice their number) and
  \<open>ellipsis\<close> is the position of \<open>::\<close>. At most eight groups fit, which bounds the loop.
\<close>

fun parseIPv6_loop :: "nat \<Rightarrow> nat option \<Rightarrow> nat list \<Rightarrow> string \<Rightarrow> (nat option \<times> nat list \<times> string) option" where
  "parseIPv6_loop 0 ellipsis gs s = Some (ellipsis, gs, s)"
| "parseIPv6_loop (Suc room) ellipsis gs s = (case hex_group 0 0 s of
     None \<Rightarrow> None
   | Some (acc, off, rest) \<Rightarrow>
       if off = 0 then None
       else (case rest of
          [] \<Rightarrow> Some (ellipsis, gs @ [acc], [])
        | c # behind \<Rightarrow>
          if c = CHR ''.'' then
            (if ellipsis = None \<and> length gs \<noteq> 6 then None
             else if 8 < length gs + 2 then None
             else (case parseIPv4Fields s of
                 None \<Rightarrow> None
               | Some os \<Rightarrow> Some (ellipsis, gs @ [os ! 0 * 256 + os ! 1, os ! 2 * 256 + os ! 3], [])))
          else if c \<noteq> CHR '':'' then None
          else if behind = [] then None
          else if hd behind = CHR '':'' then
            (if ellipsis \<noteq> None then None
             else if tl behind = [] then Some (Some (length gs + 1), gs @ [acc], [])
             else parseIPv6_loop room (Some (length gs + 1)) (gs @ [acc]) (tl behind))
          else parseIPv6_loop room ellipsis (gs @ [acc]) behind))"

definition expand_ellipsis :: "nat option \<Rightarrow> nat list \<Rightarrow> nat list option" where
  "expand_ellipsis ellipsis gs =
    (if length gs < 8 then
       (case ellipsis of
          None \<Rightarrow> None
        | Some e \<Rightarrow> Some (take e gs @ replicate (8 - length gs) 0 @ drop e gs))
     else if ellipsis \<noteq> None then None else Some gs)"

definition before_byte :: "char \<Rightarrow> string \<Rightarrow> string" where
  "before_byte c s = takeWhile (\<lambda>x. x \<noteq> c) s"

definition after_byte :: "char \<Rightarrow> string \<Rightarrow> string option" where
  "after_byte c s = (case dropWhile (\<lambda>x. x \<noteq> c) s of [] \<Rightarrow> None | _ # r \<Rightarrow> Some r)"

definition parseIPv6 :: "string \<Rightarrow> Addr option" where
  "parseIPv6 text =
    (if after_byte CHR ''%'' text = Some [] then None
     else let s = before_byte CHR ''%'' text;
              lead = (take 2 s = ''::'');
              s1 = (if lead then drop 2 s else s)
       in if lead \<and> s1 = [] then Some (V6 (replicate 8 0))
          else (case parseIPv6_loop 8 (if lead then Some 0 else None) [] s1 of
              None \<Rightarrow> None
            | Some (ellipsis, gs, rest) \<Rightarrow>
                if rest \<noteq> [] then None
                else map_option V6 (expand_ellipsis ellipsis gs)))"

text \<open>\<open>ParseAddr\<close>: the first of \<open>.\<close>, \<open>:\<close> and \<open>%\<close> decides the family.\<close>

definition ParseAddr :: "string \<Rightarrow> Addr option" where
  "ParseAddr s = (case find (\<lambda>c. c \<in> {CHR ''.'', CHR '':'', CHR ''%''}) s of
      None \<Rightarrow> None
    | Some c \<Rightarrow> if c = CHR ''.'' then map_option V4 (parseIPv4Fields s)
               else if c = CHR '':'' then parseIPv6 s
               else None)"

text \<open>\<open>net.SplitHostPort\<close>: the host, or \<open>None\<close> for an error.\<close>

definition SplitHostPort :: "string \<Rightarrow> string option" where
  "SplitHostPort hostport =
    (if CHR '':'' \<notin> set hostport then None
     else let port = before_byte CHR '':'' (rev hostport);
              i = length hostport - length port - 1
       in if hd hostport = CHR ''['' then
            (if CHR '']'' \<notin> set hostport then None
             else let end' = length (before_byte CHR '']'' hostport) in
               if end' + 1 \<noteq> i then None
               else if CHR ''['' \<in> set (drop 1 hostport) then None
               else if CHR '']'' \<in> set (drop (end' + 1) hostport) then None
               else Some (drop 1 (take end' hostport)))
          else let host = take i hostport in
            if CHR '':'' \<in> set host then None
            else if CHR ''['' \<in> set hostport then None
            else if CHR '']'' \<in> set hostport then None
            else Some host)"

section \<open>Prefixes\<close>

definition Unmap :: "Addr \<Rightarrow> Addr" where
  "Unmap a = (case a of
      V6 [a0, a1, a2, a3, a4, a5, h, l] \<Rightarrow>
        if a0 = 0 \<and> a1 = 0 \<and> a2 = 0 \<and> a3 = 0 \<and> a4 = 0 \<and> a5 = 65535
        then V4 [h div 256, h mod 256, l div 256, l mod 256] else a
    | _ \<Rightarrow> a)"

definition Is4 :: "Addr \<Rightarrow> bool" where
  "Is4 a = (case a of V4 _ \<Rightarrow> True | V6 _ \<Rightarrow> False)"

text \<open>\<open>Addr.Prefix(24)\<close> of an IPv4 and \<open>Addr.Prefix(48)\<close> of an IPv6 address: the masked address.\<close>

definition masked :: "Addr \<Rightarrow> Addr" where
  "masked a = (case a of
      V4 os \<Rightarrow> V4 (take 3 os @ replicate (length os - 3) 0)
    | V6 gs \<Rightarrow> V6 (take 3 gs @ replicate (length gs - 3) 0))"

definition hex_digit :: "nat \<Rightarrow> char" where
  "hex_digit d = char_of (if d < 10 then 48 + d else 87 + d)"

definition appendHex :: "nat \<Rightarrow> string" where
  "appendHex x = (if x = 0 then ''0'' else rev (map hex_digit (digits 16 x)))"

fun zero_run :: "nat list \<Rightarrow> nat" where
  "zero_run (0 # gs) = Suc (zero_run gs)"
| "zero_run _ = 0"

text \<open>The run of zero groups that is printed as \<open>::\<close>: the first longest of at least two.\<close>

definition zero_span :: "nat list \<Rightarrow> nat \<times> nat" where
  "zero_span gs = foldl (\<lambda>(s, e) i. let l = zero_run (drop i gs) in
      if 2 \<le> l \<and> e - s < l then (i, i + l) else (s, e)) (255, 255) [0..<length gs]"

fun groups6 :: "nat list \<Rightarrow> nat \<Rightarrow> nat \<Rightarrow> nat \<Rightarrow> nat \<Rightarrow> string" where
  "groups6 gs s e 0 i = []"
| "groups6 gs s e (Suc n) i =
    (if length gs \<le> i then []
     else if i = s then ''::'' @ (if length gs \<le> e then [] else appendHex (gs ! e) @ groups6 gs s e n (e + 1))
     else (if 0 < i then '':'' else []) @ appendHex (gs ! i) @ groups6 gs s e n (i + 1))"

definition string6 :: "nat list \<Rightarrow> string" where
  "string6 gs = (let (s, e) = zero_span gs in groups6 gs s e (length gs) 0)"

fun string4 :: "nat list \<Rightarrow> string" where
  "string4 [] = []"
| "string4 [o1] = Itoa (int o1)"
| "string4 (o1 # os) = Itoa (int o1) @ ''.'' @ string4 os"

definition Prefix_String :: "Addr \<Rightarrow> string" where
  "Prefix_String a = (case a of
      V4 os \<Rightarrow> string4 os @ ''/24''
    | V6 gs \<Rightarrow> string6 gs @ ''/48'')"

text \<open>\<open>ipScope\<close>: the address itself, else the host of a \<open>host:port\<close> pair.\<close>

definition parsed_client :: "string \<Rightarrow> Addr option" where
  "parsed_client raw = (case ParseAddr raw of
      Some a \<Rightarrow> Some a
    | None \<Rightarrow> (case SplitHostPort raw of None \<Rightarrow> None | Some host \<Rightarrow> ParseAddr host))"

definition ipScope :: "string \<Rightarrow> string" where
  "ipScope raw = (case parsed_client raw of
      None \<Rightarrow> ''ip:unknown''
    | Some addr \<Rightarrow> ''ip:'' @ Prefix_String (masked (Unmap addr)))"

lemma ipScope_prefix: "take 3 (ipScope raw) = ''ip:''"
  by (simp add: ipScope_def split: option.splits)

section \<open>Prefixes and their names\<close>

text \<open>What a parsed address looks like.\<close>

definition addr_ok :: "Addr \<Rightarrow> bool" where
  "addr_ok a = (case a of V4 os \<Rightarrow> length os = 4 | V6 gs \<Rightarrow> length gs = 8)"

lemma parseIPv4Fields_loop_length:
  "parseIPv4Fields_loop prev digLen val octets s = Some os \<Longrightarrow> length octets \<le> 3 \<Longrightarrow> length os = 4"
  by (induction prev digLen val octets s rule: parseIPv4Fields_loop.induct)
     (auto simp: Let_def split: if_splits)

declare parseIPv6_loop.simps(2) [simp del]

lemma parseIPv6_loop_length:
  "parseIPv6_loop room e gs s = Some (e', gs', rest) \<Longrightarrow> length gs + room = 8 \<Longrightarrow>
   pred_option (\<lambda>i. i \<le> length gs) e \<Longrightarrow> length gs' \<le> 8 \<and> pred_option (\<lambda>i. i \<le> length gs') e'"
proof (induction room arbitrary: e gs s)
  case (Suc room)
  have next_group: "length gs' \<le> 8 \<and> pred_option (\<lambda>i. i \<le> length gs') e'"
    if "parseIPv6_loop room e1 (gs @ [acc]) s1 = Some (e', gs', rest)" "e1 = e \<or> e1 = Some (length gs + 1)" for e1 acc s1
  proof -
    have "pred_option (\<lambda>i. i \<le> length (gs @ [acc])) e1"
      using that(2) Suc.prems(3) by (cases e) auto
    then show ?thesis using Suc.IH [OF that(1)] Suc.prems(2) by simp
  qed
  show ?case
    using Suc.prems next_group
    by (simp add: parseIPv6_loop.simps(2) split: option.splits list.splits if_splits prod.splits)
       (auto elim!: option.pred_mono_strong)
qed auto

lemma expand_ellipsis_length:
  "expand_ellipsis e gs = Some hs \<Longrightarrow> length gs \<le> 8 \<Longrightarrow> pred_option (\<lambda>i. i \<le> length gs) e \<Longrightarrow> length hs = 8"
  by (auto simp: expand_ellipsis_def split: if_splits option.splits)

lemma parseIPv6_ok: "parseIPv6 s = Some a \<Longrightarrow> addr_ok a"
  by (auto simp: parseIPv6_def addr_ok_def Let_def split: if_splits option.splits
      dest!: parseIPv6_loop_length intro!: expand_ellipsis_length)

lemma ParseAddr_ok: "ParseAddr s = Some a \<Longrightarrow> addr_ok a"
  by (auto simp: ParseAddr_def parseIPv4Fields_def addr_ok_def split: option.splits if_splits
      dest!: parseIPv6_ok dest: parseIPv4Fields_loop_length)

lemma Unmap_ok: "addr_ok a \<Longrightarrow> addr_ok (Unmap a)"
  by (auto simp: Unmap_def addr_ok_def split: Addr.splits list.splits if_splits)

lemma parsed_client_ok: "parsed_client raw = Some a \<Longrightarrow> addr_ok (Unmap a)"
  by (auto simp: parsed_client_def split: option.splits intro!: Unmap_ok dest: ParseAddr_ok)

text \<open>Printing a masked IPv6 address: the groups up to the last non-zero one, then \<open>::\<close>.\<close>

definition kept_groups :: "nat list \<Rightarrow> nat list" where
  "kept_groups gs = rev (dropWhile (\<lambda>g. g = 0) (rev gs))"

definition colon_text :: "nat list \<Rightarrow> string" where
  "colon_text gs = concat (map (\<lambda>g. appendHex g @ '':'') gs)"

lemma zero_run_nonzero [simp]: "x \<noteq> 0 \<Longrightarrow> zero_run (x # gs) = 0"
  by (cases x) simp_all

lemma string6_masked:
  "string6 [x, y, z, 0, 0, 0, 0, 0] =
    colon_text (kept_groups [x, y, z]) @ (if kept_groups [x, y, z] = [] then ''::'' else '':'')"
  by (cases "x = 0"; cases "y = 0"; cases "z = 0")
     (simp_all add: string6_def zero_span_def upt_rec numeral_nat colon_text_def kept_groups_def)

lemma kept_groups_pad: "kept_groups gs @ replicate (length gs - length (kept_groups gs)) 0 = gs"
proof -
  have "rev gs = takeWhile (\<lambda>g. g = 0) (rev gs) @ dropWhile (\<lambda>g. g = 0) (rev gs)" by simp
  moreover have "takeWhile (\<lambda>g. g = 0) (rev gs) = replicate (length (takeWhile (\<lambda>g. g = 0) (rev gs))) 0"
    by (rule replicate_eqI) (auto dest: set_takeWhileD)
  ultimately have "rev gs = replicate (length gs - length (kept_groups gs)) 0 @ dropWhile (\<lambda>g. g = 0) (rev gs)"
    unfolding kept_groups_def by (metis add_diff_cancel_right' length_append length_rev)
  then show ?thesis unfolding kept_groups_def by (metis rev_append rev_replicate rev_rev_ident)
qed

lemma hex_digit_byte: "d < 16 \<Longrightarrow> byte_val (hex_digit d) = (if d < 10 then 48 + d else 87 + d)"
  by (simp add: byte_val_def hex_digit_def take_bit_eq_mod)

lemma hex_digit_0: "hex_digit 0 = CHR ''0''"
  using digit_char_0 by (simp add: digit_char_def hex_digit_def)

lemma hex_digit_inj: "d < 16 \<Longrightarrow> e < 16 \<Longrightarrow> hex_digit d = hex_digit e \<Longrightarrow> d = e"
proof -
  assume "d < 16" "e < 16" "hex_digit d = hex_digit e"
  then have "(if d < 10 then 48 + d else 87 + d) = (if e < 10 then 48 + e else 87 + e)"
    using hex_digit_byte [of d] hex_digit_byte [of e] by simp
  then show ?thesis by presburger
qed

lemma appendHex_digits: "appendHex x = map hex_digit (if x = 0 then [0] else rev (digits 16 x))"
  by (simp add: appendHex_def hex_digit_0 rev_map)

lemma appendHex_bytes: "c \<in> set (appendHex x) \<Longrightarrow> c \<noteq> CHR '':'' \<and> c \<noteq> CHR ''u''"
proof -
  assume "c \<in> set (appendHex x)"
  then obtain d where "d < 16" "c = hex_digit d"
    using digits_less [of 16 _ x] hex_digit_0 by (auto simp: appendHex_def split: if_splits) (metis zero_less_numeral)
  then have "byte_val c \<noteq> 58 \<and> byte_val c \<noteq> 117" by (auto simp: hex_digit_byte split: if_splits)
  then show ?thesis by (auto simp: byte_val_def)
qed

lemma appendHex_nonempty: "appendHex x \<noteq> []"
  by (simp add: appendHex_def digits_nonempty)

lemma appendHex_inj:
  assumes "appendHex x = appendHex y"
  shows "x = y"
proof -
  let ?ds = "\<lambda>x. if x = 0 then [0] else rev (digits 16 x)"
  have "\<forall>d\<in>set (?ds x). d < 16" for x using digits_less [of 16 _ x] by auto
  then have "inj_on hex_digit (set (?ds x) \<union> set (?ds y))"
    by (intro inj_onI) (metis Un_iff hex_digit_inj)
  then have "?ds x = ?ds y" using assms unfolding appendHex_digits by (rule map_inj_on [rotated])
  then have "horner 16 (?ds x) = horner 16 (?ds y)" by simp
  moreover have "horner 16 (?ds x) = x" for x
    by (simp add: horner_rev numeral_of_digits)
  ultimately show ?thesis by metis
qed

lemma split_colon:
  "a @ c # r = b @ c # q \<Longrightarrow> c \<notin> set a \<Longrightarrow> c \<notin> set b \<Longrightarrow> a = b \<and> r = q"
proof (induction a arbitrary: b)
  case Nil
  then show ?case by (cases b) auto
next
  case (Cons x a)
  then show ?case by (cases b) auto
qed

lemma colon_text_start: "CHR '':'' # q \<noteq> colon_text (g # gs) @ r"
proof -
  obtain c t where "appendHex g = c # t" using appendHex_nonempty [of g] by (cases "appendHex g") auto
  then show ?thesis using appendHex_bytes [of c g] by (auto simp: colon_text_def)
qed

lemma colon_text_inj:
  "colon_text gs @ CHR '':'' # r = colon_text hs @ CHR '':'' # q \<Longrightarrow> gs = hs \<and> r = q"
proof (induction gs arbitrary: hs)
  case Nil
  then show ?case
    using colon_text_start [of _ "hd hs" "tl hs"] by (cases hs) (auto simp: colon_text_def)
next
  case (Cons g gs)
  show ?case
  proof (cases hs)
    case Nil
    then show ?thesis
      using Cons.prems [symmetric] colon_text_start [of q g gs "CHR '':'' # r"] by (simp add: colon_text_def [of "[]"])
  next
    case (Cons h hs')
    have "appendHex g @ CHR '':'' # (colon_text gs @ CHR '':'' # r) = appendHex h @ CHR '':'' # (colon_text hs' @ CHR '':'' # q)"
      using Cons.prems Cons by (simp add: colon_text_def)
    then have "appendHex g = appendHex h \<and> colon_text gs @ CHR '':'' # r = colon_text hs' @ CHR '':'' # q"
      by (rule split_colon) (use appendHex_bytes in blast)+
    then show ?thesis using Cons.IH [of hs'] appendHex_inj [of g h] Cons by simp
  qed
qed

lemma string6_masked_inj:
  assumes "length gs = 3" "length hs = 3"
    and eq: "string6 (gs @ replicate 5 0) @ t = string6 (hs @ replicate 5 0) @ t"
  shows "gs = hs"
proof -
  obtain x y z x' y' z' where xs: "gs = [x, y, z]" "hs = [x', y', z']"
    using assms(1,2) by (auto simp: numeral_3_eq_3 length_Suc_conv)
  have "\<exists>r. string6 (ks @ replicate 5 0) = colon_text (kept_groups ks) @ CHR '':'' # r"
    if "ks = [a, b, c]" for ks a b c
    using string6_masked [of a b c] that by (simp add: numeral_nat)
  then obtain r r' where r: "string6 (gs @ replicate 5 0) = colon_text (kept_groups gs) @ CHR '':'' # r"
      "string6 (hs @ replicate 5 0) = colon_text (kept_groups hs) @ CHR '':'' # r'"
    using xs by meson
  then have "kept_groups gs = kept_groups hs" using eq colon_text_inj [of "kept_groups gs" r "kept_groups hs" r'] by simp
  then show ?thesis using kept_groups_pad [of gs] kept_groups_pad [of hs] assms(1,2) by simp
qed

lemma Itoa_no_dot: "CHR ''.'' \<notin> set (Itoa (int n))" "CHR '':'' \<notin> set (Itoa (int n))" "CHR ''u'' \<notin> set (Itoa (int n))"
  using Itoa_bytes [of "int n"] by force+

lemma string4_inj:
  assumes "length os = 3" "length ps = 3" "string4 (os @ [0]) @ t = string4 (ps @ [0]) @ t"
  shows "os = ps"
proof -
  obtain a b c a' b' c' where xs: "os = [a, b, c]" "ps = [a', b', c']"
    using assms(1,2) by (auto simp: numeral_3_eq_3 length_Suc_conv)
  let ?d = "CHR ''.''"
  have "Itoa (int a) @ ?d # Itoa (int b) @ ?d # Itoa (int c) @ ?d # ''0'' = Itoa (int a') @ ?d # Itoa (int b') @ ?d # Itoa (int c') @ ?d # ''0''"
    using assms(3) xs by (simp add: Itoa_def [of 0])
  then have "Itoa (int a) = Itoa (int a') \<and> Itoa (int b) = Itoa (int b') \<and> Itoa (int c) = Itoa (int c')"
    by (metis split_colon Itoa_no_dot(1))
  then show ?thesis using xs Itoa_inj [of "int _" "int _"] by simp
qed

lemma string4_bytes: "c \<in> set (string4 os) \<Longrightarrow> c \<noteq> CHR '':'' \<and> c \<noteq> CHR ''u''"
  by (induction os rule: string4.induct) (use Itoa_no_dot in fastforce)+

lemma string6_colon: "CHR '':'' \<in> set (string6 [x, y, z, 0, 0, 0, 0, 0])"
  by (simp add: string6_masked)

lemma string6_bytes: "CHR ''u'' \<notin> set (string6 [x, y, z, 0, 0, 0, 0, 0])"
  using appendHex_bytes by (auto simp: string6_masked colon_text_def)

lemma masked_cases:
  assumes "addr_ok a"
  obtains (v4) os where "masked a = V4 (os @ [0])" "length os = 3"
  | (v6) gs where "masked a = V6 (gs @ replicate 5 0)" "length gs = 3"
proof (cases a)
  case (V4 os)
  then have "masked a = V4 (take 3 os @ [0])" "length (take 3 os) = 3" using assms by (simp_all add: addr_ok_def masked_def)
  then show ?thesis by (rule v4)
next
  case (V6 gs)
  then have "masked a = V6 (take 3 gs @ replicate 5 0)" "length (take 3 gs) = 3" using assms by (simp_all add: addr_ok_def masked_def)
  then show ?thesis by (rule v6)
qed

lemma string6_of: "length gs = 3 \<Longrightarrow> \<exists>x y z. string6 (gs @ replicate 5 0) = string6 [x, y, z, 0, 0, 0, 0, 0]"
proof -
  assume "length gs = 3"
  then obtain x y z where "gs = [x, y, z]" by (auto simp: numeral_3_eq_3 length_Suc_conv)
  then have "gs @ replicate 5 0 = [x, y, z, 0, 0, 0, 0, 0]" by (simp add: numeral_nat)
  then show ?thesis by metis
qed

lemma Prefix_String_inj:
  assumes a: "addr_ok a" and b: "addr_ok b" and eq: "Prefix_String (masked a) = Prefix_String (masked b)"
  shows "masked a = masked b"
  using a
proof (cases rule: masked_cases)
  case (v4 os)
  from b show ?thesis
  proof (cases rule: masked_cases)
    case b4: (v4 ps)
    then show ?thesis using v4 eq string4_inj [of os ps "''/24''"] by (simp add: Prefix_String_def)
  next
    case (v6 gs)
    then show ?thesis
      using v4 eq string4_bytes [of "CHR '':''" "os @ [0]"] string6_of [of gs] string6_colon
      by (auto simp: Prefix_String_def dest!: arg_cong [where f = "\<lambda>s. CHR '':'' \<in> set s"])
  qed
next
  case (v6 gs)
  from b show ?thesis
  proof (cases rule: masked_cases)
    case (v4 os)
    then show ?thesis
      using v6 eq string4_bytes [of "CHR '':''" "os @ [0]"] string6_of [of gs] string6_colon
      by (auto simp: Prefix_String_def dest!: arg_cong [where f = "\<lambda>s. CHR '':'' \<in> set s"])
  next
    case b6: (v6 hs)
    then show ?thesis using v6 eq string6_masked_inj [of gs hs "''/48''"] by (simp add: Prefix_String_def)
  qed
qed

lemma Prefix_String_known: "addr_ok a \<Longrightarrow> Prefix_String (masked a) \<noteq> ''unknown''"
proof
  assume a: "addr_ok a" and "Prefix_String (masked a) = ''unknown''"
  then have u: "CHR ''u'' \<in> set (Prefix_String (masked a))" by simp
  from a show False
    by (cases rule: masked_cases)
       (use u string4_bytes [of "CHR ''u''"] string6_of string6_bytes in \<open>force simp: Prefix_String_def\<close>)+
qed

text \<open>
  The network of a client: the /24 or /48 of its address; \<open>None\<close> when no address can be read, which
  is one scope of its own.
\<close>

definition client_network :: "string \<Rightarrow> Addr option" where
  "client_network raw = map_option (\<lambda>a. masked (Unmap a)) (parsed_client raw)"

text \<open>Dotted quads are read as they are written.\<close>

lemma octet_read:
  "list_all (\<lambda>d. d < 10) ds \<Longrightarrow> digLen = 0 \<and> (length ds = 1 \<or> hd ds \<noteq> 0) \<or> val \<noteq> 0 \<Longrightarrow>
   foldl (\<lambda>n d. n * 10 + d) val ds \<le> 255 \<Longrightarrow> ds \<noteq> [] \<Longrightarrow>
   \<exists>k. parseIPv4Fields_loop prev digLen val octets (map digit_char ds @ rest) =
       parseIPv4Fields_loop (Some (digit_char (last ds))) k (foldl (\<lambda>n d. n * 10 + d) val ds) octets rest"
proof (induction ds arbitrary: prev digLen val)
  case (Cons d ds)
  have mono: "val' \<le> foldl (\<lambda>n d. n * 10 + d) val' ds" for val' :: nat
    by (induction ds arbitrary: val') (simp, metis (no_types, lifting) foldl_Cons le_add1 le_trans mult.commute mult_le_mono1 mult_1 one_le_numeral)
  have d: "d < 10" and le: "val * 10 + d \<le> 255"
    using Cons.prems(1,3) mono [of "val * 10 + d"] by simp_all
  have b: "is_digit (digit_char d)" "byte_val (digit_char d) - 48 = d"
    using d by (simp_all add: is_digit_def byte_val_def digit_char_byte)
  have step: "parseIPv4Fields_loop prev digLen val octets (digit_char d # s) =
      parseIPv4Fields_loop (Some (digit_char d)) (digLen + 1) (val * 10 + d) octets s" for s
    using b le Cons.prems(2) by auto
  show ?case
  proof (cases "ds = []")
    case True
    then show ?thesis using step by auto
  next
    case False
    then have "val * 10 + d \<noteq> 0" using Cons.prems(2) by auto
    then show ?thesis
      using Cons.IH [of "digLen + 1" "val * 10 + d" "Some (digit_char d)"] Cons.prems False step by simp
  qed
qed simp

lemma Itoa_octet:
  assumes "n \<le> 255"
  shows "\<exists>p k. p \<noteq> CHR ''.'' \<and>
    parseIPv4Fields_loop prev 0 0 octets (Itoa (int n) @ rest) = parseIPv4Fields_loop (Some p) k n octets rest"
proof -
  define ds where "ds = (if n = 0 then [0] else rev (digits 10 n))"
  have ds: "Itoa (int n) = map digit_char ds" "list_all (\<lambda>d. d < 10) ds" "ds \<noteq> []"
    using digits_less [of 10 _ n] digits_nonempty [of 10 n]
    by (auto simp: ds_def Itoa_def digit_char_0 rev_map list_all_iff)
  have "horner 10 ds = n" by (simp add: ds_def horner_rev numeral_of_digits)
  moreover have "length ds = 1 \<or> hd ds \<noteq> 0"
    using digits_last [of 10 n] digits_nonempty [of 10 n] by (simp add: ds_def hd_rev)
  ultimately obtain k where
    "parseIPv4Fields_loop prev 0 0 octets (map digit_char ds @ rest) = parseIPv4Fields_loop (Some (digit_char (last ds))) k n octets rest"
    using octet_read [of ds 0 0 prev octets rest] ds assms by (auto simp: horner_def)
  moreover have "digit_char (last ds) \<noteq> CHR ''.''"
    using ds Itoa_no_dot(1) [of n] last_in_set [of ds] by (metis imageI list.set_map)
  ultimately show ?thesis using ds(1) by metis
qed

lemma Itoa_octet_dot:
  assumes "n \<le> 255" "length octets < 3" "rest \<noteq> []"
  shows "parseIPv4Fields_loop prev 0 0 octets (Itoa (int n) @ CHR ''.'' # rest) =
    parseIPv4Fields_loop (Some CHR ''.'') 0 0 (octets @ [n]) rest"
proof -
  obtain p k where "p \<noteq> CHR ''.''" "parseIPv4Fields_loop prev 0 0 octets (Itoa (int n) @ CHR ''.'' # rest) =
      parseIPv4Fields_loop (Some p) k n octets (CHR ''.'' # rest)"
    using Itoa_octet [OF assms(1)] by metis
  then show ?thesis using assms(2,3) by (simp add: is_digit_def byte_val_def)
qed

lemma find_at: "(\<And>x. x \<in> set xs \<Longrightarrow> \<not> P x) \<Longrightarrow> P c \<Longrightarrow> find P (xs @ c # r) = Some c"
  by (induction xs) auto

lemma ParseAddr_quad:
  assumes "list_all (\<lambda>x. x \<le> 255) [a, b, c, d]"
  shows "ParseAddr (string4 [a, b, c, d]) = Some (V4 [a, b, c, d])"
proof -
  have "parseIPv4Fields (string4 [a, b, c, d]) = Some [a, b, c, d]"
    using assms Itoa_octet [of d "Some CHR ''.''" "[a, b, c]" "[]"]
    by (auto simp: parseIPv4Fields_def Itoa_octet_dot Itoa_nonempty)
  moreover have "find (\<lambda>x. x \<in> {CHR ''.'', CHR '':'', CHR ''%''}) (Itoa (int a) @ CHR ''.'' # r) = Some CHR ''.''" for r
  proof -
    have "x \<notin> {CHR ''.'', CHR '':'', CHR ''%''}" if "x \<in> set (Itoa (int a))" for x
      using Itoa_bytes [of "int a" x] that by auto
    then show ?thesis by (intro find_at) auto
  qed
  ultimately show ?thesis by (simp add: ParseAddr_def)
qed

lemma client_network_quad:
  "list_all (\<lambda>x. x \<le> 255) [a, b, c, d] \<Longrightarrow> client_network (string4 [a, b, c, d]) = Some (V4 [a, b, c, 0])"
  using ParseAddr_quad [of a b c d]
  by (simp add: client_network_def parsed_client_def Unmap_def masked_def numeral_nat)

lemma ipScope_network: "ipScope r = ipScope s \<longleftrightarrow> client_network r = client_network s"
proof (cases "parsed_client r")
  case None
  then show ?thesis
    using Prefix_String_known [OF parsed_client_ok, of s]
    by (auto simp: ipScope_def client_network_def split: option.splits)
next
  case r: (Some a)
  show ?thesis
  proof (cases "parsed_client s")
    case None
    then show ?thesis using r
      using Prefix_String_known [OF parsed_client_ok, of r]
      by (auto simp: ipScope_def client_network_def)
  next
    case (Some b)
    then show ?thesis using r parsed_client_ok [OF r] parsed_client_ok [OF Some]
      by (auto simp: ipScope_def client_network_def intro: Prefix_String_inj)
  qed
qed

text \<open>C34. Two client addresses have the same backoff scope exactly when they lie in the same IPv4
  /24 or IPv6 /48 (IPv4-mapped addresses count as IPv4, unreadable ones share one scope), however
  they are spelled and with or without a port; scopes never collide with the account-wide scope.\<close>

theorem ipScope_iff_network:
  "(ipScope r = ipScope s \<longleftrightarrow> client_network r = client_network s) \<and> take 3 (ipScope r) = ''ip:''"
  by (simp add: ipScope_network ipScope_prefix)

end
