(* ===== verification/Known_Devices.thy ===== *)
theory Known_Devices
  imports Hls_Manifest Mention
begin

text \<open>
  Recognised devices (\<^verbatim>\<open>internal/auth/devices.go\<close> and the statements of
  \<^verbatim>\<open>known_devices.sql\<close>): the label a User-Agent is reduced to, the device hash, what a completed
  sign-in records and when it mails the account. The User-Agent is ASCII text, as HTTP clients send
  it. SHA-256 (with its hex encoding) is a parameter of the service, since only the equality of
  hashes matters; a message handed to the mailer is appended to the outbox. Rows are kept in
  insertion order.
\<close>

section \<open>State\<close>

record known_device =
  kd_id :: nat
  kd_user :: string
  kd_hash :: string
  kd_label :: string
  kd_first :: int
  kd_last :: int

record security_prefs =
  sp_new_device_email :: bool
  sp_last_mail :: "int option"

record device_world = world +
  dw_devices :: "known_device list"
  dw_prefs :: "string \<rightharpoonup> security_prefs"
  dw_outbox :: "(string \<times> string) list"

text \<open>The collaborators of the service that this part uses.\<close>

record device_Service =
  deviceStore :: bool
  newDeviceMailer :: bool
  sha256 :: "string \<Rightarrow> string"

definition newDeviceMailCooldown :: int where "newDeviceMailCooldown = Hour"
definition maxKnownDevices :: nat where "maxKnownDevices = 50"
definition knownDeviceMaxAge :: int where "knownDeviceMaxAge = 180 * 24 * Hour"

section \<open>Statements\<close>

definition user_devices :: "string \<Rightarrow> known_device list \<Rightarrow> known_device list" where
  "user_devices u ds = filter (\<lambda>d. kd_user d = u) ds"

definition CountUserKnownDevices :: "string \<Rightarrow> 'z device_world_scheme \<Rightarrow> nat \<times> 'z device_world_scheme" where
  "CountUserKnownDevices u w = (length (user_devices u (dw_devices w)), w)"

definition HasKnownDevice :: "string \<Rightarrow> string \<Rightarrow> 'z device_world_scheme \<Rightarrow> bool \<times> 'z device_world_scheme" where
  "HasKnownDevice u h w = (list_ex (\<lambda>d. kd_user d = u \<and> kd_hash d = h) (dw_devices w), w)"

definition fresh_id :: "nat list \<Rightarrow> nat" where
  "fresh_id ids = Suc (foldr max ids 0)"

definition TouchKnownDevice ::
  "string \<Rightarrow> string \<Rightarrow> string \<Rightarrow> 'z device_world_scheme \<Rightarrow> bool \<times> 'z device_world_scheme" where
  "TouchKnownDevice u h label w =
    (if list_ex (\<lambda>d. kd_user d = u \<and> kd_hash d = h) (dw_devices w)
     then (False, w\<lparr>dw_devices := map (\<lambda>d. if kd_user d = u \<and> kd_hash d = h
             then d\<lparr>kd_last := w_now w, kd_label := label\<rparr> else d) (dw_devices w)\<rparr>)
     else (True, w\<lparr>dw_devices := dw_devices w @
             [\<lparr>kd_id = fresh_id (map kd_id (dw_devices w)), kd_user = u, kd_hash = h, kd_label = label,
               kd_first = w_now w, kd_last = w_now w\<rparr>]\<rparr>))"

text \<open>\<open>ORDER BY last_seen_at DESC, first_seen_at DESC OFFSET keep\<close>: the ids past the newest \<open>keep\<close>.\<close>

definition past_newest :: "nat \<Rightarrow> known_device list \<Rightarrow> nat list" where
  "past_newest keep ds = map kd_id (drop keep (sort_key (\<lambda>d. - kd_last d) (sort_key (\<lambda>d. - kd_first d) ds)))"

definition PruneKnownDevices ::
  "string \<Rightarrow> int \<Rightarrow> nat \<Rightarrow> 'z device_world_scheme \<Rightarrow> nat \<times> 'z device_world_scheme" where
  "PruneKnownDevices u cutoff keep w =
    (let old = past_newest keep (user_devices u (dw_devices w));
         gone = (\<lambda>d. kd_user d = u \<and> (kd_last d < cutoff \<or> kd_id d \<in> set old))
     in (length (filter gone (dw_devices w)), w\<lparr>dw_devices := filter (\<lambda>d. \<not> gone d) (dw_devices w)\<rparr>))"

definition DeleteKnownDevice ::
  "string \<Rightarrow> nat \<Rightarrow> 'z device_world_scheme \<Rightarrow> nat \<times> 'z device_world_scheme" where
  "DeleteKnownDevice u i w =
    (let gone = (\<lambda>d. kd_user d = u \<and> kd_id d = i)
     in (length (filter gone (dw_devices w)), w\<lparr>dw_devices := filter (\<lambda>d. \<not> gone d) (dw_devices w)\<rparr>))"

text \<open>\<open>None\<close> is \<open>pgx.ErrNoRows\<close>.\<close>

definition GetSecurityPrefs :: "string \<Rightarrow> 'z device_world_scheme \<Rightarrow> bool option \<times> 'z device_world_scheme" where
  "GetSecurityPrefs u w = (map_option sp_new_device_email (dw_prefs w u), w)"

definition SetNewDeviceEmailPref :: "string \<Rightarrow> bool \<Rightarrow> 'z device_world_scheme \<Rightarrow> unit \<times> 'z device_world_scheme" where
  "SetNewDeviceEmailPref u on w = ((), w\<lparr>dw_prefs := (dw_prefs w)(u \<mapsto>
     (case dw_prefs w u of None \<Rightarrow> \<lparr>sp_new_device_email = on, sp_last_mail = None\<rparr>
      | Some p \<Rightarrow> p\<lparr>sp_new_device_email := on\<rparr>))\<rparr>)"

definition ClaimNewDeviceEmailSlot ::
  "string \<Rightarrow> int \<Rightarrow> int \<Rightarrow> 'z device_world_scheme \<Rightarrow> bool \<times> 'z device_world_scheme" where
  "ClaimNewDeviceEmailSlot u now cooldown w = (case dw_prefs w u of
      None \<Rightarrow> (True, w\<lparr>dw_prefs := (dw_prefs w)(u \<mapsto> \<lparr>sp_new_device_email = True, sp_last_mail = Some now\<rparr>)\<rparr>)
    | Some p \<Rightarrow>
        if (case sp_last_mail p of None \<Rightarrow> True | Some t \<Rightarrow> t \<le> now - cooldown)
        then (True, w\<lparr>dw_prefs := (dw_prefs w)(u \<mapsto> p\<lparr>sp_last_mail := Some now\<rparr>)\<rparr>)
        else (False, w))"

section \<open>Operations\<close>

definition uaLabel :: "string \<Rightarrow> string \<times> string" where
  "uaLabel ua =
    (let l = ToLower ua;
         browser = (if Contains l ''edg/'' \<or> Contains l ''edge/'' then ''Edge''
           else if Contains l ''opr/'' \<or> Contains l ''opera'' then ''Opera''
           else if Contains l ''firefox/'' \<or> Contains l ''fxios'' then ''Firefox''
           else if Contains l ''chrome/'' \<or> Contains l ''crios'' then ''Chrome''
           else if Contains l ''safari/'' then ''Safari''
           else ''Unknown browser'');
         os = (if Contains l ''iphone'' \<or> Contains l ''ipad'' then ''iOS''
           else if Contains l ''android'' then ''Android''
           else if Contains l ''windows'' then ''Windows''
           else if Contains l ''mac os x'' \<or> Contains l ''macintosh'' then ''macOS''
           else if Contains l ''cros'' then ''ChromeOS''
           else if Contains l ''linux'' \<or> Contains l ''x11'' then ''Linux''
           else ''Unknown OS'')
     in (browser, os))"

definition deviceHash :: "(string \<Rightarrow> string) \<Rightarrow> string \<Rightarrow> string \<Rightarrow> string \<Rightarrow> string" where
  "deviceHash H token browser os = H (token @ [CHR 0x00] @ browser @ [CHR 0x00] @ os)"

text \<open>\<open>tryE m\<close>: run a repository call whose error is only tested for.\<close>

definition tryE :: "('s, 'e, 'a) op \<Rightarrow> 's \<Rightarrow> 'a option \<times> 's" where
  "tryE m s = (case m s of (Inl _, s') \<Rightarrow> (None, s') | (Inr a, s') \<Rightarrow> (Some a, s'))"

text \<open>\<open>token\<close> is the device token of the request context, empty when there is none.\<close>

definition knownDeviceFromContext ::
  "('y) device_Service_scheme \<Rightarrow> string \<Rightarrow> string \<Rightarrow> string \<Rightarrow> 'z device_world_scheme \<Rightarrow> bool \<times> 'z device_world_scheme" where
  "knownDeviceFromContext svc token u ua w =
    (if \<not> deviceStore svc \<or> token = [] then (False, w)
     else let (b, os) = uaLabel ua;
              (ok, w1) = tryE (repo (HasKnownDevice u (deviceHash (sha256 svc) token b os))) w
       in (ok = Some True, w1))"

text \<open>\<open>noteSignIn\<close>: nothing in it can fail a sign-in.\<close>

definition send_notice ::
  "('y) device_Service_scheme \<Rightarrow> string \<Rightarrow> string \<Rightarrow> string \<Rightarrow> 'z device_world_scheme \<Rightarrow> 'z device_world_scheme" where
  "send_notice svc u email label w =
    (case tryE (repo (GetSecurityPrefs u)) w of
       (Some (Some False), w1) \<Rightarrow> w1
     | (_, w1) \<Rightarrow>
       if \<not> newDeviceMailer svc \<or> email = [] then w1
       else (case tryE (repo (ClaimNewDeviceEmailSlot u (w_now w1) newDeviceMailCooldown)) w1 of
           (Some True, w2) \<Rightarrow> w2\<lparr>dw_outbox := dw_outbox w2 @ [(email, label)]\<rparr>
         | (_, w2) \<Rightarrow> w2))"

definition noteSignIn ::
  "('y) device_Service_scheme \<Rightarrow> string \<Rightarrow> string \<Rightarrow> string \<Rightarrow> string \<Rightarrow> 'z device_world_scheme \<Rightarrow> 'z device_world_scheme" where
  "noteSignIn svc token u email ua w =
    (if \<not> deviceStore svc \<or> token = [] then w
     else let (b, os) = uaLabel ua; label = b @ '' on '' @ os in
       case tryE (repo (CountUserKnownDevices u)) w of
         (None, w1) \<Rightarrow> w1
       | (Some known, w1) \<Rightarrow>
         (case tryE (repo (TouchKnownDevice u (deviceHash (sha256 svc) token b os) label)) w1 of
            (None, w2) \<Rightarrow> w2
          | (Some isNew, w2) \<Rightarrow>
            let w3 = (if isNew
                  then ignoreE (repo (PruneKnownDevices u (w_now w2 - knownDeviceMaxAge) maxKnownDevices)) w2
                  else w2)
            in if \<not> isNew \<or> known = 0 then w3 else send_notice svc u email label w3))"

definition ForgetDevice ::
  "('y) device_Service_scheme \<Rightarrow> string \<Rightarrow> nat \<Rightarrow> 'z device_world_scheme \<Rightarrow> (db_error option + unit) \<times> 'z device_world_scheme" where
  "ForgetDevice svc u i w =
    (if \<not> deviceStore svc then (Inl None, w)
     else case repo (DeleteKnownDevice u i) w of
        (Inl e, w1) \<Rightarrow> (Inl (Some e), w1)
      | (Inr n, w1) \<Rightarrow> if n = 0 then (Inl None, w1) else (Inr (), w1))"

definition NewDeviceEmailEnabled ::
  "('y) device_Service_scheme \<Rightarrow> string \<Rightarrow> 'z device_world_scheme \<Rightarrow> bool \<times> 'z device_world_scheme" where
  "NewDeviceEmailEnabled svc u w =
    (if \<not> deviceStore svc then (False, w)
     else case tryE (repo (GetSecurityPrefs u)) w of
        (Some (Some on), w1) \<Rightarrow> (on, w1)
      | (_, w1) \<Rightarrow> (True, w1))"

definition SetNewDeviceEmailEnabled ::
  "('y) device_Service_scheme \<Rightarrow> string \<Rightarrow> bool \<Rightarrow> ('z device_world_scheme, db_error, unit) op" where
  "SetNewDeviceEmailEnabled svc u on =
    (if \<not> deviceStore svc then retE () else repo (SetNewDeviceEmailPref u on))"

end
