(* ===== verification/Login_Lock.thy ===== *)
theory Login_Lock
  imports Ip_Scope Known_Devices
begin

text \<open>
  The failed-login backoff (\<^verbatim>\<open>internal/auth/loginlock.go\<close>, statements of
  \<^verbatim>\<open>login_throttles.sql\<close>): the counters and locks of an account per coarse network prefix, the
  account-wide cap, what a wrong and a right password do to them.

  The statements are functions on the table; \<open>gateLogin\<close>, \<open>loginFailed\<close> and \<open>loginSucceeded\<close>
  compose them as the service does, with every error dropped where the service drops it. For
  concurrent sign-ins the same statements are interleaved: an attempt is a program counter with the
  local variables of \<open>gateLogin\<close>, one step of it is one statement (with the clock read that is its
  argument), and a run is any sequence of arrivals, steps and clock advances.
\<close>

section \<open>Constants\<close>

definition lockWindow :: int where "lockWindow = 15 * Minute"
definition prefixThreshold :: int where "prefixThreshold = 5"
definition prefixLockBase :: int where "prefixLockBase = 30 * Second"
definition prefixLockMax :: int where "prefixLockMax = 15 * Minute"
definition globalThreshold :: int where "globalThreshold = 30"
definition globalLockFor :: int where "globalLockFor = 2 * Minute"
definition scopeAll :: string where "scopeAll = ''all''"
definition maxDelayOnly :: int where "maxDelayOnly = 2 * Second"
definition knownPrefixFor :: int where "knownPrefixFor = 30 * 24 * Hour"

text \<open>\<open>for \<dots> && d < max { d *= 2 }\<close>, at most \<open>k\<close> rounds, then the cap.\<close>

fun doubled :: "nat \<Rightarrow> int \<Rightarrow> int \<Rightarrow> int" where
  "doubled 0 d m = d"
| "doubled (Suc k) d m = (if d < m then doubled k (wrap64 (d * 2)) m else d)"

definition delayFor :: "int \<Rightarrow> int" where
  "delayFor n =
    (if n \<le> prefixThreshold then 0
     else let d = doubled (nat (n - (prefixThreshold + 1))) (100 * Millisecond) maxDelayOnly
       in if maxDelayOnly < d then maxDelayOnly else d)"

text \<open>How long \<open>lockPrefix\<close> locks after the \<open>n\<close>-th attempt.\<close>

definition prefixLockFor :: "int \<Rightarrow> int" where
  "prefixLockFor n =
    (let d = doubled (nat (n - prefixThreshold)) prefixLockBase prefixLockMax
     in if prefixLockMax < d then prefixLockMax else d)"

definition okScope :: "string \<Rightarrow> string" where
  "okScope sc = ''ok:'' @ sc"

section \<open>The table and its statements\<close>

record login_throttle =
  lt_fail_count :: int
  lt_window_start :: int
  lt_locked_until :: "int option"

type_synonym throttles = "string \<times> string \<rightharpoonup> login_throttle"

definition EnsureLoginThrottle :: "string \<Rightarrow> string \<Rightarrow> int \<Rightarrow> throttles \<Rightarrow> throttles" where
  "EnsureLoginThrottle u sc now t = (case t (u, sc) of
      None \<Rightarrow> t((u, sc) \<mapsto> \<lparr>lt_fail_count = 0, lt_window_start = now, lt_locked_until = None\<rparr>)
    | Some _ \<Rightarrow> t)"

text \<open>
  \<open>RecordLoginAttempt\<close>: no row and an \<open>int4\<close> counter that would overflow are errors. The second
  component of the answer is \<open>probe\<close>.
\<close>

definition RecordLoginAttempt ::
  "string \<Rightarrow> string \<Rightarrow> int \<Rightarrow> int \<Rightarrow> throttles \<Rightarrow> (db_error + int \<times> bool) \<times> throttles" where
  "RecordLoginAttempt u sc now window t = (case t (u, sc) of
      None \<Rightarrow> (Inl ErrDB, t)
    | Some r \<Rightarrow>
        let lapsed = (lt_window_start r \<le> now - window);
            n = (if lapsed then 1 else lt_fail_count r + 1);
            expired = (case lt_locked_until r of None \<Rightarrow> False | Some l \<Rightarrow> l \<le> now)
        in if 2 ^ 31 \<le> n then (Inl ErrDB, t)
           else (Inr (n, expired), t((u, sc) \<mapsto>
             \<lparr>lt_fail_count = n,
              lt_window_start = (if lapsed then now else lt_window_start r),
              lt_locked_until = (if expired then None else lt_locked_until r)\<rparr>)))"

definition SetLoginLock :: "string \<Rightarrow> string \<Rightarrow> int \<Rightarrow> bool \<Rightarrow> throttles \<Rightarrow> throttles" where
  "SetLoginLock u sc until reset t = (case t (u, sc) of
      None \<Rightarrow> t
    | Some r \<Rightarrow> t((u, sc) \<mapsto> r\<lparr>
        lt_locked_until := Some (case lt_locked_until r of None \<Rightarrow> until | Some l \<Rightarrow> max l until),
        lt_fail_count := (if reset then 0 else lt_fail_count r)\<rparr>))"

definition locked_now :: "int \<Rightarrow> login_throttle \<Rightarrow> bool" where
  "locked_now now r = (case lt_locked_until r of None \<Rightarrow> False | Some l \<Rightarrow> now < l)"

definition CountActiveLoginLocks :: "string \<Rightarrow> string list \<Rightarrow> int \<Rightarrow> throttles \<Rightarrow> nat" where
  "CountActiveLoginLocks u scopes now t =
    length (filter (\<lambda>sc. case t (u, sc) of None \<Rightarrow> False | Some r \<Rightarrow> locked_now now r) (remdups scopes))"

definition HasRecentLoginSuccess :: "string \<Rightarrow> string \<Rightarrow> int \<Rightarrow> throttles \<Rightarrow> bool" where
  "HasRecentLoginSuccess u sc since t =
    (case t (u, sc) of None \<Rightarrow> False | Some r \<Rightarrow> since < lt_window_start r)"

definition RecordLoginSuccess :: "string \<Rightarrow> string \<Rightarrow> int \<Rightarrow> throttles \<Rightarrow> throttles" where
  "RecordLoginSuccess u sc now t = t((u, sc) \<mapsto> (case t (u, sc) of
      None \<Rightarrow> \<lparr>lt_fail_count = 0, lt_window_start = now, lt_locked_until = None\<rparr>
    | Some r \<Rightarrow> r\<lparr>lt_window_start := now\<rparr>))"

definition ReleaseLoginAttempt :: "string \<Rightarrow> string \<Rightarrow> throttles \<Rightarrow> throttles" where
  "ReleaseLoginAttempt u sc t = (case t (u, sc) of
      None \<Rightarrow> t
    | Some r \<Rightarrow> t((u, sc) \<mapsto> r\<lparr>lt_fail_count := max (lt_fail_count r - 1) 0\<rparr>))"

definition ClearLoginThrottleScope :: "string \<Rightarrow> string \<Rightarrow> throttles \<Rightarrow> throttles" where
  "ClearLoginThrottleScope u sc t = t((u, sc) := None)"

definition ClearLoginThrottles :: "string \<Rightarrow> throttles \<Rightarrow> throttles" where
  "ClearLoginThrottles u t = (\<lambda>(v, sc). if v = u then None else t (v, sc))"

section \<open>The service\<close>

record lock_world = device_world +
  lw_throttles :: throttles

record lock_Service = device_Service +
  lockStore :: bool
  delayOnlyPrefix :: bool

record loginGate =
  lg_refuse :: bool
  lg_scope :: string
  lg_ipN :: int
  lg_allN :: int
  lg_exempt :: bool

text \<open>A statement of the lock store, and one that may be refused by the database.\<close>

definition on_throttles :: "(throttles \<Rightarrow> throttles) \<Rightarrow> ('z lock_world_scheme, db_error, unit) op" where
  "on_throttles f = repo (\<lambda>w. ((), w\<lparr>lw_throttles := f (lw_throttles w)\<rparr>))"

definition ask_throttles :: "(throttles \<Rightarrow> 'a) \<Rightarrow> ('z lock_world_scheme, db_error, 'a) op" where
  "ask_throttles f = repo (\<lambda>w. (f (lw_throttles w), w))"

definition count_attempt :: "string \<Rightarrow> string \<Rightarrow> int \<Rightarrow> ('z lock_world_scheme, db_error, int \<times> bool) op" where
  "count_attempt u sc now = repoE (\<lambda>w. let (r, t) = RecordLoginAttempt u sc now lockWindow (lw_throttles w)
     in (r, w\<lparr>lw_throttles := t\<rparr>))"

text \<open>\<open>wait\<close>: the delay passes (the request is not cancelled).\<close>

definition gate_wait :: "int \<Rightarrow> 'z lock_world_scheme \<Rightarrow> 'z lock_world_scheme" where
  "gate_wait d w = (if d \<le> 0 then w else w\<lparr>w_now := w_now w + d\<rparr>)"

definition lockPrefix :: "string \<Rightarrow> string \<Rightarrow> int \<Rightarrow> 'z lock_world_scheme \<Rightarrow> 'z lock_world_scheme" where
  "lockPrefix u sc n w =
    ignoreE (on_throttles (SetLoginLock u sc (w_now w + prefixLockFor n) False)) w"

definition lockAll :: "string \<Rightarrow> 'z lock_world_scheme \<Rightarrow> 'z lock_world_scheme" where
  "lockAll u w = ignoreE (on_throttles (SetLoginLock u scopeAll (w_now w + globalLockFor) True)) w"

definition globalCapExempt ::
  "('y) lock_Service_scheme \<Rightarrow> string \<Rightarrow> string \<Rightarrow> string \<Rightarrow> string \<Rightarrow> 'z lock_world_scheme \<Rightarrow> bool \<times> 'z lock_world_scheme" where
  "globalCapExempt svc token u sc ua w =
    (case tryE (ask_throttles (HasRecentLoginSuccess u (okScope sc) (w_now w - knownPrefixFor))) w of
       (Some True, w1) \<Rightarrow> (True, w1)
     | (_, w1) \<Rightarrow> knownDeviceFromContext svc token u ua w1)"

definition gate_prefix ::
  "('y) lock_Service_scheme \<Rightarrow> string \<Rightarrow> int \<Rightarrow> loginGate \<Rightarrow> 'z lock_world_scheme \<Rightarrow> loginGate \<times> 'z lock_world_scheme" where
  "gate_prefix svc u now g w = (case tryE (count_attempt u (lg_scope g) now) w of
      (None, w1) \<Rightarrow> (g, w1)
    | (Some (n, probe), w1) \<Rightarrow>
        let g1 = g\<lparr>lg_ipN := n\<rparr> in
        if delayOnlyPrefix svc then (g1, gate_wait (delayFor n) w1)
        else if prefixThreshold < n \<and> \<not> probe
          then (g1\<lparr>lg_refuse := True\<rparr>, lockPrefix u (lg_scope g) n w1)
          else (g1, w1))"

definition gate_all :: "string \<Rightarrow> int \<Rightarrow> loginGate \<Rightarrow> 'z lock_world_scheme \<Rightarrow> loginGate \<times> 'z lock_world_scheme" where
  "gate_all u now g w = (case tryE (count_attempt u scopeAll now) w of
      (None, w1) \<Rightarrow> (g, w1)
    | (Some (n, probe), w1) \<Rightarrow>
        let g1 = g\<lparr>lg_allN := n\<rparr> in
        if globalThreshold < n \<and> \<not> probe \<and> \<not> lg_exempt g
          then (g1\<lparr>lg_refuse := True\<rparr>, lockAll u w1)
          else (g1, w1))"

definition gate_scopes :: "loginGate \<Rightarrow> string list" where
  "gate_scopes g = lg_scope g # (if lg_exempt g then [] else [scopeAll])"

definition gateLogin ::
  "('y) lock_Service_scheme \<Rightarrow> string \<Rightarrow> string \<Rightarrow> string \<Rightarrow> string \<Rightarrow> 'z lock_world_scheme \<Rightarrow> loginGate \<times> 'z lock_world_scheme" where
  "gateLogin svc token u clientIP ua w =
    (let g = \<lparr>lg_refuse = False, lg_scope = ipScope clientIP, lg_ipN = 0, lg_allN = 0, lg_exempt = False\<rparr> in
     if \<not> lockStore svc then (g, w)
     else let now = w_now w;
              (exempt, w1) = globalCapExempt svc token u (lg_scope g) ua w;
              g1 = g\<lparr>lg_exempt := exempt\<rparr>;
              (locks, w2) = tryE (ask_throttles (CountActiveLoginLocks u (gate_scopes g1) now)) w1
       in if (case locks of None \<Rightarrow> False | Some n \<Rightarrow> 0 < n) then (g1\<lparr>lg_refuse := True\<rparr>, w2)
          else let w3 = ignoreE (on_throttles (EnsureLoginThrottle u (lg_scope g) now)) w2;
                   w4 = ignoreE (on_throttles (EnsureLoginThrottle u scopeAll now)) w3;
                   (g2, w5) = gate_prefix svc u now g1 w4
            in gate_all u now g2 w5)"

definition loginFailed :: "('y) lock_Service_scheme \<Rightarrow> string \<Rightarrow> loginGate \<Rightarrow> 'z lock_world_scheme \<Rightarrow> 'z lock_world_scheme" where
  "loginFailed svc u g w =
    (if \<not> lockStore svc then w
     else let w1 = (if prefixThreshold \<le> lg_ipN g \<and> \<not> delayOnlyPrefix svc
                    then lockPrefix u (lg_scope g) (lg_ipN g) w else w)
       in if globalThreshold \<le> lg_allN g \<and> \<not> lg_exempt g then lockAll u w1 else w1)"

definition loginSucceeded :: "('y) lock_Service_scheme \<Rightarrow> string \<Rightarrow> loginGate \<Rightarrow> 'z lock_world_scheme \<Rightarrow> 'z lock_world_scheme" where
  "loginSucceeded svc u g w =
    (if \<not> lockStore svc then w
     else let w1 = ignoreE (on_throttles (ClearLoginThrottleScope u (lg_scope g))) w;
              w2 = ignoreE (on_throttles (ReleaseLoginAttempt u scopeAll)) w1
       in ignoreE (on_throttles (RecordLoginSuccess u (okScope (lg_scope g)) (w_now w2))) w2)"

section \<open>Concurrent sign-ins\<close>

datatype gate_pc =
    Exempt | Locks | Ensure_prefix | Ensure_all | Count_prefix | Lock_prefix | Count_all | Lock_all
  | Compare | Fail_prefix | Fail_all | Clear_scope | Release_all | Record_ok | Finished

text \<open>
  One call of \<open>Login\<close> for an existing account: the account, the scope of its address, whether its
  device is recognised, whether its password is right, \<open>now\<close>, \<open>r.Probe\<close> of the prefix counter and
  the gate.
\<close>

record login_attempt =
  at_user :: string
  at_device :: bool
  at_right :: bool
  at_now :: int
  at_probe :: bool
  at_gate :: loginGate
  at_pc :: gate_pc

definition new_attempt :: "string \<Rightarrow> string \<Rightarrow> bool \<Rightarrow> bool \<Rightarrow> int \<Rightarrow> login_attempt" where
  "new_attempt u clientIP device right now =
    \<lparr>at_user = u, at_device = device, at_right = right, at_now = now, at_probe = False,
     at_gate = \<lparr>lg_refuse = False, lg_scope = ipScope clientIP, lg_ipN = 0, lg_allN = 0, lg_exempt = False\<rparr>,
     at_pc = Exempt\<rparr>"

text \<open>After the gate: a refused attempt ends without a comparison.\<close>

definition gated :: "login_attempt \<Rightarrow> login_attempt" where
  "gated a = a\<lparr>at_pc := (if lg_refuse (at_gate a) then Finished else Compare)\<rparr>"

text \<open>
  One statement of an attempt, at clock \<open>now\<close>; \<open>fault\<close> makes it fail. \<open>delay\<close> is the delay-only mode,
  whose delay is the time that passes before the next step.
\<close>

definition count_prefix_step :: "bool \<Rightarrow> throttles \<Rightarrow> login_attempt \<Rightarrow> throttles \<times> login_attempt" where
  "count_prefix_step delay t a =
    (case RecordLoginAttempt (at_user a) (lg_scope (at_gate a)) (at_now a) lockWindow t of
       (Inl _, t') \<Rightarrow> (t', a\<lparr>at_pc := Count_all\<rparr>)
     | (Inr (n, probe), t') \<Rightarrow>
         (t', a\<lparr>at_gate := (at_gate a)\<lparr>lg_ipN := n\<rparr>, at_probe := probe,
               at_pc := (if \<not> delay \<and> prefixThreshold < n \<and> \<not> probe then Lock_prefix else Count_all)\<rparr>))"

definition count_all_step :: "throttles \<Rightarrow> login_attempt \<Rightarrow> throttles \<times> login_attempt" where
  "count_all_step t a =
    (case RecordLoginAttempt (at_user a) scopeAll (at_now a) lockWindow t of
       (Inl _, t') \<Rightarrow> (t', gated a)
     | (Inr (n, probe), t') \<Rightarrow>
         let a' = a\<lparr>at_gate := (at_gate a)\<lparr>lg_allN := n\<rparr>\<rparr> in
         (t', if globalThreshold < n \<and> \<not> probe \<and> \<not> lg_exempt (at_gate a) then a'\<lparr>at_pc := Lock_all\<rparr> else gated a'))"

definition attempt_step :: "bool \<Rightarrow> bool \<Rightarrow> int \<Rightarrow> throttles \<Rightarrow> login_attempt \<Rightarrow> throttles \<times> login_attempt" where
  "attempt_step delay fault now t a =
    (let u = at_user a; g = at_gate a; sc = lg_scope g;
         stmt = (\<lambda>f. if fault then t else f t);
         goto = (\<lambda>pc. a\<lparr>at_pc := pc\<rparr>);
         refused = a\<lparr>at_gate := g\<lparr>lg_refuse := True\<rparr>\<rparr>
     in case at_pc a of
       Exempt \<Rightarrow> (t, a\<lparr>at_gate := g\<lparr>lg_exempt :=
           (\<not> fault \<and> HasRecentLoginSuccess u (okScope sc) (now - knownPrefixFor) t) \<or> at_device a\<rparr>, at_pc := Locks\<rparr>)
     | Locks \<Rightarrow>
         if \<not> fault \<and> 0 < CountActiveLoginLocks u (gate_scopes g) (at_now a) t
         then (t, refused\<lparr>at_pc := Finished\<rparr>) else (t, goto Ensure_prefix)
     | Ensure_prefix \<Rightarrow> (stmt (EnsureLoginThrottle u sc (at_now a)), goto Ensure_all)
     | Ensure_all \<Rightarrow> (stmt (EnsureLoginThrottle u scopeAll (at_now a)), goto Count_prefix)
     | Count_prefix \<Rightarrow> if fault then (t, goto Count_all) else count_prefix_step delay t a
     | Lock_prefix \<Rightarrow> (stmt (SetLoginLock u sc (now + prefixLockFor (lg_ipN g)) False), refused\<lparr>at_pc := Count_all\<rparr>)
     | Count_all \<Rightarrow> if fault then (t, gated a) else count_all_step t a
     | Lock_all \<Rightarrow> (stmt (SetLoginLock u scopeAll (now + globalLockFor) True), gated refused)
     | Compare \<Rightarrow> (t, goto (if at_right a then Clear_scope else Fail_prefix))
     | Fail_prefix \<Rightarrow>
         (if prefixThreshold \<le> lg_ipN g \<and> \<not> delay
          then stmt (SetLoginLock u sc (now + prefixLockFor (lg_ipN g)) False) else t, goto Fail_all)
     | Fail_all \<Rightarrow>
         (if globalThreshold \<le> lg_allN g \<and> \<not> lg_exempt g
          then stmt (SetLoginLock u scopeAll (now + globalLockFor) True) else t, goto Finished)
     | Clear_scope \<Rightarrow> (stmt (ClearLoginThrottleScope u sc), goto Release_all)
     | Release_all \<Rightarrow> (stmt (ReleaseLoginAttempt u scopeAll), goto Record_ok)
     | Record_ok \<Rightarrow> (stmt (RecordLoginSuccess u (okScope sc) now), goto Finished)
     | Finished \<Rightarrow> (t, a))"

text \<open>The system: the clock, the table and every attempt so far.\<close>

record login_sys =
  sy_now :: int
  sy_table :: throttles
  sy_attempts :: "login_attempt list"

datatype login_event =
    Tick nat
  | Arrive string string bool bool
  | Step nat bool
  | Admin_clear string

fun login_do :: "bool \<Rightarrow> login_event \<Rightarrow> login_sys \<Rightarrow> login_sys" where
  "login_do delay (Tick d) s = s\<lparr>sy_now := sy_now s + int d\<rparr>"
| "login_do delay (Arrive u ip device right) s =
     s\<lparr>sy_attempts := sy_attempts s @ [new_attempt u ip device right (sy_now s)]\<rparr>"
| "login_do delay (Step i fault) s =
    (if i < length (sy_attempts s)
     then let (t, a) = attempt_step delay fault (sy_now s) (sy_table s) (sy_attempts s ! i)
       in s\<lparr>sy_table := t, sy_attempts := (sy_attempts s)[i := a]\<rparr>
     else s)"
| "login_do delay (Admin_clear u) s = s\<lparr>sy_table := ClearLoginThrottles u (sy_table s)\<rparr>"

definition login_run :: "bool \<Rightarrow> login_event list \<Rightarrow> login_sys \<Rightarrow> login_sys" where
  "login_run delay es s = fold (login_do delay) es s"

text \<open>Attempts whose password was compared.\<close>

definition compared :: "login_attempt \<Rightarrow> bool" where
  "compared a \<longleftrightarrow> at_pc a \<in> {Fail_prefix, Fail_all, Clear_scope, Release_all, Record_ok} \<or>
     at_pc a = Finished \<and> \<not> lg_refuse (at_gate a)"

definition from_scope :: "string \<Rightarrow> string \<Rightarrow> login_attempt \<Rightarrow> bool" where
  "from_scope u sc a \<longleftrightarrow> at_user a = u \<and> lg_scope (at_gate a) = sc"

definition comparisons :: "string \<Rightarrow> string \<Rightarrow> login_sys \<Rightarrow> nat" where
  "comparisons u sc s = length (filter (\<lambda>a. from_scope u sc a \<and> compared a) (sy_attempts s))"

lemma login_run_Nil [simp]: "login_run delay [] s = s"
  by (simp add: login_run_def)

lemma login_run_snoc [simp]: "login_run delay (es @ [e]) s = login_do delay e (login_run delay es s)"
  by (simp add: login_run_def)

section \<open>Rows a statement leaves alone\<close>

definition ip_scope :: "string \<Rightarrow> bool" where
  "ip_scope sc \<longleftrightarrow> take 3 sc = ''ip:''"

lemma ip_scope_ipScope [simp]: "ip_scope (ipScope raw)"
  by (simp add: ip_scope_def ipScope_prefix)

lemma ip_scope_other: "ip_scope sc \<Longrightarrow> sc \<noteq> scopeAll" "ip_scope sc \<Longrightarrow> sc \<noteq> okScope sc'"
  by (auto simp: ip_scope_def scopeAll_def okScope_def)

lemma okScope_inj [simp]: "okScope a = okScope b \<longleftrightarrow> a = b"
  by (simp add: okScope_def)

lemma okScope_all [simp]: "okScope a \<noteq> scopeAll"
  by (simp add: okScope_def scopeAll_def)

lemma throttle_frames:
  "k \<noteq> (u, sc) \<Longrightarrow> EnsureLoginThrottle u sc now t k = t k"
  "k \<noteq> (u, sc) \<Longrightarrow> snd (RecordLoginAttempt u sc now window t) k = t k"
  "k \<noteq> (u, sc) \<Longrightarrow> SetLoginLock u sc until reset t k = t k"
  "k \<noteq> (u, sc) \<Longrightarrow> RecordLoginSuccess u sc now t k = t k"
  "k \<noteq> (u, sc) \<Longrightarrow> ReleaseLoginAttempt u sc t k = t k"
  "k \<noteq> (u, sc) \<Longrightarrow> ClearLoginThrottleScope u sc t k = t k"
  by (auto simp: EnsureLoginThrottle_def RecordLoginAttempt_def SetLoginLock_def RecordLoginSuccess_def
      ReleaseLoginAttempt_def ClearLoginThrottleScope_def Let_def split: option.splits)

lemma gated_simps [simp]:
  "at_user (gated a) = at_user a" "at_gate (gated a) = at_gate a" "at_probe (gated a) = at_probe a"
  "at_now (gated a) = at_now a" "at_right (gated a) = at_right a" "at_device (gated a) = at_device a"
  "at_pc (gated a) = (if lg_refuse (at_gate a) then Finished else Compare)"
  by (simp_all add: gated_def)

text \<open>The steps of the two counters, with their branches.\<close>

lemma count_prefix_table: "fst (count_prefix_step delay t a) =
    snd (RecordLoginAttempt (at_user a) (lg_scope (at_gate a)) (at_now a) lockWindow t)"
  by (simp add: count_prefix_step_def split: prod.splits sum.splits)

lemma count_all_table: "fst (count_all_step t a) = snd (RecordLoginAttempt (at_user a) scopeAll (at_now a) lockWindow t)"
  by (simp add: count_all_step_def Let_def split: prod.splits sum.splits)

lemma step_table_frame:
  assumes "k \<noteq> (at_user a, lg_scope (at_gate a))" "k \<noteq> (at_user a, scopeAll)" "k \<noteq> (at_user a, okScope (lg_scope (at_gate a)))"
  shows "fst (attempt_step delay fault now t a) k = t k"
  using assms
  by (cases "at_pc a") (simp_all add: attempt_step_def Let_def throttle_frames count_prefix_table count_all_table)

text \<open>What an attempt keeps.\<close>

lemma step_identity:
  "at_user (snd (attempt_step delay fault now t a)) = at_user a"
  "lg_scope (at_gate (snd (attempt_step delay fault now t a))) = lg_scope (at_gate a)"
  "at_now (snd (attempt_step delay fault now t a)) = at_now a"
  "at_right (snd (attempt_step delay fault now t a)) = at_right a"
  "at_device (snd (attempt_step delay fault now t a)) = at_device a"
  by (cases "at_pc a"; auto simp: attempt_step_def Let_def count_prefix_step_def count_all_step_def
      split: prod.splits sum.splits)+

lemma count_update:
  assumes "i < length xs"
  shows "length (filter P (xs[i := y])) + (if P (xs ! i) then 1 else 0) = length (filter P xs) + (if P y then 1 else 0)"
proof -
  have "length (filter P xs) = length (filter P (take i xs @ xs ! i # drop (Suc i) xs))"
    using assms by (simp add: id_take_nth_drop [symmetric])
  then show ?thesis using assms by (simp add: upd_conv_take_nth_drop)
qed

end
