(* ===== verification/Login_Guesses.thy ===== *)
theory Login_Guesses
  imports Login_Lock
begin

text \<open>
  What the failed-login backoff guarantees and what it does not, for any interleaving of sign-ins
  (\<open>login_run\<close>): how many passwords one network prefix can have compared, that an account that
  signed in from a prefix keeps being let in from it whatever the rest of the world does, and that
  the account-wide cap is not a bound on concurrent attempts.
\<close>

section \<open>Attempts\<close>

definition admitted :: "login_attempt \<Rightarrow> bool" where
  "admitted a \<longleftrightarrow> 1 \<le> lg_ipN (at_gate a) \<and> (lg_ipN (at_gate a) \<le> prefixThreshold \<or> at_probe a)"

definition wf_attempt :: "login_attempt \<Rightarrow> bool" where
  "wf_attempt a \<longleftrightarrow>
    (at_pc a \<in> {Exempt, Locks, Ensure_prefix, Ensure_all, Count_prefix} \<longrightarrow> lg_ipN (at_gate a) = 0 \<and> \<not> lg_refuse (at_gate a)) \<and>
    (at_pc a \<in> {Count_all, Lock_all, Finished} \<longrightarrow> lg_refuse (at_gate a) \<or> admitted a) \<and>
    (at_pc a \<in> {Compare, Fail_prefix, Fail_all, Clear_scope, Release_all, Record_ok} \<longrightarrow> admitted a) \<and>
    (at_pc a \<in> {Clear_scope, Release_all, Record_ok} \<longrightarrow> at_right a)"

lemma wf_new [simp]: "wf_attempt (new_attempt u ip device right now)"
  by (simp add: wf_attempt_def new_attempt_def)

lemma wf_compared: "wf_attempt a \<Longrightarrow> compared a \<Longrightarrow> admitted a"
  by (auto simp: wf_attempt_def compared_def)

text \<open>The counter of the attempt's own scope: what it answers when the row is there.\<close>

definition counted_row :: "int \<Rightarrow> login_throttle \<Rightarrow> login_throttle" where
  "counted_row now r =
    \<lparr>lt_fail_count = (if lt_window_start r \<le> now - lockWindow then 1 else lt_fail_count r + 1),
     lt_window_start = (if lt_window_start r \<le> now - lockWindow then now else lt_window_start r),
     lt_locked_until = (case lt_locked_until r of None \<Rightarrow> None | Some l \<Rightarrow> if l \<le> now then None else Some l)\<rparr>"

definition probes :: "int \<Rightarrow> login_throttle \<Rightarrow> bool" where
  "probes now r \<longleftrightarrow> (case lt_locked_until r of None \<Rightarrow> False | Some l \<Rightarrow> l \<le> now)"

lemma RecordLoginAttempt_row:
  assumes "t (u, sc) = Some r" "lt_fail_count r + 1 < 2 ^ 31"
  shows "RecordLoginAttempt u sc now lockWindow t =
    (Inr (lt_fail_count (counted_row now r), probes now r), t((u, sc) \<mapsto> counted_row now r))"
  using assms by (auto simp: RecordLoginAttempt_def counted_row_def probes_def Let_def split: option.splits)

lemma count_prefix_row:
  assumes "t (at_user a, lg_scope (at_gate a)) = Some r" "lt_fail_count r + 1 < 2 ^ 31"
  shows "count_prefix_step False t a =
    (t((at_user a, lg_scope (at_gate a)) \<mapsto> counted_row (at_now a) r),
     a\<lparr>at_gate := (at_gate a)\<lparr>lg_ipN := lt_fail_count (counted_row (at_now a) r)\<rparr>, at_probe := probes (at_now a) r,
       at_pc := (if prefixThreshold < lt_fail_count (counted_row (at_now a) r) \<and> \<not> probes (at_now a) r
                 then Lock_prefix else Count_all)\<rparr>)"
  using assms by (simp add: count_prefix_step_def RecordLoginAttempt_row)

text \<open>Outside the prefix counter a step changes neither the count nor \<open>probe\<close>.\<close>

lemma step_keeps_count:
  assumes "at_pc a \<noteq> Count_prefix \<or> fault"
  shows "lg_ipN (at_gate (snd (attempt_step delay fault now t a))) = lg_ipN (at_gate a)"
    "at_probe (snd (attempt_step delay fault now t a)) = at_probe a"
  using assms by (cases "at_pc a"; auto simp: attempt_step_def Let_def count_all_step_def split: prod.splits sum.splits)+

lemma wf_step:
  assumes "wf_attempt a" and "at_pc a = Count_prefix \<Longrightarrow> \<exists>r. t (at_user a, lg_scope (at_gate a)) = Some r \<and>
      0 \<le> lt_fail_count r \<and> lt_fail_count r + 1 < 2 ^ 31"
  shows "wf_attempt (snd (attempt_step False False now t a))"
proof (cases "at_pc a = Count_prefix")
  case True
  then obtain r where r: "t (at_user a, lg_scope (at_gate a)) = Some r" "0 \<le> lt_fail_count r" "lt_fail_count r + 1 < 2 ^ 31"
    using assms(2) by blast
  have "1 \<le> lt_fail_count (counted_row (at_now a) r)" using r(2) by (simp add: counted_row_def)
  then show ?thesis
    using True by (auto simp: attempt_step_def Let_def count_prefix_row [of t a r, OF r(1,3)] wf_attempt_def admitted_def)
next
  case False
  then show ?thesis
    using assms(1) by (cases "at_pc a") (auto simp: attempt_step_def Let_def count_all_step_def wf_attempt_def admitted_def
        split: prod.splits sum.splits)
qed

section \<open>The budget of a row\<close>

lemma doubled_ge: "0 < d \<Longrightarrow> m \<le> 2 ^ 61 \<Longrightarrow> d \<le> doubled k d m"
proof (induction k arbitrary: d)
  case (Suc k)
  show ?case
  proof (cases "d < m")
    case True
    then have "wrap64 (d * 2) = d * 2" using Suc.prems by (intro wrap64_id) (simp add: in64_def)
    then show ?thesis using Suc.IH [of "d * 2"] Suc.prems True by simp
  qed simp
qed simp

lemma prefixLockFor_ge: "prefixLockBase \<le> prefixLockFor n"
  using doubled_ge [of prefixLockBase prefixLockMax "nat (n - prefixThreshold)"]
  by (simp add: prefixLockFor_def prefixLockBase_def prefixLockMax_def Let_def)

text \<open>
  \<open>N\<close> attempts were admitted since \<open>start\<close>: \<open>old\<close> of them in earlier windows, at most five by their
  number in the current window and \<open>q\<close> as probes, the last one at \<open>T\<close>; a lock that is set was set
  after that probe.
\<close>

definition budget :: "int \<Rightarrow> int \<Rightarrow> login_throttle \<Rightarrow> nat \<Rightarrow> bool" where
  "budget start now r N \<longleftrightarrow> start \<le> lt_window_start r \<and> lt_window_start r \<le> now \<and> 0 \<le> lt_fail_count r \<and>
    (\<exists>old q T. int N \<le> old + min (lt_fail_count r) 5 + q \<and> 0 \<le> q \<and>
      old \<le> 35 * ((lt_window_start r - start) div lockWindow) \<and>
      (q = 0 \<or> lt_window_start r + prefixLockBase * (q - 1) \<le> T \<and> T < lt_window_start r + lockWindow \<and> T \<le> now \<and>
        (\<forall>l. lt_locked_until r = Some l \<longrightarrow> T + prefixLockBase \<le> l)))"

lemma budgetI:
  assumes "start \<le> lt_window_start r" "lt_window_start r \<le> now" "0 \<le> lt_fail_count r" "0 \<le> q"
    and "int N \<le> old + min (lt_fail_count r) 5 + q" "old \<le> 35 * ((lt_window_start r - start) div lockWindow)"
    and "q = 0 \<or> lt_window_start r + prefixLockBase * (q - 1) \<le> T \<and> T < lt_window_start r + lockWindow \<and> T \<le> now \<and>
        (\<forall>l. lt_locked_until r = Some l \<longrightarrow> T + prefixLockBase \<le> l)"
  shows "budget start now r N"
  using assms unfolding budget_def by blast

lemma budget_fresh:
  "start \<le> at \<Longrightarrow> at \<le> now \<Longrightarrow> budget start now \<lparr>lt_fail_count = 0, lt_window_start = at, lt_locked_until = None\<rparr> 0"
  by (auto simp: budget_def lockWindow_def intro!: exI [of _ 0])

lemma budget_later: "budget start now r N \<Longrightarrow> now \<le> later \<Longrightarrow> budget start later r N"
  unfolding budget_def by fastforce

lemma budget_lock:
  assumes "budget start now r N" "prefixLockBase \<le> d"
  shows "budget start now (r\<lparr>lt_locked_until := Some (case lt_locked_until r of None \<Rightarrow> now + d | Some l \<Rightarrow> max l (now + d))\<rparr>) N"
proof -
  have "T + prefixLockBase \<le> (case lt_locked_until r of None \<Rightarrow> now + d | Some l \<Rightarrow> max l (now + d))" if "T \<le> now" for T
    using that assms(2) by (simp add: max_def split: option.splits)
  then show ?thesis using assms(1) unfolding budget_def by simp metis
qed

lemma budget_window:
  assumes "budget start now r N"
  shows "int N \<le> 35 * ((lt_window_start r - start) div lockWindow) + 35"
proof -
  obtain old q T where b: "int N \<le> old + min (lt_fail_count r) 5 + q" "old \<le> 35 * ((lt_window_start r - start) div lockWindow)"
      "q = 0 \<or> lt_window_start r + prefixLockBase * (q - 1) \<le> T \<and> T < lt_window_start r + lockWindow"
    using assms unfolding budget_def by metis
  have "q \<le> 30" using b(3) by (auto simp: prefixLockBase_def lockWindow_def)
  then show ?thesis using b(1,2) by linarith
qed

lemma windows_mono: "a + lockWindow \<le> b \<Longrightarrow> a div lockWindow + 1 \<le> b div lockWindow"
proof -
  assume "a + lockWindow \<le> b"
  then have "(a + lockWindow) div lockWindow \<le> b div lockWindow" by (intro zdiv_mono1) (simp_all add: lockWindow_def)
  then show ?thesis by (simp add: lockWindow_def)
qed

lemma budget_restart:
  assumes b: "budget start now r N" and lapsed: "lt_window_start r \<le> at - lockWindow" and at: "start \<le> at" "at \<le> now"
  shows "budget start now (counted_row at r) (N + 1)"
proof -
  have "int N \<le> 35 * ((at - start) div lockWindow)"
    using budget_window [OF b] windows_mono [of "lt_window_start r - start" "at - start"] lapsed by simp
  then show ?thesis
    using lapsed at by (intro budgetI [where q = 0 and old = "35 * ((at - start) div lockWindow)"]) (simp_all add: counted_row_def)
qed

lemma budget_count:
  assumes b: "budget start now r N" and at: "start \<le> at" "at \<le> now"
  shows "budget start now (counted_row at r)
    (if lt_fail_count (counted_row at r) \<le> prefixThreshold \<or> probes at r then N + 1 else N)"
proof (cases "lt_window_start r \<le> at - lockWindow")
  case True
  then show ?thesis using budget_restart [OF b True at] by (simp add: counted_row_def prefixThreshold_def)
next
  case False
  obtain old q T where q: "int N \<le> old + min (lt_fail_count r) 5 + q" "0 \<le> q"
      "old \<le> 35 * ((lt_window_start r - start) div lockWindow)"
      "q = 0 \<or> lt_window_start r + prefixLockBase * (q - 1) \<le> T \<and> T < lt_window_start r + lockWindow \<and> T \<le> now \<and>
        (\<forall>l. lt_locked_until r = Some l \<longrightarrow> T + prefixLockBase \<le> l)"
    and w: "start \<le> lt_window_start r" "lt_window_start r \<le> now" "0 \<le> lt_fail_count r"
    using b unfolding budget_def by metis
  show ?thesis
  proof (cases "probes at r")
    case True
    then obtain l where l: "lt_locked_until r = Some l" "l \<le> at" by (auto simp: probes_def split: option.splits)
    let ?T = "max at (lt_window_start r)"
    have "lt_window_start r + prefixLockBase * q \<le> ?T"
      using q(4) l by (auto simp: prefixLockBase_def algebra_simps max_def)
    moreover have "?T < lt_window_start r + lockWindow" "?T \<le> now" using False at w by (auto simp: lockWindow_def)
    ultimately show ?thesis
      using True False l q w by (intro budgetI [where q = "q + 1" and old = old and T = ?T]) (simp_all add: counted_row_def)
  next
    case np: False
    then have "lt_locked_until (counted_row at r) = lt_locked_until r"
      by (auto simp: counted_row_def probes_def split: option.splits)
    then show ?thesis
      using np False q w by (intro budgetI [where q = q and old = old and T = T]) (simp_all add: counted_row_def prefixThreshold_def min_def split: if_splits)
  qed
qed

lemma budget_total:
  assumes "budget start now r N"
  shows "int N \<le> 35 * ((now - start) div lockWindow + 1)"
proof -
  have "(lt_window_start r - start) div lockWindow \<le> (now - start) div lockWindow"
    using assms by (intro zdiv_mono1) (simp_all add: budget_def lockWindow_def)
  then show ?thesis using budget_window [OF assms] by simp
qed

section \<open>Any interleaving\<close>

text \<open>
  A guessing run against account \<open>u\<close> from scope \<open>sc\<close>: no statement fails, nobody presents the right
  password from that scope and no administrator clears the account's locks. Everything else - other
  scopes, other accounts, right passwords elsewhere, the order of all steps - is free.
\<close>

definition guessing :: "string \<Rightarrow> string \<Rightarrow> login_event \<Rightarrow> bool" where
  "guessing u sc e = (case e of
      Tick _ \<Rightarrow> True
    | Arrive u' ip device right \<Rightarrow> u' = u \<and> ipScope ip = sc \<longrightarrow> \<not> right
    | Step _ fault \<Rightarrow> \<not> fault
    | Admin_clear u' \<Rightarrow> u' \<noteq> u)"

definition admissions :: "string \<Rightarrow> string \<Rightarrow> login_attempt list \<Rightarrow> nat" where
  "admissions u sc as = length (filter (\<lambda>a. from_scope u sc a \<and> admitted a) as)"

definition counts :: "string \<Rightarrow> string \<Rightarrow> login_attempt list \<Rightarrow> nat" where
  "counts u sc as = length (filter (\<lambda>a. from_scope u sc a \<and> 1 \<le> lg_ipN (at_gate a)) as)"

definition past_ensure :: "login_attempt \<Rightarrow> bool" where
  "past_ensure a \<longleftrightarrow> at_pc a \<notin> {Exempt, Locks, Ensure_prefix, Finished}"

definition attempt_ok :: "int \<Rightarrow> string \<Rightarrow> string \<Rightarrow> login_sys \<Rightarrow> login_attempt \<Rightarrow> bool" where
  "attempt_ok start u sc s a \<longleftrightarrow> start \<le> at_now a \<and> at_now a \<le> sy_now s \<and> ip_scope (lg_scope (at_gate a)) \<and>
    (from_scope u sc a \<longrightarrow> \<not> at_right a \<and> wf_attempt a \<and> (past_ensure a \<longrightarrow> sy_table s (u, sc) \<noteq> None))"

definition row_ok :: "int \<Rightarrow> int \<Rightarrow> login_throttle option \<Rightarrow> nat \<Rightarrow> nat \<Rightarrow> bool" where
  "row_ok start now ro N k = (case ro of
      None \<Rightarrow> N = 0
    | Some r \<Rightarrow> budget start now r N \<and> lt_fail_count r \<le> int k)"

definition scope_inv :: "int \<Rightarrow> string \<Rightarrow> string \<Rightarrow> login_sys \<Rightarrow> bool" where
  "scope_inv start u sc s \<longleftrightarrow> start \<le> sy_now s \<and>
    (\<forall>a\<in>set (sy_attempts s). attempt_ok start u sc s a) \<and>
    row_ok start (sy_now s) (sy_table s (u, sc)) (admissions u sc (sy_attempts s)) (counts u sc (sy_attempts s))"

lemma counts_le: "counts u sc as \<le> length as"
  by (simp add: counts_def)

text \<open>The row of the scope after a step of one of its attempts.\<close>

lemma own_row:
  assumes a: "from_scope u sc a" "ip_scope sc" "\<not> at_right a" "wf_attempt a"
  shows "fst (attempt_step False False now t a) (u, sc) = (case at_pc a of
      Ensure_prefix \<Rightarrow> Some (case t (u, sc) of None \<Rightarrow> \<lparr>lt_fail_count = 0, lt_window_start = at_now a, lt_locked_until = None\<rparr> | Some r \<Rightarrow> r)
    | Count_prefix \<Rightarrow> snd (RecordLoginAttempt u sc (at_now a) lockWindow t) (u, sc)
    | Lock_prefix \<Rightarrow> SetLoginLock u sc (now + prefixLockFor (lg_ipN (at_gate a))) False t (u, sc)
    | Fail_prefix \<Rightarrow> if prefixThreshold \<le> lg_ipN (at_gate a)
        then SetLoginLock u sc (now + prefixLockFor (lg_ipN (at_gate a))) False t (u, sc) else t (u, sc)
    | _ \<Rightarrow> t (u, sc))"
proof -
  have s: "at_user a = u" "lg_scope (at_gate a) = sc" "at_pc a \<notin> {Clear_scope, Release_all, Record_ok}"
    using a by (auto simp: from_scope_def wf_attempt_def)
  have k: "(u, sc) \<noteq> (u, scopeAll)" using ip_scope_other(1) [OF a(2)] by simp
  show ?thesis
    using s k by (cases "at_pc a") (simp_all add: attempt_step_def Let_def count_prefix_table count_all_table
        throttle_frames(1-3) [OF k] EnsureLoginThrottle_def split: option.splits)
qed

text \<open>A statement of the scope's own attempts, on its row.\<close>

lemma row_ok_lock:
  assumes "row_ok start now (t (u, sc)) N k"
  shows "row_ok start now (SetLoginLock u sc (now + prefixLockFor n) False t (u, sc)) N k"
proof (cases "t (u, sc)")
  case (Some r)
  have "SetLoginLock u sc (now + prefixLockFor n) False t (u, sc) = Some (r\<lparr>lt_locked_until :=
      Some (case lt_locked_until r of None \<Rightarrow> now + prefixLockFor n | Some l \<Rightarrow> max l (now + prefixLockFor n))\<rparr>)"
    using Some by (simp add: SetLoginLock_def)
  then show ?thesis using assms Some budget_lock [OF _ prefixLockFor_ge, of start now r N n] by (simp add: row_ok_def)
qed (use assms in \<open>simp add: SetLoginLock_def\<close>)

lemma row_ok_ensure:
  assumes "row_ok start now ro N k" "start \<le> at" "at \<le> now"
  shows "row_ok start now (Some (case ro of None \<Rightarrow> \<lparr>lt_fail_count = 0, lt_window_start = at, lt_locked_until = None\<rparr> | Some r \<Rightarrow> r)) N k"
  using assms budget_fresh by (auto simp: row_ok_def split: option.splits)

lemma own_step_row:
  assumes a: "from_scope u sc a" "ip_scope sc" "\<not> at_right a" "wf_attempt a" and at: "start \<le> at_now a" "at_now a \<le> now"
    and row: "row_ok start now (t (u, sc)) N k" and pc: "at_pc a \<noteq> Count_prefix"
  shows "row_ok start now (fst (attempt_step False False now t a) (u, sc)) N k"
  unfolding own_row [OF a]
  using pc row_ok_lock [of start now t u sc N k, OF row] row_ok_ensure [OF row at] row by (simp split: gate_pc.splits)

text \<open>Counting: the row, the answer and the tallies.\<close>

lemma own_step_count:
  assumes a: "from_scope u sc a" "ip_scope sc" "\<not> at_right a" "wf_attempt a" and at: "start \<le> at_now a" "at_now a \<le> now"
    and row: "row_ok start now (t (u, sc)) N k" and r: "t (u, sc) = Some r" and pc: "at_pc a = Count_prefix" and few: "int k + 1 < 2 ^ 31"
  defines "a' \<equiv> snd (attempt_step False False now t a)"
  shows "row_ok start now (fst (attempt_step False False now t a) (u, sc)) (if admitted a' then N + 1 else N) (k + 1)"
    and "1 \<le> lg_ipN (at_gate a')" and "wf_attempt a'" and "fst (attempt_step False False now t a) (u, sc) \<noteq> None"
proof -
  have s: "at_user a = u" "lg_scope (at_gate a) = sc" using a(1) by (simp_all add: from_scope_def)
  have b: "budget start now r N" "lt_fail_count r \<le> int k" using row r by (simp_all add: row_ok_def)
  have n: "0 \<le> lt_fail_count r" "lt_fail_count r + 1 < 2 ^ 31" using b few by (simp_all add: budget_def)
  have step: "fst (attempt_step False False now t a) (u, sc) = Some (counted_row (at_now a) r)"
      "lg_ipN (at_gate a') = lt_fail_count (counted_row (at_now a) r)" "at_probe a' = probes (at_now a) r"
    using pc s r n(2) count_prefix_row [of t a r] by (simp_all add: a'_def attempt_step_def Let_def)
  show "1 \<le> lg_ipN (at_gate a')" using step(2) n(1) by (simp add: counted_row_def)
  then have "admitted a' \<longleftrightarrow> lt_fail_count (counted_row (at_now a) r) \<le> prefixThreshold \<or> probes (at_now a) r"
    using step by (simp add: admitted_def)
  moreover have "lt_fail_count (counted_row (at_now a) r) \<le> int (k + 1)" using b(2) by (simp add: counted_row_def)
  ultimately show "row_ok start now (fst (attempt_step False False now t a) (u, sc)) (if admitted a' then N + 1 else N) (k + 1)"
    using budget_count [OF b(1) at] step(1) by (simp add: row_ok_def)
  show "wf_attempt a'" unfolding a'_def by (rule wf_step [OF a(4)]) (use s r n in auto)
  show "fst (attempt_step False False now t a) (u, sc) \<noteq> None" using step(1) by simp
qed

lemma past_ensure_step:
  assumes "past_ensure (snd (attempt_step delay False now t a))" "\<not> past_ensure a"
  shows "at_pc a = Ensure_prefix"
  using assms by (cases "at_pc a") (auto simp: past_ensure_def attempt_step_def Let_def split: if_splits)

lemma own_row_stays:
  assumes "from_scope u sc a" "ip_scope sc" "\<not> at_right a" "wf_attempt a" "t (u, sc) \<noteq> None"
  shows "fst (attempt_step False False now t a) (u, sc) \<noteq> None"
  unfolding own_row [OF assms(1-4)]
  using assms(5) by (auto simp: RecordLoginAttempt_def SetLoginLock_def Let_def split: gate_pc.splits option.splits)

lemma own_step:
  assumes a: "from_scope u sc a" "ip_scope sc" "\<not> at_right a" "wf_attempt a" and at: "start \<le> at_now a" "at_now a \<le> now"
    and past: "past_ensure a \<longrightarrow> t (u, sc) \<noteq> None"
    and row: "row_ok start now (t (u, sc)) N k" and few: "int k + 1 < 2 ^ 31"
  defines "a' \<equiv> snd (attempt_step False False now t a)" and "t' \<equiv> fst (attempt_step False False now t a)"
  shows "row_ok start now (t' (u, sc)) (if at_pc a = Count_prefix \<and> admitted a' then N + 1 else N)
      (if at_pc a = Count_prefix then k + 1 else k) \<and> wf_attempt a' \<and> (past_ensure a' \<longrightarrow> t' (u, sc) \<noteq> None) \<and>
    (if at_pc a = Count_prefix then \<not> 1 \<le> lg_ipN (at_gate a) \<and> 1 \<le> lg_ipN (at_gate a')
     else lg_ipN (at_gate a') = lg_ipN (at_gate a) \<and> admitted a' = admitted a)"
proof (cases "at_pc a = Count_prefix")
  case True
  then obtain r where r: "t (u, sc) = Some r" using past by (auto simp: past_ensure_def)
  then show ?thesis
    using own_step_count [where t = t, OF a at row r True few] True a(4) by (simp add: a'_def t'_def wf_attempt_def [of a])
next
  case False
  have keep: "lg_ipN (at_gate a') = lg_ipN (at_gate a)" "at_probe a' = at_probe a"
    using False by (simp_all add: a'_def step_keeps_count)
  have "wf_attempt a'" unfolding a'_def by (rule wf_step [OF a(4)]) (use False in simp)
  moreover have "t' (u, sc) \<noteq> None" if "past_ensure a'"
  proof (cases "past_ensure a")
    case True
    then show ?thesis using own_row_stays [where t = t, OF a] past by (simp add: t'_def)
  next
    case np: False
    then have "at_pc a = Ensure_prefix" using past_ensure_step that by (simp add: a'_def)
    then show ?thesis using own_row [OF a] by (simp add: t'_def)
  qed
  ultimately show ?thesis
    using False keep own_step_row [where t = t, OF a at row False] by (simp add: t'_def admitted_def)
qed

lemma row_stays:
  assumes ok: "attempt_ok start u sc s a" and sc: "ip_scope sc" and "sy_table s (u, sc) \<noteq> None"
  shows "fst (attempt_step False False now (sy_table s) a) (u, sc) \<noteq> None"
proof (cases "from_scope u sc a")
  case True
  then show ?thesis using own_row_stays [of u sc a "sy_table s"] ok sc assms(3) by (simp add: attempt_ok_def)
next
  case False
  then have "fst (attempt_step False False now (sy_table s) a) (u, sc) = sy_table s (u, sc)"
    using sc ip_scope_other [OF sc] by (intro step_table_frame) (auto simp: from_scope_def)
  then show ?thesis using assms(3) by simp
qed

lemma scope_inv_step:
  assumes inv: "scope_inv start u sc s" and sc: "ip_scope sc" and i: "i < length (sy_attempts s)"
    and few: "length (sy_attempts s) + 1 < 2 ^ 31"
  shows "scope_inv start u sc (login_do False (Step i False) s)"
proof -
  define a where "a = sy_attempts s ! i"
  define t' where "t' = fst (attempt_step False False (sy_now s) (sy_table s) a)"
  define a' where "a' = snd (attempt_step False False (sy_now s) (sy_table s) a)"
  let ?as = "sy_attempts s" and ?as' = "(sy_attempts s)[i := a']"
  have s': "login_do False (Step i False) s = s\<lparr>sy_table := t', sy_attempts := ?as'\<rparr>"
    using i by (simp add: t'_def a'_def a_def Let_def split: prod.splits)
  have ok: "attempt_ok start u sc s a" using inv i by (auto simp: scope_inv_def a_def)
  have row: "row_ok start (sy_now s) (sy_table s (u, sc)) (admissions u sc ?as) (counts u sc ?as)"
    using inv by (simp add: scope_inv_def)
  have same: "at_now a' = at_now a" "lg_scope (at_gate a') = lg_scope (at_gate a)" "at_right a' = at_right a"
      "from_scope u sc a' = from_scope u sc a"
    by (simp_all add: a'_def step_identity from_scope_def)
  have adm: "admissions u sc ?as' + (if from_scope u sc a \<and> admitted a then 1 else 0) =
      admissions u sc ?as + (if from_scope u sc a' \<and> admitted a' then 1 else 0)"
    unfolding admissions_def a_def by (rule count_update [OF i])
  have cnt: "counts u sc ?as' + (if from_scope u sc a \<and> 1 \<le> lg_ipN (at_gate a) then 1 else 0) =
      counts u sc ?as + (if from_scope u sc a' \<and> 1 \<le> lg_ipN (at_gate a') then 1 else 0)"
    unfolding counts_def a_def by (rule count_update [OF i])
  have main: "row_ok start (sy_now s) (t' (u, sc)) (admissions u sc ?as') (counts u sc ?as') \<and>
      (from_scope u sc a \<longrightarrow> wf_attempt a' \<and> (past_ensure a' \<longrightarrow> t' (u, sc) \<noteq> None))"
  proof (cases "from_scope u sc a")
    case False
    have "t' (u, sc) = sy_table s (u, sc)"
      unfolding t'_def using False sc ip_scope_other [OF sc] by (intro step_table_frame) (auto simp: from_scope_def)
    then show ?thesis using False same adm cnt row by simp
  next
    case True
    have k: "int (counts u sc ?as) + 1 < 2 ^ 31" using few counts_le [of u sc ?as] by simp
    have a: "\<not> at_right a" "wf_attempt a" "start \<le> at_now a" "at_now a \<le> sy_now s" "past_ensure a \<longrightarrow> sy_table s (u, sc) \<noteq> None"
      using ok True by (simp_all add: attempt_ok_def)
    note step = own_step [where t = "sy_table s", OF True sc a row k, folded a'_def t'_def]
    have "admitted a \<longrightarrow> 1 \<le> lg_ipN (at_gate a)" by (simp add: admitted_def)
    then show ?thesis using step adm cnt same(4) True by (simp split: if_splits)
  qed
  have "attempt_ok start u sc (s\<lparr>sy_table := t', sy_attempts := ?as'\<rparr>) b" if "b \<in> set ?as'" for b
  proof (cases "b = a'")
    case True
    then show ?thesis using ok main same by (simp add: attempt_ok_def)
  next
    case False
    then have "attempt_ok start u sc s b" using that inv set_update_subset_insert [of ?as i a'] by (auto simp: scope_inv_def)
    then show ?thesis using row_stays [OF ok sc, of "sy_now s"] by (auto simp: attempt_ok_def t'_def)
  qed
  then show ?thesis unfolding s' using inv main by (simp add: scope_inv_def)
qed

lemma attempts_grow: "length (sy_attempts s) \<le> length (sy_attempts (login_do delay e s))"
  by (cases e) (auto simp: Let_def split: prod.splits)

lemma scope_inv_do:
  assumes inv: "scope_inv start u sc s" and sc: "ip_scope sc" and e: "guessing u sc e"
    and few: "length (sy_attempts (login_do False e s)) + 1 < 2 ^ 31"
  shows "scope_inv start u sc (login_do False e s)"
proof (cases e)
  case (Tick d)
  then show ?thesis
    using inv by (auto simp: scope_inv_def attempt_ok_def row_ok_def split: option.splits intro: budget_later)
next
  case (Arrive u' ip device right)
  let ?a = "new_attempt u' ip device right (sy_now s)"
  have new: "\<not> admitted ?a" "\<not> 1 \<le> lg_ipN (at_gate ?a)" "\<not> past_ensure ?a" "ip_scope (lg_scope (at_gate ?a))"
      "from_scope u sc ?a \<Longrightarrow> \<not> at_right ?a"
    using e Arrive by (auto simp: new_attempt_def admitted_def past_ensure_def from_scope_def guessing_def)
  then have "attempt_ok start u sc s ?a"
    using inv by (auto simp: attempt_ok_def scope_inv_def new_attempt_def [of u' ip device right] wf_new [unfolded new_attempt_def])
  then show ?thesis
    using inv new Arrive by (auto simp: scope_inv_def attempt_ok_def admissions_def counts_def)
next
  case (Step i fault)
  then show ?thesis
    using e scope_inv_step [OF inv sc, of i] few attempts_grow [of s False e] inv
    by (cases "i < length (sy_attempts s)") (auto simp: guessing_def)
next
  case (Admin_clear u')
  then show ?thesis
    using e inv by (auto simp: guessing_def scope_inv_def attempt_ok_def ClearLoginThrottles_def)
qed

lemma scope_inv_run:
  assumes "sy_table s (u, sc) = None" "sy_attempts s = []" "ip_scope sc" "list_all (guessing u sc) es"
    and "length (sy_attempts (login_run False es s)) + 1 < 2 ^ 31"
  shows "scope_inv (sy_now s) u sc (login_run False es s)"
  using assms(4,5)
proof (induction es rule: rev_induct)
  case Nil
  then show ?case using assms(1,2) by (simp add: scope_inv_def row_ok_def admissions_def)
next
  case (snoc e es)
  then have "scope_inv (sy_now s) u sc (login_run False es s)"
    using attempts_grow [of "login_run False es s" False e] by simp
  then show ?case using scope_inv_do [OF _ assms(3)] snoc.prems by simp
qed

lemma comparisons_admissions: "scope_inv start u sc s \<Longrightarrow> comparisons u sc s \<le> admissions u sc (sy_attempts s)"
proof -
  assume inv: "scope_inv start u sc s"
  have "filter (\<lambda>a. from_scope u sc a \<and> compared a) (sy_attempts s) =
      filter compared (filter (\<lambda>a. from_scope u sc a \<and> admitted a) (sy_attempts s))"
    using inv by (auto simp: scope_inv_def attempt_ok_def intro!: filter_cong dest: wf_compared)
  then show ?thesis unfolding comparisons_def admissions_def by (metis (lifting) length_filter_le)
qed

text \<open>C29. In the mode that locks prefixes (trusted proxies are configured): under every interleaving
  of sign-ins, against one account at most thirty-five passwords per started quarter of an hour
  are compared for requests from one network prefix, counted from a time when the prefix had no
  counter; other accounts, other prefixes and the order of all statements are arbitrary, no store
  call fails, there are fewer than 2^31 sign-ins, the right password is not among the guesses and
  no administrator clears the locks. In the delay-only mode, the default without trusted proxies,
  no prefix is locked and there is no such bound.\<close>

theorem prefix_guesses_bounded:
  assumes "sy_table s (u, ipScope ip) = None" "sy_attempts s = []"
    and "list_all (guessing u (ipScope ip)) es"
    and "length (sy_attempts (login_run False es s)) + 1 < 2 ^ 31"
  shows "int (comparisons u (ipScope ip) (login_run False es s)) \<le>
    35 * ((sy_now (login_run False es s) - sy_now s) div lockWindow + 1)"
proof -
  let ?s' = "login_run False es s"
  have inv: "scope_inv (sy_now s) u (ipScope ip) ?s'" using scope_inv_run [OF assms(1,2) ip_scope_ipScope assms(3,4)] .
  show ?thesis
  proof (cases "sy_table ?s' (u, ipScope ip)")
    case None
    then have "admissions u (ipScope ip) (sy_attempts ?s') = 0" using inv by (simp add: scope_inv_def row_ok_def)
    moreover have "0 \<le> (sy_now ?s' - sy_now s) div lockWindow"
      using inv by (intro div_int_pos_iff [THEN iffD2]) (simp add: scope_inv_def lockWindow_def)
    ultimately show ?thesis using comparisons_admissions [OF inv] by simp
  next
    case (Some r)
    then have "budget (sy_now s) (sy_now ?s') r (admissions u (ipScope ip) (sy_attempts ?s'))"
      using inv by (simp add: scope_inv_def row_ok_def)
    then show ?thesis using budget_total comparisons_admissions [OF inv] by fastforce
  qed
qed

definition two_guesses :: "login_event list" where
  "two_guesses = [Arrive ''eve'' ''10.0.0.9'' False False, Arrive ''eve'' ''10.0.0.77'' False False,
     Step 0 False, Step 1 False, Step 0 False, Step 1 False, Step 0 False, Step 1 False, Step 0 False, Step 1 False,
     Step 0 False, Tick 7, Step 1 False, Step 0 False, Step 1 False, Step 0 False, Step 1 False]"

definition quiet_sys :: "login_sys" where
  "quiet_sys = \<lparr>sy_now = 1000 * Minute, sy_table = Map.empty, sy_attempts = []\<rparr>"

lemma demo_scope: "ipScope ''10.0.0.9'' = ''ip:10.0.0.0/24''" "ipScope ''10.0.0.77'' = ''ip:10.0.0.0/24''"
  by code_simp+

lemmas demo_simps = two_guesses_def quiet_sys_def login_run_def new_attempt_def demo_scope attempt_step_def
  Let_def HasRecentLoginSuccess_def CountActiveLoginLocks_def gate_scopes_def EnsureLoginThrottle_def
  count_prefix_step_def count_all_step_def RecordLoginAttempt_def gated_def scopeAll_def okScope_def
  lockWindow_def prefixThreshold_def globalThreshold_def

theorem prefix_guesses_bounded_witness:
  "comparisons ''eve'' (ipScope ''10.0.0.9'') (login_run False two_guesses quiet_sys) = 2 \<and>
   int (comparisons ''eve'' (ipScope ''10.0.0.9'') (login_run False two_guesses quiet_sys)) \<le>
    35 * ((sy_now (login_run False two_guesses quiet_sys) - sy_now quiet_sys) div lockWindow + 1)"
proof
  show "comparisons ''eve'' (ipScope ''10.0.0.9'') (login_run False two_guesses quiet_sys) = 2"
    by (simp add: demo_simps comparisons_def from_scope_def compared_def)
  have "list_all (guessing ''eve'' (ipScope ''10.0.0.9'')) two_guesses"
    by (simp add: two_guesses_def guessing_def)
  moreover have "length (sy_attempts (login_run False two_guesses quiet_sys)) + 1 < 2 ^ 31"
    by (simp add: demo_simps)
  ultimately show "int (comparisons ''eve'' (ipScope ''10.0.0.9'') (login_run False two_guesses quiet_sys)) \<le>
      35 * ((sy_now (login_run False two_guesses quiet_sys) - sy_now quiet_sys) div lockWindow + 1)"
    by (intro prefix_guesses_bounded) (simp_all add: quiet_sys_def)
qed

end
