(* ===== verification/Login_Cap.thy ===== *)
theory Login_Cap
  imports Login_Guesses
begin

text \<open>
  The account-wide cap of the failed-login backoff: a network the account recently signed in from is
  never refused because of what other networks do; the cap itself does not bound attempts that run
  at the same time. Last, that an attempt which runs alone is \<open>gateLogin\<close>.
\<close>

section \<open>A network the owner uses\<close>

definition row_free :: "login_throttle option \<Rightarrow> bool" where
  "row_free ro = (case ro of None \<Rightarrow> True | Some r \<Rightarrow> lt_locked_until r = None \<and> lt_fail_count r < prefixThreshold)"

text \<open>What the rest of the world may do: anything but sign in from that network or clear the account.\<close>

definition elsewhere :: "string \<Rightarrow> string \<Rightarrow> nat \<Rightarrow> login_event \<Rightarrow> bool" where
  "elsewhere u sc i e = (case e of
      Tick _ \<Rightarrow> True
    | Arrive u' ip device right \<Rightarrow> (u', ipScope ip) \<noteq> (u, sc)
    | Step j fault \<Rightarrow> j = i \<longrightarrow> \<not> fault
    | Admin_clear u' \<Rightarrow> u' \<noteq> u)"

definition foreign :: "string \<Rightarrow> string \<Rightarrow> login_attempt \<Rightarrow> bool" where
  "foreign u sc a \<longleftrightarrow> ip_scope (lg_scope (at_gate a)) \<and> \<not> from_scope u sc a"

lemma foreign_step: "foreign u sc (snd (attempt_step delay fault now t a)) = foreign u sc a"
  by (simp add: foreign_def from_scope_def step_identity)

lemma foreign_rows:
  assumes "foreign u sc a" "ip_scope sc"
  shows "fst (attempt_step delay fault now t a) (u, sc) = t (u, sc)"
    "fst (attempt_step delay fault now t a) (u, okScope sc) = t (u, okScope sc)"
  using assms ip_scope_other [of sc] ip_scope_other(2) [of "lg_scope (at_gate a)" sc, THEN not_sym]
  by (intro step_table_frame; auto simp: foreign_def from_scope_def)+

text \<open>The owner's attempt after \<open>k\<close> of its statements.\<close>

definition owner_path :: "gate_pc list" where
  "owner_path = [Exempt, Locks, Ensure_prefix, Ensure_all, Count_prefix, Count_all, Compare]"

definition owner_stage :: "nat \<Rightarrow> login_attempt \<Rightarrow> bool" where
  "owner_stage k a \<longleftrightarrow> \<not> lg_refuse (at_gate a) \<and> (0 < k \<longrightarrow> lg_exempt (at_gate a)) \<and>
    (if k < 7 then at_pc a = owner_path ! k else compared a)"

lemma row_free_ensure: "row_free (t (u, sc)) \<Longrightarrow> row_free (EnsureLoginThrottle u sc now t (u, sc))"
  by (auto simp: row_free_def EnsureLoginThrottle_def prefixThreshold_def split: option.splits)

lemma row_free_unlocked: "row_free (t (u, sc)) \<Longrightarrow> CountActiveLoginLocks u [sc] now t = 0"
  by (simp add: CountActiveLoginLocks_def row_free_def locked_now_def split: option.splits)

lemma row_free_count:
  assumes "row_free (t (at_user a, lg_scope (at_gate a)))"
  shows "at_pc (snd (count_prefix_step delay t a)) = Count_all"
  using assms
  by (auto simp: count_prefix_step_def RecordLoginAttempt_def row_free_def prefixThreshold_def Let_def split: option.splits)

lemma compared_stays:
  assumes "compared a" "\<not> lg_refuse (at_gate a)"
  shows "compared (snd (attempt_step delay fault now t a)) \<and> \<not> lg_refuse (at_gate (snd (attempt_step delay fault now t a))) \<and>
    lg_exempt (at_gate (snd (attempt_step delay fault now t a))) = lg_exempt (at_gate a)"
  using assms by (cases "at_pc a") (auto simp: compared_def attempt_step_def Let_def)

lemma owner_stage_cases:
  assumes "owner_stage k a"
  obtains "k = 0" "at_pc a = Exempt" | "k = 1" "at_pc a = Locks" | "k = 2" "at_pc a = Ensure_prefix"
    | "k = 3" "at_pc a = Ensure_all" | "k = 4" "at_pc a = Count_prefix" | "k = 5" "at_pc a = Count_all"
    | "k = 6" "at_pc a = Compare" | "7 \<le> k" "compared a"
proof (cases "k < 7")
  case True
  then have "k = 0 \<or> k = 1 \<or> k = 2 \<or> k = 3 \<or> k = 4 \<or> k = 5 \<or> k = 6" by linarith
  then show ?thesis using assms that True by (auto simp: owner_stage_def owner_path_def numeral_nat)
qed (use assms that in \<open>simp add: owner_stage_def\<close>)

lemma owner_step:
  assumes st: "owner_stage k a" and a: "at_user a = u" "lg_scope (at_gate a) = sc"
    and recent: "k = 0 \<Longrightarrow> HasRecentLoginSuccess u (okScope sc) (now - knownPrefixFor) t"
    and free: "k \<le> 4 \<Longrightarrow> row_free (t (u, sc))"
  shows "owner_stage (Suc k) (snd (attempt_step delay False now t a))"
proof -
  have g: "\<not> lg_refuse (at_gate a)" "0 < k \<Longrightarrow> lg_exempt (at_gate a)" using st by (simp_all add: owner_stage_def)
  from st show ?thesis
  proof (cases rule: owner_stage_cases)
    case 2
    then show ?thesis
      using a g free row_free_unlocked [of t u sc "at_now a"] by (simp add: owner_stage_def owner_path_def attempt_step_def Let_def gate_scopes_def)
  next
    case 5
    then have "snd (attempt_step delay False now t a) = snd (count_prefix_step delay t a)" by (simp add: attempt_step_def Let_def)
    then show ?thesis
      using 5 a g free row_free_count [of t a delay]
      by (auto simp: owner_stage_def owner_path_def count_prefix_step_def split: prod.splits sum.splits)
  next
    case 6
    then show ?thesis
      using g by (auto simp: owner_stage_def owner_path_def attempt_step_def Let_def count_all_step_def split: prod.splits sum.splits)
  next
    case 8
    then show ?thesis using g compared_stays [of a delay False now t] by (simp add: owner_stage_def)
  qed (use a g recent in \<open>simp_all add: owner_stage_def owner_path_def attempt_step_def Let_def compared_def\<close>)
qed

lemma owner_rows:
  assumes st: "owner_stage k a" and a: "at_user a = u" "lg_scope (at_gate a) = sc" "ip_scope sc"
  shows "k < 4 \<Longrightarrow> row_free (t (u, sc)) \<Longrightarrow> row_free (fst (attempt_step delay False now t a) (u, sc))"
    and "k < 4 \<Longrightarrow> fst (attempt_step delay False now t a) (u, okScope sc) = t (u, okScope sc)"
  using st a ip_scope_other [OF a(3)] ip_scope_other(2) [OF a(3), THEN not_sym]
  by (cases rule: owner_stage_cases;
      auto simp: attempt_step_def Let_def throttle_frames row_free_ensure)+

definition owner_inv :: "string \<Rightarrow> string \<Rightarrow> nat \<Rightarrow> login_throttle \<Rightarrow> nat \<Rightarrow> login_sys \<Rightarrow> bool" where
  "owner_inv u sc i ok k s \<longleftrightarrow> i < length (sy_attempts s) \<and>
    at_user (sy_attempts s ! i) = u \<and> lg_scope (at_gate (sy_attempts s ! i)) = sc \<and> owner_stage k (sy_attempts s ! i) \<and>
    (\<forall>j<length (sy_attempts s). j \<noteq> i \<longrightarrow> foreign u sc (sy_attempts s ! j)) \<and>
    (k \<le> 4 \<longrightarrow> row_free (sy_table s (u, sc))) \<and> (k \<le> 4 \<longrightarrow> sy_table s (u, okScope sc) = Some ok)"

lemma owner_inv_own:
  assumes inv: "owner_inv u sc i ok k s" and sc: "ip_scope sc" and recent: "sy_now s - knownPrefixFor < lt_window_start ok"
  shows "owner_inv u sc i ok (Suc k) (login_do delay (Step i False) s)"
proof -
  let ?a = "sy_attempts s ! i" and ?t = "sy_table s"
  have i: "i < length (sy_attempts s)" and st: "owner_stage k ?a" and a: "at_user ?a = u" "lg_scope (at_gate ?a) = sc"
    and free: "k \<le> 4 \<Longrightarrow> row_free (?t (u, sc))" and ok: "k \<le> 4 \<Longrightarrow> ?t (u, okScope sc) = Some ok"
    using inv by (simp_all add: owner_inv_def)
  have has: "k = 0 \<Longrightarrow> HasRecentLoginSuccess u (okScope sc) (sy_now s - knownPrefixFor) ?t"
    using ok recent by (simp add: HasRecentLoginSuccess_def)
  have s': "login_do delay (Step i False) s = s\<lparr>sy_table := fst (attempt_step delay False (sy_now s) ?t ?a),
      sy_attempts := (sy_attempts s)[i := snd (attempt_step delay False (sy_now s) ?t ?a)]\<rparr>"
    using i by (simp add: Let_def split: prod.splits)
  show ?thesis
    unfolding s' owner_inv_def
    using inv i a owner_step [OF st a has free] owner_rows [where t = ?t and delay = delay and now = "sy_now s", OF st a sc] free ok
    by (simp add: owner_inv_def step_identity)
qed

lemma owner_inv_other:
  assumes inv: "owner_inv u sc i ok k s" and sc: "ip_scope sc" and j: "j \<noteq> i"
  shows "owner_inv u sc i ok k (login_do delay (Step j fault) s)"
proof (cases "j < length (sy_attempts s)")
  case True
  let ?a = "sy_attempts s ! j" and ?t = "sy_table s"
  have f: "foreign u sc ?a" using inv True j by (simp add: owner_inv_def)
  have s': "login_do delay (Step j fault) s = s\<lparr>sy_table := fst (attempt_step delay fault (sy_now s) ?t ?a),
      sy_attempts := (sy_attempts s)[j := snd (attempt_step delay fault (sy_now s) ?t ?a)]\<rparr>"
    using True by (simp add: Let_def split: prod.splits)
  show ?thesis
    unfolding s' owner_inv_def
    using inv j f True foreign_rows [OF f sc, of delay fault "sy_now s" ?t]
    by (simp add: owner_inv_def nth_list_update foreign_step)
qed (use inv in simp)

lemma owner_inv_do:
  assumes inv: "owner_inv u sc i ok k s" and sc: "ip_scope sc" and e: "elsewhere u sc i e"
    and recent: "sy_now s - knownPrefixFor < lt_window_start ok"
  shows "owner_inv u sc i ok (if e = Step i False then Suc k else k) (login_do delay e s)"
proof (cases e)
  case (Step j fault)
  then show ?thesis
    using owner_inv_own [OF inv sc recent] owner_inv_other [OF inv sc, of j delay fault] e by (auto simp: elsewhere_def)
next
  case (Arrive u' ip device right)
  then have "foreign u sc (new_attempt u' ip device right now)" for now
    using e by (auto simp: elsewhere_def foreign_def from_scope_def new_attempt_def)
  then show ?thesis using inv Arrive by (auto simp: owner_inv_def nth_append less_Suc_eq)
qed (use inv e in \<open>auto simp: owner_inv_def elsewhere_def ClearLoginThrottles_def\<close>)

lemma clock_grows: "sy_now s \<le> sy_now (login_do delay e s)"
  by (cases e) (auto simp: Let_def split: prod.splits)

lemma owner_inv_run:
  assumes inv: "owner_inv u sc i ok 0 s" and sc: "ip_scope sc" and es: "list_all (elsewhere u sc i) es"
    and recent: "sy_now (login_run delay es s) - knownPrefixFor < lt_window_start ok"
  shows "owner_inv u sc i ok (length (filter (\<lambda>e. e = Step i False) es)) (login_run delay es s)"
  using es recent
proof (induction es rule: rev_induct)
  case (snoc e es)
  have "sy_now (login_run delay es s) - knownPrefixFor < lt_window_start ok"
    using snoc.prems(2) clock_grows [of "login_run delay es s" delay e] by simp
  then have "owner_inv u sc i ok (if e = Step i False then Suc (length (filter (\<lambda>e. e = Step i False) es))
      else length (filter (\<lambda>e. e = Step i False) es)) (login_do delay e (login_run delay es s))"
    using snoc by (intro owner_inv_do [OF _ sc]) simp_all
  then show ?case unfolding login_run_snoc by (auto split: if_splits)
qed (use inv in simp)

text \<open>C30. A request from a network the account signed in from within thirty days, whose own counter
  is below the threshold and not locked, is never refused, whatever anybody does from other
  networks meanwhile and whatever the account-wide lock says: after seven statements of its own
  its password has been compared.\<close>

theorem known_network_let_in:
  assumes "\<forall>a\<in>set (sy_attempts s). foreign u (ipScope ip) a"
    and "sy_table s (u, okScope (ipScope ip)) = Some ok" "row_free (sy_table s (u, ipScope ip))"
    and "list_all (elsewhere u (ipScope ip) (length (sy_attempts s))) es"
    and "sy_now (login_run delay (Arrive u ip device right # es) s) < lt_window_start ok + knownPrefixFor"
  defines "own \<equiv> sy_attempts (login_run delay (Arrive u ip device right # es) s) ! length (sy_attempts s)"
  shows "\<not> lg_refuse (at_gate own) \<and>
    (7 \<le> length (filter (\<lambda>e. e = Step (length (sy_attempts s)) False) es) \<longrightarrow> compared own)"
proof -
  let ?i = "length (sy_attempts s)" and ?s1 = "login_do delay (Arrive u ip device right) s"
  have "owner_inv u (ipScope ip) ?i ok 0 ?s1"
    using assms(1-3) by (auto simp: owner_inv_def owner_stage_def owner_path_def new_attempt_def nth_append less_Suc_eq)
  then have "owner_inv u (ipScope ip) ?i ok (length (filter (\<lambda>e. e = Step ?i False) es)) (login_run delay es ?s1)"
    using assms(4,5) by (intro owner_inv_run) (simp_all add: login_run_def)
  then show ?thesis
    unfolding own_def by (auto simp: owner_inv_def owner_stage_def login_run_def split: if_splits)
qed

definition locked_sys :: login_sys where
  "locked_sys = \<lparr>sy_now = 1000 * Minute,
     sy_table = [(''bob'', ''ok:ip:10.0.0.0/24'') \<mapsto> \<lparr>lt_fail_count = 0, lt_window_start = 10 * Minute, lt_locked_until = None\<rparr>,
                 (''bob'', ''all'') \<mapsto> \<lparr>lt_fail_count = 0, lt_window_start = 999 * Minute, lt_locked_until = Some (1001 * Minute)\<rparr>],
     sy_attempts = [new_attempt ''bob'' ''192.0.2.1'' False False (1000 * Minute)]\<rparr>"

lemma demo_scope_other: "ipScope ''192.0.2.1'' = ''ip:192.0.2.0/24''"
  by code_simp

theorem known_network_let_in_witness:
  "compared (sy_attempts (login_run False (Arrive ''bob'' ''10.0.0.9'' False True # replicate 7 (Step 1 False)) locked_sys) ! 1)"
proof -
  let ?es = "replicate 7 (Step 1 False)"
  have n: "length (sy_attempts locked_sys) = 1" by (simp add: locked_sys_def)
  have f: "foreign ''bob'' (ipScope ''10.0.0.9'') (new_attempt ''bob'' ''192.0.2.1'' False False now)" for now
    by (simp add: foreign_def from_scope_def new_attempt_def demo_scope demo_scope_other ip_scope_def)
  have t: "sy_table locked_sys (''bob'', okScope (ipScope ''10.0.0.9'')) = Some \<lparr>lt_fail_count = 0, lt_window_start = 10 * Minute, lt_locked_until = None\<rparr>"
      "row_free (sy_table locked_sys (''bob'', ipScope ''10.0.0.9''))"
    by (simp_all add: locked_sys_def demo_scope okScope_def row_free_def)
  have now: "sy_now (login_run False (Arrive ''bob'' ''10.0.0.9'' False True # es) locked_sys) = 1000 * Minute"
    if "list_all (\<lambda>e. e = Step 1 False) es" for es
  proof -
    have "sy_now (fold (login_do False) es s) = sy_now s" for s
      using that by (induction es arbitrary: s) (auto simp: Let_def split: prod.splits)
    then show ?thesis by (simp add: login_run_def locked_sys_def)
  qed
  have "7 \<le> length (filter (\<lambda>e. e = Step (length (sy_attempts locked_sys)) False) ?es)" by (simp add: n)
  then show ?thesis
    using known_network_let_in [of locked_sys "''bob''" "''10.0.0.9''" _ ?es False False True] f t now [of ?es] n
    by (simp add: locked_sys_def [THEN arg_cong, of sy_attempts] elsewhere_def knownPrefixFor_def list_all_iff)
qed

section \<open>Attempts at the same time\<close>

text \<open>An attempt that runs \<open>n\<close> statements in a row.\<close>

fun solo :: "nat \<Rightarrow> int \<Rightarrow> throttles \<times> login_attempt \<Rightarrow> throttles \<times> login_attempt" where
  "solo 0 now x = x"
| "solo (Suc n) now (t, a) = solo n now (attempt_step False False now t a)"






















section \<open>An attempt that runs alone\<close>

text \<open>
  Without interleaving and without store errors the statements of an attempt up to the comparison
  are \<open>gateLogin\<close>, and those after it are \<open>loginFailed\<close> or \<open>loginSucceeded\<close>.
\<close>

fun until_gated :: "nat \<Rightarrow> int \<Rightarrow> throttles \<times> login_attempt \<Rightarrow> throttles \<times> login_attempt" where
  "until_gated 0 now x = x"
| "until_gated (Suc n) now (t, a) =
    (if at_pc a = Compare \<or> at_pc a = Finished then (t, a) else until_gated n now (attempt_step False False now t a))"

lemma healthy_update: "healthy w \<Longrightarrow> healthy (w\<lparr>lw_throttles := t\<rparr>)"
  by (simp add: healthy_def)

lemma healthy_ask: "healthy w \<Longrightarrow> tryE (ask_throttles f) w = (Some (f (lw_throttles w)), w)"
  by (simp add: tryE_def ask_throttles_def healthy_def repo_healthy healthy_noop)

lemma healthy_on: "healthy w \<Longrightarrow> ignoreE (on_throttles f) w = w\<lparr>lw_throttles := f (lw_throttles w)\<rparr>"
  by (simp add: ignoreE_def on_throttles_def healthy_def repo_healthy healthy_noop)

lemma healthy_count:
  "healthy w \<Longrightarrow> tryE (count_attempt u sc now) w =
    (case RecordLoginAttempt u sc now lockWindow (lw_throttles w) of
       (Inl _, t) \<Rightarrow> (None, w\<lparr>lw_throttles := t\<rparr>) | (Inr x, t) \<Rightarrow> (Some x, w\<lparr>lw_throttles := t\<rparr>))"
  by (simp add: tryE_def count_attempt_def healthy_def repoE_healthy healthy_noop split: prod.splits sum.splits)

lemma healthy_device: "healthy w \<Longrightarrow> knownDeviceFromContext svc token u ua w = (fst (knownDeviceFromContext svc token u ua w), w)"
  by (simp add: knownDeviceFromContext_def tryE_def healthy_def repo_healthy healthy_noop HasKnownDevice_def
      split: prod.splits)

lemmas healthy_simps = healthy_update healthy_ask healthy_on healthy_count

lemma healthy_exempt:
  "healthy w \<Longrightarrow> globalCapExempt svc token u sc ua w =
    (HasRecentLoginSuccess u (okScope sc) (w_now w - knownPrefixFor) (lw_throttles w) \<or> fst (knownDeviceFromContext svc token u ua w), w)"
  using healthy_device [of w svc token u ua] by (auto simp: globalCapExempt_def healthy_ask split: bool.splits)

definition gate_result :: "'z lock_world_scheme \<Rightarrow> throttles \<times> login_attempt \<Rightarrow> loginGate \<times> 'z lock_world_scheme" where
  "gate_result w x = (at_gate (snd x), w\<lparr>lw_throttles := fst x\<rparr>)"

lemma until_gated_stop: "at_pc a = Compare \<or> at_pc a = Finished \<Longrightarrow> until_gated n now (t, a) = (t, a)"
  by (cases n) simp_all

lemma gate_result_update [simp]: "gate_result (w\<lparr>lw_throttles := t\<rparr>) x = gate_result w x"
  by (simp add: gate_result_def)

lemma gate_all_alone:
  assumes "healthy w" "at_pc a = Count_all" "at_user a = u" "at_now a = now"
  shows "gate_result w (until_gated (Suc (Suc n)) (w_now w) (lw_throttles w, a)) = gate_all u now (at_gate a) w"
proof -
  obtain r t where r: "RecordLoginAttempt u scopeAll now lockWindow (lw_throttles w) = (r, t)" by fastforce
  show ?thesis
  proof (cases r)
    case (Inl e)
    then show ?thesis
      using assms r by (simp add: attempt_step_def Let_def count_all_step_def gate_all_def healthy_simps until_gated_stop gate_result_def)
  next
    case (Inr np)
    obtain m p where np: "np = (m, p)" by fastforce
    show ?thesis
    proof (cases "globalThreshold < m \<and> \<not> p \<and> \<not> lg_exempt (at_gate a)")
      case True
      then show ?thesis
        using assms r Inr np
        by (simp add: attempt_step_def Let_def count_all_step_def gate_all_def healthy_simps until_gated_stop gate_result_def lockAll_def)
    next
      case False
      then show ?thesis
        using assms r Inr np
        by (auto simp: attempt_step_def Let_def count_all_step_def gate_all_def healthy_simps until_gated_stop gate_result_def)
    qed
  qed
qed

lemma gate_prefix_alone:
  assumes "healthy w" "\<not> delayOnlyPrefix svc" "at_pc a = Count_prefix" "at_user a = u" "at_now a = now"
  shows "gate_result w (until_gated (Suc (Suc (Suc (Suc n)))) (w_now w) (lw_throttles w, a)) =
    (let (g, w') = gate_prefix svc u now (at_gate a) w in gate_all u now g w')"
proof -
  let ?sc = "lg_scope (at_gate a)"
  obtain r t where r: "RecordLoginAttempt u ?sc now lockWindow (lw_throttles w) = (r, t)" by fastforce
  let ?w = "w\<lparr>lw_throttles := t\<rparr>"
  note all = gate_all_alone [OF healthy_update [OF assms(1)]]
  show ?thesis
  proof (cases r)
    case (Inl e)
    then show ?thesis
      using assms r all [of "a\<lparr>at_pc := Count_all\<rparr>" u now t "Suc n"]
      by (simp add: attempt_step_def Let_def count_prefix_step_def gate_prefix_def healthy_simps del: until_gated.simps(2) add: until_gated.simps(2) [of "Suc (Suc (Suc n))"])
  next
    case (Inr np)
    obtain m p where np: "np = (m, p)" by fastforce
    let ?a = "a\<lparr>at_gate := (at_gate a)\<lparr>lg_ipN := m\<rparr>, at_probe := p\<rparr>"
    show ?thesis
    proof (cases "prefixThreshold < m \<and> \<not> p")
      case True
      let ?t = "SetLoginLock u ?sc (w_now w + prefixLockFor m) False t"
      have "gate_prefix svc u now (at_gate a) w = ((at_gate ?a)\<lparr>lg_refuse := True\<rparr>, w\<lparr>lw_throttles := ?t\<rparr>)"
        using assms r Inr np True by (simp add: gate_prefix_def healthy_simps lockPrefix_def)
      moreover have "until_gated (Suc (Suc (Suc (Suc n)))) (w_now w) (lw_throttles w, a) =
          until_gated (Suc (Suc n)) (w_now w) (?t, ?a\<lparr>at_gate := (at_gate ?a)\<lparr>lg_refuse := True\<rparr>, at_pc := Count_all\<rparr>)"
        using assms r Inr np True by (simp add: attempt_step_def Let_def count_prefix_step_def)
      ultimately show ?thesis
        using assms all [of "?a\<lparr>at_gate := (at_gate ?a)\<lparr>lg_refuse := True\<rparr>, at_pc := Count_all\<rparr>" u now ?t n] by simp
    next
      case False
      have "gate_prefix svc u now (at_gate a) w = (at_gate ?a, w\<lparr>lw_throttles := t\<rparr>)"
        using assms r Inr np False by (auto simp: gate_prefix_def healthy_simps)
      moreover have "until_gated (Suc (Suc (Suc (Suc n)))) (w_now w) (lw_throttles w, a) =
          until_gated (Suc (Suc (Suc n))) (w_now w) (t, ?a\<lparr>at_pc := Count_all\<rparr>)"
        using assms r Inr np False by (auto simp: attempt_step_def Let_def count_prefix_step_def)
      ultimately show ?thesis
        using assms all [of "?a\<lparr>at_pc := Count_all\<rparr>" u now t "Suc n"] by simp
    qed
  qed
qed

lemma gateLogin_alone:
  assumes h: "healthy w" and svc: "lockStore svc" "\<not> delayOnlyPrefix svc"
  shows "gateLogin svc token u ip ua w =
    gate_result w (until_gated 8 (w_now w) (lw_throttles w, new_attempt u ip (fst (knownDeviceFromContext svc token u ua w)) right (w_now w)))"
proof -
  let ?now = "w_now w" and ?sc = "ipScope ip" and ?t = "lw_throttles w"
  define ex where "ex = (HasRecentLoginSuccess u (okScope ?sc) (?now - knownPrefixFor) ?t \<or> fst (knownDeviceFromContext svc token u ua w))"
  define a where "a = new_attempt u ip (fst (knownDeviceFromContext svc token u ua w)) right ?now"
  define a1 where "a1 = a\<lparr>at_gate := (at_gate a)\<lparr>lg_exempt := ex\<rparr>, at_pc := Locks\<rparr>"
  have eight: "until_gated 8 ?now x = until_gated (Suc (Suc (Suc (Suc (Suc (Suc (Suc (Suc 0)))))))) ?now x" for x by (simp add: numeral_nat)
  have s1: "until_gated 8 ?now (?t, a) = until_gated (Suc (Suc (Suc (Suc (Suc (Suc (Suc 0))))))) ?now (?t, a1)"
    unfolding eight by (simp add: a_def a1_def new_attempt_def attempt_step_def Let_def ex_def)
  have a1: "at_pc a1 = Locks" "at_user a1 = u" "at_now a1 = ?now" "\<not> lg_refuse (at_gate a1)" "lg_scope (at_gate a1) = ?sc"
    by (simp_all add: a1_def a_def new_attempt_def)
  have g: "at_gate a1 = \<lparr>lg_refuse = False, lg_scope = ?sc, lg_ipN = 0, lg_allN = 0, lg_exempt = ex\<rparr>"
    by (simp add: a1_def a_def new_attempt_def)
  show ?thesis
  proof (cases "0 < CountActiveLoginLocks u (gate_scopes (at_gate a1)) ?now ?t")
    case True
    have "until_gated 8 ?now (?t, a) = (?t, a1\<lparr>at_gate := (at_gate a1)\<lparr>lg_refuse := True\<rparr>, at_pc := Finished\<rparr>)"
      unfolding s1 using a1 True by (simp add: attempt_step_def Let_def until_gated_stop)
    then show ?thesis
      using svc True g h by (simp add: gateLogin_def healthy_exempt healthy_simps ex_def [symmetric] gate_result_def a_def [symmetric])
  next
    case False
    let ?t2 = "EnsureLoginThrottle u scopeAll ?now (EnsureLoginThrottle u ?sc ?now ?t)" and ?a4 = "a1\<lparr>at_pc := Count_prefix\<rparr>"
    have "until_gated 8 ?now (?t, a) = until_gated (Suc (Suc (Suc (Suc 0)))) ?now (?t2, ?a4)"
      unfolding s1 using a1 False by (simp add: attempt_step_def Let_def)
    moreover have "gateLogin svc token u ip ua w =
        (let (g, w') = gate_prefix svc u ?now (at_gate a1) (w\<lparr>lw_throttles := ?t2\<rparr>) in gate_all u ?now g w')"
      using svc False g h by (simp add: gateLogin_def healthy_exempt healthy_simps ex_def [symmetric] Let_def)
    ultimately show ?thesis
      using gate_prefix_alone [OF healthy_update [OF h] svc(2), of ?a4 u ?now ?t2 0] a1 by (simp add: a_def [symmetric])
  qed
qed

lemma outcome_alone:
  assumes "healthy w" "lockStore svc" "\<not> delayOnlyPrefix svc" "at_pc a = Compare" "at_user a = u" "lg_scope (at_gate a) = lg_scope g"
    "lg_ipN (at_gate a) = lg_ipN g" "lg_allN (at_gate a) = lg_allN g" "lg_exempt (at_gate a) = lg_exempt g"
  shows "w\<lparr>lw_throttles := fst (solo 4 (w_now w) (lw_throttles w, a))\<rparr> =
    (if at_right a then loginSucceeded svc u g w else loginFailed svc u g w)"
  using assms
  by (simp add: numeral_nat attempt_step_def Let_def loginSucceeded_def loginFailed_def healthy_simps lockPrefix_def lockAll_def)

end
