(* ===== verification/Auth_Model.thy ===== *)
theory Auth_Model
  imports Login_Lock
begin

text \<open>
  Accounts and their sessions (\<^verbatim>\<open>internal/auth\<close>: \<^verbatim>\<open>service.go\<close>, \<^verbatim>\<open>mfa.go\<close>, \<^verbatim>\<open>sessionauth.go\<close>,
  \<^verbatim>\<open>passwordchange.go\<close>, \<^verbatim>\<open>reset.go\<close>, \<^verbatim>\<open>stepup.go\<close>, \<^verbatim>\<open>account.go\<close>, \<^verbatim>\<open>jwt.go\<close>) with the statements
  of their tables: password login behind the backoff gate and the second factor, refresh tokens with
  rotation and reuse detection, access tokens bound to a session, password change and reset, TOTP
  enrolment, challenge and removal, step-up assertions.

  bcrypt, SHA-256, the TOTP code generator, the JWT library, the secret cipher and the UUID parser are
  parameters of the service. Random draws and the ids the database generates come from two lists of
  the world; a draw can fail. The mailer's messages go to the outbox.
\<close>

section \<open>Tables\<close>

record User =
  us_id :: string
  us_username :: string
  us_email :: string
  us_password_hash :: string
  us_role :: string
  us_email_verified :: bool
  us_is_active :: bool
  us_deleted :: bool
  us_pending_verification :: bool

record Session =
  se_id :: string
  se_user :: string
  se_refresh_hash :: string
  se_agent :: string
  se_revoked_at :: "int option"
  se_revoked_reason :: string
  se_expires :: int

record UserMfa =
  mf_secret :: string
  mf_enabled :: bool
  mf_last_step :: "int option"

record RecoveryCode =
  rc_user :: string
  rc_hash :: string
  rc_used_at :: "int option"

record ResetToken =
  rt_id :: nat
  rt_user :: string
  rt_hash :: string
  rt_expires :: int
  rt_used_at :: "int option"

record StepUpToken =
  su_user :: string
  su_session :: string
  su_provider :: string
  su_hash :: string
  su_expires :: int
  su_used_at :: "int option"

record auth_world = lock_world +
  au_users :: "User list"
  au_sessions :: "Session list"
  au_mfa :: "string \<rightharpoonup> UserMfa"
  au_codes :: "RecoveryCode list"
  au_resets :: "ResetToken list"
  au_stepups :: "StepUpToken list"
  au_ids :: "string list"
  au_random :: "string option list"

record Claims =
  cl_Role :: string
  cl_SessionID :: string
  cl_Subject :: string
  cl_Issuer :: string
  cl_Audience :: string
  cl_IssuedAt :: int
  cl_NotBefore :: int
  cl_ExpiresAt :: int

record TokenIssuer =
  ti_secret :: string
  ti_issuer :: string
  ti_audience :: string
  ti_ttl :: int

text \<open>The envelope cipher: the AEAD (nonce, text) and the base64 codec are its parameters.\<close>

record Cipher =
  aead_Seal :: "string \<Rightarrow> string \<Rightarrow> string"
  aead_Open :: "string \<Rightarrow> string \<Rightarrow> string option"
  NonceSize :: nat
  b64_Encode :: "string \<Rightarrow> string"
  b64_Decode :: "string \<Rightarrow> string option"

record auth_Service = lock_Service +
  as_issuer :: TokenIssuer
  refreshTTL :: int
  resetTTL :: int
  verificationGate :: bool
  mfaRepo :: bool
  mfaCipher :: "Cipher option"
  mfaIssuerName :: string
  CompareHashAndPassword :: "string \<Rightarrow> string \<Rightarrow> bool"
  GenerateFromPassword :: "string \<Rightarrow> string option"
  SignedString :: "string \<Rightarrow> Claims \<Rightarrow> string option"
  ParseWithClaims :: "string \<Rightarrow> string \<Rightarrow> string \<Rightarrow> int \<Rightarrow> string \<Rightarrow> Claims option"
  uuidParse :: "string \<Rightarrow> string option"
  GenerateCodeCustom :: "string \<Rightarrow> int \<Rightarrow> string option"
  totpGenerate :: "string \<Rightarrow> string \<Rightarrow> string \<Rightarrow> (string \<times> string) option"

datatype auth_error =
    ErrInvalidCredentials | ErrAccountDisabled | ErrInvalidRefresh | ErrInvalidPassword
  | ErrEmailVerificationRequired | ErrSessionRevoked | ErrSessionLookupUnavailable | ErrPasswordNotSet
  | ErrPasswordAlreadySet | ErrStepUpRequired | ErrAccountNotFound
  | ErrMFAUnavailable | ErrMFAAlreadyEnabled | ErrMFANotEnrolled | ErrMFANotEnabled
  | ErrInvalidMFACode | ErrInvalidMFAToken | ErrMFASecretUndecryptable string
  | ErrInvalidResetToken | ErrRandom | ErrGenerate | ErrHash | ErrSign | ErrStore db_error

type_synonym ('z, 'a) auth_op = "('z auth_world_scheme, auth_error, 'a) op"

section \<open>Statements\<close>

definition a_db :: "('z auth_world_scheme \<Rightarrow> 'a \<times> 'z auth_world_scheme) \<Rightarrow> ('z, 'a) auth_op" where
  "a_db q = catchE (repo q) (\<lambda>e. throwE (ErrStore e)) retE"

definition a_dbE :: "('z auth_world_scheme \<Rightarrow> (db_error + 'a) \<times> 'z auth_world_scheme) \<Rightarrow> ('z, 'a) auth_op" where
  "a_dbE q = catchE (repoE q) (\<lambda>e. throwE (ErrStore e)) retE"

text \<open>A lookup: no row is \<open>None\<close>, which the callers treat as an error of their own.\<close>

definition a_row :: "auth_error \<Rightarrow> ('z auth_world_scheme \<Rightarrow> 'a option) \<Rightarrow> ('z, 'a) auth_op" where
  "a_row e q = catchE (repo (\<lambda>w. (q w, w))) (\<lambda>_. throwE e)
     (\<lambda>r. case r of None \<Rightarrow> throwE e | Some a \<Rightarrow> retE a)"

definition GetUserByID :: "string \<Rightarrow> 'z auth_world_scheme \<Rightarrow> User option" where
  "GetUserByID i w = find (\<lambda>u. us_id u = i) (au_users w)"

definition GetUserByEmail :: "string \<Rightarrow> 'z auth_world_scheme \<Rightarrow> User option" where
  "GetUserByEmail e w = find (\<lambda>u. ToLower (us_email u) = ToLower e) (au_users w)"

definition GetUserByLoginIdentifier :: "string \<Rightarrow> 'z auth_world_scheme \<Rightarrow> User option" where
  "GetUserByLoginIdentifier x w =
    (case find (\<lambda>u. ToLower (us_email u) = ToLower x) (au_users w) of
       Some u \<Rightarrow> Some u
     | None \<Rightarrow> find (\<lambda>u. ToLower (us_username u) = ToLower x) (au_users w))"

definition UpdateUserPassword :: "string \<Rightarrow> string \<Rightarrow> 'z auth_world_scheme \<Rightarrow> unit \<times> 'z auth_world_scheme" where
  "UpdateUserPassword i h w = ((), w\<lparr>au_users := map (\<lambda>u. if us_id u = i then u\<lparr>us_password_hash := h\<rparr> else u) (au_users w)\<rparr>)"

definition DeactivateUser :: "string \<Rightarrow> 'z auth_world_scheme \<Rightarrow> unit \<times> 'z auth_world_scheme" where
  "DeactivateUser i w = ((), w\<lparr>au_users := map (\<lambda>u. if us_id u = i then u\<lparr>us_is_active := False\<rparr> else u) (au_users w)\<rparr>)"

text \<open>The primary key and the unique index on the refresh hash.\<close>

definition auth_CreateSession ::
  "string \<Rightarrow> string \<Rightarrow> string \<Rightarrow> int \<Rightarrow> 'z auth_world_scheme \<Rightarrow> (db_error + Session) \<times> 'z auth_world_scheme" where
  "auth_CreateSession u h ua expires w = (case au_ids w of
      [] \<Rightarrow> (Inl ErrDB, w)
    | i # is \<Rightarrow>
        if list_ex (\<lambda>s. se_id s = i \<or> se_refresh_hash s = h) (au_sessions w) then (Inl ErrDB, w\<lparr>au_ids := is\<rparr>)
        else let s = \<lparr>se_id = i, se_user = u, se_refresh_hash = h, se_agent = ua, se_revoked_at = None,
                      se_revoked_reason = [], se_expires = expires\<rparr>
          in (Inr s, w\<lparr>au_ids := is, au_sessions := au_sessions w @ [s]\<rparr>))"

definition GetSessionByRefreshHash :: "string \<Rightarrow> 'z auth_world_scheme \<Rightarrow> Session option" where
  "GetSessionByRefreshHash h w = find (\<lambda>s. se_refresh_hash s = h) (au_sessions w)"

definition revoke_where ::
  "(Session \<Rightarrow> bool) \<Rightarrow> string \<Rightarrow> 'z auth_world_scheme \<Rightarrow> unit \<times> 'z auth_world_scheme" where
  "revoke_where P reason w = ((), w\<lparr>au_sessions := map (\<lambda>s. if P s \<and> se_revoked_at s = None
     then s\<lparr>se_revoked_at := Some (w_now w), se_revoked_reason := reason\<rparr> else s) (au_sessions w)\<rparr>)"

definition RevokeSession :: "string \<Rightarrow> 'z auth_world_scheme \<Rightarrow> unit \<times> 'z auth_world_scheme" where
  "RevokeSession i = revoke_where (\<lambda>s. se_id s = i) ''signed_out''"

definition RotateSession :: "string \<Rightarrow> 'z auth_world_scheme \<Rightarrow> unit \<times> 'z auth_world_scheme" where
  "RotateSession i = revoke_where (\<lambda>s. se_id s = i) ''rotated''"

definition RevokeAllUserSessions :: "string \<Rightarrow> 'z auth_world_scheme \<Rightarrow> unit \<times> 'z auth_world_scheme" where
  "RevokeAllUserSessions u = revoke_where (\<lambda>s. se_user s = u) ''signed_out''"

definition RevokeOtherUserSessions :: "string \<Rightarrow> string \<Rightarrow> 'z auth_world_scheme \<Rightarrow> unit \<times> 'z auth_world_scheme" where
  "RevokeOtherUserSessions u i = revoke_where (\<lambda>s. se_user s = u \<and> se_id s \<noteq> i) ''signed_out''"

definition live_session :: "int \<Rightarrow> Session \<Rightarrow> bool" where
  "live_session now s \<longleftrightarrow> se_revoked_at s = None \<and> now < se_expires s"

definition GetActiveSessionForAccessToken :: "string \<Rightarrow> 'z auth_world_scheme \<Rightarrow> (string \<times> string) option" where
  "GetActiveSessionForAccessToken i w =
    (case find (\<lambda>s. se_id s = i) (au_sessions w) of
       None \<Rightarrow> None
     | Some s \<Rightarrow> (case find (\<lambda>u. us_id u = se_user s) (au_users w) of
          None \<Rightarrow> None
        | Some u \<Rightarrow> if live_session (w_now w) s \<and> us_is_active u \<and> \<not> us_deleted u
                   then Some (se_user s, us_role u) else None))"

definition UpsertUserMFA :: "string \<Rightarrow> string \<Rightarrow> 'z auth_world_scheme \<Rightarrow> (db_error + unit) \<times> 'z auth_world_scheme" where
  "UpsertUserMFA u secret w = (case au_mfa w u of
      Some r \<Rightarrow> if mf_enabled r then (Inl ErrDB, w)
        else (Inr (), w\<lparr>au_mfa := (au_mfa w)(u \<mapsto> r\<lparr>mf_secret := secret, mf_last_step := None\<rparr>)\<rparr>)
    | None \<Rightarrow> (Inr (), w\<lparr>au_mfa := (au_mfa w)(u \<mapsto> \<lparr>mf_secret = secret, mf_enabled = False, mf_last_step = None\<rparr>)\<rparr>))"

definition GetUserMFA :: "string \<Rightarrow> 'z auth_world_scheme \<Rightarrow> UserMfa option" where
  "GetUserMFA u w = au_mfa w u"

text \<open>Statements that answer with the number of rows they changed.\<close>

definition EnableUserMFA :: "string \<Rightarrow> 'z auth_world_scheme \<Rightarrow> nat \<times> 'z auth_world_scheme" where
  "EnableUserMFA u w = (case au_mfa w u of
      Some r \<Rightarrow> if mf_enabled r then (0, w) else (1, w\<lparr>au_mfa := (au_mfa w)(u \<mapsto> r\<lparr>mf_enabled := True\<rparr>)\<rparr>)
    | None \<Rightarrow> (0, w))"

definition DeleteUserMFA :: "string \<Rightarrow> 'z auth_world_scheme \<Rightarrow> nat \<times> 'z auth_world_scheme" where
  "DeleteUserMFA u w = (if au_mfa w u = None then 0 else 1, w\<lparr>au_mfa := (au_mfa w)(u := None)\<rparr>)"

definition newer_step :: "int \<Rightarrow> UserMfa \<Rightarrow> bool" where
  "newer_step step r = (case mf_last_step r of None \<Rightarrow> True | Some l \<Rightarrow> l < step)"

definition BurnTOTPStep :: "string \<Rightarrow> int \<Rightarrow> 'z auth_world_scheme \<Rightarrow> nat \<times> 'z auth_world_scheme" where
  "BurnTOTPStep u step w = (case au_mfa w u of
      Some r \<Rightarrow> if mf_enabled r \<and> newer_step step r
        then (1, w\<lparr>au_mfa := (au_mfa w)(u \<mapsto> r\<lparr>mf_last_step := Some step\<rparr>)\<rparr>) else (0, w)
    | None \<Rightarrow> (0, w))"

definition BurnPendingTOTPStep :: "string \<Rightarrow> int \<Rightarrow> 'z auth_world_scheme \<Rightarrow> nat \<times> 'z auth_world_scheme" where
  "BurnPendingTOTPStep u step w = (case au_mfa w u of
      Some r \<Rightarrow> if newer_step step r
        then (1, w\<lparr>au_mfa := (au_mfa w)(u \<mapsto> r\<lparr>mf_last_step := Some step\<rparr>)\<rparr>) else (0, w)
    | None \<Rightarrow> (0, w))"

definition CreateRecoveryCode :: "string \<Rightarrow> string \<Rightarrow> 'z auth_world_scheme \<Rightarrow> unit \<times> 'z auth_world_scheme" where
  "CreateRecoveryCode u h w = ((), w\<lparr>au_codes := au_codes w @ [\<lparr>rc_user = u, rc_hash = h, rc_used_at = None\<rparr>]\<rparr>)"

definition DeleteRecoveryCodes :: "string \<Rightarrow> 'z auth_world_scheme \<Rightarrow> unit \<times> 'z auth_world_scheme" where
  "DeleteRecoveryCodes u w = ((), w\<lparr>au_codes := filter (\<lambda>c. rc_user c \<noteq> u) (au_codes w)\<rparr>)"

definition open_code :: "string \<Rightarrow> string \<Rightarrow> RecoveryCode \<Rightarrow> bool" where
  "open_code u h c \<longleftrightarrow> rc_user c = u \<and> rc_hash c = h \<and> rc_used_at c = None"

definition UseRecoveryCode :: "string \<Rightarrow> string \<Rightarrow> 'z auth_world_scheme \<Rightarrow> nat \<times> 'z auth_world_scheme" where
  "UseRecoveryCode u h w = (length (filter (open_code u h) (au_codes w)),
     w\<lparr>au_codes := map (\<lambda>c. if open_code u h c then c\<lparr>rc_used_at := Some (w_now w)\<rparr> else c) (au_codes w)\<rparr>)"

definition CountUnusedRecoveryCodes :: "string \<Rightarrow> 'z auth_world_scheme \<Rightarrow> nat \<times> 'z auth_world_scheme" where
  "CountUnusedRecoveryCodes u w = (length (filter (\<lambda>c. rc_user c = u \<and> rc_used_at c = None) (au_codes w)), w)"

definition CreatePasswordResetToken ::
  "string \<Rightarrow> string \<Rightarrow> int \<Rightarrow> 'z auth_world_scheme \<Rightarrow> unit \<times> 'z auth_world_scheme" where
  "CreatePasswordResetToken u h expires w = ((), w\<lparr>au_resets := au_resets w @
     [\<lparr>rt_id = fresh_id (map rt_id (au_resets w)), rt_user = u, rt_hash = h, rt_expires = expires, rt_used_at = None\<rparr>]\<rparr>)"

definition GetPasswordResetToken :: "string \<Rightarrow> 'z auth_world_scheme \<Rightarrow> ResetToken option" where
  "GetPasswordResetToken h w = find (\<lambda>t. rt_hash t = h) (au_resets w)"

definition MarkPasswordResetTokenUsed :: "nat \<Rightarrow> 'z auth_world_scheme \<Rightarrow> unit \<times> 'z auth_world_scheme" where
  "MarkPasswordResetTokenUsed i w = ((), w\<lparr>au_resets := map (\<lambda>t. if rt_id t = i then t\<lparr>rt_used_at := Some (w_now w)\<rparr> else t) (au_resets w)\<rparr>)"

definition DeleteUnusedPasswordResetTokens :: "string \<Rightarrow> 'z auth_world_scheme \<Rightarrow> unit \<times> 'z auth_world_scheme" where
  "DeleteUnusedPasswordResetTokens u w =
    ((), w\<lparr>au_resets := filter (\<lambda>t. \<not> (rt_user t = u \<and> rt_used_at t = None)) (au_resets w)\<rparr>)"

definition CreateStepUpToken ::
  "string \<Rightarrow> string \<Rightarrow> string \<Rightarrow> string \<Rightarrow> int \<Rightarrow> 'z auth_world_scheme \<Rightarrow> unit \<times> 'z auth_world_scheme" where
  "CreateStepUpToken u sid provider h expires w = ((), w\<lparr>au_stepups := au_stepups w @
     [\<lparr>su_user = u, su_session = sid, su_provider = provider, su_hash = h, su_expires = expires, su_used_at = None\<rparr>]\<rparr>)"

definition spendable :: "int \<Rightarrow> string \<Rightarrow> string \<Rightarrow> string \<Rightarrow> StepUpToken \<Rightarrow> bool" where
  "spendable now h u sid t \<longleftrightarrow> su_hash t = h \<and> su_user t = u \<and> su_session t = sid \<and> su_used_at t = None \<and> now < su_expires t"

definition ConsumeStepUpToken ::
  "string \<Rightarrow> string \<Rightarrow> string \<Rightarrow> 'z auth_world_scheme \<Rightarrow> string option \<times> 'z auth_world_scheme" where
  "ConsumeStepUpToken h u sid w = (map_option su_provider (find (spendable (w_now w) h u sid) (au_stepups w)),
     w\<lparr>au_stepups := map (\<lambda>t. if spendable (w_now w) h u sid t then t\<lparr>su_used_at := Some (w_now w)\<rparr> else t) (au_stepups w)\<rparr>)"

definition DeleteUnusedStepUpTokensForSession :: "string \<Rightarrow> 'z auth_world_scheme \<Rightarrow> unit \<times> 'z auth_world_scheme" where
  "DeleteUnusedStepUpTokensForSession sid w =
    ((), w\<lparr>au_stepups := filter (\<lambda>t. \<not> (su_session t = sid \<and> su_used_at t = None)) (au_stepups w)\<rparr>)"

definition DeleteExpiredStepUpTokens :: "'z auth_world_scheme \<Rightarrow> unit \<times> 'z auth_world_scheme" where
  "DeleteExpiredStepUpTokens w = ((), w\<lparr>au_stepups := filter (\<lambda>t. \<not> su_expires t < w_now w) (au_stepups w)\<rparr>)"

definition MoveStepUpTokensToSession :: "string \<Rightarrow> string \<Rightarrow> 'z auth_world_scheme \<Rightarrow> unit \<times> 'z auth_world_scheme" where
  "MoveStepUpTokensToSession from' to' w = ((), w\<lparr>au_stepups := map (\<lambda>t.
     if su_session t = from' \<and> su_used_at t = None \<and> w_now w < su_expires t then t\<lparr>su_session := to'\<rparr> else t) (au_stepups w)\<rparr>)"

section \<open>Tokens\<close>

definition draw :: "('z, string) auth_op" where
  "draw w = (case au_random w of
      Some r # rs \<Rightarrow> (Inr r, w\<lparr>au_random := rs\<rparr>)
    | None # rs \<Rightarrow> (Inl ErrRandom, w\<lparr>au_random := rs\<rparr>)
    | [] \<Rightarrow> (Inl ErrRandom, w))"

definition CheckPassword :: "('y) auth_Service_scheme \<Rightarrow> string \<Rightarrow> string \<Rightarrow> bool" where
  "CheckPassword svc h plain = CompareHashAndPassword svc h plain"

definition HashPassword :: "('y) auth_Service_scheme \<Rightarrow> string \<Rightarrow> ('z, string) auth_op" where
  "HashPassword svc plain = (case GenerateFromPassword svc plain of None \<Rightarrow> throwE ErrHash | Some h \<Rightarrow> retE h)"

definition IssueForSession ::
  "('y) auth_Service_scheme \<Rightarrow> TokenIssuer \<Rightarrow> string \<Rightarrow> string \<Rightarrow> string \<Rightarrow> ('z, string) auth_op" where
  "IssueForSession svc ti u role sid w =
    (case SignedString svc (ti_secret ti) \<lparr>cl_Role = role, cl_SessionID = sid, cl_Subject = u, cl_Issuer = ti_issuer ti,
        cl_Audience = ti_audience ti, cl_IssuedAt = w_now w, cl_NotBefore = w_now w, cl_ExpiresAt = w_now w + ti_ttl ti\<rparr> of
       None \<Rightarrow> (Inl ErrSign, w) | Some tok \<Rightarrow> (Inr tok, w))"

definition Issue :: "('y) auth_Service_scheme \<Rightarrow> TokenIssuer \<Rightarrow> string \<Rightarrow> string \<Rightarrow> ('z, string) auth_op" where
  "Issue svc ti u role = IssueForSession svc ti u role []"

definition Parse_token :: "('y) auth_Service_scheme \<Rightarrow> TokenIssuer \<Rightarrow> int \<Rightarrow> string \<Rightarrow> Claims option" where
  "Parse_token svc ti now tok = ParseWithClaims svc (ti_secret ti) (ti_issuer ti) (ti_audience ti) now tok"

definition mfaTokenTTL :: int where "mfaTokenTTL = 5 * Minute"
definition mfaAudienceSuffix :: string where "mfaAudienceSuffix = '':mfa''"
definition recoveryCodeCount :: nat where "recoveryCodeCount = 10"

definition forMFA :: "TokenIssuer \<Rightarrow> TokenIssuer" where
  "forMFA ti = ti\<lparr>ti_audience := ti_audience ti @ mfaAudienceSuffix, ti_ttl := mfaTokenTTL\<rparr>"

section \<open>Sessions\<close>

record Tokens =
  tk_access :: string
  tk_refresh :: string

definition UserByID :: "string \<Rightarrow> ('z, User) auth_op" where
  "UserByID i = bindE (a_row ErrAccountNotFound (GetUserByID i)) (\<lambda>u.
     if \<not> us_is_active u then throwE ErrAccountNotFound else retE u)"

definition issueTokensForSession ::
  "('y) auth_Service_scheme \<Rightarrow> User \<Rightarrow> string \<Rightarrow> ('z, Tokens \<times> string) auth_op" where
  "issueTokensForSession svc user ua =
    bindE draw (\<lambda>raw. \<lambda>w.
    bindE (a_dbE (auth_CreateSession (us_id user) (sha256 svc raw) ua (w_now w + refreshTTL svc))) (\<lambda>sess.
    bindE (IssueForSession svc (as_issuer svc) (us_id user) (us_role user) (se_id sess)) (\<lambda>access.
    retE (\<lparr>tk_access = access, tk_refresh = raw\<rparr>, se_id sess))) w)"

definition issueTokens :: "('y) auth_Service_scheme \<Rightarrow> User \<Rightarrow> string \<Rightarrow> ('z, Tokens) auth_op" where
  "issueTokens svc user ua = bindE (issueTokensForSession svc user ua) (\<lambda>(tokens, _). retE tokens)"

text \<open>\<open>mfaEnabled\<close>: not wired, no row and a failed lookup all answer no.\<close>

definition mfaEnabled :: "('y) auth_Service_scheme \<Rightarrow> string \<Rightarrow> 'z auth_world_scheme \<Rightarrow> bool \<times> 'z auth_world_scheme" where
  "mfaEnabled svc u w =
    (if \<not> mfaRepo svc then (False, w)
     else case tryE (repo (\<lambda>w. (GetUserMFA u w, w))) w of
        (Some (Some r), w1) \<Rightarrow> (mf_enabled r, w1)
      | (_, w1) \<Rightarrow> (False, w1))"

record LoginInput =
  li_Email :: string
  li_Identifier :: string
  li_Password :: string
  li_ClientIP :: string

definition loginIdentifier :: "LoginInput \<Rightarrow> string" where
  "loginIdentifier li = (let s = TrimSpace (li_Identifier li) in if s \<noteq> [] then s else TrimSpace (li_Email li))"

datatype LoginResult = Signed_in User Tokens | MFARequired User string

text \<open>The tail that password and provider sign-ins share: a session, or a challenge token.\<close>

definition session_or_challenge ::
  "('y) auth_Service_scheme \<Rightarrow> User \<Rightarrow> string \<Rightarrow> ('z, LoginResult) auth_op" where
  "session_or_challenge svc user ua w =
    (let (enabled, w1) = mfaEnabled svc (us_id user) w in
     if enabled then bindE (Issue svc (forMFA (as_issuer svc)) (us_id user) (us_role user)) (\<lambda>t. retE (MFARequired user t)) w1
     else bindE (issueTokens svc user ua) (\<lambda>t. retE (Signed_in user t)) w1)"

definition note_session ::
  "('y) auth_Service_scheme \<Rightarrow> string \<Rightarrow> string \<Rightarrow> LoginResult \<Rightarrow> 'z auth_world_scheme \<Rightarrow> 'z auth_world_scheme" where
  "note_session svc token ua r w = (case r of
      Signed_in u _ \<Rightarrow> noteSignIn svc token (us_id u) (us_email u) ua w
    | MFARequired _ _ \<Rightarrow> w)"

definition Login :: "('y) auth_Service_scheme \<Rightarrow> string \<Rightarrow> LoginInput \<Rightarrow> string \<Rightarrow> ('z, LoginResult) auth_op" where
  "Login svc token li ua = bindE (a_row ErrInvalidCredentials (GetUserByLoginIdentifier (loginIdentifier li))) (\<lambda>user. \<lambda>w.
     let (gate, w1) = gateLogin svc token (us_id user) (li_ClientIP li) ua w in
     if lg_refuse gate then (Inl ErrInvalidCredentials, w1)
     else if \<not> CheckPassword svc (us_password_hash user) (li_Password li)
       then (Inl ErrInvalidCredentials, loginFailed svc (us_id user) gate w1)
     else let w2 = loginSucceeded svc (us_id user) gate w1 in
       if \<not> us_is_active user then (Inl ErrAccountDisabled, w2)
       else if us_pending_verification user \<and> \<not> us_email_verified user \<and> verificationGate svc
         then (Inl ErrEmailVerificationRequired, w2)
       else bindE (session_or_challenge svc user ua) (\<lambda>r. \<lambda>w. (Inr r, note_session svc token ua r w)) w2)"

definition providerSession :: "('y) auth_Service_scheme \<Rightarrow> User \<Rightarrow> string \<Rightarrow> ('z, LoginResult) auth_op" where
  "providerSession svc user ua = session_or_challenge svc user ua"

definition SessionAccount :: "('y) auth_Service_scheme \<Rightarrow> string \<Rightarrow> 'z auth_world_scheme \<Rightarrow> (User \<times> string) option \<times> 'z auth_world_scheme" where
  "SessionAccount svc raw w =
    (if raw = [] then (None, w)
     else case a_row ErrInvalidRefresh (GetSessionByRefreshHash (sha256 svc raw)) w of
        (Inl _, w1) \<Rightarrow> (None, w1)
      | (Inr s, w1) \<Rightarrow>
          if \<not> live_session (w_now w1) s then (None, w1)
          else (case UserByID (se_user s) w1 of
             (Inl _, w2) \<Rightarrow> (None, w2)
           | (Inr u, w2) \<Rightarrow> if \<not> us_is_active u then (None, w2) else (Some (u, se_id s), w2)))"

definition sessionRevokedRotated :: string where "sessionRevokedRotated = ''rotated''"

text \<open>\<open>Refresh\<close>, in its two halves: what is read before the session is rotated, and the rest.\<close>

definition Refresh_read :: "('y) auth_Service_scheme \<Rightarrow> string \<Rightarrow> ('z, Session \<times> User) auth_op" where
  "Refresh_read svc raw = bindE (a_row ErrInvalidRefresh (GetSessionByRefreshHash (sha256 svc raw))) (\<lambda>s. \<lambda>w.
     if se_revoked_at s \<noteq> None then
       (Inl ErrInvalidRefresh,
        if se_revoked_reason s = sessionRevokedRotated \<or> se_revoked_reason s = []
        then ignoreE (a_db (RevokeAllUserSessions (se_user s))) w else w)
     else if \<not> w_now w < se_expires s then (Inl ErrInvalidRefresh, w)
     else catchE (UserByID (se_user s)) (\<lambda>_. throwE ErrInvalidRefresh) (\<lambda>u. retE (s, u)) w)"

definition Refresh_write :: "('y) auth_Service_scheme \<Rightarrow> Session \<times> User \<Rightarrow> string \<Rightarrow> ('z, User \<times> Tokens) auth_op" where
  "Refresh_write svc su ua = (let (s, user) = su in
     bindE (a_db (RotateSession (se_id s))) (\<lambda>_.
     bindE (issueTokensForSession svc user ua) (\<lambda>(tokens, sid). \<lambda>w.
       (Inr (user, tokens), ignoreE (a_db (MoveStepUpTokensToSession (se_id s) sid)) w))))"

definition auth_Refresh :: "('y) auth_Service_scheme \<Rightarrow> string \<Rightarrow> string \<Rightarrow> ('z, User \<times> Tokens) auth_op" where
  "auth_Refresh svc raw ua = bindE (Refresh_read svc raw) (\<lambda>su. Refresh_write svc su ua)"

definition Logout :: "('y) auth_Service_scheme \<Rightarrow> string \<Rightarrow> ('z, unit) auth_op" where
  "Logout svc raw = catchE (a_row ErrInvalidRefresh (GetSessionByRefreshHash (sha256 svc raw))) (\<lambda>_. retE ())
     (\<lambda>s. a_db (RevokeSession (se_id s)))"

definition LogoutAll :: "string \<Rightarrow> ('z, unit) auth_op" where
  "LogoutAll u = a_db (RevokeAllUserSessions u)"

record Principal =
  pr_UserID :: string
  pr_Role :: string

definition AuthenticateAccessToken :: "('y) auth_Service_scheme \<Rightarrow> Claims option \<Rightarrow> ('z, Principal) auth_op" where
  "AuthenticateAccessToken svc claims = (case claims of
      None \<Rightarrow> throwE ErrSessionRevoked
    | Some c \<Rightarrow> (case uuidParse svc (cl_Subject c) of
        None \<Rightarrow> throwE ErrSessionRevoked
      | Some u \<Rightarrow> (case uuidParse svc (cl_SessionID c) of
          None \<Rightarrow> throwE ErrSessionRevoked
        | Some sid \<Rightarrow> catchE (repo (\<lambda>w. (GetActiveSessionForAccessToken sid w, w)))
            (\<lambda>_. throwE ErrSessionLookupUnavailable)
            (\<lambda>r. case r of
                None \<Rightarrow> throwE ErrSessionRevoked
              | Some (v, role) \<Rightarrow> if v \<noteq> u then throwE ErrSessionRevoked
                  else retE \<lparr>pr_UserID = u, pr_Role = role\<rparr>))))"

section \<open>Passwords\<close>

definition mail_to :: "string \<Rightarrow> string \<Rightarrow> 'z auth_world_scheme \<Rightarrow> 'z auth_world_scheme" where
  "mail_to email what w = w\<lparr>dw_outbox := dw_outbox w @ [(email, what)]\<rparr>"

text \<open>Both removal of a second factor and a new password revoke the other sessions, best effort.\<close>

definition revoke_others :: "('y) auth_Service_scheme \<Rightarrow> string \<Rightarrow> string \<Rightarrow> 'z auth_world_scheme \<Rightarrow> 'z auth_world_scheme" where
  "revoke_others svc u keep w = (case uuidParse svc keep of
      Some sid \<Rightarrow> ignoreE (a_db (RevokeOtherUserSessions u sid)) w
    | None \<Rightarrow> ignoreE (a_db (RevokeAllUserSessions u)) w)"

definition afterPasswordWritten ::
  "('y) auth_Service_scheme \<Rightarrow> User \<Rightarrow> string \<Rightarrow> 'z auth_world_scheme \<Rightarrow> 'z auth_world_scheme" where
  "afterPasswordWritten svc user current w = mail_to (us_email user) ''password changed'' (revoke_others svc (us_id user) current w)"

definition ChangePassword ::
  "('y) auth_Service_scheme \<Rightarrow> string \<Rightarrow> string \<Rightarrow> string \<Rightarrow> string \<Rightarrow> ('z, unit) auth_op" where
  "ChangePassword svc u old new current = bindE (UserByID u) (\<lambda>user.
     if us_password_hash user = [] then throwE ErrPasswordNotSet
     else if \<not> CheckPassword svc (us_password_hash user) old then throwE ErrInvalidPassword
     else bindE (HashPassword svc new) (\<lambda>h.
       bindE (a_db (UpdateUserPassword (us_id user) h)) (\<lambda>_. \<lambda>w.
       (Inr (), afterPasswordWritten svc user current w))))"

definition ConsumeStepUp :: "('y) auth_Service_scheme \<Rightarrow> string \<Rightarrow> string \<Rightarrow> string \<Rightarrow> ('z, string) auth_op" where
  "ConsumeStepUp svc u current raw =
    (if TrimSpace raw = [] then throwE ErrStepUpRequired
     else case uuidParse svc current of
        None \<Rightarrow> throwE ErrStepUpRequired
      | Some sid \<Rightarrow> catchE (a_db (ConsumeStepUpToken (sha256 svc raw) u sid)) (\<lambda>_. throwE ErrStepUpRequired)
          (\<lambda>r. case r of None \<Rightarrow> throwE ErrStepUpRequired | Some provider \<Rightarrow> retE provider))"

definition stepUpTTL :: int where "stepUpTTL = 10 * Minute"

definition IssueStepUp :: "('y) auth_Service_scheme \<Rightarrow> string \<Rightarrow> string \<Rightarrow> string \<Rightarrow> ('z, string \<times> int) auth_op" where
  "IssueStepUp svc u sid provider =
    bindE draw (\<lambda>raw.
    bindE (a_db (DeleteUnusedStepUpTokensForSession sid)) (\<lambda>_. \<lambda>w.
      let w1 = ignoreE (a_db DeleteExpiredStepUpTokens) w; expires = w_now w1 + stepUpTTL in
      bindE (a_db (CreateStepUpToken u sid provider (sha256 svc raw) expires)) (\<lambda>_. retE (raw, expires)) w1))"

definition SetPassword ::
  "('y) auth_Service_scheme \<Rightarrow> string \<Rightarrow> string \<Rightarrow> string \<Rightarrow> string \<Rightarrow> ('z, unit) auth_op" where
  "SetPassword svc u new stepUp current = bindE (UserByID u) (\<lambda>user.
     if us_password_hash user \<noteq> [] then throwE ErrPasswordAlreadySet
     else bindE (ConsumeStepUp svc (us_id user) current stepUp) (\<lambda>_.
       bindE (HashPassword svc new) (\<lambda>h.
       bindE (a_db (UpdateUserPassword (us_id user) h)) (\<lambda>_. \<lambda>w.
       (Inr (), afterPasswordWritten svc user current w)))))"

definition ConfirmPassword :: "('y) auth_Service_scheme \<Rightarrow> string \<Rightarrow> string \<Rightarrow> ('z, unit) auth_op" where
  "ConfirmPassword svc u password = bindE (UserByID u) (\<lambda>user.
     if \<not> CheckPassword svc (us_password_hash user) password then throwE ErrInvalidPassword else retE ())"

definition ConfirmFreshCredential ::
  "('y) auth_Service_scheme \<Rightarrow> string \<Rightarrow> string \<Rightarrow> string \<Rightarrow> string \<Rightarrow> ('z, unit) auth_op" where
  "ConfirmFreshCredential svc u password current stepUp = bindE (UserByID u) (\<lambda>user.
     if TrimSpace stepUp \<noteq> [] then
       (if us_password_hash user \<noteq> [] then throwE ErrPasswordAlreadySet
        else bindE (ConsumeStepUp svc (us_id user) current stepUp) (\<lambda>_. retE ()))
     else if us_password_hash user = [] then throwE ErrPasswordNotSet
     else if \<not> CheckPassword svc (us_password_hash user) password then throwE ErrInvalidPassword
     else retE ())"

definition DeactivateAccount :: "('y) auth_Service_scheme \<Rightarrow> string \<Rightarrow> string \<Rightarrow> ('z, unit) auth_op" where
  "DeactivateAccount svc u password =
    bindE (ConfirmPassword svc u password) (\<lambda>_.
    bindE (UserByID u) (\<lambda>user.
    bindE (a_db (DeactivateUser (us_id user))) (\<lambda>_. \<lambda>w.
      (Inr (), ignoreE (a_db (RevokeAllUserSessions (us_id user))) w))))"

text \<open>\<open>RequestPasswordReset\<close> hands the message to a mailer that takes it.\<close>

definition RequestPasswordReset :: "('y) auth_Service_scheme \<Rightarrow> string \<Rightarrow> ('z, unit) auth_op" where
  "RequestPasswordReset svc email = catchE (a_row ErrAccountNotFound (GetUserByEmail (TrimSpace email))) (\<lambda>_. retE ()) (\<lambda>user.
     if \<not> us_is_active user then retE ()
     else bindE draw (\<lambda>raw. \<lambda>w.
       let w1 = ignoreE (a_db (DeleteUnusedPasswordResetTokens (us_id user))) w in
       bindE (a_db (CreatePasswordResetToken (us_id user) (sha256 svc raw) (w_now w1 + resetTTL svc)))
         (\<lambda>_. \<lambda>w. (Inr (), mail_to (us_email user) raw w)) w1))"

definition ResetPassword :: "('y) auth_Service_scheme \<Rightarrow> string \<Rightarrow> string \<Rightarrow> ('z, unit) auth_op" where
  "ResetPassword svc raw new = bindE (a_row ErrInvalidResetToken (GetPasswordResetToken (sha256 svc raw))) (\<lambda>row. \<lambda>w.
     if rt_used_at row \<noteq> None \<or> \<not> w_now w < rt_expires row then (Inl ErrInvalidResetToken, w)
     else bindE (a_row ErrInvalidResetToken (GetUserByID (rt_user row))) (\<lambda>u.
       if \<not> us_is_active u then throwE ErrInvalidResetToken
       else bindE (HashPassword svc new) (\<lambda>h.
         bindE (a_db (UpdateUserPassword (rt_user row) h)) (\<lambda>_. \<lambda>w.
         let w1 = ignoreE (a_db (MarkPasswordResetTokenUsed (rt_id row))) w;
             w2 = ignoreE (a_db (RevokeAllUserSessions (rt_user row))) w1;
             w3 = (if lockStore svc then ignoreE (on_throttles (ClearLoginThrottles (rt_user row))) w2 else w2)
         in (Inr (), w3)))) w)"

section \<open>The second factor\<close>

definition EncPrefix :: string where "EncPrefix = ''enc:''"

definition IsSealed :: "string \<Rightarrow> bool" where
  "IsSealed stored = HasPrefix stored EncPrefix"

definition cipher_Seal :: "Cipher \<Rightarrow> string \<Rightarrow> ('z, string) auth_op" where
  "cipher_Seal c plaintext = bindE draw (\<lambda>nonce.
     retE (EncPrefix @ b64_Encode c (nonce @ aead_Seal c nonce plaintext)))"

definition cipher_Open :: "Cipher \<Rightarrow> string \<Rightarrow> string option" where
  "cipher_Open c stored =
    (if \<not> HasPrefix stored EncPrefix then None
     else case b64_Decode c (drop (length EncPrefix) stored) of
        None \<Rightarrow> None
      | Some raw \<Rightarrow> if length raw < NonceSize c then None
          else aead_Open c (take (NonceSize c) raw) (drop (NonceSize c) raw))"

definition sealTOTPSecret :: "('y) auth_Service_scheme \<Rightarrow> string \<Rightarrow> ('z, string) auth_op" where
  "sealTOTPSecret svc secret = (case mfaCipher svc of None \<Rightarrow> retE secret | Some c \<Rightarrow> cipher_Seal c secret)"

definition openTOTPSecret :: "('y) auth_Service_scheme \<Rightarrow> string \<Rightarrow> string \<Rightarrow> ('z, string) auth_op" where
  "openTOTPSecret svc u stored =
    (if \<not> IsSealed stored then retE stored
     else case mfaCipher svc of
        None \<Rightarrow> throwE (ErrMFASecretUndecryptable u)
      | Some c \<Rightarrow> (case cipher_Open c stored of
           None \<Rightarrow> throwE (ErrMFASecretUndecryptable u)
         | Some raw \<Rightarrow> retE raw))"

text \<open>The clock is past 1970, so rounding towards zero and towards minus infinity agree.\<close>

definition totp_Period :: int where "totp_Period = 30"

definition Unix :: "int \<Rightarrow> int" where
  "Unix t = t div Second"

text \<open>The code of a step, or a failure of the generator, which ends the search.\<close>

fun try_steps :: "('y) auth_Service_scheme \<Rightarrow> string \<Rightarrow> string \<Rightarrow> int list \<Rightarrow> int option" where
  "try_steps svc code secret [] = None"
| "try_steps svc code secret (step # steps) = (case GenerateCodeCustom svc secret (step * totp_Period) of
      None \<Rightarrow> None
    | Some want \<Rightarrow> if want = code then Some step else try_steps svc code secret steps)"

definition matchTOTPStep :: "('y) auth_Service_scheme \<Rightarrow> int \<Rightarrow> string \<Rightarrow> string \<Rightarrow> int option" where
  "matchTOTPStep svc now code secret =
    (let base = Unix now div totp_Period in try_steps svc (TrimSpace code) secret [base + 1, base, base - 1])"

definition looksLikeTOTPCode :: "string \<Rightarrow> bool" where
  "looksLikeTOTPCode code = (let c = TrimSpace code in length c = 6 \<and> list_all (byte_in CHR ''0'' CHR ''9'') c)"

text \<open>Five random bytes, drawn as their ten hex digits.\<close>

definition generateRecoveryCode :: "('z, string) auth_op" where
  "generateRecoveryCode = bindE draw (\<lambda>h. retE (take 5 h @ ''-'' @ drop 5 h))"

definition hashRecoveryCode :: "('y) auth_Service_scheme \<Rightarrow> string \<Rightarrow> string" where
  "hashRecoveryCode svc code = sha256 svc (ToLower (filter (\<lambda>c. c \<noteq> CHR ''-'') (TrimSpace code)))"

definition BeginTOTPEnrollmentAs ::
  "('y) auth_Service_scheme \<Rightarrow> string \<Rightarrow> string \<Rightarrow> ('z, string \<times> string) auth_op" where
  "BeginTOTPEnrollmentAs svc u issuer =
    (if \<not> mfaRepo svc then throwE ErrMFAUnavailable
     else bindE (UserByID u) (\<lambda>user. \<lambda>w.
       let (enabled, w1) = mfaEnabled svc u w in
       if enabled then (Inl ErrMFAAlreadyEnabled, w1)
       else bindE draw (\<lambda>raw.
         case totpGenerate svc (if issuer = [] then mfaIssuerName svc else issuer) (us_email user) raw of
           None \<Rightarrow> throwE ErrGenerate
         | Some (secret, url) \<Rightarrow>
             bindE (sealTOTPSecret svc secret) (\<lambda>stored.
             catchE (a_dbE (UpsertUserMFA u stored)) (\<lambda>_. throwE ErrMFAAlreadyEnabled) (\<lambda>_. retE (secret, url)))) w1))"

definition BeginTOTPEnrollment :: "('y) auth_Service_scheme \<Rightarrow> string \<Rightarrow> ('z, string \<times> string) auth_op" where
  "BeginTOTPEnrollment svc u = BeginTOTPEnrollmentAs svc u []"

fun issue_codes :: "('y) auth_Service_scheme \<Rightarrow> string \<Rightarrow> nat \<Rightarrow> ('z, string list) auth_op" where
  "issue_codes svc u 0 = retE []"
| "issue_codes svc u (Suc n) =
     bindE generateRecoveryCode (\<lambda>code.
     bindE (a_db (CreateRecoveryCode u (hashRecoveryCode svc code))) (\<lambda>_.
     bindE (issue_codes svc u n) (\<lambda>codes. retE (code # codes))))"

definition issueRecoveryCodes :: "('y) auth_Service_scheme \<Rightarrow> string \<Rightarrow> ('z, string list) auth_op" where
  "issueRecoveryCodes svc u = bindE (a_db (DeleteRecoveryCodes u)) (\<lambda>_. issue_codes svc u recoveryCodeCount)"

definition VerifyTOTPEnrollment :: "('y) auth_Service_scheme \<Rightarrow> string \<Rightarrow> string \<Rightarrow> ('z, string list) auth_op" where
  "VerifyTOTPEnrollment svc u code =
    (if \<not> mfaRepo svc then throwE ErrMFAUnavailable
     else bindE (a_row ErrMFANotEnrolled (GetUserMFA u)) (\<lambda>row.
       if mf_enabled row then throwE ErrMFAAlreadyEnabled
       else bindE (openTOTPSecret svc u (mf_secret row)) (\<lambda>secret. \<lambda>w.
         case matchTOTPStep svc (w_now w) code secret of
           None \<Rightarrow> (Inl ErrInvalidMFACode, w)
         | Some step \<Rightarrow>
             bindE (a_db (BurnPendingTOTPStep u step)) (\<lambda>burned.
               if burned = 0 then throwE ErrInvalidMFACode
               else bindE (a_db (EnableUserMFA u)) (\<lambda>n.
                 if n = 0 then throwE ErrMFANotEnrolled else issueRecoveryCodes svc u)) w)))"

definition afterTwoFactorRemoved ::
  "('y) auth_Service_scheme \<Rightarrow> User \<Rightarrow> string \<Rightarrow> bool \<Rightarrow> 'z auth_world_scheme \<Rightarrow> 'z auth_world_scheme" where
  "afterTwoFactorRemoved svc user keep byAdmin w =
    mail_to (us_email user) (if byAdmin then ''two-factor removed by an admin'' else ''two-factor removed'')
      (revoke_others svc (us_id user) keep w)"

text \<open>What both removals do after their own guards: the row, the codes, the sessions, the notice.\<close>

definition remove_second_factor ::
  "('y) auth_Service_scheme \<Rightarrow> User \<Rightarrow> string \<Rightarrow> string \<Rightarrow> bool \<Rightarrow> ('z, unit) auth_op" where
  "remove_second_factor svc user u keep byAdmin =
    bindE (a_db (DeleteUserMFA u)) (\<lambda>n.
      if n = 0 then throwE ErrMFANotEnabled
      else bindE (a_db (DeleteRecoveryCodes u)) (\<lambda>_. \<lambda>w. (Inr (), afterTwoFactorRemoved svc user keep byAdmin w)))"

definition DisableTOTP :: "('y) auth_Service_scheme \<Rightarrow> string \<Rightarrow> string \<Rightarrow> string \<Rightarrow> ('z, unit) auth_op" where
  "DisableTOTP svc u password current =
    (if \<not> mfaRepo svc then throwE ErrMFAUnavailable
     else bindE (UserByID u) (\<lambda>user.
       if \<not> CheckPassword svc (us_password_hash user) password then throwE ErrInvalidPassword
       else remove_second_factor svc user u current False))"

definition confirmAdminPassword :: "('y) auth_Service_scheme \<Rightarrow> string \<Rightarrow> string \<Rightarrow> ('z, unit) auth_op" where
  "confirmAdminPassword svc adminID password = bindE (UserByID adminID) (\<lambda>admin.
     if us_password_hash admin = [] then throwE ErrPasswordNotSet
     else if \<not> CheckPassword svc (us_password_hash admin) password then throwE ErrInvalidPassword
     else retE ())"

definition AdminRemoveTOTP ::
  "('y) auth_Service_scheme \<Rightarrow> string \<Rightarrow> string \<Rightarrow> string \<Rightarrow> string \<Rightarrow> ('z, unit) auth_op" where
  "AdminRemoveTOTP svc adminID adminPassword targetID adminSession =
    (if \<not> mfaRepo svc then throwE ErrMFAUnavailable
     else bindE (confirmAdminPassword svc adminID adminPassword) (\<lambda>_.
       catchE (UserByID targetID) (\<lambda>_. throwE ErrAccountNotFound) (\<lambda>target.
         remove_second_factor svc target targetID (if targetID = adminID then adminSession else []) (targetID \<noteq> adminID))))"

definition GetMFAStatus :: "('y) auth_Service_scheme \<Rightarrow> string \<Rightarrow> ('z, bool \<times> nat) auth_op" where
  "GetMFAStatus svc u =
    (if \<not> mfaRepo svc then throwE ErrMFAUnavailable
     else catchE (a_row ErrMFANotEnabled (GetUserMFA u)) (\<lambda>_. retE (False, 0)) (\<lambda>row.
       if \<not> mf_enabled row then retE (False, 0)
       else bindE (a_db (CountUnusedRecoveryCodes u)) (\<lambda>n. retE (True, n))))"

text \<open>
  \<open>CompleteMFAChallenge\<close> in its two halves: what is checked against the rows read, and from the
  statement that spends the code on.
\<close>

datatype mfa_factor = Totp_step int | Recovery string

definition challenge_read ::
  "('y) auth_Service_scheme \<Rightarrow> string \<Rightarrow> string \<Rightarrow> ('z, User \<times> mfa_factor) auth_op" where
  "challenge_read svc mfaToken code w =
    (if \<not> mfaRepo svc then (Inl ErrMFAUnavailable, w)
     else case Parse_token svc (forMFA (as_issuer svc)) (w_now w) mfaToken of
        None \<Rightarrow> (Inl ErrInvalidMFAToken, w)
      | Some claims \<Rightarrow> (case uuidParse svc (cl_Subject claims) of
          None \<Rightarrow> (Inl ErrInvalidMFAToken, w)
        | Some u \<Rightarrow>
            catchE (UserByID u) (\<lambda>_. throwE ErrInvalidMFAToken) (\<lambda>user.
            bindE (a_row ErrInvalidMFAToken (GetUserMFA u)) (\<lambda>row.
              if \<not> mf_enabled row then throwE ErrInvalidMFAToken
              else if looksLikeTOTPCode code then
                bindE (openTOTPSecret svc u (mf_secret row)) (\<lambda>secret. \<lambda>w.
                  case matchTOTPStep svc (w_now w) code secret of
                    None \<Rightarrow> (Inl ErrInvalidMFACode, w)
                  | Some step \<Rightarrow> (Inr (user, Totp_step step), w))
              else retE (user, Recovery (hashRecoveryCode svc code)))) w))"

definition spend_factor :: "string \<Rightarrow> mfa_factor \<Rightarrow> 'z auth_world_scheme \<Rightarrow> nat \<times> 'z auth_world_scheme" where
  "spend_factor u f = (case f of Totp_step step \<Rightarrow> BurnTOTPStep u step | Recovery h \<Rightarrow> UseRecoveryCode u h)"

definition challenge_write ::
  "('y) auth_Service_scheme \<Rightarrow> string \<Rightarrow> User \<times> mfa_factor \<Rightarrow> string \<Rightarrow> ('z, User \<times> Tokens) auth_op" where
  "challenge_write svc token uf ua = (let (user, f) = uf in
     bindE (a_db (spend_factor (us_id user) f)) (\<lambda>n.
       if n = 0 then throwE ErrInvalidMFACode
       else bindE (issueTokens svc user ua) (\<lambda>tokens. \<lambda>w.
         (Inr (user, tokens), noteSignIn svc token (us_id user) (us_email user) ua w))))"

definition CompleteMFAChallenge ::
  "('y) auth_Service_scheme \<Rightarrow> string \<Rightarrow> string \<Rightarrow> string \<Rightarrow> string \<Rightarrow> ('z, User \<times> Tokens) auth_op" where
  "CompleteMFAChallenge svc token mfaToken code ua =
    bindE (challenge_read svc mfaToken code) (\<lambda>uf. challenge_write svc token uf ua)"

end
