(* ===== verification/Auth_Events.thy ===== *)
theory Auth_Events
  imports Auth_Model
begin

text \<open>
  Requests to the account service as events, sequences of them, and the interface through which an
  invariant of the session, second-factor and recovery-code tables is carried through every request:
  the locale \<open>auth_invariant\<close> asks for the statements only, its lemmas walk through the operations.
  The second halves of a refresh and of a challenge are events of their own, so that a sequence can
  put other requests between the halves.
\<close>

section \<open>Requests\<close>

datatype auth_event =
    Ev_login string LoginInput string
  | Ev_provider User string
  | Ev_session_account string
  | Ev_refresh string string
  | Ev_refresh_write Session User string
  | Ev_logout string
  | Ev_logout_all string
  | Ev_authenticate "Claims option"
  | Ev_change_password string string string string
  | Ev_set_password string string string string
  | Ev_confirm_password string string
  | Ev_confirm_fresh string string string string
  | Ev_step_up string string string
  | Ev_deactivate string string
  | Ev_request_reset string
  | Ev_reset string string
  | Ev_begin_totp string string
  | Ev_verify_totp string string
  | Ev_disable_totp string string string
  | Ev_admin_remove_totp string string string string
  | Ev_mfa_status string
  | Ev_challenge string string string string
  | Ev_challenge_write string User mfa_factor string
  | Ev_time int

fun auth_exec :: "('y) auth_Service_scheme \<Rightarrow> auth_event \<Rightarrow> 'z auth_world_scheme \<Rightarrow> 'z auth_world_scheme" where
  "auth_exec svc (Ev_login token li ua) w = snd (Login svc token li ua w)"
| "auth_exec svc (Ev_provider user ua) w = snd (providerSession svc user ua w)"
| "auth_exec svc (Ev_session_account raw) w = snd (SessionAccount svc raw w)"
| "auth_exec svc (Ev_refresh raw ua) w = snd (auth_Refresh svc raw ua w)"
| "auth_exec svc (Ev_refresh_write s user ua) w = snd (Refresh_write svc (s, user) ua w)"
| "auth_exec svc (Ev_logout raw) w = snd (Logout svc raw w)"
| "auth_exec svc (Ev_logout_all u) w = snd (LogoutAll u w)"
| "auth_exec svc (Ev_authenticate c) w = snd (AuthenticateAccessToken svc c w)"
| "auth_exec svc (Ev_change_password u old new cur) w = snd (ChangePassword svc u old new cur w)"
| "auth_exec svc (Ev_set_password u new stepUp cur) w = snd (SetPassword svc u new stepUp cur w)"
| "auth_exec svc (Ev_confirm_password u pw) w = snd (ConfirmPassword svc u pw w)"
| "auth_exec svc (Ev_confirm_fresh u pw cur stepUp) w = snd (ConfirmFreshCredential svc u pw cur stepUp w)"
| "auth_exec svc (Ev_step_up u sid provider) w = snd (IssueStepUp svc u sid provider w)"
| "auth_exec svc (Ev_deactivate u pw) w = snd (DeactivateAccount svc u pw w)"
| "auth_exec svc (Ev_request_reset email) w = snd (RequestPasswordReset svc email w)"
| "auth_exec svc (Ev_reset raw new) w = snd (ResetPassword svc raw new w)"
| "auth_exec svc (Ev_begin_totp u issuer) w = snd (BeginTOTPEnrollmentAs svc u issuer w)"
| "auth_exec svc (Ev_verify_totp u code) w = snd (VerifyTOTPEnrollment svc u code w)"
| "auth_exec svc (Ev_disable_totp u pw cur) w = snd (DisableTOTP svc u pw cur w)"
| "auth_exec svc (Ev_admin_remove_totp a pw u sid) w = snd (AdminRemoveTOTP svc a pw u sid w)"
| "auth_exec svc (Ev_mfa_status u) w = snd (GetMFAStatus svc u w)"
| "auth_exec svc (Ev_challenge token tok code ua) w = snd (CompleteMFAChallenge svc token tok code ua w)"
| "auth_exec svc (Ev_challenge_write token user f ua) w = snd (challenge_write svc token (user, f) ua w)"
| "auth_exec svc (Ev_time t) w = w\<lparr>w_now := t\<rparr>"

fun auth_run :: "('y) auth_Service_scheme \<Rightarrow> auth_event list \<Rightarrow> 'z auth_world_scheme \<Rightarrow> 'z auth_world_scheme" where
  "auth_run svc [] w = w"
| "auth_run svc (e # es) w = auth_run svc es (auth_exec svc e w)"

text \<open>
  The second factor of an account is spent or taken off by few requests. \<open>admissible ok free\<close>: a
  request that opens a session past the second factor, or finishes a refresh begun earlier, does so
  for an account in \<open>ok\<close>; one that gets past the password check of a removal is for one in \<open>free\<close>.
\<close>

definition spends :: "string \<Rightarrow> mfa_factor \<Rightarrow> 'z auth_world_scheme \<Rightarrow> bool" where
  "spends u f w \<longleftrightarrow> fst (spend_factor u f w) \<noteq> 0"

fun admissible ::
  "(string \<Rightarrow> bool) \<Rightarrow> (string \<Rightarrow> bool) \<Rightarrow> ('y) auth_Service_scheme \<Rightarrow> auth_event \<Rightarrow> 'z auth_world_scheme \<Rightarrow> bool" where
  "admissible ok free svc (Ev_refresh_write s user ua) w = ok (us_id user)"
| "admissible ok free svc (Ev_challenge_write token user f ua) w = (ok (us_id user) \<or> \<not> spends (us_id user) f w)"
| "admissible ok free svc (Ev_challenge token tok code ua) w = (case challenge_read svc tok code w of
      (Inr (user, f), w1) \<Rightarrow> ok (us_id user) \<or> \<not> spends (us_id user) f w1 | _ \<Rightarrow> True)"
| "admissible ok free svc (Ev_disable_totp u pw cur) w = (free u \<or> (case UserByID u w of
      (Inr user, _) \<Rightarrow> \<not> CheckPassword svc (us_password_hash user) pw | _ \<Rightarrow> True))"
| "admissible ok free svc (Ev_admin_remove_totp a pw u sid) w = (free u \<or> (case confirmAdminPassword svc a pw w of
      (Inr _, _) \<Rightarrow> False | _ \<Rightarrow> True))"
| "admissible ok free svc _ w = True"

fun run_admissible ::
  "(string \<Rightarrow> bool) \<Rightarrow> (string \<Rightarrow> bool) \<Rightarrow> ('y) auth_Service_scheme \<Rightarrow> auth_event list \<Rightarrow> 'z auth_world_scheme \<Rightarrow> bool" where
  "run_admissible ok free svc [] w = True"
| "run_admissible ok free svc (e # es) w = (admissible ok free svc e w \<and> run_admissible ok free svc es (auth_exec svc e w))"

lemma run_admissible_top: "run_admissible (\<lambda>_. True) (\<lambda>_. True) svc es w"
proof (induction es arbitrary: w)
  case (Cons e es)
  then show ?case by (cases e) (auto split: prod.splits sum.splits)
qed simp

section \<open>What the requests leave alone\<close>

definition core :: "'z auth_world_scheme \<Rightarrow> Session list \<times> (string \<rightharpoonup> UserMfa) \<times> RecoveryCode list" where
  "core w = (au_sessions w, au_mfa w, au_codes w)"

definition same_core :: "'z auth_world_scheme \<Rightarrow> 'z auth_world_scheme \<Rightarrow> bool" where
  "same_core w w' \<longleftrightarrow> core w' = core w \<and> (w_faults w = [] \<longrightarrow> w_faults w' = [])"

lemma same_core_refl [simp]: "same_core w w"
  by (simp add: same_core_def)

lemma same_core_trans [trans]: "same_core u v \<Longrightarrow> same_core v w \<Longrightarrow> same_core u w"
  by (simp add: same_core_def)

text \<open>A query that changes neither the tables nor the fault schedule.\<close>

definition quiet_query :: "('z auth_world_scheme \<Rightarrow> 'a \<times> 'z auth_world_scheme) \<Rightarrow> bool" where
  "quiet_query q \<longleftrightarrow> (\<forall>v. core (snd (q v)) = core v \<and> w_faults (snd (q v)) = w_faults v)"

lemma core_pop [simp]: "core (w\<lparr>w_faults := fs\<rparr>) = core w"
  by (simp add: core_def)

lemma same_core_repo: "quiet_query q \<Longrightarrow> same_core w (snd (repo q w))"
  by (cases rule: repo_cases [of w q])
    (auto simp: same_core_def quiet_query_def dest!: spec [where x = "w\<lparr>w_faults := tl (w_faults w)\<rparr>"])

lemma same_core_repoE: "quiet_query q \<Longrightarrow> same_core w (snd (repoE q w))"
  by (auto simp: same_core_def quiet_query_def repoE_def split: list.splits bool.splits)

lemma snd_tryE: "snd (tryE m w) = snd (m w)"
  by (simp add: tryE_def split: prod.splits sum.splits)

lemma same_core_tryE:
  assumes "tryE m w = (r, w')" "same_core w (snd (m w))"
  shows "same_core w w'"
  using assms snd_tryE [of m w] by simp

lemma quiet_throttles:
  "quiet_query (\<lambda>w. ((), w\<lparr>lw_throttles := f (lw_throttles w)\<rparr>))"
  "quiet_query (\<lambda>w. (g (lw_throttles w), w))"
  "quiet_query (\<lambda>w. let (r, t) = RecordLoginAttempt u sc now l (lw_throttles w) in (r, w\<lparr>lw_throttles := t\<rparr>))"
  by (simp_all add: quiet_query_def core_def split: prod.splits)

lemma quiet_on_throttles: "same_core w (snd (on_throttles f w))"
  unfolding on_throttles_def by (rule same_core_repo [OF quiet_throttles(1)])

lemma quiet_ask_throttles: "same_core w (snd (ask_throttles f w))"
  unfolding ask_throttles_def by (rule same_core_repo [OF quiet_throttles(2)])

lemma quiet_count_attempt: "same_core w (snd (count_attempt u sc now w))"
  unfolding count_attempt_def by (rule same_core_repoE [OF quiet_throttles(3)])

lemma quiet_now [simp]: "same_core w (w\<lparr>w_now := t\<rparr>)" "same_core w (w\<lparr>dw_outbox := x\<rparr>)"
  by (simp_all add: same_core_def core_def)

lemma same_core_via:
  assumes "same_core u v" "same_core v w"
  shows "same_core u w"
  using assms by (rule same_core_trans)

lemma quiet_globalCapExempt: "same_core w (snd (globalCapExempt svc token u sc ua w))"
proof -
  have dev: "same_core v (snd (knownDeviceFromContext svc token u ua v))" for v
    unfolding knownDeviceFromContext_def Let_def
    by (auto split: prod.splits intro!: same_core_tryE [OF _ same_core_repo]
        simp: quiet_query_def HasKnownDevice_def)
  show ?thesis
    unfolding globalCapExempt_def
    by (auto split: prod.splits option.splits bool.splits
        intro: same_core_tryE [OF _ quiet_ask_throttles] same_core_via [OF same_core_tryE [OF _ quiet_ask_throttles] dev])
qed

lemma quiet_lock [simp]: "same_core w (lockPrefix u sc n w)" "same_core w (lockAll u w)"
  by (simp_all add: lockPrefix_def lockAll_def ignoreE_def quiet_on_throttles)

lemma quiet_gate_prefix: "same_core w (snd (gate_prefix svc u now g w))"
proof -
  have "same_core w w1" if "tryE (count_attempt u (lg_scope g) now) w = (r, w1)" for r w1
    using that by (rule same_core_tryE [OF _ quiet_count_attempt])
  then show ?thesis
    unfolding gate_prefix_def Let_def gate_wait_def
    by (auto split: prod.splits option.splits intro: same_core_via)
qed

lemma quiet_gate_all: "same_core w (snd (gate_all u now g w))"
proof -
  have "same_core w w1" if "tryE (count_attempt u scopeAll now) w = (r, w1)" for r w1
    using that by (rule same_core_tryE [OF _ quiet_count_attempt])
  then show ?thesis
    unfolding gate_all_def Let_def
    by (auto split: prod.splits option.splits intro: same_core_via)
qed

lemma quiet_gateLogin:
  assumes "gateLogin svc token u ip ua w = (g, w')"
  shows "same_core w w'"
proof (cases "lockStore svc")
  case True
  define g0 where "g0 = \<lparr>lg_refuse = False, lg_scope = ipScope ip, lg_ipN = 0, lg_allN = 0, lg_exempt = False\<rparr>"
  obtain ex w1 where c1: "globalCapExempt svc token u (lg_scope g0) ua w = (ex, w1)" by fastforce
  obtain locks w2 where
    c2: "tryE (ask_throttles (CountActiveLoginLocks u (gate_scopes (g0\<lparr>lg_exempt := ex\<rparr>)) (w_now w))) w1 = (locks, w2)"
    by fastforce
  define w3 where "w3 = ignoreE (on_throttles (EnsureLoginThrottle u (lg_scope g0) (w_now w))) w2"
  define w4 where "w4 = ignoreE (on_throttles (EnsureLoginThrottle u scopeAll (w_now w))) w3"
  obtain g2 w5 where c5: "gate_prefix svc u (w_now w) (g0\<lparr>lg_exempt := ex\<rparr>) w4 = (g2, w5)" by fastforce
  have "same_core w w1" using quiet_globalCapExempt [of w svc token u "lg_scope g0" ua] c1 by simp
  also have "same_core w1 w2" using c2 by (rule same_core_tryE [OF _ quiet_ask_throttles])
  finally have a: "same_core w w2" .
  have "same_core w2 w3" by (simp add: w3_def ignoreE_def quiet_on_throttles)
  also have "same_core w3 w4" by (simp add: w4_def ignoreE_def quiet_on_throttles)
  also have "same_core w4 w5" using quiet_gate_prefix [of w4 svc u "w_now w"] c5 by (metis snd_conv)
  also have "same_core w5 (snd (gate_all u (w_now w) g2 w5))" by (rule quiet_gate_all)
  finally have b: "same_core w2 (snd (gate_all u (w_now w) g2 w5))" .
  have "w' = w2 \<or> w' = snd (gate_all u (w_now w) g2 w5)"
    using assms True c1 c2 c5
    by (auto simp: gateLogin_def Let_def g0_def w3_def w4_def split: if_splits prod.splits)
  then show ?thesis using a same_core_trans [OF a b] by auto
next
  case False
  then show ?thesis using assms by (simp add: gateLogin_def)
qed

lemma quiet_loginFailed: "same_core w (loginFailed svc u g w)"
  by (auto simp: loginFailed_def Let_def intro: same_core_via [OF quiet_lock(1) quiet_lock(2)])

lemma quiet_loginSucceeded: "same_core w (loginSucceeded svc u g w)"
  unfolding loginSucceeded_def Let_def ignoreE_def
  by (auto intro: same_core_via [OF quiet_on_throttles same_core_via [OF quiet_on_throttles quiet_on_throttles]])

lemma quiet_devices:
  "quiet_query (CountUserKnownDevices u)" "quiet_query (TouchKnownDevice u h label)"
  "quiet_query (PruneKnownDevices u cutoff keep)" "quiet_query (GetSecurityPrefs u)"
  "quiet_query (ClaimNewDeviceEmailSlot u now cool)"
  by (auto simp: quiet_query_def core_def CountUserKnownDevices_def TouchKnownDevice_def PruneKnownDevices_def
      GetSecurityPrefs_def ClaimNewDeviceEmailSlot_def Let_def split: option.splits)

lemma quiet_try:
  assumes "tryE (repo q) w = (r, w')" "quiet_query q"
  shows "same_core w w'"
  using assms(1) by (rule same_core_tryE) (rule same_core_repo [OF assms(2)])

lemma quiet_send_notice: "same_core w (send_notice svc u email label w)"
proof -
  obtain r w1 where c: "tryE (repo (GetSecurityPrefs u)) w = (r, w1)" by fastforce
  obtain b w2 where d: "tryE (repo (ClaimNewDeviceEmailSlot u (w_now w1) newDeviceMailCooldown)) w1 = (b, w2)" by fastforce
  have a: "same_core w w1" "same_core w1 w2"
    using quiet_try [OF c quiet_devices(4)] quiet_try [OF d quiet_devices(5)] by simp_all
  have "send_notice svc u email label w \<in> {w1, w2, w2\<lparr>dw_outbox := dw_outbox w2 @ [(email, label)]\<rparr>}"
    using c d by (auto simp: send_notice_def split: option.splits bool.splits)
  then show ?thesis using a same_core_via [OF a(1) a(2)] by (auto intro: same_core_via)
qed

lemma quiet_noteSignIn: "same_core w (noteSignIn svc token u email ua w)"
proof -
  obtain b os where l: "uaLabel ua = (b, os)" by fastforce
  obtain r w1 where c: "tryE (repo (CountUserKnownDevices u)) w = (r, w1)" by fastforce
  obtain n w2 where d: "tryE (repo (TouchKnownDevice u (deviceHash (sha256 svc) token b os) (b @ '' on '' @ os))) w1 = (n, w2)"
    by fastforce
  define w3 where "w3 = ignoreE (repo (PruneKnownDevices u (w_now w2 - knownDeviceMaxAge) maxKnownDevices)) w2"
  have a: "same_core w w1" "same_core w1 w2" "same_core w2 w3"
    using quiet_try [OF c quiet_devices(1)] quiet_try [OF d quiet_devices(2)]
    by (simp_all add: w3_def ignoreE_def same_core_repo [OF quiet_devices(3)])
  have b: "same_core w w2" "same_core w w3" using a by (auto intro: same_core_via)
  have "\<exists>v \<in> {w, w1, w2, w3}. noteSignIn svc token u email ua w \<in> {v, send_notice svc u email (b @ '' on '' @ os) v}"
    using l c d by (auto simp: noteSignIn_def Let_def w3_def split: option.splits)
  then show ?thesis using a b by (auto intro: quiet_send_notice same_core_via [OF _ quiet_send_notice])
qed

section \<open>Carrying an invariant through an operation\<close>

text \<open>\<open>carries I m R\<close>: \<open>m\<close> keeps \<open>I\<close>, and what it returns under \<open>I\<close> without an error satisfies \<open>R\<close>.\<close>

definition carries :: "('s \<Rightarrow> bool) \<Rightarrow> ('s, 'e, 'a) op \<Rightarrow> ('a \<Rightarrow> bool) \<Rightarrow> bool" where
  "carries I m R \<longleftrightarrow> (\<forall>s. I s \<longrightarrow> I (snd (m s)) \<and> (\<forall>a. fst (m s) = Inr a \<longrightarrow> R a))"

abbreviation keeps_inv :: "('s \<Rightarrow> bool) \<Rightarrow> ('s, 'e, 'a) op \<Rightarrow> bool" where
  "keeps_inv I m \<equiv> carries I m (\<lambda>_. True)"

lemma carriesI:
  assumes "\<And>s. I s \<Longrightarrow> I (snd (m s))" "\<And>s a. I s \<Longrightarrow> fst (m s) = Inr a \<Longrightarrow> R a"
  shows "carries I m R"
  using assms by (auto simp: carries_def)

lemma carriesD: "carries I m R \<Longrightarrow> I s \<Longrightarrow> I (snd (m s))"
  by (simp add: carries_def)

lemma carriesR: "carries I m R \<Longrightarrow> I s \<Longrightarrow> m s = (Inr a, s') \<Longrightarrow> I s' \<and> R a"
  unfolding carries_def by (metis fst_conv snd_conv)

lemma carries_weaken: "carries I m R \<Longrightarrow> (\<And>a. R a \<Longrightarrow> S a) \<Longrightarrow> carries I m S"
  by (auto simp: carries_def)

lemma carries_True: "carries I m R \<Longrightarrow> keeps_inv I m"
  by (erule carries_weaken) simp

lemma carries_retE: "R a \<Longrightarrow> carries I (retE a) R"
  by (simp add: carries_def retE_def)

lemma carries_throwE: "carries I (throwE e) R"
  by (simp add: carries_def throwE_def)

lemma carries_bindE:
  assumes "carries I m R" "\<And>a. R a \<Longrightarrow> carries I (k a) S"
  shows "carries I (bindE m k) S"
proof (rule carriesI)
  fix s assume s: "I s"
  obtain r s' where m: "m s = (r, s')" by fastforce
  show "I (snd (bindE m k s))"
    using assms(1) s m carriesR [OF assms(1) s] assms(2)
    by (cases r) (auto simp: bindE_def carries_def dest: spec [where x = s])
  show "S b" if "fst (bindE m k s) = Inr b" for b
    using that m carriesR [OF assms(1) s] assms(2)
    by (cases r) (auto simp: bindE_def carries_def)
qed

lemma carries_catchE:
  assumes "carries I m R" "\<And>e. carries I (h e) S" "\<And>a. R a \<Longrightarrow> carries I (k a) S"
  shows "carries I (catchE m h k) S"
proof (rule carriesI)
  fix s assume s: "I s"
  obtain r s' where m: "m s = (r, s')" by fastforce
  have s': "I s'" using carriesD [OF assms(1) s] m by simp
  show "I (snd (catchE m h k s))"
    using m s' carriesR [OF assms(1) s] assms(2,3)
    by (cases r) (auto simp: catchE_def carries_def)
  show "S b" if "fst (catchE m h k s) = Inr b" for b
    using that m s' carriesR [OF assms(1) s] assms(2,3)
    by (cases r) (auto simp: catchE_def carries_def)
qed

lemma carries_if:
  "(b \<Longrightarrow> carries I m R) \<Longrightarrow> (\<not> b \<Longrightarrow> carries I n R) \<Longrightarrow> carries I (if b then m else n) R"
  by simp

lemma carries_option:
  "(v = None \<Longrightarrow> carries I m R) \<Longrightarrow> (\<And>x. v = Some x \<Longrightarrow> carries I (n x) R) \<Longrightarrow>
   carries I (case v of None \<Rightarrow> m | Some x \<Rightarrow> n x) R"
  by (cases v) simp_all

text \<open>The end of an operation that cannot fail any more.\<close>

lemma carries_end: "(\<And>w. I w \<Longrightarrow> I (f w)) \<Longrightarrow> R r \<Longrightarrow> carries I (\<lambda>w. (Inr r, f w)) R"
  by (simp add: carries_def)

lemmas carries_flow = carries_retE carries_throwE carries_bindE carries_catchE carries_if carries_option

section \<open>The interface\<close>

text \<open>
  What an invariant owes: it depends on the three tables (and may ask for a healthy database), it
  survives each statement, a session may be created for an account in \<open>ok\<close>, a second factor removed
  for one in \<open>free\<close>, codes issued for one in \<open>coded\<close>. While it holds, an account whose session is not
  revoked or whose second factor reads as off is in \<open>ok\<close>.
\<close>

locale auth_invariant =
  fixes svc :: "('y) auth_Service_scheme"
    and I :: "'z auth_world_scheme \<Rightarrow> bool"
    and ok free coded :: "string \<Rightarrow> bool"
  assumes I_core: "same_core w w' \<Longrightarrow> I w \<Longrightarrow> I w'"
    and I_revoke: "I w \<Longrightarrow> I (snd (revoke_where P reason w))"
    and I_create: "ok v \<Longrightarrow> I w \<Longrightarrow> I (snd (auth_CreateSession v h ua e w))"
    and I_upsert: "I w \<Longrightarrow> I (snd (UpsertUserMFA v secret w))"
    and I_enable: "I w \<Longrightarrow> I (snd (EnableUserMFA v w))"
    and I_burn: "I w \<Longrightarrow> I (snd (BurnTOTPStep v step w))"
    and I_burn_pending: "I w \<Longrightarrow> I (snd (BurnPendingTOTPStep v step w))"
    and I_use: "I w \<Longrightarrow> I (snd (UseRecoveryCode v h w))"
    and I_drop_codes: "I w \<Longrightarrow> I (snd (DeleteRecoveryCodes v w))"
    and I_enabled: "I w \<Longrightarrow> fst (EnableUserMFA v w) \<noteq> 0 \<Longrightarrow> coded v"
    and I_code: "coded v \<Longrightarrow> I w \<Longrightarrow> I (snd (CreateRecoveryCode v h w))"
    and I_drop: "free v \<Longrightarrow> I w \<Longrightarrow> I (snd (DeleteUserMFA v w))"
    and I_live: "I w \<Longrightarrow> s \<in> set (au_sessions w) \<Longrightarrow> se_revoked_at s = None \<Longrightarrow> ok (se_user s)"
    and I_mfa: "I w \<Longrightarrow> \<not> fst (mfaEnabled svc v w) \<Longrightarrow> ok v"
begin

lemma I_pop: "I w \<Longrightarrow> I (w\<lparr>w_faults := tl (w_faults w)\<rparr>)" "I w \<Longrightarrow> w_faults w = True # fs \<Longrightarrow> I (w\<lparr>w_faults := fs\<rparr>)"
  by (auto intro: I_core [rotated] simp: same_core_def)

lemma query:
  assumes "\<And>w. I w \<Longrightarrow> I (snd (q w))" "\<And>w. I w \<Longrightarrow> R (fst (q w))"
  shows "carries I (a_db q) R"
proof (rule carriesI)
  fix s assume s: "I s"
  note r = s I_pop [OF s] assms [OF I_pop(1) [OF s]]
  show "I (snd (a_db q s))"
    using r by (cases rule: repo_cases [of s q]) (auto simp: a_db_def op_simps)
  show "R a" if "fst (a_db q s) = Inr a" for a
    using r that by (cases rule: repo_cases [of s q]) (auto simp: a_db_def op_simps)
qed

lemma stmt: "(\<And>w. I w \<Longrightarrow> I (snd (q w))) \<Longrightarrow> keeps_inv I (a_db q)"
  by (rule query) simp_all

lemma quiet: "quiet_query q \<Longrightarrow> keeps_inv I (a_db q)"
  by (rule stmt) (auto intro: I_core [rotated] simp: same_core_def quiet_query_def)

lemma row: "carries I (a_row e q) (\<lambda>a. \<exists>w. I w \<and> q w = Some a)"
proof (rule carriesI)
  fix s assume s: "I s"
  note r = s I_pop [OF s]
  show "I (snd (a_row e q s))"
    using r by (cases rule: repo_cases [of s "\<lambda>w. (q w, w)"]) (auto simp: a_row_def op_simps split: option.splits)
  show "\<exists>w. I w \<and> q w = Some a" if "fst (a_row e q s) = Inr a" for a
    using r that by (cases rule: repo_cases [of s "\<lambda>w. (q w, w)"]) (auto simp: a_row_def op_simps split: option.splits)
qed

lemma I_same: "same_core w w' \<Longrightarrow> I w \<Longrightarrow> I w'"
  by (rule I_core)

lemma drawn: "keeps_inv I draw"
  by (rule carriesI) (auto simp: draw_def split: list.splits option.splits
      intro: I_core [rotated] simp: same_core_def core_def)

lemma user: "carries I (UserByID i) (\<lambda>u. us_id u = i)"
  unfolding UserByID_def
  by (rule carries_bindE [OF row]) (auto simp: GetUserByID_def find_Some_iff intro!: carries_flow)

lemma hashed: "keeps_inv I (HashPassword svc plain)"
  unfolding HashPassword_def by (intro carries_flow) simp_all

lemma signed: "keeps_inv I (IssueForSession svc' ti u role sid)"
  by (rule carriesI) (auto simp: IssueForSession_def split: option.splits)

lemma ignored: "keeps_inv I m \<Longrightarrow> I w \<Longrightarrow> I (ignoreE m w)"
  by (simp add: carries_def ignoreE_def)

lemma stmtE:
  assumes "\<And>w. I w \<Longrightarrow> I (snd (q w))"
  shows "keeps_inv I (a_dbE q)"
proof (rule carriesI)
  fix s assume s: "I s"
  have "snd (a_dbE q s) = snd (repoE q s)"
    by (simp add: a_dbE_def op_simps split: prod.splits sum.splits)
  also have "I \<dots>"
    using I_pop [OF s] assms [OF I_pop(1) [OF s]] by (auto simp: repoE_def split: list.splits bool.splits)
  finally show "I (snd (a_dbE q s))" .
qed simp

lemma created: "ok v \<Longrightarrow> keeps_inv I (a_dbE (auth_CreateSession v h ua e))"
  by (rule stmtE) (rule I_create)

lemma issuedFor:
  assumes "ok (us_id u)"
  shows "keeps_inv I (issueTokensForSession svc u ua)"
  unfolding issueTokensForSession_def
proof (rule carries_bindE [OF drawn])
  fix raw
  have "keeps_inv I (bindE (a_dbE (auth_CreateSession (us_id u) (sha256 svc raw) ua e)) (\<lambda>sess.
    bindE (IssueForSession svc (as_issuer svc) (us_id u) (us_role u) (se_id sess)) (\<lambda>access.
    retE (\<lparr>tk_access = access, tk_refresh = raw\<rparr>, se_id sess))))" for e
    by (intro carries_bindE [OF created [OF assms]] carries_bindE [OF signed] carries_retE) simp
  then show "keeps_inv I (\<lambda>w. bindE (a_dbE (auth_CreateSession (us_id u) (sha256 svc raw) ua (w_now w + refreshTTL svc))) (\<lambda>sess.
    bindE (IssueForSession svc (as_issuer svc) (us_id u) (us_role u) (se_id sess)) (\<lambda>access.
    retE (\<lparr>tk_access = access, tk_refresh = raw\<rparr>, se_id sess))) w)"
    by (simp add: carries_def)
qed

lemma issued: "ok (us_id u) \<Longrightarrow> keeps_inv I (issueTokens svc u ua)"
  unfolding issueTokens_def
  by (rule carries_bindE [OF issuedFor]) (auto intro: carries_retE)

lemma enabled_world: "I w \<Longrightarrow> mfaEnabled svc v w = (b, w1) \<Longrightarrow> I w1"
  unfolding mfaEnabled_def
  by (auto split: if_splits prod.splits option.splits
      dest!: quiet_try intro: I_same simp: quiet_query_def)

lemma session: "keeps_inv I (session_or_challenge svc u ua)"
proof (rule carriesI)
  fix w assume w: "I w"
  obtain b w1 where m: "mfaEnabled svc (us_id u) w = (b, w1)" by fastforce
  have w1: "I w1" using enabled_world [OF w m] .
  have ch: "keeps_inv I (bindE (Issue svc (forMFA (as_issuer svc)) (us_id u) (us_role u)) (\<lambda>t. retE (MFARequired u t)))"
    unfolding Issue_def by (intro carries_bindE [OF signed] carries_retE) simp
  have si: "keeps_inv I (bindE (issueTokens svc u ua) (\<lambda>t. retE (Signed_in u t)))" if "\<not> b"
    by (intro carries_bindE [OF issued] carries_retE) (use I_mfa [OF w] m that in auto)
  show "I (snd (session_or_challenge svc u ua w))"
    using m carriesD [OF ch w1] carriesD [OF si w1] by (cases b) (auto simp: session_or_challenge_def)
qed simp

lemma noted: "I w \<Longrightarrow> I (note_session svc token ua r w)" "I w \<Longrightarrow> I (noteSignIn svc token u email ua w)"
  by (auto simp: note_session_def split: LoginResult.splits intro: I_same [OF quiet_noteSignIn])

lemma read_state: "keeps_inv I m \<Longrightarrow> I w \<Longrightarrow> m w = (r, w') \<Longrightarrow> I w'"
  by (metis carriesD snd_conv)

lemma revoked: "keeps_inv I (a_db (revoke_where P reason))"
  by (rule stmt) (rule I_revoke)

lemma revokers:
  "keeps_inv I (a_db (RevokeSession i))" "keeps_inv I (a_db (RotateSession i))"
  "keeps_inv I (a_db (RevokeAllUserSessions u))" "keeps_inv I (a_db (RevokeOtherUserSessions u i))"
  unfolding RevokeSession_def RotateSession_def RevokeAllUserSessions_def RevokeOtherUserSessions_def
  by (rule revoked)+

lemma login: "keeps_inv I (Login svc token li ua)"
  unfolding Login_def
proof (rule carries_bindE [OF row])
  fix u
  show "keeps_inv I (\<lambda>w.
     let (gate, w1) = gateLogin svc token (us_id u) (li_ClientIP li) ua w in
     if lg_refuse gate then (Inl ErrInvalidCredentials, w1)
     else if \<not> CheckPassword svc (us_password_hash u) (li_Password li)
       then (Inl ErrInvalidCredentials, loginFailed svc (us_id u) gate w1)
     else let w2 = loginSucceeded svc (us_id u) gate w1 in
       if \<not> us_is_active u then (Inl ErrAccountDisabled, w2)
       else if us_pending_verification u \<and> \<not> us_email_verified u \<and> verificationGate svc
         then (Inl ErrEmailVerificationRequired, w2)
       else bindE (session_or_challenge svc u ua) (\<lambda>r. \<lambda>w. (Inr r, note_session svc token ua r w)) w2)"
  proof (rule carriesI)
    fix w assume w: "I w"
    obtain g w1 where g: "gateLogin svc token (us_id u) (li_ClientIP li) ua w = (g, w1)" by fastforce
    have w1: "I w1" "I (loginFailed svc (us_id u) g w1)" "I (loginSucceeded svc (us_id u) g w1)"
      using I_same [OF quiet_gateLogin [OF g] w] by (auto intro: I_same [OF quiet_loginFailed] I_same [OF quiet_loginSucceeded])
    have t: "keeps_inv I (bindE (session_or_challenge svc u ua) (\<lambda>r. \<lambda>w. (Inr r, note_session svc token ua r w)))"
      by (intro carries_bindE [OF session] carries_end noted) simp_all
    show "I (snd (let (gate, w1) = gateLogin svc token (us_id u) (li_ClientIP li) ua w in
     if lg_refuse gate then (Inl ErrInvalidCredentials, w1)
     else if \<not> CheckPassword svc (us_password_hash u) (li_Password li)
       then (Inl ErrInvalidCredentials, loginFailed svc (us_id u) gate w1)
     else let w2 = loginSucceeded svc (us_id u) gate w1 in
       if \<not> us_is_active u then (Inl ErrAccountDisabled, w2)
       else if us_pending_verification u \<and> \<not> us_email_verified u \<and> verificationGate svc
         then (Inl ErrEmailVerificationRequired, w2)
       else bindE (session_or_challenge svc u ua) (\<lambda>r. \<lambda>w. (Inr r, note_session svc token ua r w)) w2))"
      using w1 carriesD [OF t w1(3)] g by (simp add: Let_def)
  qed simp
qed

lemma provider: "keeps_inv I (providerSession svc u ua)"
  unfolding providerSession_def by (rule session)

lemma session_account:
  assumes "I w"
  shows "I (snd (SessionAccount svc raw w))"
proof -
  obtain r w1 where a: "a_row ErrInvalidRefresh (GetSessionByRefreshHash (sha256 svc raw)) w = (r, w1)" by fastforce
  have w1: "I w1" by (rule read_state [OF carries_True [OF row] assms a])
  have w2: "I w2" if "UserByID i w1 = (x, w2)" for i x w2
    using carriesD [OF user w1] that by (metis snd_conv)
  show ?thesis
    using assms a w1 w2 by (auto simp: SessionAccount_def split: prod.splits sum.splits)
qed

lemma live_row:
  "carries I (a_row e (GetSessionByRefreshHash h)) (\<lambda>s. se_revoked_at s = None \<longrightarrow> ok (se_user s))"
  by (rule carries_weaken [OF row])
    (auto simp: GetSessionByRefreshHash_def find_Some_iff intro!: I_live nth_mem)

lemma refresh_read: "carries I (Refresh_read svc raw) (\<lambda>(s, u). ok (us_id u))"
  unfolding Refresh_read_def
proof (rule carries_bindE [OF live_row])
  fix s :: Session assume s: "se_revoked_at s = None \<longrightarrow> ok (se_user s)"
  have c: "carries I (catchE (UserByID (se_user s)) (\<lambda>_. throwE ErrInvalidRefresh) (\<lambda>u. retE (s, u))) (\<lambda>(s, u). ok (us_id u))"
    if "se_revoked_at s = None"
    by (rule carries_catchE [OF user]) (use s that in \<open>auto intro: carries_retE carries_throwE\<close>)
  show "carries I (\<lambda>w. if se_revoked_at s \<noteq> None then
       (Inl ErrInvalidRefresh,
        if se_revoked_reason s = sessionRevokedRotated \<or> se_revoked_reason s = []
        then ignoreE (a_db (RevokeAllUserSessions (se_user s))) w else w)
     else if \<not> w_now w < se_expires s then (Inl ErrInvalidRefresh, w)
     else catchE (UserByID (se_user s)) (\<lambda>_. throwE ErrInvalidRefresh) (\<lambda>u. retE (s, u)) w) (\<lambda>(s, u). ok (us_id u))"
    by (rule carriesI)
      (use c in \<open>auto simp: carries_def intro: ignored [OF revokers(3)] split: if_splits\<close>)
qed

lemma refresh_write: "ok (us_id u) \<Longrightarrow> keeps_inv I (Refresh_write svc (s, u) ua)"
  unfolding Refresh_write_def Let_def
  by (auto intro!: carries_bindE [OF revokers(2)] carries_bindE [OF issuedFor] carries_end ignored quiet
      simp: quiet_query_def MoveStepUpTokensToSession_def core_def)

lemma refresh: "keeps_inv I (auth_Refresh svc raw ua)"
  unfolding auth_Refresh_def by (rule carries_bindE [OF refresh_read]) (auto intro: refresh_write)

lemma logout: "keeps_inv I (Logout svc raw)"
  unfolding Logout_def by (intro carries_catchE [OF row] revokers carries_retE) simp

lemma logout_all: "keeps_inv I (LogoutAll u)"
  unfolding LogoutAll_def by (rule revokers)

lemma repo_read: "keeps_inv I (repo (\<lambda>w. (q w, w)))"
  by (rule carriesI) (auto intro: I_core [OF same_core_repo] simp: quiet_query_def)

lemma authenticate: "keeps_inv I (AuthenticateAccessToken svc c)"
  unfolding AuthenticateAccessToken_def
  by (auto split: option.splits intro!: carries_option carries_throwE carries_catchE [OF repo_read] carries_if carries_retE)

lemma mailed: "I w \<Longrightarrow> I (mail_to email what w)"
  unfolding mail_to_def by (rule I_same [OF quiet_now(2)])

lemma others: "I w \<Longrightarrow> I (revoke_others svc u keep w)"
  by (auto simp: revoke_others_def intro: ignored revokers split: option.splits)

lemma users_change:
  "keeps_inv I (a_db (UpdateUserPassword u h))" "keeps_inv I (a_db (DeactivateUser u))"
  by (rule quiet; simp add: quiet_query_def UpdateUserPassword_def DeactivateUser_def core_def)+

lemma written: "I w \<Longrightarrow> I (afterPasswordWritten svc u current w)"
  by (simp add: afterPasswordWritten_def mailed others)

lemma change_password: "keeps_inv I (ChangePassword svc u old new current)"
  unfolding ChangePassword_def
  by (intro carries_bindE [OF user] carries_if carries_throwE carries_bindE [OF hashed]
      carries_bindE [OF users_change(1)] carries_end written) simp

lemma stepups_change:
  "keeps_inv I (a_db (ConsumeStepUpToken h u sid))" "keeps_inv I (a_db (DeleteUnusedStepUpTokensForSession sid))"
  "keeps_inv I (a_db DeleteExpiredStepUpTokens)" "keeps_inv I (a_db (CreateStepUpToken u sid provider h e))"
  by (rule quiet; simp add: quiet_query_def ConsumeStepUpToken_def DeleteUnusedStepUpTokensForSession_def
      DeleteExpiredStepUpTokens_def CreateStepUpToken_def core_def)+

lemma consume: "keeps_inv I (ConsumeStepUp svc u current raw)"
  unfolding ConsumeStepUp_def
  by (intro carries_if carries_throwE carries_option carries_catchE [OF stepups_change(1)] carries_retE) simp

lemma step_up: "keeps_inv I (IssueStepUp svc u sid provider)"
  unfolding IssueStepUp_def
proof (rule carries_bindE [OF drawn], rule carries_bindE [OF stepups_change(2)])
  fix raw
  have t: "keeps_inv I (bindE (a_db (CreateStepUpToken u sid provider (sha256 svc raw) e)) (\<lambda>_. retE (raw, e)))" for e
    by (intro carries_bindE [OF stepups_change(4)] carries_retE) simp
  show "keeps_inv I (\<lambda>w. let w1 = ignoreE (a_db DeleteExpiredStepUpTokens) w; expires = w_now w1 + stepUpTTL in
      bindE (a_db (CreateStepUpToken u sid provider (sha256 svc raw) expires)) (\<lambda>_. retE (raw, expires)) w1)"
    by (rule carriesI) (simp_all add: Let_def carriesD [OF t] ignored [OF stepups_change(3)])
qed

lemma set_password: "keeps_inv I (SetPassword svc u new stepUp current)"
  unfolding SetPassword_def
  by (intro carries_bindE [OF user] carries_if carries_throwE carries_bindE [OF consume] carries_bindE [OF hashed]
      carries_bindE [OF users_change(1)] carries_end written) simp

lemma confirm: "keeps_inv I (ConfirmPassword svc u pw)"
  unfolding ConfirmPassword_def by (intro carries_bindE [OF user] carries_if carries_throwE carries_retE) simp

lemma confirm_fresh: "keeps_inv I (ConfirmFreshCredential svc u pw current stepUp)"
  unfolding ConfirmFreshCredential_def
  by (intro carries_bindE [OF user] carries_if carries_throwE carries_bindE [OF consume] carries_retE) simp_all

lemma deactivate: "keeps_inv I (DeactivateAccount svc u pw)"
  unfolding DeactivateAccount_def
  by (intro carries_bindE [OF confirm] carries_bindE [OF user] carries_bindE [OF users_change(2)] carries_end
      ignored [OF revokers(3)]) simp_all

lemma resets_change:
  "keeps_inv I (a_db (DeleteUnusedPasswordResetTokens u))" "keeps_inv I (a_db (CreatePasswordResetToken u h e))"
  "keeps_inv I (a_db (MarkPasswordResetTokenUsed i))"
  by (rule quiet; simp add: quiet_query_def DeleteUnusedPasswordResetTokens_def CreatePasswordResetToken_def
      MarkPasswordResetTokenUsed_def core_def)+

lemma request_reset: "keeps_inv I (RequestPasswordReset svc email)"
  unfolding RequestPasswordReset_def
proof (intro carries_catchE [OF row] carries_retE TrueI carries_if carries_bindE [OF drawn])
  fix u raw
  have t: "keeps_inv I (bindE (a_db (CreatePasswordResetToken (us_id u) (sha256 svc raw) e))
         (\<lambda>_. \<lambda>w. (Inr (), mail_to (us_email u) raw w)))" for e
    by (intro carries_bindE [OF resets_change(2)] carries_end mailed) simp_all
  show "keeps_inv I (\<lambda>w. let w1 = ignoreE (a_db (DeleteUnusedPasswordResetTokens (us_id u))) w in
       bindE (a_db (CreatePasswordResetToken (us_id u) (sha256 svc raw) (w_now w1 + resetTTL svc)))
         (\<lambda>_. \<lambda>w. (Inr (), mail_to (us_email u) raw w)) w1)"
    by (rule carriesI) (simp_all add: Let_def carriesD [OF t] ignored [OF resets_change(1)])
qed

lemma throttles_cleared: "I w \<Longrightarrow> I (ignoreE (on_throttles f) w)"
  by (auto simp: ignoreE_def intro: I_same [OF quiet_on_throttles])

lemma reset: "keeps_inv I (ResetPassword svc raw new)"
  unfolding ResetPassword_def
proof (rule carries_bindE [OF row])
  fix r
  have t: "keeps_inv I (bindE (a_row ErrInvalidResetToken (GetUserByID (rt_user r))) (\<lambda>u.
       if \<not> us_is_active u then throwE ErrInvalidResetToken
       else bindE (HashPassword svc new) (\<lambda>h.
         bindE (a_db (UpdateUserPassword (rt_user r) h)) (\<lambda>_. \<lambda>w.
         let w1 = ignoreE (a_db (MarkPasswordResetTokenUsed (rt_id r))) w;
             w2 = ignoreE (a_db (RevokeAllUserSessions (rt_user r))) w1;
             w3 = (if lockStore svc then ignoreE (on_throttles (ClearLoginThrottles (rt_user r))) w2 else w2)
         in (Inr (), w3)))))"
    by (intro carries_bindE [OF row] carries_if carries_throwE carries_bindE [OF hashed] carries_bindE [OF users_change(1)])
      (auto simp: Let_def intro!: carriesI throttles_cleared ignored [OF revokers(3)] ignored [OF resets_change(3)])
  then show "keeps_inv I (\<lambda>w. if rt_used_at r \<noteq> None \<or> \<not> w_now w < rt_expires r then (Inl ErrInvalidResetToken, w)
     else bindE (a_row ErrInvalidResetToken (GetUserByID (rt_user r))) (\<lambda>u.
       if \<not> us_is_active u then throwE ErrInvalidResetToken
       else bindE (HashPassword svc new) (\<lambda>h.
         bindE (a_db (UpdateUserPassword (rt_user r) h)) (\<lambda>_. \<lambda>w.
         let w1 = ignoreE (a_db (MarkPasswordResetTokenUsed (rt_id r))) w;
             w2 = ignoreE (a_db (RevokeAllUserSessions (rt_user r))) w1;
             w3 = (if lockStore svc then ignoreE (on_throttles (ClearLoginThrottles (rt_user r))) w2 else w2)
         in (Inr (), w3)))) w)"
    by (simp add: carries_def)
qed

lemma sealed: "keeps_inv I (sealTOTPSecret svc secret)"
  unfolding sealTOTPSecret_def cipher_Seal_def
  by (intro carries_option carries_bindE [OF drawn] carries_retE) simp_all

lemma opened: "keeps_inv I (openTOTPSecret svc u stored)"
  unfolding openTOTPSecret_def by (intro carries_if carries_option carries_throwE carries_retE) simp_all

lemma begin_totp: "keeps_inv I (BeginTOTPEnrollmentAs svc u issuer)"
  unfolding BeginTOTPEnrollmentAs_def
proof (intro carries_if carries_throwE carries_bindE [OF user])
  fix a
  define k :: "('z, string \<times> string) auth_op" where "k = bindE draw (\<lambda>raw.
         case totpGenerate svc (if issuer = [] then mfaIssuerName svc else issuer) (us_email a) raw of
           None \<Rightarrow> throwE ErrGenerate
         | Some (secret, url) \<Rightarrow>
             bindE (sealTOTPSecret svc secret) (\<lambda>stored.
             catchE (a_dbE (UpsertUserMFA u stored)) (\<lambda>_. throwE ErrMFAAlreadyEnabled) (\<lambda>_. retE (secret, url))))"
  have t: "keeps_inv I k"
    unfolding k_def
    by (auto split: prod.splits intro!: carries_bindE [OF drawn] carries_option carries_throwE carries_bindE [OF sealed]
        carries_catchE [OF stmtE] I_upsert carries_retE)
  have "I (snd (let (enabled, w1) = mfaEnabled svc u w in
       if enabled then (Inl ErrMFAAlreadyEnabled, w1) else k w1))" if w: "I w" for w
    using enabled_world [OF w] carriesD [OF t] by (auto split: prod.splits)
  then show "keeps_inv I (\<lambda>w. let (enabled, w1) = mfaEnabled svc u w in
       if enabled then (Inl ErrMFAAlreadyEnabled, w1)
       else bindE draw (\<lambda>raw.
         case totpGenerate svc (if issuer = [] then mfaIssuerName svc else issuer) (us_email a) raw of
           None \<Rightarrow> throwE ErrGenerate
         | Some (secret, url) \<Rightarrow>
             bindE (sealTOTPSecret svc secret) (\<lambda>stored.
             catchE (a_dbE (UpsertUserMFA u stored)) (\<lambda>_. throwE ErrMFAAlreadyEnabled) (\<lambda>_. retE (secret, url)))) w1)"
    unfolding k_def by (simp add: carries_def)
qed

lemma codes_loop:
  assumes "coded u"
  shows "keeps_inv I (issue_codes svc u n)"
proof (induction n)
  case 0
  show ?case by (simp add: carries_retE)
next
  case (Suc n)
  have g: "keeps_inv I generateRecoveryCode"
    unfolding generateRecoveryCode_def by (intro carries_bindE [OF drawn] carries_retE) simp
  show ?case
    unfolding issue_codes.simps
    by (intro carries_bindE [OF g] carries_bindE [OF stmt] I_code [OF assms] carries_bindE [OF Suc] carries_retE) simp_all
qed

lemma codes_issued: "coded u \<Longrightarrow> keeps_inv I (issueRecoveryCodes svc u)"
  unfolding issueRecoveryCodes_def
  by (intro carries_bindE [OF stmt] codes_loop I_drop_codes)

lemma verify_totp: "keeps_inv I (VerifyTOTPEnrollment svc u code)"
  unfolding VerifyTOTPEnrollment_def
proof (intro carries_if carries_throwE carries_bindE [OF row] carries_bindE [OF opened])
  fix secret
  have e: "carries I (a_db (EnableUserMFA u)) (\<lambda>n. n \<noteq> 0 \<longrightarrow> coded u)"
    by (rule query) (auto intro: I_enable I_enabled)
  have t: "keeps_inv I (bindE (a_db (BurnPendingTOTPStep u step)) (\<lambda>burned.
               if burned = 0 then throwE ErrInvalidMFACode
               else bindE (a_db (EnableUserMFA u)) (\<lambda>n.
                 if n = 0 then throwE ErrMFANotEnrolled else issueRecoveryCodes svc u)))" for step
    by (intro carries_bindE [OF stmt] I_burn_pending carries_if carries_throwE carries_bindE [OF e] codes_issued) simp_all
  show "keeps_inv I (\<lambda>w. case matchTOTPStep svc (w_now w) code secret of
           None \<Rightarrow> (Inl ErrInvalidMFACode, w)
         | Some step \<Rightarrow>
             bindE (a_db (BurnPendingTOTPStep u step)) (\<lambda>burned.
               if burned = 0 then throwE ErrInvalidMFACode
               else bindE (a_db (EnableUserMFA u)) (\<lambda>n.
                 if n = 0 then throwE ErrMFANotEnrolled else issueRecoveryCodes svc u)) w)"
    by (rule carriesI) (auto split: option.splits intro: carriesD [OF t])
qed

lemma removed: "free u \<Longrightarrow> keeps_inv I (remove_second_factor svc a u keep byAdmin)"
  unfolding remove_second_factor_def
  by (auto simp: afterTwoFactorRemoved_def intro!: carries_bindE [OF stmt] I_drop carries_if carries_throwE I_drop_codes
      carries_end mailed others)

lemma disable:
  assumes "admissible ok free svc (Ev_disable_totp u pw cur) w" "I w"
  shows "I (snd (DisableTOTP svc u pw cur w))"
proof (cases "free u")
  case True
  have "keeps_inv I (DisableTOTP svc u pw cur)"
    unfolding DisableTOTP_def by (intro carries_if carries_throwE carries_bindE [OF user] removed True)
  then show ?thesis using assms(2) by (rule carriesD)
next
  case False
  show ?thesis
    using assms False carriesD [OF user assms(2)]
    by (auto simp: DisableTOTP_def op_simps split: prod.splits sum.splits) (metis snd_conv)+
qed

lemma admin_confirmed: "keeps_inv I (confirmAdminPassword svc a pw)"
  unfolding confirmAdminPassword_def by (intro carries_bindE [OF user] carries_if carries_throwE carries_retE) simp

lemma admin_remove:
  assumes "admissible ok free svc (Ev_admin_remove_totp a pw u sid) w" "I w"
  shows "I (snd (AdminRemoveTOTP svc a pw u sid w))"
proof (cases "free u")
  case True
  have "keeps_inv I (AdminRemoveTOTP svc a pw u sid)"
    unfolding AdminRemoveTOTP_def
    by (intro carries_if carries_throwE carries_bindE [OF admin_confirmed] carries_catchE [OF user] removed True)
  then show ?thesis using assms(2) by (rule carriesD)
next
  case False
  show ?thesis
    using assms False carriesD [OF admin_confirmed assms(2)]
    by (auto simp: AdminRemoveTOTP_def op_simps split: prod.splits sum.splits) (metis snd_conv)+
qed

lemma status: "keeps_inv I (GetMFAStatus svc u)"
  unfolding GetMFAStatus_def
  by (intro carries_if carries_throwE carries_catchE [OF row] carries_retE carries_bindE [OF quiet])
    (simp_all add: quiet_query_def CountUnusedRecoveryCodes_def)

lemma challenged_read: "keeps_inv I (challenge_read svc tok code)"
proof (rule carriesI)
  fix w assume w: "I w"
  have r: "keeps_inv I (catchE (UserByID u) (\<lambda>_. throwE ErrInvalidMFAToken) (\<lambda>user.
            bindE (a_row ErrInvalidMFAToken (GetUserMFA u)) (\<lambda>row.
              if \<not> mf_enabled row then throwE ErrInvalidMFAToken
              else if looksLikeTOTPCode code then
                bindE (openTOTPSecret svc u (mf_secret row)) (\<lambda>secret. \<lambda>w.
                  case matchTOTPStep svc (w_now w) code secret of
                    None \<Rightarrow> (Inl ErrInvalidMFACode, w)
                  | Some step \<Rightarrow> (Inr (user, Totp_step step), w))
              else retE (user, Recovery (hashRecoveryCode svc code)))))" for u
    by (intro carries_catchE [OF user] carries_throwE carries_bindE [OF row] carries_if carries_bindE [OF opened] carries_retE)
      (auto intro!: carriesI split: option.splits)
  show "I (snd (challenge_read svc tok code w))"
    using w carriesD [OF r w] by (auto simp: challenge_read_def split: option.splits)
qed simp

lemma spent: "I w \<Longrightarrow> I (snd (spend_factor u f w))"
  by (auto simp: spend_factor_def intro: I_burn I_use split: mfa_factor.splits)

lemma spends_pop: "spends u f (w\<lparr>w_faults := fs\<rparr>) = spends u f w"
  by (auto simp: spends_def spend_factor_def BurnTOTPStep_def UseRecoveryCode_def split: mfa_factor.splits option.splits)

lemma challenge_write_refused:
  assumes "I w" "\<not> spends (us_id u) f w"
  shows "I (snd (challenge_write svc token (u, f) ua w))"
proof (cases rule: repo_cases [of w "spend_factor (us_id u) f"])
  case (fault fs)
  then show ?thesis using I_pop(2) [OF assms(1)] by (simp add: challenge_write_def a_db_def op_simps)
next
  case (run n w1)
  have "n = 0" using assms(2) run(1) spends_pop [of "us_id u" f "tl (w_faults w)" w] by (simp add: spends_def)
  moreover have "I w1" using spent [OF I_pop(1) [OF assms(1)], of "us_id u" f] run(1) by simp
  ultimately show ?thesis using run(2) by (simp add: challenge_write_def a_db_def op_simps)
qed

lemma challenged_write:
  assumes "ok (us_id u) \<or> \<not> spends (us_id u) f w" "I w"
  shows "I (snd (challenge_write svc token (u, f) ua w))"
proof (cases "spends (us_id u) f w")
  case True
  then have "ok (us_id u)" using assms(1) by simp
  then have "keeps_inv I (challenge_write svc token (u, f) ua)"
    unfolding challenge_write_def Let_def split
    by (intro carries_bindE [OF stmt] spent carries_if carries_throwE carries_bindE [OF issued] carries_end noted) simp_all
  then show ?thesis using assms(2) by (rule carriesD)
next
  case False
  then show ?thesis by (rule challenge_write_refused [OF assms(2)])
qed

lemma challenged:
  assumes "admissible ok free svc (Ev_challenge token tok code ua) w" "I w"
  shows "I (snd (CompleteMFAChallenge svc token tok code ua w))"
proof -
  obtain r w1 where r: "challenge_read svc tok code w = (r, w1)" by fastforce
  have w1: "I w1" by (rule read_state [OF challenged_read assms(2) r])
  show ?thesis
    using r w1 assms(1) challenged_write [OF _ w1]
    by (cases r) (auto simp: CompleteMFAChallenge_def op_simps)
qed

lemmas by_requests = login provider refresh logout logout_all authenticate change_password set_password confirm
  confirm_fresh step_up deactivate request_reset reset begin_totp verify_totp status

lemma step: "admissible ok free svc e w \<Longrightarrow> I w \<Longrightarrow> I (auth_exec svc e w)"
  by (cases e)
    (auto intro: by_requests [THEN carriesD] session_account disable admin_remove challenged challenged_write
      carriesD [OF refresh_write] I_same [OF quiet_now(1)] simp del: admissible.simps(3-5))

lemma run: "run_admissible ok free svc es w \<Longrightarrow> I w \<Longrightarrow> I (auth_run svc es w)"
  by (induction es arbitrary: w) (auto intro: step)

end

end
