(* ===== verification/Auth_Props.thy ===== *)
theory Auth_Props
  imports Auth_Events
begin

text \<open>
  What the account service guarantees over any sequence of requests: an account with a second factor
  is not entered without it, a code works once, a replayed refresh token ends every session of its
  owner, a password change locks the other sessions out for good. And where it does not: a failed
  lookup of the second factor is read as none, and a refresh under way outlives a sign-out everywhere.
\<close>

section \<open>Invariants of the tables\<close>

text \<open>A refresh token of an account's session.\<close>

definition token_row :: "string \<Rightarrow> string \<Rightarrow> string \<Rightarrow> 'z auth_world_scheme \<Rightarrow> bool" where
  "token_row h i u w = (case GetSessionByRefreshHash h w of Some s \<Rightarrow> se_id s = i \<and> se_user s = u | None \<Rightarrow> False)"

text \<open>A refresh token whose session, of an account, was revoked for a reason.\<close>

definition spent_token :: "string \<Rightarrow> string \<Rightarrow> string \<Rightarrow> 'z auth_world_scheme \<Rightarrow> bool" where
  "spent_token h u reason w = (case GetSessionByRefreshHash h w of
      Some s \<Rightarrow> se_user s = u \<and> se_revoked_at s \<noteq> None \<and> se_revoked_reason s = reason
    | None \<Rightarrow> False)"

text \<open>A session id that is taken, and whose session, where it is the account's, is revoked.\<close>

definition dead_session :: "string \<Rightarrow> string \<Rightarrow> 'z auth_world_scheme \<Rightarrow> bool" where
  "dead_session i u w \<longleftrightarrow> i \<in> se_id ` set (au_sessions w) \<and>
     (\<forall>s \<in> set (au_sessions w). se_id s = i \<and> se_user s = u \<longrightarrow> se_revoked_at s \<noteq> None)"

text \<open>A refresh token whose session is revoked.\<close>

definition dead_token :: "string \<Rightarrow> 'z auth_world_scheme \<Rightarrow> bool" where
  "dead_token h w = (case GetSessionByRefreshHash h w of Some s \<Rightarrow> se_revoked_at s \<noteq> None | None \<Rightarrow> False)"

text \<open>A factor that cannot be spent again while the account's second factor stays on.\<close>

definition used_up :: "string \<Rightarrow> mfa_factor \<Rightarrow> 'z auth_world_scheme \<Rightarrow> bool" where
  "used_up u f w = (case au_mfa w u of
      None \<Rightarrow> False
    | Some r \<Rightarrow> mf_enabled r \<and> (case f of
         Totp_step step \<Rightarrow> (case mf_last_step r of None \<Rightarrow> False | Some l \<Rightarrow> step \<le> l)
       | Recovery h \<Rightarrow> \<not> list_ex (open_code u h) (au_codes w)))"

text \<open>A healthy database, the second factor on, and no session of the account that is not revoked.\<close>

definition shut_out :: "('y) auth_Service_scheme \<Rightarrow> string \<Rightarrow> 'z auth_world_scheme \<Rightarrow> bool" where
  "shut_out svc u w \<longleftrightarrow> mfaRepo svc \<and> w_faults w = [] \<and>
     (case au_mfa w u of None \<Rightarrow> False | Some r \<Rightarrow> mf_enabled r) \<and>
     (\<forall>s \<in> set (au_sessions w). se_user s = u \<longrightarrow> se_revoked_at s \<noteq> None)"

abbreviation (input) anyone :: "string \<Rightarrow> bool" where "anyone \<equiv> \<lambda>_. True"
abbreviation (input) but :: "string \<Rightarrow> string \<Rightarrow> bool" where "but u \<equiv> \<lambda>v. v \<noteq> u"

text \<open>An instance to evaluate on: one account with a second factor and one session.\<close>

definition acct_svc :: auth_Service where
  "acct_svc = \<lparr>deviceStore = False, newDeviceMailer = False, sha256 = (\<lambda>s. CHR ''#'' # s), lockStore = False,
     delayOnlyPrefix = False,
     as_issuer = \<lparr>ti_secret = ''k'', ti_issuer = ''vidra'', ti_audience = ''app'', ti_ttl = Hour\<rparr>,
     refreshTTL = 24 * Hour, resetTTL = Hour, verificationGate = False, mfaRepo = True, mfaCipher = None,
     mfaIssuerName = ''Vidra'', CompareHashAndPassword = (\<lambda>h p. h = p), GenerateFromPassword = Some,
     SignedString = (\<lambda>_ c. Some (cl_Audience c @ cl_Subject c)),
     ParseWithClaims = (\<lambda>_ iss aud now tok. if take (length aud) tok = aud
        then Some \<lparr>cl_Role = ''user'', cl_SessionID = [], cl_Subject = drop (length aud) tok, cl_Issuer = iss,
          cl_Audience = aud, cl_IssuedAt = now, cl_NotBefore = now, cl_ExpiresAt = now\<rparr> else None),
     uuidParse = (\<lambda>s. if s = [] then None else Some s),
     GenerateCodeCustom = (\<lambda>_ t. Some (if t = 60 then ''000060'' else ''999999'')),
     totpGenerate = (\<lambda>_ _ r. Some (r, r))\<rparr>"

definition acct_user :: User where
  "acct_user = \<lparr>us_id = ''u'', us_username = ''ann'', us_email = ''a@x'', us_password_hash = ''pw'', us_role = ''user'',
     us_email_verified = True, us_is_active = True, us_deleted = False, us_pending_verification = False\<rparr>"

definition acct_session :: "string \<Rightarrow> int option \<Rightarrow> Session" where
  "acct_session i revoked = \<lparr>se_id = i, se_user = ''u'', se_refresh_hash = CHR ''#'' # i, se_agent = [], se_revoked_at = revoked,
     se_revoked_reason = (if revoked = None then [] else ''signed_out''), se_expires = Hour\<rparr>"

definition acct_world :: "bool list \<Rightarrow> Session list \<Rightarrow> auth_world" where
  "acct_world fs ss = \<lparr>w_now = 60 * Second, w_faults = fs, dw_devices = [], dw_prefs = (\<lambda>_. None), dw_outbox = [],
     lw_throttles = (\<lambda>_. None), au_users = [acct_user], au_sessions = ss,
     au_mfa = (\<lambda>_. None)(''u'' \<mapsto> \<lparr>mf_secret = ''s'', mf_enabled = True, mf_last_step = None\<rparr>),
     au_codes = [], au_resets = [], au_stepups = [], au_ids = [''n1'', ''n2'', ''n3''],
     au_random = [Some ''x1'', Some ''x2'', Some ''x3'']\<rparr>"

text \<open>A sign-in with the right password, a wrong code, a wrong removal, a made-up refresh token.\<close>

definition acct_events :: "auth_event list" where
  "acct_events = [Ev_login [] \<lparr>li_Email = [], li_Identifier = ''ann'', li_Password = ''pw'', li_ClientIP = []\<rparr> [],
     Ev_challenge [] ''app:mfau'' ''111111'' [], Ev_disable_totp ''u'' ''guess'' [], Ev_refresh ''zz'' []]"

lemma find_map_stable:
  assumes "\<And>x. P (f x) = P x"
  shows "find P (map f xs) = map_option f (find P xs)"
  by (induction xs) (simp_all add: assms)

lemma find_append_Some: "find P xs = Some x \<Longrightarrow> find P (xs @ ys) = Some x"
  by (induction xs) (auto split: if_splits)

lemmas mfa_statements = UpsertUserMFA_def EnableUserMFA_def BurnTOTPStep_def BurnPendingTOTPStep_def DeleteUserMFA_def
lemmas code_statements = UseRecoveryCode_def DeleteRecoveryCodes_def CreateRecoveryCode_def

lemma sessions_same:
  "au_sessions (snd (UpsertUserMFA v secret w)) = au_sessions w"
  "au_sessions (snd (EnableUserMFA v w)) = au_sessions w"
  "au_sessions (snd (BurnTOTPStep v step w)) = au_sessions w"
  "au_sessions (snd (BurnPendingTOTPStep v step w)) = au_sessions w"
  "au_sessions (snd (DeleteUserMFA v w)) = au_sessions w"
  "au_sessions (snd (UseRecoveryCode v h w)) = au_sessions w"
  "au_sessions (snd (DeleteRecoveryCodes v w)) = au_sessions w"
  "au_sessions (snd (CreateRecoveryCode v h w)) = au_sessions w"
  by (simp_all add: mfa_statements code_statements split: option.splits)

lemma mfa_same:
  "au_mfa (snd (auth_CreateSession v h ua e w)) = au_mfa w" "au_codes (snd (auth_CreateSession v h ua e w)) = au_codes w"
  "w_faults (snd (auth_CreateSession v h ua e w)) = w_faults w"
  "au_mfa (snd (revoke_where P reason w)) = au_mfa w" "au_codes (snd (revoke_where P reason w)) = au_codes w"
  "w_faults (snd (revoke_where P reason w)) = w_faults w"
  "au_mfa (snd (UseRecoveryCode v h w)) = au_mfa w" "au_mfa (snd (DeleteRecoveryCodes v w)) = au_mfa w"
  "au_mfa (snd (CreateRecoveryCode v h w)) = au_mfa w"
  by (simp_all add: auth_CreateSession_def revoke_where_def code_statements Let_def split: list.splits)

lemma faults_same:
  "w_faults (snd (UpsertUserMFA v secret w)) = w_faults w" "w_faults (snd (EnableUserMFA v w)) = w_faults w"
  "w_faults (snd (BurnTOTPStep v step w)) = w_faults w" "w_faults (snd (BurnPendingTOTPStep v step w)) = w_faults w"
  "w_faults (snd (DeleteUserMFA v w)) = w_faults w" "w_faults (snd (UseRecoveryCode v h w)) = w_faults w"
  "w_faults (snd (DeleteRecoveryCodes v w)) = w_faults w" "w_faults (snd (CreateRecoveryCode v h w)) = w_faults w"
  by (simp_all add: mfa_statements code_statements split: option.splits)

lemma sessions_created:
  "au_sessions (snd (auth_CreateSession v h ua e w)) = au_sessions w \<or>
   (\<exists>s. au_sessions (snd (auth_CreateSession v h ua e w)) = au_sessions w @ [s] \<and> se_user s = v \<and>
        se_id s \<notin> se_id ` set (au_sessions w) \<and> se_refresh_hash s = h)"
  by (auto simp: auth_CreateSession_def Let_def list_ex_iff split: list.splits)

lemma by_hash_revoked:
  "GetSessionByRefreshHash h (snd (revoke_where P reason w)) = map_option (\<lambda>s. if P s \<and> se_revoked_at s = None
     then s\<lparr>se_revoked_at := Some (w_now w), se_revoked_reason := reason\<rparr> else s) (GetSessionByRefreshHash h w)"
  by (simp add: GetSessionByRefreshHash_def revoke_where_def find_map_stable)

lemma by_hash_created:
  "GetSessionByRefreshHash h w = Some s \<Longrightarrow> GetSessionByRefreshHash h (snd (auth_CreateSession v k ua e w)) = Some s"
  using sessions_created [of v k ua e w] by (auto simp: GetSessionByRefreshHash_def find_append_Some)

lemma same_core_tables:
  "same_core w w' \<Longrightarrow> au_sessions w' = au_sessions w \<and> au_mfa w' = au_mfa w \<and> au_codes w' = au_codes w"
  by (simp add: same_core_def core_def)

lemma by_hash_cong: "au_sessions w' = au_sessions w \<Longrightarrow> GetSessionByRefreshHash h w' = GetSessionByRefreshHash h w"
  by (simp add: GetSessionByRefreshHash_def)

lemmas by_hash_same = sessions_same [THEN by_hash_cong]

interpretation row: auth_invariant svc "token_row h i u" anyone anyone anyone for svc h i u
  by unfold_locales
    (auto simp: token_row_def by_hash_revoked by_hash_created by_hash_same
      dest!: same_core_tables by_hash_cong [of _ _ h] split: option.splits)

interpretation spent: auth_invariant svc "spent_token h u reason" anyone anyone anyone for svc h u reason
  by unfold_locales
    (auto simp: spent_token_def by_hash_revoked by_hash_created by_hash_same
      dest!: same_core_tables by_hash_cong [of _ _ h] split: option.splits)

interpretation token: auth_invariant svc "dead_token h" anyone anyone anyone for svc h
  by unfold_locales
    (auto simp: dead_token_def by_hash_revoked by_hash_created by_hash_same
      dest!: same_core_tables by_hash_cong [of _ _ h] split: option.splits)

lemma revoked_ids: "se_id ` set (au_sessions (snd (revoke_where P reason w))) = se_id ` set (au_sessions w)"
proof -
  have "map se_id (au_sessions (snd (revoke_where P reason w))) = map se_id (au_sessions w)"
    by (simp add: revoke_where_def)
  then show ?thesis by (metis list.set_map)
qed

interpretation dead: auth_invariant svc "dead_session i u" anyone anyone anyone for svc i u
proof
  show "dead_session i u (snd (auth_CreateSession v h ua e w))" if "dead_session i u w" for v h ua e w
    using sessions_created [of v h ua e w] that by (auto simp: dead_session_def)
  show "dead_session i u (snd (revoke_where P reason w))" if "dead_session i u w" for w P reason
    using that revoked_ids [of P reason w] by (auto simp: dead_session_def) (auto simp: revoke_where_def)
qed (auto simp: dead_session_def sessions_same dest: same_core_tables)

interpretation used: auth_invariant svc "used_up u f" anyone "but u" "but u" for svc u f
proof
  show "used_up u f (snd (UpsertUserMFA v secret w))" if "used_up u f w" for v secret w
    using that by (auto simp: used_up_def UpsertUserMFA_def split: option.splits mfa_factor.splits)
  show "used_up u f (snd (EnableUserMFA v w))" if "used_up u f w" for v w
    using that by (auto simp: used_up_def EnableUserMFA_def split: option.splits mfa_factor.splits)
  show "used_up u f (snd (BurnTOTPStep v step w))" if "used_up u f w" for v step w
    using that by (auto simp: used_up_def BurnTOTPStep_def newer_step_def split: option.splits mfa_factor.splits)
  show "used_up u f (snd (BurnPendingTOTPStep v step w))" if "used_up u f w" for v step w
    using that by (auto simp: used_up_def BurnPendingTOTPStep_def newer_step_def split: option.splits mfa_factor.splits)
  show "used_up u f (snd (UseRecoveryCode v h w))" if "used_up u f w" for v h w
    using that by (auto simp: used_up_def UseRecoveryCode_def list_ex_iff open_code_def split: option.splits mfa_factor.splits)
  show "used_up u f (snd (DeleteRecoveryCodes v w))" if "used_up u f w" for v w
    using that by (auto simp: used_up_def DeleteRecoveryCodes_def list_ex_iff split: option.splits mfa_factor.splits)
  show "v \<noteq> u" if "used_up u f w" "fst (EnableUserMFA v w) \<noteq> 0" for v w
    using that by (auto simp: used_up_def EnableUserMFA_def split: option.splits)
  show "used_up u f (snd (CreateRecoveryCode v h w))" if "v \<noteq> u" "used_up u f w" for v h w
    using that by (auto simp: used_up_def CreateRecoveryCode_def open_code_def split: option.splits mfa_factor.splits)
  show "used_up u f (snd (DeleteUserMFA v w))" if "v \<noteq> u" "used_up u f w" for v w
    using that by (auto simp: used_up_def DeleteUserMFA_def split: option.splits mfa_factor.splits)
qed (auto simp: used_up_def mfa_same dest!: same_core_tables split: option.splits mfa_factor.splits)

interpretation shut: auth_invariant svc "shut_out svc u" "but u" "but u" anyone for svc u
proof
  show "shut_out svc u (snd (auth_CreateSession v h ua e w))" if "v \<noteq> u" "shut_out svc u w" for v h ua e w
    using sessions_created [of v h ua e w] that by (auto simp: shut_out_def mfa_same)
  show "shut_out svc u (snd (revoke_where P reason w))" if "shut_out svc u w" for w P reason
    using that by (auto simp: shut_out_def revoke_where_def)
  show "shut_out svc u (snd (UpsertUserMFA v secret w))" if "shut_out svc u w" for v secret w
    using that by (auto simp: shut_out_def UpsertUserMFA_def split: option.splits)
  show "shut_out svc u (snd (EnableUserMFA v w))" if "shut_out svc u w" for v w
    using that by (auto simp: shut_out_def EnableUserMFA_def split: option.splits)
  show "shut_out svc u (snd (BurnTOTPStep v step w))" if "shut_out svc u w" for v step w
    using that by (auto simp: shut_out_def BurnTOTPStep_def split: option.splits)
  show "shut_out svc u (snd (BurnPendingTOTPStep v step w))" if "shut_out svc u w" for v step w
    using that by (auto simp: shut_out_def BurnPendingTOTPStep_def split: option.splits)
  show "shut_out svc u (snd (DeleteUserMFA v w))" if "v \<noteq> u" "shut_out svc u w" for v w
    using that by (auto simp: shut_out_def DeleteUserMFA_def split: option.splits)
  show "v \<noteq> u" if "shut_out svc u w" "\<not> fst (mfaEnabled svc v w)" for v w
    using that by (auto simp: shut_out_def mfaEnabled_def tryE_def op_simps GetUserMFA_def split: option.splits)
  show "shut_out svc u w'" if "same_core w w'" "shut_out svc u w" for w w'
    using that by (auto simp: shut_out_def same_core_def core_def)
qed (auto simp: shut_out_def sessions_same mfa_same faults_same)

section \<open>What a successful call shows\<close>

lemma find_SomeD: "find P xs = Some x \<Longrightarrow> x \<in> set xs \<and> P x"
  by (auto simp: find_Some_iff)

lemma active_row:
  "GetActiveSessionForAccessToken i w = Some (v, role) \<Longrightarrow>
   \<exists>s \<in> set (au_sessions w). se_id s = i \<and> se_revoked_at s = None \<and> se_user s = v"
  by (auto simp: GetActiveSessionForAccessToken_def live_session_def split: option.splits if_splits dest!: find_SomeD)

lemma catchE_throwE_Inr:
  "catchE m (\<lambda>_. throwE e) k w = (Inr b, w') \<longleftrightarrow> (\<exists>a w0. m w = (Inr a, w0) \<and> k a w0 = (Inr b, w'))"
  by (auto simp: catchE_def throwE_def split: prod.splits sum.splits)

lemma repo_Inr: "repo q w = (Inr a, w') \<Longrightarrow> q (w\<lparr>w_faults := tl (w_faults w)\<rparr>) = (a, w')"
  by (cases rule: repo_cases [of w q]) auto

lemma authenticate_live:
  assumes "fst (AuthenticateAccessToken svc c w) = Inr p"
  shows "\<exists>s \<in> set (au_sessions w). se_revoked_at s = None \<and> se_user s = pr_UserID p \<and>
    (\<exists>cl. c = Some cl \<and> uuidParse svc (cl_SessionID cl) = Some (se_id s))"
proof -
  obtain w' where a: "AuthenticateAccessToken svc c w = (Inr p, w')" using assms by (metis prod.collapse)
  then obtain cl v sid where c: "c = Some cl" "uuidParse svc (cl_Subject cl) = Some v" "uuidParse svc (cl_SessionID cl) = Some sid"
    by (auto simp: AuthenticateAccessToken_def throwE_apply split: option.splits)
  then obtain q w1 where r: "repo (\<lambda>w. (GetActiveSessionForAccessToken sid w, w)) w = (Inr q, w1)"
    and k: "(case q of None \<Rightarrow> throwE ErrSessionRevoked | Some (x, role) \<Rightarrow> if x \<noteq> v then throwE ErrSessionRevoked
       else retE \<lparr>pr_UserID = v, pr_Role = role\<rparr>) w1 = (Inr p, w')"
    using a by (auto simp: AuthenticateAccessToken_def catchE_throwE_Inr)
  obtain role where q: "q = Some (v, role)" "pr_UserID p = v"
    using k by (cases q) (auto simp: throwE_apply retE_apply split: if_splits)
  have "GetActiveSessionForAccessToken sid (w\<lparr>w_faults := tl (w_faults w)\<rparr>) = Some (v, role)"
    using repo_Inr [OF r] q(1) by blast
  from active_row [OF this] show ?thesis using c q(2) by auto
qed

lemma refresh_Inr:
  assumes "auth_Refresh svc raw ua w = (Inr (user, t), w1)"
  obtains s w0 where "Refresh_read svc raw w = (Inr (s, user), w0)" "Refresh_write svc (s, user) ua w0 = (Inr (user, t), w1)"
proof -
  obtain s v w0 where r: "Refresh_read svc raw w = (Inr (s, v), w0)" "Refresh_write svc (s, v) ua w0 = (Inr (user, t), w1)"
    using assms by (auto simp: auth_Refresh_def bindE_Inr)
  have "v = user" using r(2) by (auto simp: Refresh_write_def bindE_Inr split: prod.splits)
  then show ?thesis using that r by simp
qed

lemma a_row_Inr: "a_row e q w = (Inr a, w') \<Longrightarrow> q (w\<lparr>w_faults := tl (w_faults w)\<rparr>) = Some a \<and> w' = w\<lparr>w_faults := tl (w_faults w)\<rparr>"
  by (cases rule: repo_cases [of w "\<lambda>w. (q w, w)"]) (auto simp: a_row_def op_simps split: option.splits)

lemma a_db_Inr: "a_db q w = (Inr a, w') \<Longrightarrow> q (w\<lparr>w_faults := tl (w_faults w)\<rparr>) = (a, w')"
  by (cases rule: repo_cases [of w q]) (auto simp: a_db_def op_simps)

lemma UserByID_Inr: "UserByID i w = (Inr user, w') \<Longrightarrow> us_id user = i \<and> w' = w\<lparr>w_faults := tl (w_faults w)\<rparr>"
  by (auto simp: UserByID_def bindE_Inr GetUserByID_def find_Some_iff throwE_apply retE_apply dest!: a_row_Inr split: if_splits)

lemma refresh_read_row:
  assumes "Refresh_read svc raw w = (Inr (s, user), w1)"
  shows "GetSessionByRefreshHash (sha256 svc raw) w = Some s \<and> se_revoked_at s = None \<and> us_id user = se_user s \<and>
    au_sessions w1 = au_sessions w"
proof -
  obtain w0 where r: "a_row ErrInvalidRefresh (GetSessionByRefreshHash (sha256 svc raw)) w = (Inr s, w0)"
    and live: "se_revoked_at s = None" and u: "UserByID (se_user s) w0 = (Inr user, w1)"
    using assms
    by (auto simp: Refresh_read_def bindE_Inr catchE_throwE_Inr throwE_apply retE_apply split: if_splits)
  then show ?thesis
    using a_row_Inr [OF r] UserByID_Inr [OF u] by (auto simp: GetSessionByRefreshHash_def)
qed

section \<open>Sessions and the second factor\<close>

text \<open>C5. On a healthy database, an account whose second factor is on and whose sessions are all
  revoked cannot be entered without it. Let any sequence of requests happen - sign-ins with the
  right password, provider sign-ins, refreshes, resets, enrolments, challenges with any tokens
  and codes - in which no challenge of the account spends a code, no removal of its second factor
  gets past the password check and no refresh of it was already under way. Afterwards no access
  token authenticates as the account and no refresh token refreshes for it.\<close>

theorem no_session_without_second_factor:
  assumes "mfaRepo svc" "w_faults w = []" "au_mfa w u = Some r" "mf_enabled r"
    and "\<forall>s \<in> set (au_sessions w). se_user s = u \<longrightarrow> se_revoked_at s \<noteq> None"
    and "run_admissible (but u) (but u) svc es w"
  shows "(\<forall>c p. fst (AuthenticateAccessToken svc c (auth_run svc es w)) = Inr p \<longrightarrow> pr_UserID p \<noteq> u) \<and>
    (\<forall>raw ua user t. fst (auth_Refresh svc raw ua (auth_run svc es w)) = Inr (user, t) \<longrightarrow> us_id user \<noteq> u)"
proof -
  define w' where "w' = auth_run svc es w"
  have inv: "shut_out svc u w'"
    unfolding w'_def using assms by (intro shut.run) (auto simp: shut_out_def)
  have "pr_UserID p \<noteq> u" if "fst (AuthenticateAccessToken svc c w') = Inr p" for c p
    using authenticate_live [OF that] inv by (auto simp: shut_out_def)
  moreover have "us_id user \<noteq> u" if r: "fst (auth_Refresh svc raw ua w') = Inr (user, t)" for raw ua user t
  proof -
    obtain w1 where "auth_Refresh svc raw ua w' = (Inr (user, t), w1)" using r by (metis prod.collapse)
    then obtain s w0 where "Refresh_read svc raw w' = (Inr (s, user), w0)" by (rule refresh_Inr)
    then show ?thesis using shut.refresh_read [of svc u raw] inv by (auto dest: carriesR)
  qed
  ultimately show ?thesis by (simp add: w'_def)
qed

lemma challenge_read_enabled:
  assumes "challenge_read svc tok code w = (Inr (user, f), w1)"
  shows "\<exists>r. au_mfa w1 (us_id user) = Some r \<and> mf_enabled r"
proof -
  obtain u w2 row w3 where u: "UserByID u w = (Inr user, w2)"
    and r: "a_row ErrInvalidMFAToken (GetUserMFA u) w2 = (Inr row, w3)" "mf_enabled row" "w1 = w3"
    using assms
    by (auto simp: challenge_read_def catchE_throwE_Inr bindE_Inr openTOTPSecret_def throwE_apply retE_apply
        split: option.splits if_splits)
  show ?thesis
    using UserByID_Inr [OF u] a_row_Inr [OF r(1)] r(2,3) by (auto simp: GetUserMFA_def)
qed

lemma spent_used_up:
  assumes "au_mfa w u = Some r" "mf_enabled r" "spend_factor u f w = (n, w')" "n \<noteq> 0"
  shows "used_up u f w'"
proof (cases f)
  case (Totp_step step)
  then show ?thesis
    using assms by (auto simp: spend_factor_def BurnTOTPStep_def used_up_def split: if_splits)
next
  case (Recovery h)
  have "\<not> open_code u h (if open_code u h c then c\<lparr>rc_used_at := Some (w_now w)\<rparr> else c)" for c
    by (simp add: open_code_def)
  moreover have "au_mfa w' = au_mfa w"
    "au_codes w' = map (\<lambda>c. if open_code u h c then c\<lparr>rc_used_at := Some (w_now w)\<rparr> else c) (au_codes w)"
    using assms(3) Recovery by (auto simp: spend_factor_def UseRecoveryCode_def)
  ultimately show ?thesis
    using assms(1,2) Recovery by (auto simp: used_up_def list_ex_iff simp del: if_image_distrib)
qed

lemma challenge_write_used_up:
  assumes "au_mfa w (us_id user) = Some r" "mf_enabled r" "challenge_write svc token (user, f) ua w = (Inr x, w')"
  shows "used_up (us_id user) f w'"
proof -
  obtain n w1 t w2 where s: "a_db (spend_factor (us_id user) f) w = (Inr n, w1)" "n \<noteq> 0"
    and i: "issueTokens svc user ua w1 = (Inr t, w2)"
    and w': "w' = noteSignIn svc token (us_id user) (us_email user) ua w2"
    using assms(3) by (auto simp: challenge_write_def bindE_Inr throwE_apply split: if_splits)
  have "used_up (us_id user) f w1"
    using spent_used_up [OF _ assms(2) a_db_Inr [OF s(1)] s(2)] assms(1) by simp
  then have "used_up (us_id user) f w2"
    using used.read_state [OF used.issued _ i] by simp
  then show ?thesis using used.noted(2) w' by simp
qed

lemma used_up_older:
  assumes "used_up u f w" "case (f, f2) of (Totp_step a, Totp_step b) \<Rightarrow> b \<le> a | _ \<Rightarrow> f2 = f"
  shows "used_up u f2 w"
  using assms by (auto simp: used_up_def split: option.splits mfa_factor.splits)

lemma used_up_refused:
  assumes "used_up (us_id user) f w"
  shows "\<exists>e. fst (challenge_write svc token (user, f) ua w) = Inl e"
proof (cases rule: repo_cases [of w "spend_factor (us_id user) f"])
  case (fault fs)
  then show ?thesis by (simp add: challenge_write_def a_db_def op_simps)
next
  case (run n w1)
  have "n = 0"
    using assms run(1)
    by (auto simp: spend_factor_def BurnTOTPStep_def UseRecoveryCode_def used_up_def newer_step_def list_ex_iff
        filter_empty_conv split: mfa_factor.splits option.splits if_splits)
  then show ?thesis using run(2) by (simp add: challenge_write_def a_db_def op_simps)
qed

text \<open>C6. A TOTP code or a recovery code that has completed a challenge does not complete another
  one. Whatever requests run in between, short of a removal of the account's second factor that
  gets past the password check, and whatever queries fail, a challenge that presents the same
  recovery code, or a code of the same or an earlier time step, fails; this includes challenges
  that had checked the code before the first one spent it.\<close>

theorem second_factor_single_use:
  assumes "challenge_read svc tok code w = (Inr (user, f), w1)" "challenge_write svc token (user, f) ua w1 = (Inr r, w2)"
    and "run_admissible anyone (but (us_id user)) svc es w2"
    and "us_id user2 = us_id user" "case (f, f2) of (Totp_step a, Totp_step b) \<Rightarrow> b \<le> a | _ \<Rightarrow> f2 = f"
  shows "\<exists>e. fst (challenge_write svc token2 (user2, f2) ub (auth_run svc es w2)) = Inl e"
proof -
  obtain m where "au_mfa w1 (us_id user) = Some m" "mf_enabled m"
    using challenge_read_enabled [OF assms(1)] by blast
  then have "used_up (us_id user) f w2" using assms(2) by (rule challenge_write_used_up)
  then have "used_up (us_id user) f (auth_run svc es w2)" using assms(3) by (intro used.run)
  then show ?thesis using used_up_older [OF _ assms(5)] used_up_refused assms(4) by metis
qed

section \<open>Refresh tokens\<close>

lemma rotate_marks:
  assumes "GetSessionByRefreshHash h w = Some row"
  shows "spent_token h (se_user row) (if se_revoked_at row = None then sessionRevokedRotated else se_revoked_reason row)
    (snd (RotateSession (se_id row) w))"
  using assms by (simp add: spent_token_def RotateSession_def by_hash_revoked sessionRevokedRotated_def)

text \<open>What the second half of a refresh leaves of the session it read.\<close>

lemma refresh_spends:
  assumes "Refresh_write svc (s, user) ua w = (Inr (user, t), w1)"
    "GetSessionByRefreshHash h w = Some row" "se_id row = se_id s"
  shows "spent_token h (se_user row) (if se_revoked_at row = None then sessionRevokedRotated else se_revoked_reason row) w1"
proof -
  let ?v = "w\<lparr>w_faults := tl (w_faults w)\<rparr>"
  let ?I = "spent_token h (se_user row) (if se_revoked_at row = None then sessionRevokedRotated else se_revoked_reason row)"
  obtain w2 sid w3 where rot: "a_db (RotateSession (se_id s)) w = (Inr (), w2)"
    and iss: "issueTokensForSession svc user ua w2 = (Inr (t, sid), w3)"
    and w1: "w1 = ignoreE (a_db (MoveStepUpTokensToSession (se_id s) sid)) w3"
    using assms(1) by (auto simp: Refresh_write_def bindE_Inr)
  have "GetSessionByRefreshHash h ?v = Some row" using assms(2) by (simp add: GetSessionByRefreshHash_def)
  then have "?I w2" using rotate_marks [of h ?v row] a_db_Inr [OF rot] assms(3) by simp
  then have "?I w3" using spent.read_state [OF spent.issuedFor _ iss] by simp
  then show ?thesis
    unfolding w1 by (rule spent.ignored [rotated])
      (rule spent.quiet, simp add: quiet_query_def MoveStepUpTokensToSession_def core_def)
qed

text \<open>The replay of a spent token.\<close>

lemma spent_refused:
  assumes "spent_token (sha256 svc raw) u reason w"
  shows "fst (auth_Refresh svc raw ub w) = Inl ErrInvalidRefresh"
proof (cases rule: repo_cases [of w "\<lambda>w. (GetSessionByRefreshHash (sha256 svc raw) w, w)"])
  case (fault fs)
  then show ?thesis by (simp add: auth_Refresh_def Refresh_read_def op_simps a_row_def a_db_def)
next
  case (run a w')
  then show ?thesis using assms
    by (auto simp: auth_Refresh_def Refresh_read_def op_simps a_row_def a_db_def spent_token_def GetSessionByRefreshHash_def
        split: option.splits)
qed

lemma spent_replayed:
  assumes "spent_token (sha256 svc raw) u reason w" "w_faults w = []"
  shows "if reason = sessionRevokedRotated \<or> reason = []
    then \<forall>x \<in> set (au_sessions (snd (auth_Refresh svc raw ub w))). se_user x = u \<longrightarrow> se_revoked_at x \<noteq> None
    else au_sessions (snd (auth_Refresh svc raw ub w)) = au_sessions w"
proof -
  obtain s where s: "GetSessionByRefreshHash (sha256 svc raw) w = Some s" "se_user s = u"
    "se_revoked_at s \<noteq> None" "se_revoked_reason s = reason"
    using assms(1) by (auto simp: spent_token_def split: option.splits)
  have "snd (auth_Refresh svc raw ub w) =
      (if reason = sessionRevokedRotated \<or> reason = [] then snd (RevokeAllUserSessions u w) else w)"
    using s assms(2) by (simp add: auth_Refresh_def Refresh_read_def op_simps a_row_def a_db_def healthy_noop split: prod.splits)
  moreover have "\<forall>x \<in> set (au_sessions (snd (RevokeAllUserSessions u w))). se_user x = u \<longrightarrow> se_revoked_at x \<noteq> None"
    by (simp add: RevokeAllUserSessions_def revoke_where_def ball_Un)
  ultimately show ?thesis by simp
qed

text \<open>C7. A refresh token that was exchanged is refused from then on: with any requests between the
  two halves of the exchange (its read and its rotation) and any after it, and whatever queries
  fail, presenting it again answers invalid. When the database answers, the replay also leaves
  the account without a session that is not revoked, if at the time of the rotation the session
  was still live or had been rotated already by a racing exchange, or was revoked without a
  reason. If instead a sign-out had revoked it between the two halves, the replay is refused but
  changes no session, so the one the exchange issued stays.\<close>

theorem refresh_replay_revokes:
  assumes "Refresh_read svc raw w = (Inr (s, user), w1)"
    "Refresh_write svc (s, user) ua (auth_run svc es1 w1) = (Inr (user, t), w2)"
  shows "fst (auth_Refresh svc raw ub (auth_run svc es2 w2)) = Inl ErrInvalidRefresh \<and>
    (\<exists>row. GetSessionByRefreshHash (sha256 svc raw) (auth_run svc es1 w1) = Some row \<and> se_user row = us_id user \<and>
      (w_faults (auth_run svc es2 w2) = [] \<longrightarrow>
        (if se_revoked_at row = None \<or> se_revoked_reason row \<in> {sessionRevokedRotated, []}
         then \<forall>x \<in> set (au_sessions (snd (auth_Refresh svc raw ub (auth_run svc es2 w2)))).
           se_user x = us_id user \<longrightarrow> se_revoked_at x \<noteq> None
         else au_sessions (snd (auth_Refresh svc raw ub (auth_run svc es2 w2))) = au_sessions (auth_run svc es2 w2))))"
proof -
  let ?h = "sha256 svc raw" and ?u = "us_id user"
  have "token_row ?h (se_id s) ?u w1"
    using refresh_read_row [OF assms(1)] by (auto simp: token_row_def GetSessionByRefreshHash_def)
  then have "token_row ?h (se_id s) ?u (auth_run svc es1 w1)" by (rule row.run [OF run_admissible_top])
  then obtain row where row: "GetSessionByRefreshHash ?h (auth_run svc es1 w1) = Some row" "se_id row = se_id s" "se_user row = ?u"
    by (auto simp: token_row_def split: option.splits)
  let ?q = "if se_revoked_at row = None then sessionRevokedRotated else se_revoked_reason row"
  have "spent_token ?h ?u ?q w2" using refresh_spends [OF assms(2) row(1,2)] row(3) by simp
  then have sp: "spent_token ?h ?u ?q (auth_run svc es2 w2)" by (rule spent.run [OF run_admissible_top])
  have q: "(?q = sessionRevokedRotated \<or> ?q = []) =
      (se_revoked_at row = None \<or> se_revoked_reason row \<in> {sessionRevokedRotated, []})" by auto
  show ?thesis
    by (intro conjI exI [of _ row] impI spent_refused [OF sp] row(1,3) spent_replayed [OF sp, unfolded q])
qed

lemma issueTokensForSession_ok:
  assumes "w_faults w = []" "au_random w = Some x # xs" "au_ids w = i # is"
    and "\<forall>s \<in> set (au_sessions w). se_id s \<noteq> i \<and> se_refresh_hash s \<noteq> sha256 svc x"
    and "\<And>k c. SignedString svc k c \<noteq> None"
  shows "\<exists>tok w'. issueTokensForSession svc user ua w = (Inr (tok, i), w') \<and> w_now w' = w_now w \<and> w_faults w' = [] \<and>
    au_sessions w' = au_sessions w @ [\<lparr>se_id = i, se_user = us_id user, se_refresh_hash = sha256 svc x, se_agent = ua,
      se_revoked_at = None, se_revoked_reason = [], se_expires = w_now w + refreshTTL svc\<rparr>]"
proof -
  have fresh: "\<not> list_ex (\<lambda>s. se_id s = i \<or> se_refresh_hash s = sha256 svc x) (au_sessions w)"
    using assms(4) by (auto simp: list_ex_iff)
  show ?thesis
    using assms(1-3) fresh assms(5)
    by (auto simp: issueTokensForSession_def draw_def op_simps a_dbE_def auth_CreateSession_def Let_def IssueForSession_def
        split: option.splits)
qed

text \<open>C33. A refresh that has read its session before a sign-out of all sessions is carried out, and
  finishes after it, succeeds: right after the sign-out every session of the account is revoked,
  and after the refresh the account has a live session again.\<close>

theorem refresh_outlives_logout_all:
  assumes "Refresh_read svc raw w = (Inr (s, user), w1)" "LogoutAll (us_id user) w1 = (Inr (), w2)" "w_faults w2 = []"
    and "au_random w2 = Some x # xs" "au_ids w2 = i # is"
    and "\<forall>s \<in> set (au_sessions w2). se_id s \<noteq> i \<and> se_refresh_hash s \<noteq> sha256 svc x"
    and "\<And>k c. SignedString svc k c \<noteq> None" "0 < refreshTTL svc"
  shows "(\<forall>t \<in> set (au_sessions w2). se_user t = us_id user \<longrightarrow> se_revoked_at t \<noteq> None) \<and>
    (\<exists>tok w3. Refresh_write svc (s, user) ua w2 = (Inr (user, tok), w3) \<and>
      (\<exists>t \<in> set (au_sessions w3). se_user t = us_id user \<and> live_session (w_now w3) t))"
proof
  have "snd (RevokeAllUserSessions (us_id user) (w1\<lparr>w_faults := tl (w_faults w1)\<rparr>)) = w2"
    using assms(2) by (simp add: LogoutAll_def a_db_Inr)
  then show "\<forall>t \<in> set (au_sessions w2). se_user t = us_id user \<longrightarrow> se_revoked_at t \<noteq> None"
    by (auto simp: RevokeAllUserSessions_def revoke_where_def)
  define v where "v = snd (RotateSession (se_id s) w2)"
  have v: "w_faults v = []" "au_random v = Some x # xs" "au_ids v = i # is" "w_now v = w_now w2"
    "\<forall>s \<in> set (au_sessions v). se_id s \<noteq> i \<and> se_refresh_hash s \<noteq> sha256 svc x"
    using assms(3-6) by (auto simp: v_def RotateSession_def revoke_where_def)
  obtain tok w' where t: "issueTokensForSession svc user ua v = (Inr (tok, i), w')" "w_now w' = w_now v" "w_faults w' = []"
    "au_sessions w' = au_sessions v @ [\<lparr>se_id = i, se_user = us_id user, se_refresh_hash = sha256 svc x, se_agent = ua,
      se_revoked_at = None, se_revoked_reason = [], se_expires = w_now v + refreshTTL svc\<rparr>]"
    using issueTokensForSession_ok [OF v(1-3,5) assms(7)] by blast
  have rot: "a_db (RotateSession (se_id s)) w2 = (Inr (), v)"
    using assms(3) by (simp add: a_db_def op_simps v_def healthy_noop RotateSession_def revoke_where_def)
  have "Refresh_write svc (s, user) ua w2 = (Inr (user, tok), ignoreE (a_db (MoveStepUpTokensToSession (se_id s) i)) w')"
    using rot t(1) by (simp add: Refresh_write_def bindE_def)
  moreover have "au_sessions (ignoreE (a_db (MoveStepUpTokensToSession (se_id s) i)) w') = au_sessions w'"
    "w_now (ignoreE (a_db (MoveStepUpTokensToSession (se_id s) i)) w') = w_now w'"
    using t(3) by (simp_all add: a_db_def op_simps MoveStepUpTokensToSession_def)
  ultimately show "\<exists>tok w3. Refresh_write svc (s, user) ua w2 = (Inr (user, tok), w3) \<and>
      (\<exists>t \<in> set (au_sessions w3). se_user t = us_id user \<and> live_session (w_now w3) t)"
    using t(2,4) assms(8) by (intro exI conjI) (auto simp: live_session_def)
qed

section \<open>Passwords\<close>

lemma change_password_sessions:
  assumes "ChangePassword svc u old new cur w = (Inr (), w1)" "w_faults w = []"
  shows "au_sessions w1 = au_sessions (snd (revoke_where (\<lambda>s. se_user s = u \<and> uuidParse svc cur \<noteq> Some (se_id s)) ''signed_out'' w))"
proof -
  obtain user h v where u: "UserByID u w = (Inr user, w)" "us_id user = u"
    and up: "a_db (UpdateUserPassword u h) w = (Inr (), v)" and w1: "w1 = afterPasswordWritten svc user cur v"
    using assms UserByID_Inr [of u w]
    by (auto simp: ChangePassword_def bindE_Inr HashPassword_def throwE_apply retE_apply healthy_noop
        split: if_splits option.splits)
  have v: "v = snd (UpdateUserPassword u h w)"
    using a_db_Inr [OF up] assms(2) by (simp add: healthy_noop)
  have "w_faults v = []" "w_now v = w_now w" "au_sessions v = au_sessions w"
    using assms(2) by (simp_all add: v UpdateUserPassword_def)
  then show ?thesis
    by (auto simp: w1 u(2) afterPasswordWritten_def mail_to_def revoke_others_def op_simps a_db_def healthy_noop
        RevokeOtherUserSessions_def RevokeAllUserSessions_def revoke_where_def split: option.splits)
qed

lemma revoke_where_dead:
  assumes "x \<in> set (au_sessions (snd (revoke_where P reason w)))" "P x"
  shows "se_revoked_at x \<noteq> None"
proof -
  obtain y where y: "y \<in> set (au_sessions w)" "x = (if P y \<and> se_revoked_at y = None
      then y\<lparr>se_revoked_at := Some (w_now w), se_revoked_reason := reason\<rparr> else y)"
    using assms(1) unfolding revoke_where_def by (auto simp del: if_image_distrib)
  then show ?thesis using assms(2) by (cases "P y \<and> se_revoked_at y = None") auto
qed

lemma dead_token_refused:
  assumes "dead_token (sha256 svc raw) w"
  shows "\<exists>e. fst (auth_Refresh svc raw ua w) = Inl e"
proof (rule ccontr)
  assume "\<nexists>e. fst (auth_Refresh svc raw ua w) = Inl e"
  then obtain x where "fst (auth_Refresh svc raw ua w) = Inr x" by (cases "fst (auth_Refresh svc raw ua w)") auto
  then obtain user t w1 where "auth_Refresh svc raw ua w = (Inr (user, t), w1)" by (metis prod.collapse surj_pair)
  then obtain s w0 where "Refresh_read svc raw w = (Inr (s, user), w0)" by (rule refresh_Inr)
  from refresh_read_row [OF this] show False using assms by (simp add: dead_token_def)
qed

text \<open>C8. After a password change on a healthy database, the refresh token of every other session of
  the account is refused and no access token of such a session authenticates as the account,
  whatever requests follow; the session that made the change keeps its row as it was.\<close>

theorem password_change_evicts:
  assumes "ChangePassword svc u old new cur w = (Inr (), w1)" "w_faults w = []"
    and "GetSessionByRefreshHash (sha256 svc raw) w = Some s" "se_user s = u" "uuidParse svc cur \<noteq> Some (se_id s)"
  shows "(\<exists>e. fst (auth_Refresh svc raw ua (auth_run svc es w1)) = Inl e) \<and>
    (\<forall>cl p. uuidParse svc (cl_SessionID cl) = Some (se_id s) \<longrightarrow>
      fst (AuthenticateAccessToken svc (Some cl) (auth_run svc es w1)) = Inr p \<longrightarrow> pr_UserID p \<noteq> u) \<and>
    (\<forall>t \<in> set (au_sessions w). uuidParse svc cur = Some (se_id t) \<longrightarrow> t \<in> set (au_sessions w1))"
proof -
  define P :: "Session \<Rightarrow> bool" where "P = (\<lambda>s. se_user s = u \<and> uuidParse svc cur \<noteq> Some (se_id s))"
  have rows: "au_sessions w1 = au_sessions (snd (revoke_where P ''signed_out'' w))"
    using change_password_sessions [OF assms(1,2)] by (simp add: P_def)
  have "dead_token (sha256 svc raw) w1"
    using assms(3-5) by_hash_revoked [of "sha256 svc raw" P "''signed_out''" w] by_hash_cong [OF rows]
    by (auto simp: dead_token_def P_def)
  then have "dead_token (sha256 svc raw) (auth_run svc es w1)" by (rule token.run [OF run_admissible_top])
  moreover have "dead_session (se_id s) u w1"
    unfolding dead_session_def rows revoked_ids
  proof (intro conjI ballI impI)
    show "se_id s \<in> se_id ` set (au_sessions w)"
      using find_SomeD [OF assms(3) [unfolded GetSessionByRefreshHash_def]] by simp
    fix x assume x: "x \<in> set (au_sessions (snd (revoke_where P ''signed_out'' w)))" "se_id x = se_id s \<and> se_user x = u"
    show "se_revoked_at x \<noteq> None"
      by (rule revoke_where_dead [OF x(1)]) (use x(2) assms(5) in \<open>auto simp: P_def\<close>)
  qed
  then have "dead_session (se_id s) u (auth_run svc es w1)" by (rule dead.run [OF run_admissible_top])
  then have "pr_UserID p \<noteq> u"
    if "uuidParse svc (cl_SessionID cl) = Some (se_id s)"
      "fst (AuthenticateAccessToken svc (Some cl) (auth_run svc es w1)) = Inr p" for cl p
    using authenticate_live [OF that(2)] that(1) by (auto simp: dead_session_def)
  moreover have "t \<in> set (au_sessions w1)" if "t \<in> set (au_sessions w)" "uuidParse svc cur = Some (se_id t)" for t
  proof -
    have "\<not> P t" using that(2) by (simp add: P_def)
    then show ?thesis using that(1) by (force simp: rows revoke_where_def)
  qed
  ultimately show ?thesis using dead_token_refused by blast
qed

section \<open>An outage\<close>

text \<open>C32. A provider sign-in of an account whose second factor is on stops at the challenge when the
  database answers; when that one lookup fails it hands out a live session without the second
  factor.\<close>

theorem outage_skips_second_factor:
  assumes "mfaRepo svc" "au_mfa w (us_id user) = Some r" "mf_enabled r" "w_faults w = [True]"
    and "au_random w = Some x # xs" "au_ids w = i # is"
    and "\<forall>s \<in> set (au_sessions w). se_id s \<noteq> i \<and> se_refresh_hash s \<noteq> sha256 svc x"
    and "\<And>k c. SignedString svc k c \<noteq> None" "0 < refreshTTL svc"
  shows "(\<exists>t. fst (providerSession svc user ua (w\<lparr>w_faults := []\<rparr>)) = Inr (MFARequired user t)) \<and>
    (\<exists>tok w'. providerSession svc user ua w = (Inr (Signed_in user tok), w') \<and>
      (\<exists>s \<in> set (au_sessions w'). se_user s = us_id user \<and> live_session (w_now w') s))"
proof
  have "mfaEnabled svc (us_id user) (w\<lparr>w_faults := []\<rparr>) = (True, w\<lparr>w_faults := []\<rparr>)"
    using assms(1-3) by (simp add: mfaEnabled_def tryE_def op_simps GetUserMFA_def)
  then show "\<exists>t. fst (providerSession svc user ua (w\<lparr>w_faults := []\<rparr>)) = Inr (MFARequired user t)"
    using assms(8) by (auto simp: providerSession_def session_or_challenge_def Issue_def IssueForSession_def op_simps split: option.splits)
  define v where "v = w\<lparr>w_faults := []\<rparr>"
  have m: "mfaEnabled svc (us_id user) w = (False, v)"
    using assms(1,4) by (simp add: mfaEnabled_def tryE_def repo_def v_def)
  have v: "w_faults v = []" "au_random v = Some x # xs" "au_ids v = i # is"
    "\<forall>s \<in> set (au_sessions v). se_id s \<noteq> i \<and> se_refresh_hash s \<noteq> sha256 svc x"
    using assms(5-7) by (simp_all add: v_def)
  obtain tok w' where t: "issueTokensForSession svc user ua v = (Inr (tok, i), w')" "w_now w' = w_now v"
    "au_sessions w' = au_sessions v @ [\<lparr>se_id = i, se_user = us_id user, se_refresh_hash = sha256 svc x, se_agent = ua,
      se_revoked_at = None, se_revoked_reason = [], se_expires = w_now v + refreshTTL svc\<rparr>]"
    using issueTokensForSession_ok [OF v assms(8)] by blast
  have "providerSession svc user ua w = (Inr (Signed_in user tok), w')"
    using m t(1) by (simp add: providerSession_def session_or_challenge_def issueTokens_def op_simps)
  then show "\<exists>tok w'. providerSession svc user ua w = (Inr (Signed_in user tok), w') \<and>
      (\<exists>s \<in> set (au_sessions w'). se_user s = us_id user \<and> live_session (w_now w') s)"
    using t(2,3) assms(9) by (auto simp: live_session_def)
qed

lemmas acct_defs = acct_svc_def acct_user_def acct_session_def acct_world_def
lemmas login_eval = Login_def loginIdentifier_def GetUserByLoginIdentifier_def
  gateLogin_def loginSucceeded_def CheckPassword_def session_or_challenge_def mfaEnabled_def tryE_def a_row_def a_db_def a_dbE_def
  op_simps GetUserMFA_def Issue_def IssueForSession_def forMFA_def mfaAudienceSuffix_def note_session_def
lemmas challenge_eval = challenge_read_def Parse_token_def UserByID_def GetUserByID_def openTOTPSecret_def IsSealed_def EncPrefix_def
  HasPrefix_def matchTOTPStep_def Unix_def totp_Period_def

lemma acct_text [simp]:
  "TrimSpace ''ann'' = ''ann''" "TrimSpace ''000060'' = ''000060''" "TrimSpace ''111111'' = ''111111''"
  by code_simp+

lemma acct_lower [simp]: "ToLower ''ann'' = ''ann''" "ToLower ''a@x'' = ''a@x''"
  by (simp_all add: ToLower_def lower_char_def byte_in_def)

lemma acct_digits [simp]: "looksLikeTOTPCode ''000060''" "looksLikeTOTPCode ''111111''"
  by (simp_all add: looksLikeTOTPCode_def byte_in_def)

lemma acct_login:
  "Login acct_svc [] \<lparr>li_Email = [], li_Identifier = ''ann'', li_Password = ''pw'', li_ClientIP = []\<rparr> [] (acct_world [] ss) =
   (Inr (MFARequired acct_user ''app:mfau''), acct_world [] ss)"
  by (simp add: acct_defs login_eval)

lemma acct_right_code:
  "challenge_read acct_svc ''app:mfau'' ''000060'' (acct_world [] ss) = (Inr (acct_user, Totp_step 2), acct_world [] ss)"
  by (simp add: acct_defs login_eval challenge_eval)

lemma acct_wrong_code:
  "challenge_read acct_svc ''app:mfau'' ''111111'' (acct_world [] ss) = (Inl ErrInvalidMFACode, acct_world [] ss)"
  by (simp add: acct_defs login_eval challenge_eval)

lemma acct_wrong_password:
  "UserByID ''u'' (acct_world [] ss) = (Inr acct_user, acct_world [] ss)"
  "DisableTOTP acct_svc ''u'' ''guess'' cur (acct_world [] ss) = (Inl ErrInvalidPassword, acct_world [] ss)"
  by (simp_all add: acct_defs DisableTOTP_def login_eval challenge_eval)

lemma acct_admissible:
  "run_admissible (but ''u'') (but ''u'') acct_svc acct_events (acct_world [] ss)"
  by (simp add: acct_events_def acct_login acct_wrong_code acct_wrong_password CompleteMFAChallenge_def bindE_def)
    (simp add: acct_defs CheckPassword_def)

text \<open>A sign-in with the password stops at the challenge, and neither it nor the wrong attempts after it give access.\<close>

theorem no_session_without_second_factor_witness:
  "fst (Login acct_svc [] \<lparr>li_Email = [], li_Identifier = ''ann'', li_Password = ''pw'', li_ClientIP = []\<rparr> []
     (acct_world [] [acct_session ''s'' (Some 1)])) = Inr (MFARequired acct_user ''app:mfau'') \<and>
   (\<nexists>c p. fst (AuthenticateAccessToken acct_svc c (auth_run acct_svc acct_events (acct_world [] [acct_session ''s'' (Some 1)]))) = Inr p \<and>
     pr_UserID p = ''u'')"
  using no_session_without_second_factor [of acct_svc "acct_world [] [acct_session ''s'' (Some 1)]" "''u''"
      "\<lparr>mf_secret = ''s'', mf_enabled = True, mf_last_step = None\<rparr>" acct_events]
    acct_admissible [of "[acct_session ''s'' (Some 1)]"] acct_login [of "[acct_session ''s'' (Some 1)]"]
  by (auto simp: acct_svc_def acct_world_def acct_session_def)

lemma with_snd: "fst x = a \<Longrightarrow> x = (a, snd x)"
  by (cases x) simp

lemmas issue_eval = issueTokens_def issueTokensForSession_def draw_def auth_CreateSession_def Let_def noteSignIn_def
lemmas refresh_eval = Refresh_read_def Refresh_write_def GetSessionByRefreshHash_def UserByID_def GetUserByID_def
  RotateSession_def revoke_where_def MoveStepUpTokensToSession_def

lemma acct_challenge:
  "fst (challenge_write acct_svc [] (acct_user, Totp_step 2) [] (acct_world [] [])) =
    Inr (acct_user, \<lparr>tk_access = ''appu'', tk_refresh = ''x1''\<rparr>)"
  by (simp add: acct_defs challenge_write_def spend_factor_def BurnTOTPStep_def newer_step_def login_eval issue_eval)

text \<open>The code of the demo account, presented again a second later.\<close>

theorem second_factor_single_use_witness:
  "fst (challenge_write acct_svc [] (acct_user, Totp_step 2) [] (acct_world [] [])) =
     Inr (acct_user, \<lparr>tk_access = ''appu'', tk_refresh = ''x1''\<rparr>) \<and>
   (\<exists>e. fst (challenge_write acct_svc [] (acct_user, Totp_step 2) []
     (auth_run acct_svc [Ev_time (61 * Second)] (snd (challenge_write acct_svc [] (acct_user, Totp_step 2) [] (acct_world [] []))))) = Inl e)"
proof
  show w: "fst (challenge_write acct_svc [] (acct_user, Totp_step 2) [] (acct_world [] [])) =
     Inr (acct_user, \<lparr>tk_access = ''appu'', tk_refresh = ''x1''\<rparr>)"
    by (rule acct_challenge)
  show "\<exists>e. fst (challenge_write acct_svc [] (acct_user, Totp_step 2) []
     (auth_run acct_svc [Ev_time (61 * Second)] (snd (challenge_write acct_svc [] (acct_user, Totp_step 2) [] (acct_world [] []))))) = Inl e"
    by (rule second_factor_single_use [OF acct_right_code with_snd [OF w]]) simp_all
qed

lemma acct_racing:
  "Refresh_read acct_svc ''s'' (acct_world [] [acct_session ''s'' None]) =
     (Inr (acct_session ''s'' None, acct_user), acct_world [] [acct_session ''s'' None])"
  "LogoutAll ''u'' (acct_world [] [acct_session ''s'' None]) = (Inr (), acct_world [] [acct_session ''s'' (Some (60 * Second))])"
  by (simp_all add: acct_defs refresh_eval login_eval LogoutAll_def RevokeAllUserSessions_def)

lemma acct_rewrite:
  "fst (Refresh_write acct_svc (acct_session ''s'' None, acct_user) [] (auth_run acct_svc [] (acct_world [] [acct_session ''s'' None]))) =
    Inr (acct_user, \<lparr>tk_access = ''appu'', tk_refresh = ''x1''\<rparr>)"
  "w_faults (snd (Refresh_write acct_svc (acct_session ''s'' None, acct_user) [] (acct_world [] [acct_session ''s'' None]))) = []"
  by (simp_all add: acct_defs refresh_eval login_eval issue_eval)

text \<open>The rotated token of the demo account's session is presented a second time, a second later.\<close>

theorem refresh_replay_revokes_witness:
  "let w' = auth_run acct_svc [Ev_time (61 * Second)] (snd (Refresh_write acct_svc (acct_session ''s'' None, acct_user) []
        (acct_world [] [acct_session ''s'' None]))) in
    fst (auth_Refresh acct_svc ''s'' [] w') = Inl ErrInvalidRefresh \<and>
    \<not> list_ex (\<lambda>s. se_user s = ''u'' \<and> se_revoked_at s = None) (au_sessions (snd (auth_Refresh acct_svc ''s'' [] w')))"
proof -
  have "GetSessionByRefreshHash (sha256 acct_svc ''s'') (auth_run acct_svc [] (acct_world [] [acct_session ''s'' None])) =
      Some (acct_session ''s'' None)" "se_revoked_at (acct_session ''s'' None) = None" "us_id acct_user = ''u''"
    by (simp_all add: acct_defs GetSessionByRefreshHash_def)
  then show ?thesis
    using refresh_replay_revokes [OF acct_racing(1) with_snd [OF acct_rewrite(1)], of "[]" "[Ev_time (61 * Second)]"] acct_rewrite(2)
    by (auto simp: Let_def list_ex_iff)
qed

text \<open>The demo account signs out everywhere between the two halves of a refresh.\<close>

theorem refresh_outlives_logout_all_witness:
  "\<exists>tok w3. Refresh_write acct_svc (acct_session ''s'' None, acct_user) [] (acct_world [] [acct_session ''s'' (Some (60 * Second))]) =
      (Inr (acct_user, tok), w3) \<and> list_ex (\<lambda>t. se_user t = ''u'' \<and> live_session (w_now w3) t) (au_sessions w3)"
  using refresh_outlives_logout_all [OF acct_racing(1), of "acct_world [] [acct_session ''s'' (Some (60 * Second))]"
      "''x1''" "[Some ''x2'', Some ''x3'']" "''n1''" "[''n2'', ''n3'']" "[]"] acct_racing(2)
  by (auto simp: acct_defs list_ex_iff)

lemma acct_change:
  "fst (ChangePassword acct_svc ''u'' ''pw'' ''new'' ''s'' (acct_world [] [acct_session ''s'' None, acct_session ''t'' None])) = Inr ()"
  by (simp add: acct_defs ChangePassword_def refresh_eval login_eval HashPassword_def UpdateUserPassword_def)

text \<open>The demo account changes its password from session \<open>s\<close>; session \<open>t\<close> is out for good.\<close>

theorem password_change_evicts_witness:
  "\<exists>e. fst (auth_Refresh acct_svc ''t'' [] (auth_run acct_svc acct_events
     (snd (ChangePassword acct_svc ''u'' ''pw'' ''new'' ''s'' (acct_world [] [acct_session ''s'' None, acct_session ''t'' None]))))) = Inl e"
  using password_change_evicts [OF with_snd [OF acct_change], of "''t''" "acct_session ''t'' None" "[]" acct_events]
  by (simp add: acct_defs GetSessionByRefreshHash_def)

text \<open>One failed query lets the demo account in without its second factor.\<close>

theorem outage_skips_second_factor_witness:
  "\<exists>tok w'. providerSession acct_svc acct_user [] (acct_world [True] []) = (Inr (Signed_in acct_user tok), w') \<and>
     list_ex (\<lambda>s. se_user s = ''u'' \<and> live_session (w_now w') s) (au_sessions w')"
  using outage_skips_second_factor [of acct_svc "acct_world [True] []" acct_user
      "\<lparr>mf_secret = ''s'', mf_enabled = True, mf_last_step = None\<rparr>" "''x1''" "[Some ''x2'', Some ''x3'']" "''n1''" "[''n2'', ''n3'']" "[]"]
  by (simp add: acct_defs list_ex_iff)

end
