(* ===== verification/Spec2Isabelle.thy ===== *)
theory Spec2Isabelle
  imports Rate_Limit Short_Id Mention Hls_Manifest Upload_Delivery Transcode_Props Media_Lifecycle Media_Ownership Migration_Props Login_Cap Auth_Props
begin

text \<open>
  \<^bold>\<open>Vidra Core: a verification library of its media pipeline and its accounts.\<close>

  Vidra Core is the Go backend of a video platform. A file arrives in chunks
  (\<open>internal/upload\<close>), a completed upload becomes a durable job (\<open>internal/uploadfinalize\<close>) that
  assembles it and hands it to the video pipeline, a transcode job (\<open>internal/transcode\<close>) turns it
  into renditions, and a sweep (\<open>internal/mediagc\<close>) reclaims what no row references any more. A
  storage migration (\<open>internal/storagemigration\<close>) moves the whole library to another store while the
  instance runs, and holds the sweep off until it is over. Accounts (\<open>internal/auth\<close>) decide who may
  ask for any of it. All of them keep their state in database tables, reached through the generated queries of
  \<open>internal/store/sqlcgen\<close>, and their bytes in a blob store (\<open>internal/storage\<close>); jobs are claimed
  under leases by loops (\<open>internal/jobloop\<close>, \<open>internal/workerpool\<close>, \<open>internal/jobrecovery\<close>).
  Around this core stand small pure components: the rate limiter, short ids, mentions, HLS manifest
  checks and the retry schedule.

  \<^bold>\<open>How code becomes definitions.\<close>

  \<^item> A Go function that returns an error is an operation \<open>'s \<Rightarrow> ('e + 'a) \<times> 's\<close>; \<open>bindE\<close> is the early
    return. Every database statement runs through \<open>repo\<close>, which pops a schedule of faults, and every
    system call of the disk through \<open>syscall\<close>, which pops a schedule of errors: theorems without a
    premise on the schedules hold for all failures. A statement is one atomic function on the tables,
    with the constraints of the schema that can refuse it.
  \<^item> Machine integers are integers with \<open>wrap64\<close> and \<open>wrap32\<close> written out; instants are nanoseconds.
  \<^item> Strings and bodies are byte strings. Ids are their canonical text.
  \<^item> Loops are total functions with a measure; \<open>chunkAssembler.Read\<close>, \<open>Pass.run\<close> and the ticker loop,
    which need not end, are \<open>partial_function (option)\<close>, and their theorems say when they return.
  \<^item> Code outside the repository (the UUID parser, the transcoder, the S3 client, the video pipeline)
    is a parameter; what is required of it is a premise or a locale assumption.

  \<^bold>\<open>Theories.\<close>

  \<^item> \<open>Vidra_Prelude\<close>, \<open>Numerals\<close>: errors and state, the database seam, integers, positional numerals;
    the collections \<open>op_simps\<close>, \<open>keeps_rules\<close>, \<open>preserves_rules\<close>, \<open>go_int\<close>, \<open>fs_simps\<close>.
  \<^item> \<open>Blob_Store\<close>, \<open>Blob_Disk\<close> (\<open>storage/local.go\<close>, \<open>classify.go\<close>, \<open>s3.go\<close>'s key rules): the file
    system as a table, readers and \<open>io.Copy\<close>, the backend's operations. Keys stay below the root, a
    put stores exactly the bytes delivered, and the backend refines a map over every sequence of
    commands. The locale \<open>object_store\<close> is what the services rely on.
  \<^item> \<open>Durable_Queue\<close> (the job tables' statements): claims, leases, sweeps, run by any number of
    workers on the jobs in their hands; a lease that is kept is exclusive, and a holder whose lease ran
    out can put a job back under the next one.
  \<^item> \<open>Upload\<close>, \<open>Upload_Roundtrip\<close>, \<open>Upload_Sessions\<close> (\<open>upload/service.go\<close>): sessions, chunks, ledger,
    assembler, cancel, sweep; split and reassemble is the identity, sessions belong to their owner.
  \<^item> \<open>Upload_Finalize\<close>, \<open>Upload_Delivery\<close> (\<open>uploadfinalize/service.go\<close>): enqueue, drain, the run and its
    failure ladder, and the composition of upload, queue and worker from chunks to the pipeline.
  \<^item> \<open>Retry\<close> (\<open>retry/retry.go\<close>): the backoff and the locale \<open>retry_policy\<close>, interpreted on the upload
    and transcode ladders.
  \<^item> \<open>Worker_Loop\<close> (\<open>workerpool/pool.go\<close>, \<open>jobloop/jobloop.go\<close>, \<open>jobrecovery/jobrecovery.go\<close>): the pool
    over all interleavings, the ticker loop with its outage ladder, the recovery sweep.
  \<^item> \<open>Transcode\<close>, \<open>Transcode_Props\<close> (\<open>transcode/service.go\<close>): enqueue, admission gates, the run per
    target, storing of results, failure ladder, progress throttle.
  \<^item> \<open>Media_GC\<close>, \<open>Media_GC_Props\<close> (\<open>mediagc/service.go\<close>): the reference set, the sweep with its gates
    and breaker. \<open>gc_protected\<close> and \<open>gc_garbage\<close> say what the database needs and what is waste;
    the sweep keeps the one under every failure and removes the other on a healthy disk.
  \<^item> \<open>Media_Ownership\<close> (\<open>storage/marker.go\<close>, \<open>resolveBucketOwnership\<close> of \<open>cmd/api/main.go\<close>): who may
    delete from a shared bucket, over the locale \<open>marker_store\<close>.
  \<^item> \<open>Media_Lifecycle\<close>: the sweep over the tables the transcoder writes.
  \<^item> \<open>Storage_Migration\<close> (\<open>storagemigration/service.go\<close>, \<open>controls.go\<close>, \<open>storage/identity.go\<close>,
    \<open>writehealth.go\<close>, \<open>fallback.go\<close>): campaigns, the object ledger, the sweep in both topologies, copy and
    verify, the operator's controls, dual reads, and every statement they use.
  \<^item> \<open>Migration_Ledger\<close>, \<open>Migration_Safety\<close>: the running system as a step relation (sweeps in two
    halves, copy workers, controls, uploads, deletions, crashes, faults), over the contracts
    \<open>migration_store\<close> and \<open>store_pair\<close>; an invariant by the state of each ledger row says where
    every object is held. \<open>Migration_Stores\<close> interprets the contracts on the local disk, with every
    schedule of its errors, and on a bucket with atomic writes.
  \<^item> \<open>Migration_Run\<close>: a run that nothing disturbs, over \<open>reliable_store\<close> (interpreted on a healthy disk
    and on a bucket), with the exact state after every pass.
  \<^item> \<open>Migration_Props\<close>: no object is lost, an undisturbed migration finishes, the table of controls,
    dual reads as one map, the gate of the media sweep, and two ways the code falls short.
  \<^item> \<open>Ip_Scope\<close>, \<open>Known_Devices\<close>, \<open>Login_Lock\<close> (\<open>auth/loginlock.go\<close>, \<open>auth/devices.go\<close>): the network prefix
    of a client, recognised devices, the failed-login counters and locks, and sign-ins as programs
    whose statements interleave. \<open>Login_Guesses\<close> bounds what one prefix can guess; \<open>Login_Cap\<close> is about
    the account-wide cap, and shows that an attempt that runs alone is the gate of the service.
  \<^item> \<open>Auth_Model\<close> (\<open>auth/service.go\<close>, \<open>mfa.go\<close>, \<open>sessionauth.go\<close>, \<open>passwordchange.go\<close>, \<open>reset.go\<close>,
    \<open>stepup.go\<close>, \<open>account.go\<close>, \<open>jwt.go\<close>, \<open>secretbox\<close>): sign-in behind the gate and the second factor,
    sessions, refresh, TOTP and recovery codes, passwords, step-up. \<open>Auth_Events\<close> makes requests
    events and states, as the locale \<open>auth_invariant\<close>, what an invariant of the session and
    second-factor tables owes to the statements; its lemmas carry it through every request.
    \<open>Auth_Props\<close> interprets it six times: no entry without the second factor, codes work once, a
    replayed refresh token is noticed, a password change evicts, and where an outage or a race breaks it.
  \<^item> \<open>Rate_Limit\<close>, \<open>Short_Id\<close>, \<open>Mention\<close>, \<open>Hls_Manifest\<close>: the pure components, against reference
    definitions (a window budget, numerals in base 58, a printer, a grammar of attribute lists).

  \<^bold>\<open>Assumptions worth knowing.\<close> Statements are atomic; interleavings of whole statements are
  explicit where a theorem is about them (the queue, the two halves of a cancel, racing boots, sign-ins
  and the two halves of a refresh and of a challenge). The jobs
  of one drain run in sequence. Logging, tracing and metrics are left out. The clock moves between
  operations, not inside them. Of a storage migration it is assumed that there is one campaign and one leader
  sweeping at a time, that the copy of one object is one step, that the lease sweep takes back only rows
  of workers that are gone, that a handle that describes
  itself as a store is that store, that uploads during the run use keys neither store nor ledger
  has, and that closing a reader succeeds; SHA-256 is a parameter, so that what is held is what has the
  same digest. In the account service random draws and generated ids come from lists of the world,
  bcrypt, JWT signing, the TOTP generator and the cipher are parameters, and the mailer takes every message. File names on the disk are names an operating system allows and each
  path has one entry, where a theorem says so.

  \<^bold>\<open>Not modelled.\<close> The HTTP layer, the S3 client, ffmpeg, federation and the importers: they are
  glue over external services. Of accounts: registration, the OAuth and ATProto flows up to the session
  they ask for, email change, owner recovery and profiles. Quotas and address filtering are self-contained
  logic and are the next candidates.
\<close>

end
